(* ===== verification/Prelude.thy ===== *)
theory Prelude
  imports Complex_Main "HOL-Library.Char_ord" "HOL-Library.List_Lexorder" "HOL-Library.Sublist" "HOL-Library.Multiset"
begin

section \<open>Shared vocabulary: Python values, text, tables\<close>

text \<open>
  What every component theory uses. A Python \<open>str\<close> is its UTF-8 byte list
  (Isabelle's \<open>string\<close>), so that byte-wise lexicographic order is Python's order by code
  point; lengths and slices that the source takes in code points are \<open>cp_len\<close> and
  \<open>cp_take\<close>. A value of type \<open>Any\<close> that the source inspects (parameters, tool
  results, JSON) is a \<open>pyval\<close>: a float carries its value and its \<open>repr\<close>, any other
  object its type name and its \<open>repr\<close>; a dict with string keys is an association list in
  insertion order. Instants and amounts of money (Python floats) are rationals. A random
  identifier (\<open>uuid4().hex\<close>) is an argument of the operation that draws it.
\<close>

named_theorems kernel_simps \<open>unfolding rules of the kernel-layer operations\<close>
named_theorems runtime_simps \<open>unfolding rules of the runtime-layer operations\<close>
named_theorems task_simps \<open>unfolding rules of the task-layer operations\<close>

type_synonym instant = rat
type_synonym uid = string

subsection \<open>Values\<close>

datatype pyval =
    PNone
  | PBool bool
  | PInt int
  | PFloat rat string
  | PStr string
  | PList "pyval list"
  | PDict "(string \<times> pyval) list"
  | PObj string string

type_synonym pydict = "(string \<times> pyval) list"

text \<open>Truth value of a Python object (\<open>bool(v)\<close>).\<close>

fun truthy :: "pyval \<Rightarrow> bool" where
  "truthy PNone = False"
| "truthy (PBool b) = b"
| "truthy (PInt i) = (i \<noteq> 0)"
| "truthy (PFloat r t) = (r \<noteq> 0)"
| "truthy (PStr s) = (s \<noteq> [])"
| "truthy (PList xs) = (xs \<noteq> [])"
| "truthy (PDict d) = (d \<noteq> [])"
| "truthy (PObj t r) = True"

text \<open>\<open>d[k] = v\<close>: replace in place, or append.\<close>

fun dict_set :: "'k \<Rightarrow> 'v \<Rightarrow> ('k \<times> 'v) list \<Rightarrow> ('k \<times> 'v) list" where
  "dict_set k v [] = [(k, v)]"
| "dict_set k v ((k', v') # r) = (if k' = k then (k, v) # r else (k', v') # dict_set k v r)"

definition dict_del :: "'k \<Rightarrow> ('k \<times> 'v) list \<Rightarrow> ('k \<times> 'v) list" where
  "dict_del k d = filter (\<lambda>p. fst p \<noteq> k) d"

definition dict_ok :: "('k \<times> 'v) list \<Rightarrow> bool" where
  "dict_ok d = distinct (map fst d)"

lemma map_of_dict_set [simp]: "map_of (dict_set k v d) = (map_of d)(k \<mapsto> v)"
  by (induction k v d rule: dict_set.induct) (auto simp: fun_eq_iff)

lemma keys_dict_set [simp]: "fst ` set (dict_set k v d) = insert k (fst ` set d)"
  by (induction k v d rule: dict_set.induct) auto

lemma dict_ok_Nil [simp]: "dict_ok []"
  by (simp add: dict_ok_def)

lemma dict_ok_dict_set [simp]: "dict_ok d \<Longrightarrow> dict_ok (dict_set k v d)"
  unfolding dict_ok_def
proof (induction k v d rule: dict_set.induct)
  case (1 k v)
  then show ?case by simp
next
  case (2 k v k' v' r)
  have "set (map fst (dict_set k v r)) = insert k (set (map fst r))"
    using keys_dict_set [of k v r] by simp
  with 2 show ?case by auto
qed

lemma map_of_dict_del [simp]: "map_of (dict_del k d) = (map_of d)(k := None)"
  by (induction d) (auto simp: dict_del_def fun_eq_iff)

lemma dict_ok_dict_del [simp]: "dict_ok d \<Longrightarrow> dict_ok (dict_del k d)"
  unfolding dict_ok_def dict_del_def by (induction d) auto

subsection \<open>Text\<close>

definition byte_of :: "char \<Rightarrow> nat" where
  "byte_of c = of_char c"

definition lower_char :: "char \<Rightarrow> char" where
  "lower_char c = (if 65 \<le> byte_of c \<and> byte_of c \<le> 90 then char_of (byte_of c + 32) else c)"

text \<open>\<open>str.lower\<close> on its ASCII part; other bytes are left alone.\<close>

definition lower :: "string \<Rightarrow> string" where
  "lower s = map lower_char s"

definition is_space :: "char \<Rightarrow> bool" where
  "is_space c = (byte_of c = 32 \<or> (9 \<le> byte_of c \<and> byte_of c \<le> 13) \<or> (28 \<le> byte_of c \<and> byte_of c \<le> 31))"

definition strip_by :: "(char \<Rightarrow> bool) \<Rightarrow> string \<Rightarrow> string" where
  "strip_by p s = rev (dropWhile p (rev (dropWhile p s)))"

definition strip :: "string \<Rightarrow> string" where
  "strip s = strip_by is_space s"

definition rstrip_char :: "char \<Rightarrow> string \<Rightarrow> string" where
  "rstrip_char c s = rev (dropWhile (\<lambda>x. x = c) (rev s))"

text \<open>\<open>needle in hay\<close> on strings.\<close>

fun contains :: "string \<Rightarrow> string \<Rightarrow> bool" where
  "contains hay needle = (prefix needle hay \<or> (case hay of [] \<Rightarrow> False | c # cs \<Rightarrow> contains cs needle))"

declare contains.simps [simp del]

lemma contains_Nil [simp]: "contains [] needle = (needle = [])"
  by (simp add: contains.simps)

lemma contains_Cons [simp]: "contains (c # cs) needle = (prefix needle (c # cs) \<or> contains cs needle)"
  by (simp add: contains.simps [of "c # cs"])

lemma contains_iff_sublist: "contains hay needle = sublist needle hay"
proof (induction hay)
  case Nil
  then show ?case by auto
next
  case (Cons c cs)
  then show ?case by (simp add: sublist_Cons_right)
qed

text \<open>Code points: every byte that is not a UTF-8 continuation byte starts one.\<close>

definition cp_start :: "char \<Rightarrow> bool" where
  "cp_start c = (\<not> (128 \<le> byte_of c \<and> byte_of c < 192))"

definition cp_len :: "string \<Rightarrow> nat" where
  "cp_len s = length (filter cp_start s)"

fun cp_take :: "nat \<Rightarrow> string \<Rightarrow> string" where
  "cp_take n [] = []"
| "cp_take n (c # cs) =
     (if cp_start c then (case n of 0 \<Rightarrow> [] | Suc m \<Rightarrow> c # cp_take m cs) else c # cp_take n cs)"

lemma cp_len_take_le: "cp_len (cp_take n s) \<le> n"
  by (induction n s rule: cp_take.induct) (auto simp: cp_len_def split: nat.splits)

lemma cp_take_prefix: "prefix (cp_take n s) s"
  by (induction n s rule: cp_take.induct) (auto split: nat.splits)

lemma cp_len_append [simp]: "cp_len (s @ t) = cp_len s + cp_len t"
  by (simp add: cp_len_def)

text \<open>Decimal rendering, \<open>str(n)\<close>.\<close>

definition digit_char :: "nat \<Rightarrow> char" where
  "digit_char d = char_of (48 + d)"

fun nat_str :: "nat \<Rightarrow> string" where
  "nat_str n = (if n < 10 then [digit_char n] else nat_str (n div 10) @ [digit_char (n mod 10)])"

declare nat_str.simps [simp del]

lemma nat_str_digits: "\<forall>c \<in> set (nat_str n). 48 \<le> byte_of c \<and> byte_of c \<le> 57"
proof (induction n rule: nat_str.induct)
  case (1 n)
  have "byte_of (digit_char d) = 48 + d" if "d < 10" for d
    using that by (simp add: byte_of_def digit_char_def)
  with 1 show ?case by (subst nat_str.simps) auto
qed

definition int_str :: "int \<Rightarrow> string" where
  "int_str i = (if i < 0 then ''-'' @ nat_str (nat (- i)) else nat_str (nat i))"

definition join :: "string \<Rightarrow> string list \<Rightarrow> string" where
  "join sep xs = (case xs of [] \<Rightarrow> [] | y # ys \<Rightarrow> y @ concat (map (\<lambda>z. sep @ z) ys))"

text \<open>\<open>text.split()\<close>: maximal runs of non-space characters.\<close>

fun split_ws_aux :: "string \<Rightarrow> string \<Rightarrow> string list" where
  "split_ws_aux acc [] = (if acc = [] then [] else [rev acc])"
| "split_ws_aux acc (c # cs) =
     (if is_space c then (if acc = [] then split_ws_aux [] cs else rev acc # split_ws_aux [] cs)
      else split_ws_aux (c # acc) cs)"

definition split_ws :: "string \<Rightarrow> string list" where
  "split_ws s = split_ws_aux [] s"

text \<open>\<open>s.split(c)\<close>.\<close>

fun split_on :: "char \<Rightarrow> string \<Rightarrow> string list" where
  "split_on c [] = [[]]"
| "split_on c (x # xs) =
     (if x = c then [] # split_on c xs
      else case split_on c xs of [] \<Rightarrow> [[x]] | w # ws \<Rightarrow> (x # w) # ws)"

text \<open>\<open>repr\<close> and \<open>str\<close> of a value.\<close>

definition hex_char :: "nat \<Rightarrow> char" where
  "hex_char d = (if d < 10 then char_of (48 + d) else char_of (87 + d))"

definition repr_char :: "char \<Rightarrow> char \<Rightarrow> string" where
  "repr_char q c =
     (if c = q \<or> byte_of c = 92 then [char_of (92 :: nat), c]
      else if byte_of c = 10 then [char_of (92 :: nat), CHR ''n'']
      else if byte_of c = 13 then [char_of (92 :: nat), CHR ''r'']
      else if byte_of c = 9 then [char_of (92 :: nat), CHR ''t'']
      else if byte_of c < 32 \<or> byte_of c = 127
        then [char_of (92 :: nat), CHR ''x'', hex_char (byte_of c div 16), hex_char (byte_of c mod 16)]
      else [c])"

definition repr_str :: "string \<Rightarrow> string" where
  "repr_str s =
     (let q = (if CHR 0x27 \<in> set s \<and> CHR 0x22 \<notin> set s then CHR 0x22 else CHR 0x27)
      in [q] @ concat (map (repr_char q) s) @ [q])"

fun py_repr :: "pyval \<Rightarrow> string" where
  "py_repr PNone = ''None''"
| "py_repr (PBool b) = (if b then ''True'' else ''False'')"
| "py_repr (PInt i) = int_str i"
| "py_repr (PFloat r t) = t"
| "py_repr (PStr s) = repr_str s"
| "py_repr (PList xs) = ''['' @ join '', '' (map py_repr xs) @ '']''"
| "py_repr (PDict d) = ''{'' @ join '', '' (map (\<lambda>(k, v). repr_str k @ '': '' @ py_repr v) d) @ ''}''"
| "py_repr (PObj t r) = r"

definition py_str :: "pyval \<Rightarrow> string" where
  "py_str v = (case v of PStr s \<Rightarrow> s | _ \<Rightarrow> py_repr v)"

text \<open>\<open>data.get(key)\<close>, and \<open>str(data.get(key) or "")\<close>.\<close>

definition dget :: "pydict \<Rightarrow> string \<Rightarrow> pyval" where
  "dget d k = (case map_of d k of None \<Rightarrow> PNone | Some v \<Rightarrow> v)"

definition str_or_empty :: "pyval \<Rightarrow> string" where
  "str_or_empty v = (if truthy v then py_str v else [])"

text \<open>\<open>json.dumps(v, sort_keys=True, ensure_ascii=False, default=repr)\<close>.\<close>

definition json_char :: "char \<Rightarrow> string" where
  "json_char c =
     (if byte_of c = 34 \<or> byte_of c = 92 then [char_of (92 :: nat), c]
      else if byte_of c = 10 then [char_of (92 :: nat), CHR ''n'']
      else if byte_of c = 13 then [char_of (92 :: nat), CHR ''r'']
      else if byte_of c = 9 then [char_of (92 :: nat), CHR ''t'']
      else if byte_of c = 8 then [char_of (92 :: nat), CHR ''b'']
      else if byte_of c = 12 then [char_of (92 :: nat), CHR ''f'']
      else if byte_of c < 32
        then [char_of (92 :: nat)] @ ''u00'' @ [hex_char (byte_of c div 16), hex_char (byte_of c mod 16)]
      else [c])"

definition json_quote :: "string \<Rightarrow> string" where
  "json_quote s = [CHR 0x22] @ concat (map json_char s) @ [CHR 0x22]"

fun json_text :: "pyval \<Rightarrow> string" where
  "json_text PNone = ''null''"
| "json_text (PBool b) = (if b then ''true'' else ''false'')"
| "json_text (PInt i) = int_str i"
| "json_text (PFloat r t) = t"
| "json_text (PStr s) = json_quote s"
| "json_text (PList xs) = ''['' @ join '', '' (map json_text xs) @ '']''"
| "json_text (PDict d) = ''{'' @ join '', '' (map (\<lambda>(k, v). json_quote k @ '': '' @ json_text v) d) @ ''}''"
| "json_text (PObj t r) = json_quote r"

fun sort_dicts :: "pyval \<Rightarrow> pyval" where
  "sort_dicts (PList xs) = PList (map sort_dicts xs)"
| "sort_dicts (PDict d) = PDict (sort_key fst (map (\<lambda>(k, v). (k, sort_dicts v)) d))"
| "sort_dicts v = v"

definition canonical_json :: "pyval \<Rightarrow> string" where
  "canonical_json v = json_text (sort_dicts v)"

text \<open>The canonical text does not depend on the insertion order of a dict.\<close>

lemma sort_dicts_order:
  assumes "dict_ok d" and "mset d = mset d'"
  shows "sort_dicts (PDict d) = sort_dicts (PDict d')"
proof -
  let ?f = "\<lambda>(k :: string, v). (k, sort_dicts v)"
  have "mset (map ?f d) = mset (map ?f d')" using assms(2) by (simp add: mset_map)
  then have m: "mset (map ?f d) = mset (sort_key fst (map ?f d'))" by simp
  have "distinct (map fst (map ?f d))" using assms(1) by (simp add: dict_ok_def comp_def case_prod_beta)
  then have i: "inj_on fst (set (map ?f d))" by (rule distinct_map [THEN iffD1, THEN conjunct2])
  have "sort_key fst (map ?f d) = sort_key fst (map ?f d')"
    using m i by (rule sort_key_inj_key_eq) simp
  then show ?thesis by simp
qed

lemma canonical_json_order: "dict_ok d \<Longrightarrow> mset d = mset d' \<Longrightarrow> canonical_json (PDict d) = canonical_json (PDict d')"
  unfolding canonical_json_def by (simp only: sort_dicts_order)

text \<open>The Polish letters of the messages, as their UTF-8 bytes.\<close>

abbreviation pl_a :: string where "pl_a \<equiv> [CHR 0xC4, CHR 0x85]"
abbreviation pl_c :: string where "pl_c \<equiv> [CHR 0xC4, CHR 0x87]"
abbreviation pl_e :: string where "pl_e \<equiv> [CHR 0xC4, CHR 0x99]"
abbreviation pl_l :: string where "pl_l \<equiv> [CHR 0xC5, CHR 0x82]"
abbreviation pl_n :: string where "pl_n \<equiv> [CHR 0xC5, CHR 0x84]"
abbreviation pl_o :: string where "pl_o \<equiv> [CHR 0xC3, CHR 0xB3]"
abbreviation pl_s :: string where "pl_s \<equiv> [CHR 0xC5, CHR 0x9B]"
abbreviation pl_x :: string where "pl_x \<equiv> [CHR 0xC5, CHR 0xBA]"
abbreviation pl_z :: string where "pl_z \<equiv> [CHR 0xC5, CHR 0xBC]"
abbreviation em_dash :: string where "em_dash \<equiv> [CHR 0xE2, CHR 0x80, CHR 0x94]"
abbreviation nl :: string where "nl \<equiv> [CHR 0x0A]"
abbreviation ellipsis :: string where "ellipsis \<equiv> [CHR 0xE2, CHR 0x80, CHR 0xA6]"

text \<open>\<open>text if len(text) <= limit else text[: limit - 1] + "..."\<close>, used all over the source.\<close>

definition shorten :: "nat \<Rightarrow> string \<Rightarrow> string" where
  "shorten limit s = (if cp_len s \<le> limit then s else cp_take (limit - 1) s @ ellipsis)"

lemma cp_len_ellipsis [simp]: "cp_len ellipsis = 1"
  by (simp add: cp_len_def cp_start_def byte_of_def)

lemma shorten_bounded: "0 < limit \<Longrightarrow> cp_len (shorten limit s) \<le> limit"
  using cp_len_take_le [of "limit - 1" s] by (auto simp: shorten_def)

text \<open>Characters of a string.\<close>

fun cp_chars :: "string \<Rightarrow> string list" where
  "cp_chars [] = []"
| "cp_chars (c # cs) =
     (case cp_chars cs of
        [] \<Rightarrow> [[c]]
      | w # ws \<Rightarrow> if w \<noteq> [] \<and> \<not> cp_start (hd w) then (c # w) # ws else [c] # w # ws)"

lemma concat_cp_chars [simp]: "concat (cp_chars s) = s"
  by (induction s) (auto split: list.splits)

lemma cp_chars_append: "b = [] \<or> cp_start (hd b) \<Longrightarrow> cp_chars (a @ b) = cp_chars a @ cp_chars b"
proof (induction a)
  case Nil
  then show ?case by simp
next
  case (Cons c a)
  then have ih: "cp_chars (a @ b) = cp_chars a @ cp_chars b" by blast
  show ?case
  proof (cases "cp_chars a")
    case Nil
    have a: "a = []" by (metis Nil concat.simps(1) concat_cp_chars)
    show ?thesis
    proof (cases b)
      case (Cons d ds)
      with Cons.prems have "cp_start d" by simp
      then have "\<exists>w ws. cp_chars (d # ds) = (d # w) # ws" by (auto split: list.splits)
      with \<open>cp_start d\<close> a Cons show ?thesis by (auto simp del: cp_chars.simps(2) simp: cp_chars.simps(2) [of c])
    qed (simp add: a)
  next
    case (Cons w ws)
    with ih show ?thesis by simp
  qed
qed

text \<open>The elements \<open>for x in v\<close> goes through; \<open>None\<close> is a \<open>TypeError\<close>.\<close>

definition py_iter :: "pyval \<Rightarrow> pyval list option" where
  "py_iter v =
     (case v of
        PList xs \<Rightarrow> Some xs
      | PStr s \<Rightarrow> Some (map PStr (cp_chars s))
      | PDict d \<Rightarrow> Some (map (PStr \<circ> fst) d)
      | _ \<Rightarrow> None)"

definition or_else :: "pyval \<Rightarrow> pyval \<Rightarrow> pyval" where
  "or_else a b = (if truthy a then a else b)"

text \<open>\<open>type(v).__name__\<close>.\<close>

fun type_name :: "pyval \<Rightarrow> string" where
  "type_name PNone = ''NoneType''"
| "type_name (PBool b) = ''bool''"
| "type_name (PInt i) = ''int''"
| "type_name (PFloat r t) = ''float''"
| "type_name (PStr s) = ''str''"
| "type_name (PList xs) = ''list''"
| "type_name (PDict d) = ''dict''"
| "type_name (PObj t r) = t"

subsection \<open>Rows of a table\<close>

text \<open>
  A SQLite table is the list of its rows in insertion order. \<open>UPDATE ... WHERE\<close> maps
  over it, \<open>DELETE ... WHERE\<close> filters it, and \<open>ORDER BY k LIMIT 1\<close> takes the first
  extremal row.
\<close>

definition update_where :: "('r \<Rightarrow> bool) \<Rightarrow> ('r \<Rightarrow> 'r) \<Rightarrow> 'r list \<Rightarrow> 'r list" where
  "update_where p f rows = map (\<lambda>r. if p r then f r else r) rows"

lemma set_update_where: "set (update_where p f rows) = f ` {r \<in> set rows. p r} \<union> {r \<in> set rows. \<not> p r}"
  by (auto simp: update_where_def)

lemma length_update_where [simp]: "length (update_where p f rows) = length rows"
  by (simp add: update_where_def)

lemma map_update_where [simp]:
  "(\<And>r. key (f r) = key r) \<Longrightarrow> map key (update_where p f rows) = map key rows"
  by (simp add: update_where_def)

lemma keys_update_where:
  assumes "\<And>r. key (f r) = key r"
  shows "key ` set (update_where p f rows) = key ` set rows"
  using map_update_where [of key f p rows] assms by (metis set_map)

lemma update_where_Nil [simp]: "update_where p f [] = []"
  by (simp add: update_where_def)

lemma update_where_Cons [simp]:
  "update_where p f (r # rows) = (if p r then f r else r) # update_where p f rows"
  by (simp add: update_where_def)

lemma update_where_id: "(\<And>r. r \<in> set rows \<Longrightarrow> \<not> p r) \<Longrightarrow> update_where p f rows = rows"
  by (induction rows) auto

text \<open>\<open>ORDER BY key DESC LIMIT 1\<close>.\<close>

fun pick_max :: "('r \<Rightarrow> 'k::linorder) \<Rightarrow> 'r list \<Rightarrow> 'r option" where
  "pick_max key [] = None"
| "pick_max key (r # rows) =
     (case pick_max key rows of None \<Rightarrow> Some r | Some q \<Rightarrow> Some (if key r < key q then q else r))"

lemma pick_max_None [simp]: "pick_max key rows = None \<longleftrightarrow> rows = []"
  by (cases rows) (auto split: option.splits)

lemma pick_max_in: "pick_max key rows = Some r \<Longrightarrow> r \<in> set rows"
  by (induction rows arbitrary: r) (auto split: option.splits if_splits)

lemma pick_max_is_max: "pick_max key rows = Some r \<Longrightarrow> q \<in> set rows \<Longrightarrow> key q \<le> key r"
proof (induction rows arbitrary: r q)
  case Nil
  then show ?case by simp
next
  case (Cons x rows)
  show ?case
  proof (cases "pick_max key rows")
    case None
    with Cons.prems show ?thesis by auto
  next
    case (Some m)
    with Cons.prems Cons.IH [OF Some] show ?thesis
      by (auto split: if_splits intro: order_trans [of _ "key m"])
  qed
qed

definition row_by :: "('r \<Rightarrow> 'k) \<Rightarrow> 'k \<Rightarrow> 'r list \<Rightarrow> 'r option" where
  "row_by key k rows = find (\<lambda>r. key r = k) rows"

lemma row_by_None [simp]: "row_by key k rows = None \<longleftrightarrow> k \<notin> key ` set rows"
  by (auto simp: row_by_def find_None_iff)

lemma row_by_fresh [simp]: "k \<notin> key ` set rows \<Longrightarrow> row_by key k rows = None"
  by simp

lemma row_by_SomeD: "row_by key k rows = Some r \<Longrightarrow> r \<in> set rows \<and> key r = k"
  by (auto simp: row_by_def find_Some_iff)

lemma row_by_Nil [simp]: "row_by key k [] = None"
  by (simp add: row_by_def)

lemma row_by_Cons [simp]: "row_by key k (r # rows) = (if key r = k then Some r else row_by key k rows)"
  by (simp add: row_by_def)

lemma row_by_append: "row_by key k (rows @ more) =
    (case row_by key k rows of None \<Rightarrow> row_by key k more | Some r \<Rightarrow> Some r)"
  by (induction rows) auto

lemma row_by_update_where:
  assumes "\<And>r. key (f r) = key r"
  shows "row_by key k (update_where p f rows) =
    map_option (\<lambda>r. if p r then f r else r) (row_by key k rows)"
  using assms by (induction rows) auto

lemma row_by_update_key:
  assumes "\<And>r. key (f r) = key r"
  shows "row_by key m (update_where (\<lambda>r. key r = n) f rows) =
    (if m = n then map_option f (row_by key n rows) else row_by key m rows)"
  using assms by (induction rows) auto

lemma filter_update_elsewhere:
  assumes "\<And>r. p (f r) = p r" and "\<And>r. p r \<Longrightarrow> \<not> q r"
  shows "filter p (update_where q f rows) = filter p rows"
  using assms by (induction rows) auto

lemma filter_update_where:
  assumes "\<And>r. p (f r) = p r"
  shows "filter p (update_where p f rows) = map f (filter p rows)"
  using assms by (induction rows) auto

lemma row_by_distinct:
  "distinct (map key rows) \<Longrightarrow> r \<in> set rows \<Longrightarrow> row_by key (key r) rows = Some r"
  by (induction rows) auto

lemma find_SomeD: "find p xs = Some x \<Longrightarrow> x \<in> set xs \<and> p x"
  by (induction xs) (auto split: if_splits)

lemma map_sum_Inr_iff: "map_sum id f x = Inr y \<longleftrightarrow> (\<exists>z. x = Inr z \<and> y = f z)"
  by (cases x) auto

text \<open>\<open>xs[:limit]\<close>, and what SQL's \<open>LIMIT\<close> keeps (a negative limit keeps all).\<close>

definition slice_to :: "int \<Rightarrow> 'a list \<Rightarrow> 'a list" where
  "slice_to limit xs = take (nat (if 0 \<le> limit then limit else int (length xs) + limit)) xs"

definition sql_limit :: "int \<Rightarrow> 'a list \<Rightarrow> 'a list" where
  "sql_limit limit xs = (if limit < 0 then xs else take (nat limit) xs)"

lemma set_slice_to: "x \<in> set (slice_to limit xs) \<Longrightarrow> x \<in> set xs"
  by (auto simp: slice_to_def dest: in_set_takeD)

lemma set_sql_limit: "x \<in> set (sql_limit limit xs) \<Longrightarrow> x \<in> set xs"
  by (auto simp: sql_limit_def dest: in_set_takeD split: if_splits)

text \<open>A list comprehension whose element may raise: the first error wins.\<close>

fun try_map :: "('a \<Rightarrow> 'e + 'b) \<Rightarrow> 'a list \<Rightarrow> 'e + 'b list" where
  "try_map f [] = Inr []"
| "try_map f (x # xs) =
     (case f x of Inl e \<Rightarrow> Inl e | Inr y \<Rightarrow> (case try_map f xs of Inl e \<Rightarrow> Inl e | Inr ys \<Rightarrow> Inr (y # ys)))"

lemma try_map_Inr: "try_map f xs = Inr ys \<longleftrightarrow> list_all2 (\<lambda>x y. f x = Inr y) xs ys"
proof (induction xs arbitrary: ys)
  case (Cons x xs)
  show ?case by (auto simp: list_all2_Cons1 Cons.IH [symmetric] split: sum.splits)
qed auto

end
