(* ===== verification/Contracts.thy ===== *)
theory Contracts
  imports Prelude
begin

section \<open>The shared vocabulary (kernel/contracts.py)\<close>

text \<open>
  Failures as values, the one verdict type, evidence records, the redacted evidence summary
  handed to the frontend, execution profiles, step targets and the events and snapshots the
  kernel publishes. The lemmas show what a verdict may claim, that a summary never carries a
  value stored under a secret-looking name or a credential-looking string, and that a target
  survives being written and read back.
\<close>

subsection \<open>Failures\<close>

datatype failure =
    UNSUPPORTED_PLATFORM | INVALID_INPUT | PERMISSION_DENIED | APPROVAL_DENIED
  | EXECUTOR_FAILED | POSTCONDITION_FAILED | EFFECT_UNCERTAIN | PROVIDER_UNAVAILABLE
  | CANCELLED | PERSISTENCE_FAILED

fun failure_value :: "failure \<Rightarrow> string" where
  "failure_value UNSUPPORTED_PLATFORM = ''unsupported_platform''"
| "failure_value INVALID_INPUT = ''invalid_input''"
| "failure_value PERMISSION_DENIED = ''permission_denied''"
| "failure_value APPROVAL_DENIED = ''approval_denied''"
| "failure_value EXECUTOR_FAILED = ''executor_failed''"
| "failure_value POSTCONDITION_FAILED = ''postcondition_failed''"
| "failure_value EFFECT_UNCERTAIN = ''effect_uncertain''"
| "failure_value PROVIDER_UNAVAILABLE = ''provider_unavailable''"
| "failure_value CANCELLED = ''cancelled''"
| "failure_value PERSISTENCE_FAILED = ''persistence_failed''"

record capability_error =
  ce_failure :: failure
  ce_detail :: string
  ce_message :: string
  ce_user_message :: string
  ce_uncertain :: bool

definition CapabilityError :: "failure \<Rightarrow> string \<Rightarrow> string \<Rightarrow> bool \<Rightarrow> capability_error" where
  "CapabilityError f detail user_message uncertain =
     \<lparr>ce_failure = f, ce_detail = detail,
      ce_message = (if detail = [] then failure_value f else detail),
      ce_user_message = (if user_message = [] then detail else user_message),
      ce_uncertain = uncertain\<rparr>"

lemma inj_failure_value: "failure_value f = failure_value g \<Longrightarrow> f = g"
  by (cases f; cases g) simp_all

subsection \<open>Verification\<close>

record verification =
  v_goal_met :: bool
  v_checked :: bool
  v_uncertain :: bool
  v_checked_by :: string
  v_reason :: string
  v_unmet :: "string list"
  v_evidence_ids :: "string list"

definition verified :: "verification \<Rightarrow> bool" where
  "verified v = (v_goal_met v \<and> v_checked v \<and> \<not> v_uncertain v)"

definition v_ok :: "verification \<Rightarrow> bool" where
  "v_ok v = v_goal_met v"

definition v_note :: "verification \<Rightarrow> string" where
  "v_note v = v_reason v"

definition mk_verification :: "bool \<Rightarrow> string \<Rightarrow> string list \<Rightarrow> bool \<Rightarrow> string \<Rightarrow> verification" where
  "mk_verification met reason unmet checked by =
     \<lparr>v_goal_met = met, v_checked = checked, v_uncertain = False, v_checked_by = by,
      v_reason = reason, v_unmet = unmet, v_evidence_ids = []\<rparr>"

definition unchecked_verdict :: "string \<Rightarrow> bool \<Rightarrow> verification" where
  "unchecked_verdict why met = mk_verification met why [] False ''none''"

definition uncertain_effect :: "string \<Rightarrow> verification" where
  "uncertain_effect why = (mk_verification False why [] False ''rules'')\<lparr>v_uncertain := True\<rparr>"

definition verification_to_dict :: "verification \<Rightarrow> pydict" where
  "verification_to_dict v =
     [(''ok'', PBool (v_goal_met v)), (''goal_met'', PBool (v_goal_met v)),
      (''checked'', PBool (v_checked v)), (''uncertain'', PBool (v_uncertain v)),
      (''checked_by'', PStr (v_checked_by v)), (''note'', PStr (v_reason v)),
      (''reason'', PStr (v_reason v)), (''unmet'', PList (map PStr (v_unmet v))),
      (''evidence_ids'', PList (map PStr (v_evidence_ids v))),
      (''verified'', PBool (verified v))]"

lemmas verification_simps [kernel_simps] =
  verified_def v_ok_def v_note_def mk_verification_def unchecked_verdict_def uncertain_effect_def

lemma constructed_not_verified:
  "\<not> verified (unchecked_verdict why met) \<and> \<not> verified (uncertain_effect why)"
  by (simp add: kernel_simps)

lemma verified_in_dict: "dget (verification_to_dict v) ''verified'' = PBool (verified v)"
  by (simp add: verification_to_dict_def dget_def)

subsection \<open>Evidence\<close>

record evidence_record =
  er_id :: uid
  er_capability :: string
  er_version :: int
  er_at :: instant
  er_fields :: pydict
  er_missing :: "string list"

definition evidence_new ::
  "uid \<Rightarrow> instant \<Rightarrow> string \<Rightarrow> int \<Rightarrow> pydict \<Rightarrow> string list \<Rightarrow> evidence_record" where
  "evidence_new fresh now capability version flds missing =
     \<lparr>er_id = fresh, er_capability = capability, er_version = version, er_at = now,
      er_fields = flds, er_missing = missing\<rparr>"

subsection \<open>Redaction of evidence summaries\<close>

definition SECRET_HINTS :: "string list" where
  "SECRET_HINTS =
     [''secret'', ''token'', ''password'', ''passwd'', ''haslo'', ''key'', ''klucz'',
      ''authorization'', ''auth'', ''credential'', ''cookie'', ''session'', ''bearer'',
      ''vault://'', ''private'']"

definition MAX_SUMMARY_CHARS :: nat where
  "MAX_SUMMARY_CHARS = 200"

definition hidden :: string where
  "hidden = ''[ukryte]''"

definition secret_name :: "string \<Rightarrow> bool" where
  "secret_name name = list_ex (contains (lower name)) SECRET_HINTS"

definition carries_secret :: "string \<Rightarrow> bool" where
  "carries_secret s = list_ex (contains (lower s)) [''vault://'', ''bearer '']"

definition text_summary :: "nat \<Rightarrow> string" where
  "text_summary n = ''[tekst, '' @ nat_str n @ '' znak'' @ pl_o @ ''w]''"

definition list_summary :: "nat \<Rightarrow> string" where
  "list_summary n = ''['' @ nat_str n @ '' pozycji]''"

fun redact :: "pydict \<Rightarrow> pydict" where
  "redact [] = []"
| "redact ((name, val) # rest) =
     (name,
      if secret_name name then PStr hidden
      else (case val of
          PStr s \<Rightarrow>
            if carries_secret s then PStr hidden
            else if MAX_SUMMARY_CHARS < cp_len s then PStr (text_summary (cp_len s))
            else PStr s
        | PInt i \<Rightarrow> PInt i
        | PFloat r t \<Rightarrow> PFloat r t
        | PBool b \<Rightarrow> PBool b
        | PNone \<Rightarrow> PNone
        | PList xs \<Rightarrow> PStr (list_summary (length xs))
        | PDict d \<Rightarrow> PDict (redact d)
        | PObj t r \<Rightarrow> PStr (''['' @ t @ '']''))) # redact rest"

text \<open>What the window may be shown: no list or object, every string hidden, a shape, or short
  and free of credential marks, and nothing but the mark under a secret-looking name.\<close>

fun safe_summary :: "pyval \<Rightarrow> bool" where
  "safe_summary (PStr s) =
     (s = hidden \<or> (\<not> carries_secret s \<and> cp_len s \<le> MAX_SUMMARY_CHARS) \<or>
      (\<exists>n. s = text_summary n) \<or> (\<exists>n. s = list_summary n) \<or> (\<exists>t. s = ''['' @ t @ '']''))"
| "safe_summary (PDict d) =
     (\<forall>p \<in> set d. (secret_name (fst p) \<longrightarrow> snd p = PStr hidden) \<and> safe_summary (snd p))"
| "safe_summary (PList xs) = False"
| "safe_summary (PObj t r) = False"
| "safe_summary v = True"

lemma redact_keys: "map fst (redact d) = map fst d"
  by (induction d rule: redact.induct) auto

lemma redact_item_safe: "p \<in> set (redact d) \<Longrightarrow>
    (secret_name (fst p) \<longrightarrow> snd p = PStr hidden) \<and> safe_summary (snd p)"
proof (induction d arbitrary: p rule: redact.induct)
  case 1
  then show ?case by simp
next
  case (2 name val rest)
  show ?case
  proof (cases "p \<in> set (redact rest)")
    case True
    then show ?thesis by (rule "2.IH"(2))
  next
    case False
    show ?thesis
    proof (cases "secret_name name")
      case True
      with False "2.prems" show ?thesis by auto
    next
      case plain: False
      show ?thesis
      proof (cases val)
        case (PDict d)
        with False plain "2.prems" have p: "p = (name, PDict (redact d))" by simp
        have "\<forall>q \<in> set (redact d). (secret_name (fst q) \<longrightarrow> snd q = PStr hidden) \<and> safe_summary (snd q)"
          using "2.IH"(1) [OF plain PDict] by blast
        with p plain show ?thesis by simp
      qed (use False plain "2.prems" in \<open>auto split: if_splits\<close>)
    qed
  qed
qed

subsection \<open>Profiles and targets\<close>

datatype runtime_profile = PRODUCTION | DEVELOPMENT | TEST | FIXTURE

definition allows_doubles :: "runtime_profile \<Rightarrow> bool" where
  "allows_doubles p = (p \<in> {TEST, FIXTURE})"

datatype step_target = ToolTarget string | CapabilityTarget string

fun target_name :: "step_target \<Rightarrow> string" where
  "target_name (ToolTarget t) = t"
| "target_name (CapabilityTarget c) = c"

definition target_from_dict :: "pydict \<Rightarrow> capability_error + step_target" where
  "target_from_dict data =
     (let tool = strip (str_or_empty (dget data ''tool''));
          capability = strip (str_or_empty (dget data ''capability''))
      in if tool \<noteq> [] \<and> capability \<noteq> [] then
           Inl (CapabilityError INVALID_INPUT
             (''krok wskazuje jednocze'' @ pl_s @ ''nie narz'' @ pl_e @ ''dzie '' @ repr_str tool @
              '' i zdolno'' @ pl_s @ pl_c @ '' '' @ repr_str capability) [] False)
         else if capability \<noteq> [] then Inr (CapabilityTarget capability)
         else if tool \<noteq> [] then Inr (ToolTarget tool)
         else Inl (CapabilityError INVALID_INPUT
             (''krok nie wskazuje ani narz'' @ pl_e @ ''dzia, ani zdolno'' @ pl_s @ ''ci'') [] False))"

fun target_to_dict :: "step_target \<Rightarrow> pydict" where
  "target_to_dict (CapabilityTarget c) = [(''tool'', PStr []), (''capability'', PStr c)]"
| "target_to_dict (ToolTarget t) = [(''tool'', PStr t), (''capability'', PStr [])]"

lemma strip_Nil [simp]: "strip [] = []"
  by (simp add: strip_def strip_by_def)

lemma target_to_from:
  assumes "strip (target_name t) = target_name t" and "target_name t \<noteq> []"
  shows "target_from_dict (target_to_dict t) = Inr t"
  using assms by (cases t) (simp_all add: target_from_dict_def dget_def str_or_empty_def py_str_def)

text \<open>The step names exactly one target: neither, or both, is refused.\<close>

lemma target_from_dict_Inr_iff:
  "(\<exists>t. target_from_dict data = Inr t) \<longleftrightarrow>
     (strip (str_or_empty (dget data ''tool'')) = []) \<noteq>
     (strip (str_or_empty (dget data ''capability'')) = [])"
  by (auto simp: target_from_dict_def Let_def)

subsection \<open>Events and snapshots\<close>

record runtime_event =
  re_event_id :: uid
  re_topic :: string
  re_task_id :: string
  re_sequence :: nat
  re_occurred_at :: instant
  re_payload :: pydict

definition event_new ::
  "uid \<Rightarrow> instant \<Rightarrow> string \<Rightarrow> string \<Rightarrow> nat \<Rightarrow> pydict \<Rightarrow> runtime_event" where
  "event_new fresh now topic task_id sequence payload =
     \<lparr>re_event_id = fresh, re_topic = topic, re_task_id = task_id, re_sequence = sequence,
      re_occurred_at = now, re_payload = payload\<rparr>"

text \<open>The values of an event's payload: an instant, or any other Python value.\<close>

datatype event_value = EvAt instant | EvVal pyval

type_synonym payload = "(string \<times> event_value) list"

definition event_to_dict :: "runtime_event \<Rightarrow> payload" where
  "event_to_dict e =
     fold (\<lambda>(k, v) d. dict_set k (EvVal v) d) (re_payload e)
       [(''event_id'', EvVal (PStr (re_event_id e))), (''topic'', EvVal (PStr (re_topic e))),
        (''task_id'', EvVal (PStr (re_task_id e))), (''sequence'', EvVal (PInt (int (re_sequence e)))),
        (''occurred_at'', EvAt (re_occurred_at e))]"

lemma map_of_fold_dict_set:
  "k \<notin> fst ` set p \<Longrightarrow> map_of (fold (\<lambda>(k, v) d. dict_set k (g v) d) p d) k = map_of d k"
  by (induction p arbitrary: d) auto

lemma event_to_dict_id:
  "''event_id'' \<notin> fst ` set (re_payload e) \<Longrightarrow>
   map_of (event_to_dict e) ''event_id'' = Some (EvVal (PStr (re_event_id e)))"
  unfolding event_to_dict_def by (subst map_of_fold_dict_set) simp_all

record task_snapshot =
  sn_id :: string
  sn_state :: string
  sn_goal :: string
  sn_verified :: bool
  sn_uncertain :: bool
  sn_failure :: "failure option"
  sn_needs_approval :: bool
  sn_current_step :: string
  sn_answer :: string
  sn_evidence :: "pydict list"

definition snapshot_to_dict :: "task_snapshot \<Rightarrow> pydict" where
  "snapshot_to_dict s =
     [(''id'', PStr (sn_id s)), (''state'', PStr (sn_state s)), (''goal'', PStr (sn_goal s)),
      (''verified'', PBool (sn_verified s)), (''uncertain'', PBool (sn_uncertain s)),
      (''failure_type'', PStr (case sn_failure s of None \<Rightarrow> [] | Some f \<Rightarrow> failure_value f)),
      (''needs_approval'', PBool (sn_needs_approval s)),
      (''current_step'', PStr (sn_current_step s)), (''answer'', PStr (sn_answer s)),
      (''evidence_summary'', PList (map PDict (sn_evidence s)))]"

subsection \<open>Properties\<close>

text \<open>An evidence summary handed to the frontend keeps every field name and leaks nothing:
  under a name that looks like a credential there is only the mark, at every depth, and a string
  value is the mark, a shape, or a short string without credential marks.\<close>

theorem redact_leaks_nothing:
  "safe_summary (PDict (redact d)) \<and> map fst (redact d) = map fst d"
  using redact_item_safe [of _ d] by (simp add: redact_keys)

text \<open>A step target written to its two columns and read back is the same target, and a row
  is read as a target exactly when one of the two columns is filled and the other is not.\<close>

theorem target_roundtrip:
  assumes "strip (target_name t) = target_name t" and "target_name t \<noteq> []"
  shows "target_from_dict (target_to_dict t) = Inr t \<and>
    ((\<exists>u. target_from_dict data = Inr u) =
      ((strip (str_or_empty (dget data ''tool'')) = []) \<noteq>
       (strip (str_or_empty (dget data ''capability'')) = [])))"
  using target_to_from [OF assms] target_from_dict_Inr_iff by blast

theorem target_roundtrip_witness:
  "target_from_dict (target_to_dict (CapabilityTarget ''windows.audio.set'')) =
     Inr (CapabilityTarget ''windows.audio.set'')"
  by (rule target_roundtrip [THEN conjunct1])
     (simp_all add: strip_def strip_by_def is_space_def byte_of_def)

end
