(* ===== verification/Effects.thy ===== *)
theory Effects
  imports Contracts
begin

section \<open>Durable effect identity (kernel/effects.py)\<close>

text \<open>
  The \<open>effects\<close> table: an effect is reserved under a unique id before the action, settled
  afterwards, and swept to \<open>UNCERTAIN\<close> when a crash left it reserved. The locale
  \<open>effect_ledger\<close> is what a caller relies on; it is interpreted on the operations of
  \<open>EffectStore\<close>. SHA-256 is the parameter \<open>digest\<close>.
\<close>

subsection \<open>Records\<close>

datatype effect_state = RESERVED | DONE | FAILED | UNCERTAIN

definition settled :: "effect_state \<Rightarrow> bool" where
  "settled s = (s \<noteq> RESERVED)"

record effect_record =
  ef_id :: string
  ef_capability :: string
  ef_state :: effect_state
  ef_task :: string
  ef_step :: string
  ef_hash :: string
  ef_outcome :: "pydict option"
  ef_evidence :: "evidence_record list"
  ef_reason :: string
  ef_reserved_at :: instant
  ef_settled_at :: "instant option"

definition repeatable :: "effect_record \<Rightarrow> bool" where
  "repeatable r = (ef_state r = FAILED)"

record effect_reservation =
  rs_granted :: bool
  rs_record :: effect_record

definition existing :: "effect_reservation \<Rightarrow> effect_record option" where
  "existing r = (if rs_granted r then None else Some (rs_record r))"

type_synonym effect_table = "effect_record list"

definition arguments_hash :: "(string \<Rightarrow> string) \<Rightarrow> pydict \<Rightarrow> string" where
  "arguments_hash digest args = take 32 (digest (canonical_json (PDict args)))"

subsection \<open>Operations of the store\<close>

definition load_effect :: "effect_table \<Rightarrow> string \<Rightarrow> effect_record option" where
  "load_effect t i = row_by ef_id i t"

definition reserve ::
  "(string \<Rightarrow> string) \<Rightarrow> instant \<Rightarrow> string \<Rightarrow> string \<Rightarrow> string \<Rightarrow> string \<Rightarrow> pydict \<Rightarrow>
   effect_table \<Rightarrow> capability_error + effect_reservation \<times> effect_table" where
  "reserve digest now effect_id capability_id task_id step_key args t =
     (let fingerprint = arguments_hash digest args in
      case load_effect t effect_id of
        Some row \<Rightarrow>
          if ef_hash row \<noteq> [] \<and> ef_hash row \<noteq> fingerprint then
            Inl (CapabilityError INVALID_INPUT
              (''efekt '' @ repr_str effect_id @ '' zosta'' @ pl_l @ '' ju'' @ pl_z @
               '' zarezerwowany dla innych argument'' @ pl_o @ ''w tej samej zdolno'' @ pl_s @ ''ci'')
              [] False)
          else Inr (\<lparr>rs_granted = False, rs_record = row\<rparr>, t)
      | None \<Rightarrow>
          let row = \<lparr>ef_id = effect_id, ef_capability = capability_id, ef_state = RESERVED,
                     ef_task = task_id, ef_step = step_key, ef_hash = fingerprint,
                     ef_outcome = None, ef_evidence = [], ef_reason = [],
                     ef_reserved_at = now, ef_settled_at = None\<rparr>
          in Inr (\<lparr>rs_granted = True, rs_record = row\<rparr>, t @ [row]))"

definition settle ::
  "instant \<Rightarrow> string \<Rightarrow> effect_state \<Rightarrow> pydict option \<Rightarrow> evidence_record list \<Rightarrow> string \<Rightarrow>
   effect_table \<Rightarrow> effect_table" where
  "settle now effect_id st outcome evidence reason t =
     update_where (\<lambda>r. ef_id r = effect_id)
       (\<lambda>r. r\<lparr>ef_state := st, ef_outcome := outcome, ef_evidence := evidence,
              ef_reason := reason, ef_settled_at := Some now\<rparr>) t"

definition complete ::
  "instant \<Rightarrow> string \<Rightarrow> bool \<Rightarrow> pydict option \<Rightarrow> evidence_record list \<Rightarrow> string \<Rightarrow>
   effect_table \<Rightarrow> effect_table" where
  "complete now effect_id ok outcome evidence reason t =
     settle now effect_id (if ok then DONE else FAILED) outcome evidence reason t"

definition mark_uncertain :: "instant \<Rightarrow> string \<Rightarrow> string \<Rightarrow> effect_table \<Rightarrow> effect_table" where
  "mark_uncertain now effect_id reason t = settle now effect_id UNCERTAIN None [] reason t"

definition for_task :: "effect_table \<Rightarrow> string \<Rightarrow> effect_record list" where
  "for_task t task_id = sort_key ef_reserved_at (filter (\<lambda>r. ef_task r = task_id) t)"

definition sweep_reason :: string where
  "sweep_reason = ''Proces zako'' @ pl_n @ ''czy'' @ pl_l @ '' si'' @ pl_e @
     '' w trakcie tej operacji '' @ em_dash @ '' nie wiem, czy dosz'' @ pl_l @ ''a do skutku.''"

definition stranded :: "instant \<Rightarrow> effect_table \<Rightarrow> effect_record list" where
  "stranded cutoff t = filter (\<lambda>r. ef_state r = RESERVED \<and> ef_reserved_at r \<le> cutoff) t"

definition sweep_unsettled ::
  "instant \<Rightarrow> instant option \<Rightarrow> effect_table \<Rightarrow> effect_record list \<times> effect_table" where
  "sweep_unsettled now before t =
     (let cutoff = (case before of Some b \<Rightarrow> b | None \<Rightarrow> now);
          rows = stranded cutoff t
      in (rows, fold (\<lambda>r. mark_uncertain now (ef_id r) sweep_reason) rows t))"

lemmas effect_ops [kernel_simps] =
  complete_def mark_uncertain_def settle_def

definition effects_ok :: "effect_table \<Rightarrow> bool" where
  "effects_ok t = distinct (map ef_id t)"

subsection \<open>One settlement, one sweep\<close>

lemma settle_ids [simp]: "map ef_id (settle now i st out ev reason t) = map ef_id t"
  by (simp add: settle_def)

lemma settle_ok [simp]: "effects_ok (settle now i st out ev reason t) = effects_ok t"
  by (simp add: effects_ok_def)

lemma load_settle: "load_effect (settle now i st out ev reason t) j =
    map_option (\<lambda>r. if ef_id r = i then r\<lparr>ef_state := st, ef_outcome := out, ef_evidence := ev,
       ef_reason := reason, ef_settled_at := Some now\<rparr> else r) (load_effect t j)"
  unfolding load_effect_def settle_def by (rule row_by_update_where) simp

lemma load_effect_id: "load_effect t i = Some r \<Longrightarrow> ef_id r = i"
  by (auto simp: load_effect_def dest: row_by_SomeD)

lemma load_mark_uncertain: "load_effect (mark_uncertain now i reason t) j =
    (if i = j then map_option (\<lambda>r. r\<lparr>ef_state := UNCERTAIN, ef_outcome := None, ef_evidence := [],
       ef_reason := reason, ef_settled_at := Some now\<rparr>) (load_effect t j)
     else load_effect t j)"
  unfolding mark_uncertain_def load_settle
  by (cases "load_effect t j") (auto dest: load_effect_id)

lemma load_fold_uncertain: "load_effect (fold (\<lambda>r. mark_uncertain now (ef_id r) reason) rows t) j =
    (if j \<in> ef_id ` set rows
     then map_option (\<lambda>r. r\<lparr>ef_state := UNCERTAIN, ef_outcome := None, ef_evidence := [],
       ef_reason := reason, ef_settled_at := Some now\<rparr>) (load_effect t j)
     else load_effect t j)"
  by (induction rows arbitrary: t) (auto simp: load_mark_uncertain option.map_comp comp_def)

lemma fold_uncertain_ids [simp]:
  "map ef_id (fold (\<lambda>r. mark_uncertain now (ef_id r) reason) rows t) = map ef_id t"
  by (induction rows arbitrary: t) (simp_all add: mark_uncertain_def)

lemma load_in: "effects_ok t \<Longrightarrow> r \<in> set t \<Longrightarrow> load_effect t (ef_id r) = Some r"
  by (simp add: load_effect_def effects_ok_def row_by_distinct)

lemma stranded_id_iff:
  assumes "effects_ok t" and "load_effect t j = Some r"
  shows "j \<in> ef_id ` set (stranded cutoff t) \<longleftrightarrow> ef_state r = RESERVED \<and> ef_reserved_at r \<le> cutoff"
proof -
  have r: "r \<in> set t" "ef_id r = j" using assms(2) by (auto simp: load_effect_def dest: row_by_SomeD)
  have same: "s = r" if "s \<in> set t" "ef_id s = j" for s
    using load_in [OF assms(1) that(1)] that(2) assms(2) by simp
  show ?thesis
  proof
    assume "j \<in> ef_id ` set (stranded cutoff t)"
    then obtain s where "s \<in> set t" "ef_id s = j" "ef_state s = RESERVED" "ef_reserved_at s \<le> cutoff"
      by (auto simp: stranded_def)
    with same [of s] show "ef_state r = RESERVED \<and> ef_reserved_at r \<le> cutoff" by blast
  next
    assume "ef_state r = RESERVED \<and> ef_reserved_at r \<le> cutoff"
    with r show "j \<in> ef_id ` set (stranded cutoff t)" by (force simp: stranded_def)
  qed
qed

lemma load_sweep:
  assumes "effects_ok t" and "load_effect t j = Some r"
  shows "load_effect (snd (sweep_unsettled now before t)) j =
    Some (if ef_state r = RESERVED \<and> ef_reserved_at r \<le> (case before of Some b \<Rightarrow> b | None \<Rightarrow> now)
      then r\<lparr>ef_state := UNCERTAIN, ef_outcome := None, ef_evidence := [],
             ef_reason := sweep_reason, ef_settled_at := Some now\<rparr>
      else r)"
proof -
  define cutoff where "cutoff = (case before of Some b \<Rightarrow> b | None \<Rightarrow> now)"
  have "snd (sweep_unsettled now before t) =
      fold (\<lambda>r. mark_uncertain now (ef_id r) sweep_reason) (stranded cutoff t) t"
    by (simp add: sweep_unsettled_def cutoff_def Let_def)
  then show ?thesis
    unfolding cutoff_def [symmetric]
    by (simp add: load_fold_uncertain stranded_id_iff [OF assms] assms(2))
qed

subsection \<open>Reservation\<close>

lemma reserve_granted:
  assumes "reserve digest now i cap task step args t = Inr (r, t')" and "rs_granted r"
  shows "load_effect t i = None \<and> load_effect t' i = Some (rs_record r) \<and>
    ef_state (rs_record r) = RESERVED \<and> t' = t @ [rs_record r]"
proof -
  have none: "load_effect t i = None"
    using assms by (auto simp: reserve_def Let_def split: option.splits if_splits)
  have row: "ef_id (rs_record r) = i \<and> ef_state (rs_record r) = RESERVED \<and> t' = t @ [rs_record r]"
    using assms none by (auto simp: reserve_def Let_def)
  with none show ?thesis by (simp add: load_effect_def row_by_append)
qed

lemma reserve_known:
  assumes "load_effect t i = Some row"
    and "reserve digest now i cap task step args t = Inr (r, t')"
  shows "r = \<lparr>rs_granted = False, rs_record = row\<rparr> \<and> t' = t"
  using assms by (auto simp: reserve_def Let_def split: if_splits)

lemma reserve_ok:
  assumes "effects_ok t" and "reserve digest now i cap task step args t = Inr (r, t')"
  shows "effects_ok t'"
  using assms by (auto simp: reserve_def Let_def effects_ok_def load_effect_def
      split: option.splits if_splits)

subsection \<open>What a caller relies on\<close>

datatype ('i, 'q, 'r) ledger_step = Claim 'i 'q | Settle 'i 'r

text \<open>The ids for which a sequence of calls was told to proceed.\<close>

fun proceeded ::
  "('s \<Rightarrow> 'i \<Rightarrow> 'q \<Rightarrow> bool \<times> 's) \<Rightarrow> ('s \<Rightarrow> 'i \<Rightarrow> 'r \<Rightarrow> 's) \<Rightarrow> 's \<Rightarrow>
   ('i, 'q, 'r) ledger_step list \<Rightarrow> 'i list" where
  "proceeded claim conclude s [] = []"
| "proceeded claim conclude s (Claim i q # rest) =
     (let (ok, s') = claim s i q
      in if ok then i # proceeded claim conclude s' rest else proceeded claim conclude s' rest)"
| "proceeded claim conclude s (Settle i r # rest) = proceeded claim conclude (conclude s i r) rest"

locale effect_ledger =
  fixes known :: "'s \<Rightarrow> 'i \<Rightarrow> bool"
    and claim :: "'s \<Rightarrow> 'i \<Rightarrow> 'q \<Rightarrow> bool \<times> 's"
    and conclude :: "'s \<Rightarrow> 'i \<Rightarrow> 'r \<Rightarrow> 's"
  assumes claim_fresh: "claim s i q = (True, s') \<Longrightarrow> \<not> known s i \<and> known s' i"
    and claim_keeps: "claim s i q = (ok, s') \<Longrightarrow> known s j \<Longrightarrow> known s' j"
    and conclude_keeps: "known s j \<Longrightarrow> known (conclude s i r) j"
begin

lemma known_never_proceeds: "known s i \<Longrightarrow> i \<notin> set (proceeded claim conclude s steps)"
proof (induction steps arbitrary: s)
  case Nil
  then show ?case by simp
next
  case (Cons step rest)
  show ?case
  proof (cases step)
    case (Claim j q)
    obtain ok s' where c: "claim s j q = (ok, s')" by (cases "claim s j q")
    have "known s' i" using claim_keeps [OF c Cons.prems] .
    moreover have "ok \<longrightarrow> j \<noteq> i" using claim_fresh [of s j q s'] c Cons.prems by auto
    ultimately show ?thesis using Cons.IH Claim c by auto
  next
    case (Settle j r)
    then show ?thesis using Cons.IH conclude_keeps Cons.prems by simp
  qed
qed

lemma at_most_once: "distinct (proceeded claim conclude s steps)"
proof (induction steps arbitrary: s)
  case Nil
  then show ?case by simp
next
  case (Cons step rest)
  show ?case
  proof (cases step)
    case (Claim i q)
    obtain ok s' where c: "claim s i q = (ok, s')" by (cases "claim s i q")
    have "ok \<longrightarrow> i \<notin> set (proceeded claim conclude s' rest)"
      using claim_fresh [of s i q s'] c known_never_proceeds by auto
    with Cons.IH Claim c show ?thesis by simp
  next
    case (Settle i r)
    with Cons.IH show ?thesis by simp
  qed
qed

end

text \<open>The calls of the store: a claim is one \<open>reserve\<close>, a refusal leaves the table as it
  was (the transaction rolls back); a settlement is any of \<open>complete\<close>,
  \<open>mark_uncertain\<close> and the restart sweep.\<close>

record effect_request =
  rq_now :: instant
  rq_capability :: string
  rq_task :: string
  rq_step :: string
  rq_args :: pydict

datatype settlement =
    Completed instant bool "pydict option" "evidence_record list" string
  | MarkedUncertain instant string
  | Swept instant "instant option"

definition store_claim ::
  "(string \<Rightarrow> string) \<Rightarrow> effect_table \<Rightarrow> string \<Rightarrow> effect_request \<Rightarrow> bool \<times> effect_table" where
  "store_claim digest t i q =
     (case reserve digest (rq_now q) i (rq_capability q) (rq_task q) (rq_step q) (rq_args q) t of
        Inl e \<Rightarrow> (False, t)
      | Inr (r, t') \<Rightarrow> (rs_granted r, t'))"

fun store_settle :: "effect_table \<Rightarrow> string \<Rightarrow> settlement \<Rightarrow> effect_table" where
  "store_settle t i (Completed now ok out ev reason) = complete now i ok out ev reason t"
| "store_settle t i (MarkedUncertain now reason) = mark_uncertain now i reason t"
| "store_settle t i (Swept now before) = snd (sweep_unsettled now before t)"

definition recorded :: "effect_table \<Rightarrow> string \<Rightarrow> bool" where
  "recorded t i = (i \<in> set (map ef_id t))"

lemma store_settle_ids [simp]: "map ef_id (store_settle t i s) = map ef_id t"
  by (cases s) (simp_all add: complete_def mark_uncertain_def sweep_unsettled_def Let_def)

interpretation ledger: effect_ledger recorded "store_claim digest" store_settle for digest
proof unfold_locales
  fix s s' :: effect_table and i q
  assume "store_claim digest s i q = (True, s')"
  then show "\<not> recorded s i \<and> recorded s' i"
    by (auto simp: store_claim_def recorded_def load_effect_def reserve_def Let_def
        split: sum.splits option.splits if_splits)
next
  fix s s' :: effect_table and i j q ok
  assume "store_claim digest s i q = (ok, s')" and "recorded s j"
  then show "recorded s' j"
    by (auto simp: store_claim_def recorded_def reserve_def Let_def
        split: sum.splits option.splits if_splits)
next
  fix s :: effect_table and i j r
  assume "recorded s j"
  then show "recorded (store_settle s i r) j" by (simp add: recorded_def)
qed

subsection \<open>Properties\<close>

text \<open>C10: an effect id is given the right to proceed at most once. Whatever sequence of
  reservations, completions, uncertain marks and restart sweeps a table goes through, the ids
  told to proceed are pairwise different, and none of them was already recorded.\<close>

theorem effect_at_most_once:
  "distinct (proceeded (store_claim digest) store_settle t steps) \<and>
   set (proceeded (store_claim digest) store_settle t steps) \<inter> set (map ef_id t) = {}"
  using ledger.at_most_once ledger.known_never_proceeds by (fastforce simp: recorded_def)

text \<open>The restart sweep turns exactly the reservations made up to the cutoff and never
  settled into uncertain effects, erases nothing, and leaves every other effect as it was.\<close>

theorem sweep_marks_exactly_the_stranded:
  assumes "effects_ok t" and "load_effect t j = Some r"
  shows "load_effect (snd (sweep_unsettled now before t)) j =
    Some (if ef_state r = RESERVED \<and> ef_reserved_at r \<le> (case before of Some b \<Rightarrow> b | None \<Rightarrow> now)
      then r\<lparr>ef_state := UNCERTAIN, ef_outcome := None, ef_evidence := [],
             ef_reason := sweep_reason, ef_settled_at := Some now\<rparr>
      else r)"
  using assms by (rule load_sweep)

definition sample_effect :: "string \<Rightarrow> effect_state \<Rightarrow> effect_record" where
  "sample_effect i st =
     \<lparr>ef_id = i, ef_capability = ''windows.audio.set'', ef_state = st, ef_task = ''t1'',
      ef_step = ''s1'', ef_hash = ''h'', ef_outcome = None, ef_evidence = [], ef_reason = [],
      ef_reserved_at = 10, ef_settled_at = None\<rparr>"

theorem sweep_marks_exactly_the_stranded_witness:
  "ef_state (the (load_effect (snd (sweep_unsettled 20 None
      [sample_effect ''e1'' RESERVED, sample_effect ''e2'' DONE])) ''e1'')) = UNCERTAIN"
proof -
  let ?t = "[sample_effect ''e1'' RESERVED, sample_effect ''e2'' DONE]"
  have ok: "effects_ok ?t" by (simp add: effects_ok_def sample_effect_def)
  have row: "load_effect ?t ''e1'' = Some (sample_effect ''e1'' RESERVED)"
    by (simp add: load_effect_def sample_effect_def)
  show ?thesis
    using sweep_marks_exactly_the_stranded [OF ok row, of 20 None] by (simp add: sample_effect_def)
qed

text \<open>An id that is on file is never granted again, whatever the state of its effect, and
  asking changes nothing: other arguments are refused as invalid input, the same arguments get
  the recorded effect back.\<close>

theorem known_effect_is_replayed_or_refused:
  assumes "load_effect t i = Some row"
  shows "reserve digest now i cap task step args t =
     (if ef_hash row \<noteq> [] \<and> ef_hash row \<noteq> arguments_hash digest args
      then Inl (CapabilityError INVALID_INPUT
              (''efekt '' @ repr_str i @ '' zosta'' @ pl_l @ '' ju'' @ pl_z @
               '' zarezerwowany dla innych argument'' @ pl_o @ ''w tej samej zdolno'' @ pl_s @ ''ci'')
              [] False)
      else Inr (\<lparr>rs_granted = False, rs_record = row\<rparr>, t)) \<and>
    store_claim digest t i q = (False, t)"
proof -
  have "reserve digest n i c k s a t = Inr (r, t') \<Longrightarrow> r = \<lparr>rs_granted = False, rs_record = row\<rparr> \<and> t' = t"
    for n c k s a r t'
    using reserve_known [OF assms] by blast
  then have "store_claim digest t i q = (False, t)"
    by (fastforce simp: store_claim_def split: sum.splits)
  then show ?thesis using assms by (simp add: reserve_def Let_def)
qed

text \<open>A failed effect calls itself repeatable, and is refused like any other recorded id.\<close>

theorem known_effect_is_replayed_or_refused_witness:
  "repeatable (sample_effect ''e1'' FAILED) \<and>
   store_claim (\<lambda>s. ''h'') [sample_effect ''e1'' FAILED] ''e1''
     \<lparr>rq_now = 30, rq_capability = ''windows.audio.set'', rq_task = ''t1'', rq_step = ''s1'', rq_args = []\<rparr>
   = (False, [sample_effect ''e1'' FAILED])"
proof -
  have row: "load_effect [sample_effect ''e1'' FAILED] ''e1'' = Some (sample_effect ''e1'' FAILED)"
    by (simp add: load_effect_def sample_effect_def)
  show ?thesis
    using known_effect_is_replayed_or_refused [OF row] by (simp add: repeatable_def sample_effect_def)
qed

text \<open>The fingerprint of a call does not depend on the order in which its arguments were
  given, at any depth the canonical dump sorts.\<close>

theorem arguments_hash_order_free:
  assumes "dict_ok args" and "mset args = mset args'"
  shows "arguments_hash digest args = arguments_hash digest args'"
  unfolding arguments_hash_def by (simp only: canonical_json_order [OF assms])

theorem arguments_hash_order_free_witness:
  "arguments_hash (\<lambda>s. s) [(''b'', PInt 1), (''a'', PNone)] = arguments_hash (\<lambda>s. s) [(''a'', PNone), (''b'', PInt 1)]"
  by (rule arguments_hash_order_free) (simp_all add: dict_ok_def)

end
