(* ===== verification/Events.thy ===== *)
theory Events
  imports Contracts
begin

section \<open>The event bus (events.py)\<close>

text \<open>
  In-process publish/subscribe: a bounded history and bounded subscriber queues that drop their
  oldest event and count what they dropped. Waiting of a consumer is a result of \<open>get\<close>.
  Patterns are glob patterns of literals, \<open>*\<close> and \<open>?\<close> (the source uses no others).
\<close>

subsection \<open>Events and patterns\<close>

record event =
  e_topic :: string
  e_payload :: payload
  e_at :: instant

fun glob :: "string \<Rightarrow> string \<Rightarrow> bool" where
  "glob [] s = (s = [])"
| "glob (p # ps) s =
     (if p = CHR ''*'' then glob ps s \<or> (case s of [] \<Rightarrow> False | c # cs \<Rightarrow> glob (p # ps) cs)
      else case s of [] \<Rightarrow> False | c # cs \<Rightarrow> (p = CHR ''?'' \<or> p = c) \<and> glob ps cs)"

definition event_matches :: "event \<Rightarrow> string \<Rightarrow> bool" where
  "event_matches e pattern = (e_topic e = pattern \<or> glob pattern (e_topic e))"

lemma glob_star [simp]: "glob ''*'' s"
  by (induction s) simp_all

lemma glob_star_suffix: "glob (CHR ''*'' # ps) s \<longleftrightarrow> (\<exists>t u. s = t @ u \<and> glob ps u)"
proof (induction s)
  case Nil
  then show ?case by auto
next
  case (Cons c cs)
  have "glob (CHR ''*'' # ps) (c # cs) \<longleftrightarrow> glob ps (c # cs) \<or> glob (CHR ''*'' # ps) cs" by simp
  also have "\<dots> \<longleftrightarrow> (\<exists>t u. c # cs = t @ u \<and> glob ps u)"
    unfolding Cons.IH by (metis append_Cons append_Nil append_eq_Cons_conv)
  finally show ?case .
qed

subsection \<open>Bounded queues\<close>

text \<open>\<open>deque(maxlen=n).append(x)\<close>.\<close>

definition push :: "nat \<Rightarrow> 'a \<Rightarrow> 'a list \<Rightarrow> 'a list" where
  "push n x q = (let q' = q @ [x] in drop (length q' - n) q')"

definition last_n :: "nat \<Rightarrow> 'a list \<Rightarrow> 'a list" where
  "last_n n xs = drop (length xs - n) xs"

lemma length_push: "length q \<le> n \<Longrightarrow> length (push n x q) \<le> n"
  by (auto simp: push_def Let_def)

lemma push_last_n: "push n x (last_n n xs) = last_n n (xs @ [x])"
  by (cases "length xs < n") (auto simp: push_def last_n_def Let_def Suc_diff_le)

subsection \<open>Subscriptions\<close>

record subscription =
  sb_id :: nat
  sb_patterns :: "string list"
  sb_queue :: "event list"
  sb_maxlen :: nat
  sb_closed :: bool
  sb_dropped :: nat

definition new_subscription :: "nat \<Rightarrow> string list \<Rightarrow> nat \<Rightarrow> subscription" where
  "new_subscription i patterns maxlen =
     \<lparr>sb_id = i, sb_patterns = (if patterns = [] then [''*''] else patterns), sb_queue = [],
      sb_maxlen = maxlen, sb_closed = False, sb_dropped = 0\<rparr>"

definition wanted :: "subscription \<Rightarrow> event \<Rightarrow> bool" where
  "wanted sub e = list_ex (event_matches e) (sb_patterns sub)"

definition offer :: "event \<Rightarrow> subscription \<Rightarrow> subscription" where
  "offer e sub =
     (if sb_closed sub then sub
      else if \<not> wanted sub e then sub
      else sub\<lparr>sb_dropped := (if length (sb_queue sub) = sb_maxlen sub
                             then sb_dropped sub + 1 else sb_dropped sub),
               sb_queue := push (sb_maxlen sub) e (sb_queue sub)\<rparr>)"

datatype got = Got event | Waits | Stopped

definition sub_get :: "subscription \<Rightarrow> got \<times> subscription" where
  "sub_get sub =
     (case sb_queue sub of
        e # rest \<Rightarrow> (Got e, sub\<lparr>sb_queue := rest\<rparr>)
      | [] \<Rightarrow> if sb_closed sub then (Stopped, sub) else (Waits, sub))"

subsection \<open>The bus\<close>

record bus =
  b_subs :: "subscription list"
  b_history :: "event list"
  b_history_max :: nat
  b_next :: nat

definition DEFAULT_QUEUE_SIZE :: nat where "DEFAULT_QUEUE_SIZE = 512"
definition DEFAULT_HISTORY :: nat where "DEFAULT_HISTORY = 500"

definition new_bus :: "nat \<Rightarrow> bus" where
  "new_bus history = \<lparr>b_subs = [], b_history = [], b_history_max = history, b_next = 0\<rparr>"

definition emit_event :: "event \<Rightarrow> bus \<Rightarrow> bus" where
  "emit_event e b = b\<lparr>b_history := push (b_history_max b) e (b_history b), b_subs := map (offer e) (b_subs b)\<rparr>"

definition emit :: "instant \<Rightarrow> string \<Rightarrow> payload \<Rightarrow> bus \<Rightarrow> bus" where
  "emit now topic body b = emit_event \<lparr>e_topic = topic, e_payload = body, e_at = now\<rparr> b"

definition subscribe :: "string list \<Rightarrow> nat \<Rightarrow> bus \<Rightarrow> subscription \<times> bus" where
  "subscribe patterns maxlen b =
     (let sub = new_subscription (b_next b) patterns maxlen
      in (sub, b\<lparr>b_subs := b_subs b @ [sub], b_next := b_next b + 1\<rparr>))"

definition close_sub :: "subscription \<Rightarrow> bus \<Rightarrow> subscription \<times> bus" where
  "close_sub sub b =
     (sub\<lparr>sb_closed := True\<rparr>, b\<lparr>b_subs := filter (\<lambda>s. sb_id s \<noteq> sb_id sub) (b_subs b)\<rparr>)"

text \<open>\<open>found[-limit:]\<close>; a limit of zero is the whole list.\<close>

definition recent_events :: "string list \<Rightarrow> nat \<Rightarrow> bus \<Rightarrow> event list" where
  "recent_events patterns limit b =
     (let pats = (if patterns = [] then [''*''] else patterns);
          found = filter (\<lambda>e. list_ex (event_matches e) pats) (b_history b)
      in if limit = 0 then found else last_n limit found)"

subsection \<open>Topics\<close>

datatype topic =
    TASK_CREATED | TASK_STARTED | TASK_STEP | TASK_PROGRESS | TASK_FINISHED | TASK_FAILED
  | TASK_BLOCKED | TASK_STOPPED | ACTION_STARTED | ACTION_FINISHED | ACTION_FAILED
  | ACTION_DENIED | APPROVAL_REQUESTED | APPROVAL_RESOLVED | NOTICE | SPEAK | VOICE_STATE
  | AGENT_STATE | MEMORY_CHANGED | SUBSCRIPTION_ITEM | CONFIG_CHANGED | VAULT_CHANGED
  | PROVIDER_HEALTH

fun topic_name :: "topic \<Rightarrow> string" where
  "topic_name TASK_CREATED = ''task.created''"
| "topic_name TASK_STARTED = ''task.started''"
| "topic_name TASK_STEP = ''task.step''"
| "topic_name TASK_PROGRESS = ''task.progress''"
| "topic_name TASK_FINISHED = ''task.finished''"
| "topic_name TASK_FAILED = ''task.failed''"
| "topic_name TASK_BLOCKED = ''task.blocked''"
| "topic_name TASK_STOPPED = ''task.stopped''"
| "topic_name ACTION_STARTED = ''action.started''"
| "topic_name ACTION_FINISHED = ''action.finished''"
| "topic_name ACTION_FAILED = ''action.failed''"
| "topic_name ACTION_DENIED = ''action.denied''"
| "topic_name APPROVAL_REQUESTED = ''approval.requested''"
| "topic_name APPROVAL_RESOLVED = ''approval.resolved''"
| "topic_name NOTICE = ''notice''"
| "topic_name SPEAK = ''speak''"
| "topic_name VOICE_STATE = ''voice.state''"
| "topic_name AGENT_STATE = ''agent.state''"
| "topic_name MEMORY_CHANGED = ''memory.changed''"
| "topic_name SUBSCRIPTION_ITEM = ''subscription.item''"
| "topic_name CONFIG_CHANGED = ''config.changed''"
| "topic_name VAULT_CHANGED = ''vault.changed''"
| "topic_name PROVIDER_HEALTH = ''provider.health''"

subsection \<open>What a subscriber sees\<close>

lemma fold_offer_frame:
  "sb_patterns (fold offer es sub) = sb_patterns sub \<and> sb_maxlen (fold offer es sub) = sb_maxlen sub \<and>
   sb_closed (fold offer es sub) = sb_closed sub"
  by (induction es arbitrary: sub) (simp_all add: offer_def)

lemma wanted_fold [simp]: "wanted (fold offer es sub) e = wanted sub e"
  by (simp add: wanted_def fold_offer_frame)

lemma fold_offer_queue:
  assumes "\<not> sb_closed sub" and "sb_queue sub = last_n (sb_maxlen sub) seen"
    and "sb_dropped sub = length seen - sb_maxlen sub"
  shows "sb_queue (fold offer es sub) = last_n (sb_maxlen sub) (seen @ filter (wanted sub) es) \<and>
    sb_dropped (fold offer es sub) = length (seen @ filter (wanted sub) es) - sb_maxlen sub"
  using assms
proof (induction es arbitrary: sub seen)
  case Nil
  then show ?case by simp
next
  case (Cons e es)
  have frame: "wanted (offer e sub) = wanted sub" "sb_maxlen (offer e sub) = sb_maxlen sub"
    "sb_closed (offer e sub) = sb_closed sub"
    by (auto simp: offer_def wanted_def fun_eq_iff)
  show ?case
  proof (cases "wanted sub e")
    case False
    with Cons show ?thesis by (simp add: offer_def)
  next
    case True
    have len: "length (last_n (sb_maxlen sub) seen) = min (length seen) (sb_maxlen sub)"
      by (simp add: last_n_def)
    have "sb_queue (offer e sub) = last_n (sb_maxlen (offer e sub)) (seen @ [e])"
      using True Cons.prems by (simp add: offer_def push_last_n)
    moreover have "sb_dropped (offer e sub) = length (seen @ [e]) - sb_maxlen (offer e sub)"
      using True Cons.prems len by (simp add: offer_def) arith
    ultimately show ?thesis
      using Cons.IH [of "offer e sub" "seen @ [e]"] Cons.prems(1) True by (simp add: frame)
  qed
qed

text \<open>A subscriber that has not read yet holds exactly the most recent events it asked for,
  as many as its queue is long, in order, and its drop counter is exactly the number of the
  others: nothing is lost silently.\<close>

theorem subscriber_keeps_the_latest:
  "sb_queue (fold offer es (new_subscription i patterns maxlen)) =
     last_n maxlen (filter (wanted (new_subscription i patterns maxlen)) es) \<and>
   length (sb_queue (fold offer es (new_subscription i patterns maxlen))) \<le> maxlen \<and>
   sb_dropped (fold offer es (new_subscription i patterns maxlen)) =
     length (filter (wanted (new_subscription i patterns maxlen)) es) - maxlen"
  using fold_offer_queue [of "new_subscription i patterns maxlen" "[]" es]
  by (simp add: new_subscription_def last_n_def)

end
