(* ===== verification/Outbox.thy ===== *)
theory Outbox
  imports Events
begin

section \<open>The transactional outbox (kernel/outbox.py)\<close>

text \<open>
  The \<open>event_outbox\<close> table: an event is staged with the fact it reports, published to the bus
  after the commit and then marked. A drain is split at the point where a crash can fall:
  \<open>publish_events\<close>, then \<open>mark_published\<close>. The inductive relation
  \<open>outbox_step\<close> lets drains, crashes, stagings and prunings interleave in any order.
\<close>

subsection \<open>Rows and operations\<close>

record outbox_row =
  ob_event :: runtime_event
  ob_published :: "instant option"

type_synonym outbox = "outbox_row list"

definition last_sequence :: "outbox \<Rightarrow> string \<Rightarrow> nat" where
  "last_sequence t task_id =
     foldr max (map (\<lambda>r. re_sequence (ob_event r)) (filter (\<lambda>r. re_task_id (ob_event r) = task_id) t)) 0"

definition stage ::
  "uid \<Rightarrow> instant \<Rightarrow> string \<Rightarrow> string \<Rightarrow> pydict \<Rightarrow> outbox \<Rightarrow> runtime_event \<times> outbox" where
  "stage fresh now topic task_id body t =
     (let e = event_new fresh now topic task_id (last_sequence t task_id + 1) body
      in (e, t @ [\<lparr>ob_event = e, ob_published = None\<rparr>]))"

definition pending :: "nat \<Rightarrow> outbox \<Rightarrow> runtime_event list" where
  "pending limit t =
     take limit (sort_key re_occurred_at (sort_key re_sequence
       (map ob_event (filter (\<lambda>r. ob_published r = None) t))))"

definition event_body :: "runtime_event \<Rightarrow> payload" where
  "event_body e = filter (\<lambda>(k, v). k \<noteq> ''topic'') (event_to_dict e)"

definition publish_events :: "instant \<Rightarrow> runtime_event list \<Rightarrow> bus \<Rightarrow> bus" where
  "publish_events now es b = fold (\<lambda>e. emit now (re_topic e) (event_body e)) es b"

definition mark_published :: "instant \<Rightarrow> runtime_event list \<Rightarrow> outbox \<Rightarrow> outbox" where
  "mark_published now es t =
     fold (\<lambda>e. update_where (\<lambda>r. re_event_id (ob_event r) = re_event_id e)
             (\<lambda>r. r\<lparr>ob_published := Some now\<rparr>)) es t"

definition drain :: "instant \<Rightarrow> nat \<Rightarrow> bus option \<Rightarrow> outbox \<Rightarrow> runtime_event list \<times> bus option \<times> outbox" where
  "drain now limit b t =
     (let es = pending limit t
      in if es = [] then ([], b, t)
         else (es, map_option (publish_events now es) b, mark_published now es t))"

definition history :: "outbox \<Rightarrow> string \<Rightarrow> runtime_event list" where
  "history t task_id =
     sort_key re_sequence (map ob_event (filter (\<lambda>r. re_task_id (ob_event r) = task_id) t))"

definition prunable :: "instant \<Rightarrow> outbox_row \<Rightarrow> bool" where
  "prunable keep_after r = (ob_published r \<noteq> None \<and> re_occurred_at (ob_event r) < keep_after)"

definition prune :: "instant \<Rightarrow> outbox \<Rightarrow> nat \<times> outbox" where
  "prune keep_after t = (length (filter (prunable keep_after) t), filter (\<lambda>r. \<not> prunable keep_after r) t)"

fun dedup_from :: "uid set \<Rightarrow> runtime_event list \<Rightarrow> runtime_event list" where
  "dedup_from seen [] = []"
| "dedup_from seen (e # es) =
     (if re_event_id e \<in> seen then dedup_from seen es
      else e # dedup_from (insert (re_event_id e) seen) es)"

definition deduplicate :: "runtime_event list \<Rightarrow> runtime_event list" where
  "deduplicate es = dedup_from {} es"

subsection \<open>Sequence numbers\<close>

lemma foldr_max_ge: "(x :: nat) \<in> set xs \<Longrightarrow> x \<le> foldr max xs 0"
  by (induction xs) auto

lemma last_sequence_ge: "r \<in> set t \<Longrightarrow> re_task_id (ob_event r) = k \<Longrightarrow>
    re_sequence (ob_event r) \<le> last_sequence t k"
  unfolding last_sequence_def by (rule foldr_max_ge) auto

definition outbox_ok :: "outbox \<Rightarrow> bool" where
  "outbox_ok t = (distinct (map (\<lambda>r. re_event_id (ob_event r)) t) \<and>
     distinct (map (\<lambda>r. (re_task_id (ob_event r), re_sequence (ob_event r))) t))"

lemma outbox_ok_stage:
  assumes "outbox_ok t" and "fresh \<notin> (\<lambda>r. re_event_id (ob_event r)) ` set t"
  shows "outbox_ok (snd (stage fresh now topic task_id body t))"
proof -
  have "(task_id, last_sequence t task_id + 1) \<notin>
      (\<lambda>r. (re_task_id (ob_event r), re_sequence (ob_event r))) ` set t"
    using last_sequence_ge [of _ t task_id] by force
  with assms show ?thesis
    by (auto simp: outbox_ok_def stage_def event_new_def Let_def)
qed

lemma outbox_ok_prune: "outbox_ok t \<Longrightarrow> outbox_ok (snd (prune keep t))"
  by (simp add: outbox_ok_def prune_def distinct_map_filter)

lemma history_sorted:
  assumes "outbox_ok t"
  shows "sorted_wrt (<) (map re_sequence (history t k))"
proof -
  let ?rows = "filter (\<lambda>r. re_task_id (ob_event r) = k) t"
  have d: "distinct (map (\<lambda>r. (re_task_id (ob_event r), re_sequence (ob_event r))) ?rows)"
    using assms by (simp add: outbox_ok_def distinct_map_filter)
  have "distinct (map re_sequence (map ob_event ?rows))"
    using d unfolding distinct_map by (auto simp: inj_on_def comp_def)
  then have "distinct (map re_sequence (history t k))"
    unfolding history_def by (metis distinct_map distinct_sort set_sort)
  then show ?thesis by (simp add: history_def strict_sorted_iff)
qed

subsection \<open>Publication\<close>

lemma mark_published_eq: "mark_published now es t =
    map (\<lambda>r. if re_event_id (ob_event r) \<in> re_event_id ` set es then r\<lparr>ob_published := Some now\<rparr> else r) t"
proof (induction es arbitrary: t)
  case Nil
  then show ?case by (simp add: mark_published_def)
next
  case (Cons e es)
  have "mark_published now (e # es) t = mark_published now es
      (update_where (\<lambda>r. re_event_id (ob_event r) = re_event_id e) (\<lambda>r. r\<lparr>ob_published := Some now\<rparr>) t)"
    by (simp add: mark_published_def)
  also have "\<dots> = map (\<lambda>r. if re_event_id (ob_event r) \<in> re_event_id ` set (e # es)
      then r\<lparr>ob_published := Some now\<rparr> else r) t"
    unfolding Cons.IH update_where_def map_map by (rule map_cong) simp_all
  finally show ?case .
qed

lemma mark_published_map:
  assumes "\<And>r s. ob_event r = ob_event s \<Longrightarrow> f r = f s"
  shows "map f (mark_published now es t) = map f t"
  unfolding mark_published_eq map_map by (rule map_cong) (auto intro: assms)

lemma outbox_ok_mark: "outbox_ok (mark_published now es t) = outbox_ok t"
  unfolding outbox_ok_def
  by (subst (1 2) mark_published_map) simp_all

lemma pending_subset: "e \<in> set (pending limit t) \<Longrightarrow> \<exists>r \<in> set t. ob_event r = e \<and> ob_published r = None"
  unfolding pending_def by (auto dest!: in_set_takeD)

text \<open>One outbox with the log of what has reached the bus since the start.\<close>

record outbox_world =
  ow_rows :: outbox
  ow_delivered :: "runtime_event list"

inductive outbox_step :: "outbox_world \<Rightarrow> outbox_world \<Rightarrow> bool" where
  staged: "fresh \<notin> (\<lambda>r. re_event_id (ob_event r)) ` set (ow_rows w) \<Longrightarrow>
     outbox_step w (w\<lparr>ow_rows := snd (stage fresh now topic task_id body (ow_rows w))\<rparr>)"
| drained: "es = pending limit (ow_rows w) \<Longrightarrow>
     outbox_step w (w\<lparr>ow_delivered := ow_delivered w @ es, ow_rows := mark_published now es (ow_rows w)\<rparr>)"
| crashed: "es = take n (pending limit (ow_rows w)) \<Longrightarrow>
     outbox_step w (w\<lparr>ow_delivered := ow_delivered w @ es\<rparr>)"
| pruned: "outbox_step w (w\<lparr>ow_rows := snd (prune keep (ow_rows w))\<rparr>)"

inductive outbox_reach :: "outbox_world \<Rightarrow> bool" where
  start: "outbox_reach \<lparr>ow_rows = [], ow_delivered = []\<rparr>"
| step: "outbox_reach w \<Longrightarrow> outbox_step w w' \<Longrightarrow> outbox_reach w'"

inductive_cases outbox_stepE: "outbox_step w w'"

definition outbox_inv :: "outbox_world \<Rightarrow> bool" where
  "outbox_inv w = (outbox_ok (ow_rows w) \<and>
     (\<forall>r \<in> set (ow_rows w). ob_published r \<noteq> None \<longrightarrow> ob_event r \<in> set (ow_delivered w)))"

lemma outbox_inv_step:
  assumes "outbox_step w w'" and "outbox_inv w"
  shows "outbox_inv w'"
  using assms
proof (induction rule: outbox_step.induct)
  case (staged fresh w now topic task_id body)
  then show ?case
    using outbox_ok_stage [of "ow_rows w" fresh now topic task_id body]
    by (auto simp: outbox_inv_def stage_def Let_def)
next
  case (drained es limit w now)
  have same: "r = s" if "r \<in> set (ow_rows w)" "s \<in> set (ow_rows w)"
    "re_event_id (ob_event r) = re_event_id (ob_event s)" for r s
    using drained.prems that by (auto simp: outbox_inv_def outbox_ok_def distinct_map inj_on_def)
  have ev: "ob_event r \<in> set es"
    if "r \<in> set (ow_rows w)" "e \<in> set es" "re_event_id (ob_event r) = re_event_id e" for r e
    using that pending_subset [of e limit "ow_rows w"] same drained.hyps by blast
  have "outbox_ok (mark_published now es (ow_rows w))"
    using drained.prems by (simp add: outbox_inv_def outbox_ok_mark)
  moreover have "ob_event r \<in> set (ow_delivered w @ es)"
    if "r \<in> set (mark_published now es (ow_rows w))" "ob_published r \<noteq> None" for r
    using that ev drained.prems by (auto simp: outbox_inv_def mark_published_eq split: if_splits)
  ultimately show ?case by (simp add: outbox_inv_def)
next
  case (crashed es n w limit)
  then show ?case by (auto simp: outbox_inv_def)
next
  case (pruned w keep)
  then show ?case using outbox_ok_prune by (auto simp: outbox_inv_def prune_def)
qed

lemma outbox_reach_inv: "outbox_reach w \<Longrightarrow> outbox_inv w"
proof (induction rule: outbox_reach.induct)
  case start
  then show ?case by (simp add: outbox_inv_def outbox_ok_def)
next
  case (step w w')
  then show ?case by (blast intro: outbox_inv_step)
qed

subsection \<open>Deduplication\<close>

lemma dedup_from_ids: "re_event_id ` set (dedup_from seen es) = re_event_id ` set es - seen"
  by (induction es arbitrary: seen) auto

lemma dedup_from_distinct: "distinct (map re_event_id (dedup_from seen es))"
proof (induction es arbitrary: seen)
  case Nil
  then show ?case by simp
next
  case (Cons e es)
  have "re_event_id e \<notin> re_event_id ` set (dedup_from (insert (re_event_id e) seen) es)"
    by (simp only: dedup_from_ids) simp
  with Cons show ?case by simp
qed

lemma dedup_from_subseq: "subseq (dedup_from seen es) es"
  by (induction es arbitrary: seen) auto

subsection \<open>Properties\<close>


definition staged_world :: outbox_world where
  "staged_world = \<lparr>ow_rows = snd (stage ''e1'' 5 ''task.created'' ''t1'' [] []), ow_delivered = []\<rparr>"

definition drained_world :: outbox_world where
  "drained_world =
     staged_world\<lparr>ow_delivered := ow_delivered staged_world @ pending 10 (ow_rows staged_world),
       ow_rows := mark_published 6 (pending 10 (ow_rows staged_world)) (ow_rows staged_world)\<rparr>"

lemma reach_staged_world: "outbox_reach staged_world"
  using outbox_step.staged [of "''e1''" "\<lparr>ow_rows = [], ow_delivered = []\<rparr>" 5 "''task.created''" "''t1''" "[]"]
  by (auto intro: outbox_reach.intros simp: staged_world_def)


text \<open>Pruning gives sequence numbers of a task back: after a published event is pruned, the
  next event of the task is staged under the same position.\<close>

theorem prune_reuses_sequence:
  "let t = ow_rows drained_world; t' = snd (prune 100 t)
   in re_sequence (fst (stage ''e2'' 7 ''task.started'' ''t1'' [] t)) = 2 \<and>
      re_sequence (fst (stage ''e2'' 7 ''task.started'' ''t1'' [] t')) = 1"
  by (simp add: drained_world_def staged_world_def stage_def last_sequence_def pending_def
      mark_published_def event_new_def prune_def prunable_def Let_def)

text \<open>What a consumer makes of an at-least-once stream: every event id once, none missing,
  the first occurrences in their order; deduplicating twice changes nothing.\<close>

theorem deduplicate_correct:
  "distinct (map re_event_id (deduplicate es)) \<and>
   re_event_id ` set (deduplicate es) = re_event_id ` set es \<and>
   subseq (deduplicate es) es \<and> deduplicate (deduplicate es) = deduplicate es"
proof -
  have keep: "distinct (map re_event_id xs) \<Longrightarrow> re_event_id ` set xs \<inter> seen = {} \<Longrightarrow>
      dedup_from seen xs = xs" for xs seen
    by (induction xs arbitrary: seen) auto
  show ?thesis
    unfolding deduplicate_def
    using dedup_from_distinct [of "{}" es] dedup_from_ids [of "{}" es] dedup_from_subseq [of "{}" es]
      keep [of "dedup_from {} es" "{}"] by simp
qed

end
