(* ===== verification/Errors.thy ===== *)
theory Errors
  imports Prelude
begin

section \<open>The error taxonomy (errors.py)\<close>

text \<open>
  The exception classes with their inheritance, the class attributes they override
  (\<open>blocking\<close>, a default \<open>user_message\<close>), the constructors that set fields, and
  \<open>isinstance\<close>, which is what an \<open>except\<close> clause asks. Exceptions that are not GARIS's
  own are a class name and a text; cancellation is apart because \<open>except Exception\<close> does
  not catch it.
\<close>

datatype error_class =
    GarisError | ConfigError | ToolNotFound | ToolValidationError | PolicyDenied
  | ApprovalRequired | ApprovalDenied | LeaseTimeout | ExecutionError | Unsupported
  | NetworkUnreachable | NetworkTimeout | StoreError | LockedError | SecretNotAllowed
  | ProviderError | NoModelAvailable | TaskAborted | TaskBlocked | CapabilityErrorClass

fun parent_class :: "error_class \<Rightarrow> error_class option" where
  "parent_class GarisError = None"
| "parent_class Unsupported = Some ExecutionError"
| "parent_class NetworkUnreachable = Some ExecutionError"
| "parent_class NetworkTimeout = Some ExecutionError"
| "parent_class ProviderError = Some ExecutionError"
| "parent_class c = Some GarisError"

definition is_subclass :: "error_class \<Rightarrow> error_class \<Rightarrow> bool" where
  "is_subclass c d = (c = d \<or> d = GarisError \<or> parent_class c = Some d)"

fun blocking :: "error_class \<Rightarrow> bool" where
  "blocking ConfigError = True"
| "blocking PolicyDenied = True"
| "blocking ApprovalRequired = True"
| "blocking ApprovalDenied = True"
| "blocking StoreError = True"
| "blocking LockedError = True"
| "blocking SecretNotAllowed = True"
| "blocking NoModelAvailable = True"
| "blocking TaskBlocked = True"
| "blocking _ = False"

fun class_user_message :: "error_class \<Rightarrow> string option" where
  "class_user_message SecretNotAllowed =
     Some (''To wygl'' @ pl_a @ ''da na dane logowania '' @ em_dash @ '' zapisuj'' @ pl_e @
           '' je w sejfie, nie w pami'' @ pl_e @ ''ci.'')"
| "class_user_message NoModelAvailable =
     Some (''Nie mam teraz dost'' @ pl_e @ ''pnego modelu, kt'' @ pl_o @ ''ry poradzi sobie z tym zadaniem.'')"
| "class_user_message _ = None"

record garis_error =
  ge_class :: error_class
  ge_message :: string
  ge_user_message :: "string option"
  ge_rule :: string
  ge_request_id :: uid
  ge_prompt :: string
  ge_tool :: "string option"
  ge_retryable :: bool
  ge_status :: int

definition mk_error :: "error_class \<Rightarrow> string \<Rightarrow> string option \<Rightarrow> garis_error" where
  "mk_error c message user_message =
     \<lparr>ge_class = c, ge_message = message,
      ge_user_message = (case user_message of Some m \<Rightarrow> Some m | None \<Rightarrow> class_user_message c),
      ge_rule = [], ge_request_id = [], ge_prompt = [], ge_tool = None, ge_retryable = True,
      ge_status = 0\<rparr>"

definition policy_denied :: "string \<Rightarrow> string \<Rightarrow> string option \<Rightarrow> garis_error" where
  "policy_denied message rule user_message = (mk_error PolicyDenied message user_message)\<lparr>ge_rule := rule\<rparr>"

definition approval_required :: "string \<Rightarrow> uid \<Rightarrow> string \<Rightarrow> garis_error" where
  "approval_required message request_id prompt =
     (mk_error ApprovalRequired message (Some prompt))\<lparr>ge_request_id := request_id, ge_prompt := prompt\<rparr>"

definition execution_error ::
  "error_class \<Rightarrow> string \<Rightarrow> string option \<Rightarrow> bool \<Rightarrow> string option \<Rightarrow> int \<Rightarrow> garis_error" where
  "execution_error c message tool retryable user_message status =
     (mk_error c message user_message)\<lparr>ge_tool := tool, ge_retryable := retryable, ge_status := status\<rparr>"

definition unsupported_error :: "string \<Rightarrow> string option \<Rightarrow> garis_error" where
  "unsupported_error message tool = execution_error Unsupported message tool False None 0"

definition explain :: "garis_error \<Rightarrow> string" where
  "explain e = (case ge_user_message e of Some m \<Rightarrow> if m = [] then ge_message e else m | None \<Rightarrow> ge_message e)"

text \<open>\<open>getattr(exc, "retryable", True)\<close>: only execution errors carry the attribute.\<close>

definition retryable_of :: "garis_error \<Rightarrow> bool" where
  "retryable_of e = (if is_subclass (ge_class e) ExecutionError then ge_retryable e else True)"

datatype exn = Garis garis_error | PyExn string string | Cancellation

definition isinstance :: "exn \<Rightarrow> error_class \<Rightarrow> bool" where
  "isinstance x c = (case x of Garis e \<Rightarrow> is_subclass (ge_class e) c | _ \<Rightarrow> False)"

lemmas error_simps [simp] =
  mk_error_def policy_denied_def approval_required_def execution_error_def unsupported_error_def

lemma isinstance_simps [simp]:
  "isinstance (Garis e) c = is_subclass (ge_class e) c"
  "isinstance (PyExn t m) c = False"
  "isinstance Cancellation c = False"
  by (simp_all add: isinstance_def)

lemma is_subclass_refl [simp]: "is_subclass c c"
  by (simp add: is_subclass_def)

lemma is_subclass_top [simp]: "is_subclass c GarisError"
  by (simp add: is_subclass_def)

lemma is_subclass_trans: "is_subclass a b \<Longrightarrow> is_subclass b c \<Longrightarrow> is_subclass a c"
  by (cases a; cases b) (auto simp: is_subclass_def)

text \<open>\<open>type(exc).__name__\<close> and \<open>str(exc)\<close>.\<close>

fun class_name :: "error_class \<Rightarrow> string" where
  "class_name GarisError = ''GarisError''"
| "class_name ConfigError = ''ConfigError''"
| "class_name ToolNotFound = ''ToolNotFound''"
| "class_name ToolValidationError = ''ToolValidationError''"
| "class_name PolicyDenied = ''PolicyDenied''"
| "class_name ApprovalRequired = ''ApprovalRequired''"
| "class_name ApprovalDenied = ''ApprovalDenied''"
| "class_name LeaseTimeout = ''LeaseTimeout''"
| "class_name ExecutionError = ''ExecutionError''"
| "class_name Unsupported = ''Unsupported''"
| "class_name NetworkUnreachable = ''NetworkUnreachable''"
| "class_name NetworkTimeout = ''NetworkTimeout''"
| "class_name StoreError = ''StoreError''"
| "class_name LockedError = ''LockedError''"
| "class_name SecretNotAllowed = ''SecretNotAllowed''"
| "class_name ProviderError = ''ProviderError''"
| "class_name NoModelAvailable = ''NoModelAvailable''"
| "class_name TaskAborted = ''TaskAborted''"
| "class_name TaskBlocked = ''TaskBlocked''"
| "class_name CapabilityErrorClass = ''CapabilityError''"

fun exn_name :: "exn \<Rightarrow> string" where
  "exn_name (Garis e) = class_name (ge_class e)"
| "exn_name (PyExn t m) = t"
| "exn_name Cancellation = ''CancelledError''"

fun exn_text :: "exn \<Rightarrow> string" where
  "exn_text (Garis e) = ge_message e"
| "exn_text (PyExn t m) = m"
| "exn_text Cancellation = []"

text \<open>An error whose class is not blocking never carries a class-level sentence for the user.\<close>

lemma class_message_blocking: "class_user_message c \<noteq> None \<Longrightarrow> blocking c"
  by (cases c) simp_all

end
