(* ===== verification/Actions.thy ===== *)
theory Actions
  imports Errors
begin

section \<open>Actions and the tool registry (runtime/action.py, runtime/registry.py)\<close>

text \<open>
  An action is a tool name with parameters and an intent; its fingerprint is the digest of a
  canonical dump. A tool specification declares parameters, effects and platforms, and
  \<open>validate\<close> coerces parameters or says what is wrong. The registry is a dict of
  specifications. Parameters of the model: \<open>digest\<close> (SHA-256), \<open>to_float\<close> (Python's
  \<open>float\<close> constructor, binary floating point is not modelled) and \<open>platform\<close>
  (\<open>sys.platform\<close>).
\<close>

subsection \<open>Effects\<close>

datatype effect =
    READ | WRITE | DELETE_PERMANENT | EXEC | INSTALL | NETWORK | PAYMENT | PUBLISH
  | SEND_MESSAGE | CREDENTIALS | SYSTEM_CONFIG | INPUT_CONTROL | CAPTURE | ELEVATE | REMOTE

fun effect_value :: "effect \<Rightarrow> string" where
  "effect_value READ = ''read''"
| "effect_value WRITE = ''write''"
| "effect_value DELETE_PERMANENT = ''delete_permanent''"
| "effect_value EXEC = ''exec''"
| "effect_value INSTALL = ''install''"
| "effect_value NETWORK = ''network''"
| "effect_value PAYMENT = ''payment''"
| "effect_value PUBLISH = ''publish''"
| "effect_value SEND_MESSAGE = ''send_message''"
| "effect_value CREDENTIALS = ''credentials''"
| "effect_value SYSTEM_CONFIG = ''system_config''"
| "effect_value INPUT_CONTROL = ''input_control''"
| "effect_value CAPTURE = ''capture''"
| "effect_value ELEVATE = ''elevate''"
| "effect_value REMOTE = ''remote''"

fun label_pl :: "effect \<Rightarrow> string" where
  "label_pl READ = ''odczyt''"
| "label_pl WRITE = ''zapis''"
| "label_pl DELETE_PERMANENT = ''trwa'' @ pl_l @ ''e usuni'' @ pl_e @ ''cie''"
| "label_pl EXEC = ''uruchomienie programu''"
| "label_pl INSTALL = ''instalacja''"
| "label_pl NETWORK = ''po'' @ pl_l @ pl_a @ ''czenie sieciowe''"
| "label_pl PAYMENT = ''p'' @ pl_l @ ''atno'' @ pl_s @ pl_c"
| "label_pl PUBLISH = ''publikacja''"
| "label_pl SEND_MESSAGE = ''wys'' @ pl_l @ ''anie wiadomo'' @ pl_s @ ''ci''"
| "label_pl CREDENTIALS = ''dane logowania''"
| "label_pl SYSTEM_CONFIG = ''zmiana ustawie'' @ pl_n @ '' systemu''"
| "label_pl INPUT_CONTROL = ''sterowanie mysz'' @ pl_a @ '' i klawiatur'' @ pl_a"
| "label_pl CAPTURE = ''nagrywanie ekranu lub mikrofonu''"
| "label_pl ELEVATE = ''uprawnienia administratora''"
| "label_pl REMOTE = ''dzia'' @ pl_l @ ''anie na innym urz'' @ pl_a @ ''dzeniu''"

definition ALL_EFFECTS :: "effect list" where
  "ALL_EFFECTS = [READ, WRITE, DELETE_PERMANENT, EXEC, INSTALL, NETWORK, PAYMENT, PUBLISH,
     SEND_MESSAGE, CREDENTIALS, SYSTEM_CONFIG, INPUT_CONTROL, CAPTURE, ELEVATE, REMOTE]"

text \<open>\<open>Effect(name)\<close>; \<open>None\<close> is the \<open>ValueError\<close>.\<close>

definition effect_of :: "string \<Rightarrow> effect option" where
  "effect_of name = find (\<lambda>e. effect_value e = name) ALL_EFFECTS"

lemma in_ALL_EFFECTS [simp]: "e \<in> set ALL_EFFECTS"
  by (cases e) (simp_all add: ALL_EFFECTS_def)

lemma inj_effect_value: "effect_value a = effect_value b \<longleftrightarrow> a = b"
  by (cases a; cases b) simp_all

lemma effect_of_value [simp]: "effect_of (effect_value e) = Some e"
  by (cases e) (simp_all add: effect_of_def ALL_EFFECTS_def)

text \<open>Effects sort by their value, as members of a \<open>StrEnum\<close> do.\<close>

definition sorted_effects :: "effect set \<Rightarrow> effect list" where
  "sorted_effects es = sort_key effect_value (filter (\<lambda>e. e \<in> es) ALL_EFFECTS)"

lemma set_sorted_effects [simp]: "set (sorted_effects es) = es"
  by (auto simp: sorted_effects_def)

lemma sorted_effects_Nil [simp]: "sorted_effects es = [] \<longleftrightarrow> es = {}"
  using set_sorted_effects [of es] by (metis set_empty)

subsection \<open>Actions\<close>

record action =
  ac_tool :: string
  ac_params :: pydict
  ac_intent :: string
  ac_task :: "string option"
  ac_step :: "string option"
  ac_id :: uid
  ac_created_at :: instant
  ac_estimated_bytes :: int
  ac_estimated_cost :: rat
  ac_reversible :: bool
  ac_target :: string

definition new_action ::
  "uid \<Rightarrow> instant \<Rightarrow> string \<Rightarrow> pydict \<Rightarrow> string \<Rightarrow> string option \<Rightarrow> string option \<Rightarrow> string \<Rightarrow> action" where
  "new_action fresh now tool params intent task step target =
     \<lparr>ac_tool = tool, ac_params = params, ac_intent = intent, ac_task = task, ac_step = step,
      ac_id = fresh, ac_created_at = now, ac_estimated_bytes = 0, ac_estimated_cost = 0,
      ac_reversible = True, ac_target = target\<rparr>"

text \<open>The dump uses \<open>default=str\<close>; an opaque value is dumped as its text either way.\<close>

definition fingerprint :: "(string \<Rightarrow> string) \<Rightarrow> action \<Rightarrow> string" where
  "fingerprint digest a =
     digest (canonical_json (PDict
       [(''tool'', PStr (ac_tool a)), (''params'', PDict (ac_params a)), (''target'', PStr (ac_target a))]))"

definition short_params :: "pydict \<Rightarrow> nat \<Rightarrow> string" where
  "short_params params limit =
     shorten limit (join '', '' (map (\<lambda>(k, v). k @ ''='' @ shorten 48 (py_str v)) params))"

definition describe_action :: "action \<Rightarrow> string" where
  "describe_action a = ac_tool a @ ''('' @ short_params (ac_params a) 120 @ '')''"

record action_result =
  ar_ok :: bool
  ar_tool :: string
  ar_action_id :: uid
  ar_value :: pyval
  ar_error :: "string option"
  ar_error_kind :: string
  ar_retryable :: bool
  ar_detail :: string
  ar_duration_ms :: int
  ar_verified :: "bool option"

definition result_success :: "action \<Rightarrow> pyval \<Rightarrow> int \<Rightarrow> action_result" where
  "result_success a val duration =
     \<lparr>ar_ok = True, ar_tool = ac_tool a, ar_action_id = ac_id a, ar_value = val, ar_error = None,
      ar_error_kind = [], ar_retryable = True, ar_detail = [], ar_duration_ms = duration,
      ar_verified = None\<rparr>"

definition result_failure ::
  "action \<Rightarrow> string \<Rightarrow> string \<Rightarrow> bool \<Rightarrow> string \<Rightarrow> int \<Rightarrow> action_result" where
  "result_failure a err kind retryable detail duration =
     \<lparr>ar_ok = False, ar_tool = ac_tool a, ar_action_id = ac_id a, ar_value = PNone, ar_error = Some err,
      ar_error_kind = kind, ar_retryable = retryable, ar_detail = detail, ar_duration_ms = duration,
      ar_verified = None\<rparr>"

lemmas result_simps [runtime_simps] = result_success_def result_failure_def

lemma fingerprint_order:
  assumes "dict_ok (ac_params a)" and "mset (ac_params a) = mset (ac_params b)"
    and "ac_tool a = ac_tool b" and "ac_target a = ac_target b"
  shows "fingerprint digest a = fingerprint digest b"
proof -
  have "sort_dicts (PDict (ac_params a)) = sort_dicts (PDict (ac_params b))"
    using assms(1,2) by (rule sort_dicts_order)
  then show ?thesis using assms(3,4) by (simp add: fingerprint_def canonical_json_def)
qed

subsection \<open>Python conversions\<close>

definition is_digit :: "char \<Rightarrow> bool" where
  "is_digit c = (48 \<le> byte_of c \<and> byte_of c \<le> 57)"

text \<open>Digits of an \<open>int\<close> literal: single underscores may separate digits.\<close>

fun digits_value :: "nat \<Rightarrow> string \<Rightarrow> nat option" where
  "digits_value n [] = Some n"
| "digits_value n (c # cs) =
     (if is_digit c then digits_value (10 * n + (byte_of c - 48)) cs
      else if c = CHR ''_'' then
        (case cs of d # ds \<Rightarrow> if is_digit d then digits_value n cs else None | [] \<Rightarrow> None)
      else None)"

definition parse_int :: "string \<Rightarrow> int option" where
  "parse_int text =
     (let s = strip text;
          (neg, body) = (case s of c # cs \<Rightarrow> if c = CHR ''-'' then (True, cs)
             else if c = CHR ''+'' then (False, cs) else (False, s) | [] \<Rightarrow> (False, s))
      in case body of
           c # cs \<Rightarrow> if is_digit c
             then map_option (\<lambda>n. if neg then - int n else int n) (digits_value 0 body) else None
         | [] \<Rightarrow> None)"

fun py_int :: "pyval \<Rightarrow> int option" where
  "py_int (PBool b) = Some (if b then 1 else 0)"
| "py_int (PInt i) = Some i"
| "py_int (PFloat r t) = Some (if r < 0 then - \<lfloor>- r\<rfloor> else \<lfloor>r\<rfloor>)"
| "py_int (PStr s) = parse_int s"
| "py_int _ = None"

text \<open>Equality of Python values; booleans and numbers compare by value.\<close>

fun number_of :: "pyval \<Rightarrow> rat option" where
  "number_of (PBool b) = Some (if b then 1 else 0)"
| "number_of (PInt i) = Some (of_int i)"
| "number_of (PFloat r t) = Some r"
| "number_of _ = None"

definition py_eq :: "pyval \<Rightarrow> pyval \<Rightarrow> bool" where
  "py_eq a b = (case (number_of a, number_of b) of (Some x, Some y) \<Rightarrow> x = y | _ \<Rightarrow> a = b)"

subsection \<open>Parameters\<close>

record param_spec =
  ps_type :: string
  ps_description :: string
  ps_required :: bool
  ps_default :: pyval
  ps_choices :: "pyval list"
  ps_max_length :: "nat option"

definition truth_words :: "string list" where
  "truth_words = [''true'', ''1'', ''yes'', ''tak'']"

definition false_words :: "string list" where
  "false_words = [''false'', ''0'', ''no'', ''nie'']"

text \<open>The conversion by declared type; \<open>None\<close> is a \<open>TypeError\<close> or \<open>ValueError\<close>.\<close>

definition convert_param :: "(pyval \<Rightarrow> pyval option) \<Rightarrow> string \<Rightarrow> pyval \<Rightarrow> pyval option" where
  "convert_param to_float ty val =
     (if ty \<in> {''string'', ''path'', ''secret''} then Some (PStr (py_str val))
      else if ty = ''int'' then map_option PInt (py_int val)
      else if ty = ''float'' then to_float val
      else if ty = ''bool'' then
        (case val of
           PStr s \<Rightarrow> (let low = lower (strip s) in
             if low \<in> set truth_words then Some (PBool True)
             else if low \<in> set false_words then Some (PBool False) else None)
         | _ \<Rightarrow> Some (PBool (truthy val)))
      else if ty = ''list'' then Some (case val of PList xs \<Rightarrow> PList xs | _ \<Rightarrow> PList [val])
      else if ty = ''dict'' then (case val of PDict d \<Rightarrow> Some (PDict d) | _ \<Rightarrow> None)
      else Some val)"

definition too_long :: "nat option \<Rightarrow> pyval \<Rightarrow> bool" where
  "too_long limit out =
     (case limit of None \<Rightarrow> False
      | Some n \<Rightarrow> (case out of PStr s \<Rightarrow> n < cp_len s | PList xs \<Rightarrow> n < length xs | _ \<Rightarrow> False))"

definition coerce :: "(pyval \<Rightarrow> pyval option) \<Rightarrow> param_spec \<Rightarrow> string \<Rightarrow> pyval \<Rightarrow> string + pyval" where
  "coerce to_float spec name val =
     (case convert_param to_float (ps_type spec) val of
        None \<Rightarrow> Inl (''Parametr '' @ repr_str name @ '' powinien by'' @ pl_c @ '' typu '' @
                     ps_type spec @ '', otrzymano '' @ py_repr val)
      | Some out \<Rightarrow>
          if ps_choices spec \<noteq> [] \<and> \<not> list_ex (py_eq out) (ps_choices spec) then
            Inl (''Parametr '' @ repr_str name @ '' musi by'' @ pl_c @ '' jednym z: '' @
                 join '', '' (map py_str (ps_choices spec)) @ '' (otrzymano '' @ py_repr out @ '')'')
          else if too_long (ps_max_length spec) out then
            Inl (''Parametr '' @ repr_str name @ '' jest za d'' @ pl_l @ ''ugi (maks. '' @
                 nat_str (the (ps_max_length spec)) @ '')'')
          else Inr out)"

definition to_schema :: "param_spec \<Rightarrow> pydict" where
  "to_schema s =
     [(''type'', PStr (ps_type s))] @
     (if ps_description s \<noteq> [] then [(''description'', PStr (ps_description s))] else []) @
     (if ps_required s then [(''required'', PBool True)]
      else if ps_default s \<noteq> PNone then [(''default'', ps_default s)] else []) @
     (if ps_choices s \<noteq> [] then [(''choices'', PList (ps_choices s))] else [])"

subsection \<open>Tool specifications\<close>

record 'h tool_spec =
  ts_name :: string
  ts_summary :: string
  ts_handler :: 'h
  ts_params :: "(string \<times> param_spec) list"
  ts_effects :: "effect set"
  ts_platforms :: "string list"
  ts_category :: string
  ts_timeout :: rat
  ts_reversible :: bool
  ts_trusted_source :: bool
  ts_resources :: "(pydict \<Rightarrow> string list) option"
  ts_estimate :: "(pydict \<Rightarrow> int \<times> rat) option"
  ts_danger_note :: string
  ts_examples :: "string list"

definition supported_here :: "string \<Rightarrow> 'h tool_spec \<Rightarrow> bool" where
  "supported_here platform s = (''*'' \<in> set (ts_platforms s) \<or> platform \<in> set (ts_platforms s))"

definition require_supported :: "string \<Rightarrow> 'h tool_spec \<Rightarrow> garis_error + unit" where
  "require_supported platform s =
     (if supported_here platform s then Inr ()
      else Inl (unsupported_error (''Narz'' @ pl_e @ ''dzie '' @ repr_str (ts_name s) @
             '' nie dzia'' @ pl_l @ ''a na '' @ platform) (Some (ts_name s))))"

definition validate_one ::
  "(pyval \<Rightarrow> pyval option) \<Rightarrow> string \<Rightarrow> string \<Rightarrow> param_spec \<Rightarrow> pydict \<Rightarrow> string + pydict" where
  "validate_one to_float tool name spec params =
     (case map_of params name of
        None \<Rightarrow>
          if ps_required spec then Inl (tool @ '': brakuje parametru '' @ repr_str name)
          else Inr (if ps_default spec \<noteq> PNone then [(name, ps_default spec)] else [])
      | Some val \<Rightarrow>
          if val = PNone \<and> \<not> ps_required spec then Inr []
          else (case coerce to_float spec name val of
                  Inl e \<Rightarrow> Inl e | Inr out \<Rightarrow> Inr [(name, out)]))"

fun validate_params ::
  "(pyval \<Rightarrow> pyval option) \<Rightarrow> string \<Rightarrow> (string \<times> param_spec) list \<Rightarrow> pydict \<Rightarrow> string + pydict" where
  "validate_params to_float tool [] params = Inr []"
| "validate_params to_float tool ((name, spec) # rest) params =
     (case validate_one to_float tool name spec params of
        Inl e \<Rightarrow> Inl e
      | Inr kv \<Rightarrow> (case validate_params to_float tool rest params of
           Inl e \<Rightarrow> Inl e | Inr out \<Rightarrow> Inr (kv @ out)))"

definition validate :: "(pyval \<Rightarrow> pyval option) \<Rightarrow> 'h tool_spec \<Rightarrow> pydict \<Rightarrow> string + pydict" where
  "validate to_float s params =
     (let unknown = filter (\<lambda>k. k \<notin> fst ` set (ts_params s)) (map fst params)
      in if unknown \<noteq> [] then
           Inl (ts_name s @ '': nieznane parametry '' @ py_repr (PList (map PStr (sort unknown))) @
                ''. Dost'' @ pl_e @ ''pne: '' @
                (if ts_params s = [] then ''(brak)'' else join '', '' (sort (map fst (ts_params s)))))
         else validate_params to_float (ts_name s) (ts_params s) params)"

definition resource_keys :: "'h tool_spec \<Rightarrow> pydict \<Rightarrow> string list" where
  "resource_keys s params = (case ts_resources s of None \<Rightarrow> [] | Some f \<Rightarrow> f params)"

definition estimates :: "'h tool_spec \<Rightarrow> pydict \<Rightarrow> int \<times> rat" where
  "estimates s params = (case ts_estimate s of None \<Rightarrow> (0, 0) | Some f \<Rightarrow> f params)"

definition describe_for_model :: "'h tool_spec \<Rightarrow> pydict" where
  "describe_for_model s =
     [(''name'', PStr (ts_name s)), (''summary'', PStr (ts_summary s)),
      (''params'', PDict (map (\<lambda>(k, v). (k, PDict (to_schema v))) (ts_params s)))] @
     (if ts_effects s \<noteq> {}
      then [(''effects'', PList (map PStr (map effect_value (sorted_effects (ts_effects s)))))] else []) @
     (if ts_examples s \<noteq> [] then [(''examples'', PList (map PStr (ts_examples s)))] else [])"

subsection \<open>The registry\<close>

type_synonym 'h registry = "(string \<times> 'h tool_spec) list"

definition register :: "'h tool_spec \<Rightarrow> bool \<Rightarrow> 'h registry \<Rightarrow> string + 'h registry" where
  "register s replace reg =
     (if map_of reg (ts_name s) \<noteq> None \<and> \<not> replace
      then Inl (''Narz'' @ pl_e @ ''dzie '' @ repr_str (ts_name s) @ '' jest ju'' @ pl_z @ '' zarejestrowane'')
      else Inr (dict_set (ts_name s) s reg))"

definition reg_get :: "'h registry \<Rightarrow> string \<Rightarrow> garis_error + 'h tool_spec" where
  "reg_get reg name =
     (case map_of reg name of
        Some s \<Rightarrow> Inr s
      | None \<Rightarrow> Inl (mk_error ToolNotFound
          (''Nie ma narz'' @ pl_e @ ''dzia '' @ repr_str name @ ''. Dost'' @ pl_e @ ''pne: '' @
           (if reg = [] then ''(brak)'' else join '', '' (sort (map fst reg)))) None))"

definition reg_has :: "'h registry \<Rightarrow> string \<Rightarrow> bool" where
  "reg_has reg name = (map_of reg name \<noteq> None)"

definition reg_all :: "'h registry \<Rightarrow> 'h tool_spec list" where
  "reg_all reg = sort_key ts_name (map snd reg)"

definition reg_available :: "string \<Rightarrow> 'h registry \<Rightarrow> 'h tool_spec list" where
  "reg_available platform reg = filter (supported_here platform) (reg_all reg)"

definition by_category :: "string \<Rightarrow> 'h registry \<Rightarrow> (string \<times> 'h tool_spec list) list" where
  "by_category platform reg =
     foldl (\<lambda>g s. dict_set (ts_category s)
              ((case map_of g (ts_category s) of None \<Rightarrow> [] | Some xs \<Rightarrow> xs) @ [s]) g)
       [] (reg_available platform reg)"

definition catalog_for_model :: "string \<Rightarrow> 'h registry \<Rightarrow> string list option \<Rightarrow> pydict list" where
  "catalog_for_model platform reg categories =
     map describe_for_model
       (filter (\<lambda>s. case categories of None \<Rightarrow> True
          | Some cs \<Rightarrow> cs = [] \<or> ts_category s \<in> set cs) (reg_available platform reg))"

definition registry_ok :: "'h registry \<Rightarrow> bool" where
  "registry_ok reg = (dict_ok reg \<and> (\<forall>(n, s) \<in> set reg. ts_name s = n))"

lemma registry_ok_register:
  assumes "registry_ok reg" and "register s replace reg = Inr reg'"
  shows "registry_ok reg' \<and> reg_get reg' (ts_name s) = Inr s"
proof -
  have reg': "reg' = dict_set (ts_name s) s reg" using assms(2) by (auto simp: register_def split: if_splits)
  have "set (dict_set k v d) \<subseteq> insert (k, v) (set d)" for k :: string and v :: "'a tool_spec" and d
    by (induction k v d rule: dict_set.induct) auto
  then show ?thesis using assms(1) unfolding reg' by (fastforce simp: registry_ok_def reg_get_def)
qed

subsection \<open>What validation guarantees\<close>

definition param_ok :: "param_spec \<Rightarrow> pyval \<Rightarrow> bool" where
  "param_ok spec out =
     (out = ps_default spec \<or>
      (\<not> too_long (ps_max_length spec) out \<and>
       (ps_choices spec \<noteq> [] \<longrightarrow> list_ex (py_eq out) (ps_choices spec))))"

lemma coerce_ok: "coerce to_float spec name val = Inr out \<Longrightarrow> param_ok spec out"
  by (auto simp: coerce_def param_ok_def split: option.splits if_splits)

lemma validate_one_ok:
  "validate_one to_float tool name spec params = Inr kv \<Longrightarrow>
   kv = [] \<and> \<not> ps_required spec \<or> (\<exists>v. kv = [(name, v)] \<and> param_ok spec v)"
  unfolding validate_one_def
  by (auto simp: param_ok_def split: option.splits sum.splits if_splits dest: coerce_ok [unfolded param_ok_def])

lemma validate_params_ConsE:
  assumes "validate_params to_float tool ((name, spec) # rest) params = Inr out"
  obtains kv tail where "out = kv @ tail" and "validate_params to_float tool rest params = Inr tail"
    and "kv = [] \<and> \<not> ps_required spec \<or> (\<exists>v. kv = [(name, v)] \<and> param_ok spec v)"
  using assms by (auto split: sum.splits dest: validate_one_ok)

lemma validate_params_keys:
  "validate_params to_float tool specs params = Inr out \<Longrightarrow> fst ` set out \<subseteq> fst ` set specs"
proof (induction specs arbitrary: out)
  case Nil
  then show ?case by simp
next
  case (Cons p specs)
  obtain name spec where p: "p = (name, spec)" by (cases p)
  obtain kv tail where "out = kv @ tail" "validate_params to_float tool specs params = Inr tail"
    "kv = [] \<and> \<not> ps_required spec \<or> (\<exists>v. kv = [(name, v)] \<and> param_ok spec v)"
    using Cons.prems unfolding p by (rule validate_params_ConsE)
  with Cons.IH [of tail] p show ?case by auto
qed

lemma validate_params_item:
  assumes "dict_ok specs" and "validate_params to_float tool specs params = Inr out"
    and "map_of specs name = Some spec"
  shows "(case map_of out name of Some v \<Rightarrow> param_ok spec v | None \<Rightarrow> \<not> ps_required spec)"
  using assms
proof (induction specs arbitrary: out)
  case Nil
  then show ?case by simp
next
  case (Cons p rest)
  obtain n s where p: "p = (n, s)" by (cases p)
  obtain kv tail where out: "out = kv @ tail"
    and tail: "validate_params to_float tool rest params = Inr tail"
    and kv: "kv = [] \<and> \<not> ps_required s \<or> (\<exists>v. kv = [(n, v)] \<and> param_ok s v)"
    using Cons.prems(2) unfolding p by (rule validate_params_ConsE)
  have fresh: "n \<notin> fst ` set rest" "dict_ok rest"
    using Cons.prems(1) p by (auto simp: dict_ok_def)
  show ?case
  proof (cases "name = n")
    case True
    then have "map_of tail name = None"
      using fresh(1) validate_params_keys [OF tail] by (auto simp: map_of_eq_None_iff)
    with True kv out p Cons.prems(3) show ?thesis by (auto simp: map_add_def)
  next
    case False
    with Cons.prems(3) p have "map_of rest name = Some spec" by simp
    moreover have "map_of out name = map_of tail name"
      using kv out False by (auto simp: map_add_def split: option.splits)
    ultimately show ?thesis using Cons.IH [OF fresh(2) tail] by simp
  qed
qed

lemma validate_params_keys_in:
  "validate to_float s params = Inr out \<Longrightarrow> fst ` set out \<subseteq> fst ` set (ts_params s)"
  by (auto simp: validate_def Let_def split: if_splits dest!: validate_params_keys)

subsection \<open>Properties\<close>

text \<open>Parameters that validation lets through are the ones the tool declares, and each
  declared parameter is present and within its declaration (its default, or a coerced value of an
  allowed choice and length), or absent and not required.\<close>

theorem validate_guarantees:
  assumes "dict_ok (ts_params s)" and "validate to_float s params = Inr out"
  shows "fst ` set out \<subseteq> fst ` set (ts_params s) \<and> fst ` set params \<subseteq> fst ` set (ts_params s) \<and>
    (map_of (ts_params s) name = Some spec \<longrightarrow>
      (case map_of out name of Some v \<Rightarrow> param_ok spec v | None \<Rightarrow> \<not> ps_required spec))"
proof -
  have known: "filter (\<lambda>k. k \<notin> fst ` set (ts_params s)) (map fst params) = []"
    and run: "validate_params to_float (ts_name s) (ts_params s) params = Inr out"
    using assms(2) by (auto simp: validate_def Let_def split: if_splits)
  show ?thesis
    using validate_params_keys [OF run] validate_params_item [OF assms(1) run] known
    by (auto simp: filter_empty_conv)
qed

definition sample_tool :: "unit tool_spec" where
  "sample_tool =
     \<lparr>ts_name = ''volume'', ts_summary = [], ts_handler = (),
      ts_params = [(''level'', \<lparr>ps_type = ''int'', ps_description = [], ps_required = True,
        ps_default = PNone, ps_choices = [], ps_max_length = None\<rparr>)],
      ts_effects = {SYSTEM_CONFIG}, ts_platforms = [''win32''], ts_category = ''system'',
      ts_timeout = 30, ts_reversible = True, ts_trusted_source = True, ts_resources = None,
      ts_estimate = None, ts_danger_note = [], ts_examples = []\<rparr>"

theorem validate_guarantees_witness:
  "validate (\<lambda>v. None) sample_tool [(''level'', PStr '' -12 '')] = Inr [(''level'', PInt (- 12))] \<and>
   fst ` set [(''level'', PInt (- 12))] \<subseteq> fst ` set (ts_params sample_tool)"
proof -
  have ok: "dict_ok (ts_params sample_tool)" by (simp add: sample_tool_def dict_ok_def)
  have run: "validate (\<lambda>v. None) sample_tool [(''level'', PStr '' -12 '')] = Inr [(''level'', PInt (- 12))]"
    by (simp add: validate_def sample_tool_def validate_one_def coerce_def convert_param_def
        parse_int_def strip_def strip_by_def is_space_def is_digit_def byte_of_def too_long_def)
  show ?thesis using run validate_guarantees [OF ok run] by blast
qed

text \<open>The fingerprint that ties an approval to an operation depends on the tool, the target
  and the parameters as a set of pairs, not on their order nor on the intent or the task.\<close>

theorem fingerprint_order_free:
  assumes "dict_ok (ac_params a)" and "mset (ac_params a) = mset (ac_params b)"
    and "ac_tool a = ac_tool b" and "ac_target a = ac_target b"
  shows "fingerprint digest a = fingerprint digest b"
  using assms by (rule fingerprint_order)

theorem fingerprint_order_free_witness:
  "fingerprint (\<lambda>s. s) (new_action ''1'' 0 ''pay'' [(''to'', PStr ''x''), (''amount'', PInt 5)] ''a'' None None []) =
   fingerprint (\<lambda>s. s) (new_action ''2'' 9 ''pay'' [(''amount'', PInt 5), (''to'', PStr ''x'')] ''b'' (Some ''t'') None [])"
  by (rule fingerprint_order_free) (simp_all add: new_action_def dict_ok_def)

end
