(* ===== verification/Policy.thy ===== *)
theory Policy
  imports Actions
begin

section \<open>Policy: what runs silently, what needs a yes, what never runs (runtime/policy.py)\<close>

text \<open>
  \<open>evaluate\<close> with its guards in the code's order, the hard denials, and the sentences
  put to the user. Parameters of the model: \<open>npath\<close>, the path normalisation of the host
  (\<open>os.path.normcase(abspath(expanduser(p)))\<close>), and \<open>show_float\<close>, Python's text of a
  float. Decisions are linearly ordered by strictness; the lemmas show that \<open>evaluate\<close> is
  monotone in the declared effects and in the configured gates.
\<close>

datatype decision = ALLOW | CONFIRM | DENY

fun decision_value :: "decision \<Rightarrow> string" where
  "decision_value ALLOW = ''allow''"
| "decision_value CONFIRM = ''confirm''"
| "decision_value DENY = ''deny''"

text \<open>Strictness.\<close>

fun strictness :: "decision \<Rightarrow> nat" where
  "strictness ALLOW = 0"
| "strictness CONFIRM = 1"
| "strictness DENY = 2"

lemma inj_strictness: "strictness a = strictness b \<Longrightarrow> a = b"
  by (cases a; cases b) simp_all

instantiation decision :: linorder
begin

definition less_eq_decision :: "decision \<Rightarrow> decision \<Rightarrow> bool" where
  "less_eq_decision a b = (strictness a \<le> strictness b)"

definition less_decision :: "decision \<Rightarrow> decision \<Rightarrow> bool" where
  "less_decision a b = (strictness a < strictness b)"

instance
  by standard (auto simp: less_eq_decision_def less_decision_def dest: inj_strictness)

end

lemma decision_order_simps [simp]:
  "ALLOW \<le> d" "d \<le> DENY" "(d \<le> ALLOW) = (d = ALLOW)" "(DENY \<le> d) = (d = DENY)"
  by (cases d; simp add: less_eq_decision_def)+

record verdict =
  vd_decision :: decision
  vd_rule :: string
  vd_prompt :: string
  vd_reason :: string

definition vd_allowed :: "verdict \<Rightarrow> bool" where
  "vd_allowed v = (vd_decision v = ALLOW)"

definition allow_verdict :: verdict where
  "allow_verdict = \<lparr>vd_decision = ALLOW, vd_rule = ''default'', vd_prompt = [], vd_reason = []\<rparr>"

definition NON_NEGOTIABLE_CONFIRM :: "effect set" where
  "NON_NEGOTIABLE_CONFIRM = {PAYMENT, PUBLISH, SEND_MESSAGE, CREDENTIALS, DELETE_PERMANENT}"

text \<open>The part of \<open>AutonomyConfig\<close> and \<open>Paths\<close> the engine reads.\<close>

record autonomy_config =
  au_confirm_effects :: "string list"
  au_download_notice :: int
  au_spend_notice :: rat
  au_auto_install :: bool
  au_allow_admin :: bool

record guarded_paths =
  gp_key_file :: string
  gp_vault_db :: string
  gp_state_db :: string

subsection \<open>Text put to the user\<close>

text \<open>\<open>f"{x:.df}"\<close>: the exact value, rounded half to even at \<open>d\<close> decimals.\<close>

definition round_even :: "rat \<Rightarrow> int" where
  "round_even r =
     (let f = \<lfloor>r\<rfloor>; d = r - of_int f
      in if d < 1 / 2 then f else if 1 / 2 < d then f + 1 else if even f then f else f + 1)"

fun pad_zeros :: "nat \<Rightarrow> string \<Rightarrow> string" where
  "pad_zeros n s = replicate (n - length s) (CHR ''0'') @ s"

definition fixed_text :: "nat \<Rightarrow> rat \<Rightarrow> string" where
  "fixed_text d r =
     (let n = round_even (\<bar>r\<bar> * 10 ^ d);
          q = nat n div 10 ^ d; m = nat n mod 10 ^ d
      in (if r < 0 then ''-'' else []) @ nat_str q @
         (if d = 0 then [] else ''.'' @ pad_zeros d (nat_str m)))"

definition GB :: int where
  "GB = 1024 ^ 3"

definition human_bytes :: "int \<Rightarrow> string" where
  "human_bytes nb =
     (if GB \<le> nb then fixed_text 1 (of_int nb / of_int GB) @ '' GB''
      else if 1024 ^ 2 \<le> nb then fixed_text 0 (of_int nb / 1024 ^ 2) @ '' MB''
      else if 1024 \<le> nb then fixed_text 0 (of_int nb / 1024) @ '' kB''
      else int_str nb @ '' B'')"

definition hint_keys :: "string list" where
  "hint_keys = [''to'', ''recipient'', ''path'', ''target'', ''package'', ''url'', ''name'', ''amount'']"

definition target_hint :: "pydict \<Rightarrow> string" where
  "target_hint params =
     (case find (\<lambda>k. truthy (dget params k)) hint_keys of
        Some k \<Rightarrow> k @ '': '' @ py_str (dget params k)
      | None \<Rightarrow> [])"

definition sentence :: "action \<Rightarrow> string \<Rightarrow> string \<Rightarrow> string" where
  "sentence a head note =
     (let detail = target_hint (ac_params a);
          parts = [head] @ (if detail \<noteq> [] then [''('' @ detail @ '')''] else []) @
                  (if ac_intent a \<noteq> [] then [em_dash @ '' '' @ ac_intent a] else []);
          body = rstrip_char (CHR ''.'') (join '' '' parts);
          full = (if note \<noteq> [] then body @ ''. '' @ rstrip_char (CHR ''.'') note else body)
      in full @ ''. Potwierdzasz?'')"

definition effect_head :: "effect \<Rightarrow> string" where
  "effect_head e =
     (case e of
        PAYMENT \<Rightarrow> ''Mam dokona'' @ pl_c @ '' p'' @ pl_l @ ''atno'' @ pl_s @ ''ci''
      | PUBLISH \<Rightarrow> ''Mam opublikowa'' @ pl_c @ '' to publicznie''
      | SEND_MESSAGE \<Rightarrow> ''Mam wys'' @ pl_l @ ''a'' @ pl_c @ '' wiadomo'' @ pl_s @ pl_c @ '' w Twoim imieniu''
      | CREDENTIALS \<Rightarrow> ''Mam zmieni'' @ pl_c @ '' dane logowania''
      | DELETE_PERMANENT \<Rightarrow> ''Mam trwale usun'' @ pl_a @ pl_c @ '' te dane''
      | _ \<Rightarrow> ''Mam wykona'' @ pl_c @ '' operacj'' @ pl_e @ '': '' @ label_pl e)"

definition effect_prompt :: "effect list \<Rightarrow> 'h tool_spec \<Rightarrow> action \<Rightarrow> string" where
  "effect_prompt es s a = sentence a (effect_head (hd es)) (ts_danger_note s)"

subsection \<open>Hard denials\<close>

fun string_values :: "pyval \<Rightarrow> string list" where
  "string_values (PStr s) = [s]"
| "string_values (PDict d) = concat (map (\<lambda>(k, v). string_values v) d)"
| "string_values (PList xs) = concat (map string_values xs)"
| "string_values _ = []"

definition guarded_effects :: "effect set" where
  "guarded_effects = {WRITE, DELETE_PERMANENT, EXEC, SYSTEM_CONFIG}"

definition protected_paths :: "guarded_paths \<Rightarrow> string list" where
  "protected_paths p = [gp_key_file p, gp_vault_db p, gp_state_db p]"

definition touches_guardrail :: "(string \<Rightarrow> string) \<Rightarrow> guarded_paths \<Rightarrow> string \<Rightarrow> bool" where
  "touches_guardrail npath p val = list_ex (\<lambda>g. npath val = npath g) (protected_paths p)"

definition edits_own_policy :: "pydict \<Rightarrow> bool" where
  "edits_own_policy params =
     (let key = (case map_of params ''key'' of None \<Rightarrow> [] | Some v \<Rightarrow> py_str v)
      in prefix ''autonomy.confirm_effects'' key \<or> prefix ''autonomy.allow'' key)"

definition hard_deny ::
  "(string \<Rightarrow> string) \<Rightarrow> guarded_paths \<Rightarrow> 'h tool_spec \<Rightarrow> action \<Rightarrow> verdict option" where
  "hard_deny npath p s a =
     (let hit = (if ts_effects s \<inter> guarded_effects \<noteq> {} \<and> ts_category s \<noteq> ''vault''
                 then find (touches_guardrail npath p) (string_values (PDict (ac_params a))) else None)
      in case hit of
           Some v \<Rightarrow> Some \<lparr>vd_decision = DENY, vd_rule = ''guardrails'', vd_prompt = [],
             vd_reason = ''pr'' @ pl_o @ ''ba modyfikacji w'' @ pl_l @ ''asnych zabezpiecze'' @ pl_n @ '': '' @ v\<rparr>
         | None \<Rightarrow>
             if ts_name s = ''config_set'' \<and> edits_own_policy (ac_params a)
             then Some \<lparr>vd_decision = DENY, vd_rule = ''policy_self_edit'', vd_prompt = [],
               vd_reason = ''zmiana w'' @ pl_l @ ''asnych regu'' @ pl_l @ '' zgody mo'' @ pl_z @
                 ''e nast'' @ pl_a @ ''pi'' @ pl_c @ '' tylko z interfejsu''\<rparr>
             else None)"

subsection \<open>evaluate\<close>

definition confirm_effects :: "autonomy_config \<Rightarrow> effect set" where
  "confirm_effects au = set (List.map_filter effect_of (au_confirm_effects au)) \<union> NON_NEGOTIABLE_CONFIRM"

definition policy_estimates :: "'h tool_spec \<Rightarrow> action \<Rightarrow> int \<times> rat" where
  "policy_estimates s a =
     (let (b, c) = estimates s (ac_params a) in (max b (ac_estimated_bytes a), max c (ac_estimated_cost a)))"

definition auto_installable :: "autonomy_config \<Rightarrow> 'h tool_spec \<Rightarrow> rat \<Rightarrow> bool" where
  "auto_installable au s cost =
     (au_auto_install au \<and> ts_trusted_source s \<and> cost \<le> 0 \<and> ts_reversible s)"

definition confirm :: "string \<Rightarrow> string \<Rightarrow> string \<Rightarrow> verdict" where
  "confirm rule prompt reason =
     \<lparr>vd_decision = CONFIRM, vd_rule = rule, vd_prompt = prompt, vd_reason = reason\<rparr>"

definition evaluate ::
  "(string \<Rightarrow> string) \<Rightarrow> (rat \<Rightarrow> string) \<Rightarrow> autonomy_config \<Rightarrow> guarded_paths \<Rightarrow>
   'h tool_spec \<Rightarrow> action \<Rightarrow> verdict" where
  "evaluate npath show_float au p s a =
     (case hard_deny npath p s a of
        Some v \<Rightarrow> v
      | None \<Rightarrow>
        let gated = sorted_effects (confirm_effects au \<inter> ts_effects s);
            (est_bytes, est_cost) = policy_estimates s a
        in if gated \<noteq> [] then
             confirm (''effect:'' @ effect_value (hd gated)) (effect_prompt gated s a)
               (''skutki wymagaj'' @ pl_a @ ''ce zgody: '' @ py_repr (PList (map (PStr \<circ> effect_value) gated)))
           else if \<not> ts_reversible s \<or> \<not> ac_reversible a then
             confirm ''irreversible'' (sentence a ''Ta operacja jest nieodwracalna'' (ts_danger_note s))
               (''narz'' @ pl_e @ ''dzie zadeklarowane jako nieodwracalne'')
           else if au_spend_notice au < est_cost then
             confirm ''cost''
               (''To zadanie b'' @ pl_e @ ''dzie kosztowa'' @ pl_c @ '' oko'' @ pl_l @ ''o '' @
                fixed_text 2 est_cost @ ''. Kontynuowa'' @ pl_c @ ''?'')
               (''szacowany koszt '' @ show_float est_cost)
           else if au_download_notice au < est_bytes then
             confirm ''download_size''
               (''Do wykonania zadania potrzebne jest pobranie oko'' @ pl_l @ ''o '' @
                human_bytes est_bytes @ ''. Kontynuowa'' @ pl_c @ ''?'')
               (''szacowane pobranie '' @ int_str est_bytes @ '' B'')
           else if INSTALL \<in> ts_effects s \<and> \<not> auto_installable au s est_cost then
             confirm ''install''
               (sentence a (''Musz'' @ pl_e @ '' zainstalowa'' @ pl_c @ '' oprogramowanie ('' @
                            target_hint (ac_params a) @ '')'') (ts_danger_note s))
               (''instalacja poza regu'' @ pl_l @ pl_a @ '' automatyczn'' @ pl_a)
           else if ELEVATE \<in> ts_effects s \<and> \<not> au_allow_admin au then
             confirm ''elevation''
               (sentence a (''Potrzebuj'' @ pl_e @ '' uprawnie'' @ pl_n @ '' administratora'') [])
               (''podniesienie uprawnie'' @ pl_n @ '' wy'' @ pl_l @ pl_a @ ''czone w konfiguracji'')
           else allow_verdict)"

definition policy_describe :: "(rat \<Rightarrow> pyval) \<Rightarrow> autonomy_config \<Rightarrow> pydict" where
  "policy_describe float_val au =
     [(''confirm_effects'', PList (map (PStr \<circ> effect_value) (sorted_effects (confirm_effects au)))),
      (''download_notice'', PStr (human_bytes (au_download_notice au))),
      (''spend_notice'', float_val (au_spend_notice au)),
      (''auto_install_free_software'', PBool (au_auto_install au)),
      (''allow_admin_elevation'', PBool (au_allow_admin au)),
      (''never'', PList
        [PStr (''modyfikacja klucza g'' @ pl_l @ pl_o @ ''wnego, sejfu i dziennika audytu''),
         PStr (''zmiana w'' @ pl_l @ ''asnych regu'' @ pl_l @ '' zgody z poziomu narz'' @ pl_e @ ''dzia'')])]"

subsection \<open>What a verdict means\<close>

lemma hard_deny_decision: "hard_deny npath p s a = Some v \<Longrightarrow> vd_decision v = DENY"
  by (auto simp: hard_deny_def Let_def split: option.splits if_splits)

lemma confirm_decision [simp]: "vd_decision (confirm r q n) = CONFIRM"
  by (simp add: confirm_def)

lemma allow_decision [simp]: "vd_decision allow_verdict = ALLOW"
  by (simp add: allow_verdict_def)

definition needs_no_yes :: "autonomy_config \<Rightarrow> 'h tool_spec \<Rightarrow> action \<Rightarrow> bool" where
  "needs_no_yes au s a =
     (let (est_bytes, est_cost) = policy_estimates s a
      in confirm_effects au \<inter> ts_effects s = {} \<and> ts_reversible s \<and> ac_reversible a \<and>
         est_cost \<le> au_spend_notice au \<and> est_bytes \<le> au_download_notice au \<and>
         (INSTALL \<in> ts_effects s \<longrightarrow> auto_installable au s est_cost) \<and>
         (ELEVATE \<in> ts_effects s \<longrightarrow> au_allow_admin au))"

lemma evaluate_decision:
  "vd_decision (evaluate npath show_float au p s a) =
     (if hard_deny npath p s a \<noteq> None then DENY
      else if needs_no_yes au s a then ALLOW else CONFIRM)"
proof (cases "hard_deny npath p s a")
  case (Some v)
  then show ?thesis by (simp add: evaluate_def hard_deny_decision)
next
  case None
  obtain b c where e: "policy_estimates s a = (b, c)" by (cases "policy_estimates s a")
  show ?thesis
    unfolding evaluate_def needs_no_yes_def using None e by (auto simp: Let_def)
qed

lemma hard_deny_guardrail:
  assumes "ts_effects s \<inter> guarded_effects \<noteq> {}" and "ts_category s \<noteq> ''vault''"
    and "\<exists>v \<in> set (string_values (PDict (ac_params a))). \<exists>g \<in> set (protected_paths p). npath v = npath g"
  shows "hard_deny npath p s a \<noteq> None"
proof -
  have "find (touches_guardrail npath p) (string_values (PDict (ac_params a))) \<noteq> None"
    using assms(3) unfolding find_None_iff touches_guardrail_def list_ex_iff by blast
  then show ?thesis using assms(1,2) unfolding hard_deny_def Let_def by (simp only: if_True simp_thms split: option.splits) blast
qed

lemma hard_deny_mono:
  assumes "hard_deny npath p s a \<noteq> None" and "ts_effects s \<subseteq> es"
  shows "hard_deny npath p (s\<lparr>ts_effects := es\<rparr>) a \<noteq> None"
  using assms by (auto simp: hard_deny_def Let_def split: option.splits if_splits)

lemma needs_no_yes_antimono:
  assumes "needs_no_yes au (s\<lparr>ts_effects := es\<rparr>) a" and "ts_effects s \<subseteq> es"
    and "set (au_confirm_effects au') \<subseteq> set (au_confirm_effects au)"
    and "au_spend_notice au \<le> au_spend_notice au'" and "au_download_notice au \<le> au_download_notice au'"
    and "au_auto_install au \<longrightarrow> au_auto_install au'" and "au_allow_admin au \<longrightarrow> au_allow_admin au'"
  shows "needs_no_yes au' s a"
proof -
  obtain b c where e: "policy_estimates s a = (b, c)" by (cases "policy_estimates s a")
  then have e': "policy_estimates (s\<lparr>ts_effects := es\<rparr>) a = (b, c)"
    by (simp add: policy_estimates_def estimates_def)
  have "confirm_effects au' \<subseteq> confirm_effects au"
    using assms(3) by (auto simp: confirm_effects_def List.map_filter_def)
  with assms e e' show ?thesis
    by (auto simp: needs_no_yes_def auto_installable_def)
qed

subsection \<open>Properties\<close>

text \<open>What the engine decides. A hard denial is final; otherwise an action runs without a
  question exactly when no gated effect is declared, tool and action are reversible, cost and
  download stay within the notice thresholds, an installation is free, trusted and reversible,
  and elevation is allowed; everything else is put to the user.\<close>

theorem evaluate_decides:
  "vd_decision (evaluate npath show_float au p s a) =
     (if hard_deny npath p s a \<noteq> None then DENY
      else if confirm_effects au \<inter> ts_effects s = {} \<and> ts_reversible s \<and> ac_reversible a \<and>
         snd (policy_estimates s a) \<le> au_spend_notice au \<and>
         fst (policy_estimates s a) \<le> au_download_notice au \<and>
         (INSTALL \<in> ts_effects s \<longrightarrow> auto_installable au s (snd (policy_estimates s a))) \<and>
         (ELEVATE \<in> ts_effects s \<longrightarrow> au_allow_admin au)
      then ALLOW else CONFIRM)"
  unfolding evaluate_decision needs_no_yes_def Let_def case_prod_beta by (rule refl)


definition sample_paths :: guarded_paths where
  "sample_paths = \<lparr>gp_key_file = ''/g/master.key'', gp_vault_db = ''/g/vault.db'', gp_state_db = ''/g/state.db''\<rparr>"

definition lax_config :: autonomy_config where
  "lax_config = \<lparr>au_confirm_effects = [], au_download_notice = 10 ^ 15, au_spend_notice = 10 ^ 9,
     au_auto_install = True, au_allow_admin = True\<rparr>"

definition file_write :: "unit tool_spec" where
  "file_write = sample_tool\<lparr>ts_name := ''file_write'', ts_effects := {WRITE}, ts_category := ''files''\<rparr>"


text \<open>The engine is monotone. Declaring more effects, gating more effects, lowering a notice
  threshold or switching off an automatic permission never makes a verdict less strict.\<close>

theorem policy_monotone:
  assumes "ts_effects s \<subseteq> es"
    and "set (au_confirm_effects au') \<subseteq> set (au_confirm_effects au)"
    and "au_spend_notice au \<le> au_spend_notice au'" and "au_download_notice au \<le> au_download_notice au'"
    and "au_auto_install au \<longrightarrow> au_auto_install au'" and "au_allow_admin au \<longrightarrow> au_allow_admin au'"
  shows "vd_decision (evaluate npath show_float au' p s a) \<le>
    vd_decision (evaluate npath show_float au p (s\<lparr>ts_effects := es\<rparr>) a)"
  using hard_deny_mono [OF _ assms(1)] needs_no_yes_antimono [OF _ assms]
  by (auto simp: evaluate_decision)

theorem policy_monotone_witness:
  "vd_decision (evaluate (\<lambda>p. p) (\<lambda>r. []) lax_config sample_paths file_write
     (new_action ''1'' 0 ''file_write'' [] [] None None [])) \<le>
   vd_decision (evaluate (\<lambda>p. p) (\<lambda>r. []) (lax_config\<lparr>au_confirm_effects := [''exec'']\<rparr>) sample_paths
     (file_write\<lparr>ts_effects := {WRITE, EXEC}\<rparr>) (new_action ''1'' 0 ''file_write'' [] [] None None []))"
  by (rule policy_monotone) (simp_all add: file_write_def lax_config_def)

theorem evaluate_decides_witness:
  "vd_decision (evaluate (\<lambda>p. p) (\<lambda>r. []) lax_config sample_paths file_write
     (new_action ''1'' 0 ''file_write'' [(''path'', PStr ''/tmp/a'')] [] None None [])) = ALLOW"
proof -
  let ?a = "new_action ''1'' 0 ''file_write'' [(''path'', PStr ''/tmp/a'')] [] None None []"
  have "hard_deny (\<lambda>p. p) sample_paths file_write ?a = None"
    by (simp add: hard_deny_def file_write_def sample_tool_def new_action_def touches_guardrail_def
        protected_paths_def sample_paths_def)
  moreover have "confirm_effects lax_config \<inter> ts_effects file_write = {}"
    by (simp add: confirm_effects_def lax_config_def List.map_filter_def NON_NEGOTIABLE_CONFIRM_def file_write_def)
  ultimately show ?thesis
    unfolding evaluate_decides
    by (simp add: policy_estimates_def estimates_def file_write_def sample_tool_def lax_config_def new_action_def)
qed

end
