(* ===== verification/AuditTrail.thy ===== *)
theory AuditTrail
  imports Policy
begin

section \<open>The audit trail (runtime/audit.py)\<close>

text \<open>
  Rows in insertion order; parameters are redacted on the way in. The two regular expressions are
  translated to predicates; \<open>IGNORECASE\<close> folds ASCII letters, the Polish letter of
  \<open>haslo\<close> and the two characters Unicode folds onto ASCII (long s, Kelvin sign).
\<close>

definition REDACTED :: string where
  "REDACTED = [CHR 0xC2, CHR 0xAB] @ ''ukryte'' @ [CHR 0xC2, CHR 0xBB]"

definition MAX_VALUE_CHARS :: nat where "MAX_VALUE_CHARS = 300"

fun re_fold :: "string \<Rightarrow> string" where
  "re_fold (a # b # c # r) =
     (if a = CHR 0xC5 \<and> b = CHR 0x81 then pl_l @ re_fold (c # r)
      else if a = CHR 0xC5 \<and> b = CHR 0xBF then CHR ''s'' # re_fold (c # r)
      else if a = CHR 0xE2 \<and> b = CHR 0x84 \<and> c = CHR 0xAA then CHR ''k'' # re_fold r
      else lower_char a # re_fold (b # c # r))"
| "re_fold [a, b] =
     (if a = CHR 0xC5 \<and> b = CHR 0x81 then pl_l
      else if a = CHR 0xC5 \<and> b = CHR 0xBF then ''s'' else [lower_char a, lower_char b])"
| "re_fold s = map lower_char s"

definition SECRET_WORDS :: "string list" where
  "SECRET_WORDS =
     [''pass'', ''passwd'', ''haslo'', ''has'' @ pl_l @ ''o'', ''secret'', ''token'', ''apikey'',
      ''api_key'', ''api-key'', ''klucz'', ''credential'', ''auth'', ''cookie'', ''session'',
      ''privatekey'', ''private_key'', ''private-key'', ''pin'', ''otp'', ''seed'']"

definition audit_secret_name :: "string \<Rightarrow> bool" where
  "audit_secret_name name = list_ex (contains (re_fold name)) SECRET_WORDS"

definition SECRET_PREFIXES :: "string list" where
  "SECRET_PREFIXES =
     [''sk-'', ''pk_'', ''ghp_'', ''gho_'', ''github_pat_'', ''xoxb-'', ''xoxa-'', ''xoxp-'', ''xoxr-'',
      ''xoxs-'', ''AIza'', ''ya29.'']"

definition jwt_char :: "char \<Rightarrow> bool" where
  "jwt_char c = (let n = byte_of c in (65 \<le> n \<and> n \<le> 90) \<or> (97 \<le> n \<and> n \<le> 122) \<or> (48 \<le> n \<and> n \<le> 57) \<or>
     n = 95 \<or> n = 45)"

text \<open>\<open>eyJ[A-Za-z0-9_-]{10,}\.\<close> at the start.\<close>

definition jwt_like :: "string \<Rightarrow> bool" where
  "jwt_like s =
     (prefix ''eyJ'' s \<and>
      (let rest = drop 3 s; run = takeWhile jwt_char rest
       in 10 \<le> length run \<and> prefix ''.'' (drop (length run) rest)))"

definition secret_value :: "string \<Rightarrow> bool" where
  "secret_value s = (list_ex (\<lambda>p. prefix p s) SECRET_PREFIXES \<or> jwt_like s)"

definition is_vault_ref :: "pyval \<Rightarrow> bool" where
  "is_vault_ref v = (case v of PStr s \<Rightarrow> prefix ''vault://'' s | _ \<Rightarrow> False)"

fun audit_redact :: "pyval \<Rightarrow> pyval" where
  "audit_redact (PDict d) =
     PDict (map (\<lambda>(k, v). (k, if audit_secret_name k \<and> \<not> is_vault_ref v then PStr REDACTED
                            else audit_redact v)) d)"
| "audit_redact (PList xs) = PList (map audit_redact xs)"
| "audit_redact (PStr s) =
     (if is_vault_ref (PStr s) then PStr s
      else if secret_value (strip s) then PStr REDACTED
      else if MAX_VALUE_CHARS < cp_len s then PStr (cp_take MAX_VALUE_CHARS s @ ellipsis)
      else PStr s)"
| "audit_redact v = v"

definition redact_params :: "pydict \<Rightarrow> pydict" where
  "redact_params params = (case audit_redact (PDict params) of PDict d \<Rightarrow> d | _ \<Rightarrow> [])"

subsection \<open>The log\<close>

record audit_row =
  au_id :: nat
  au_at :: instant
  au_task :: "string option"
  au_tool :: string
  au_intent :: string
  au_effects :: "string list"
  au_decision :: decision
  au_rule :: string
  au_params :: pydict
  au_outcome :: string
  au_detail :: "string option"
  au_duration_ms :: int

record audit_log =
  al_rows :: "audit_row list"
  al_last :: nat

definition new_log :: audit_log where
  "new_log = \<lparr>al_rows = [], al_last = 0\<rparr>"

definition effect_names :: "'h tool_spec option \<Rightarrow> string list" where
  "effect_names spec =
     (case spec of None \<Rightarrow> [] | Some s \<Rightarrow> map effect_value (sorted_effects (ts_effects s)))"

definition audit_record ::
  "instant \<Rightarrow> action \<Rightarrow> 'h tool_spec option \<Rightarrow> verdict \<Rightarrow> string \<Rightarrow> string \<Rightarrow> int \<Rightarrow> audit_log \<Rightarrow>
   nat \<times> audit_log" where
  "audit_record now a spec v outcome detail duration l =
     (let i = al_last l + 1
      in (i, \<lparr>al_rows = al_rows l @
            [\<lparr>au_id = i, au_at = now, au_task = ac_task a, au_tool = ac_tool a, au_intent = ac_intent a,
              au_effects = effect_names spec, au_decision = vd_decision v, au_rule = vd_rule v,
              au_params = redact_params (ac_params a), au_outcome = outcome,
              au_detail = (if detail \<noteq> [] then Some (cp_take 2000 detail) else None),
              au_duration_ms = duration\<rparr>],
           al_last = i\<rparr>))"

definition audit_recent :: "nat \<Rightarrow> audit_log \<Rightarrow> audit_row list" where
  "audit_recent limit l = take limit (rev (sort_key au_at (al_rows l)))"

definition audit_for_task :: "string \<Rightarrow> nat \<Rightarrow> audit_log \<Rightarrow> audit_row list" where
  "audit_for_task task_id limit l =
     take limit (sort_key au_at (filter (\<lambda>r. au_task r = Some task_id) (al_rows l)))"

definition audit_since :: "instant \<Rightarrow> nat \<Rightarrow> audit_log \<Rightarrow> audit_row list" where
  "audit_since moment limit l =
     take limit (sort_key au_at (filter (\<lambda>r. moment \<le> au_at r) (al_rows l)))"

text \<open>\<open>Counter(xs)\<close> and \<open>most_common(n)\<close>: counts in order of first occurrence, largest first.\<close>

definition counter :: "string list \<Rightarrow> (string \<times> nat) list" where
  "counter xs = foldl (\<lambda>d x. dict_set x ((case map_of d x of None \<Rightarrow> 0 | Some n \<Rightarrow> n) + 1) d) [] xs"

definition most_common :: "nat \<Rightarrow> (string \<times> nat) list \<Rightarrow> (string \<times> nat) list" where
  "most_common n d = take n (sort_key (\<lambda>p. - int (snd p)) d)"

record activity =
  at_from :: instant
  at_actions :: nat
  at_tasks :: "string list"
  at_top_tools :: "(string \<times> nat) list"
  at_failures :: nat
  at_denied :: nat
  at_waiting :: nat

definition activity_since :: "instant \<Rightarrow> audit_log \<Rightarrow> activity" where
  "activity_since moment l =
     (let entries = audit_since moment 1000 l
      in \<lparr>at_from = moment, at_actions = length entries,
          at_tasks = sort (remdups (filter (\<lambda>t. t \<noteq> []) (List.map_filter au_task entries))),
          at_top_tools = most_common 8 (counter (map au_tool entries)),
          at_failures = length (filter (\<lambda>r. au_outcome r = ''error'') entries),
          at_denied = length (filter (\<lambda>r. au_decision r = DENY) entries),
          at_waiting = length (filter (\<lambda>r. au_outcome r = ''awaiting_approval'') entries)\<rparr>)"

definition audit_prune :: "instant \<Rightarrow> int \<Rightarrow> audit_log \<Rightarrow> nat \<times> audit_log" where
  "audit_prune now older_than_days l =
     (let cutoff = now - of_int (older_than_days * 86400);
          keep = filter (\<lambda>r. \<not> au_at r < cutoff) (al_rows l)
      in (length (al_rows l) - length keep, l\<lparr>al_rows := keep\<rparr>))"

subsection \<open>What may be in the log\<close>

text \<open>A logged value: no credential-looking string, no long one, and nothing but the mark or a
  vault reference under a secret-looking name.\<close>

fun safe_logged :: "pyval \<Rightarrow> bool" where
  "safe_logged (PStr s) =
     (is_vault_ref (PStr s) \<or> s = REDACTED \<or>
      (cp_len s \<le> MAX_VALUE_CHARS + 1 \<and>
       (\<exists>u. \<not> secret_value (strip u) \<and> (s = u \<or> s = cp_take MAX_VALUE_CHARS u @ ellipsis))))"
| "safe_logged (PDict d) =
     (\<forall>p \<in> set d. (audit_secret_name (fst p) \<longrightarrow> is_vault_ref (snd p) \<or> snd p = PStr REDACTED) \<and>
        safe_logged (snd p))"
| "safe_logged (PList xs) = (\<forall>x \<in> set xs. safe_logged x)"
| "safe_logged v = True"

lemma is_vault_ref_redact [simp]: "is_vault_ref v \<Longrightarrow> audit_redact v = v"
  by (cases v) (simp_all add: is_vault_ref_def)

lemma vault_ref_safe [simp]: "is_vault_ref v \<Longrightarrow> safe_logged v"
  by (cases v) (simp_all add: is_vault_ref_def)

lemma redact_safe: "safe_logged (audit_redact v)"
proof (induction v rule: audit_redact.induct)
  case (1 d)
  have "safe_logged (audit_redact w)" if "(k, w) \<in> set d" "\<not> (audit_secret_name k \<and> \<not> is_vault_ref w)" for k w
    using "1.IH" [OF that(1) refl] that(2) by simp
  then show ?case by (auto simp: split_def)
next
  case (2 xs)
  then show ?case by simp
next
  case (3 s)
  have "cp_len (cp_take MAX_VALUE_CHARS s @ ellipsis) \<le> MAX_VALUE_CHARS + 1"
    using cp_len_take_le [of MAX_VALUE_CHARS s] by simp
  then show ?case by (auto simp: not_less)
qed simp_all

lemma audit_redact_keys: "map fst (redact_params params) = map fst params"
  by (induction params) (auto simp: redact_params_def)

lemma safe_redact_params: "safe_logged (PDict (redact_params params))"
  using redact_safe [of "PDict params"] by (simp add: redact_params_def)

definition log_ok :: "audit_log \<Rightarrow> bool" where
  "log_ok l =
     (distinct (map au_id (al_rows l)) \<and>
      (\<forall>r \<in> set (al_rows l). au_id r \<le> al_last l \<and> safe_logged (PDict (au_params r)) \<and>
         (\<forall>d. au_detail r = Some d \<longrightarrow> d \<noteq> [] \<and> cp_len d \<le> 2000)))"

lemma cp_take_nonempty: "0 < n \<Longrightarrow> s \<noteq> [] \<Longrightarrow> cp_take n s \<noteq> []"
  by (cases s) (auto split: nat.splits)

lemma log_ok_record: "log_ok l \<Longrightarrow> log_ok (snd (audit_record now a spec v outcome detail duration l))"
  by (fastforce simp: log_ok_def audit_record_def Let_def safe_redact_params cp_len_take_le cp_take_nonempty
      simp del: safe_logged.simps)

lemma log_ok_prune: "log_ok l \<Longrightarrow> log_ok (snd (audit_prune now days l))"
  by (auto simp: log_ok_def audit_prune_def Let_def distinct_map_filter simp del: safe_logged.simps)

subsection \<open>Properties\<close>

text \<open>The log is safe to show. Whatever is recorded and pruned, rows keep distinct ids, every
  stored parameter tree is free of credential-looking values and of anything but the mark or a
  vault reference under a secret-looking name, and every detail is bounded.\<close>

theorem audit_log_stays_safe:
  assumes "log_ok l"
  shows "log_ok (snd (audit_record now a spec v outcome detail duration l)) \<and>
    log_ok (snd (audit_prune now days l)) \<and>
    map fst (redact_params (ac_params a)) = map fst (ac_params a)"
  using log_ok_record [OF assms] log_ok_prune [OF assms] audit_redact_keys by blast

theorem audit_log_stays_safe_witness:
  "log_ok (snd (audit_record 3 (new_action ''1'' 0 ''http'' [(''Password'', PStr ''x'')] [] None None [])
     (None :: unit tool_spec option) allow_verdict ''ok'' ''done'' 7 new_log))"
proof -
  have "log_ok new_log" by (simp add: log_ok_def new_log_def)
  then show ?thesis by (rule audit_log_stays_safe [THEN conjunct1])
qed

end
