(* ===== verification/Approvals.thy ===== *)
theory Approvals
  imports AuditTrail Events "HOL-Library.Option_ord"
begin

section \<open>Approvals: a durable yes (runtime/approvals.py)\<close>

text \<open>
  The \<open>approvals\<close> table with the operations of the broker. The wake-up events of interactive
  waiters are a dict from ids to flags. An interactive \<open>wait\<close> is split at its await: what it
  does before, and what it answers once woken (or timed out). The locale \<open>approval_desk\<close> is the
  contract the executor relies on: a yes is spent by the execution it authorises.
\<close>

datatype approval_state = AP_PENDING | AP_APPROVED | AP_DENIED | AP_EXPIRED

fun approval_state_value :: "approval_state \<Rightarrow> string" where
  "approval_state_value AP_PENDING = ''pending''"
| "approval_state_value AP_APPROVED = ''approved''"
| "approval_state_value AP_DENIED = ''denied''"
| "approval_state_value AP_EXPIRED = ''expired''"

record approval =
  ap_id :: uid
  ap_task :: "string option"
  ap_tool :: string
  ap_prompt :: string
  ap_effects :: "string list"
  ap_params :: pydict
  ap_fingerprint :: string
  ap_state :: approval_state
  ap_consumed :: bool
  ap_requested_at :: instant
  ap_resolved_at :: "instant option"
  ap_resolved_by :: "string option"

record broker =
  br_rows :: "approval list"
  br_bus :: bus
  br_waiters :: "(uid \<times> bool) list"

definition opt_str :: "string option \<Rightarrow> pyval" where
  "opt_str v = (case v of None \<Rightarrow> PNone | Some s \<Rightarrow> PStr s)"

definition approval_to_dict :: "(instant \<Rightarrow> pyval) \<Rightarrow> approval \<Rightarrow> pydict" where
  "approval_to_dict float_val r =
     [(''id'', PStr (ap_id r)), (''task_id'', opt_str (ap_task r)), (''tool'', PStr (ap_tool r)),
          (''prompt'', PStr (ap_prompt r)), (''effects'', PList (map PStr (ap_effects r))),
          (''params'', PDict (ap_params r)), (''state'', PStr (approval_state_value (ap_state r))),
          (''requested_at'', float_val (ap_requested_at r)),
          (''resolved_at'', case ap_resolved_at r of None \<Rightarrow> PNone | Some t \<Rightarrow> float_val t),
          (''resolved_by'', opt_str (ap_resolved_by r))]"

subsection \<open>Asking\<close>

definition open_request :: "string \<Rightarrow> approval list \<Rightarrow> approval option" where
  "open_request fp rows =
     pick_max ap_requested_at (filter (\<lambda>r. ap_fingerprint r = fp \<and> ap_state r = AP_PENDING) rows)"

text \<open>\<open>request\<close>. The primary key makes a second row with a known id fail.\<close>

definition ap_request ::
  "(string \<Rightarrow> string) \<Rightarrow> uid \<Rightarrow> instant \<Rightarrow> action \<Rightarrow> 'h tool_spec \<Rightarrow> verdict \<Rightarrow> pydict option \<Rightarrow> broker \<Rightarrow>
   exn + approval \<times> broker" where
  "ap_request digest fresh now a s v redacted b =
     (let fp = fingerprint digest a
      in case open_request fp (br_rows b) of
           Some r \<Rightarrow> Inr (r, b)
         | None \<Rightarrow>
             let r = \<lparr>ap_id = fresh, ap_task = ac_task a, ap_tool = ac_tool a,
                      ap_prompt = (if vd_prompt v \<noteq> [] then vd_prompt v
                                   else ''Potwierdzasz operacj'' @ pl_e @ '' '' @ ac_tool a @ ''?''),
                      ap_effects = effect_names (Some s),
                      ap_params = (case redacted of Some p \<Rightarrow> p | None \<Rightarrow> ac_params a),
                      ap_fingerprint = fp, ap_state = AP_PENDING, ap_consumed = False,
                      ap_requested_at = now, ap_resolved_at = None, ap_resolved_by = None\<rparr>
             in if row_by ap_id fresh (br_rows b) \<noteq> None
                then Inl (Garis (mk_error StoreError
                       (''Zapytanie nie przesz'' @ pl_l @ ''o: UNIQUE constraint failed: approvals.id'') None))
                else Inr (r, b\<lparr>br_rows := br_rows b @ [r],
                       br_bus := emit now (topic_name APPROVAL_REQUESTED)
                         [(''approval_id'', EvVal (PStr fresh)), (''task_id'', EvVal (opt_str (ac_task a))),
                          (''tool'', EvVal (PStr (ac_tool a))), (''prompt'', EvVal (PStr (ap_prompt r))),
                          (''effects'', EvVal (PList (map PStr (ap_effects r))))] (br_bus b)\<rparr>))"

subsection \<open>Answering\<close>

definition ap_resolve :: "instant \<Rightarrow> uid \<Rightarrow> bool \<Rightarrow> string \<Rightarrow> broker \<Rightarrow> garis_error + approval \<times> broker" where
  "ap_resolve now i approved by_whom b =
     (case row_by ap_id i (br_rows b) of
        None \<Rightarrow> Inl (mk_error ApprovalDenied (''Nie ma zgody o id '' @ i) None)
      | Some row \<Rightarrow>
          let st = (if approved then AP_APPROVED else AP_DENIED);
              answer = (\<lambda>r. r\<lparr>ap_state := st, ap_resolved_at := Some now, ap_resolved_by := Some by_whom\<rparr>)
          in Inr (answer row,
               b\<lparr>br_rows := update_where (\<lambda>r. ap_id r = i) answer (br_rows b),
                 br_bus := emit now (topic_name APPROVAL_RESOLVED)
                   [(''approval_id'', EvVal (PStr i)), (''task_id'', EvVal (opt_str (ap_task row))),
                    (''approved'', EvVal (PBool approved)), (''by'', EvVal (PStr by_whom))] (br_bus b),
                 br_waiters := (if map_of (br_waiters b) i \<noteq> None
                                then dict_set i True (br_waiters b) else br_waiters b)\<rparr>))"

definition ap_get :: "uid \<Rightarrow> broker \<Rightarrow> approval option" where
  "ap_get i b = row_by ap_id i (br_rows b)"

text \<open>\<open>wait\<close> up to its await: an answer already given, or a registered waiter.\<close>

definition ap_wait_start :: "uid \<Rightarrow> broker \<Rightarrow> bool option \<times> broker" where
  "ap_wait_start i b =
     (let b' = (if map_of (br_waiters b) i = None then b\<lparr>br_waiters := dict_set i False (br_waiters b)\<rparr> else b)
      in case ap_get i b' of
           Some r \<Rightarrow>
             if ap_state r \<noteq> AP_PENDING
             then (Some (ap_state r = AP_APPROVED), b'\<lparr>br_waiters := dict_del i (br_waiters b')\<rparr>)
             else (None, b')
         | None \<Rightarrow> (None, b'))"

text \<open>\<open>wait\<close> from its await on: woken, or timed out.\<close>

definition ap_wait_end :: "bool \<Rightarrow> uid \<Rightarrow> broker \<Rightarrow> bool \<times> broker" where
  "ap_wait_end timed_out i b =
     (let b' = b\<lparr>br_waiters := dict_del i (br_waiters b)\<rparr>
      in if timed_out then (False, b')
         else (case ap_get i b' of Some r \<Rightarrow> (ap_state r = AP_APPROVED, b') | None \<Rightarrow> (False, b')))"

subsection \<open>Spending\<close>

definition answered :: "approval_state \<Rightarrow> string \<Rightarrow> broker \<Rightarrow> approval option" where
  "answered st fp b =
     pick_max ap_resolved_at
       (filter (\<lambda>r. ap_fingerprint r = fp \<and> ap_state r = st \<and> \<not> ap_consumed r) (br_rows b))"

definition granted_for :: "string \<Rightarrow> broker \<Rightarrow> approval option" where
  "granted_for fp b = answered AP_APPROVED fp b"

definition denied_for :: "string \<Rightarrow> broker \<Rightarrow> approval option" where
  "denied_for fp b = answered AP_DENIED fp b"

definition ap_consume :: "uid \<Rightarrow> broker \<Rightarrow> broker" where
  "ap_consume i b = b\<lparr>br_rows := update_where (\<lambda>r. ap_id r = i) (\<lambda>r. r\<lparr>ap_consumed := True\<rparr>) (br_rows b)\<rparr>"

definition ap_pending :: "string option \<Rightarrow> broker \<Rightarrow> approval list" where
  "ap_pending task b =
     sort_key ap_requested_at
       (filter (\<lambda>r. ap_state r = AP_PENDING \<and> (case task of None \<Rightarrow> True | Some t \<Rightarrow> ap_task r = Some t))
         (br_rows b))"

definition expire_older_than :: "instant \<Rightarrow> rat \<Rightarrow> broker \<Rightarrow> nat \<times> broker" where
  "expire_older_than now seconds b =
     (let old = (\<lambda>r. ap_state r = AP_PENDING \<and> ap_requested_at r < now - seconds)
      in (length (filter old (br_rows b)),
          b\<lparr>br_rows := update_where old (\<lambda>r. r\<lparr>ap_state := AP_EXPIRED\<rparr>) (br_rows b)\<rparr>))"

definition effects_of :: "'h tool_spec \<Rightarrow> string list" where
  "effects_of s = map effect_value (sorted_effects (ts_effects s))"

definition label_effects :: "string list \<Rightarrow> string" where
  "label_effects names =
     join '', '' (map (\<lambda>n. case effect_of n of Some e \<Rightarrow> label_pl e | None \<Rightarrow> n) names)"

subsection \<open>The contract: one yes, one run\<close>

datatype ('f, 'op) desk_step = Use 'f | Other 'op

text \<open>The approvals that let something run, in order.\<close>

fun spent_by_runs ::
  "('s \<Rightarrow> 'f \<Rightarrow> 'i option) \<Rightarrow> ('s \<Rightarrow> 'i \<Rightarrow> 's) \<Rightarrow> ('s \<Rightarrow> 'op \<Rightarrow> 's) \<Rightarrow> 's \<Rightarrow>
   ('f, 'op) desk_step list \<Rightarrow> 'i list" where
  "spent_by_runs yes spend other s [] = []"
| "spent_by_runs yes spend other s (Use f # rest) =
     (case yes s f of
        None \<Rightarrow> spent_by_runs yes spend other s rest
      | Some i \<Rightarrow> i # spent_by_runs yes spend other (spend s i) rest)"
| "spent_by_runs yes spend other s (Other x # rest) = spent_by_runs yes spend other (other s x) rest"

locale approval_desk =
  fixes yes :: "'s \<Rightarrow> 'f \<Rightarrow> 'i option"
    and spend :: "'s \<Rightarrow> 'i \<Rightarrow> 's"
    and spent :: "'s \<Rightarrow> 'i \<Rightarrow> bool"
    and other :: "'s \<Rightarrow> 'op \<Rightarrow> 's"
  assumes yes_unspent: "yes s f = Some i \<Longrightarrow> \<not> spent s i"
    and spend_spends: "yes s f = Some i \<Longrightarrow> spent (spend s i) i"
    and spend_keeps: "spent s j \<Longrightarrow> spent (spend s i) j"
    and other_keeps: "spent s j \<Longrightarrow> spent (other s x) j"
begin

lemma spent_never_runs: "spent s i \<Longrightarrow> i \<notin> set (spent_by_runs yes spend other s steps)"
proof (induction steps arbitrary: s)
  case Nil
  then show ?case by simp
next
  case (Cons st rest)
  show ?case
  proof (cases st)
    case (Use f)
    show ?thesis
    proof (cases "yes s f")
      case None
      with Cons Use show ?thesis by simp
    next
      case (Some j)
      with yes_unspent Cons.prems have "j \<noteq> i" by blast
      with Cons.IH [OF spend_keeps [OF Cons.prems, of j]] Use Some show ?thesis by simp
    qed
  next
    case (Other x)
    with Cons.IH [OF other_keeps [OF Cons.prems]] show ?thesis by simp
  qed
qed

lemma one_yes_one_run: "distinct (spent_by_runs yes spend other s steps)"
proof (induction steps arbitrary: s)
  case Nil
  then show ?case by simp
next
  case (Cons st rest)
  show ?case
  proof (cases st)
    case (Use f)
    show ?thesis
    proof (cases "yes s f")
      case None
      with Cons Use show ?thesis by simp
    next
      case (Some j)
      with spent_never_runs [OF spend_spends [OF Some]] Cons.IH Use show ?thesis by simp
    qed
  next
    case (Other x)
    with Cons.IH show ?thesis by simp
  qed
qed

end

subsection \<open>The broker keeps it\<close>

datatype 'h broker_op =
    OpRequest uid instant action "'h tool_spec" verdict "pydict option"
  | OpResolve instant uid bool string
  | OpSpend uid
  | OpExpire instant rat
  | OpWait uid
  | OpWoken bool uid

fun broker_do :: "(string \<Rightarrow> string) \<Rightarrow> broker \<Rightarrow> 'h broker_op \<Rightarrow> broker" where
  "broker_do digest b (OpRequest fresh now a s v red) =
     (case ap_request digest fresh now a s v red b of Inl e \<Rightarrow> b | Inr (r, b') \<Rightarrow> b')"
| "broker_do digest b (OpResolve now i yes by_whom) =
     (case ap_resolve now i yes by_whom b of Inl e \<Rightarrow> b | Inr (r, b') \<Rightarrow> b')"
| "broker_do digest b (OpSpend i) = ap_consume i b"
| "broker_do digest b (OpExpire now seconds) = snd (expire_older_than now seconds b)"
| "broker_do digest b (OpWait i) = snd (ap_wait_start i b)"
| "broker_do digest b (OpWoken timed_out i) = snd (ap_wait_end timed_out i b)"

definition desk_yes :: "broker \<Rightarrow> string \<Rightarrow> uid option" where
  "desk_yes b fp = map_option ap_id (granted_for fp b)"

definition desk_spend :: "broker \<Rightarrow> uid \<Rightarrow> broker" where
  "desk_spend b i = ap_consume i b"

definition desk_spent :: "broker \<Rightarrow> uid \<Rightarrow> bool" where
  "desk_spent b i = (i \<in> ap_id ` set (br_rows b) \<and> (\<forall>r \<in> set (br_rows b). ap_id r = i \<longrightarrow> ap_consumed r))"

lemma answered_row: "answered st fp b = Some r \<Longrightarrow>
    r \<in> set (br_rows b) \<and> ap_fingerprint r = fp \<and> ap_state r = st \<and> \<not> ap_consumed r"
  by (auto simp: answered_def dest!: pick_max_in)

lemma rows_resolve: "ap_resolve now i yes w b = Inr (r, b') \<Longrightarrow>
    br_rows b' = update_where (\<lambda>r. ap_id r = i)
      (\<lambda>r. r\<lparr>ap_state := if yes then AP_APPROVED else AP_DENIED, ap_resolved_at := Some now,
             ap_resolved_by := Some w\<rparr>) (br_rows b)"
  by (auto simp: ap_resolve_def Let_def split: option.splits)

lemma rows_request: "ap_request digest fresh now a s v red b = Inr (r, b') \<Longrightarrow>
    br_rows b' = br_rows b \<or>
    (br_rows b' = br_rows b @ [r] \<and> ap_id r \<notin> ap_id ` set (br_rows b) \<and> ap_state r = AP_PENDING)"
  by (auto simp: ap_request_def Let_def split: option.splits if_splits)

lemma rows_wait [simp]: "br_rows (snd (ap_wait_start i b)) = br_rows b"
    "br_rows (snd (ap_wait_end timed_out i b)) = br_rows b"
  by (auto simp: ap_wait_start_def ap_wait_end_def Let_def split: option.splits)

lemma desk_spent_rows:
  assumes "desk_spent b i" and "br_rows b' = update_where p f (br_rows b)"
    and "\<And>r. ap_id (f r) = ap_id r \<and> (ap_consumed r \<longrightarrow> ap_consumed (f r))"
  shows "desk_spent b' i"
  using assms keys_update_where [of ap_id f p "br_rows b"] by (auto simp: desk_spent_def set_update_where)

lemma desk_spent_do: "desk_spent b i \<Longrightarrow> desk_spent (broker_do digest b x) i"
proof (induction digest b x rule: broker_do.induct)
  case (1 digest b fresh now a s v red)
  then show ?case
    by (auto simp: desk_spent_def split: sum.splits dest!: rows_request)
next
  case (2 digest b now j yes w)
  then show ?case by (auto split: sum.splits dest!: rows_resolve intro: desk_spent_rows)
next
  case (3 digest b j)
  then show ?case by (auto simp: ap_consume_def intro: desk_spent_rows)
next
  case (4 digest b now seconds)
  then show ?case by (auto simp: expire_older_than_def Let_def intro: desk_spent_rows)
qed (simp_all add: desk_spent_def)

interpretation desk: approval_desk desk_yes desk_spend desk_spent "broker_do digest" for digest
proof unfold_locales
  fix b f i
  assume "desk_yes b f = Some i"
  then obtain r where r: "r \<in> set (br_rows b)" "ap_id r = i" "\<not> ap_consumed r"
    by (auto simp: desk_yes_def granted_for_def dest!: answered_row)
  then show "\<not> desk_spent b i" by (auto simp: desk_spent_def)
  show "desk_spent (desk_spend b i) i"
    using r keys_update_where [of ap_id "\<lambda>r. r\<lparr>ap_consumed := True\<rparr>" "\<lambda>r. ap_id r = i" "br_rows b"]
    by (auto simp: desk_spent_def desk_spend_def ap_consume_def set_update_where)
next
  fix b j i
  assume "desk_spent b j"
  then show "desk_spent (desk_spend b i) j"
    by (auto simp: desk_spend_def ap_consume_def intro: desk_spent_rows)
next
  fix b j x
  assume "desk_spent b j"
  then show "desk_spent (broker_do digest b x) j" by (rule desk_spent_do)
qed

subsection \<open>Only an answered yes runs\<close>

definition said_yes :: "broker \<Rightarrow> uid set" where
  "said_yes b = set (map ap_id (filter (\<lambda>r. ap_state r = AP_APPROVED) (br_rows b)))"

lemma said_yes_same: "br_rows b' = br_rows b \<Longrightarrow> said_yes b' = said_yes b"
  by (simp add: said_yes_def)

lemma filter_update_same:
  "(\<And>r. P (f r) = P r) \<Longrightarrow> (\<And>r. key (f r) = key r) \<Longrightarrow>
   map key (filter P (update_where p f rows)) = map key (filter P rows)"
  by (induction rows) auto

lemma said_yes_spend [simp]: "said_yes (desk_spend b i) = said_yes b"
  using filter_update_same [of "\<lambda>r. ap_state r = AP_APPROVED" "\<lambda>r. r\<lparr>ap_consumed := True\<rparr>" ap_id
      "\<lambda>r. ap_id r = i" "br_rows b"]
  unfolding said_yes_def desk_spend_def ap_consume_def by simp

lemma said_yes_do: "said_yes (broker_do digest b x) \<subseteq> said_yes b \<union> {i. \<exists>now w. x = OpResolve now i True w}"
proof (induction digest b x rule: broker_do.induct)
  case (1 digest b fresh now a s v red)
  show ?case
  proof (cases "ap_request digest fresh now a s v red b")
    case (Inl e)
    then show ?thesis by simp
  next
    case (Inr q)
    then obtain r b' where q: "ap_request digest fresh now a s v red b = Inr (r, b')" by (cases q) auto
    with rows_request [OF q] show ?thesis by (auto simp: said_yes_def)
  qed
next
  case (2 digest b now i yes w)
  show ?case
  proof (cases "ap_resolve now i yes w b")
    case (Inl e)
    then show ?thesis by auto
  next
    case (Inr q)
    then obtain r b' where q: "ap_resolve now i yes w b = Inr (r, b')" by (cases q) auto
    with rows_resolve [OF q] show ?thesis
      by (cases yes) (auto simp: said_yes_def set_update_where)
  qed
next
  case (3 digest b i)
  then show ?case using said_yes_spend [of b i] by (simp add: desk_spend_def)
next
  case (4 digest b now seconds)
  then show ?case by (auto simp: said_yes_def expire_older_than_def Let_def set_update_where)
next
  case (5 digest b i)
  then show ?case using said_yes_same [OF rows_wait(1)] by simp
next
  case (6 digest b timed_out i)
  then show ?case using said_yes_same [OF rows_wait(2)] by simp
qed

lemma runs_were_approved:
  "set (spent_by_runs desk_yes desk_spend (broker_do digest) b steps) \<subseteq>
     said_yes b \<union> {i. \<exists>now w. Other (OpResolve now i True w) \<in> set steps}"
proof (induction steps arbitrary: b)
  case Nil
  then show ?case by simp
next
  case (Cons st rest)
  show ?case
  proof (cases st)
    case (Use fp)
    show ?thesis
    proof (cases "desk_yes b fp")
      case None
      with Cons.IH [of b] Use show ?thesis by auto
    next
      case (Some i)
      then have "i \<in> said_yes b"
        by (auto simp: desk_yes_def granted_for_def said_yes_def dest!: answered_row)
      with Cons.IH [of "desk_spend b i"] Use Some show ?thesis by auto
    qed
  next
    case (Other x)
    have "set (spent_by_runs desk_yes desk_spend (broker_do digest) b (st # rest)) \<subseteq>
        said_yes (broker_do digest b x) \<union> {i. \<exists>now w. Other (OpResolve now i True w) \<in> set rest}"
      using Cons.IH [of "broker_do digest b x"] Other by simp
    also have "\<dots> \<subseteq> said_yes b \<union> {i. \<exists>now w. Other (OpResolve now i True w) \<in> set (st # rest)}"
    proof
      fix i
      assume "i \<in> said_yes (broker_do digest b x) \<union> {i. \<exists>now w. Other (OpResolve now i True w) \<in> set rest}"
      then consider "i \<in> said_yes b" | now w where "x = OpResolve now i True w"
        | now w where "Other (OpResolve now i True w) \<in> set rest"
        using said_yes_do [of digest b x] by blast
      then show "i \<in> said_yes b \<union> {i. \<exists>now w. Other (OpResolve now i True w) \<in> set (st # rest)}"
        using Other by cases auto
    qed
    finally show ?thesis .
  qed
qed

lemma ap_request_fresh:
  assumes "fresh \<notin> ap_id ` set (br_rows b)"
  shows "\<exists>r b'. ap_request digest fresh now a s v red b = Inr (r, b')"
proof (cases "open_request (fingerprint digest a) (br_rows b)")
  case None
  have "row_by ap_id fresh (br_rows b) = None" using assms by (rule row_by_fresh)
  with None show ?thesis
    unfolding ap_request_def Let_def by (simp only: option.case if_False simp_thms) blast
next
  case (Some r)
  then show ?thesis by (simp add: ap_request_def Let_def)
qed

lemma open_request_new:
  "open_request fp rows = None \<Longrightarrow> ap_fingerprint r = fp \<Longrightarrow> ap_state r = AP_PENDING \<Longrightarrow>
   open_request fp (rows @ [r]) = Some r"
  by (auto simp: open_request_def)

subsection \<open>Properties\<close>

text \<open>C11: one yes authorises one run. Through any sequence of requests, answers (repeated and
  contradictory ones too), expirations and uses, no approval lets an action run twice, and every
  approval that lets one run carries a yes: it was approved already or is answered yes on the way.\<close>

theorem approval_authorises_once:
  "distinct (spent_by_runs desk_yes desk_spend (broker_do digest) b steps) \<and>
   set (spent_by_runs desk_yes desk_spend (broker_do digest) b steps) \<subseteq>
     said_yes b \<union> {i. \<exists>now w. Other (OpResolve now i True w) \<in> set steps}"
  using desk.one_yes_one_run runs_were_approved by blast

text \<open>Asking again while a question is open opens no second one: the same request comes back
  and nothing changes, whatever the new prompt, clock and id.\<close>

theorem request_asks_once:
  assumes "ap_request digest fresh now a s v red b = Inr (r, b')"
    and "fingerprint digest a' = fingerprint digest a"
  shows "ap_state r = AP_PENDING \<and> ap_request digest fresh' now' a' s' v' red' b' = Inr (r, b')"
proof (cases "open_request (fingerprint digest a) (br_rows b)")
  case None
  with assms(1) have "br_rows b' = br_rows b @ [r]" "ap_fingerprint r = fingerprint digest a" "ap_state r = AP_PENDING"
    by (auto simp: ap_request_def Let_def split: if_splits)
  with open_request_new [OF None] assms(2) show ?thesis by (simp add: ap_request_def Let_def)
next
  case (Some q)
  then have "ap_state q = AP_PENDING" by (auto simp: open_request_def dest!: pick_max_in)
  with Some assms show ?thesis by (simp add: ap_request_def Let_def)
qed

definition empty_broker :: broker where
  "empty_broker = \<lparr>br_rows = [], br_bus = new_bus 10, br_waiters = []\<rparr>"

theorem request_asks_once_witness:
  "\<exists>r b'. ap_request (\<lambda>s. s) ''a1'' 5 (new_action ''1'' 4 ''pay'' [(''amount'', PInt 5)] [] None None [])
       sample_tool allow_verdict None empty_broker = Inr (r, b') \<and>
     ap_request (\<lambda>s. s) ''a2'' 8 (new_action ''2'' 7 ''pay'' [(''amount'', PInt 5)] ''retry'' None None [])
       sample_tool allow_verdict None b' = Inr (r, b')"
proof -
  let ?a = "new_action ''1'' 4 ''pay'' [(''amount'', PInt 5)] [] None None []"
  let ?a' = "new_action ''2'' 7 ''pay'' [(''amount'', PInt 5)] ''retry'' None None []"
  have fp: "fingerprint (\<lambda>s. s) ?a' = fingerprint (\<lambda>s. s) ?a"
    by (simp add: fingerprint_def new_action_def)
  obtain r b' where ask: "ap_request (\<lambda>s. s) ''a1'' 5 ?a sample_tool allow_verdict None empty_broker = Inr (r, b')"
    by (simp add: ap_request_def open_request_def empty_broker_def Let_def)
  from request_asks_once [OF ask fp, of "''a2''" 8 sample_tool allow_verdict None] ask show ?thesis by blast
qed

end
