(* ===== verification/Leases.thy ===== *)
theory Leases
  imports Errors
begin

section \<open>Resource leases (runtime/leases.py)\<close>

text \<open>
  The in-process lease table. A round of \<open>acquire\<close> is one critical section of the manager's
  lock: it takes every key of the sorted request, or none and clears the change signal of the
  keys it waits for. Between rounds other tasks run; the step relation interleaves rounds and
  releases freely. The clock and the moment a waiter wakes up are inputs of \<open>acquire\<close>. The
  path normalisation of the host is a parameter of \<open>file_key\<close>.
\<close>

datatype lease_mode = SHARED | EXCLUSIVE

record key_state =
  ks_readers :: nat
  ks_writer :: "string option"
  ks_changed :: bool

definition new_key_state :: key_state where
  "new_key_state = \<lparr>ks_readers = 0, ks_writer = None, ks_changed = True\<rparr>"

definition key_free :: "key_state \<Rightarrow> bool" where
  "key_free s = (ks_readers s = 0 \<and> ks_writer s = None)"

record lease =
  ls_keys :: "string list"
  ls_mode :: lease_mode
  ls_holder :: string
  ls_acquired_at :: instant
  ls_released :: bool

type_synonym lease_table = "(string \<times> key_state) list"

definition state_of :: "lease_table \<Rightarrow> string \<Rightarrow> key_state" where
  "state_of t k = (case map_of t k of None \<Rightarrow> new_key_state | Some s \<Rightarrow> s)"

definition can_take :: "lease_table \<Rightarrow> lease_mode \<Rightarrow> string \<Rightarrow> string \<Rightarrow> bool" where
  "can_take t mode holder k =
     (case map_of t k of
        None \<Rightarrow> True
      | Some s \<Rightarrow>
          if ks_writer s \<noteq> None \<and> ks_writer s \<noteq> Some holder then False
          else if mode = EXCLUSIVE \<and> 0 < ks_readers s then False
          else True)"

definition take_key :: "lease_mode \<Rightarrow> string \<Rightarrow> string \<Rightarrow> lease_table \<Rightarrow> lease_table" where
  "take_key mode holder k t =
     (let s = state_of t k
      in dict_set k (if mode = EXCLUSIVE then s\<lparr>ks_writer := Some holder\<rparr>
                     else s\<lparr>ks_readers := ks_readers s + 1\<rparr>) t)"

definition give_back :: "lease_mode \<Rightarrow> string \<Rightarrow> string \<Rightarrow> lease_table \<Rightarrow> lease_table" where
  "give_back mode holder k t =
     (case map_of t k of
        None \<Rightarrow> t
      | Some s \<Rightarrow>
          let s1 = (if mode = EXCLUSIVE
                    then (if ks_writer s = Some holder then s\<lparr>ks_writer := None\<rparr> else s)
                    else if 0 < ks_readers s then s\<lparr>ks_readers := ks_readers s - 1\<rparr> else s);
              s2 = s1\<lparr>ks_changed := True\<rparr>
          in if key_free s2 then dict_del k t else dict_set k s2 t)"

definition ordered_keys :: "string list \<Rightarrow> string list" where
  "ordered_keys ks = sort (remdups (filter (\<lambda>k. k \<noteq> []) ks))"

definition new_lease :: "string list \<Rightarrow> lease_mode \<Rightarrow> string \<Rightarrow> instant \<Rightarrow> lease" where
  "new_lease ks mode holder now =
     \<lparr>ls_keys = ks, ls_mode = mode, ls_holder = holder, ls_acquired_at = now, ls_released = False\<rparr>"

definition clear_signal :: "string \<Rightarrow> lease_table \<Rightarrow> lease_table" where
  "clear_signal k t = dict_set k ((state_of t k)\<lparr>ks_changed := False\<rparr>) t"

text \<open>One critical section: the lease and the table, or the table with the signals cleared.\<close>

definition acquire_round ::
  "lease_table \<Rightarrow> string list \<Rightarrow> string \<Rightarrow> lease_mode \<Rightarrow> instant \<Rightarrow> lease_table + (lease \<times> lease_table)" where
  "acquire_round t keys holder mode now =
     (let ordered = ordered_keys keys
      in if list_all (can_take t mode holder) ordered
         then Inr (new_lease ordered mode holder now, fold (take_key mode holder) ordered t)
         else Inl (fold clear_signal (filter (\<lambda>k. \<not> can_take t mode holder k) ordered) t))"

definition lease_timeout :: "string list \<Rightarrow> garis_error" where
  "lease_timeout ordered =
     mk_error LeaseTimeout (''Zasoby zaj'' @ pl_e @ ''te zbyt d'' @ pl_l @ ''ugo: '' @ join '', '' ordered) None"

text \<open>
  \<open>acquire\<close>: what it finds each time it wakes is a list of (table, clock) pairs, the last of
  which is followed by silence until the deadline, when \<open>wait_for\<close> times out. \<open>None\<close>
  as a timeout means no deadline. A call that has no deadline and is never granted does not
  return: the value is \<open>None\<close>.
\<close>

fun acquire ::
  "string list \<Rightarrow> string \<Rightarrow> lease_mode \<Rightarrow> instant option \<Rightarrow> (lease_table \<times> instant) list \<Rightarrow>
   (garis_error + lease \<times> lease_table) option" where
  "acquire keys holder mode deadline [] =
     (case deadline of None \<Rightarrow> None | Some d \<Rightarrow> Some (Inl (lease_timeout (ordered_keys keys))))"
| "acquire keys holder mode deadline ((t, now) # later) =
     (case acquire_round t keys holder mode now of
        Inr got \<Rightarrow> Some (Inr got)
      | Inl t' \<Rightarrow>
          (case deadline of
             Some d \<Rightarrow> if d - now \<le> 0 then Some (Inl (lease_timeout (ordered_keys keys)))
                       else acquire keys holder mode deadline later
           | None \<Rightarrow> acquire keys holder mode deadline later))"

definition release_keys :: "string list \<Rightarrow> lease_mode \<Rightarrow> string \<Rightarrow> lease_table \<Rightarrow> lease_table" where
  "release_keys ks mode holder t = fold (give_back mode holder) ks t"

definition lease_release :: "lease \<Rightarrow> lease_table \<Rightarrow> lease \<times> lease_table" where
  "lease_release l t =
     (if ls_released l then (l, t)
      else (l\<lparr>ls_released := True\<rparr>, release_keys (ls_keys l) (ls_mode l) (ls_holder l) t))"

definition held :: "lease_table \<Rightarrow> (string \<times> nat \<times> string option) list" where
  "held t = map (\<lambda>(k, s). (k, ks_readers s, ks_writer s)) t"

definition is_busy :: "lease_table \<Rightarrow> string \<Rightarrow> bool" where
  "is_busy t k = (case map_of t k of None \<Rightarrow> False | Some s \<Rightarrow> \<not> key_free s)"

definition file_key :: "(string \<Rightarrow> string) \<Rightarrow> string \<Rightarrow> string" where
  "file_key normpath path = ''file:'' @ normpath path"

definition app_key :: "string \<Rightarrow> string" where
  "app_key name = ''app:'' @ lower (strip name)"

definition device_key :: "string \<Rightarrow> string" where
  "device_key name = ''device:'' @ lower (strip name)"

definition host_key :: "string \<Rightarrow> string" where
  "host_key name = ''host:'' @ lower (strip name)"

subsection \<open>Interleavings\<close>

text \<open>A request re-enters a key when it asks for exclusive use of one its holder already writes.\<close>

definition reenters :: "lease_table \<Rightarrow> string list \<Rightarrow> string \<Rightarrow> lease_mode \<Rightarrow> bool" where
  "reenters t keys holder mode =
     (mode = EXCLUSIVE \<and> list_ex (\<lambda>k. ks_writer (state_of t k) = Some holder) (ordered_keys keys))"

inductive lease_step ::
  "bool \<Rightarrow> lease_table \<times> lease list \<Rightarrow> lease_table \<times> lease list \<Rightarrow> bool" for nested :: bool where
  granted: "acquire_round t keys holder mode now = Inr (l, t') \<Longrightarrow> nested \<or> \<not> reenters t keys holder mode \<Longrightarrow>
     lease_step nested (t, ls) (t', ls @ [l])"
| waits: "acquire_round t keys holder mode now = Inl t' \<Longrightarrow> lease_step nested (t, ls) (t', ls)"
| released: "lease_release l t = (l', t') \<Longrightarrow> lease_step nested (t, as @ l # bs) (t', as @ l' # bs)"

inductive lease_reach :: "bool \<Rightarrow> lease_table \<times> lease list \<Rightarrow> bool" for nested :: bool where
  init: "lease_reach nested ([], [])"
| step: "lease_reach nested w \<Longrightarrow> lease_step nested w w' \<Longrightarrow> lease_reach nested w'"

inductive_cases lease_stepE: "lease_step nested w w'"

subsection \<open>The table under one round\<close>

lemma set_ordered_keys [simp]: "set (ordered_keys ks) = {k \<in> set ks. k \<noteq> []}"
  by (auto simp: ordered_keys_def)

lemma distinct_ordered_keys [simp]: "distinct (ordered_keys ks)"
  by (simp add: ordered_keys_def)

lemma sorted_ordered_keys: "sorted (ordered_keys ks)"
  by (simp add: ordered_keys_def)

lemma state_of_dict_set [simp]: "state_of (dict_set k s t) j = (if j = k then s else state_of t j)"
  by (simp add: state_of_def)

lemma dict_ok_take_key [simp]: "dict_ok t \<Longrightarrow> dict_ok (take_key mode h k t)"
  by (simp add: take_key_def Let_def)

lemma map_of_fold_take:
  "distinct ks \<Longrightarrow> map_of (fold (take_key mode h) ks t) j =
     (if j \<in> set ks
      then Some (if mode = EXCLUSIVE then (state_of t j)\<lparr>ks_writer := Some h\<rparr>
                 else (state_of t j)\<lparr>ks_readers := ks_readers (state_of t j) + 1\<rparr>)
      else map_of t j)"
  by (induction ks arbitrary: t) (auto simp: take_key_def Let_def)

text \<open>The entry of one key after a lease on it is given back.\<close>

definition returned :: "lease_mode \<Rightarrow> string \<Rightarrow> key_state \<Rightarrow> key_state" where
  "returned mode holder s =
     (if mode = EXCLUSIVE
      then (if ks_writer s = Some holder then s\<lparr>ks_writer := None\<rparr> else s)
      else if 0 < ks_readers s then s\<lparr>ks_readers := ks_readers s - 1\<rparr> else s)\<lparr>ks_changed := True\<rparr>"

definition entry_after :: "lease_mode \<Rightarrow> string \<Rightarrow> key_state option \<Rightarrow> key_state option" where
  "entry_after mode holder e =
     (case e of None \<Rightarrow> None
      | Some s \<Rightarrow> if key_free (returned mode holder s) then None else Some (returned mode holder s))"

lemma map_of_give_back [simp]:
  "map_of (give_back mode h k t) j = (if j = k then entry_after mode h (map_of t k) else map_of t j)"
  by (auto simp: give_back_def entry_after_def returned_def Let_def split: option.splits)

lemma map_of_release:
  "distinct ks \<Longrightarrow> map_of (release_keys ks mode h t) j =
     (if j \<in> set ks then entry_after mode h (map_of t j) else map_of t j)"
  unfolding release_keys_def by (induction ks arbitrary: t) auto

lemma map_of_fold_clear:
  "distinct ks \<Longrightarrow> map_of (fold clear_signal ks t) j =
     (if j \<in> set ks then Some ((state_of t j)\<lparr>ks_changed := False\<rparr>) else map_of t j)"
  by (induction ks arbitrary: t) (auto simp: clear_signal_def)

text \<open>A request that must wait holds nothing: readers and writers are what they were.\<close>

lemma waiting_holds_nothing:
  assumes "acquire_round t keys holder mode now = Inl t'"
  shows "map_option (\<lambda>s. (ks_readers s, ks_writer s)) (map_of t' k) =
    map_option (\<lambda>s. (ks_readers s, ks_writer s)) (map_of t k)"
proof -
  let ?b = "filter (\<lambda>k. \<not> can_take t mode holder k) (ordered_keys keys)"
  have t': "t' = fold clear_signal ?b t"
    using assms by (auto simp: acquire_round_def Let_def split: if_splits)
  have "k \<in> set ?b \<longrightarrow> map_of t k \<noteq> None" by (auto simp: can_take_def split: option.splits)
  then show ?thesis by (auto simp: t' map_of_fold_clear state_of_def split: option.splits)
qed

subsection \<open>The invariant of the table\<close>

definition live :: "lease list \<Rightarrow> string \<Rightarrow> lease list" where
  "live ls k = filter (\<lambda>l. \<not> ls_released l \<and> k \<in> set (ls_keys l)) ls"

definition readers_of :: "lease list \<Rightarrow> string \<Rightarrow> nat" where
  "readers_of ls k = length (filter (\<lambda>l. ls_mode l = SHARED) (live ls k))"

definition writers_of :: "lease list \<Rightarrow> string \<Rightarrow> nat" where
  "writers_of ls k = length (filter (\<lambda>l. ls_mode l = EXCLUSIVE) (live ls k))"

text \<open>The entry of a key counts its live readers and names its one live writer, whose key it is
  alone.\<close>

definition entry_ok :: "lease list \<Rightarrow> string \<Rightarrow> key_state \<Rightarrow> bool" where
  "entry_ok ls k s =
     (ks_readers s = readers_of ls k \<and>
      (case ks_writer s of
         None \<Rightarrow> writers_of ls k = 0
       | Some h \<Rightarrow> writers_of ls k = 1 \<and> (\<forall>l \<in> set (live ls k). ls_holder l = h)))"

definition leases_ok :: "lease_table \<times> lease list \<Rightarrow> bool" where
  "leases_ok w =
     ((\<forall>k. entry_ok (snd w) k (state_of (fst w) k)) \<and>
      (\<forall>k s. map_of (fst w) k = Some s \<longrightarrow> \<not> key_free s) \<and>
      (\<forall>l \<in> set (snd w). distinct (ls_keys l)))"

lemma live_append [simp]: "live (as @ bs) k = live as k @ live bs k"
  by (simp add: live_def)

lemma live_Cons [simp]:
  "live (l # ls) k = (if \<not> ls_released l \<and> k \<in> set (ls_keys l) then l # live ls k else live ls k)"
  by (simp add: live_def)

lemma live_Nil [simp]: "live [] k = []"
  by (simp add: live_def)

lemma state_of_simps:
  "map_of t k = None \<Longrightarrow> state_of t k = new_key_state"
  "map_of t k = Some s \<Longrightarrow> state_of t k = s"
  by (simp_all add: state_of_def)

lemma can_take_state: "can_take t mode h k =
    ((ks_writer (state_of t k) = None \<or> ks_writer (state_of t k) = Some h) \<and>
     (mode = EXCLUSIVE \<longrightarrow> ks_readers (state_of t k) = 0))"
  by (auto simp: can_take_def state_of_def new_key_state_def split: option.splits)

lemma entry_ok_granted:
  assumes "entry_ok ls k s" and "ks_writer s = None \<or> ks_writer s = Some h"
    and "mode = EXCLUSIVE \<longrightarrow> ks_readers s = 0 \<and> ks_writer s \<noteq> Some h"
    and "ls_mode l = mode" and "ls_holder l = h" and "\<not> ls_released l" and "k \<in> set (ls_keys l)"
  shows "entry_ok (ls @ [l]) k
    (if mode = EXCLUSIVE then s\<lparr>ks_writer := Some h\<rparr> else s\<lparr>ks_readers := ks_readers s + 1\<rparr>)"
proof (cases mode)
  case SHARED
  with assms show ?thesis by (auto simp: entry_ok_def readers_of_def writers_of_def split: option.splits)
next
  case EXCLUSIVE
  with assms have "ks_writer s = None" "readers_of ls k = 0" "writers_of ls k = 0"
    by (auto simp: entry_ok_def split: option.splits)
  then have "live ls k = []"
    by (auto simp: readers_of_def writers_of_def filter_empty_conv)
       (metis lease_mode.exhaust list.set_intros(1) neq_Nil_conv)
  with EXCLUSIVE assms show ?thesis by (auto simp: entry_ok_def readers_of_def writers_of_def)
qed

lemma entry_ok_returned:
  assumes "entry_ok (as @ l # bs) k s" and "\<not> ls_released l" and "k \<in> set (ls_keys l)"
  shows "entry_ok (as @ l\<lparr>ls_released := True\<rparr> # bs) k (returned (ls_mode l) (ls_holder l) s)"
  using assms
  by (cases "ls_mode l"; cases "ks_writer s")
     (auto simp: entry_ok_def returned_def readers_of_def writers_of_def)

lemma entry_ok_cong: "live ls k = live ls' k \<Longrightarrow> entry_ok ls k s = entry_ok ls' k s"
  unfolding entry_ok_def readers_of_def writers_of_def by (simp only:)

lemma entry_ok_other:
  "k \<notin> set (ls_keys l) \<Longrightarrow> entry_ok (ls @ [l]) k s = entry_ok ls k s"
  by (rule entry_ok_cong) simp

lemma entry_ok_other_mid:
  "ls_released l \<or> k \<notin> set (ls_keys l) \<Longrightarrow>
   entry_ok (as @ l\<lparr>ls_released := True\<rparr> # bs) k s = entry_ok (as @ l # bs) k s"
  by (rule entry_ok_cong) auto

lemma entry_ok_signal [simp]: "entry_ok ls k (s\<lparr>ks_changed := b\<rparr>) = entry_ok ls k s"
  by (simp add: entry_ok_def)

lemma key_free_signal [simp]: "key_free (s\<lparr>ks_changed := b\<rparr>) = key_free s"
  by (simp add: key_free_def)

lemma entry_ok_new: "key_free s \<Longrightarrow> entry_ok ls k s = entry_ok ls k new_key_state"
  by (auto simp: entry_ok_def key_free_def new_key_state_def)

lemma leases_ok_granted:
  assumes "leases_ok (t, ls)" and "acquire_round t keys holder mode now = Inr (l, t')"
    and "\<not> reenters t keys holder mode"
  shows "leases_ok (t', ls @ [l])"
proof -
  let ?ks = "ordered_keys keys"
  have free: "can_take t mode holder k" if "k \<in> set ?ks" for k
    using assms(2) that by (auto simp: acquire_round_def Let_def list_all_iff split: if_splits)
  have l: "l = new_lease ?ks mode holder now" and t': "t' = fold (take_key mode holder) ?ks t"
    using assms(2) by (auto simp: acquire_round_def Let_def split: if_splits)
  have fields: "ls_mode l = mode" "ls_holder l = holder" "\<not> ls_released l" "ls_keys l = ?ks"
    by (simp_all add: l new_lease_def)
  have m: "map_of t' k = (if k \<in> set ?ks
      then Some (if mode = EXCLUSIVE then (state_of t k)\<lparr>ks_writer := Some holder\<rparr>
                 else (state_of t k)\<lparr>ks_readers := ks_readers (state_of t k) + 1\<rparr>)
      else map_of t k)" for k
    unfolding t' by (rule map_of_fold_take) simp
  have entry: "entry_ok (ls @ [l]) k (state_of t' k)" for k
  proof (cases "k \<in> set ?ks")
    case True
    have "entry_ok ls k (state_of t k)" using assms(1) by (simp add: leases_ok_def)
    moreover have "ks_writer (state_of t k) = None \<or> ks_writer (state_of t k) = Some holder"
      and "mode = EXCLUSIVE \<longrightarrow> ks_readers (state_of t k) = 0 \<and> ks_writer (state_of t k) \<noteq> Some holder"
      using free [OF True] assms(3) True unfolding can_take_state reenters_def list_ex_iff by blast+
    ultimately show ?thesis
      using entry_ok_granted [of ls k "state_of t k" holder mode l] fields True m [of k]
      by (simp add: state_of_simps(2))
  next
    case False
    then have "map_of t' k = map_of t k" using m [of k] by (simp only: if_False)
    then have "state_of t' k = state_of t k" by (simp add: state_of_def)
    with False fields assms(1) show ?thesis by (simp add: entry_ok_other leases_ok_def)
  qed
  have busy: "\<not> key_free s" if "map_of t' k = Some s" for k s
    using that m [of k] assms(1) by (auto simp: key_free_def leases_ok_def split: if_splits)
  show ?thesis using entry busy assms(1) fields by (auto simp: leases_ok_def)
qed

lemma leases_ok_waits:
  assumes "leases_ok (t, ls)" and "acquire_round t keys holder mode now = Inl t'"
  shows "leases_ok (t', ls)"
proof -
  let ?b = "filter (\<lambda>k. \<not> can_take t mode holder k) (ordered_keys keys)"
  have t': "t' = fold clear_signal ?b t"
    using assms(2) by (auto simp: acquire_round_def Let_def split: if_splits)
  have m: "map_of t' k = (if k \<in> set ?b then Some ((state_of t k)\<lparr>ks_changed := False\<rparr>) else map_of t k)" for k
    unfolding t' by (rule map_of_fold_clear) simp
  have there: "k \<in> set ?b \<Longrightarrow> map_of t k = Some (state_of t k)" for k
    by (auto simp: can_take_def state_of_def split: option.splits)
  have e: "entry_ok ls k (state_of t k)" for k using assms(1) by (simp add: leases_ok_def)
  have "entry_ok ls k (state_of t' k)" for k
    using e [of k] m [of k] by (cases "k \<in> set ?b") (simp_all add: state_of_def)
  moreover have "\<not> key_free s" if "map_of t' k = Some s" for k s
    using that m [of k] there [of k] assms(1) by (auto simp: leases_ok_def split: if_splits)
  ultimately show ?thesis using assms(1) by (auto simp: leases_ok_def)
qed

lemma leases_ok_released:
  assumes "leases_ok (t, as @ l # bs)" and "lease_release l t = (l', t')"
  shows "leases_ok (t', as @ l' # bs)"
proof (cases "ls_released l")
  case True
  with assms show ?thesis by (simp add: lease_release_def)
next
  case False
  then have l': "l' = l\<lparr>ls_released := True\<rparr>"
    and t': "t' = release_keys (ls_keys l) (ls_mode l) (ls_holder l) t"
    using assms(2) by (auto simp: lease_release_def)
  have m: "map_of t' k = (if k \<in> set (ls_keys l) then entry_after (ls_mode l) (ls_holder l) (map_of t k)
      else map_of t k)" for k
    unfolding t' by (rule map_of_release) (use assms(1) in \<open>simp add: leases_ok_def\<close>)
  have entry: "entry_ok (as @ l' # bs) k (state_of t' k)" for k
  proof (cases "k \<in> set (ls_keys l)")
    case True
    let ?r = "returned (ls_mode l) (ls_holder l) (state_of t k)"
    have "entry_ok (as @ l # bs) k (state_of t k)" using assms(1) by (simp add: leases_ok_def)
    then have r: "entry_ok (as @ l' # bs) k ?r"
      unfolding l' using False True by (rule entry_ok_returned)
    have "map_of t k \<noteq> None"
    proof
      assume "map_of t k = None"
      with \<open>entry_ok (as @ l # bs) k (state_of t k)\<close> False True show False
        by (cases "ls_mode l") (auto simp: state_of_def new_key_state_def entry_ok_def readers_of_def writers_of_def)
    qed
    then obtain s where s: "map_of t k = Some s" by blast
    show ?thesis
    proof (cases "key_free ?r")
      case True
      with m [of k] s \<open>k \<in> set (ls_keys l)\<close> have "state_of t' k = new_key_state"
        by (simp add: state_of_def entry_after_def)
      with entry_ok_new [OF True] r show ?thesis by simp
    next
      case False
      with m [of k] s \<open>k \<in> set (ls_keys l)\<close> have "state_of t' k = ?r"
        by (simp add: state_of_def entry_after_def)
      with r show ?thesis by simp
    qed
  next
    case False
    then have "state_of t' k = state_of t k" using m [of k] by (simp add: state_of_def)
    with False assms(1) show ?thesis by (simp add: l' entry_ok_other_mid leases_ok_def)
  qed
  have busy: "\<not> key_free s" if "map_of t' k = Some s" for k s
    using that m [of k] assms(1)
    by (auto simp: leases_ok_def entry_after_def split: if_splits option.splits)
  show ?thesis using entry busy assms(1) by (auto simp: leases_ok_def l')
qed

lemma leases_ok_reach: "lease_reach False w \<Longrightarrow> leases_ok w"
proof (induction rule: lease_reach.induct)
  case init
  show ?case
    by (simp add: leases_ok_def entry_ok_def state_of_def new_key_state_def readers_of_def writers_of_def)
next
  case (step w w')
  from step.hyps(2) show ?case
  proof (cases rule: lease_step.cases)
    case (granted t keys holder mode now l t' ls)
    with step.IH show ?thesis using leases_ok_granted by blast
  next
    case (waits t keys holder mode now t' ls)
    with step.IH show ?thesis using leases_ok_waits by blast
  next
    case (released l t l' t' as bs)
    with step.IH show ?thesis using leases_ok_released by blast
  qed
qed

subsection \<open>The table and the outstanding leases\<close>

text \<open>What a request may coexist with: a lease of its own holder, and, if both are shared, any.\<close>

definition compatible :: "lease_mode \<Rightarrow> string \<Rightarrow> lease \<Rightarrow> bool" where
  "compatible mode holder l =
     ((ls_mode l = EXCLUSIVE \<longrightarrow> ls_holder l = holder) \<and> (mode = EXCLUSIVE \<longrightarrow> ls_mode l \<noteq> SHARED))"

lemma can_take_compatible:
  assumes "leases_ok (t, ls)"
  shows "can_take t mode holder k = (\<forall>l \<in> set (live ls k). compatible mode holder l)"
proof -
  let ?s = "state_of t k"
  have e: "entry_ok ls k ?s" using assms by (simp add: leases_ok_def)
  have readers: "ks_readers ?s = 0 \<longleftrightarrow> (\<forall>l \<in> set (live ls k). ls_mode l \<noteq> SHARED)"
    using e by (auto simp: entry_ok_def readers_of_def filter_empty_conv)
  have none: "ks_writer ?s = None \<longleftrightarrow> (\<forall>l \<in> set (live ls k). ls_mode l \<noteq> EXCLUSIVE)"
  proof
    assume "ks_writer ?s = None"
    with e show "\<forall>l \<in> set (live ls k). ls_mode l \<noteq> EXCLUSIVE"
      by (auto simp: entry_ok_def writers_of_def filter_empty_conv)
  next
    assume "\<forall>l \<in> set (live ls k). ls_mode l \<noteq> EXCLUSIVE"
    then have "writers_of ls k = 0" by (simp add: writers_of_def)
    with e show "ks_writer ?s = None" by (auto simp: entry_ok_def split: option.splits)
  qed
  have mine: "ls_holder l = h" if "ks_writer ?s = Some h" "l \<in> set (live ls k)" for h l
    using that e by (auto simp: entry_ok_def)
  show ?thesis
  proof (cases "ks_writer ?s")
    case None
    with none readers show ?thesis by (auto simp: can_take_state compatible_def)
  next
    case (Some h)
    then obtain l where "l \<in> set (live ls k)" "ls_mode l = EXCLUSIVE" using none by auto
    with Some mine readers show ?thesis unfolding can_take_state compatible_def by auto
  qed
qed

lemma two_live:
  assumes "leases_ok (t, as @ l # bs @ m # cs)" and "\<not> ls_released l" and "\<not> ls_released m"
    and "k \<in> set (ls_keys l)" and "k \<in> set (ls_keys m)"
  shows "(ls_mode l = SHARED \<and> ls_mode m = SHARED) \<or> (ls_holder l = ls_holder m \<and> ls_mode l \<noteq> ls_mode m)"
proof -
  let ?ls = "as @ l # bs @ m # cs"
  have e: "entry_ok ?ls k (state_of t k)" using assms(1) by (simp add: leases_ok_def)
  show ?thesis
  proof (cases "ks_writer (state_of t k)")
    case None
    with e have "writers_of ?ls k = 0" by (simp add: entry_ok_def)
    with assms show ?thesis by (cases "ls_mode l"; cases "ls_mode m") (auto simp: writers_of_def)
  next
    case (Some h)
    with e have "writers_of ?ls k = 1" "\<forall>q \<in> set (live ?ls k). ls_holder q = h"
      by (simp_all add: entry_ok_def)
    with assms show ?thesis by (cases "ls_mode l"; cases "ls_mode m") (auto simp: writers_of_def)
  qed
qed

lemma all_released_empty:
  assumes "leases_ok (t, ls)" and "\<forall>l \<in> set ls. ls_released l"
  shows "t = []"
proof (rule ccontr)
  assume "t \<noteq> []"
  then obtain p r where "t = p # r" by (cases t) auto
  then have "map_of t (fst p) = Some (snd p)" by simp
  then obtain k s where s: "map_of t k = Some s" by blast
  have "live ls k = []" using assms(2) by (auto simp: live_def filter_empty_conv)
  moreover have "entry_ok ls k s" using assms(1) s by (auto simp: leases_ok_def state_of_def split: option.splits dest: spec [of _ k])
  ultimately have "key_free s"
    by (auto simp: entry_ok_def key_free_def readers_of_def writers_of_def split: option.splits)
  with assms(1) s show False by (auto simp: leases_ok_def)
qed

subsection \<open>Properties\<close>

text \<open>C16: mutual exclusion. However rounds and releases interleave, as long as no holder asks for
  exclusive use of a key it already writes, two outstanding leases on a key are both shared or
  belong to one holder and are not both exclusive.\<close>

theorem lease_mutual_exclusion:
  assumes "lease_reach False (t, as @ l # bs @ m # cs)"
    and "\<not> ls_released l" and "\<not> ls_released m" and "k \<in> set (ls_keys l)" and "k \<in> set (ls_keys m)"
  shows "(ls_mode l = SHARED \<and> ls_mode m = SHARED) \<or> (ls_holder l = ls_holder m \<and> ls_mode l \<noteq> ls_mode m)"
  using leases_ok_reach [OF assms(1)] assms(2-) by (rule two_live)

text \<open>The table is a faithful summary of the leases handed out. A request is granted exactly
  when, on each of its keys, it is compatible with every lease not yet given back; when nothing is
  outstanding the table is empty and every request is granted at once; and a request that has to
  wait holds nothing, so it cannot deadlock with another.\<close>

theorem lease_granted_iff_compatible:
  assumes "lease_reach False (t, ls)"
  shows "((\<exists>got. acquire_round t keys holder mode now = Inr got) =
      (\<forall>k \<in> set keys. k \<noteq> [] \<longrightarrow> (\<forall>l \<in> set (live ls k). compatible mode holder l))) \<and>
    ((\<forall>l \<in> set ls. ls_released l) \<longrightarrow> t = []) \<and>
    (acquire_round t keys holder mode now = Inl t' \<longrightarrow>
      map_option (\<lambda>s. (ks_readers s, ks_writer s)) (map_of t' k) =
      map_option (\<lambda>s. (ks_readers s, ks_writer s)) (map_of t k))"
proof (intro conjI impI)
  note ok = leases_ok_reach [OF assms]
  show "(\<exists>got. acquire_round t keys holder mode now = Inr got) =
      (\<forall>k \<in> set keys. k \<noteq> [] \<longrightarrow> (\<forall>l \<in> set (live ls k). compatible mode holder l))"
    by (auto simp: acquire_round_def Let_def list_all_iff can_take_compatible [OF ok])
  show "t = []" if "\<forall>l \<in> set ls. ls_released l"
    using ok that by (rule all_released_empty)
  show "map_option (\<lambda>s. (ks_readers s, ks_writer s)) (map_of t' k) =
      map_option (\<lambda>s. (ks_readers s, ks_writer s)) (map_of t k)"
    if "acquire_round t keys holder mode now = Inl t'"
    using that by (rule waiting_holds_nothing)
qed

lemmas lease_eval = acquire_round_def ordered_keys_def can_take_def take_key_def state_of_def
  new_key_state_def new_lease_def lease_release_def release_keys_def give_back_def key_free_def
  reenters_def dict_del_def

definition one_writer :: "lease_table" where
  "one_writer = [(''f'', \<lparr>ks_readers = 0, ks_writer = Some ''A'', ks_changed = True\<rparr>)]"

definition lease_of :: "string \<Rightarrow> bool \<Rightarrow> lease" where
  "lease_of holder gone = (new_lease [''f''] EXCLUSIVE holder 0)\<lparr>ls_released := gone\<rparr>"

lemma grant_A: "acquire_round [] [''f''] ''A'' EXCLUSIVE 0 = Inr (lease_of ''A'' False, one_writer)"
  by (simp add: lease_eval one_writer_def lease_of_def)

lemma reach_one_writer: "lease_reach nested (one_writer, [lease_of ''A'' False])"
proof -
  have "lease_step nested ([], []) (one_writer, [] @ [lease_of ''A'' False])"
    by (rule lease_step.granted [OF grant_A]) (simp add: lease_eval)
  with lease_reach.init show ?thesis by (auto intro: lease_reach.step)
qed

theorem lease_mutual_exclusion_witness:
  "\<exists>t l m. lease_reach False (t, [l, m]) \<and> ls_holder l = ls_holder m \<and> ls_mode l \<noteq> ls_mode m"
proof -
  define m where "m = new_lease [''f''] SHARED ''A'' 1"
  have got: "acquire_round one_writer [''f''] ''A'' SHARED 1 = Inr (m, fold (take_key SHARED ''A'') [''f''] one_writer)"
    by (simp add: lease_eval one_writer_def m_def)
  have "lease_step False (one_writer, [lease_of ''A'' False])
      (fold (take_key SHARED ''A'') [''f''] one_writer, [lease_of ''A'' False] @ [m])"
    by (rule lease_step.granted [OF got]) (simp add: reenters_def)
  then have r: "lease_reach False (fold (take_key SHARED ''A'') [''f''] one_writer,
      [] @ lease_of ''A'' False # [] @ m # [])"
    using reach_one_writer by (auto intro: lease_reach.step)
  have "(ls_mode (lease_of ''A'' False) = SHARED \<and> ls_mode m = SHARED) \<or>
      (ls_holder (lease_of ''A'' False) = ls_holder m \<and> ls_mode (lease_of ''A'' False) \<noteq> ls_mode m)"
    by (rule lease_mutual_exclusion [OF r, of "''f''"]) (simp_all add: lease_of_def new_lease_def m_def)
  then have "ls_holder (lease_of ''A'' False) = ls_holder m \<and> ls_mode (lease_of ''A'' False) \<noteq> ls_mode m"
    by (simp add: lease_of_def new_lease_def m_def)
  with r show ?thesis unfolding append_Nil by blast
qed

theorem lease_granted_iff_compatible_witness:
  "\<not> (\<exists>got. acquire_round one_writer [''g'', ''f''] ''B'' SHARED 5 = Inr got)"
  using lease_granted_iff_compatible [OF reach_one_writer, THEN conjunct1, of "[''g'', ''f'']" "''B''" SHARED 5]
  by (simp add: lease_of_def new_lease_def compatible_def)

text \<open>The restriction in the exclusion property is needed. A holder that asks again for a key it
  writes (an action that performs another action on the same resource, under the same task) is
  granted a second lease; giving the inner one back frees the key while the outer one is still
  held, and another task is granted exclusive use of it.\<close>

theorem nested_release_breaks_exclusion:
  "\<exists>t l m n. lease_reach True (t, [l, m, n]) \<and> \<not> ls_released l \<and> \<not> ls_released n \<and>
     ls_mode l = EXCLUSIVE \<and> ls_mode n = EXCLUSIVE \<and>
     ''f'' \<in> set (ls_keys l) \<and> ''f'' \<in> set (ls_keys n) \<and> ls_holder l \<noteq> ls_holder n"
proof -
  let ?A = "lease_of ''A'' False" and ?A' = "lease_of ''A'' True" and ?B = "lease_of ''B'' False"
  let ?t = "[(''f'', \<lparr>ks_readers = 0, ks_writer = Some ''B'', ks_changed = True\<rparr>)]"
  have again: "acquire_round one_writer [''f''] ''A'' EXCLUSIVE 0 = Inr (?A, one_writer)"
    by (simp add: lease_eval one_writer_def lease_of_def)
  have "lease_step True (one_writer, [?A]) (one_writer, [?A] @ [?A])"
    by (rule lease_step.granted [OF again]) simp
  with reach_one_writer have two: "lease_reach True (one_writer, [?A, ?A])"
    by (auto intro: lease_reach.step)
  have gave: "lease_release ?A one_writer = (?A', [])"
    by (simp add: lease_eval one_writer_def lease_of_def)
  have "lease_step True (one_writer, [?A] @ ?A # []) ([], [?A] @ ?A' # [])"
    by (rule lease_step.released [OF gave])
  with two have freed: "lease_reach True ([], [?A, ?A'])" by (auto intro: lease_reach.step)
  have other: "acquire_round [] [''f''] ''B'' EXCLUSIVE 0 = Inr (?B, ?t)"
    by (simp add: lease_eval lease_of_def)
  have "lease_step True ([], [?A, ?A']) (?t, [?A, ?A'] @ [?B])"
    by (rule lease_step.granted [OF other]) simp
  with freed have "lease_reach True (?t, [?A, ?A', ?B])" by (auto intro: lease_reach.step)
  then show ?thesis
    by (intro exI [of _ ?t] exI [of _ ?A] exI [of _ ?A'] exI [of _ ?B])
       (simp add: lease_of_def new_lease_def)
qed

end
