(* ===== verification/Crypto.thy ===== *)
theory Crypto
  imports Errors
begin

section \<open>Local encryption (crypto.py)\<close>

text \<open>
  Base64 as the standard library computes it, the token format of \<open>SecretBox\<close> and the
  life of the master key file. The primitives are parameters: \<open>seal\<close>/\<open>unseal\<close> are
  AES-GCM (\<open>cryptography\<close>), \<open>kdf\<close> is scrypt and \<open>dpapi\<close> the Windows call; their
  documented laws are named hypotheses. Random nonces, salts and keys are arguments. Bytes and
  text are both byte lists; \<open>InvalidTag\<close> is the \<open>None\<close> of \<open>unseal\<close>.
\<close>

subsection \<open>Base64\<close>

definition b64_digit :: "bool \<Rightarrow> nat \<Rightarrow> char" where
  "b64_digit url v =
     char_of (if v < 26 then 65 + v else if v < 52 then 71 + v else if v < 62 then v - 4
              else if v = 62 then (if url then 45 else 43) else (if url then 95 else 47))"

text \<open>The value of a digit. The URL-safe decoder maps \<open>-_\<close> to \<open>+/\<close> and accepts all four.\<close>

definition b64_value :: "bool \<Rightarrow> char \<Rightarrow> nat option" where
  "b64_value url c =
     (let n = byte_of c
      in if 65 \<le> n \<and> n \<le> 90 then Some (n - 65)
         else if 97 \<le> n \<and> n \<le> 122 then Some (n - 71)
         else if 48 \<le> n \<and> n \<le> 57 then Some (n + 4)
         else if n = 43 \<or> (url \<and> n = 45) then Some 62
         else if n = 47 \<or> (url \<and> n = 95) then Some 63
         else None)"

text \<open>The digits of \<open>b64encode\<close>, without and with padding.\<close>

fun b64_digits :: "nat list \<Rightarrow> nat list" where
  "b64_digits [] = []"
| "b64_digits [a] = [a div 4, (a mod 4) * 16]"
| "b64_digits [a, b] = [a div 4, (a mod 4) * 16 + b div 16, (b mod 16) * 4]"
| "b64_digits (a # b # c # r) =
     a div 4 # ((a mod 4) * 16 + b div 16) # ((b mod 16) * 4 + c div 64) # (c mod 64) # b64_digits r"

definition pad_for :: "nat \<Rightarrow> string" where
  "pad_for n = replicate ((4 - n mod 4) mod 4) (CHR ''='')"

definition b64encode :: "bool \<Rightarrow> string \<Rightarrow> string" where
  "b64encode url s =
     (let ds = b64_digits (map byte_of s) in map (b64_digit url) ds @ pad_for (length ds))"

text \<open>\<open>binascii.a2b_base64\<close> in its lenient mode: foreign characters are skipped, padding that
  completes a quadruple ends the input, an unfinished quadruple is an error.\<close>

fun b64_run :: "bool \<Rightarrow> nat \<Rightarrow> nat \<Rightarrow> nat \<Rightarrow> string \<Rightarrow> nat list option" where
  "b64_run url quad left pads [] = (if quad = 0 then Some [] else None)"
| "b64_run url quad left pads (c # cs) =
     (if c = CHR ''='' then
        (if 2 \<le> quad then (if 4 \<le> quad + (pads + 1) then Some [] else b64_run url quad left (pads + 1) cs)
         else b64_run url quad left pads cs)
      else case b64_value url c of
        None \<Rightarrow> b64_run url quad left pads cs
      | Some v \<Rightarrow>
          if quad = 0 then b64_run url 1 v 0 cs
          else if quad = 1 then map_option ((#) (left * 4 + v div 16)) (b64_run url 2 (v mod 16) 0 cs)
          else if quad = 2 then map_option ((#) (left * 16 + v div 4)) (b64_run url 3 (v mod 4) 0 cs)
          else map_option ((#) (left * 64 + v)) (b64_run url 0 0 0 cs))"

definition b64decode :: "bool \<Rightarrow> string \<Rightarrow> string option" where
  "b64decode url s =
     (if list_ex (\<lambda>c. 128 \<le> byte_of c) s then None else map_option (map char_of) (b64_run url 0 0 0 s))"

definition b64e :: "string \<Rightarrow> string" where
  "b64e raw = rstrip_char (CHR ''='') (b64encode True raw)"

definition b64d :: "string \<Rightarrow> string option" where
  "b64d text = b64decode True (text @ pad_for (length text))"

subsection \<open>SecretBox\<close>

definition KEY_SIZE :: nat where "KEY_SIZE = 32"
definition SALT_SIZE :: nat where "SALT_SIZE = 16"
definition TOKEN_PREFIX :: string where "TOKEN_PREFIX = ''g1''"

type_synonym seal = "string \<Rightarrow> string \<Rightarrow> string \<Rightarrow> string \<Rightarrow> string"
type_synonym unseal = "string \<Rightarrow> string \<Rightarrow> string \<Rightarrow> string \<Rightarrow> string option"

definition new_box :: "string \<Rightarrow> exn + string" where
  "new_box key =
     (if length key = KEY_SIZE then Inr key
      else Inl (PyExn ''ValueError'' (''Klucz musi mie'' @ pl_c @ '' '' @ nat_str KEY_SIZE @
             '' bajt'' @ pl_o @ ''w, ma '' @ nat_str (length key))))"

definition encrypt :: "seal \<Rightarrow> string \<Rightarrow> string \<Rightarrow> string \<Rightarrow> string \<Rightarrow> string" where
  "encrypt seal key nonce plaintext ctx =
     TOKEN_PREFIX @ ''.'' @ b64e nonce @ ''.'' @ b64e (seal key nonce plaintext ctx)"

text \<open>\<open>text.split(sep, n)\<close>: at most \<open>n\<close> cuts.\<close>

fun split_max :: "char \<Rightarrow> nat \<Rightarrow> string \<Rightarrow> string list" where
  "split_max sep 0 s = [s]"
| "split_max sep (Suc n) s =
     (case dropWhile (\<lambda>c. c \<noteq> sep) s of
        [] \<Rightarrow> [s]
      | _ # rest \<Rightarrow> takeWhile (\<lambda>c. c \<noteq> sep) s # split_max sep n rest)"

definition locked :: "string \<Rightarrow> string option \<Rightarrow> exn" where
  "locked message user = Garis (mk_error LockedError message user)"

definition wrong_key :: exn where
  "wrong_key = locked (''Nie uda'' @ pl_l @ ''o si'' @ pl_e @ '' odszyfrowa'' @ pl_c @ '' danych '' @ em_dash @
       '' inny klucz lub naruszony zapis'')
     (Some (''Nie mog'' @ pl_e @ '' odczyta'' @ pl_c @ '' zaszyfrowanych danych. Klucz si'' @ pl_e @
            '' nie zgadza.''))"

definition decrypt :: "unseal \<Rightarrow> string \<Rightarrow> string \<Rightarrow> string \<Rightarrow> exn + string" where
  "decrypt unseal key token ctx =
     (case split_max (CHR ''.'') 2 token of
        [pre, nonce, ct] \<Rightarrow>
          if pre \<noteq> TOKEN_PREFIX then
            Inl (locked (''Nieznana wersja szyfrowania: '' @ repr_str pre) None)
          else (case (b64d nonce, b64d ct) of
              (Some n, Some c) \<Rightarrow> (case unseal key n c ctx of Some p \<Rightarrow> Inr p | None \<Rightarrow> Inl wrong_key)
            | _ \<Rightarrow> Inl wrong_key)
      | _ \<Rightarrow> Inl (locked (''Uszkodzony token: '' @ cp_take 16 token @ ellipsis) None))"

subsection \<open>The master key file\<close>

definition PLAIN_MARK :: string where "PLAIN_MARK = ''garis-key-v1:''"
definition DPAPI_MARK :: string where "DPAPI_MARK = ''garis-key-dpapi-v1:''"
definition SCRYPT_MARK :: string where "SCRYPT_MARK = ''garis-key-scrypt-v1:''"

record primitives =
  pm_seal :: seal
  pm_unseal :: unseal
  pm_kdf :: "string \<Rightarrow> string \<Rightarrow> nat \<Rightarrow> string"
  pm_protect :: "string \<Rightarrow> exn + string"
  pm_unprotect :: "string \<Rightarrow> exn + string"
  pm_dpapi_available :: bool

definition derive_key :: "primitives \<Rightarrow> string \<Rightarrow> string \<Rightarrow> string" where
  "derive_key P passphrase salt = pm_kdf P passphrase salt (2 ^ 15)"

definition dpapi_available :: "primitives \<Rightarrow> bool" where
  "dpapi_available P = pm_dpapi_available P"

definition wrap_key ::
  "primitives \<Rightarrow> string \<Rightarrow> string \<Rightarrow> string \<Rightarrow> string option \<Rightarrow> bool \<Rightarrow> exn + string" where
  "wrap_key P salt nonce key passphrase use_dpapi =
     (case passphrase of
        Some pass \<Rightarrow>
          if pass \<noteq> [] then
            (case new_box (derive_key P pass salt) of
               Inl e \<Rightarrow> Inl e
             | Inr box \<Rightarrow> Inr (SCRYPT_MARK @ b64encode False salt @ ''.'' @
                              encrypt (pm_seal P) box nonce key []))
          else if use_dpapi then map_sum id (\<lambda>b. DPAPI_MARK @ b64encode False b) (pm_protect P key)
          else Inr (PLAIN_MARK @ b64encode False key)
      | None \<Rightarrow>
          if use_dpapi then map_sum id (\<lambda>b. DPAPI_MARK @ b64encode False b) (pm_protect P key)
          else Inr (PLAIN_MARK @ b64encode False key))"

definition b64_or_error :: "string \<Rightarrow> exn + string" where
  "b64_or_error s =
     (case b64decode False s of Some b \<Rightarrow> Inr b | None \<Rightarrow> Inl (PyExn ''Error'' ''Incorrect padding''))"

definition unwrap_key :: "primitives \<Rightarrow> string \<Rightarrow> string option \<Rightarrow> exn + string" where
  "unwrap_key P blob passphrase =
     (if prefix SCRYPT_MARK blob then
        (case passphrase of
           Some pass \<Rightarrow>
             if pass = [] then Inl (locked (''Klucz jest chroniony has'' @ pl_l @ ''em'')
                (Some (''Potrzebuj'' @ pl_e @ '' has'' @ pl_l @ ''a, '' @ pl_z @ ''eby odblokowa'' @ pl_c @
                       '' swoj'' @ pl_a @ '' pami'' @ pl_e @ pl_c @ ''.'')))
             else (case split_max (CHR ''.'') 1 (drop (length SCRYPT_MARK) blob) of
                 [salt64, token] \<Rightarrow>
                   (case b64_or_error salt64 of
                      Inl e \<Rightarrow> Inl e
                    | Inr salt \<Rightarrow>
                        (case new_box (derive_key P pass salt) of
                           Inl e \<Rightarrow> Inl e
                         | Inr box \<Rightarrow> decrypt (pm_unseal P) box token []))
               | _ \<Rightarrow> Inl (PyExn ''ValueError'' ''not enough values to unpack (expected 2, got 1)''))
         | None \<Rightarrow> Inl (locked (''Klucz jest chroniony has'' @ pl_l @ ''em'')
                (Some (''Potrzebuj'' @ pl_e @ '' has'' @ pl_l @ ''a, '' @ pl_z @ ''eby odblokowa'' @ pl_c @
                       '' swoj'' @ pl_a @ '' pami'' @ pl_e @ pl_c @ ''.''))))
      else if prefix DPAPI_MARK blob then
        (case b64_or_error (drop (length DPAPI_MARK) blob) of Inl e \<Rightarrow> Inl e | Inr b \<Rightarrow> pm_unprotect P b)
      else if prefix PLAIN_MARK blob then b64_or_error (drop (length PLAIN_MARK) blob)
      else Inl (locked ''Nierozpoznany format pliku klucza'' None))"

text \<open>\<open>load_or_create_master_key\<close>: the file's content is \<open>None\<close> when it does not exist; the
  replacement is atomic, so it is written whole or not at all.\<close>

definition load_or_create_master_key ::
  "primitives \<Rightarrow> string \<Rightarrow> string \<Rightarrow> string \<Rightarrow> string option \<Rightarrow> string option \<Rightarrow> bool option \<Rightarrow>
   exn + string \<times> string" where
  "load_or_create_master_key P fresh_key salt nonce file passphrase use_dpapi =
     (let dpapi = (case use_dpapi of None \<Rightarrow> dpapi_available P | Some b \<Rightarrow> b)
      in case file of
           Some blob \<Rightarrow> map_sum id (\<lambda>key. (key, blob)) (unwrap_key P blob passphrase)
         | None \<Rightarrow> map_sum id (\<lambda>blob. (fresh_key, blob))
                     (wrap_key P salt nonce fresh_key passphrase dpapi))"

definition subkey :: "primitives \<Rightarrow> string \<Rightarrow> string \<Rightarrow> string" where
  "subkey P master label =
     pm_kdf P master (take SALT_SIZE (label @ replicate (SALT_SIZE - length label) (CHR 0x00))) (2 ^ 14)"

subsection \<open>Base64 round trips\<close>

definition digit_code :: "bool \<Rightarrow> nat \<Rightarrow> nat" where
  "digit_code url v =
     (if v < 26 then 65 + v else if v < 52 then 71 + v else if v < 62 then v - 4
      else if v = 62 then (if url then 45 else 43) else (if url then 95 else 47))"

lemma byte_of_char_of: "n < 256 \<Longrightarrow> byte_of (char_of n) = n"
  by (simp add: byte_of_def)

lemma byte_of_digit: "v < 64 \<Longrightarrow> byte_of (b64_digit url v) = digit_code url v"
  unfolding b64_digit_def digit_code_def by (subst byte_of_char_of) (auto simp: less_diff_conv)

lemma digit_code_facts:
  assumes "v < 64"
  shows "digit_code url v < 128 \<and> digit_code url v \<noteq> 61 \<and> digit_code url v \<noteq> 46"
  using assms by (auto simp: digit_code_def)

lemma b64_value_code:
  assumes "v < 64" and "byte_of c = digit_code url v"
  shows "b64_value url c = Some v"
proof -
  consider "v < 26" | "26 \<le> v" "v < 52" | "52 \<le> v" "v < 62" | "v = 62" | "v = 63"
    using assms(1) by linarith
  then show ?thesis
    using assms(2) by cases (auto simp: b64_value_def digit_code_def Let_def)
qed

lemma b64_digit_facts [simp]:
  assumes "v < 64"
  shows "b64_value url (b64_digit url v) = Some v" and "b64_digit url v \<noteq> CHR ''=''"
    and "b64_digit url v \<noteq> CHR ''.''" and "byte_of (b64_digit url v) < 128"
proof -
  note code = byte_of_digit [OF assms, of url] digit_code_facts [OF assms, of url]
  show "b64_value url (b64_digit url v) = Some v" using assms code(1) by (rule b64_value_code)
  have "byte_of (CHR ''='') = 61" "byte_of (CHR ''.'') = 46" by (simp_all add: byte_of_def)
  with code show "b64_digit url v \<noteq> CHR ''=''" "b64_digit url v \<noteq> CHR ''.''" by metis+
  show "byte_of (b64_digit url v) < 128" using code by simp
qed

lemma b64_run_digit:
  assumes "v < 64"
  shows "b64_run url q left pads (b64_digit url v # cs) =
    (if q = 0 then b64_run url 1 v 0 cs
     else if q = 1 then map_option ((#) (left * 4 + v div 16)) (b64_run url 2 (v mod 16) 0 cs)
     else if q = 2 then map_option ((#) (left * 16 + v div 4)) (b64_run url 3 (v mod 4) 0 cs)
     else map_option ((#) (left * 64 + v)) (b64_run url 0 0 0 cs))"
  using assms by simp

lemma small_digits:
  "a < 256 \<Longrightarrow> a div 4 < (64 :: nat)" "b < 256 \<Longrightarrow> (a mod 4) * 16 + b div 16 < (64 :: nat)"
  "c < 256 \<Longrightarrow> (b mod 16) * 4 + c div 64 < (64 :: nat)" "c mod 64 < (64 :: nat)"
  "(a mod 4) * 16 < (64 :: nat)" "(b mod 16) * 4 < (64 :: nat)"
proof -
  have m: "a mod 4 < 4" "b mod 16 < 16" by simp_all
  show "a < 256 \<Longrightarrow> a div 4 < 64" by (simp add: less_mult_imp_div_less)
  show "(a mod 4) * 16 + b div 16 < 64" if "b < 256"
  proof -
    have "b div 16 < 16" using that by (simp add: less_mult_imp_div_less)
    with m show ?thesis by linarith
  qed
  show "(b mod 16) * 4 + c div 64 < 64" if "c < 256"
  proof -
    have "c div 64 < 4" using that by (simp add: less_mult_imp_div_less)
    with m show ?thesis by linarith
  qed
  show "c mod 64 < 64" "(a mod 4) * 16 < 64" "(b mod 16) * 4 < 64" using m by simp_all
qed

lemma b64_digits_small: "\<forall>b \<in> set bs. b < 256 \<Longrightarrow> v \<in> set (b64_digits bs) \<Longrightarrow> v < 64"
  by (induction bs rule: b64_digits.induct) (auto simp: small_digits)

lemma pack: "y < n \<Longrightarrow> (x * n + y) div n = x" "y < n \<Longrightarrow> (x * n + y) mod n = y" for x y n :: nat
  by simp_all

lemma join_bits:
  "b < 256 \<Longrightarrow> (a div 4) * 4 + ((a mod 4) * 16 + b div 16) div 16 = a"
  "b < 256 \<Longrightarrow> c < 256 \<Longrightarrow>
     ((a mod 4) * 16 + b div 16) mod 16 * 16 + ((b mod 16) * 4 + c div 64) div 4 = b"
  "c < 256 \<Longrightarrow> ((b mod 16) * 4 + c div 64) mod 4 * 64 + c mod 64 = c"
  for a b c :: nat
proof -
  have d: "b < 256 \<Longrightarrow> b div 16 < 16" "c < 256 \<Longrightarrow> c div 64 < 4"
    by (simp_all add: less_mult_imp_div_less)
  show "b < 256 \<Longrightarrow> (a div 4) * 4 + ((a mod 4) * 16 + b div 16) div 16 = a"
    by (simp only: pack d div_mult_mod_eq)
  show "b < 256 \<Longrightarrow> c < 256 \<Longrightarrow>
     ((a mod 4) * 16 + b div 16) mod 16 * 16 + ((b mod 16) * 4 + c div 64) div 4 = b"
    by (simp only: pack d div_mult_mod_eq)
  show "c < 256 \<Longrightarrow> ((b mod 16) * 4 + c div 64) mod 4 * 64 + c mod 64 = c"
    by (simp only: pack d div_mult_mod_eq)
qed

lemma pad_for_simps [simp]: "pad_for (Suc (Suc (Suc (Suc n)))) = pad_for n" "pad_for 0 = []"
    "pad_for (Suc (Suc 0)) = ''==''" "pad_for (Suc (Suc (Suc 0))) = ''=''"
  by (simp_all add: pad_for_def mod_Suc numeral_2_eq_2)

lemma b64_run_quad:
  assumes "p < 64" and "q < 64" and "r < 64" and "s < 64"
  shows "b64_run url 0 0 0 (b64_digit url p # b64_digit url q # b64_digit url r # b64_digit url s # cs) =
    map_option (\<lambda>bs. (p * 4 + q div 16) # (q mod 16 * 16 + r div 4) # (r mod 4 * 64 + s) # bs)
      (b64_run url 0 0 0 cs)"
  by (simp only: b64_run_digit [OF assms(1)] b64_run_digit [OF assms(2)] b64_run_digit [OF assms(3)]
      b64_run_digit [OF assms(4)]) (simp add: option.map_comp comp_def)

lemma b64_run_two:
  assumes "p < 64" and "q < 64"
  shows "b64_run url 0 0 0 (b64_digit url p # b64_digit url q # ''=='') = Some [p * 4 + q div 16]"
  by (simp only: b64_run_digit [OF assms(1)] b64_run_digit [OF assms(2)]) simp

lemma b64_run_three:
  assumes "p < 64" and "q < 64" and "r < 64"
  shows "b64_run url 0 0 0 (b64_digit url p # b64_digit url q # b64_digit url r # ''='') =
    Some [p * 4 + q div 16, q mod 16 * 16 + r div 4]"
  by (simp only: b64_run_digit [OF assms(1)] b64_run_digit [OF assms(2)] b64_run_digit [OF assms(3)]) simp

lemma b64_run_digits:
  "\<forall>b \<in> set bs. b < 256 \<Longrightarrow>
   b64_run url 0 0 0 (map (b64_digit url) (b64_digits bs) @ pad_for (length (b64_digits bs))) = Some bs"
proof (induction bs rule: b64_digits.induct)
  case 1
  then show ?case by simp
next
  case (2 a)
  then show ?case using b64_run_two [of "a div 4" "a mod 4 * 16" url] join_bits(1) [of 0 a] small_digits(1,5)
    by simp
next
  case (3 a b)
  then show ?case
    using b64_run_three [of "a div 4" "a mod 4 * 16 + b div 16" "b mod 16 * 4" url]
      join_bits(1) [of b a] join_bits(2) [of b 0 a] small_digits(1,2,6)
    by simp
next
  case (4 a b c r)
  then have small: "a < 256" "b < 256" "c < 256" by simp_all
  have "b64_digits (a # b # c # r) =
      a div 4 # ((a mod 4) * 16 + b div 16) # ((b mod 16) * 4 + c div 64) # (c mod 64) # b64_digits r"
    by simp
  then show ?case
    using b64_run_quad [OF small_digits(1) [OF small(1)] small_digits(2) [OF small(2), of a]
        small_digits(3) [OF small(3), of b] small_digits(4) [of c], of url]
      join_bits(1) [OF small(2), of a] join_bits(2) [OF small(2,3), of a] join_bits(3) [OF small(3), of b] 4
    by (simp only: list.map append_Cons length_Cons pad_for_simps option.map) simp
qed

lemma char_of_byte_of [simp]: "map char_of (map byte_of s) = s"
  by (induction s) (simp_all add: byte_of_def)

lemma byte_of_less [simp]: "byte_of c < 256"
  by (simp add: byte_of_def)

lemma b64decode_encode: "b64decode url (b64encode url s) = Some s"
proof -
  let ?ds = "b64_digits (map byte_of s)"
  have small: "v < 64" if "v \<in> set ?ds" for v
    by (rule b64_digits_small [OF _ that]) simp
  have "\<not> list_ex (\<lambda>c. 128 \<le> byte_of c) (b64encode url s)"
    using small by (auto simp: b64encode_def Let_def list_ex_iff pad_for_def byte_of_def [of "CHR ''=''"] not_le)
  moreover have "b64_run url 0 0 0 (b64encode url s) = Some (map byte_of s)"
    unfolding b64encode_def Let_def by (rule b64_run_digits) simp
  ultimately show ?thesis by (simp add: b64decode_def del: map_map)
qed

lemma rstrip_replicate:
  assumes "\<forall>c \<in> set s. c \<noteq> p"
  shows "rstrip_char p (s @ replicate n p) = s"
proof -
  have "dropWhile (\<lambda>x. x = p) (replicate n p @ rev s) = dropWhile (\<lambda>x. x = p) (rev s)"
    by (rule dropWhile_append2) simp
  also have "\<dots> = rev s" using assms by (cases "rev s") (auto simp: dropWhile_eq_self_iff)
  finally show ?thesis by (simp add: rstrip_char_def)
qed

lemma b64e_eq: "b64e s = map (b64_digit True) (b64_digits (map byte_of s))"
proof -
  have "\<forall>c \<in> set (map (b64_digit True) (b64_digits (map byte_of s))). c \<noteq> CHR ''=''"
    using b64_digits_small [of "map byte_of s"] by auto
  then show ?thesis unfolding b64e_def b64encode_def Let_def pad_for_def by (rule rstrip_replicate)
qed

lemma b64d_b64e [simp]: "b64d (b64e s) = Some s"
proof -
  have "b64e s @ pad_for (length (b64e s)) = b64encode True s"
    by (simp add: b64e_eq b64encode_def Let_def)
  then show ?thesis by (simp add: b64d_def b64decode_encode)
qed

lemma dot_free_b64e: "CHR ''.'' \<notin> set (b64e s)"
  using b64_digits_small [of "map byte_of s"]
  by (auto simp: b64e_eq dest: b64_digit_facts(3) [THEN not_sym, THEN notE])

lemma dot_free_b64encode: "CHR ''.'' \<notin> set (b64encode url s)"
  using b64_digits_small [of "map byte_of s"] 
  by (auto simp: b64encode_def Let_def pad_for_def dest: b64_digit_facts(3) [THEN not_sym, THEN notE])

lemma split_max_cut:
  "sep \<notin> set s \<Longrightarrow> split_max sep (Suc n) (s @ sep # rest) = s # split_max sep n rest"
  by (simp add: dropWhile_append takeWhile_append)

lemma split_token:
  "split_max (CHR ''.'') 2 (TOKEN_PREFIX @ ''.'' @ b64e nonce @ ''.'' @ ct) = [TOKEN_PREFIX, b64e nonce, ct]"
  using split_max_cut [of "CHR ''.''" TOKEN_PREFIX "Suc 0" "b64e nonce @ ''.'' @ ct"]
    split_max_cut [OF dot_free_b64e, of 0 nonce ct]
  by (simp add: numeral_2_eq_2 TOKEN_PREFIX_def del: split_max.simps(2))

lemma decrypt_encrypt:
  "decrypt unseal key (encrypt seal key nonce p ctx) ctx' =
     (case unseal key nonce (seal key nonce p ctx) ctx' of Some q \<Rightarrow> Inr q | None \<Rightarrow> Inl wrong_key)"
  unfolding decrypt_def encrypt_def split_token by simp

text \<open>The laws of the primitives: what is sealed opens under the same key, nonce and context, and
  Windows unprotects what it protected.\<close>

definition primitives_laws :: "primitives \<Rightarrow> bool" where
  "primitives_laws P =
     ((\<forall>key nonce p ctx. pm_unseal P key nonce (pm_seal P key nonce p ctx) ctx = Some p) \<and>
      (\<forall>b c. pm_protect P b = Inr c \<longrightarrow> pm_unprotect P c = Inr b))"

lemma drop_mark [simp]: "drop (length m) (m @ s) = s"
  by simp

lemma marks_distinct:
  "\<not> prefix SCRYPT_MARK (DPAPI_MARK @ s)" "\<not> prefix SCRYPT_MARK (PLAIN_MARK @ s)"
  "\<not> prefix DPAPI_MARK (PLAIN_MARK @ s)"
  by (simp_all add: SCRYPT_MARK_def DPAPI_MARK_def PLAIN_MARK_def)

lemma b64_or_error_encode [simp]: "b64_or_error (b64encode False s) = Inr s"
  by (simp add: b64_or_error_def b64decode_encode)

lemma split_blob: "split_max (CHR ''.'') 1 (b64encode False salt @ ''.'' @ token) = [b64encode False salt, token]"
  using split_max_cut [OF dot_free_b64encode, of 0 False salt token]
  by (simp del: split_max.simps(2))

lemma unwrap_scrypt:
  assumes "primitives_laws P" and "pass \<noteq> []"
    and "wrap_key P salt nonce key (Some pass) dpapi = Inr blob"
  shows "unwrap_key P blob (Some pass) = Inr key"
proof -
  obtain box where box: "new_box (derive_key P pass salt) = Inr box"
    and blob: "blob = SCRYPT_MARK @ b64encode False salt @ ''.'' @ encrypt (pm_seal P) box nonce key []"
    using assms(2,3) by (auto simp: wrap_key_def split: sum.splits)
  have "decrypt (pm_unseal P) box (encrypt (pm_seal P) box nonce key []) [] = Inr key"
    using assms(1) by (simp add: decrypt_encrypt primitives_laws_def)
  then show ?thesis
    using assms(2) unfolding unwrap_key_def blob drop_mark split_blob by (simp add: box)
qed

lemma unwrap_plain:
  assumes "primitives_laws P" and "passphrase = None \<or> passphrase = Some []"
    and "wrap_key P salt nonce key passphrase dpapi = Inr blob"
  shows "unwrap_key P blob passphrase' = Inr key"
proof (cases dpapi)
  case True
  with assms(2,3) obtain c where c: "pm_protect P key = Inr c" and blob: "blob = DPAPI_MARK @ b64encode False c"
    by (cases "pm_protect P key") (auto simp: wrap_key_def)
  show ?thesis
    using c assms(1) unfolding unwrap_key_def blob drop_mark
    by (simp add: primitives_laws_def marks_distinct)
next
  case False
  with assms(2,3) have blob: "blob = PLAIN_MARK @ b64encode False key" by (auto simp: wrap_key_def)
  show ?thesis unfolding unwrap_key_def blob drop_mark by (simp add: marks_distinct)
qed

subsection \<open>Properties\<close>

text \<open>A token carries the nonce and the ciphertext exactly. Decrypting what \<open>encrypt\<close>
  produced, under the same key and any context, answers what the cipher answers for that nonce,
  that ciphertext and that context: the plaintext, or the wrong-key error, never a format error.\<close>

theorem secretbox_roundtrip:
  "decrypt unseal key (encrypt seal key nonce plaintext ctx) ctx' =
     (case unseal key nonce (seal key nonce plaintext ctx) ctx' of
        Some q \<Rightarrow> Inr q | None \<Rightarrow> Inl wrong_key)"
  by (rule decrypt_encrypt)

text \<open>The master key survives a restart. Whatever protection it was written under (passphrase,
  Windows, none), reading the file back with the same passphrase gives the key that was made on
  the first run and leaves the file as it is, provided the primitives open what they seal.\<close>

theorem master_key_survives_restart:
  assumes "primitives_laws P"
    and "load_or_create_master_key P fresh salt nonce None passphrase dpapi = Inr (key, blob)"
  shows "key = fresh \<and>
    load_or_create_master_key P fresh' salt' nonce' (Some blob) passphrase dpapi' = Inr (fresh, blob)"
proof -
  define d where "d = (case dpapi of None \<Rightarrow> dpapi_available P | Some b \<Rightarrow> b)"
  have wrap: "wrap_key P salt nonce fresh passphrase d = Inr blob" and key: "key = fresh"
    using assms(2) unfolding load_or_create_master_key_def Let_def d_def [symmetric]
    by (cases "wrap_key P salt nonce fresh passphrase d"; simp)+
  have "unwrap_key P blob passphrase = Inr fresh"
  proof (cases "passphrase = None \<or> passphrase = Some []")
    case True
    then show ?thesis by (rule unwrap_plain [OF assms(1) _ wrap])
  next
    case False
    then obtain pass where "passphrase = Some pass" "pass \<noteq> []" by auto
    with unwrap_scrypt [OF assms(1), of pass] wrap show ?thesis by blast
  qed
  with key show ?thesis by (simp add: load_or_create_master_key_def Let_def)
qed

definition xor_free :: primitives where
  "xor_free =
     \<lparr>pm_seal = (\<lambda>key nonce p ctx. key @ p @ ctx),
      pm_unseal = (\<lambda>key nonce c ctx.
        let body = drop (length key) c; p = take (length body - length ctx) body
        in if take (length key) c = key \<and> drop (length p) body = ctx then Some p else None),
      pm_kdf = (\<lambda>pass salt n. take 32 (pass @ replicate 32 (CHR ''k''))),
      pm_protect = (\<lambda>b. Inr (b @ ''!'')), pm_unprotect = (\<lambda>c. Inr (butlast c)),
      pm_dpapi_available = False\<rparr>"

theorem master_key_survives_restart_witness:
  "\<exists>blob. load_or_create_master_key xor_free ''K'' ''salt'' ''n'' None (Some ''pw'') None = Inr (''K'', blob) \<and>
     load_or_create_master_key xor_free ''other'' ''s2'' ''n2'' (Some blob) (Some ''pw'') (Some True) =
       Inr (''K'', blob)"
proof -
  have laws: "primitives_laws xor_free" by (simp add: primitives_laws_def xor_free_def Let_def)
  have "length (derive_key xor_free ''pw'' ''salt'') = KEY_SIZE"
    by (simp add: derive_key_def xor_free_def KEY_SIZE_def)
  then obtain blob where made:
    "load_or_create_master_key xor_free ''K'' ''salt'' ''n'' None (Some ''pw'') None = Inr (''K'', blob)"
    by (simp add: load_or_create_master_key_def wrap_key_def new_box_def)
  with master_key_survives_restart [OF laws made] show ?thesis by blast
qed

end
