(* ===== verification/Vault.thy ===== *)
theory Vault
  imports Crypto Events
begin

section \<open>The credential vault (vault.py)\<close>

text \<open>
  A table of encrypted secrets keyed by cleaned name. A call returns its value or the exception
  it raises, together with the vault it leaves (a failed decryption still counts as a use). The
  cipher is a parameter (\<open>seal\<close>, \<open>unseal\<close>), the clock and nonces are arguments.
\<close>

definition REF_PREFIX :: string where "REF_PREFIX = ''vault://''"

record secret_row =
  sc_name :: string
  sc_value_enc :: string
  sc_kind :: string
  sc_note :: string
  sc_created_at :: instant
  sc_updated_at :: instant
  sc_used_at :: "instant option"
  sc_use_count :: nat

record vault =
  vt_rows :: "secret_row list"
  vt_key :: string
  vt_bus :: "bus option"

record secret_info =
  si_name :: string
  si_kind :: string
  si_note :: string
  si_created_at :: instant
  si_updated_at :: instant
  si_used_at :: "instant option"
  si_use_count :: nat

definition secret_info_of :: "secret_row \<Rightarrow> secret_info" where
  "secret_info_of r =
     \<lparr>si_name = sc_name r, si_kind = sc_kind r, si_note = sc_note r, si_created_at = sc_created_at r,
      si_updated_at = sc_updated_at r, si_used_at = sc_used_at r, si_use_count = sc_use_count r\<rparr>"

definition is_ref :: "pyval \<Rightarrow> bool" where
  "is_ref v = (case v of PStr s \<Rightarrow> prefix REF_PREFIX s | _ \<Rightarrow> False)"

definition ref_name :: "string \<Rightarrow> string" where
  "ref_name s = drop (length REF_PREFIX) s"

definition clean_name :: "string \<Rightarrow> exn + string" where
  "clean_name name =
     (let cleaned = map (\<lambda>c. if c = CHR '' '' then CHR ''_'' else c) (lower (strip name))
      in if cleaned = [] then
           Inl (PyExn ''ValueError'' (''Nazwa sekretu nie mo'' @ pl_z @ ''e by'' @ pl_c @ '' pusta''))
         else if prefix REF_PREFIX cleaned then Inr (ref_name cleaned)
         else Inr cleaned)"

definition vault_announce :: "instant \<Rightarrow> string \<Rightarrow> string \<Rightarrow> vault \<Rightarrow> vault" where
  "vault_announce now what name v =
     v\<lparr>vt_bus := map_option (emit now (topic_name VAULT_CHANGED)
         [(''name'', EvVal (PStr name)), (''action'', EvVal (PStr what))]) (vt_bus v)\<rparr>"

subsection \<open>Writing\<close>

definition upsert_secret ::
  "instant \<Rightarrow> string \<Rightarrow> string \<Rightarrow> string \<Rightarrow> string \<Rightarrow> secret_row list \<Rightarrow> secret_row list" where
  "upsert_secret now name token kind note rows =
     (if row_by sc_name name rows = None
      then rows @ [\<lparr>sc_name = name, sc_value_enc = token, sc_kind = kind, sc_note = note,
                    sc_created_at = now, sc_updated_at = now, sc_used_at = None, sc_use_count = 0\<rparr>]
      else update_where (\<lambda>r. sc_name r = name)
             (\<lambda>r. r\<lparr>sc_value_enc := token, sc_kind := kind, sc_note := note, sc_updated_at := now\<rparr>) rows)"

definition vault_info :: "string \<Rightarrow> vault \<Rightarrow> exn + secret_info option" where
  "vault_info name v =
     map_sum id (\<lambda>n. map_option secret_info_of (row_by sc_name n (vt_rows v))) (clean_name name)"

definition vault_set ::
  "seal \<Rightarrow> string \<Rightarrow> instant \<Rightarrow> string \<Rightarrow> string \<Rightarrow> string \<Rightarrow> string \<Rightarrow> vault \<Rightarrow>
   (exn + secret_info) \<times> vault" where
  "vault_set seal nonce now name val kind note v =
     (case clean_name name of
        Inl e \<Rightarrow> (Inl e, v)
      | Inr n \<Rightarrow>
          let token = encrypt seal (vt_key v) nonce val (''vault:'' @ n);
              v' = v\<lparr>vt_rows := upsert_secret now n token kind note (vt_rows v)\<rparr>
          in case vault_info n v' of
               Inl e \<Rightarrow> (Inl e, v')
             | Inr None \<Rightarrow> (Inl (Garis (mk_error StoreError
                  (''Nie uda'' @ pl_l @ ''o si'' @ pl_e @ '' zapisa'' @ pl_c @ '' sekretu '' @ repr_str n) None)), v')
             | Inr (Some info) \<Rightarrow> (Inr info, vault_announce now ''set'' n v'))"

definition vault_delete :: "instant \<Rightarrow> string \<Rightarrow> vault \<Rightarrow> (exn + bool) \<times> vault" where
  "vault_delete now name v =
     (case clean_name name of
        Inl e \<Rightarrow> (Inl e, v)
      | Inr n \<Rightarrow>
          let rows = filter (\<lambda>r. sc_name r \<noteq> n) (vt_rows v);
              deleted = (length rows < length (vt_rows v));
              v' = v\<lparr>vt_rows := rows\<rparr>
          in (Inr deleted, if deleted then vault_announce now ''deleted'' n v' else v'))"

subsection \<open>Reading\<close>

definition vault_get :: "unseal \<Rightarrow> instant \<Rightarrow> string \<Rightarrow> vault \<Rightarrow> (exn + string) \<times> vault" where
  "vault_get unseal now name v =
     (case clean_name name of
        Inl e \<Rightarrow> (Inl e, v)
      | Inr n \<Rightarrow>
          (case row_by sc_name n (vt_rows v) of
             None \<Rightarrow> (Inl (PyExn ''KeyError'' (repr_str n)), v)
           | Some row \<Rightarrow>
               (decrypt unseal (vt_key v) (sc_value_enc row) (''vault:'' @ n),
                v\<lparr>vt_rows := update_where (\<lambda>r. sc_name r = n)
                    (\<lambda>r. r\<lparr>sc_used_at := Some now, sc_use_count := sc_use_count r + 1\<rparr>) (vt_rows v)\<rparr>)))"

definition is_key_error :: "exn \<Rightarrow> bool" where
  "is_key_error x = (case x of PyExn t m \<Rightarrow> t = ''KeyError'' | _ \<Rightarrow> False)"

definition vault_get_optional :: "unseal \<Rightarrow> instant \<Rightarrow> string \<Rightarrow> vault \<Rightarrow> (exn + string option) \<times> vault" where
  "vault_get_optional unseal now name v =
     (case vault_get unseal now name v of
        (Inr s, v') \<Rightarrow> (Inr (Some s), v')
      | (Inl e, v') \<Rightarrow> if is_key_error e then (Inr None, v') else (Inl e, v'))"

definition vault_has :: "string \<Rightarrow> vault \<Rightarrow> exn + bool" where
  "vault_has name v = map_sum id (\<lambda>n. row_by sc_name n (vt_rows v) \<noteq> None) (clean_name name)"

definition vault_list :: "vault \<Rightarrow> secret_info list" where
  "vault_list v = map secret_info_of (sort_key sc_name (vt_rows v))"

text \<open>\<open>rename\<close>: read, write under the new name, delete the old one.\<close>

definition vault_rename ::
  "seal \<Rightarrow> unseal \<Rightarrow> string \<Rightarrow> instant \<Rightarrow> string \<Rightarrow> string \<Rightarrow> vault \<Rightarrow> (exn + unit) \<times> vault" where
  "vault_rename seal unseal nonce now old new v =
     (case vault_get unseal now old v of
        (Inl e, v1) \<Rightarrow> (Inl e, v1)
      | (Inr val, v1) \<Rightarrow>
          (case vault_info old v1 of
             Inl e \<Rightarrow> (Inl e, v1)
           | Inr current \<Rightarrow>
               let kind = (case current of None \<Rightarrow> ''token'' | Some i \<Rightarrow> si_kind i);
                   note = (case current of None \<Rightarrow> [] | Some i \<Rightarrow> si_note i)
               in case vault_set seal nonce now new val kind note v1 of
                    (Inl e, v2) \<Rightarrow> (Inl e, v2)
                  | (Inr i, v2) \<Rightarrow>
                      (case vault_delete now old v2 of
                         (Inl e, v3) \<Rightarrow> (Inl e, v3)
                       | (Inr d, v3) \<Rightarrow> (Inr (), v3))))"

subsection \<open>Resolving references\<close>

definition missing_secret :: "string \<Rightarrow> exn" where
  "missing_secret name =
     Garis (mk_error StoreError (''Brak sekretu '' @ repr_str name @ '' w sejfie'')
       (Some (''Nie mam zapisanego dost'' @ pl_e @ ''pu '' @ [CHR 0xE2, CHR 0x80, CHR 0x9E] @ name @
              [CHR 0xE2, CHR 0x80, CHR 0x9D] @ ''. Podasz go?'')))"

definition vault_resolve :: "unseal \<Rightarrow> instant \<Rightarrow> string \<Rightarrow> vault \<Rightarrow> (exn + string) \<times> vault" where
  "vault_resolve unseal now val v =
     (if \<not> is_ref (PStr val) then (Inr val, v)
      else (case vault_get unseal now (ref_name val) v of
          (Inl e, v') \<Rightarrow> (Inl (if is_key_error e then missing_secret (ref_name val) else e), v')
        | (Inr s, v') \<Rightarrow> (Inr s, v')))"

text \<open>The walk threads the vault and the names used; an exception stops it.\<close>

fun walk_node :: "unseal \<Rightarrow> instant \<Rightarrow> pyval \<Rightarrow> string list \<times> vault \<Rightarrow> (exn + pyval) \<times> string list \<times> vault"
  and walk_list :: "unseal \<Rightarrow> instant \<Rightarrow> pyval list \<Rightarrow> string list \<times> vault \<Rightarrow> (exn + pyval list) \<times> string list \<times> vault"
  and walk_dict :: "unseal \<Rightarrow> instant \<Rightarrow> pydict \<Rightarrow> string list \<times> vault \<Rightarrow> (exn + pydict) \<times> string list \<times> vault" where
  "walk_node unseal now (PStr s) (used, v) =
     (if is_ref (PStr s) then
        (case vault_resolve unseal now s v of
           (r, v') \<Rightarrow> (map_sum id PStr r, used @ [ref_name s], v'))
      else (Inr (PStr s), used, v))"
| "walk_node unseal now (PDict d) st =
     (case walk_dict unseal now d st of (r, st') \<Rightarrow> (map_sum id PDict r, st'))"
| "walk_node unseal now (PList xs) st =
     (case walk_list unseal now xs st of (r, st') \<Rightarrow> (map_sum id PList r, st'))"
| "walk_node unseal now val st = (Inr val, st)"
| "walk_list unseal now [] st = (Inr [], st)"
| "walk_list unseal now (x # xs) st =
     (case walk_node unseal now x st of
        (Inl e, st') \<Rightarrow> (Inl e, st')
      | (Inr y, st') \<Rightarrow> (case walk_list unseal now xs st' of (r, st'') \<Rightarrow> (map_sum id ((#) y) r, st'')))"
| "walk_dict unseal now [] st = (Inr [], st)"
| "walk_dict unseal now ((k, x) # xs) st =
     (case walk_node unseal now x st of
        (Inl e, st') \<Rightarrow> (Inl e, st')
      | (Inr y, st') \<Rightarrow> (case walk_dict unseal now xs st' of (r, st'') \<Rightarrow> (map_sum id ((#) (k, y)) r, st'')))"

definition resolve_tree :: "unseal \<Rightarrow> instant \<Rightarrow> pydict \<Rightarrow> vault \<Rightarrow> (exn + pydict \<times> string list) \<times> vault" where
  "resolve_tree unseal now params v =
     (case walk_dict unseal now params ([], v) of
        (Inl e, used, v') \<Rightarrow> (Inl e, v')
      | (Inr out, used, v') \<Rightarrow> (Inr (out, used), v'))"

subsection \<open>The vault as a map from names to secrets\<close>

text \<open>What a name opens to: nothing, the secret, or the error of a damaged row.\<close>

definition secret_of :: "unseal \<Rightarrow> vault \<Rightarrow> string \<Rightarrow> (exn + string) option" where
  "secret_of unseal v n =
     map_option (\<lambda>r. decrypt unseal (vt_key v) (sc_value_enc r) (''vault:'' @ n))
       (row_by sc_name n (vt_rows v))"

definition opens :: "seal \<Rightarrow> unseal \<Rightarrow> bool" where
  "opens seal unseal = (\<forall>key nonce p ctx. unseal key nonce (seal key nonce p ctx) ctx = Some p)"

lemma announce_simps [simp]:
  "vt_rows (vault_announce now a n v) = vt_rows v" "vt_key (vault_announce now a n v) = vt_key v"
  "secret_of unseal (vault_announce now a n v) = secret_of unseal v"
  by (simp_all add: vault_announce_def secret_of_def fun_eq_iff)

lemma row_by_upsert:
  "row_by sc_name m (upsert_secret now n token kind note rows) =
     (if m = n then
        Some (case row_by sc_name n rows of
            None \<Rightarrow> \<lparr>sc_name = n, sc_value_enc = token, sc_kind = kind, sc_note = note,
                    sc_created_at = now, sc_updated_at = now, sc_used_at = None, sc_use_count = 0\<rparr>
          | Some r \<Rightarrow> r\<lparr>sc_value_enc := token, sc_kind := kind, sc_note := note, sc_updated_at := now\<rparr>)
      else row_by sc_name m rows)"
proof (cases "row_by sc_name n rows")
  case None
  then show ?thesis by (auto simp: upsert_secret_def row_by_append split: option.splits)
next
  case (Some r)
  then have u: "upsert_secret now n token kind note rows = update_where (\<lambda>r. sc_name r = n)
      (\<lambda>r. r\<lparr>sc_value_enc := token, sc_kind := kind, sc_note := note, sc_updated_at := now\<rparr>) rows"
    by (simp only: upsert_secret_def option.distinct if_False)
  show ?thesis unfolding u by (subst row_by_update_key) (simp_all add: Some)
qed

lemma row_by_filter_neq:
  "row_by key m (filter (\<lambda>r. key r \<noteq> n) rows) = (if m = n then None else row_by key m rows)"
proof (cases "m = n")
  case True
  then show ?thesis by (auto simp: image_iff)
next
  case False
  then show ?thesis by (induction rows) auto
qed

lemma info_after_set:
  "vault_info n (v\<lparr>vt_rows := upsert_secret now m token kind note rows\<rparr>) = Inr None \<Longrightarrow>
   clean_name n = Inr m \<Longrightarrow> False"
  by (simp add: vault_info_def row_by_upsert)

text \<open>Cleaning twice: a cleaned name that kept no prefix cleans to itself.\<close>

lemma lower_char_idem [simp]: "lower_char (lower_char c) = lower_char c"
proof -
  have "byte_of (char_of (byte_of c + 32)) = byte_of c + 32" if "byte_of c \<le> 90"
    using that by (intro byte_of_char_of) simp
  then show ?thesis by (auto simp: lower_char_def)
qed

lemma set_secret:
  assumes "opens seal unseal" and "clean_name name = Inr n" and "clean_name n = Inr n"
  shows "fst (vault_set seal nonce now name val kind note v) \<in> range Inr \<and>
    secret_of unseal (snd (vault_set seal nonce now name val kind note v)) =
      (secret_of unseal v)(n \<mapsto> Inr val)"
proof -
  let ?t = "encrypt seal (vt_key v) nonce val (''vault:'' @ n)"
  let ?v = "v\<lparr>vt_rows := upsert_secret now n ?t kind note (vt_rows v)\<rparr>"
  have dec: "decrypt unseal (vt_key v) ?t (''vault:'' @ n) = Inr val"
    using assms(1) by (simp add: decrypt_encrypt opens_def)
  have "\<exists>info. vault_info n ?v = Inr (Some info)"
    using assms(3) by (simp add: vault_info_def row_by_upsert)
  then obtain info where info: "vault_info n ?v = Inr (Some info)" by blast
  have "secret_of unseal ?v = (secret_of unseal v)(n \<mapsto> Inr val)"
    using dec by (auto simp: secret_of_def row_by_upsert fun_eq_iff split: option.splits)
  then show ?thesis using assms(2) info by (simp add: vault_set_def Let_def)
qed

lemma delete_secret:
  assumes "clean_name name = Inr n"
  shows "fst (vault_delete now name v) = Inr (secret_of unseal v n \<noteq> None)"
    and "secret_of unseal (snd (vault_delete now name v)) = (secret_of unseal v)(n := None)"
proof -
  have "length (filter (\<lambda>r. sc_name r \<noteq> n) rows) < length rows \<longleftrightarrow> n \<in> sc_name ` set rows" for rows
    by (induction rows) (auto simp: less_Suc_eq_le)
  then show "fst (vault_delete now name v) = Inr (secret_of unseal v n \<noteq> None)"
    using assms by (simp add: vault_delete_def Let_def secret_of_def)
  have "secret_of unseal (v\<lparr>vt_rows := filter (\<lambda>r. sc_name r \<noteq> n) (vt_rows v)\<rparr>) = (secret_of unseal v)(n := None)"
    by (auto simp: secret_of_def row_by_filter_neq fun_eq_iff)
  then show "secret_of unseal (snd (vault_delete now name v)) = (secret_of unseal v)(n := None)"
    using assms by (simp add: vault_delete_def Let_def)
qed

lemma get_secret:
  assumes "clean_name name = Inr n"
  shows "fst (vault_get unseal now name v) =
      (case secret_of unseal v n of None \<Rightarrow> Inl (PyExn ''KeyError'' (repr_str n)) | Some r \<Rightarrow> r)"
    and "secret_of unseal' (snd (vault_get unseal now name v)) = secret_of unseal' v"
    and "vt_key (snd (vault_get unseal now name v)) = vt_key v"
proof -
  show "fst (vault_get unseal now name v) =
      (case secret_of unseal v n of None \<Rightarrow> Inl (PyExn ''KeyError'' (repr_str n)) | Some r \<Rightarrow> r)"
    using assms by (cases "row_by sc_name n (vt_rows v)") (auto simp: vault_get_def secret_of_def)
  have used: "row_by sc_name m (update_where (\<lambda>r. sc_name r = n)
      (\<lambda>r. r\<lparr>sc_used_at := Some now, sc_use_count := sc_use_count r + 1\<rparr>) rows) =
    (if m = n then map_option (\<lambda>r. r\<lparr>sc_used_at := Some now, sc_use_count := sc_use_count r + 1\<rparr>)
        (row_by sc_name n rows) else row_by sc_name m rows)" for m rows
    by (rule row_by_update_key) simp
  show "secret_of unseal' (snd (vault_get unseal now name v)) = secret_of unseal' v"
  proof (cases "row_by sc_name n (vt_rows v)")
    case None
    with assms show ?thesis by (simp add: vault_get_def)
  next
    case (Some r)
    with assms show ?thesis
      unfolding vault_get_def by (simp add: secret_of_def fun_eq_iff used [simplified])
  qed
  show "vt_key (snd (vault_get unseal now name v)) = vt_key v"
    using assms by (auto simp: vault_get_def split: option.splits)
qed

subsection \<open>What resolving does\<close>

definition lookup_ref :: "unseal \<Rightarrow> vault \<Rightarrow> string \<Rightarrow> exn + string" where
  "lookup_ref unseal v name =
     (case clean_name name of
        Inl e \<Rightarrow> Inl e
      | Inr n \<Rightarrow> (case secret_of unseal v n of None \<Rightarrow> Inl (missing_secret name)
           | Some (Inl e) \<Rightarrow> Inl (if is_key_error e then missing_secret name else e)
           | Some (Inr s) \<Rightarrow> Inr s))"

fun refs_of :: "pyval \<Rightarrow> string list" where
  "refs_of (PStr s) = (if is_ref (PStr s) then [ref_name s] else [])"
| "refs_of (PDict d) = concat (map (\<lambda>(k, v). refs_of v) d)"
| "refs_of (PList xs) = concat (map refs_of xs)"
| "refs_of v = []"

fun subst_refs :: "(string \<Rightarrow> string) \<Rightarrow> pyval \<Rightarrow> pyval" where
  "subst_refs f (PStr s) = (if is_ref (PStr s) then PStr (f (ref_name s)) else PStr s)"
| "subst_refs f (PDict d) = PDict (map (\<lambda>(k, v). (k, subst_refs f v)) d)"
| "subst_refs f (PList xs) = PList (map (subst_refs f) xs)"
| "subst_refs f v = v"

definition secret_text :: "unseal \<Rightarrow> vault \<Rightarrow> string \<Rightarrow> string" where
  "secret_text unseal v name = (case lookup_ref unseal v name of Inr s \<Rightarrow> s | Inl e \<Rightarrow> [])"

lemma vault_get_frame:
  "secret_of unseal' (snd (vault_get unseal now name v)) = secret_of unseal' v"
  using get_secret(2) by (cases "clean_name name") (simp_all add: vault_get_def)

lemma resolve_lookup:
  assumes "prefix REF_PREFIX s"
  shows "fst (vault_resolve unseal now s v) = lookup_ref unseal v (ref_name s)"
    and "secret_of unseal' (snd (vault_resolve unseal now s v)) = secret_of unseal' v"
proof -
  have r: "is_ref (PStr s)" using assms by (simp add: is_ref_def)
  obtain q v' where g: "vault_get unseal now (ref_name s) v = (q, v')"
    by (cases "vault_get unseal now (ref_name s) v")
  show "secret_of unseal' (snd (vault_resolve unseal now s v)) = secret_of unseal' v"
    using vault_get_frame [of unseal' unseal now "ref_name s" v] r g
    by (auto simp: vault_resolve_def split: sum.splits)
  have ve: "clean_name n = Inl e \<Longrightarrow> \<not> is_key_error e" for n e
    by (auto simp: clean_name_def Let_def is_key_error_def split: if_splits)
  show "fst (vault_resolve unseal now s v) = lookup_ref unseal v (ref_name s)"
  proof (cases "clean_name (ref_name s)")
    case (Inl e)
    with ve [OF Inl] r show ?thesis by (simp add: vault_resolve_def lookup_ref_def vault_get_def)
  next
    case (Inr n)
    with get_secret(1) [OF Inr, of unseal now v] r g show ?thesis
      by (auto simp: vault_resolve_def lookup_ref_def is_key_error_def split: option.splits sum.splits)
  qed
qed

lemma lookup_frame:
  assumes "secret_of unseal v' = secret_of unseal v"
  shows "lookup_ref unseal v' = lookup_ref unseal v"
  unfolding lookup_ref_def assms ..

lemma map_sum_Inr: "map_sum id f r = Inr y \<longleftrightarrow> (\<exists>x. r = Inr x \<and> y = f x)"
  by (cases r) auto

text \<open>What a successful walk over a part with references \<open>rs\<close> leaves.\<close>

definition walked :: "unseal \<Rightarrow> string list \<Rightarrow> string list \<times> vault \<Rightarrow> string list \<times> vault \<Rightarrow> bool" where
  "walked unseal rs st st' =
     (fst st' = fst st @ rs \<and> secret_of unseal (snd st') = secret_of unseal (snd st) \<and>
      (\<forall>n \<in> set rs. lookup_ref unseal (snd st) n \<in> range Inr))"

lemma walked_refl [simp]: "walked unseal [] st st"
  by (simp add: walked_def)

lemma walked_append:
  "walked unseal rs st st' \<Longrightarrow> walked unseal rs' st' st'' \<Longrightarrow> walked unseal (rs @ rs') st st''"
  by (auto simp: walked_def dest: lookup_frame)

lemma walked_text: "walked unseal rs st st' \<Longrightarrow> secret_text unseal (snd st') = secret_text unseal (snd st)"
  unfolding walked_def secret_text_def by (intro ext) (metis lookup_frame)

lemma walk_ok:
  shows "\<forall>y st'. walk_node unseal now x st = (Inr y, st') \<longrightarrow>
      walked unseal (refs_of x) st st' \<and> y = subst_refs (secret_text unseal (snd st)) x"
    and "\<forall>ys st'. walk_list unseal now xs st = (Inr ys, st') \<longrightarrow>
      walked unseal (concat (map refs_of xs)) st st' \<and>
      ys = map (subst_refs (secret_text unseal (snd st))) xs"
    and "\<forall>e st'. walk_dict unseal now d st = (Inr e, st') \<longrightarrow>
      walked unseal (concat (map (\<lambda>(k, w). refs_of w) d)) st st' \<and>
      e = map (\<lambda>(k, w). (k, subst_refs (secret_text unseal (snd st)) w)) d"
proof (induction unseal now x st and unseal now xs st and unseal now d st
    rule: walk_node_walk_list_walk_dict.induct)
  case (1 unseal now s used v)
  show ?case
  proof (cases "prefix REF_PREFIX s")
    case False
    then show ?thesis by (simp add: is_ref_def)
  next
    case True
    obtain r v' where g: "vault_resolve unseal now s v = (r, v')" by (cases "vault_resolve unseal now s v")
    with resolve_lookup(1) [OF True, of unseal now v] resolve_lookup(2) [OF True, of unseal unseal now v] True
    show ?thesis by (auto simp: is_ref_def walked_def secret_text_def map_sum_Inr)
  qed
next
  case (2 unseal now d st)
  then show ?case by (auto simp: map_sum_Inr split: prod.splits)
next
  case (3 unseal now xs st)
  then show ?case by (auto simp: map_sum_Inr split: prod.splits)
next
  case (6 unseal now x xs st)
  show ?case
  proof (intro allI impI)
    fix ys st'
    assume "walk_list unseal now (x # xs) st = (Inr ys, st')"
    then obtain y st1 zs where a: "walk_node unseal now x st = (Inr y, st1)"
      and b: "walk_list unseal now xs st1 = (Inr zs, st')" and ys: "ys = y # zs"
      by (auto simp: map_sum_Inr split: prod.splits sum.splits)
    note A = "6.IH"(1) [rule_format, OF a] and B = "6.IH"(2) [OF a [symmetric] refl, rule_format, OF b]
    show "walked unseal (concat (map refs_of (x # xs))) st st' \<and>
        ys = map (subst_refs (secret_text unseal (snd st))) (x # xs)"
      using walked_append [OF conjunct1 [OF A] conjunct1 [OF B]] A B walked_text [OF conjunct1 [OF A]]
      by (simp add: ys)
  qed
next
  case (8 unseal now k x xs st)
  show ?case
  proof (intro allI impI)
    fix ys st'
    assume "walk_dict unseal now ((k, x) # xs) st = (Inr ys, st')"
    then obtain y st1 zs where a: "walk_node unseal now x st = (Inr y, st1)"
      and b: "walk_dict unseal now xs st1 = (Inr zs, st')" and ys: "ys = (k, y) # zs"
      by (auto simp: map_sum_Inr split: prod.splits sum.splits)
    note A = "8.IH"(1) [rule_format, OF a] and B = "8.IH"(2) [OF a [symmetric] refl, rule_format, OF b]
    show "walked unseal (concat (map (\<lambda>(k, w). refs_of w) ((k, x) # xs))) st st' \<and>
        ys = map (\<lambda>(k, w). (k, subst_refs (secret_text unseal (snd st)) w)) ((k, x) # xs)"
      using walked_append [OF conjunct1 [OF A] conjunct1 [OF B]] A B walked_text [OF conjunct1 [OF A]]
      by (simp add: ys)
  qed
qed simp_all

lemma rename_secret:
  assumes "opens seal unseal" and "clean_name old = Inr m" and "clean_name new = Inr n"
    and "clean_name n = Inr n" and "secret_of unseal v m = Some (Inr s)"
  shows "fst (vault_rename seal unseal nonce now old new v) = Inr () \<and>
    secret_of unseal (snd (vault_rename seal unseal nonce now old new v)) =
      ((secret_of unseal v)(n \<mapsto> Inr s))(m := None)"
proof -
  obtain r v1 where g: "vault_get unseal now old v = (r, v1)" by (cases "vault_get unseal now old v")
  have r: "r = Inr s" and s1: "secret_of unseal v1 = secret_of unseal v"
    using get_secret(1) [OF assms(2), of unseal now v] get_secret(2) [OF assms(2), of unseal unseal now v]
      g assms(5) by simp_all
  obtain cur where cur: "vault_info old v1 = Inr cur" using assms(2) by (simp add: vault_info_def)
  define kind where "kind = (case cur of None \<Rightarrow> ''token'' | Some i \<Rightarrow> si_kind i)"
  define note' where "note' = (case cur of None \<Rightarrow> [] | Some i \<Rightarrow> si_note i)"
  obtain q v2 where st: "vault_set seal nonce now new s kind note' v1 = (q, v2)"
    by (cases "vault_set seal nonce now new s kind note' v1")
  with set_secret [OF assms(1,3,4), of nonce now s kind note' v1] s1
  obtain i where q: "q = Inr i" and s2: "secret_of unseal v2 = (secret_of unseal v)(n \<mapsto> Inr s)" by auto
  obtain d v3 where de: "vault_delete now old v2 = (d, v3)" by (cases "vault_delete now old v2")
  with delete_secret(1) [OF assms(2), of now v2 unseal] delete_secret(2) [OF assms(2), of unseal now v2] s2
  have "d \<in> range Inr" and s3: "secret_of unseal v3 = ((secret_of unseal v)(n \<mapsto> Inr s))(m := None)" by auto
  then obtain b where "d = Inr b" by blast
  then have "vault_rename seal unseal nonce now old new v = (Inr (), v3)"
    using g r cur st q de by (simp add: vault_rename_def Let_def kind_def note'_def)
  with s3 show ?thesis by simp
qed

subsection \<open>Properties\<close>

text \<open>C22: the vault implements a map from names to secrets. Under a cipher that opens what it
  seals, \<open>set\<close> binds exactly one name, \<open>get\<close> answers what is bound (and changes nothing but
  usage counts), \<open>delete\<close> removes exactly one name and says whether it was there.\<close>

theorem vault_refines_map:
  assumes "opens seal unseal" and "clean_name name = Inr n" and "clean_name n = Inr n"
  shows "secret_of unseal (snd (vault_set seal nonce now name val kind note v)) =
      (secret_of unseal v)(n \<mapsto> Inr val) \<and>
    fst (vault_get unseal now name v) =
      (case secret_of unseal v n of None \<Rightarrow> Inl (PyExn ''KeyError'' (repr_str n)) | Some r \<Rightarrow> r) \<and>
    secret_of unseal (snd (vault_get unseal now name v)) = secret_of unseal v \<and>
    fst (vault_delete now name v) = Inr (secret_of unseal v n \<noteq> None) \<and>
    secret_of unseal (snd (vault_delete now name v)) = (secret_of unseal v)(n := None)"
  using set_secret [OF assms] get_secret(1,2) [OF assms(2)] delete_secret(1) [OF assms(2), of now v unseal]
    delete_secret(2) [OF assms(2), of unseal now v]
  by (intro conjI) (simp_all only:)

text \<open>A transparent cipher: a token that opens to its text.\<close>

definition clear_seal :: seal where "clear_seal key nonce p ctx = p"
definition clear_unseal :: unseal where "clear_unseal key nonce c ctx = Some c"

definition empty_vault :: vault where
  "empty_vault = \<lparr>vt_rows = [], vt_key = ''k'', vt_bus = None\<rparr>"

lemma opens_clear: "opens clear_seal clear_unseal"
  by (simp add: opens_def clear_seal_def clear_unseal_def)

lemma clean_api_key: "clean_name ''Api Key'' = Inr ''api_key''" "clean_name ''api_key'' = Inr ''api_key''"
  by code_simp+

theorem vault_refines_map_witness:
  "secret_of clear_unseal
     (snd (vault_set clear_seal ''n'' 5 ''Api Key'' ''s3cret'' ''token'' [] empty_vault)) ''api_key''
   = Some (Inr ''s3cret'')"
proof -
  have "secret_of clear_unseal (snd (vault_set clear_seal ''n'' 5 ''Api Key'' ''s3cret'' ''token'' [] empty_vault)) =
      (secret_of clear_unseal empty_vault)(''api_key'' \<mapsto> Inr ''s3cret'')"
    by (rule vault_refines_map [OF opens_clear clean_api_key, THEN conjunct1])
  then show ?thesis by simp
qed

text \<open>Renaming moves a secret to its new name, unless both names clean to the same one: then
  the secret is written and at once deleted, and the call reports success.\<close>

theorem vault_rename_moves_or_loses:
  assumes "opens seal unseal" and "clean_name old = Inr m" and "clean_name new = Inr n"
    and "clean_name n = Inr n" and "secret_of unseal v m = Some (Inr s)"
  shows "fst (vault_rename seal unseal nonce now old new v) = Inr () \<and>
    secret_of unseal (snd (vault_rename seal unseal nonce now old new v)) n =
      (if n = m then None else Some (Inr s))"
  using rename_secret [OF assms] by simp

theorem vault_rename_moves_or_loses_witness:
  "\<exists>v. secret_of clear_unseal v ''api_key'' = Some (Inr ''s3cret'') \<and>
     fst (vault_rename clear_seal clear_unseal ''n'' 7 ''Api Key'' ''api_key'' v) = Inr () \<and>
     secret_of clear_unseal (snd (vault_rename clear_seal clear_unseal ''n'' 7 ''Api Key'' ''api_key'' v)) ''api_key'' = None"
proof -
  define v where "v = snd (vault_set clear_seal ''n'' 5 ''Api Key'' ''s3cret'' ''token'' [] empty_vault)"
  have s: "secret_of clear_unseal v ''api_key'' = Some (Inr ''s3cret'')"
    using set_secret [OF opens_clear clean_api_key, of "''n''" 5 "''s3cret''" "''token''" "[]" empty_vault]
    by (simp add: v_def)
  show ?thesis
    using vault_rename_moves_or_loses [OF opens_clear clean_api_key(1) clean_api_key(2) clean_api_key(2) s]
      s by (intro exI [of _ v]) simp
qed

text \<open>What a handler is given. When the references of a parameter tree resolve, exactly the
  reference strings were replaced, each by the secret it names, the names used are the
  references in order, and no secret changed.\<close>

theorem resolve_tree_substitutes:
  assumes "resolve_tree unseal now params v = (Inr (out, used), v')"
  shows "out = map (\<lambda>(k, w). (k, subst_refs (secret_text unseal v) w)) params \<and>
    used = concat (map (\<lambda>(k, w). refs_of w) params) \<and>
    (\<forall>n \<in> set used. lookup_ref unseal v n = Inr (secret_text unseal v n)) \<and>
    secret_of unseal v' = secret_of unseal v"
proof -
  have "walk_dict unseal now params ([], v) = (Inr out, used, v')"
    using assms by (auto simp: resolve_tree_def split: prod.splits sum.splits)
  then have w: "walked unseal (concat (map (\<lambda>(k, w). refs_of w) params)) ([], v) (used, v')"
    and out: "out = map (\<lambda>(k, w). (k, subst_refs (secret_text unseal v) w)) params"
    using walk_ok(3) [of unseal now params "([], v)"] by simp_all
  have "lookup_ref unseal v n = Inr (secret_text unseal v n)" if "n \<in> set used" for n
  proof -
    have "lookup_ref unseal v n \<in> range Inr" using w that unfolding walked_def fst_conv snd_conv append_Nil by blast
    then show ?thesis by (auto simp: secret_text_def)
  qed
  with w out show ?thesis by (simp add: walked_def)
qed

theorem resolve_tree_substitutes_witness:
  "fst (resolve_tree clear_unseal 9 [(''auth'', PList [PStr ''vault://api_key'', PStr ''plain''])]
     (snd (vault_set clear_seal ''n'' 5 ''api_key'' ''s3cret'' ''token'' [] empty_vault))) =
   Inr ([(''auth'', PList [PStr ''s3cret'', PStr ''plain''])], [''api_key''])"
proof -
  define v where "v = snd (vault_set clear_seal ''n'' 5 ''api_key'' ''s3cret'' ''token'' [] empty_vault)"
  have s: "secret_of clear_unseal v = (secret_of clear_unseal empty_vault)(''api_key'' \<mapsto> Inr ''s3cret'')"
    using set_secret [OF opens_clear clean_api_key(2,2), of "''n''" 5 "''s3cret''" "''token''" "[]" empty_vault]
    by (simp add: v_def)
  have l: "lookup_ref clear_unseal v ''api_key'' = Inr ''s3cret''"
    by (simp add: lookup_ref_def s clean_api_key)
  have refs: "is_ref (PStr ''vault://api_key'')" "\<not> is_ref (PStr ''plain'')" "ref_name ''vault://api_key'' = ''api_key''"
    by (simp_all add: is_ref_def ref_name_def REF_PREFIX_def)
  obtain r v1 where w: "vault_resolve clear_unseal 9 ''vault://api_key'' v = (r, v1)"
    by (cases "vault_resolve clear_unseal 9 ''vault://api_key'' v")
  then have "r = Inr ''s3cret''"
    using resolve_lookup(1) [of "''vault://api_key''" clear_unseal 9 v] l refs by (simp add: REF_PREFIX_def)
  with w refs obtain out used v' where run:
    "resolve_tree clear_unseal 9 [(''auth'', PList [PStr ''vault://api_key'', PStr ''plain''])] v = (Inr (out, used), v')"
    by (simp add: resolve_tree_def)
  show ?thesis
    using resolve_tree_substitutes [OF run] run refs l by (simp add: v_def [symmetric] secret_text_def)
qed

end
