(* ===== verification/Executor.thy ===== *)
theory Executor
  imports Approvals Leases Vault
begin

section \<open>The single controlled execution path (runtime/executor.py, runtime/context.py)\<close>

text \<open>
  \<open>perform\<close> with its seven gates in order: resolve, validate, policy, approval, lease, run,
  audit. A handler is an interaction tree: it returns a value, raises, runs past its timeout, asks
  its context to emit an event, or performs another action and goes on with what came back (a
  result, or the exception of a gate, which it may catch). Handlers are parameters of the model.
  The runtime has one state (broker with the bus, log, lease table, vault); clock readings and
  fresh ids come from the environment in the order they are drawn. Other tasks are visible through
  the lease tables a waiting request finds when it wakes. Nested actions recurse on fuel; the value
  \<open>None\<close> is running out of it, and \<open>perform_terminates\<close> says when that cannot happen.
\<close>

datatype topic_msg = Progress string pydict | Note string int pydict

datatype htree =
    HReturn pyval
  | HRaise exn
  | HTimeout
  | HTell topic_msg htree
  | HPerform string string pydict "exn + action_result \<Rightarrow> htree"

type_synonym handler = "action \<Rightarrow> pydict \<Rightarrow> htree"

record run_env =
  ev_clock :: "nat \<Rightarrow> instant"
  ev_uid :: "nat \<Rightarrow> uid"
  ev_wakes :: "nat \<Rightarrow> (lease_table \<times> instant) list"
  ev_digest :: "string \<Rightarrow> string"
  ev_float :: "pyval \<Rightarrow> pyval option"
  ev_show_float :: "rat \<Rightarrow> string"
  ev_npath :: "string \<Rightarrow> string"
  ev_unseal :: unseal
  ev_platform :: string
  ev_registry :: "handler registry"
  ev_autonomy :: autonomy_config
  ev_paths :: guarded_paths

record runtime =
  rt_broker :: broker
  rt_log :: audit_log
  rt_leases :: lease_table
  rt_vault :: "vault option"
  rt_ticks :: nat

definition MUTATING :: "effect set" where
  "MUTATING = {WRITE, DELETE_PERMANENT, INSTALL, SYSTEM_CONFIG, CREDENTIALS, INPUT_CONTROL, EXEC}"

subsection \<open>Small steps on the runtime\<close>

definition tick :: "runtime \<Rightarrow> runtime" where
  "tick w = w\<lparr>rt_ticks := rt_ticks w + 1\<rparr>"

definition rt_now :: "run_env \<Rightarrow> runtime \<Rightarrow> instant" where
  "rt_now E w = ev_clock E (rt_ticks w)"

definition rt_emit :: "run_env \<Rightarrow> topic \<Rightarrow> payload \<Rightarrow> runtime \<Rightarrow> runtime" where
  "rt_emit E t body w =
     tick (w\<lparr>rt_broker := (rt_broker w)\<lparr>br_bus := emit (rt_now E w) (topic_name t) body (br_bus (rt_broker w))\<rparr>\<rparr>)"

definition rt_audit ::
  "run_env \<Rightarrow> action \<Rightarrow> handler tool_spec option \<Rightarrow> verdict \<Rightarrow> string \<Rightarrow> string \<Rightarrow> int \<Rightarrow> runtime \<Rightarrow> runtime" where
  "rt_audit E a spec v outcome detail duration w =
     tick (w\<lparr>rt_log := snd (audit_record (rt_now E w) a spec v outcome detail duration (rt_log w))\<rparr>)"

definition ms :: "run_env \<Rightarrow> instant \<Rightarrow> runtime \<Rightarrow> int" where
  "ms E started w = \<lfloor>(rt_now E w - started) * 1000\<rfloor>"

definition short :: "pyval \<Rightarrow> string" where
  "short v = shorten 40 (py_str v)"

definition summarise :: "pyval \<Rightarrow> string" where
  "summarise v =
     (case v of
        PNone \<Rightarrow> []
      | PStr s \<Rightarrow> shorten 200 (join '' '' (split_ws s))
      | PDict d \<Rightarrow> shorten 200 (join '', '' (map (\<lambda>(k, x). k @ ''='' @ short x) (take 6 d)))
      | PList xs \<Rightarrow> shorten 200 (nat_str (length xs) @ '' pozycji'')
      | _ \<Rightarrow> shorten 200 (py_str v))"

text \<open>\<open>_reject\<close>: record, announce, and answer with a failed result.\<close>

definition reject ::
  "run_env \<Rightarrow> action \<Rightarrow> handler tool_spec option \<Rightarrow> string \<Rightarrow> garis_error \<Rightarrow> string \<Rightarrow> bool \<Rightarrow> instant \<Rightarrow>
   verdict option \<Rightarrow> runtime \<Rightarrow> (exn + action_result) \<times> runtime" where
  "reject E a spec outcome e kind retryable started v w =
     (let duration = ms E started w;
          used = (case v of Some u \<Rightarrow> u | None \<Rightarrow> allow_verdict\<lparr>vd_rule := outcome\<rparr>);
          w1 = rt_audit E a spec used ''error'' (ge_message e) duration (tick w);
          w2 = rt_emit E ACTION_FAILED
                 [(''task_id'', EvVal (opt_str (ac_task a))), (''tool'', EvVal (PStr (ac_tool a))),
                  (''error'', EvVal (PStr (ge_message e))), (''kind'', EvVal (PStr kind))] w1
      in (Inr (result_failure a (ge_message e) kind retryable outcome duration), w2))"

subsection \<open>The approval gate\<close>

definition require_approval ::
  "run_env \<Rightarrow> action \<Rightarrow> handler tool_spec \<Rightarrow> verdict \<Rightarrow> runtime \<Rightarrow> (exn + unit) \<times> runtime" where
  "require_approval E a s v w =
     (let fp = fingerprint (ev_digest E) a
      in case denied_for fp (rt_broker w) of
           Some d \<Rightarrow>
             (Inl (Garis (mk_error ApprovalDenied (''U'' @ pl_z @ ''ytkownik odrzuci'' @ pl_l @ '' operacj'' @ pl_e @ '' '' @ ac_tool a)
                 (Some (''Dobrze, nie robi'' @ pl_e @ '' tego.'')))),
              rt_audit E a (Some s) v ''rejected_by_user'' [] 0
                (w\<lparr>rt_broker := ap_consume (ap_id d) (rt_broker w)\<rparr>))
         | None \<Rightarrow>
             (case granted_for fp (rt_broker w) of
                Some g \<Rightarrow> (Inr (), w\<lparr>rt_broker := ap_consume (ap_id g) (rt_broker w)\<rparr>)
              | None \<Rightarrow>
                  (case ap_request (ev_digest E) (ev_uid E (rt_ticks w)) (rt_now E w) a s v
                          (Some (redact_params (ac_params a))) (rt_broker w) of
                     Inl e \<Rightarrow> (Inl e, tick w)
                   | Inr (r, b) \<Rightarrow>
                       (Inl (Garis (approval_required
                               (''Operacja '' @ ac_tool a @ '' wymaga zgody u'' @ pl_z @ ''ytkownika'') (ap_id r) (ap_prompt r))),
                        rt_audit E a (Some s) v ''awaiting_approval'' (ap_prompt r) 0
                          (tick (w\<lparr>rt_broker := b\<rparr>))))))"

subsection \<open>What a handler may do\<close>

definition nested_action :: "run_env \<Rightarrow> action \<Rightarrow> string \<Rightarrow> string \<Rightarrow> pydict \<Rightarrow> runtime \<Rightarrow> action" where
  "nested_action E a tool intent params w =
     (new_action (ev_uid E (rt_ticks w)) (rt_now E w) tool params
        (if intent \<noteq> [] then intent else ac_intent a) (ac_task a) (ac_step a) (ac_target a))"

definition tell :: "run_env \<Rightarrow> action \<Rightarrow> handler tool_spec \<Rightarrow> topic_msg \<Rightarrow> runtime \<Rightarrow> runtime" where
  "tell E a s m w =
     (case m of
        Progress message data \<Rightarrow>
          rt_emit E TASK_PROGRESS
            ([(''task_id'', EvVal (opt_str (ac_task a))), (''tool'', EvVal (PStr (ts_name s))),
              (''message'', EvVal (PStr message))] @ map (\<lambda>(k, v). (k, EvVal v)) data) w
      | Note message importance data \<Rightarrow>
          rt_emit E NOTICE
            ([(''task_id'', EvVal (opt_str (ac_task a))), (''source'', EvVal (PStr (ts_name s))),
              (''message'', EvVal (PStr message)), (''importance'', EvVal (PInt importance))] @
             map (\<lambda>(k, v). (k, EvVal v)) data) w)"

datatype hresult = Returned pyval | Raised exn | TimedOut

type_synonym performer = "action \<Rightarrow> runtime \<Rightarrow> ((exn + action_result) \<times> runtime) option"

primrec run_tree ::
  "performer \<Rightarrow> run_env \<Rightarrow> action \<Rightarrow> handler tool_spec \<Rightarrow> htree \<Rightarrow> runtime \<Rightarrow> (hresult \<times> runtime) option" where
  "run_tree P E a s (HReturn v) = (\<lambda>w. Some (Returned v, w))"
| "run_tree P E a s (HRaise x) = (\<lambda>w. Some (Raised x, w))"
| "run_tree P E a s HTimeout = (\<lambda>w. Some (TimedOut, w))"
| "run_tree P E a s (HTell m k) = (\<lambda>w. run_tree P E a s k (tell E a s m w))"
| "run_tree P E a s (HPerform tool intent params k) =
     (\<lambda>w. case P (nested_action E a tool intent params w) (tick w) of
            None \<Rightarrow> None
          | Some (r, w') \<Rightarrow> run_tree P E a s (k r) w')"

subsection \<open>Running\<close>

definition is_gate :: "exn \<Rightarrow> bool" where
  "is_gate x = (isinstance x ApprovalRequired \<or> isinstance x PolicyDenied \<or> isinstance x ApprovalDenied)"

definition timeout_error :: "handler tool_spec \<Rightarrow> garis_error" where
  "timeout_error s =
     execution_error ExecutionError (ts_name s @ '': przekroczono '' @ fixed_text 0 (ts_timeout s) @ '' s'')
       (Some (ts_name s)) True None 0"

definition crash_error :: "handler tool_spec \<Rightarrow> string \<Rightarrow> string \<Rightarrow> garis_error" where
  "crash_error s t m =
     execution_error ExecutionError (ts_name s @ '': '' @ t @ '': '' @ m) (Some (ts_name s)) True None 0"

text \<open>The \<open>except\<close> clauses of \<open>_invoke\<close>, and what follows them.\<close>

definition finish ::
  "run_env \<Rightarrow> action \<Rightarrow> handler tool_spec \<Rightarrow> verdict \<Rightarrow> instant \<Rightarrow> hresult \<Rightarrow> runtime \<Rightarrow>
   (exn + action_result) \<times> runtime" where
  "finish E a s v started h w =
     (case h of
        TimedOut \<Rightarrow> reject E a (Some s) ''timeout'' (timeout_error s) ''timeout'' True started (Some v) w
      | Raised Cancellation \<Rightarrow>
          (Inl Cancellation, rt_audit E a (Some s) v ''cancelled'' [] (ms E started w) (tick w))
      | Raised (Garis e) \<Rightarrow>
          if is_gate (Garis e) then (Inl (Garis e), w)
          else reject E a (Some s) ''error'' e ''error'' (retryable_of e) started (Some v) w
      | Raised (PyExn t m) \<Rightarrow>
          if t = ''TimeoutError''
          then reject E a (Some s) ''timeout'' (timeout_error s) ''timeout'' True started (Some v) w
          else reject E a (Some s) ''crash'' (crash_error s t m) ''crash'' True started (Some v) w
      | Returned val \<Rightarrow>
          let duration = ms E started w;
              w1 = rt_audit E a (Some s) v ''ok'' (summarise val) duration (tick w);
              w2 = rt_emit E ACTION_FINISHED
                     [(''task_id'', EvVal (opt_str (ac_task a))), (''tool'', EvVal (PStr (ac_tool a))),
                      (''duration_ms'', EvVal (PInt duration)), (''summary'', EvVal (PStr (summarise val)))] w1
          in (Inr (result_success a val duration), w2))"

definition resolve_secrets :: "run_env \<Rightarrow> pydict \<Rightarrow> runtime \<Rightarrow> (exn + pydict) \<times> runtime" where
  "resolve_secrets E params w =
     (case rt_vault w of
        None \<Rightarrow> (Inr params, w)
      | Some v \<Rightarrow> (case resolve_tree (ev_unseal E) (rt_now E w) params v of
            (r, v') \<Rightarrow> (map_sum id fst r, tick (w\<lparr>rt_vault := Some v'\<rparr>))))"

definition invoke ::
  "performer \<Rightarrow> run_env \<Rightarrow> action \<Rightarrow> handler tool_spec \<Rightarrow> verdict \<Rightarrow> instant \<Rightarrow> runtime \<Rightarrow>
   ((exn + action_result) \<times> runtime) option" where
  "invoke P E a s v started w =
     (case resolve_secrets E (ac_params a) w of
        (Inl x, w1) \<Rightarrow>
          Some (case x of
              Garis e \<Rightarrow> if isinstance x StoreError
                 then reject E a (Some s) ''missing_secret'' e ''missing_secret'' False started (Some v) w1
                 else (Inl x, w1)
            | _ \<Rightarrow> (Inl x, w1))
      | (Inr params, w1) \<Rightarrow>
          let w2 = rt_emit E ACTION_STARTED
                [(''task_id'', EvVal (opt_str (ac_task a))), (''tool'', EvVal (PStr (ac_tool a))),
                 (''intent'', EvVal (PStr (ac_intent a))),
                 (''effects'', EvVal (PList (map PStr (effect_names (Some s)))))] w1
          in map_option (\<lambda>(h, w3). finish E a s v started h w3)
               (run_tree P E a s (ts_handler s a params) w2))"

subsection \<open>The gates in order\<close>

text \<open>Resolve and validate: the tool with the action's coerced parameters, or the failed result.\<close>

definition admit ::
  "run_env \<Rightarrow> action \<Rightarrow> instant \<Rightarrow> runtime \<Rightarrow>
   ((exn + action_result) \<times> runtime) + action \<times> handler tool_spec" where
  "admit E a started w =
     (case reg_get (ev_registry E) (ac_tool a) of
        Inl e \<Rightarrow> Inl (reject E a None ''unknown_tool'' e ''not_found'' False started None w)
      | Inr s \<Rightarrow>
          (case require_supported (ev_platform E) s of
             Inl e \<Rightarrow> Inl (reject E a (Some s) ''unsupported'' e ''unsupported'' False started None w)
           | Inr u \<Rightarrow>
               (case validate (ev_float E) s (ac_params a) of
                  Inl msg \<Rightarrow> Inl (reject E a (Some s) ''invalid_params'' (mk_error ToolValidationError msg None)
                               ''invalid'' True started None w)
                | Inr params \<Rightarrow> Inr (a\<lparr>ac_params := params\<rparr>, s))))"

definition judge :: "run_env \<Rightarrow> handler tool_spec \<Rightarrow> action \<Rightarrow> verdict" where
  "judge E s a = evaluate (ev_npath E) (ev_show_float E) (ev_autonomy E) (ev_paths E) s a"

text \<open>Policy and approval: go on, or the exception that stops the flow.\<close>

definition gate :: "run_env \<Rightarrow> action \<Rightarrow> handler tool_spec \<Rightarrow> runtime \<Rightarrow> (exn + unit) \<times> runtime" where
  "gate E a s w =
     (let v = judge E s a
      in if vd_decision v = DENY then
           (Inl (Garis (policy_denied (''Odmowa ('' @ vd_rule v @ ''): '' @ vd_reason v) (vd_rule v)
               (Some (''Tego nie zrobi'' @ pl_e @ '' '' @ em_dash @ '' dotyczy moich w'' @ pl_l @
                      ''asnych zabezpiecze'' @ pl_n @ ''.'')))),
            rt_emit E ACTION_DENIED
              [(''task_id'', EvVal (opt_str (ac_task a))), (''tool'', EvVal (PStr (ac_tool a))),
               (''rule'', EvVal (PStr (vd_rule v))), (''reason'', EvVal (PStr (vd_reason v)))]
              (rt_audit E a (Some s) v ''denied'' (vd_reason v) 0 w))
         else if vd_decision v = CONFIRM then require_approval E a s v w
         else (Inr (), w))"

definition lease_mode_of :: "handler tool_spec \<Rightarrow> lease_mode" where
  "lease_mode_of s = (if ts_effects s \<inter> MUTATING \<noteq> {} then EXCLUSIVE else SHARED)"

definition lease_holder :: "action \<Rightarrow> string" where
  "lease_holder a = (case ac_task a of Some t \<Rightarrow> if t \<noteq> [] then t else ''action:'' @ ac_id a
                     | None \<Rightarrow> ''action:'' @ ac_id a)"

definition take_lease :: "run_env \<Rightarrow> action \<Rightarrow> handler tool_spec \<Rightarrow> runtime \<Rightarrow> garis_error + lease \<times> lease_table" where
  "take_lease E a s w =
     (let now = rt_now E w
      in the (acquire (resource_keys s (ac_params a)) (lease_holder a) (lease_mode_of s)
                (Some (now + ts_timeout s)) ((rt_leases w, now) # ev_wakes E (rt_ticks w))))"

fun perform :: "run_env \<Rightarrow> nat \<Rightarrow> performer" where
  "perform E 0 a w = None"
| "perform E (Suc n) a w =
     (let started = rt_now E w; w0 = tick w
      in case admit E a started w0 of
           Inl out \<Rightarrow> Some out
         | Inr (a', s) \<Rightarrow>
             (case gate E a' s w0 of
                (Inl x, w1) \<Rightarrow> Some (Inl x, w1)
              | (Inr u, w1) \<Rightarrow>
                  let v = judge E s a'
                  in case take_lease E a' s w1 of
                       Inl e \<Rightarrow> Some (reject E a' (Some s) ''lease_timeout'' e ''busy'' True started (Some v) (tick w1))
                     | Inr (l, t) \<Rightarrow>
                         map_option (\<lambda>(r, w2). (r, w2\<lparr>rt_leases := snd (lease_release l (rt_leases w2))\<rparr>))
                           (invoke (perform E n) E a' s v started (tick (w1\<lparr>rt_leases := t\<rparr>)))))"

definition perform_tool ::
  "run_env \<Rightarrow> nat \<Rightarrow> string \<Rightarrow> string \<Rightarrow> string option \<Rightarrow> pydict \<Rightarrow> runtime \<Rightarrow>
   ((exn + action_result) \<times> runtime) option" where
  "perform_tool E n tool intent task params w =
     perform E n (new_action (ev_uid E (rt_ticks w)) (rt_now E w) tool params intent task None []) (tick w)"

definition describe_capabilities :: "run_env \<Rightarrow> (rat \<Rightarrow> pyval) \<Rightarrow> pydict" where
  "describe_capabilities E float_val =
     (let reg = ev_registry E
      in [(''tools_total'', PInt (int (length reg))),
          (''tools_available'', PInt (int (length (reg_available (ev_platform E) reg)))),
          (''categories'', PDict (map (\<lambda>(n, specs). (n, PInt (int (length specs))))
             (sort_key fst (by_category (ev_platform E) reg)))),
          (''unsupported_here'', PList (map PStr (sort
             (map ts_name (filter (\<lambda>s. \<not> supported_here (ev_platform E) s) (reg_all reg)))))),
          (''policy'', PDict (policy_describe float_val (ev_autonomy E)))])"

subsection \<open>What every performed action keeps\<close>

text \<open>A relation between the runtime before and after that the small steps keep is kept by a
  whole action, nested ones included.\<close>

locale kept_by_steps =
  fixes E :: run_env
    and R :: "runtime \<Rightarrow> runtime \<Rightarrow> bool"
  assumes R_refl: "R w w"
    and R_trans: "R w w' \<Longrightarrow> R w' w'' \<Longrightarrow> R w w''"
    and R_ticks: "R w (w\<lparr>rt_ticks := k\<rparr>)"
    and R_audit: "R w (w\<lparr>rt_log := snd (audit_record now a (spec :: handler tool_spec option) v out d m (rt_log w))\<rparr>)"
    and R_bus: "R w (w\<lparr>rt_broker := (rt_broker w)\<lparr>br_bus := bb\<rparr>\<rparr>)"
    and R_spend: "R w (w\<lparr>rt_broker := ap_consume i (rt_broker w)\<rparr>)"
    and R_ask: "ap_request digest fresh now a (s :: handler tool_spec) v red (rt_broker w) = Inr (r, b) \<Longrightarrow>
      R w (w\<lparr>rt_broker := b\<rparr>)"
    and R_vault: "R w (w\<lparr>rt_vault := y\<rparr>)"
    and R_lease: "take_lease E a s w = Inr (l, t) \<Longrightarrow> R (w\<lparr>rt_leases := t\<rparr>) w' \<Longrightarrow>
      R w (w'\<lparr>rt_leases := snd (lease_release l (rt_leases w'))\<rparr>)"
begin

lemma R_tick: "R w (tick w)"
  unfolding tick_def by (rule R_ticks)

lemma R_rt_audit: "R w (rt_audit E a spec v out d m w)"
  unfolding rt_audit_def by (rule R_trans [OF R_audit R_tick])

lemma R_rt_emit: "R w (rt_emit E t body w)"
  unfolding rt_emit_def by (rule R_trans [OF R_bus R_tick])

lemmas R_basic = R_refl R_tick R_rt_audit R_rt_emit R_spend R_vault

lemma R_reject: "R w (snd (reject E a spec out e kind retry started v w))"
  unfolding reject_def Let_def snd_conv
  by (rule R_trans [OF R_tick R_trans [OF R_rt_audit R_rt_emit]])

lemma R_approval: "R w (snd (require_approval E a s v w))"
proof -
  have ask: "R w (tick (w\<lparr>rt_broker := b\<rparr>))"
    if "ap_request (ev_digest E) fresh now a s v red (rt_broker w) = Inr (r, b)" for fresh now red r b
    by (rule R_trans [OF R_ask [OF that] R_tick])
  show ?thesis
    unfolding require_approval_def Let_def
    by (auto split: option.splits sum.splits intro: R_basic R_trans [OF R_spend R_rt_audit]
        R_trans [OF ask R_rt_audit])
qed

lemma R_gate: "R w (snd (gate E a s w))"
  unfolding gate_def Let_def
  by (auto intro: R_approval R_refl R_trans [OF R_rt_audit R_rt_emit])

lemma R_admit: "admit E a started w = Inl out \<Longrightarrow> R w (snd out)"
  unfolding admit_def by (auto split: sum.splits intro: R_reject)

lemma R_tell: "R w (tell E a s m w)"
  unfolding tell_def by (cases m) (auto intro: R_rt_emit)

lemma R_tree:
  assumes "\<And>a w r w'. P a w = Some (r, w') \<Longrightarrow> R w w'"
  shows "run_tree P E a s tr w = Some (h, w') \<Longrightarrow> R w w'"
proof (induction tr arbitrary: w)
  case (HTell m k)
  then show ?case by (auto intro: R_trans [OF R_tell])
next
  case (HPerform tool intent params k)
  then obtain r w1 where p: "P (nested_action E a tool intent params w) (tick w) = Some (r, w1)"
    and rest: "run_tree P E a s (k r) w1 = Some (h, w')"
    by (auto split: option.splits)
  have "R w w1" by (rule R_trans [OF R_tick assms [OF p]])
  moreover have "R w1 w'" using rest by (rule HPerform.IH [OF rangeI])
  ultimately show ?case by (rule R_trans)
qed (auto intro: R_refl)

lemma R_finish: "R w (snd (finish E a s v started h w))"
  unfolding finish_def Let_def
  by (auto split: hresult.splits exn.splits
      intro: R_reject R_refl R_trans [OF R_tick R_rt_audit] R_trans [OF R_tick R_trans [OF R_rt_audit R_rt_emit]])

lemma R_secrets: "R w (snd (resolve_secrets E params w))"
  unfolding resolve_secrets_def
  by (auto split: option.splits prod.splits intro: R_refl R_trans [OF R_vault R_tick])

lemma R_invoke:
  assumes "\<And>a w r w'. P a w = Some (r, w') \<Longrightarrow> R w w'"
    and "invoke P E a s v started w = Some (r, w')"
  shows "R w w'"
proof -
  obtain q w1 where q: "resolve_secrets E (ac_params a) w = (q, w1)"
    by (cases "resolve_secrets E (ac_params a) w")
  then have w1: "R w w1" using R_secrets [of w "ac_params a"] by simp
  show ?thesis
  proof (cases q)
    case (Inl x)
    then consider e where "reject E a (Some s) ''missing_secret'' e ''missing_secret'' False started (Some v) w1 = (r, w')"
      | "w' = w1"
      using assms(2) q by (auto simp: invoke_def split: exn.splits if_splits)
    then show ?thesis
    proof cases
      case (1 e)
      with R_reject [of w1 a "Some s" "''missing_secret''" e "''missing_secret''" False started "Some v"]
      have "R w1 w'" by (metis snd_conv)
      with w1 show ?thesis by (rule R_trans)
    next
      case 2
      with w1 show ?thesis by simp
    qed
  next
    case (Inr params)
    define w2 where "w2 = rt_emit E ACTION_STARTED
        [(''task_id'', EvVal (opt_str (ac_task a))), (''tool'', EvVal (PStr (ac_tool a))),
         (''intent'', EvVal (PStr (ac_intent a))),
         (''effects'', EvVal (PList (map PStr (effect_names (Some s)))))] w1"
    obtain h w3 where t: "run_tree P E a s (ts_handler s a params) w2 = Some (h, w3)"
      and f: "finish E a s v started h w3 = (r, w')"
      using assms(2) q Inr by (auto simp: invoke_def Let_def w2_def)
    have "R w1 w2" unfolding w2_def by (rule R_rt_emit)
    moreover have "R w2 w3" using assms(1) t by (rule R_tree)
    moreover have "R w3 w'" using R_finish [of w3 a s v started h] f by simp
    ultimately show ?thesis using w1 R_trans by blast
  qed
qed

lemma R_perform: "perform E n a w = Some (r, w') \<Longrightarrow> R w w'"
proof (induction n arbitrary: a w r w')
  case 0
  then show ?case by simp
next
  case (Suc n)
  let ?s = "rt_now E w"
  show ?case
  proof (cases "admit E a ?s (tick w)")
    case (Inl out)
    with Suc.prems R_admit [OF Inl] R_tick show ?thesis by (auto simp: Let_def intro: R_trans)
  next
    case (Inr q)
    then obtain a' s where ad: "admit E a ?s (tick w) = Inr (a', s)" by (cases q) auto
    obtain g w1 where g: "gate E a' s (tick w) = (g, w1)" by (cases "gate E a' s (tick w)")
    have w1: "R w w1" using R_trans [OF R_tick R_gate [of "tick w" a' s]] g by simp
    show ?thesis
    proof (cases g)
      case (Inl x)
      with Suc.prems ad g w1 show ?thesis by (simp add: Let_def)
    next
      case (Inr u)
      show ?thesis
      proof (cases "take_lease E a' s w1")
        case (Inl e)
        have "R w1 (snd (reject E a' (Some s) ''lease_timeout'' e ''busy'' True ?s (Some (judge E s a')) (tick w1)))"
          by (rule R_trans [OF R_tick R_reject])
        with Suc.prems ad g Inr Inl w1 show ?thesis by (auto simp: Let_def intro: R_trans)
      next
        case lease: (Inr lt)
        obtain l t where lt: "lt = (l, t)" by (cases lt)
        obtain w2 where inv: "invoke (perform E n) E a' s (judge E s a') ?s (tick (w1\<lparr>rt_leases := t\<rparr>)) = Some (r, w2)"
          and w': "w' = w2\<lparr>rt_leases := snd (lease_release l (rt_leases w2))\<rparr>"
          using Suc.prems ad g Inr lease lt by (auto simp: Let_def)
        have "R (tick (w1\<lparr>rt_leases := t\<rparr>)) w2" using Suc.IH inv by (rule R_invoke)
        then have "R (w1\<lparr>rt_leases := t\<rparr>) w2" by (rule R_trans [OF R_tick])
        then have "R w1 w'" unfolding w' by (rule R_lease [OF lease [unfolded lt]])
        with w1 show ?thesis by (rule R_trans)
      qed
    qed
  qed
qed

end

subsection \<open>The log only grows, a spent yes stays spent, the log stays safe\<close>

definition log_grows :: "runtime \<Rightarrow> runtime \<Rightarrow> bool" where
  "log_grows w w' = prefix (al_rows (rt_log w)) (al_rows (rt_log w'))"

definition keeps_spent :: "uid \<Rightarrow> runtime \<Rightarrow> runtime \<Rightarrow> bool" where
  "keeps_spent i w w' = (desk_spent (rt_broker w) i \<longrightarrow> desk_spent (rt_broker w') i)"

definition keeps_log_ok :: "runtime \<Rightarrow> runtime \<Rightarrow> bool" where
  "keeps_log_ok w w' = (log_ok (rt_log w) \<longrightarrow> log_ok (rt_log w'))"

lemma audit_rows: "al_rows (snd (audit_record now a spec v out d m l)) = al_rows l @
    [\<lparr>au_id = al_last l + 1, au_at = now, au_task = ac_task a, au_tool = ac_tool a, au_intent = ac_intent a,
      au_effects = effect_names spec, au_decision = vd_decision v, au_rule = vd_rule v,
      au_params = redact_params (ac_params a), au_outcome = out,
      au_detail = (if d \<noteq> [] then Some (cp_take 2000 d) else None), au_duration_ms = m\<rparr>]"
  by (simp add: audit_record_def Let_def)

interpretation growing: kept_by_steps E log_grows for E
  by unfold_locales (auto simp: log_grows_def tick_def audit_rows)

lemma desk_spent_ask:
  assumes "ap_request digest fresh now a (s :: handler tool_spec) v red b = Inr (r, b')" and "desk_spent b i"
  shows "desk_spent b' i"
  using desk_spent_do [OF assms(2), of digest "OpRequest fresh now a s v red"] assms(1) by simp

lemma desk_spent_bus [simp]: "desk_spent (b\<lparr>br_bus := x\<rparr>) i = desk_spent b i"
  by (simp add: desk_spent_def)

lemma desk_spent_consume: "desk_spent b i \<Longrightarrow> desk_spent (ap_consume j b) i"
  using desk.spend_keeps [of b i j] by (simp add: desk_spend_def)

interpretation spending: kept_by_steps E "keeps_spent i" for E i
  by unfold_locales (auto simp: keeps_spent_def tick_def intro: desk_spent_ask desk_spent_consume)

interpretation logging: kept_by_steps E keeps_log_ok for E
  by unfold_locales (auto simp: keeps_log_ok_def tick_def intro: log_ok_record)

lemma granted_spent: "granted_for fp b = Some g \<Longrightarrow> desk_spent (ap_consume (ap_id g) b) (ap_id g)"
  using desk.spend_spends [of b fp "ap_id g"] by (simp add: desk_yes_def desk_spend_def)

subsection \<open>No lease is left behind\<close>

text \<open>A table that claims no more than another, key by key.\<close>

definition claims_le :: "lease_table \<Rightarrow> lease_table \<Rightarrow> bool" where
  "claims_le t' t =
     (\<forall>k. ks_readers (state_of t' k) \<le> ks_readers (state_of t k) \<and>
          (ks_writer (state_of t' k) = None \<or> ks_writer (state_of t' k) = ks_writer (state_of t k)))"

lemma claims_le_refl [simp]: "claims_le t t"
  by (simp add: claims_le_def)

lemma claims_le_trans: "claims_le t t' \<Longrightarrow> claims_le t' t'' \<Longrightarrow> claims_le t t''"
  by (fastforce simp: claims_le_def intro: order_trans)

lemma claims_le_busy: "claims_le t' t \<Longrightarrow> \<not> key_free (state_of t' k) \<Longrightarrow> \<not> key_free (state_of t k)"
  by (fastforce simp: claims_le_def key_free_def dest: spec [of _ k])

lemma state_of_entry_after:
  "map_of t' k = entry_after mode h (map_of t k) \<Longrightarrow>
   ks_readers (state_of t' k) = (if mode = EXCLUSIVE then ks_readers (state_of t k) else ks_readers (state_of t k) - 1) \<and>
   ks_writer (state_of t' k) =
     (if mode = EXCLUSIVE \<and> ks_writer (state_of t k) = Some h then None else ks_writer (state_of t k))"
  by (auto simp: state_of_def entry_after_def returned_def new_key_state_def key_free_def split: option.splits if_splits)

lemma acquire_last:
  "acquire keys holder mode (Some d) [(t, now)] = Some (Inr got) \<Longrightarrow> acquire_round t keys holder mode now = Inr got"
  by (auto split: sum.splits if_splits)

lemma round_trip_claims:
  assumes "acquire_round t keys holder mode now = Inr (l, t1)" and "claims_le t2 t1"
  shows "claims_le (snd (lease_release l t2)) t"
proof -
  let ?ks = "ordered_keys keys"
  have l: "l = new_lease ?ks mode holder now" and t1: "t1 = fold (take_key mode holder) ?ks t"
    and free: "\<And>k. k \<in> set ?ks \<Longrightarrow> can_take t mode holder k"
    using assms(1) by (auto simp: acquire_round_def Let_def list_all_iff split: if_splits)
  have t3: "snd (lease_release l t2) = release_keys ?ks mode holder t2"
    by (simp add: l lease_release_def new_lease_def)
  have m1: "map_of t1 k = (if k \<in> set ?ks
      then Some (if mode = EXCLUSIVE then (state_of t k)\<lparr>ks_writer := Some holder\<rparr>
                 else (state_of t k)\<lparr>ks_readers := ks_readers (state_of t k) + 1\<rparr>)
      else map_of t k)" for k
    unfolding t1 by (rule map_of_fold_take) simp
  have m3: "map_of (release_keys ?ks mode holder t2) k =
      (if k \<in> set ?ks then entry_after mode holder (map_of t2 k) else map_of t2 k)" for k
    by (rule map_of_release) simp
  have le: "ks_readers (state_of t2 k) \<le> ks_readers (state_of t1 k) \<and>
      (ks_writer (state_of t2 k) = None \<or> ks_writer (state_of t2 k) = ks_writer (state_of t1 k))" for k
    using assms(2) by (simp add: claims_le_def)
  have "ks_readers (state_of (release_keys ?ks mode holder t2) k) \<le> ks_readers (state_of t k) \<and>
      (ks_writer (state_of (release_keys ?ks mode holder t2) k) = None \<or>
       ks_writer (state_of (release_keys ?ks mode holder t2) k) = ks_writer (state_of t k))" for k
  proof (cases "k \<in> set ?ks")
    case True
    with m3 [of k] have "map_of (release_keys ?ks mode holder t2) k = entry_after mode holder (map_of t2 k)"
      by (simp only: if_True)
    note after = state_of_entry_after [OF this]
    have "state_of t1 k = (if mode = EXCLUSIVE then (state_of t k)\<lparr>ks_writer := Some holder\<rparr>
        else (state_of t k)\<lparr>ks_readers := ks_readers (state_of t k) + 1\<rparr>)"
      using m1 [of k] True by (simp only: if_True state_of_simps)
    with le [of k] after show ?thesis by (auto split: if_splits)
  next
    case False
    with m1 [of k] m3 [of k] have "state_of t1 k = state_of t k"
      "state_of (release_keys ?ks mode holder t2) k = state_of t2 k"
      by (simp_all only: if_False state_of_def)
    with le [of k] show ?thesis by simp
  qed
  then show ?thesis unfolding t3 claims_le_def by blast
qed

definition keeps_claims :: "run_env \<Rightarrow> runtime \<Rightarrow> runtime \<Rightarrow> bool" where
  "keeps_claims E w w' = ((\<forall>k. ev_wakes E k = []) \<longrightarrow> claims_le (rt_leases w') (rt_leases w))"

lemma acquire_deadline_returns: "acquire keys holder mode (Some d) rounds \<noteq> None"
  by (induction rounds) (auto split: sum.splits)

lemma take_lease_quiet:
  assumes "ev_wakes E (rt_ticks w) = []" and "take_lease E a s w = Inr (l, t)"
  shows "acquire_round (rt_leases w) (resource_keys s (ac_params a)) (lease_holder a) (lease_mode_of s) (rt_now E w)
    = Inr (l, t)"
proof -
  let ?q = "acquire (resource_keys s (ac_params a)) (lease_holder a) (lease_mode_of s)
      (Some (rt_now E w + ts_timeout s)) [(rt_leases w, rt_now E w)]"
  have "?q = Some (the ?q)" using acquire_deadline_returns by (metis option.collapse)
  moreover have "the ?q = Inr (l, t)" using assms by (simp add: take_lease_def Let_def)
  ultimately have "?q = Some (Inr (l, t))" by (simp only:)
  then show ?thesis by (rule acquire_last)
qed

interpretation leasing: kept_by_steps E "keeps_claims E" for E
proof unfold_locales
  fix w w' w'' :: runtime and a s l t
  show "keeps_claims E w w" by (simp add: keeps_claims_def)
  show "keeps_claims E w w' \<Longrightarrow> keeps_claims E w' w'' \<Longrightarrow> keeps_claims E w w''"
    by (auto simp: keeps_claims_def intro: claims_le_trans)
  show "keeps_claims E w (w'\<lparr>rt_leases := snd (lease_release l (rt_leases w'))\<rparr>)"
    if "take_lease E a s w = Inr (l, t)" and "keeps_claims E (w\<lparr>rt_leases := t\<rparr>) w'"
    using take_lease_quiet [OF _ that(1)] that(2)
    by (auto simp: keeps_claims_def intro: round_trip_claims)
qed (simp_all add: keeps_claims_def)

subsection \<open>How an action can end\<close>

lemma perform_SucE:
  assumes "perform E (Suc n) a w = Some (r, w')"
  obtains (rejected) out where "admit E a (rt_now E w) (tick w) = Inl out" and "out = (r, w')"
    | (stopped) a' s x where "admit E a (rt_now E w) (tick w) = Inr (a', s)"
        and "gate E a' s (tick w) = (Inl x, w')" and "r = Inl x"
    | (busy) a' s u w1 e where "admit E a (rt_now E w) (tick w) = Inr (a', s)"
        and "gate E a' s (tick w) = (Inr u, w1)" and "take_lease E a' s w1 = Inl e"
        and "reject E a' (Some s) ''lease_timeout'' e ''busy'' True (rt_now E w) (Some (judge E s a')) (tick w1) = (r, w')"
    | (ran) a' s u w1 l t w2 where "admit E a (rt_now E w) (tick w) = Inr (a', s)"
        and "gate E a' s (tick w) = (Inr u, w1)" and "take_lease E a' s w1 = Inr (l, t)"
        and "invoke (perform E n) E a' s (judge E s a') (rt_now E w) (tick (w1\<lparr>rt_leases := t\<rparr>)) = Some (r, w2)"
        and "w' = w2\<lparr>rt_leases := snd (lease_release l (rt_leases w2))\<rparr>"
proof (cases "admit E a (rt_now E w) (tick w)")
  case (Inl out)
  with assms rejected show ?thesis by (simp add: Let_def)
next
  case (Inr q)
  then obtain a' s where ad: "admit E a (rt_now E w) (tick w) = Inr (a', s)" by (cases q) auto
  obtain g w1 where g: "gate E a' s (tick w) = (g, w1)" by (cases "gate E a' s (tick w)")
  show ?thesis
  proof (cases g)
    case (Inl x)
    with assms ad g stopped show ?thesis by (auto simp: Let_def)
  next
    case (Inr u)
    show ?thesis
    proof (cases "take_lease E a' s w1")
      case (Inl e)
      with assms ad g Inr busy show ?thesis by (auto simp: Let_def)
    next
      case lease: (Inr lt)
      obtain l t where "lt = (l, t)" by (cases lt)
      with assms ad g Inr lease ran show ?thesis by (auto simp: Let_def)
    qed
  qed
qed

lemma admit_InrD: "admit E a started w = Inr (a', s) \<Longrightarrow>
    reg_get (ev_registry E) (ac_tool a) = Inr s \<and> supported_here (ev_platform E) s \<and>
    (\<exists>params. validate (ev_float E) s (ac_params a) = Inr params \<and> a' = a\<lparr>ac_params := params\<rparr>)"
  by (auto simp: admit_def require_supported_def split: sum.splits if_splits)

lemma gate_open: "gate E a s w = (Inr u, w1) \<Longrightarrow>
    (vd_decision (judge E s a) = ALLOW \<and> w1 = w) \<or>
    (vd_decision (judge E s a) = CONFIRM \<and> denied_for (fingerprint (ev_digest E) a) (rt_broker w) = None \<and>
     (\<exists>g. granted_for (fingerprint (ev_digest E) a) (rt_broker w) = Some g \<and>
          w1 = w\<lparr>rt_broker := ap_consume (ap_id g) (rt_broker w)\<rparr>))"
  by (cases "vd_decision (judge E s a)")
     (auto simp: gate_def require_approval_def Let_def split: option.splits sum.splits)

lemma reject_not_ok: "reject E a spec out e kind retry started v w = (Inr res, w') \<Longrightarrow> \<not> ar_ok res"
  by (auto simp: reject_def Let_def result_failure_def)

lemma admit_reject: "admit E a started w = Inl (Inr res, w') \<Longrightarrow> \<not> ar_ok res"
  by (auto simp: admit_def split: sum.splits dest: reject_not_ok)

lemma tick_broker [simp]: "rt_broker (tick w) = rt_broker w"
  by (simp add: tick_def)

text \<open>The last row of the log: the action's own, with the outcome of its result.\<close>

definition ends_with :: "action \<Rightarrow> string \<Rightarrow> runtime \<Rightarrow> bool" where
  "ends_with a out w =
     (al_rows (rt_log w) \<noteq> [] \<and> au_tool (last (al_rows (rt_log w))) = ac_tool a \<and>
      au_task (last (al_rows (rt_log w))) = ac_task a \<and> au_outcome (last (al_rows (rt_log w))) = out)"

lemma log_simps [simp]:
  "rt_log (tick w) = rt_log w" "rt_log (rt_emit E t body w) = rt_log w"
  "rt_log (w\<lparr>rt_leases := ls\<rparr>) = rt_log w" "rt_log (w\<lparr>rt_broker := b\<rparr>) = rt_log w"
  by (simp_all add: tick_def rt_emit_def)

lemma rt_audit_rows: "al_rows (rt_log (rt_audit E a spec v out d m w)) = al_rows (rt_log w) @
    [\<lparr>au_id = al_last (rt_log w) + 1, au_at = rt_now E w, au_task = ac_task a, au_tool = ac_tool a,
      au_intent = ac_intent a, au_effects = effect_names spec, au_decision = vd_decision v, au_rule = vd_rule v,
      au_params = redact_params (ac_params a), au_outcome = out,
      au_detail = (if d \<noteq> [] then Some (cp_take 2000 d) else None), au_duration_ms = m\<rparr>]"
  by (simp add: rt_audit_def audit_rows)

definition closes :: "action \<Rightarrow> (exn + action_result) \<Rightarrow> runtime \<Rightarrow> bool" where
  "closes a r w' = (\<forall>res. r = Inr res \<longrightarrow>
     ar_tool res = ac_tool a \<and> ar_action_id res = ac_id a \<and>
     ends_with a (if ar_ok res then ''ok'' else ''error'') w')"

lemma ends_with_audit: "ends_with a out (rt_emit E t body (rt_audit E a spec v out d m w))"
  by (simp add: ends_with_def rt_audit_rows)

lemma reject_closes: "reject E a spec out e kind retry started v w = (r, w') \<Longrightarrow> closes a r w'"
  using ends_with_audit by (auto simp: reject_def Let_def result_failure_def closes_def)

lemma finish_closes: "finish E a s v started h w = (r, w') \<Longrightarrow> closes a r w'"
proof (cases h)
  case (Returned val)
  assume "finish E a s v started h w = (r, w')"
  with Returned show ?thesis
    using ends_with_audit by (auto simp: finish_def Let_def result_success_def closes_def)
qed (auto simp: finish_def closes_def split: exn.splits if_splits intro: reject_closes dest: reject_closes)

lemma invoke_closes:
  assumes "invoke P E a s v started w = Some (r, w')"
  shows "closes a r w'"
proof -
  obtain q w1 where q: "resolve_secrets E (ac_params a) w = (q, w1)"
    by (cases "resolve_secrets E (ac_params a) w")
  show ?thesis
  proof (cases q)
    case (Inl x)
    with assms q show ?thesis
      by (auto simp: invoke_def closes_def split: exn.splits if_splits dest: reject_closes)
  next
    case (Inr params)
    with assms q show ?thesis by (auto simp: invoke_def Let_def dest: finish_closes)
  qed
qed

lemma perform_closes: "perform E n a w = Some (r, w') \<Longrightarrow> closes a r w'"
proof (cases n)
  case 0
  then show "perform E n a w = Some (r, w') \<Longrightarrow> closes a r w'" by simp
next
  case (Suc m)
  assume "perform E n a w = Some (r, w')"
  then have p: "perform E (Suc m) a w = Some (r, w')" by (simp only: Suc)
  have same: "closes (a\<lparr>ac_params := ps\<rparr>) r u = closes a r u" for ps u
    by (simp add: closes_def ends_with_def)
  from p show ?thesis
  proof (cases rule: perform_SucE)
    case (rejected out)
    then show ?thesis by (auto simp: admit_def split: sum.splits dest: reject_closes)
  next
    case (stopped a' s x)
    then show ?thesis by (simp add: closes_def)
  next
    case (busy a' s u w1 e)
    from reject_closes [OF busy(4)] admit_InrD [OF busy(1)] same show ?thesis by auto
  next
    case (ran a' s u w1 l t w2)
    from invoke_closes [OF ran(4)] admit_InrD [OF ran(1)] same have "closes a r w2" by auto
    then show ?thesis by (simp add: ran(5) closes_def ends_with_def)
  qed
qed

text \<open>The exceptions that leave \<open>perform\<close>.\<close>

definition vault_fault :: "run_env \<Rightarrow> exn \<Rightarrow> bool" where
  "vault_fault E x =
     (\<not> isinstance x StoreError \<and> (\<exists>now params v v'. resolve_tree (ev_unseal E) now params v = (Inl x, v')))"

definition way_out :: "run_env \<Rightarrow> exn \<Rightarrow> bool" where
  "way_out E x = (is_gate x \<or> x = Cancellation \<or> isinstance x StoreError \<or> vault_fault E x)"

lemma gate_way_out: "gate E a s w = (Inl x, w') \<Longrightarrow> way_out E x"
  by (auto simp: gate_def require_approval_def ap_request_def way_out_def is_gate_def Let_def
      split: if_splits option.splits sum.splits)

lemma reject_not_Inl: "reject E a spec out e kind retry started v w = (Inl x, w') \<Longrightarrow> False"
  by (simp add: reject_def Let_def)

lemma finish_way_out: "finish E a s v started h w = (Inl x, w') \<Longrightarrow> way_out E x"
  by (auto simp: finish_def Let_def way_out_def split: hresult.splits exn.splits if_splits dest: reject_not_Inl)

lemma resolve_secrets_Inl:
  assumes "resolve_secrets E params w = (q, w1)" and "q = Inl y"
  shows "\<exists>now v v'. resolve_tree (ev_unseal E) now params v = (Inl y, v')"
proof (cases "rt_vault w")
  case None
  with assms show ?thesis by (simp add: resolve_secrets_def)
next
  case (Some v)
  obtain r v' where r: "resolve_tree (ev_unseal E) (rt_now E w) params v = (r, v')"
    by (cases "resolve_tree (ev_unseal E) (rt_now E w) params v")
  with assms Some have "map_sum id fst r = Inl y" by (simp add: resolve_secrets_def)
  then have "r = Inl y" by (cases r) simp_all
  with r show ?thesis by blast
qed

lemma invoke_way_out:
  assumes "invoke P E a s v started w = Some (Inl x, w')"
  shows "way_out E x"
proof -
  obtain q w1 where q: "resolve_secrets E (ac_params a) w = (q, w1)"
    by (cases "resolve_secrets E (ac_params a) w")
  show ?thesis
  proof (cases q)
    case (Inl y)
    have "\<exists>now v v'. resolve_tree (ev_unseal E) now (ac_params a) v = (Inl y, v')"
      using q Inl by (rule resolve_secrets_Inl)
    moreover have "x = y \<and> \<not> isinstance x StoreError"
      using assms q Inl by (auto simp: invoke_def split: exn.splits if_splits dest: reject_not_Inl)
    ultimately show ?thesis by (auto simp: way_out_def vault_fault_def)
  next
    case (Inr params)
    with assms q show ?thesis by (auto simp: invoke_def Let_def dest: finish_way_out)
  qed
qed

lemma perform_way_out: "perform E n a w = Some (Inl x, w') \<Longrightarrow> way_out E x"
proof (cases n)
  case 0
  then show "perform E n a w = Some (Inl x, w') \<Longrightarrow> way_out E x" by simp
next
  case (Suc m)
  assume "perform E n a w = Some (Inl x, w')"
  then have "perform E (Suc m) a w = Some (Inl x, w')" by (simp only: Suc)
  then show ?thesis
    by (cases rule: perform_SucE)
       (auto simp: admit_def split: sum.splits dest: reject_not_Inl gate_way_out invoke_way_out)
qed

subsection \<open>Enough fuel\<close>

text \<open>A handler that only performs tools of a lower rank.\<close>

primrec calls_below :: "(string \<Rightarrow> nat) \<Rightarrow> nat \<Rightarrow> htree \<Rightarrow> bool" where
  "calls_below rank r (HReturn v) = True"
| "calls_below rank r (HRaise x) = True"
| "calls_below rank r HTimeout = True"
| "calls_below rank r (HTell m k) = calls_below rank r k"
| "calls_below rank r (HPerform tool intent params k) = (rank tool < r \<and> (\<forall>x. calls_below rank r (k x)))"

definition ranked :: "(string \<Rightarrow> nat) \<Rightarrow> run_env \<Rightarrow> bool" where
  "ranked rank E =
     (\<forall>name s a params. reg_get (ev_registry E) name = Inr s \<longrightarrow>
        calls_below rank (rank name) (ts_handler s a params))"

lemma run_tree_returns:
  assumes "calls_below rank r tr" and "\<And>a w. rank (ac_tool a) < r \<Longrightarrow> P a w \<noteq> None"
  shows "run_tree P E a s tr w \<noteq> None"
  using assms(1)
proof (induction tr arbitrary: w)
  case (HPerform tool intent params k)
  have "P (nested_action E a tool intent params w) (tick w) \<noteq> None"
    using HPerform.prems by (intro assms(2)) (simp add: nested_action_def new_action_def)
  then obtain x w1 where "P (nested_action E a tool intent params w) (tick w) = Some (x, w1)" by auto
  with HPerform show ?case by auto
qed auto

lemma invoke_returns:
  assumes "\<And>params u. run_tree P E a s (ts_handler s a params) u \<noteq> None"
  shows "invoke P E a s v started w \<noteq> None"
proof -
  obtain q w1 where q: "resolve_secrets E (ac_params a) w = (q, w1)"
    by (cases "resolve_secrets E (ac_params a) w")
  show ?thesis
    using assms by (cases q) (simp_all add: invoke_def q Let_def option.map_disc_iff del: not_None_eq)
qed

lemma perform_returns:
  assumes "ranked rank E"
  shows "rank (ac_tool a) < n \<Longrightarrow> perform E n a w \<noteq> None"
proof (induction n arbitrary: a w)
  case 0
  then show ?case by simp
next
  case (Suc n)
  show ?case
  proof (cases "admit E a (rt_now E w) (tick w)")
    case (Inl out)
    then show ?thesis by (simp add: Let_def)
  next
    case (Inr q)
    then obtain a' s where ad: "admit E a (rt_now E w) (tick w) = Inr (a', s)" by (cases q) auto
    then have "calls_below rank (rank (ac_tool a)) (ts_handler s a' params)" for params
      using assms by (auto simp: ranked_def dest: admit_InrD)
    then have "run_tree (perform E n) E a' s (ts_handler s a' params) w' \<noteq> None" for params w'
      using Suc by (intro run_tree_returns [of rank "rank (ac_tool a)"]) auto
    then have "invoke (perform E n) E a' s v started w' \<noteq> None" for v started w'
      by (rule invoke_returns)
    then show ?thesis
      using ad by (auto simp: Let_def option.map_disc_iff simp del: not_None_eq split: prod.splits sum.splits)
  qed
qed

subsection \<open>A small runtime\<close>

definition small_env :: "handler tool_spec list \<Rightarrow> run_env" where
  "small_env tools =
     \<lparr>ev_clock = of_nat, ev_uid = (\<lambda>n. ''u'' @ nat_str n), ev_wakes = (\<lambda>n. []), ev_digest = (\<lambda>s. s),
      ev_float = (\<lambda>v. None), ev_show_float = (\<lambda>r. []), ev_npath = (\<lambda>p. p), ev_unseal = clear_unseal,
      ev_platform = ''win32'', ev_registry = map (\<lambda>s. (ts_name s, s)) tools,
      ev_autonomy = lax_config, ev_paths = sample_paths\<rparr>"

definition start_runtime :: runtime where
  "start_runtime = \<lparr>rt_broker = empty_broker, rt_log = new_log, rt_leases = [], rt_vault = Some empty_vault, rt_ticks = 0\<rparr>"

definition plain_tool :: "string \<Rightarrow> effect set \<Rightarrow> handler \<Rightarrow> handler tool_spec" where
  "plain_tool name es h =
     \<lparr>ts_name = name, ts_summary = [], ts_handler = h,
      ts_params = [(''q'', \<lparr>ps_type = ''string'', ps_description = [], ps_required = False,
        ps_default = PNone, ps_choices = [], ps_max_length = None\<rparr>)],
      ts_effects = es, ts_platforms = [''*''], ts_category = ''general'', ts_timeout = 120,
      ts_reversible = True, ts_trusted_source = True, ts_resources = None, ts_estimate = None,
      ts_danger_note = [], ts_examples = []\<rparr>"

definition echo :: "handler tool_spec" where
  "echo = plain_tool ''echo'' {READ} (\<lambda>a params. HReturn (PInt 7))"

definition ask_echo :: action where
  "ask_echo = new_action ''1'' 0 ''echo'' [] ''say'' (Some ''t1'') None []"

lemmas small_simps = small_env_def plain_tool_def echo_def ask_echo_def new_action_def reg_get_def
  admit_def require_supported_def supported_here_def validate_def validate_one_def Let_def

lemma admit_echo: "admit (small_env [echo]) ask_echo s w = Inr (ask_echo, echo)"
  by (simp add: small_simps)

lemma judge_echo: "vd_decision (judge (small_env [echo]) echo ask_echo) = ALLOW"
  by (simp add: judge_def small_env_def evaluate_decision hard_deny_def needs_no_yes_def confirm_effects_def
      policy_estimates_def estimates_def lax_config_def echo_def plain_tool_def ask_echo_def new_action_def
      guarded_effects_def NON_NEGOTIABLE_CONFIRM_def List.map_filter_def)

lemma gate_echo: "gate (small_env [echo]) ask_echo echo w = (Inr (), w)"
  using judge_echo by (simp add: gate_def Let_def)

lemma lease_echo: "take_lease (small_env [echo]) ask_echo echo w = Inr (new_lease [] SHARED ''t1'' (rt_now (small_env [echo]) w), rt_leases w)"
  by (simp add: take_lease_def Let_def small_env_def echo_def plain_tool_def ask_echo_def new_action_def
      resource_keys_def acquire_round_def ordered_keys_def lease_holder_def lease_mode_of_def MUTATING_def)

lemma perform_echo: "\<exists>res w'. perform (small_env [echo]) 1 ask_echo start_runtime = Some (Inr res, w') \<and> ar_ok res"
proof -
  have params: "ac_params ask_echo = []" and h: "ts_handler echo = (\<lambda>a params. HReturn (PInt 7))"
    by (simp_all add: ask_echo_def new_action_def echo_def plain_tool_def)
  have secrets: "\<exists>w1. resolve_secrets (small_env [echo]) [] w = (Inr [], w1)" for w
    by (cases "rt_vault w") (auto simp: resolve_secrets_def resolve_tree_def)
  have "\<exists>res w2. invoke (perform (small_env [echo]) 0) (small_env [echo]) ask_echo echo v started w =
      Some (Inr res, w2) \<and> ar_ok res" for v started w
    using secrets [of w] by (auto simp: invoke_def params h Let_def finish_def result_success_def)
  then show ?thesis
    unfolding One_nat_def perform.simps Let_def admit_echo sum.case prod.case gate_echo lease_echo
    by fastforce
qed

subsection \<open>Properties\<close>

text \<open>C1: nothing succeeds without a decision. An action that ends in success named a registered
  tool that works on this platform, its parameters were validated, and either the policy allows
  it or the policy wants a yes and there was an unspent yes (and no unspent no) for exactly this
  operation, which is spent afterwards whatever the handler and its nested actions did.\<close>

theorem success_needs_a_decision:
  assumes "perform E n a w = Some (Inr res, w')" and "ar_ok res"
  shows "\<exists>s params. reg_get (ev_registry E) (ac_tool a) = Inr s \<and> supported_here (ev_platform E) s \<and>
    validate (ev_float E) s (ac_params a) = Inr params \<and>
    (let a' = a\<lparr>ac_params := params\<rparr>; fp = fingerprint (ev_digest E) a'
     in vd_decision (judge E s a') = ALLOW \<or>
        (vd_decision (judge E s a') = CONFIRM \<and> denied_for fp (rt_broker w) = None \<and>
         (\<exists>g. granted_for fp (rt_broker w) = Some g \<and> desk_spent (rt_broker w') (ap_id g))))"
proof -
  obtain m where n: "n = Suc m" using assms(1) by (cases n) auto
  from assms(1) [unfolded n] show ?thesis
  proof (cases rule: perform_SucE)
    case (rejected out)
    with assms(2) show ?thesis by (auto dest: admit_reject)
  next
    case (stopped a' s x)
    then show ?thesis by simp
  next
    case (busy a' s u w1 e)
    with assms(2) show ?thesis by (auto dest: reject_not_ok)
  next
    case (ran a' s u w1 l t w2)
    have spent: "desk_spent (rt_broker w1) i \<longrightarrow> desk_spent (rt_broker w') i" for i
    proof -
      have "keeps_spent i (tick (w1\<lparr>rt_leases := t\<rparr>)) w2"
        using spending.R_perform ran(4) by (rule spending.R_invoke)
      then show ?thesis by (simp add: keeps_spent_def ran(5) tick_def)
    qed
    from admit_InrD [OF ran(1)] obtain params where
      adm: "reg_get (ev_registry E) (ac_tool a) = Inr s" "supported_here (ev_platform E) s"
        "validate (ev_float E) s (ac_params a) = Inr params" and a': "a' = a\<lparr>ac_params := params\<rparr>"
      by blast
    from gate_open [OF ran(2)] show ?thesis
      unfolding Let_def tick_broker
      by (intro exI [of _ s] exI [of _ params])
         (auto simp: adm a' intro!: spent [rule_format] granted_spent)
  qed
qed

theorem success_needs_a_decision_witness:
  "\<exists>s. reg_get (ev_registry (small_env [echo])) (ac_tool ask_echo) = Inr s \<and>
     supported_here (ev_platform (small_env [echo])) s"
proof -
  obtain res w' where "perform (small_env [echo]) 1 ask_echo start_runtime = Some (Inr res, w')" "ar_ok res"
    using perform_echo by blast
  from success_needs_a_decision [OF this] show ?thesis by blast
qed



text \<open>C3: what is stopped does not run. When the policy denies an action, or wants a yes and none
  is on file, the answer is an exception whatever the tool's handler, no lease is taken, no secret
  is touched, and exactly one row is added to the log, which says why.\<close>

theorem stopped_actions_run_nothing:
  assumes "admit E a (rt_now E w) (tick w) = Inr (a', s)"
    and "vd_decision (judge E s a') = DENY \<or>
      (vd_decision (judge E s a') = CONFIRM \<and>
       (denied_for (fingerprint (ev_digest E) a') (rt_broker w) \<noteq> None \<or>
        granted_for (fingerprint (ev_digest E) a') (rt_broker w) = None))"
    and "\<forall>k. ev_uid E k \<notin> ap_id ` set (br_rows (rt_broker w))"
  shows "\<exists>x w' row. perform E (Suc n) a w = Some (Inl x, w') \<and> is_gate x \<and>
    rt_leases w' = rt_leases w \<and> rt_vault w' = rt_vault w \<and>
    al_rows (rt_log w') = al_rows (rt_log w) @ [row] \<and> au_tool row = ac_tool a' \<and>
    au_decision row = vd_decision (judge E s a') \<and>
    au_outcome row \<in> {''denied'', ''rejected_by_user'', ''awaiting_approval''}"
proof -
  let ?v = "judge E s a'"
  have frame: "rt_leases (tick u) = rt_leases u" "rt_vault (tick u) = rt_vault u"
    "rt_leases (rt_audit E a' sp v out d m u) = rt_leases u" "rt_vault (rt_audit E a' sp v out d m u) = rt_vault u"
    "rt_leases (rt_emit E t body u) = rt_leases u" "rt_vault (rt_emit E t body u) = rt_vault u"
    for u sp v out d m t body
    by (simp_all add: tick_def rt_audit_def rt_emit_def)
  have "\<exists>x w' row. gate E a' s (tick w) = (Inl x, w') \<and> is_gate x \<and>
    rt_leases w' = rt_leases w \<and> rt_vault w' = rt_vault w \<and>
    al_rows (rt_log w') = al_rows (rt_log w) @ [row] \<and> au_tool row = ac_tool a' \<and>
    au_decision row = vd_decision ?v \<and> au_outcome row \<in> {''denied'', ''rejected_by_user'', ''awaiting_approval''}"
  proof (cases "vd_decision ?v = DENY")
    case True
    then show ?thesis by (simp add: gate_def Let_def is_gate_def frame rt_audit_rows)
  next
    case False
    with assms(2) have c: "vd_decision ?v = CONFIRM" by blast
    show ?thesis
    proof (cases "denied_for (fingerprint (ev_digest E) a') (rt_broker w)")
      case (Some d)
      with c show ?thesis by (simp add: gate_def require_approval_def Let_def is_gate_def frame rt_audit_rows)
    next
      case None
      with assms(2) c have g: "granted_for (fingerprint (ev_digest E) a') (rt_broker w) = None" by simp
      obtain r b where "ap_request (ev_digest E) (ev_uid E (rt_ticks (tick w))) (rt_now E (tick w)) a' s ?v
          (Some (redact_params (ac_params a'))) (rt_broker w) = Inr (r, b)"
        using assms(3) ap_request_fresh by blast
      with None g c show ?thesis
        by (simp add: gate_def require_approval_def Let_def is_gate_def frame rt_audit_rows)
    qed
  qed
  with assms(1) show ?thesis by (fastforce simp: Let_def)
qed

definition transfer :: "handler tool_spec" where
  "transfer = plain_tool ''transfer'' {PAYMENT} (\<lambda>a params. HReturn PNone)"

theorem stopped_actions_run_nothing_witness:
  "\<exists>x w'. perform (small_env [transfer]) (Suc 0)
      (new_action ''1'' 0 ''transfer'' [] [] (Some ''t1'') None []) start_runtime = Some (Inl x, w') \<and>
    is_gate x \<and> rt_leases w' = []"
proof -
  let ?E = "small_env [transfer]" and ?a = "new_action ''1'' 0 ''transfer'' [] [] (Some ''t1'') None []"
  have ad: "admit ?E ?a (rt_now ?E start_runtime) (tick start_runtime) = Inr (?a, transfer)"
    by (simp add: small_simps transfer_def)
  have "vd_decision (judge ?E transfer ?a) = CONFIRM"
    by (simp add: judge_def small_env_def evaluate_decision hard_deny_def needs_no_yes_def confirm_effects_def
        policy_estimates_def estimates_def lax_config_def transfer_def plain_tool_def new_action_def
        guarded_effects_def NON_NEGOTIABLE_CONFIRM_def)
  moreover have "granted_for fp (rt_broker start_runtime) = None" for fp
    by (simp add: granted_for_def answered_def start_runtime_def empty_broker_def)
  ultimately show ?thesis
    using stopped_actions_run_nothing [OF ad, of 0]
    by (auto simp: start_runtime_def empty_broker_def)
qed

text \<open>No lease is left behind. If no other task interferes, every resource an action leaves
  busy was busy before it, on every path: success, failure, timeout, exception and nested
  actions that fail half way.\<close>

theorem perform_leaves_no_lease:
  assumes "\<forall>k. ev_wakes E k = []" and "perform E n a w = Some (r, w')"
  shows "\<not> key_free (state_of (rt_leases w') k) \<longrightarrow> \<not> key_free (state_of (rt_leases w) k)"
  using leasing.R_perform [OF assms(2)] assms(1) claims_le_busy by (simp add: keeps_claims_def)

theorem perform_leaves_no_lease_witness:
  "\<exists>r w'. perform (small_env [echo]) 1 ask_echo start_runtime = Some (r, w') \<and>
     (\<forall>k. key_free (state_of (rt_leases w') k))"
proof -
  obtain res w' where run: "perform (small_env [echo]) 1 ask_echo start_runtime = Some (Inr res, w')"
    using perform_echo by blast
  have quiet: "\<forall>k. ev_wakes (small_env [echo]) k = []" by (simp add: small_env_def)
  have "key_free (state_of (rt_leases w') k)" for k
    using perform_leaves_no_lease [OF quiet run, of k]
    by (auto simp: start_runtime_def state_of_def new_key_state_def key_free_def)
  with run show ?thesis by blast
qed

text \<open>Performing returns. If handlers only perform tools of a lower rank, fuel one above the
  rank of a tool is enough for it, whatever it is given and whatever the nested actions answer.\<close>

theorem perform_terminates:
  assumes "ranked rank E" and "rank (ac_tool a) < n"
  shows "\<exists>r w'. perform E n a w = Some (r, w')"
  using perform_returns [OF assms] by auto

definition twice :: "handler tool_spec" where
  "twice = plain_tool ''twice'' {READ}
     (\<lambda>a params. HPerform ''echo'' [] [] (\<lambda>r. HPerform ''echo'' [] [] (\<lambda>q. HReturn PNone)))"

theorem perform_terminates_witness:
  "\<exists>r w'. perform (small_env [echo, twice]) 2
     (new_action ''1'' 0 ''twice'' [] [] None None []) start_runtime = Some (r, w')"
proof -
  let ?rank = "\<lambda>name. if name = ''twice'' then 1 else 0 :: nat"
  have "ranked ?rank (small_env [echo, twice])"
    by (auto simp: ranked_def small_env_def reg_get_def echo_def twice_def plain_tool_def split: if_splits)
  then show ?thesis by (rule perform_terminates) (simp add: new_action_def)
qed

text \<open>C23: one failure of the vault is not accounted for. When resolving a parameter fails with
  anything but a store error (an empty reference, a damaged secret), an action whose gates are
  open ends in that exception with no row of its own in the log.\<close>

theorem vault_fault_escapes_unaudited:
  assumes "admit E a (rt_now E w) (tick w) = Inr (a', s)"
    and "gate E a' s (tick w) = (Inr u, w1)" and "take_lease E a' s w1 = Inr (l, t)"
    and "rt_vault w1 = Some v" and "\<forall>now. \<exists>v'. resolve_tree (ev_unseal E) now (ac_params a') v = (Inl x, v')"
    and "\<not> isinstance x StoreError"
  shows "\<exists>w'. perform E (Suc n) a w = Some (Inl x, w') \<and> al_rows (rt_log w') = al_rows (rt_log w1)"
proof -
  let ?w = "tick (w1\<lparr>rt_leases := t\<rparr>)"
  obtain v' where "resolve_tree (ev_unseal E) (rt_now E ?w) (ac_params a') v = (Inl x, v')"
    using assms(5) by blast
  then have "resolve_secrets E (ac_params a') ?w = (Inl x, tick (?w\<lparr>rt_vault := Some v'\<rparr>))"
    using assms(4) by (simp add: resolve_secrets_def tick_def)
  then have "invoke (perform E n) E a' s (judge E s a') (rt_now E w) ?w =
      Some (Inl x, tick (?w\<lparr>rt_vault := Some v'\<rparr>))"
    using assms(6) by (cases x) (simp_all add: invoke_def)
  then show ?thesis using assms(1-3) by (simp add: Let_def tick_def)
qed

theorem vault_fault_escapes_unaudited_witness:
  "\<exists>t m w'. perform (small_env [echo]) (Suc 0)
      (ask_echo\<lparr>ac_params := [(''q'', PStr ''vault://'')]\<rparr>) start_runtime = Some (Inl (PyExn t m), w') \<and>
    al_rows (rt_log w') = []"
proof -
  let ?E = "small_env [echo]" and ?a = "ask_echo\<lparr>ac_params := [(''q'', PStr ''vault://'')]\<rparr>"
  have ad: "admit ?E ?a (rt_now ?E start_runtime) (tick start_runtime) = Inr (?a, echo)"
    by (simp add: small_simps coerce_def convert_param_def py_str_def too_long_def)
  have "vd_decision (judge ?E echo ?a) = ALLOW"
    by (simp add: judge_def small_env_def evaluate_decision hard_deny_def needs_no_yes_def confirm_effects_def
        policy_estimates_def estimates_def lax_config_def echo_def plain_tool_def ask_echo_def new_action_def
        guarded_effects_def NON_NEGOTIABLE_CONFIRM_def List.map_filter_def)
  then have g: "gate ?E ?a echo w = (Inr (), w)" for w by (simp add: gate_def Let_def)
  have l: "take_lease ?E ?a echo w = Inr (new_lease [] SHARED ''t1'' (rt_now ?E w), rt_leases w)" for w
    by (simp add: take_lease_def Let_def small_env_def echo_def plain_tool_def ask_echo_def new_action_def
        resource_keys_def acquire_round_def ordered_keys_def lease_holder_def lease_mode_of_def MUTATING_def)
  have "clean_name [] = Inl (PyExn ''ValueError'' (''Nazwa sekretu nie mo'' @ pl_z @ ''e by'' @ pl_c @ '' pusta''))"
    by (simp add: clean_name_def lower_def)
  then have f: "resolve_tree clear_unseal now [(''q'', PStr ''vault://'')] v =
      (Inl (PyExn ''ValueError'' (''Nazwa sekretu nie mo'' @ pl_z @ ''e by'' @ pl_c @ '' pusta'')), v)" for now v
    by (simp add: resolve_tree_def is_ref_def REF_PREFIX_def ref_name_def vault_resolve_def vault_get_def
        is_key_error_def)
  show ?thesis
    using vault_fault_escapes_unaudited [OF ad g l, of empty_vault
      "PyExn ''ValueError'' (''Nazwa sekretu nie mo'' @ pl_z @ ''e by'' @ pl_c @ '' pusta'')" 0] f
    by (auto simp: start_runtime_def tick_def small_env_def new_log_def)
qed

end
