(* ===== verification/Goals.thy ===== *)
theory Goals
  imports Prelude
begin

section \<open>Goals and plans (agent/goal.py)\<close>

text \<open>
  The data an agent works from, and a plan read from a model's JSON. Reading can raise (a number
  where a list is expected, parameters that are no dict): the error is the class name of the
  Python exception. A parameter dict given as a list of pairs is read when the keys are strings.
\<close>

definition MAX_STEPS :: nat where "MAX_STEPS = 40"

record goal =
  gl_text :: string
  gl_criteria :: "string list"
  gl_target :: string
  gl_private :: bool
  gl_context :: string
  gl_origin :: string

definition new_goal :: "string \<Rightarrow> goal" where
  "new_goal what =
     \<lparr>gl_text = what, gl_criteria = [], gl_target = ''local'', gl_private = False, gl_context = [],
      gl_origin = ''user''\<rparr>"

definition goal_to_dict :: "goal \<Rightarrow> pydict" where
  "goal_to_dict g =
     [(''text'', PStr (gl_text g)), (''criteria'', PList (map PStr (gl_criteria g))),
      (''target'', PStr (gl_target g)), (''private'', PBool (gl_private g)),
      (''origin'', PStr (gl_origin g))]"

record plan_step =
  st_key :: string
  st_tool :: string
  st_params :: pydict
  st_purpose :: string
  st_optional :: bool
  st_expects :: string

definition step_to_dict :: "plan_step \<Rightarrow> pydict" where
  "step_to_dict s =
     [(''key'', PStr (st_key s)), (''tool'', PStr (st_tool s)), (''params'', PDict (st_params s)),
      (''purpose'', PStr (st_purpose s)), (''optional'', PBool (st_optional s)),
      (''expects'', PStr (st_expects s))]"

text \<open>\<open>dict(v)\<close>; \<open>None\<close> is a \<open>TypeError\<close> or \<open>ValueError\<close>.\<close>

fun dict_pair :: "pyval \<Rightarrow> (string \<times> pyval) option" where
  "dict_pair (PList [PStr k, v]) = Some (k, v)"
| "dict_pair (PStr s) = (case cp_chars s of [k, v] \<Rightarrow> Some (k, PStr v) | _ \<Rightarrow> None)"
| "dict_pair v = None"

definition py_dict :: "pyval \<Rightarrow> pydict option" where
  "py_dict v =
     (case v of
        PDict d \<Rightarrow> Some d
      | PList xs \<Rightarrow>
          (if list_all (\<lambda>x. dict_pair x \<noteq> None) xs
           then Some (foldl (\<lambda>d x. case dict_pair x of Some (k, w) \<Rightarrow> dict_set k w d | None \<Rightarrow> d) [] xs)
           else None)
      | _ \<Rightarrow> None)"

definition step_from_dict :: "nat \<Rightarrow> pydict \<Rightarrow> string + plan_step" where
  "step_from_dict index data =
     (case py_dict (or_else (dget data ''params'') (PDict [])) of
        None \<Rightarrow> Inl ''TypeError''
      | Some params \<Rightarrow> Inr
          \<lparr>st_key = py_str (or_else (dget data ''key'') (PStr (''step-'' @ nat_str (index + 1)))),
           st_tool = (case map_of data ''tool'' of None \<Rightarrow> [] | Some t \<Rightarrow> py_str t),
           st_params = params,
           st_purpose = py_str (or_else (or_else (dget data ''purpose'') (dget data ''why'')) (PStr [])),
           st_optional = (case map_of data ''optional'' of None \<Rightarrow> False | Some b \<Rightarrow> truthy b),
           st_expects = str_or_empty (dget data ''expects'')\<rparr>)"

record plan =
  pn_summary :: string
  pn_steps :: "plan_step list"
  pn_question :: string
  pn_assumptions :: "string list"
  pn_notes :: string
  pn_origin :: string

definition empty_plan :: plan where
  "empty_plan = \<lparr>pn_summary = [], pn_steps = [], pn_question = [], pn_assumptions = [], pn_notes = [],
     pn_origin = ''model''\<rparr>"

definition plan_blocked :: "plan \<Rightarrow> bool" where
  "plan_blocked p = (pn_question p \<noteq> [] \<and> pn_steps p = [])"

definition plan_to_dict :: "plan \<Rightarrow> pydict" where
  "plan_to_dict p =
     [(''summary'', PStr (pn_summary p)), (''steps'', PList (map (PDict \<circ> step_to_dict) (pn_steps p))),
      (''question'', PStr (pn_question p)), (''assumptions'', PList (map PStr (pn_assumptions p))),
      (''notes'', PStr (pn_notes p)), (''origin'', PStr (pn_origin p))]"

text \<open>Elements that are no dict are skipped but keep their index.\<close>

fun steps_from :: "nat \<Rightarrow> pyval list \<Rightarrow> string + plan_step list" where
  "steps_from i [] = Inr []"
| "steps_from i (PDict d # xs) =
     (case step_from_dict i d of
        Inl e \<Rightarrow> Inl e
      | Inr s \<Rightarrow> (case steps_from (i + 1) xs of Inl e \<Rightarrow> Inl e | Inr ss \<Rightarrow> Inr (s # ss)))"
| "steps_from i (x # xs) = steps_from (i + 1) xs"

definition plan_from_dict :: "pydict \<Rightarrow> string + plan" where
  "plan_from_dict data =
     (case py_iter (or_else (dget data ''steps'') (PList [])) of
        None \<Rightarrow> Inl ''TypeError''
      | Some raw \<Rightarrow>
        (case steps_from 0 raw of
           Inl e \<Rightarrow> Inl e
         | Inr steps \<Rightarrow>
           (case py_iter (or_else (dget data ''assumptions'') (PList [])) of
              None \<Rightarrow> Inl ''TypeError''
            | Some as \<Rightarrow> Inr
                \<lparr>pn_summary = str_or_empty (dget data ''summary''), pn_steps = take MAX_STEPS steps,
                 pn_question = str_or_empty (dget data ''question''),
                 pn_assumptions = map py_str as, pn_notes = str_or_empty (dget data ''notes''),
                 pn_origin = ''model''\<rparr>)))"

subsection \<open>Keys\<close>

definition slug_char :: "char \<Rightarrow> bool" where
  "slug_char c = (let n = byte_of c in 97 \<le> n \<and> n \<le> 122 \<or> 48 \<le> n \<and> n \<le> 57 \<or> n = 45)"

text \<open>\<open>re.sub(r"[^a-z0-9-]+", "-", s)\<close>.\<close>

fun dash_runs :: "bool \<Rightarrow> string \<Rightarrow> string" where
  "dash_runs inside [] = []"
| "dash_runs inside (c # cs) =
     (if slug_char c then c # dash_runs False cs
      else if inside then dash_runs True cs else CHR ''-'' # dash_runs True cs)"

definition slug :: "string \<Rightarrow> string" where
  "slug s = take 48 (strip_by (\<lambda>c. c = CHR ''-'') (dash_runs False (lower (strip s))))"

definition base_key :: "nat \<Rightarrow> string \<Rightarrow> string" where
  "base_key index key = (if slug key \<noteq> [] then slug key else ''step-'' @ nat_str (index + 1))"

definition numbered :: "string \<Rightarrow> nat \<Rightarrow> string" where
  "numbered base uses = (if uses = 0 then base else base @ ''-'' @ nat_str (uses + 1))"

fun rekey_from :: "nat \<Rightarrow> (string \<times> nat) list \<Rightarrow> plan_step list \<Rightarrow> plan_step list" where
  "rekey_from i seen [] = []"
| "rekey_from i seen (s # ss) =
     (let base = base_key i (st_key s);
          uses = (case map_of seen base of None \<Rightarrow> 0 | Some n \<Rightarrow> n)
      in s\<lparr>st_key := numbered base uses\<rparr> # rekey_from (i + 1) (dict_set base (uses + 1) seen) ss)"

definition rekey :: "plan \<Rightarrow> plan" where
  "rekey p = p\<lparr>pn_steps := rekey_from 0 [] (pn_steps p)\<rparr>"

subsection \<open>Facts\<close>

lemma rekey_same_work:
  "map (\<lambda>s. s\<lparr>st_key := []\<rparr>) (rekey_from i seen ss) = map (\<lambda>s. s\<lparr>st_key := []\<rparr>) ss"
  by (induction i seen ss rule: rekey_from.induct) (simp_all add: Let_def)

lemma length_rekey_from [simp]: "length (rekey_from i seen ss) = length ss"
  by (induction i seen ss rule: rekey_from.induct) (simp_all add: Let_def)

lemma rekey_fields [simp]:
  "pn_summary (rekey p) = pn_summary p" "pn_question (rekey p) = pn_question p"
  "pn_origin (rekey p) = pn_origin p" "pn_notes (rekey p) = pn_notes p"
  "length (pn_steps (rekey p)) = length (pn_steps p)"
  by (simp_all add: rekey_def)

text \<open>The bases of the keys, before numbering.\<close>

fun bases_from :: "nat \<Rightarrow> plan_step list \<Rightarrow> string list" where
  "bases_from i [] = []"
| "bases_from i (s # ss) = base_key i (st_key s) # bases_from (i + 1) ss"

lemma rekey_distinct_from:
  "distinct (bases_from i ss) \<Longrightarrow> \<forall>b \<in> set (bases_from i ss). map_of seen b = None \<Longrightarrow>
   map st_key (rekey_from i seen ss) = bases_from i ss"
proof (induction i seen ss rule: rekey_from.induct)
  case (1 i seen)
  then show ?case by simp
next
  case (2 i seen s ss)
  let ?b = "base_key i (st_key s)"
  have none: "map_of seen ?b = None" using "2.prems"(2) by simp
  have "\<forall>b \<in> set (bases_from (i + 1) ss). b \<noteq> ?b" using "2.prems"(1) by auto
  then have "\<forall>b \<in> set (bases_from (i + 1) ss). map_of (dict_set ?b 1 seen) b = None"
    using "2.prems"(2) by simp
  then have "map st_key (rekey_from (i + 1) (dict_set ?b 1 seen) ss) = bases_from (i + 1) ss"
    using "2.IH" [OF refl refl] "2.prems"(1) none by simp
  with none show ?case by (simp add: Let_def numbered_def)
qed

lemma plan_from_dict_model: "plan_from_dict data = Inr p \<Longrightarrow>
    pn_origin p = ''model'' \<and> length (pn_steps p) \<le> MAX_STEPS"
  by (auto simp: plan_from_dict_def split: option.splits sum.splits)

subsection \<open>When keys are unique\<close>

lemma nat_str_inj: "nat_str m = nat_str n \<Longrightarrow> m = n"
proof (induction m arbitrary: n rule: nat_str.induct)
  case (1 m)
  have digit: "digit_char a = digit_char b \<Longrightarrow> a < 10 \<Longrightarrow> b < 10 \<Longrightarrow> a = b" for a b
    by (auto simp: digit_char_def dest!: arg_cong [where f = "of_char :: char \<Rightarrow> nat"])
  have ne: "nat_str k \<noteq> []" for k by (subst nat_str.simps) simp
  consider "m < 10" "n < 10" | "\<not> m < 10" "\<not> n < 10" | "m < 10" "\<not> n < 10" | "\<not> m < 10" "n < 10" by blast
  then show ?case
  proof cases
    case 1
    then show ?thesis using "1.prems" digit by (simp add: nat_str.simps [of m] nat_str.simps [of n])
  next
    case 2
    then have eq: "nat_str (m div 10) = nat_str (n div 10)" "digit_char (m mod 10) = digit_char (n mod 10)"
      using "1.prems" by (simp_all add: nat_str.simps [of m] nat_str.simps [of n])
    have "m div 10 = n div 10" using "1.IH" [OF 2(1) eq(1)] .
    moreover have "m mod 10 = n mod 10" using digit [OF eq(2)] by simp
    ultimately show ?thesis by (metis div_mult_mod_eq)
  next
    case 3
    then show ?thesis using "1.prems" ne by (simp add: nat_str.simps [of m] nat_str.simps [of n] Cons_eq_append_conv)
  next
    case 4
    then show ?thesis using "1.prems" ne by (simp add: nat_str.simps [of m] nat_str.simps [of n] append_eq_Cons_conv)
  qed
qed

text \<open>The last dash of a numbered key splits it.\<close>

lemma numbered_inj:
  assumes "numbered b j = numbered c k" and "0 < j" and "0 < k"
  shows "b = c \<and> j = k"
proof -
  let ?d = "nat_str (j + 1)" and ?e = "nat_str (k + 1)"
  have no: "CHR ''-'' \<notin> set (nat_str n)" for n
    using nat_str_digits [of n] by (auto simp: byte_of_def)
  have eq: "rev ?d @ CHR ''-'' # rev b = rev ?e @ CHR ''-'' # rev c"
    using arg_cong [OF assms(1), of rev] assms(2,3) by (simp add: numbered_def)
  have tw: "takeWhile (\<lambda>x. x \<noteq> CHR ''-'') (rev (nat_str n) @ CHR ''-'' # r) = rev (nat_str n)" for n r
    using no [of n] by (subst takeWhile_append2) auto
  have "rev ?d = rev ?e" using tw arg_cong [OF eq, of "takeWhile (\<lambda>x. x \<noteq> CHR ''-'')"] by simp
  then have "j = k" using nat_str_inj [of "j + 1" "k + 1"] by simp
  with eq show ?thesis by simp
qed

text \<open>No base is itself the numbered form of another.\<close>

definition bases_apart :: "string set \<Rightarrow> bool" where
  "bases_apart B = (\<forall>b \<in> B. \<forall>c \<in> B. \<forall>k > 0. b \<noteq> numbered c k)"

lemma numbered_apart:
  assumes "bases_apart B" and "b \<in> B" and "c \<in> B" and "numbered b j = numbered c k"
  shows "b = c \<and> j = k"
proof (cases "0 < j \<and> 0 < k")
  case True
  with assms(4) numbered_inj show ?thesis by blast
next
  case False
  then consider "j = 0" "k = 0" | "j = 0" "0 < k" | "0 < j" "k = 0" by force
  then show ?thesis
  proof cases
    case 1
    with assms(4) show ?thesis by (simp add: numbered_def)
  next
    case 2
    with assms(4) have "b = numbered c k" by (simp add: numbered_def)
    with 2 assms(1-3) show ?thesis by (auto simp: bases_apart_def)
  next
    case 3
    with assms(4) have "c = numbered b j" by (simp add: numbered_def)
    with 3 assms(1-3) show ?thesis by (auto simp: bases_apart_def)
  qed
qed

definition used_before :: "(string \<times> nat) list \<Rightarrow> string \<Rightarrow> nat" where
  "used_before seen b = (case map_of seen b of None \<Rightarrow> 0 | Some n \<Rightarrow> n)"

lemma rekey_keys:
  "k \<in> set (map st_key (rekey_from i seen ss)) \<Longrightarrow>
   \<exists>b \<in> set (bases_from i ss). \<exists>j \<ge> used_before seen b. k = numbered b j"
proof (induction i seen ss rule: rekey_from.induct)
  case (1 i seen)
  then show ?case by simp
next
  case (2 i seen s ss)
  let ?b = "base_key i (st_key s)"
  let ?u = "used_before seen ?b"
  consider "k = numbered ?b ?u" | "k \<in> set (map st_key (rekey_from (i + 1) (dict_set ?b (?u + 1) seen) ss))"
    using "2.prems" by (auto simp: Let_def used_before_def)
  then show ?case
  proof cases
    case 1
    then show ?thesis by auto
  next
    case 2
    with "2.IH" [OF refl refl] obtain b j where "b \<in> set (bases_from (i + 1) ss)"
      and j: "used_before (dict_set ?b (?u + 1) seen) b \<le> j" and "k = numbered b j"
      unfolding used_before_def by blast
    moreover have "used_before seen b \<le> j" using j by (auto simp: used_before_def split: if_splits option.splits)
    ultimately show ?thesis by auto
  qed
qed

lemma rekey_distinct:
  assumes "bases_apart B"
  shows "set (bases_from i ss) \<subseteq> B \<Longrightarrow> distinct (map st_key (rekey_from i seen ss))"
proof (induction i seen ss rule: rekey_from.induct)
  case (1 i seen)
  then show ?case by simp
next
  case (2 i seen s ss)
  let ?b = "base_key i (st_key s)"
  let ?u = "used_before seen ?b"
  let ?rest = "rekey_from (i + 1) (dict_set ?b (?u + 1) seen) ss"
  have "distinct (map st_key ?rest)" using "2.IH" [OF refl refl] "2.prems" by (simp add: used_before_def)
  moreover have "numbered ?b ?u \<notin> set (map st_key ?rest)"
  proof
    assume "numbered ?b ?u \<in> set (map st_key ?rest)"
    from rekey_keys [OF this] obtain b j where b: "b \<in> set (bases_from (i + 1) ss)"
      and j: "used_before (dict_set ?b (?u + 1) seen) b \<le> j" and eq: "numbered ?b ?u = numbered b j"
      by blast
    from "2.prems" b have "?b \<in> B" "b \<in> B" by auto
    from numbered_apart [OF assms this eq] j show False by (auto simp: used_before_def)
  qed
  ultimately show ?case by (simp add: Let_def used_before_def)
qed

definition keyed :: "string \<Rightarrow> plan_step" where
  "keyed k = \<lparr>st_key = k, st_tool = ''echo'', st_params = [], st_purpose = [], st_optional = False, st_expects = []\<rparr>"

text \<open>What re-keying promises. It keeps the steps, their order and everything but their keys;
  the keys come out distinct, repeated ones included, unless some base is itself the numbered form
  of another. In that case they may collide: the keys a, a-2, a come out as a, a-2, a-2.\<close>

theorem rekey_unique_unless_numbered:
  "map (\<lambda>s. s\<lparr>st_key := []\<rparr>) (pn_steps (rekey p)) = map (\<lambda>s. s\<lparr>st_key := []\<rparr>) (pn_steps p) \<and>
   (bases_apart (set (bases_from 0 (pn_steps p))) \<longrightarrow> distinct (map st_key (pn_steps (rekey p)))) \<and>
   map st_key (pn_steps (rekey (empty_plan\<lparr>pn_steps := map keyed [''a'', ''a-2'', ''a'']\<rparr>))) = [''a'', ''a-2'', ''a-2'']"
proof (intro conjI impI)
  show "map (\<lambda>s. s\<lparr>st_key := []\<rparr>) (pn_steps (rekey p)) = map (\<lambda>s. s\<lparr>st_key := []\<rparr>) (pn_steps p)"
    by (simp add: rekey_def rekey_same_work)
  show "distinct (map st_key (pn_steps (rekey p)))" if "bases_apart (set (bases_from 0 (pn_steps p)))"
    using rekey_distinct [OF that] by (simp add: rekey_def)
  show "map st_key (pn_steps (rekey (empty_plan\<lparr>pn_steps := map keyed [''a'', ''a-2'', ''a'']\<rparr>))) = [''a'', ''a-2'', ''a-2'']"
    by code_simp
qed

theorem rekey_unique_unless_numbered_witness:
  "distinct (map st_key (pn_steps (rekey (empty_plan\<lparr>pn_steps := map keyed [''a'', ''a'']\<rparr>))))"
proof -
  let ?p = "empty_plan\<lparr>pn_steps := map keyed [''a'', ''a'']\<rparr>"
  have "bases_from 0 (pn_steps ?p) = [''a'', ''a'']" by code_simp
  moreover have "''a'' \<noteq> numbered ''a'' k" if "0 < k" for k using that by (simp add: numbered_def)
  ultimately have "bases_apart (set (bases_from 0 (pn_steps ?p)))" by (simp add: bases_apart_def)
  then show ?thesis using rekey_unique_unless_numbered [of ?p] by blast
qed

end
