(* ===== verification/TextFold.thy ===== *)
theory TextFold
  imports Prelude
begin

section \<open>Text folding (text.py)\<close>

text \<open>
  \<open>fold\<close>: lower-case, strip accents, keep letters and digits. On bytes: ASCII, the letters of
  Latin-1 Supplement and Latin Extended-A (which is what the hand-made table and NFKD do to them
  after lower-casing), and combining marks, which disappear. Every other character counts as one
  that is not a word character, which is exact except for compatibility forms outside these
  blocks (full-width letters, ligatures).
\<close>

text \<open>The folded forms of U+00C0..U+00FF, U+0100..U+013F and U+0140..U+017F, in order.\<close>

definition reps :: "nat \<Rightarrow> string \<Rightarrow> string list" where
  "reps n s = replicate n s"

definition latin_c3 :: "string list" where
  "latin_c3 =
     reps 6 ''a'' @ [''ae'', ''c''] @ reps 4 ''e'' @ reps 4 ''i'' @ [''d'', ''n''] @ reps 5 ''o'' @
     ['' '', ''o''] @ reps 4 ''u'' @ [''y'', ''th'', ''ss''] @
     reps 6 ''a'' @ [''ae'', ''c''] @ reps 4 ''e'' @ reps 4 ''i'' @ [''d'', ''n''] @ reps 5 ''o'' @
     ['' '', ''o''] @ reps 4 ''u'' @ [''y'', ''th'', ''y'']"

definition latin_c4 :: "string list" where
  "latin_c4 =
     reps 6 ''a'' @ reps 8 ''c'' @ reps 4 ''d'' @ reps 10 ''e'' @ reps 8 ''g'' @ reps 2 ''h'' @ reps 2 '' '' @
     reps 10 ''i'' @ reps 2 ''ij'' @ reps 2 ''j'' @ reps 2 ''k'' @ ['' ''] @ reps 6 ''l'' @ [''l '']"

definition latin_c5 :: "string list" where
  "latin_c5 =
     [''l ''] @ reps 2 ''l'' @ reps 6 ''n'' @ ['' n''] @ reps 2 '' '' @ reps 6 ''o'' @ reps 2 ''oe'' @
     reps 6 ''r'' @ reps 8 ''s'' @ reps 4 ''t'' @ reps 2 '' '' @ reps 12 ''u'' @ reps 2 ''w'' @
     reps 3 ''y'' @ reps 6 ''z'' @ [''s'']"

definition fold_ascii :: "char \<Rightarrow> string" where
  "fold_ascii c =
     (let n = byte_of c in
      if 97 \<le> n \<and> n \<le> 122 \<or> 48 \<le> n \<and> n \<le> 57 then [c]
      else if 65 \<le> n \<and> n \<le> 90 then [lower_char c]
      else '' '')"

definition table_at :: "string list \<Rightarrow> char \<Rightarrow> string" where
  "table_at t c = (let n = byte_of c in if 128 \<le> n \<and> n - 128 < length t then t ! (n - 128) else '' '')"

text \<open>A character of two bytes.\<close>

definition fold_pair :: "char \<Rightarrow> char \<Rightarrow> string" where
  "fold_pair a b =
     (if a = CHR 0xC3 then table_at latin_c3 b
      else if a = CHR 0xC4 then table_at latin_c4 b
      else if a = CHR 0xC5 then table_at latin_c5 b
      else if a = CHR 0xC2 then
        (if b = CHR 0xAA then ''a'' else if b = CHR 0xBA then ''o'' else if b = CHR 0xB9 then ''1''
         else if b = CHR 0xB2 then ''2'' else if b = CHR 0xB3 then ''3'' else if b = CHR 0xBC then ''1 4''
         else if b = CHR 0xBD then ''1 2'' else if b = CHR 0xBE then ''3 4'' else '' '')
      else if a = CHR 0xCC \<or> (a = CHR 0xCD \<and> byte_of b < 176) then []
      else '' '')"

fun fold_chars :: "string \<Rightarrow> string" where
  "fold_chars [] = []"
| "fold_chars (a # r) =
     (if byte_of a < 192 \<or> 224 \<le> byte_of a then fold_ascii a @ fold_chars r
      else (case r of [] \<Rightarrow> '' '' | b # s \<Rightarrow> fold_pair a b @ fold_chars s))"

definition fold_words :: "string \<Rightarrow> string list" where
  "fold_words s = split_ws (fold_chars s)"

definition fold_text :: "string \<Rightarrow> string" where
  "fold_text s = join '' '' (fold_words s)"

subsection \<open>The alphabet of folded text\<close>

definition word_char :: "char \<Rightarrow> bool" where
  "word_char c = (let n = byte_of c in 97 \<le> n \<and> n \<le> 122 \<or> 48 \<le> n \<and> n \<le> 57)"

definition folded_char :: "char \<Rightarrow> bool" where
  "folded_char c = (word_char c \<or> c = CHR '' '')"

lemma table_alphabet: "t \<in> {latin_c3, latin_c4, latin_c5} \<Longrightarrow> list_all (list_all folded_char) t"
  by (auto simp: latin_c3_def latin_c4_def latin_c5_def reps_def folded_char_def word_char_def byte_of_def
      numeral_eq_Suc)

lemma table_at_alphabet: "list_all (list_all folded_char) t \<Longrightarrow> list_all folded_char (table_at t c)"
  by (auto simp: table_at_def Let_def list_all_length folded_char_def)

lemma fold_ascii_alphabet: "list_all folded_char (fold_ascii c)"
proof -
  have "byte_of (char_of (byte_of c + 32)) = byte_of c + 32" if "byte_of c \<le> 90"
    using that by (simp add: byte_of_def)
  then show ?thesis by (auto simp: fold_ascii_def folded_char_def word_char_def lower_char_def Let_def)
qed

lemma fold_pair_alphabet: "list_all folded_char (fold_pair a b)"
  using table_at_alphabet [OF table_alphabet]
  by (auto simp: fold_pair_def folded_char_def word_char_def byte_of_def)

lemma fold_chars_alphabet: "list_all folded_char (fold_chars s)"
proof (induction s rule: fold_chars.induct)
  case 1
  then show ?case by simp
next
  case (2 a r)
  then show ?case
    by (cases r) (auto simp: fold_ascii_alphabet fold_pair_alphabet folded_char_def [of "CHR '' ''"])
qed

lemma word_char_not_space: "word_char c \<Longrightarrow> \<not> is_space c"
  by (auto simp: word_char_def is_space_def Let_def)

lemma split_ws_aux_words:
  assumes "list_all folded_char s" and "list_all word_char acc"
  shows "\<forall>w \<in> set (split_ws_aux acc s). w \<noteq> [] \<and> list_all word_char w"
  using assms
proof (induction s arbitrary: acc)
  case Nil
  then show ?case by simp
next
  case (Cons c cs)
  have cs: "list_all folded_char cs" and "folded_char c" using Cons.prems(1) by simp_all
  then have c: "is_space c \<or> word_char c" by (auto simp: folded_char_def is_space_def byte_of_def)
  show ?case
  proof (cases "is_space c")
    case True
    have "\<forall>w \<in> set (split_ws_aux [] cs). w \<noteq> [] \<and> list_all word_char w"
      by (rule Cons.IH [OF cs]) simp
    with True Cons.prems(2) show ?thesis by simp
  next
    case False
    with c have "list_all word_char (c # acc)" using Cons.prems(2) by simp
    from Cons.IH [OF cs this] False show ?thesis by simp
  qed
qed

lemma fold_words_clean: "w \<in> set (fold_words s) \<Longrightarrow> w \<noteq> [] \<and> list_all word_char w"
  using split_ws_aux_words [OF fold_chars_alphabet [of s], of "[]"]
  by (auto simp: fold_words_def split_ws_def)

text \<open>Folding twice is folding once.\<close>

lemma fold_chars_word: "list_all folded_char s \<Longrightarrow> fold_chars s = s"
proof (induction s)
  case Nil
  then show ?case by simp
next
  case (Cons c cs)
  have c: "word_char c \<or> c = CHR '' ''" using Cons.prems by (simp add: folded_char_def)
  then have "byte_of c < 192" by (auto simp: word_char_def byte_of_def Let_def)
  moreover have "fold_ascii c = [c]" using c by (auto simp: fold_ascii_def word_char_def byte_of_def Let_def)
  ultimately show ?case using Cons by simp
qed

lemma split_ws_aux_run: "list_all word_char w \<Longrightarrow> w \<noteq> [] \<or> acc \<noteq> [] \<Longrightarrow>
    split_ws_aux acc (w @ rest) = (case rest of [] \<Rightarrow> [rev acc @ w]
      | c # cs \<Rightarrow> if is_space c then (rev acc @ w) # split_ws_aux [] cs else split_ws_aux (rev w @ acc) rest)"
  by (induction w arbitrary: acc) (auto simp: word_char_not_space split: list.splits)

lemma split_join_words:
  "\<forall>w \<in> set ws. w \<noteq> [] \<and> list_all word_char w \<Longrightarrow> split_ws (join '' '' ws) = ws"
proof (induction ws)
  case Nil
  then show ?case by (simp add: join_def split_ws_def)
next
  case (Cons w ws)
  have sp: "is_space (CHR '' '')" by (simp add: is_space_def byte_of_def)
  show ?case
  proof (cases ws)
    case Nil
    with Cons.prems split_ws_aux_run [of w "[]" "[]"] show ?thesis
      by (simp add: join_def split_ws_def)
  next
    case (Cons v vs)
    have "join '' '' (w # ws) = w @ CHR '' '' # join '' '' ws" by (simp add: join_def Cons)
    with Cons.IH Cons.prems split_ws_aux_run [of w "[]" "CHR '' '' # join '' '' ws"] sp
    show ?thesis by (simp add: split_ws_def)
  qed
qed

lemma fold_idem: "fold_words (fold_text s) = fold_words s"
proof -
  have clean: "\<forall>w \<in> set (fold_words s). w \<noteq> [] \<and> list_all word_char w" using fold_words_clean by blast
  have "list_all folded_char (join '' '' ws)" if "\<forall>w \<in> set ws. w \<noteq> [] \<and> list_all word_char w" for ws
    using that by (induction ws) (auto simp: join_def folded_char_def list_all_iff split: list.splits)
  then have "fold_chars (fold_text s) = fold_text s"
    using clean by (simp add: fold_chars_word fold_text_def)
  then show ?thesis using split_join_words [OF clean] by (simp add: fold_words_def fold_text_def)
qed

end
