(* ===== verification/Reflexes.thy ===== *)
theory Reflexes
  imports Goals TextFold Policy
begin

section \<open>Questions this machine answers about itself (agent/reflex.py)\<close>

text \<open>
  The table of reflexes, the validators of what a tool returned and the sentences built from it.
  Python's floats are exact rationals here: comparisons and formatted numbers are those of the
  exact values. The text of a number (\<open>float("...")\<close>) is parsed.
\<close>

definition ORIGIN :: string where "ORIGIN = ''reflex''"

subsection \<open>Numbers\<close>

definition all_digits :: "string \<Rightarrow> nat option" where
  "all_digits s = (case s of c # cs \<Rightarrow> if is_digit c then digits_value 0 s else None | [] \<Rightarrow> None)"

definition count_digits :: "string \<Rightarrow> nat" where
  "count_digits s = length (filter is_digit s)"

text \<open>Digits with an optional point: the value, if there is a digit at all.\<close>

definition mantissa :: "string \<Rightarrow> rat option" where
  "mantissa s =
     (let whole = takeWhile (\<lambda>c. c \<noteq> CHR ''.'') s; rest = drop (length whole) s
      in case rest of
           [] \<Rightarrow> map_option of_nat (all_digits whole)
         | p # fr \<Rightarrow>
             (case (if whole = [] then Some 0 else all_digits whole,
                    if fr = [] then Some 0 else all_digits fr) of
                (Some a, Some b) \<Rightarrow>
                  if whole = [] \<and> fr = [] then None
                  else Some (of_nat a + of_nat b / 10 ^ count_digits fr)
              | _ \<Rightarrow> None))"

definition unsigned_float :: "string \<Rightarrow> rat option" where
  "unsigned_float s =
     (let m = takeWhile (\<lambda>c. c \<noteq> CHR ''e'' \<and> c \<noteq> CHR ''E'') s; rest = drop (length m) s
      in case mantissa m of
           None \<Rightarrow> None
         | Some r \<Rightarrow>
             (case rest of
                [] \<Rightarrow> Some r
              | e # x \<Rightarrow>
                  (case x of
                     c # cs \<Rightarrow>
                       if c = CHR ''-'' then map_option (\<lambda>n. r / 10 ^ n) (all_digits cs)
                       else if c = CHR ''+'' then map_option (\<lambda>n. r * 10 ^ n) (all_digits cs)
                       else map_option (\<lambda>n. r * 10 ^ n) (all_digits x)
                   | [] \<Rightarrow> None)))"

text \<open>\<open>float(text)\<close> when the result is finite.\<close>

definition float_text :: "string \<Rightarrow> rat option" where
  "float_text t =
     (case strip t of
        c # cs \<Rightarrow>
          if c = CHR ''-'' then map_option uminus (unsigned_float cs)
          else if c = CHR ''+'' then unsigned_float cs
          else unsigned_float (c # cs)
      | [] \<Rightarrow> None)"

text \<open>\<open>_number\<close>: a finite, non-negative number, or nothing.\<close>

definition measured :: "pyval \<Rightarrow> rat option" where
  "measured v =
     (let r = (case v of PInt i \<Rightarrow> Some (of_int i) | PFloat q t \<Rightarrow> Some q | PStr s \<Rightarrow> float_text s | _ \<Rightarrow> None)
      in case r of Some q \<Rightarrow> if q < 0 then None else Some q | None \<Rightarrow> None)"

definition gib :: "rat \<Rightarrow> string" where
  "gib q = map (\<lambda>c. if c = CHR ''.'' then CHR '','' else c) (fixed_text 1 (q / 1024 ^ 3)) @ '' GB''"

definition TOLERANCE_BYTES :: rat where "TOLERANCE_BYTES = 1024 * 1024"
definition TOLERANCE_PERCENT :: rat where "TOLERANCE_PERCENT = 15 / 100"

definition slack :: "rat \<Rightarrow> rat" where
  "slack tot = max (min TOLERANCE_BYTES (tot / 1000)) 1"

definition trimmed :: "pydict \<Rightarrow> string \<Rightarrow> string" where
  "trimmed d k = strip (str_or_empty (dget d k))"

definition or_zero :: "rat option \<Rightarrow> rat" where
  "or_zero r = (case r of Some q \<Rightarrow> q | None \<Rightarrow> 0)"

subsection \<open>Disk space\<close>

definition percent_of :: "rat \<Rightarrow> rat \<Rightarrow> rat" where
  "percent_of tot left = (tot - left) / tot * 100"

definition parts_disagree :: "pydict \<Rightarrow> rat option \<Rightarrow> rat \<Rightarrow> bool" where
  "parts_disagree d used sl =
     (case (measured (dget d ''reserved''), measured (dget d ''filesystem_used''), used) of
        (Some r, Some f, Some u) \<Rightarrow> sl < \<bar>f + r - u\<bar>
      | _ \<Rightarrow> False)"

definition validate_disk :: "pyval \<Rightarrow> string" where
  "validate_disk v =
     (case v of
        PDict d \<Rightarrow>
          (case (measured (dget d ''total''), measured (dget d ''free'')) of
             (Some tot, Some left) \<Rightarrow>
               let sl = slack tot; used = measured (dget d ''used'');
                   pct = measured (dget d ''percent_used'')
               in if tot \<le> 0 then ''zmierzony rozmiar dysku to zero''
                  else if tot + sl < left then
                    ''wolne miejsce wi'' @ pl_e @ ''ksze ni'' @ pl_z @ '' pojemno'' @ pl_s @ pl_c @ '' '' @ em_dash @ '' wynik nie ma sensu''
                  else if (case used of Some u \<Rightarrow> sl < \<bar>(tot - left) - u\<bar> | None \<Rightarrow> False) then
                    ''zaj'' @ pl_e @ ''te + wolne nie sumuje si'' @ pl_e @ '' do pojemno'' @ pl_s @ ''ci''
                  else if (case pct of Some q \<Rightarrow> TOLERANCE_PERCENT < \<bar>q - percent_of tot left\<bar> | None \<Rightarrow> False) then
                    ''procent zaj'' @ pl_e @ ''to'' @ pl_s @ ''ci ('' @ fixed_text 1 (the pct) @ ''%) nie zgadza si'' @ pl_e @
                    '' z wolnym miejscem ('' @ fixed_text 1 (percent_of tot left) @ ''%)''
                  else if parts_disagree d used sl then
                    ''zaj'' @ pl_e @ ''te przez pliki + zarezerwowane nie sumuje si'' @ pl_e @ '' do zaj'' @ pl_e @ ''tych''
                  else []
           | _ \<Rightarrow> ''brak zmierzonego rozmiaru dysku w wyniku'')
      | _ \<Rightarrow> ''narz'' @ pl_e @ ''dzie nie zwr'' @ pl_o @ ''ci'' @ pl_l @ ''o danych o dysku'')"

definition present_disk :: "pydict \<Rightarrow> string" where
  "present_disk d =
     (let place = trimmed d ''path'';
          tot = or_zero (measured (dget d ''total''));
          left = or_zero (measured (dget d ''free''));
          pct = (if tot \<noteq> 0 then percent_of tot left else 0);
          line = (if place \<noteq> [] then ''Na '' @ place else ''Na dysku'') @ '' zosta'' @ pl_l @ ''o '' @ gib left @
                 '' z '' @ gib tot @ '' '' @ em_dash @ '' zaj'' @ pl_e @ ''te '' @ fixed_text 0 pct @ ''%.'';
          reserved = or_zero (measured (dget d ''reserved''))
      in if tot \<noteq> 0 \<and> 1 / 100 < reserved / tot then
           line @ '' Pliki zajmuj'' @ pl_a @ '' '' @ gib (or_zero (measured (dget d ''filesystem_used''))) @
           ''; pozosta'' @ pl_l @ ''e '' @ gib reserved @ '' jest wolne na woluminie, ale niedost'' @ pl_e @
           ''pne tutaj (limit systemu lub kontenera).''
         else line)"

subsection \<open>Memory\<close>

definition validate_memory :: "pyval \<Rightarrow> string" where
  "validate_memory v =
     (case v of
        PDict d \<Rightarrow>
          (case (measured (dget d ''total''), measured (dget d ''available'')) of
             (Some tot, Some left) \<Rightarrow>
               let sl = slack tot; used = measured (dget d ''used'');
                   pct = measured (dget d ''percent_used'')
               in if tot \<le> 0 then ''zmierzona pami'' @ pl_e @ pl_c @ '' to zero''
                  else if tot + sl < left then
                    ''wolnej pami'' @ pl_e @ ''ci wi'' @ pl_e @ ''cej ni'' @ pl_z @ '' ca'' @ pl_l @ ''ej '' @ em_dash @ '' wynik nie ma sensu''
                  else if (case used of Some u \<Rightarrow> sl < \<bar>(tot - left) - u\<bar> | None \<Rightarrow> False) then
                    ''zaj'' @ pl_e @ ''ta + wolna pami'' @ pl_e @ pl_c @ '' nie sumuje si'' @ pl_e @ '' do ca'' @ pl_l @ ''o'' @ pl_s @ ''ci''
                  else if (case pct of Some q \<Rightarrow> TOLERANCE_PERCENT < \<bar>q - percent_of tot left\<bar> | None \<Rightarrow> False) then
                    ''procent zaj'' @ pl_e @ ''tej pami'' @ pl_e @ ''ci nie zgadza si'' @ pl_e @ '' z woln'' @ pl_a
                  else []
           | _ \<Rightarrow> ''brak zmierzonej pami'' @ pl_e @ ''ci w wyniku'')
      | _ \<Rightarrow> ''narz'' @ pl_e @ ''dzie nie zwr'' @ pl_o @ ''ci'' @ pl_l @ ''o danych o pami'' @ pl_e @ ''ci'')"

definition present_memory :: "pydict \<Rightarrow> string" where
  "present_memory d =
     (let tot = or_zero (measured (dget d ''total''));
          left = or_zero (measured (dget d ''available''));
          pct = (if tot \<noteq> 0 then percent_of tot left else 0)
      in ''Wolnej pami'' @ pl_e @ ''ci: '' @ gib left @ '' z '' @ gib tot @ '' '' @ em_dash @
         '' zaj'' @ pl_e @ ''te '' @ fixed_text 0 pct @ ''%.'')"

subsection \<open>Processes\<close>

definition validate_processes :: "pyval \<Rightarrow> string" where
  "validate_processes v =
     (case v of
        PDict d \<Rightarrow>
          (case measured (dget d ''scanned'') of
             None \<Rightarrow> ''brak informacji, ile proces'' @ pl_o @ ''w przejrzano''
           | Some n \<Rightarrow> if n < 1 then ''nie uda'' @ pl_l @ ''o si'' @ pl_e @ '' odczyta'' @ pl_c @ '' listy proces'' @ pl_o @ ''w'' else [])
      | _ \<Rightarrow> ''narz'' @ pl_e @ ''dzie nie zwr'' @ pl_o @ ''ci'' @ pl_l @ ''o danych o procesach'')"

definition processes_word :: "nat \<Rightarrow> string" where
  "processes_word n =
     (if n = 1 then ''proces''
      else if 2 \<le> n mod 10 \<and> n mod 10 \<le> 4 \<and> \<not> (12 \<le> n mod 100 \<and> n mod 100 < 15) then ''procesy''
      else ''proces'' @ pl_o @ ''w'')"

definition memory_mb :: "pydict \<Rightarrow> rat" where
  "memory_mb r = or_zero (measured (dget r ''memory_mb''))"

text \<open>\<open>max(rows, key=...)\<close>: the first of the largest.\<close>

definition heaviest :: "pydict list \<Rightarrow> pydict option" where
  "heaviest rows =
     fold (\<lambda>r best. case best of None \<Rightarrow> Some r | Some b \<Rightarrow> if memory_mb b < memory_mb r then Some r else Some b)
       rows None"

definition dict_rows :: "pyval list \<Rightarrow> pydict list" where
  "dict_rows xs = List.map_filter (\<lambda>x. case x of PDict d \<Rightarrow> Some d | _ \<Rightarrow> None) xs"

definition whole :: "pyval \<Rightarrow> nat" where
  "whole v = nat \<lfloor>or_zero (measured v)\<rfloor>"

definition name_or :: "pydict \<Rightarrow> string" where
  "name_or r = (if truthy (dget r ''name'') then py_str (dget r ''name'') else ''?'')"

text \<open>Rows that are no list are read as none.\<close>

definition present_processes :: "pydict \<Rightarrow> string" where
  "present_processes d =
     (let scanned = whole (dget d ''scanned'');
          rows = (case dget d ''matched'' of PList xs \<Rightarrow> xs | _ \<Rightarrow> []);
          query = trimmed d ''query''
      in if query = [] then
           ''Dzia'' @ pl_l @ ''a '' @ nat_str scanned @ '' '' @ processes_word scanned @ ''.'' @
           (case heaviest (dict_rows rows) of
              None \<Rightarrow> []
            | Some h \<Rightarrow>
                if h = [] then []
                else '' Najwi'' @ pl_e @ ''cej pami'' @ pl_e @ ''ci zajmuje '' @ name_or h @
                     (if 1 \<le> memory_mb h then '' '' @ em_dash @ '' '' @ fixed_text 0 (memory_mb h) @ '' MB.'' else ''.''))
         else
           let n = whole (dget d ''match_count'')
           in if n = 0 then
                ''Nie widz'' @ pl_e @ '' procesu '' @ [CHR 0xE2, CHR 0x80, CHR 0x9E] @ query @ [CHR 0xE2, CHR 0x80, CHR 0x9D] @
                ''. Przejrza'' @ pl_l @ ''em '' @ nat_str scanned @ '' '' @ processes_word scanned @ ''.''
              else
                ''Tak, '' @ [CHR 0xE2, CHR 0x80, CHR 0x9E] @ query @ [CHR 0xE2, CHR 0x80, CHR 0x9D] @ '' dzia'' @ pl_l @ ''a '' @ em_dash @
                '' '' @ nat_str n @ '' '' @
                (if n = 1 then ''proces'' else if 2 \<le> n \<and> n \<le> 4 then ''procesy'' else ''proces'' @ pl_o @ ''w'') @
                '' (PID: '' @ join '', '' (map (\<lambda>r. nat_str (whole (dget r ''pid''))) (dict_rows (take 3 rows))) @ '').'')"

subsection \<open>The system and the clock\<close>

definition validate_system :: "pyval \<Rightarrow> string" where
  "validate_system v =
     (case v of
        PDict d \<Rightarrow> if trimmed d ''system'' = [] then ''brak nazwy systemu w wyniku'' else []
      | _ \<Rightarrow> ''narz'' @ pl_e @ ''dzie nie zwr'' @ pl_o @ ''ci'' @ pl_l @ ''o danych o systemie'')"

definition present_system :: "pydict \<Rightarrow> string" where
  "present_system d =
     (let parts = filter (\<lambda>p. p \<noteq> []) [trimmed d ''system'', trimmed d ''release''];
          machine = trimmed d ''machine''; host = trimmed d ''hostname''
      in ''System: '' @ join '' '' parts @ ''.'' @
         (if machine \<noteq> [] then '' Architektura: '' @ machine @ ''.'' else []) @
         (if host \<noteq> [] then '' Nazwa komputera: '' @ host @ ''.'' else []))"

definition validate_time :: "pyval \<Rightarrow> string" where
  "validate_time v =
     (case v of
        PDict d \<Rightarrow> if trimmed d ''local'' \<noteq> [] then [] else ''narz'' @ pl_e @ ''dzie nie zwr'' @ pl_o @ ''ci'' @ pl_l @ ''o czasu''
      | PStr s \<Rightarrow> if strip s \<noteq> [] then [] else ''narz'' @ pl_e @ ''dzie nie zwr'' @ pl_o @ ''ci'' @ pl_l @ ''o czasu''
      | _ \<Rightarrow> ''narz'' @ pl_e @ ''dzie nie zwr'' @ pl_o @ ''ci'' @ pl_l @ ''o czasu'')"

definition present_time :: "pyval \<Rightarrow> string" where
  "present_time v =
     (case v of
        PDict d \<Rightarrow> ''Jest '' @ trimmed d ''local'' @ ''.'' @
          (if trimmed d ''timezone'' \<noteq> [] then '' Strefa: '' @ trimmed d ''timezone'' @ ''.'' else [])
      | _ \<Rightarrow> ''Jest '' @ strip (py_str v) @ ''.'')"

subsection \<open>The table\<close>

record reflex =
  rx_name :: string
  rx_tool :: string
  rx_purpose :: string
  rx_needs :: "string list list"
  rx_validate :: "pyval \<Rightarrow> string"
  rx_present :: "pyval \<Rightarrow> string"
  rx_named :: bool

definition Q_QUANTITY :: "string list" where
  "Q_QUANTITY = [''ile'', ''wolne'', ''wolnego'', ''zostalo'', ''miejsca'', ''miejsce'', ''zajete'',
     ''zajetosc'', ''space'', ''free'', ''left'', ''usage'']"

definition Q_DISK :: "string list" where
  "Q_DISK = [''dysk'', ''dysku'', ''dysku;'', ''dysko'', ''dyski'', ''disk'', ''drive'', ''partycja'',
     ''partycji'', ''ssd'']"

definition Q_MEMORY :: "string list" where
  "Q_MEMORY = [''pamiec'', ''pamieci'', ''ram'', ''memory'']"

definition Q_SYSTEM :: "string list" where
  "Q_SYSTEM = [''system'', ''systemu'', ''windows'', ''os'', ''wersja'', ''wersje'', ''wersji'',
     ''komputer'', ''komputerze'', ''maszyna'']"

definition Q_WHAT :: "string list" where
  "Q_WHAT = [''jaki'', ''jaka'', ''jakie'', ''ktory'', ''ktora'', ''co'', ''what'', ''informacje'',
     ''info'', ''which'', ''version'']"

definition Q_TIME :: "string list" where
  "Q_TIME = [''godzina'', ''godzine'', ''czas'', ''time'', ''clock'', ''zegar'']"

definition Q_PROCESSES :: "string list" where
  "Q_PROCESSES = [''procesy'', ''proces'', ''procesow'', ''programy'', ''program'', ''aplikacje'',
     ''processes'', ''apps'', ''tasks'']"

definition Q_SHOW :: "string list" where
  "Q_SHOW = [''pokaz'', ''wypisz'', ''lista'', ''liste'', ''wylistuj'', ''jakie'', ''uruchomione'',
     ''dzialajace'', ''show'', ''list'', ''running'']"

definition Q_RUNNING :: "string list" where
  "Q_RUNNING = [''dziala'', ''uruchomiony'', ''uruchomiona'', ''uruchomione'', ''wlaczony'',
     ''wlaczona'', ''running'', ''open'', ''otwarty'']"

definition Q_NOISE :: "string list" where
  "Q_NOISE = [''jest'', ''sa'', ''teraz'', ''jeszcze'', ''czy'', ''is'', ''the'', ''u'', ''mnie'', ''na'',
     ''komputerze'', ''moim'', ''to'', ''tam'', ''cos'', ''jakis'', ''gdzies'', ''it'', ''that'',
     ''this'', ''still'', ''already'']"

definition Q_IS_IT :: "string list" where
  "Q_IS_IT = [''czy'', ''is'']"

definition Q_NOW :: "string list" where
  "Q_NOW = [''teraz'', ''jest'', ''obecnie'', ''now'', ''current'', ''aktualnie'']"

text \<open>A presenter is only called on what its validator accepted.\<close>

definition on_dict :: "(pydict \<Rightarrow> string) \<Rightarrow> pyval \<Rightarrow> string" where
  "on_dict f v = (case v of PDict d \<Rightarrow> f d | _ \<Rightarrow> [])"

definition REFLEXES :: "reflex list" where
  "REFLEXES =
     [\<lparr>rx_name = ''disk-space'', rx_tool = ''disk_usage'', rx_purpose = ''Odczyt wolnego miejsca na dysku'',
       rx_needs = [Q_DISK, Q_QUANTITY], rx_validate = validate_disk, rx_present = on_dict present_disk,
       rx_named = False\<rparr>,
      \<lparr>rx_name = ''memory'', rx_tool = ''memory_usage'',
       rx_purpose = ''Odczyt zaj'' @ pl_e @ ''to'' @ pl_s @ ''ci pami'' @ pl_e @ ''ci'',
       rx_needs = [Q_MEMORY, Q_QUANTITY], rx_validate = validate_memory, rx_present = on_dict present_memory,
       rx_named = False\<rparr>,
      \<lparr>rx_name = ''process-named'', rx_tool = ''process_find'',
       rx_purpose = ''Sprawdzenie, czy dany program dzia'' @ pl_l @ ''a'',
       rx_needs = [Q_IS_IT, Q_RUNNING], rx_validate = validate_processes,
       rx_present = on_dict present_processes, rx_named = True\<rparr>,
      \<lparr>rx_name = ''process-list'', rx_tool = ''process_find'',
       rx_purpose = ''Odczyt listy dzia'' @ pl_l @ ''aj'' @ pl_a @ ''cych proces'' @ pl_o @ ''w'',
       rx_needs = [Q_PROCESSES, Q_SHOW], rx_validate = validate_processes,
       rx_present = on_dict present_processes, rx_named = False\<rparr>,
      \<lparr>rx_name = ''system-info'', rx_tool = ''system_info'', rx_purpose = ''Odczyt informacji o systemie'',
       rx_needs = [Q_SYSTEM, Q_WHAT], rx_validate = validate_system, rx_present = on_dict present_system,
       rx_named = False\<rparr>,
      \<lparr>rx_name = ''clock'', rx_tool = ''current_time'', rx_purpose = ''Odczyt czasu lokalnego'',
       rx_needs = [Q_TIME, Q_NOW], rx_validate = validate_time, rx_present = present_time,
       rx_named = False\<rparr>]"

definition rx_matches :: "string list \<Rightarrow> reflex \<Rightarrow> bool" where
  "rx_matches ws r = list_all (\<lambda>g. list_ex (\<lambda>w. w \<in> set ws) g) (rx_needs r)"

definition find_reflex :: "string \<Rightarrow> reflex option" where
  "find_reflex what = find (rx_matches (fold_words what)) REFLEXES"

text \<open>The dict \<open>BY_TOOL\<close>: the last entry of a tool wins.\<close>

definition by_tool :: "string \<Rightarrow> reflex option" where
  "by_tool tool = find (\<lambda>r. rx_tool r = tool) (rev REFLEXES)"

text \<open>\<open>_named_process\<close>: the program someone asked about, if the words name one.\<close>

definition named_after :: "string \<Rightarrow> string list \<Rightarrow> string option" where
  "named_after marker ws =
     (case dropWhile (\<lambda>w. w \<noteq> marker) ws of
        [] \<Rightarrow> None
      | _ # later \<Rightarrow> find (\<lambda>w. w \<notin> set Q_RUNNING \<and> w \<notin> set Q_NOISE) later)"

definition named_process :: "string \<Rightarrow> string option" where
  "named_process what =
     (let ws = fold_words what
      in case named_after ''czy'' ws of Some n \<Rightarrow> Some n | None \<Rightarrow> named_after ''is'' ws)"

definition reflex_plan :: "reflex \<Rightarrow> pydict \<Rightarrow> plan" where
  "reflex_plan r params =
     \<lparr>pn_summary = rx_purpose r,
      pn_steps = [\<lparr>st_key = rx_name r, st_tool = rx_tool r, st_params = params,
        st_purpose = rx_purpose r, st_optional = False,
        st_expects = ''zmierzone warto'' @ pl_s @ ''ci''\<rparr>],
      pn_question = [], pn_assumptions = [], pn_notes = [], pn_origin = ORIGIN\<rparr>"

definition plan_for :: "string \<Rightarrow> (string \<Rightarrow> bool) option \<Rightarrow> plan option" where
  "plan_for what available =
     (case find_reflex what of
        None \<Rightarrow> None
      | Some r \<Rightarrow>
          if (case available of None \<Rightarrow> False | Some f \<Rightarrow> \<not> f (rx_tool r)) then None
          else if rx_named r then
            (case named_process what of
               None \<Rightarrow> None
             | Some n \<Rightarrow> Some (reflex_plan r [(''name'', PStr n)]))
          else Some (reflex_plan r []))"

definition reflex_check :: "string \<Rightarrow> pyval \<Rightarrow> string" where
  "reflex_check tool v =
     (case by_tool tool of
        None \<Rightarrow> ''nie umiem sprawdzi'' @ pl_c @ '' wyniku narz'' @ pl_e @ ''dzia '' @ tool
      | Some r \<Rightarrow> rx_validate r v)"

definition reflex_answer :: "string \<Rightarrow> pyval \<Rightarrow> string" where
  "reflex_answer tool v =
     (case by_tool tool of
        None \<Rightarrow> []
      | Some r \<Rightarrow> if rx_validate r v \<noteq> [] then [] else rx_present r v)"

subsection \<open>What an accepted measurement says\<close>

lemma measured_nonneg: "measured v = Some q \<Longrightarrow> 0 \<le> q"
  by (auto simp: measured_def Let_def split: option.splits if_splits)

lemma slack_pos: "1 \<le> slack t"
  by (simp add: slack_def)

lemma by_tool_disk:
  "by_tool ''disk_usage'' = Some (hd REFLEXES)" "rx_validate (hd REFLEXES) = validate_disk"
  by (simp_all add: by_tool_def REFLEXES_def)

text \<open>An accepted disk reading is coherent: parts add up within the slack, and so does the
  percentage.\<close>

lemma validate_disk_coherent:
  assumes "validate_disk (PDict d) = []"
  shows "\<exists>tot left. measured (dget d ''total'') = Some tot \<and> measured (dget d ''free'') = Some left \<and>
    0 < tot \<and> left \<le> tot + slack tot \<and>
    (\<forall>u. measured (dget d ''used'') = Some u \<longrightarrow> \<bar>(tot - left) - u\<bar> \<le> slack tot) \<and>
    (\<forall>q. measured (dget d ''percent_used'') = Some q \<longrightarrow> \<bar>q - percent_of tot left\<bar> \<le> TOLERANCE_PERCENT)"
proof (cases "measured (dget d ''total'')")
  case None
  with assms show ?thesis by (simp add: validate_disk_def)
next
  case (Some tot)
  show ?thesis
  proof (cases "measured (dget d ''free'')")
    case None
    with assms Some show ?thesis by (simp add: validate_disk_def)
  next
    case left: (Some left)
    with assms Some show ?thesis
      by (simp add: validate_disk_def Let_def not_le not_less split: if_splits option.splits)
  qed
qed

lemma present_nonempty: "r \<in> set REFLEXES \<Longrightarrow> rx_validate r v = [] \<Longrightarrow> rx_present r v \<noteq> []"
  by (cases v)
     (auto simp: REFLEXES_def on_dict_def present_disk_def present_memory_def present_processes_def
        present_system_def present_time_def validate_disk_def validate_memory_def validate_processes_def
        validate_system_def validate_time_def Let_def split: if_splits)

lemma answer_iff_check:
  "reflex_answer tool v \<noteq> [] \<longleftrightarrow> reflex_check tool v = []"
proof (cases "by_tool tool")
  case None
  then show ?thesis by (simp add: reflex_answer_def reflex_check_def)
next
  case (Some r)
  then have "r \<in> set REFLEXES" using find_SomeD [of _ "rev REFLEXES"] by (fastforce simp: by_tool_def)
  with Some present_nonempty [of r v] show ?thesis by (simp add: reflex_answer_def reflex_check_def)
qed

text \<open>What a report may call a measurement: an answer is given exactly for a result that passed
  its check, and a disk reading that passed is coherent - sizes present, a positive capacity, free
  space and used space adding up to it within the slack, and a percentage that agrees.\<close>

theorem measured_answers_are_checked:
  "(reflex_answer tool v \<noteq> [] \<longleftrightarrow> reflex_check tool v = []) \<and>
   (tool = ''disk_usage'' \<and> reflex_answer tool v \<noteq> [] \<longrightarrow>
     (\<exists>d tot left. v = PDict d \<and> measured (dget d ''total'') = Some tot \<and>
        measured (dget d ''free'') = Some left \<and> 0 < tot \<and> left \<le> tot + slack tot \<and>
        (\<forall>u. measured (dget d ''used'') = Some u \<longrightarrow> \<bar>(tot - left) - u\<bar> \<le> slack tot) \<and>
        (\<forall>q. measured (dget d ''percent_used'') = Some q \<longrightarrow>
           \<bar>q - percent_of tot left\<bar> \<le> TOLERANCE_PERCENT)))"
proof (intro conjI impI)
  show "reflex_answer tool v \<noteq> [] \<longleftrightarrow> reflex_check tool v = []" by (rule answer_iff_check)
next
  assume a: "tool = ''disk_usage'' \<and> reflex_answer tool v \<noteq> []"
  then have "reflex_check ''disk_usage'' v = []" using answer_iff_check by blast
  then have ok: "validate_disk v = []" by (simp add: reflex_check_def by_tool_disk)
  then obtain d where v: "v = PDict d" by (cases v) (simp_all add: validate_disk_def)
  with validate_disk_coherent [of d] ok show "\<exists>d tot left. v = PDict d \<and> measured (dget d ''total'') = Some tot \<and>
        measured (dget d ''free'') = Some left \<and> 0 < tot \<and> left \<le> tot + slack tot \<and>
        (\<forall>u. measured (dget d ''used'') = Some u \<longrightarrow> \<bar>(tot - left) - u\<bar> \<le> slack tot) \<and>
        (\<forall>q. measured (dget d ''percent_used'') = Some q \<longrightarrow>
           \<bar>q - percent_of tot left\<bar> \<le> TOLERANCE_PERCENT)"
    by blast
qed

theorem measured_answers_are_checked_witness:
  "let d = [(''total'', PInt 1000), (''free'', PInt 400), (''used'', PInt 600)]
   in reflex_answer ''disk_usage'' (PDict d) \<noteq> [] \<and> 0 < slack 1000"
proof -
  let ?d = "[(''total'', PInt 1000), (''free'', PInt 400), (''used'', PInt 600)]"
  have "reflex_check ''disk_usage'' (PDict ?d) = []"
    by (simp add: reflex_check_def by_tool_disk validate_disk_def measured_def dget_def slack_def
        TOLERANCE_BYTES_def parts_disagree_def)
  then show ?thesis
    using measured_answers_are_checked [of "''disk_usage''" "PDict ?d"] slack_pos [of 1000] by simp
qed

end
