(* ===== verification/Planner.thy ===== *)
theory Planner
  imports Reflexes
begin

section \<open>Turning an outcome into a runnable plan (agent/planner.py)\<close>

text \<open>
  The prompts, the question to the model with its one structured retry, the validation of what
  came back against the registry, and the shortcut for questions the machine answers itself. The
  model router and the memory are parameters: the router answers the n-th request with an
  exception, a text that is no JSON, or a JSON value; the memory gives the remembered records of
  a goal. What the planner keeps of them is how often it asked.
\<close>

subsection \<open>Asking a model\<close>

datatype chat_role = System_role | User_role

datatype privacy = PRIV_ANY | PREFER_LOCAL | LOCAL_ONLY

datatype job = JOB_PLAN | JOB_REASON | JOB_CODE | JOB_CHAT | JOB_CLASSIFY | JOB_SUMMARIZE | JOB_EXTRACT | JOB_VISION | JOB_VOICE

record ask_request =
  rq_job :: job
  rq_privacy :: privacy
  rq_messages :: "(chat_role \<times> string) list"
  rq_temperature :: rat
  rq_max_tokens :: nat

datatype reply = Refused exn | Garbled garis_error | Read pyval bool

record memory_line =
  ml_kind :: string
  ml_subject :: string
  ml_content :: string

record 'h planner =
  pl_router :: "nat \<Rightarrow> ask_request \<Rightarrow> reply"
  pl_registry :: "'h registry"
  pl_memory :: "(string \<Rightarrow> memory_line list) option"
  pl_language :: string
  pl_platform :: string
  pl_float :: "pyval \<Rightarrow> pyval option"

subsection \<open>Prompts\<close>

definition system_prompt :: "string \<Rightarrow> string" where
  "system_prompt language =
     ''Jeste'' @ pl_s @ '' silnikiem planowania GARIS-a '' @ em_dash @ '' osobistego agenta, kt'' @ pl_o @
     ''ry wykonuje prac'' @ pl_e @ '' cyfrow'' @ pl_a @ '' za u'' @ pl_z @
     ''ytkownika na komputerze z Windows 11.'' @ nl @ nl @ ''Twoje zadanie: zamieni'' @ pl_c @ '' CEL u'' @
     pl_z @ ''ytkownika w plan konkretnych wywo'' @ pl_l @ ''a'' @ pl_n @ '' narz'' @ pl_e @ ''dzi.'' @ nl @
     nl @ ''Zasady:'' @ nl @ ''1. U'' @ pl_z @ ''ytkownik m'' @ pl_o @
     ''wi, jaki chce rezultat. Ty decydujesz jak. Nie pytaj o metod'' @ pl_e @ ''.'' @ nl @ ''2. U'' @ pl_z @
     ''ywaj wy'' @ pl_l @ pl_a @ ''cznie narz'' @ pl_e @ ''dzi z listy. Nie wymy'' @ pl_s @
     ''laj nazw ani parametr'' @ pl_o @ ''w.'' @ nl @ ''3. Plan musi by'' @ pl_c @ '' wykonalny od pocz'' @
     pl_a @ ''tku do ko'' @ pl_n @ ''ca bez udzia'' @ pl_l @ ''u u'' @ pl_z @ ''ytkownika.'' @ nl @
     ''4. Najpierw rozpoznanie (odczyt stanu), potem zmiany. Nie zmieniaj czego'' @ pl_s @ '','' @ nl @
     ''   czego wcze'' @ pl_s @ ''niej nie sprawdzi'' @ pl_l @ ''e'' @ pl_s @ ''.'' @ nl @
     ''5. Nie zadawaj pyta'' @ pl_n @ '', je'' @ pl_s @ ''li da si'' @ pl_e @ '' przyj'' @ pl_a @ pl_c @
     '' rozs'' @ pl_a @ ''dne za'' @ pl_l @ ''o'' @ pl_z @ ''enie '' @ em_dash @ '' zapisz je w'' @ nl @
     ''   '' @ [CHR 0x22] @ ''assumptions'' @ [CHR 0x22] @ ''. Pytaj wy'' @ pl_l @ pl_a @
     ''cznie wtedy, gdy bez odpowiedzi zadanie zrobi'' @ pl_l @ ''by'' @ pl_s @ nl @ ''   '' @ pl_x @
     ''le albo nieodwracalnie (np. nie wiesz, kt'' @ pl_o @ ''ry z dw'' @ pl_o @ ''ch serwer'' @ pl_o @
     ''w).'' @ nl @ ''6. Po'' @ pl_s @ ''wiadcze'' @ pl_n @ '' nie wpisuj w parametry. U'' @ pl_z @
     ''ywaj referencji '' @ [CHR 0x22] @ ''vault://nazwa'' @ [CHR 0x22] @ ''.'' @ nl @ ''7. Krok '' @
     [CHR 0x22] @ ''expects'' @ [CHR 0x22] @ '' opisuje, jak wygl'' @ pl_a @ ''da dobry wynik '' @ em_dash @
     '' s'' @ pl_l @ ''u'' @ pl_z @ ''y do weryfikacji.'' @ nl @ ''8. Maksymalnie '' @
     nat_str MAX_STEPS @
     '' krok'' @ pl_o @ ''w. Krok, kt'' @ pl_o @ ''ry tylko informuje u'' @ pl_z @ ''ytkownika,'' @ nl @
     ''   jest zb'' @ pl_e @ ''dny '' @ em_dash @ '' raport powstaje automatycznie na ko'' @ pl_n @ ''cu.'' @
     nl @ nl @ ''Odpowiadaj WY'' @ [CHR 0xC5, CHR 0x81] @ [CHR 0xC4, CHR 0x84] @
     ''CZNIE obiektem JSON o strukturze:'' @ nl @ ''{'' @ nl @ ''  '' @ [CHR 0x22] @ ''summary'' @
     [CHR 0x22] @ '': '' @ [CHR 0x22] @ ''jedno zdanie, co zrobisz'' @ [CHR 0x22] @ '','' @ nl @ ''  '' @
     [CHR 0x22] @ ''assumptions'' @ [CHR 0x22] @ '': ['' @ [CHR 0x22] @ ''przyj'' @ pl_e @ ''te za'' @ pl_l @
     ''o'' @ pl_z @ ''enia'' @ [CHR 0x22] @ ''],'' @ nl @ ''  '' @ [CHR 0x22] @ ''steps'' @ [CHR 0x22] @
     '': ['' @ nl @ ''    {'' @ [CHR 0x22] @ ''key'' @ [CHR 0x22] @ '': '' @ [CHR 0x22] @
     ''krotki-identyfikator'' @ [CHR 0x22] @ '', '' @ [CHR 0x22] @ ''tool'' @ [CHR 0x22] @ '': '' @
     [CHR 0x22] @ ''nazwa_narzedzia'' @ [CHR 0x22] @ '','' @ nl @ ''      '' @ [CHR 0x22] @ ''params'' @
     [CHR 0x22] @ '': {}, '' @ [CHR 0x22] @ ''purpose'' @ [CHR 0x22] @ '': '' @ [CHR 0x22] @
     ''po co ten krok'' @ [CHR 0x22] @ '', '' @ [CHR 0x22] @ ''expects'' @ [CHR 0x22] @ '': '' @ [CHR 0x22] @
     ''dobry wynik'' @ [CHR 0x22] @ '','' @ nl @ ''      '' @ [CHR 0x22] @ ''optional'' @ [CHR 0x22] @
     '': false}'' @ nl @ ''  ],'' @ nl @ ''  '' @ [CHR 0x22] @ ''question'' @ [CHR 0x22] @ '': '' @
     [CHR 0x22] @ [CHR 0x22] @ nl @ ''}'' @ nl @ ''Je'' @ pl_s @ ''li naprawd'' @ pl_e @
     '' brakuje informacji: zwr'' @ pl_o @ pl_c @ '' puste '' @ [CHR 0x22] @ ''steps'' @ [CHR 0x22] @
     '' i jedno pytanie w'' @ nl @ [CHR 0x22] @ ''question'' @ [CHR 0x22] @ ''. Odpowiadaj w j'' @ pl_e @
     ''zyku: '' @
     language @
     ''.'' @ nl"

definition repair_prompt :: "string \<Rightarrow> string \<Rightarrow> string" where
  "repair_prompt fails completed =
     ''Wykonanie planu napotka'' @ pl_l @ ''o problem. Zaproponuj INNE podej'' @ pl_s @
     ''cie do tego samego celu.'' @ nl @ nl @ ''Co si'' @ pl_e @ '' nie uda'' @ pl_l @ ''o:'' @ nl @
     fails @
     nl @ nl @ ''Co ju'' @ pl_z @ '' wykonano (nie powtarzaj tych krok'' @ pl_o @ ''w):'' @ nl @
     completed @
     nl @ nl @ ''Zasady: inna metoda, inne narz'' @ pl_e @ ''dzie albo inna kolejno'' @ pl_s @ pl_c @
     ''. Je'' @ pl_s @ ''li poprzednie'' @ nl @ ''podej'' @ pl_s @ ''cie nie ma sensu, zaproponuj zupe'' @
     pl_l @ ''nie inne. Ten sam format JSON.'' @ nl"

definition catalog :: "'h planner \<Rightarrow> string" where
  "catalog P = json_text (PList (map PDict (catalog_for_model (pl_platform P) (pl_registry P) None)))"

definition memory_text :: "memory_line \<Rightarrow> string" where
  "memory_text r = ''- ['' @ ml_kind r @ ''] '' @ (if ml_subject r \<noteq> [] then ml_subject r else em_dash) @ '': '' @ ml_content r"

definition context_block :: "'h planner \<Rightarrow> goal \<Rightarrow> string" where
  "context_block P g =
     join (nl @ nl)
       ((if gl_context g \<noteq> [] then [gl_context g] else []) @
        (case pl_memory P of
           None \<Rightarrow> []
         | Some m \<Rightarrow> if m (gl_text g) = [] then [] else
             [''Co wiem o u'' @ pl_z @ ''ytkowniku i jego '' @ pl_s @ ''rodowisku:'' @ nl @ join nl (map memory_text (m (gl_text g)))]) @
        (if gl_criteria g \<noteq> [] then
           [''Kryteria uko'' @ pl_n @ ''czenia:'' @ nl @ join nl (map (\<lambda>c. ''- '' @ c) (gl_criteria g))] else []) @
        (if gl_target g \<noteq> ''local'' then [''Cel dotyczy urz'' @ pl_a @ ''dzenia: '' @ gl_target g] else []))"

definition need_privacy :: "goal \<Rightarrow> privacy" where
  "need_privacy g = (if gl_private g then PREFER_LOCAL else PRIV_ANY)"

definition plan_messages :: "'h planner \<Rightarrow> goal \<Rightarrow> (chat_role \<times> string) list" where
  "plan_messages P g =
     [(System_role, system_prompt (pl_language P)),
      (System_role, ''Dost'' @ pl_e @ ''pne narz'' @ pl_e @ ''dzia (JSON):'' @ nl @ catalog P),
      (User_role, strip (''CEL: '' @ gl_text g @ nl @ nl @ context_block P g))]"

definition bullets :: "nat \<Rightarrow> string \<Rightarrow> string list \<Rightarrow> string" where
  "bullets n none xs =
     (let t = join nl (map (\<lambda>x. ''- '' @ x) (drop (length xs - n) xs)) in if t = [] then none else t)"

definition repair_messages :: "'h planner \<Rightarrow> goal \<Rightarrow> string list \<Rightarrow> string list \<Rightarrow> (chat_role \<times> string) list" where
  "repair_messages P g fails completed =
     plan_messages P g @
       [(User_role, repair_prompt (bullets 6 (''- brak szczeg'' @ pl_o @ pl_l @ pl_o @ ''w'') fails) (bullets 12 ''- nic'' completed))]"

subsection \<open>Asking, and asking once more\<close>

definition ask_of :: "goal \<Rightarrow> (chat_role \<times> string) list \<Rightarrow> rat \<Rightarrow> ask_request" where
  "ask_of g msgs temperature =
     \<lparr>rq_job = JOB_PLAN, rq_privacy = need_privacy g, rq_messages = msgs, rq_temperature = temperature,
      rq_max_tokens = 3000\<rparr>"

definition retry_message :: "chat_role \<times> string" where
  "retry_message = (User_role, ''Poprzednia odpowied'' @ pl_x @ '' nie by'' @ pl_l @ ''a poprawnym JSON-em. '' @
     ''Zwr'' @ pl_o @ pl_c @ '' wy'' @ pl_l @ pl_a @ ''cznie obiekt JSON zgodny ze schematem.'')"

text \<open>What is made of the data: a plan, or the exception.\<close>

definition read_plan :: "pyval \<Rightarrow> exn + plan" where
  "read_plan v =
     (case v of
        PDict d \<Rightarrow> (case plan_from_dict d of Inl t \<Rightarrow> Inl (PyExn t []) | Inr p \<Rightarrow> Inr p)
      | _ \<Rightarrow> Inl (Garis (execution_error ProviderError (''Plan nie jest obiektem JSON: '' @ type_name v) None True None 0)))"

text \<open>Requests are numbered; the result carries the number of the next one.\<close>

definition ask :: "'h planner \<Rightarrow> goal \<Rightarrow> (chat_role \<times> string) list \<Rightarrow> nat \<Rightarrow> (exn + plan) \<times> nat" where
  "ask P g msgs n =
     (case pl_router P n (ask_of g msgs (1 / 10)) of
        Refused x \<Rightarrow> (Inl x, n + 1)
      | Read v stub \<Rightarrow> (read_plan v, n + 1)
      | Garbled e \<Rightarrow>
          (case pl_router P (n + 1) (ask_of g (msgs @ [retry_message]) 0) of
             Refused x \<Rightarrow> (Inl x, n + 2)
           | Garbled e' \<Rightarrow> (Inl (Garis e'), n + 2)
           | Read v stub \<Rightarrow> (read_plan v, n + 2)))"

subsection \<open>Validation\<close>

definition runs_here :: "'h planner \<Rightarrow> string \<Rightarrow> bool" where
  "runs_here P tool =
     (reg_has (pl_registry P) tool \<and>
      (case reg_get (pl_registry P) tool of Inr s \<Rightarrow> supported_here (pl_platform P) s | Inl e \<Rightarrow> False))"

definition check_step :: "'h planner \<Rightarrow> plan_step \<Rightarrow> string + plan_step" where
  "check_step P s =
     (if \<not> reg_has (pl_registry P) (st_tool s) then
        Inl (''nieznane narz'' @ pl_e @ ''dzie '' @ repr_str (st_tool s) @ '' '' @ em_dash @ '' krok pomini'' @ pl_e @ ''ty'')
      else
        (case reg_get (pl_registry P) (st_tool s) of
           Inl e \<Rightarrow> Inl (ge_message e)
         | Inr spec \<Rightarrow>
             if \<not> supported_here (pl_platform P) spec then
               Inl (st_tool s @ '' nie dzia'' @ pl_l @ ''a na tym systemie '' @ em_dash @ '' krok pomini'' @ pl_e @ ''ty'')
             else (case validate (pl_float P) spec (st_params s) of
                     Inl e \<Rightarrow> Inl (st_tool s @ '': '' @ e)
                   | Inr params \<Rightarrow> Inr (s\<lparr>st_params := params\<rparr>))))"

definition lefts :: "('a + 'b) list \<Rightarrow> 'a list" where
  "lefts xs = List.map_filter (case_sum Some (\<lambda>b. None)) xs"

definition rights :: "('a + 'b) list \<Rightarrow> 'b list" where
  "rights xs = List.map_filter (case_sum (\<lambda>a. None) Some) xs"

definition no_plan_question :: string where
  "no_plan_question = ''Nie uda'' @ pl_l @ ''o mi si'' @ pl_e @ '' zbudowa'' @ pl_c @ '' wykonalnego planu dla tego celu. '' @
     ''Doprecyzujesz, co dok'' @ pl_l @ ''adnie ma by'' @ pl_c @ '' zrobione?''"

definition sanitise :: "'h planner \<Rightarrow> plan \<Rightarrow> plan" where
  "sanitise P p =
     (let checked = map (check_step P) (pn_steps p);
          kept = take MAX_STEPS (rights checked);
          problems = lefts checked
      in rekey (p\<lparr>pn_steps := kept,
           pn_notes := (if problems \<noteq> [] then join ''; '' problems else pn_notes p),
           pn_question := (if kept = [] \<and> pn_question p = [] then no_plan_question else pn_question p)\<rparr>))"

subsection \<open>Planning and repairing\<close>

definition make_plan :: "'h planner \<Rightarrow> goal \<Rightarrow> nat \<Rightarrow> (exn + plan) \<times> nat" where
  "make_plan P g n =
     (case plan_for (gl_text g) (Some (runs_here P)) of
        Some p \<Rightarrow> (Inr p, n)
      | None \<Rightarrow> apfst (map_sum id (sanitise P)) (ask P g (plan_messages P g) n))"

definition repair_plan :: "'h planner \<Rightarrow> goal \<Rightarrow> string list \<Rightarrow> string list \<Rightarrow> nat \<Rightarrow> (exn + plan) \<times> nat" where
  "repair_plan P g fails completed n =
     apfst (map_sum id (sanitise P)) (ask P g (repair_messages P g fails completed) n)"

fun rstrip :: "string \<Rightarrow> string" where
  "rstrip s = rev (dropWhile is_space (rev s))"

fun plan_lines :: "nat \<Rightarrow> plan_step list \<Rightarrow> string list" where
  "plan_lines i [] = []"
| "plan_lines i (s # ss) =
     rstrip (nat_str i @ ''. '' @ st_tool s @ '' '' @ em_dash @ '' '' @
       (if st_purpose s \<noteq> [] then st_purpose s else st_expects s)) # plan_lines (i + 1) ss"

definition describe_plan :: "plan \<Rightarrow> string" where
  "describe_plan p =
     join nl ([if pn_summary p \<noteq> [] then pn_summary p else ''(bez opisu)''] @ plan_lines 1 (pn_steps p) @
       (if pn_assumptions p \<noteq> [] then [''Za'' @ pl_l @ ''o'' @ pl_z @ ''enia: '' @ join ''; '' (pn_assumptions p)] else []) @
       (if pn_notes p \<noteq> [] then [''Uwagi: '' @ pn_notes p] else []))"

subsection \<open>What a sanitised plan can contain\<close>

text \<open>A step that can run here: registered, supported, with parameters its tool validated.\<close>

definition runnable :: "'h planner \<Rightarrow> plan_step \<Rightarrow> bool" where
  "runnable P s =
     (\<exists>spec raw. reg_get (pl_registry P) (st_tool s) = Inr spec \<and> supported_here (pl_platform P) spec \<and>
        validate (pl_float P) spec raw = Inr (st_params s))"

lemma set_rights: "x \<in> set (rights xs) \<longleftrightarrow> Inr x \<in> set xs"
  by (auto simp: rights_def List.map_filter_def split: sum.splits)

lemma check_step_runnable: "check_step P s = Inr s' \<Longrightarrow> runnable P s' \<and> st_tool s' = st_tool s"
  by (auto simp: check_step_def runnable_def split: if_splits sum.splits)

lemma runnable_key [simp]: "runnable P (s\<lparr>st_key := k\<rparr>) = runnable P s"
  by (simp add: runnable_def)

lemma rekey_runnable: "\<forall>s \<in> set ss. runnable P s \<Longrightarrow> \<forall>s \<in> set (rekey_from i seen ss). runnable P s"
  by (induction i seen ss rule: rekey_from.induct) (auto simp: Let_def)

lemma sanitise_runnable:
  "(\<forall>s \<in> set (pn_steps (sanitise P p)). runnable P s) \<and> length (pn_steps (sanitise P p)) \<le> MAX_STEPS \<and>
   (pn_steps (sanitise P p) = [] \<longrightarrow> pn_question (sanitise P p) \<noteq> []) \<and> pn_origin (sanitise P p) = pn_origin p"
proof -
  let ?kept = "take MAX_STEPS (rights (map (check_step P) (pn_steps p)))"
  have "\<forall>s \<in> set ?kept. runnable P s"
  proof
    fix s assume "s \<in> set ?kept"
    then have "Inr s \<in> set (map (check_step P) (pn_steps p))" by (auto simp: set_rights dest: in_set_takeD)
    then obtain s0 where "check_step P s0 = Inr s" by auto
    then show "runnable P s" using check_step_runnable by blast
  qed
  then have run: "\<forall>s \<in> set (pn_steps (sanitise P p)). runnable P s"
    by (simp add: sanitise_def Let_def rekey_def rekey_runnable)
  have "length (pn_steps (sanitise P p)) = length ?kept" by (simp add: sanitise_def Let_def)
  moreover from this have "pn_steps (sanitise P p) = [] \<longleftrightarrow> ?kept = []" by (metis length_0_conv)
  moreover have "pn_question (sanitise P p) =
      (if ?kept = [] \<and> pn_question p = [] then no_plan_question else pn_question p)"
    by (simp add: sanitise_def Let_def)
  moreover have "pn_origin (sanitise P p) = pn_origin p" by (simp add: sanitise_def Let_def)
  ultimately show ?thesis using run by (auto simp: no_plan_question_def)
qed

lemma read_plan_model: "read_plan v = Inr p \<Longrightarrow> pn_origin p = ''model''"
  by (auto simp: read_plan_def dest: plan_from_dict_model split: pyval.splits sum.splits)

lemma ask_model: "ask P g msgs n = (Inr p, m) \<Longrightarrow> pn_origin p = ''model'' \<and> n < m \<and> m \<le> n + 2"
  by (auto simp: ask_def dest: read_plan_model split: reply.splits)

lemma plan_for_runs: "plan_for what (Some f) = Some p \<Longrightarrow>
    \<exists>r params. r \<in> set REFLEXES \<and> f (rx_tool r) \<and> p = reflex_plan r params"
  by (auto simp: plan_for_def find_reflex_def dest!: find_SomeD split: option.splits if_splits)

text \<open>C14: whatever a model answers, what comes out of planning can run. A plan is either a reflex
  (one step, its tool registered and supported here, no model asked) or a model's own: of model
  origin whatever its JSON claims, at most two requests, at most forty steps, each with a
  registered and supported tool and parameters that tool validated, and a question for the user
  when nothing was left to run. The same holds for a repaired plan.\<close>

theorem plans_can_run:
  assumes "make_plan P g n = (Inr p, m) \<or> repair_plan P g fails completed n = (Inr p, m)"
  shows "(pn_origin p = ORIGIN \<and> m = n \<and>
      (\<exists>s. pn_steps p = [s] \<and> runs_here P (st_tool s) \<and> by_tool (st_tool s) \<noteq> None)) \<or>
    (pn_origin p = ''model'' \<and> n < m \<and> m \<le> n + 2 \<and> length (pn_steps p) \<le> 40 \<and>
      (\<forall>s \<in> set (pn_steps p). runnable P s) \<and> (pn_steps p = [] \<longrightarrow> pn_question p \<noteq> []))"
proof -
  have asked: ?thesis if "apfst (map_sum id (sanitise P)) (ask P g msgs n) = (Inr p, m)" for msgs
  proof -
    from that obtain q where q: "ask P g msgs n = (Inr q, m)" and p: "p = sanitise P q"
      by (cases "ask P g msgs n"; cases "fst (ask P g msgs n)") auto
    from ask_model [OF q] sanitise_runnable [of P q] show ?thesis
      unfolding p MAX_STEPS_def by (intro disjI2) presburger
  qed
  show ?thesis
  proof (cases "make_plan P g n = (Inr p, m) \<and> plan_for (gl_text g) (Some (runs_here P)) \<noteq> None")
    case True
    then obtain q where "plan_for (gl_text g) (Some (runs_here P)) = Some q" and "q = p" and m: "m = n"
      by (auto simp: make_plan_def split: option.splits)
    then obtain r params where r: "r \<in> set REFLEXES" "runs_here P (rx_tool r)" and p: "p = reflex_plan r params"
      using plan_for_runs by blast
    have "by_tool (rx_tool r) \<noteq> None" using r(1) by (auto simp: by_tool_def find_None_iff)
    with r(2) m show ?thesis by (simp add: p reflex_plan_def)
  next
    case False
    with assms asked show ?thesis by (auto simp: make_plan_def repair_plan_def split: option.splits)
  qed
qed

definition mute_planner :: "unit planner" where
  "mute_planner =
     \<lparr>pl_router = (\<lambda>n q. Read (PDict [(''question'', PStr ''?'')]) False), pl_registry = [], pl_memory = None,
      pl_language = ''pl'', pl_platform = ''win32'', pl_float = (\<lambda>v. None)\<rparr>"

theorem plans_can_run_witness:
  "\<exists>p. make_plan mute_planner (new_goal []) 0 = (Inr p, 1) \<and> length (pn_steps p) \<le> 40"
proof -
  have "plan_for [] f = None" for f
    by (simp add: plan_for_def find_reflex_def REFLEXES_def rx_matches_def fold_words_def split_ws_def
        Q_DISK_def Q_MEMORY_def Q_IS_IT_def Q_PROCESSES_def Q_SYSTEM_def Q_TIME_def)
  then obtain p where run: "make_plan mute_planner (new_goal []) 0 = (Inr p, 1)"
    by (simp add: make_plan_def new_goal_def ask_def read_plan_def plan_from_dict_def mute_planner_def
        dget_def or_else_def py_iter_def)
  from plans_can_run [OF disjI1 [OF run]] have "length (pn_steps p) \<le> 40" by auto
  with run show ?thesis by blast
qed

end
