(* ===== verification/Verify.thy ===== *)
theory Verify
  imports Planner Contracts
begin

section \<open>Did it actually work? (agent/verify.py)\<close>

text \<open>
  What a finished step produced, and the verdict on a run: failed required steps, nothing run, the
  reflex postcondition, nothing declared, or a model's judgement with its ways of failing. A
  canned provider's answer is refused. Reading the judgement can raise outside the handler: an
  \<open>unmet\<close> that cannot be iterated.
\<close>

record step_evidence =
  se_tool :: string
  se_purpose :: string
  se_ok :: bool
  se_expects :: string
  se_summary :: string
  se_error :: string
  se_skipped :: bool
  se_value :: pyval
  se_extras :: pydict

definition step_done :: "step_evidence \<Rightarrow> bool" where
  "step_done e = (se_ok e \<and> \<not> se_skipped e)"

definition step_failed :: "step_evidence \<Rightarrow> bool" where
  "step_failed e = (\<not> se_ok e \<and> \<not> se_skipped e)"

definition verify_prompt :: "string \<Rightarrow> string" where
  "verify_prompt language =
     ''Oce'' @ pl_n @ '', czy cel zosta'' @ pl_l @ '' osi'' @ pl_a @ ''gni'' @ pl_e @
     ''ty, na podstawie rzeczywistych wynik'' @ pl_o @ ''w krok'' @ pl_o @ ''w.'' @ nl @ nl @ ''B'' @ pl_a @
     ''d'' @ pl_x @ '' surowy: '' @ [CHR 0xE2, CHR 0x80, CHR 0x9E] @ ''polecenie si'' @ pl_e @ '' wykona'' @
     pl_l @ ''o'' @ [CHR 0xE2, CHR 0x80, CHR 0x9D] @ '' nie znaczy '' @ [CHR 0xE2, CHR 0x80, CHR 0x9E] @
     ''cel osi'' @ pl_a @ ''gni'' @ pl_e @ ''ty'' @ [CHR 0xE2, CHR 0x80, CHR 0x9D] @ ''. Je'' @ pl_s @
     ''li wyniki'' @ nl @ ''nie potwierdzaj'' @ pl_a @ '' rezultatu, uznaj cel za nieosi'' @ pl_a @ ''gni'' @
     pl_e @ ''ty i napisz, czego brakuje.'' @ nl @ nl @ ''Odpowiadaj wy'' @ pl_l @ pl_a @
     ''cznie JSON-em (nawiasy podw'' @ pl_o @ ''jne poni'' @ pl_z @ ''ej to escape dla str.format):'' @ nl @
     ''{'' @ [CHR 0x22] @ ''ok'' @ [CHR 0x22] @ '': true/false, '' @ [CHR 0x22] @ ''note'' @ [CHR 0x22] @
     '': '' @ [CHR 0x22] @ ''jedno zdanie'' @ [CHR 0x22] @ '', '' @ [CHR 0x22] @ ''unmet'' @ [CHR 0x22] @
     '': ['' @ [CHR 0x22] @ ''niespe'' @ pl_l @ ''nione kryteria'' @ [CHR 0x22] @ '']}'' @ nl @
     ''Odpowiadaj w j'' @ pl_e @ ''zyku: '' @
     language @
     ''.'' @ nl"

definition check_reflex :: "step_evidence list \<Rightarrow> verification" where
  "check_reflex acts =
     (let problems = map (\<lambda>e. se_tool e @ '': '' @ reflex_check (se_tool e) (se_value e))
            (filter (\<lambda>e. reflex_check (se_tool e) (se_value e) \<noteq> []) acts)
      in if problems \<noteq> [] then
           mk_verification False (''Narz'' @ pl_e @ ''dzie zwr'' @ pl_o @ ''ci'' @ pl_l @ ''o wynik, kt'' @ pl_o @ ''rego nie da si'' @ pl_e @ '' u'' @ pl_z @ ''y'' @ pl_c @ '': '' @ hd problems)
             problems True ''rules''
         else mk_verification True (''Sprawdzi'' @ pl_l @ ''em zmierzone warto'' @ pl_s @ ''ci.'') [] True ''rules'')"

definition verify_payload :: "goal \<Rightarrow> step_evidence list \<Rightarrow> pyval" where
  "verify_payload g evidence =
     PDict [(''goal'', PStr (gl_text g)), (''criteria'', PList (map PStr (gl_criteria g))),
       (''steps'', PList (map (\<lambda>e. PDict
          [(''tool'', PStr (se_tool e)), (''purpose'', PStr (se_purpose e)),
           (''expected'', PStr (se_expects e)), (''result'', PStr (cp_take 1500 (se_summary e))),
           (''skipped'', PBool (se_skipped e))]) evidence))]"

definition verify_request :: "string \<Rightarrow> goal \<Rightarrow> step_evidence list \<Rightarrow> ask_request" where
  "verify_request language g evidence =
     \<lparr>rq_job = JOB_REASON, rq_privacy = need_privacy g,
      rq_messages = [(System_role, verify_prompt language), (User_role, json_text (verify_payload g evidence))],
      rq_temperature = 0, rq_max_tokens = 600\<rparr>"

definition unreadable_verdict :: verification where
  "unreadable_verdict =
     unchecked_verdict (''Kroki wykonane bez b'' @ pl_l @ pl_e @ ''d'' @ pl_o @ ''w. Odpowied'' @ pl_x @ '' weryfikatora by'' @ pl_l @ ''a nieczytelna.'') True"

definition verifier_failed :: verification where
  "verifier_failed =
     unchecked_verdict (''Kroki wykonane bez b'' @ pl_l @ pl_e @ ''d'' @ pl_o @ ''w, ale nie uda'' @ pl_l @ ''o mi si'' @ pl_e @ '' sprawdzi'' @ pl_c @ '' rezultatu.'') True"

definition nobody_checked :: verification where
  "nobody_checked = unchecked_verdict (''Kroki wykonane bez b'' @ pl_l @ pl_e @ ''d'' @ pl_o @ ''w. Rezultatu nie sprawdza'' @ pl_l @ '' '' @ pl_z @ ''aden model.'') True"

text \<open>What the model's JSON is taken to say.\<close>

definition judged :: "pyval \<Rightarrow> bool \<Rightarrow> exn + verification" where
  "judged v stub =
     (if stub then Inr nobody_checked
      else (case v of
              PDict d \<Rightarrow>
                (case py_iter (or_else (dget d ''unmet'') (PList [])) of
                   None \<Rightarrow> Inl (PyExn ''TypeError'' [])
                 | Some us \<Rightarrow> Inr (mk_verification
                     (case map_of d ''ok'' of None \<Rightarrow> False | Some b \<Rightarrow> truthy b)
                     (str_or_empty (dget d ''note'')) (map py_str us) True ''model''))
            | _ \<Rightarrow> Inr unreadable_verdict))"

text \<open>\<open>except (GarisError, ValueError)\<close>.\<close>

definition excused :: "exn \<Rightarrow> bool" where
  "excused x = (isinstance x GarisError \<or> (case x of PyExn t m \<Rightarrow> t = ''ValueError'' | _ \<Rightarrow> False))"

definition verify ::
  "(nat \<Rightarrow> ask_request \<Rightarrow> reply) \<Rightarrow> string \<Rightarrow> goal \<Rightarrow> step_evidence list \<Rightarrow> plan option \<Rightarrow> nat \<Rightarrow>
   (exn + verification) \<times> nat" where
  "verify router language g evidence p n =
     (case filter step_failed evidence of
        e # es \<Rightarrow>
          (Inr (mk_verification False
             (''Krok '' @ se_tool e @ '' nie zako'' @ pl_n @ ''czy'' @ pl_l @ '' si'' @ pl_e @ '' poprawnie: '' @ cp_take 200 (se_error e))
             (map (\<lambda>f. se_tool f @ '': '' @ cp_take 120 (se_error f)) (take 3 (e # es))) True ''rules''), n)
      | [] \<Rightarrow>
          let acts = filter step_done evidence
          in if acts = [] then (Inr (mk_verification False (''Nie wykonano '' @ pl_z @ ''adnego kroku.'') [] True ''rules''), n)
             else if (case p of Some q \<Rightarrow> pn_origin q = ORIGIN | None \<Rightarrow> False) then (Inr (check_reflex acts), n)
             else if gl_criteria g = [] \<and> \<not> list_ex (\<lambda>e. se_expects e \<noteq> []) evidence then
               (Inr (unchecked_verdict (''Wszystkie kroki wykonane bez b'' @ pl_l @ pl_e @ ''d'' @ pl_o @ ''w. Nie sprawdza'' @ pl_l @ ''em rezultatu.'') True), n)
             else
               (case router n (verify_request language g evidence) of
                  Refused x \<Rightarrow> (if excused x then Inr verifier_failed else Inl x, n + 1)
                | Garbled e \<Rightarrow> (Inr verifier_failed, n + 1)
                | Read v stub \<Rightarrow> (judged v stub, n + 1)))"

subsection \<open>What a verdict rests on\<close>

lemma check_reflex_ok: "v_goal_met (check_reflex acts) \<longleftrightarrow>
    (\<forall>e \<in> set acts. reflex_check (se_tool e) (se_value e) = [])"
  by (auto simp: check_reflex_def Let_def kernel_simps filter_empty_conv)

lemma judged_verified: "judged v stub = Inr u \<Longrightarrow> v_checked u \<Longrightarrow>
    \<not> stub \<and> v_checked_by u = ''model'' \<and> (\<exists>d. v = PDict d \<and> (v_goal_met u \<longleftrightarrow> (\<exists>b. map_of d ''ok'' = Some b \<and> truthy b)))"
  by (cases v)
     (auto simp: judged_def nobody_checked_def unreadable_verdict_def kernel_simps split: if_splits option.splits)

abbreviation is_reflex :: "plan option \<Rightarrow> bool" where
  "is_reflex p \<equiv> (case p of Some q \<Rightarrow> pn_origin q = ORIGIN | None \<Rightarrow> False)"

abbreviation declares :: "goal \<Rightarrow> step_evidence list \<Rightarrow> bool" where
  "declares g evidence \<equiv> gl_criteria g \<noteq> [] \<or> list_ex (\<lambda>e. se_expects e \<noteq> []) evidence"

text \<open>The ways to a verdict when some step ran and none failed, and when a verdict is met at all.\<close>

lemma met_verdicts:
  assumes "verify router language g evidence p n = (Inr v, m)" and "v_ok v"
  shows "(\<forall>e \<in> set evidence. \<not> step_failed e) \<and> (\<exists>e \<in> set evidence. step_done e)"
  using assms by (auto simp: verify_def Let_def kernel_simps filter_empty_conv split: list.splits if_splits)

lemma verify_after_reflex:
  assumes "\<forall>e \<in> set evidence. \<not> step_failed e" "\<exists>e \<in> set evidence. step_done e" "is_reflex p"
  shows "verify router language g evidence p n = (Inr (check_reflex (filter step_done evidence)), n)"
  using assms by (auto simp: verify_def filter_empty_conv)

lemma verify_undeclared:
  assumes "\<forall>e \<in> set evidence. \<not> step_failed e" "\<not> is_reflex p" "\<not> declares g evidence"
    "verify router language g evidence p n = (Inr v, m)"
  shows "\<not> verified v"
  using assms by (auto simp: verify_def Let_def kernel_simps constructed_not_verified filter_empty_conv
      split: if_splits)

lemma verify_asked:
  assumes "\<forall>e \<in> set evidence. \<not> step_failed e" "\<not> is_reflex p" "declares g evidence" "\<exists>e \<in> set evidence. step_done e"
    "verify router language g evidence p n = (Inr v, m)" "verified v"
  shows "\<exists>d b. router n (verify_request language g evidence) = Read (PDict d) False \<and>
    map_of d ''ok'' = Some b \<and> truthy b \<and> m = n + 1"
proof -
  have none: "filter step_failed evidence = []" and acts: "filter step_done evidence \<noteq> []"
    using assms(1,4) by (auto simp: filter_empty_conv)
  have asked: "(case router n (verify_request language g evidence) of
      Refused x \<Rightarrow> (if excused x then Inr verifier_failed else Inl x, n + 1)
    | Garbled e \<Rightarrow> (Inr verifier_failed, n + 1) | Read w stub \<Rightarrow> (judged w stub, n + 1)) = (Inr v, m)"
    using assms(5) none acts assms(2,3) by (auto simp: verify_def)
  have "v \<noteq> verifier_failed" using assms(6) by (auto simp: verifier_failed_def kernel_simps)
  with asked obtain w stub where r: "router n (verify_request language g evidence) = Read w stub"
    and j: "judged w stub = Inr v" and m: "m = n + 1"
    by (auto split: reply.splits if_splits)
  from judged_verified [OF j] assms(6) obtain d where "\<not> stub" "w = PDict d" "\<exists>b. map_of d ''ok'' = Some b \<and> truthy b"
    by (auto simp: kernel_simps)
  with r m show ?thesis by auto
qed

text \<open>C15: a verified verdict was earned. It means that some step ran, no required step failed, and
  either the plan was a reflex and every result passed its measurement check with no model
  asked, or something had been declared to check and a model that is no stub was asked once, about
  exactly this evidence, and answered yes. A verdict with the goal met and unchecked still needs
  a step that ran and none that failed.\<close>

theorem verdicts_are_earned:
  assumes "verify router language g evidence p n = (Inr v, m)" and "v_ok v"
  shows "(\<exists>e \<in> set evidence. step_done e) \<and> (\<forall>e \<in> set evidence. \<not> step_failed e) \<and>
    (verified v \<longrightarrow>
      (\<exists>q. p = Some q \<and> pn_origin q = ORIGIN \<and> m = n \<and>
         (\<forall>e \<in> set evidence. step_done e \<longrightarrow> reflex_check (se_tool e) (se_value e) = [])) \<or>
      (\<exists>d b. router n (verify_request language g evidence) = Read (PDict d) False \<and>
         map_of d ''ok'' = Some b \<and> truthy b \<and> m = n + 1 \<and>
         (gl_criteria g \<noteq> [] \<or> (\<exists>e \<in> set evidence. se_expects e \<noteq> []))))"
proof (intro conjI impI)
  from met_verdicts [OF assms] show ran: "\<exists>e \<in> set evidence. step_done e"
    and none: "\<forall>e \<in> set evidence. \<not> step_failed e" by simp_all
  assume v: "verified v"
  show "(\<exists>q. p = Some q \<and> pn_origin q = ORIGIN \<and> m = n \<and>
         (\<forall>e \<in> set evidence. step_done e \<longrightarrow> reflex_check (se_tool e) (se_value e) = [])) \<or>
      (\<exists>d b. router n (verify_request language g evidence) = Read (PDict d) False \<and>
         map_of d ''ok'' = Some b \<and> truthy b \<and> m = n + 1 \<and>
         (gl_criteria g \<noteq> [] \<or> (\<exists>e \<in> set evidence. se_expects e \<noteq> [])))" (is "?reflex \<or> ?model")
  proof (cases "is_reflex p")
    case True
    with verify_after_reflex [OF none ran] assms have ?reflex
      by (auto simp: v_ok_def check_reflex_ok split: option.splits)
    then show ?thesis ..
  next
    case False
    then have declared: "declares g evidence" using verify_undeclared [OF none _ _ assms(1)] v by blast
    from verify_asked [OF none False declared ran assms(1) v] declared have ?model by (auto simp: list_ex_iff)
    then show ?thesis ..
  qed
qed

definition ran_clock :: step_evidence where
  "ran_clock = \<lparr>se_tool = ''current_time'', se_purpose = [], se_ok = True, se_expects = [], se_summary = [],
     se_error = [], se_skipped = False, se_value = PStr ''12:00'', se_extras = []\<rparr>"

theorem verdicts_are_earned_witness:
  "\<exists>v. verify (\<lambda>n q. Refused Cancellation) ''pl'' (new_goal ''x'') [ran_clock]
      (Some (empty_plan\<lparr>pn_origin := ORIGIN\<rparr>)) 0 = (Inr v, 0) \<and> verified v \<and>
    reflex_check ''current_time'' (PStr ''12:00'') = []"
proof -
  have ok: "reflex_check ''current_time'' (PStr ''12:00'') = []" by code_simp
  then have run: "verify (\<lambda>n q. Refused Cancellation) ''pl'' (new_goal ''x'') [ran_clock]
      (Some (empty_plan\<lparr>pn_origin := ORIGIN\<rparr>)) 0 = (Inr (check_reflex [ran_clock]), 0)"
    by (simp add: verify_def step_failed_def step_done_def ran_clock_def)
  have v: "v_ok (check_reflex [ran_clock])" using ok by (simp add: v_ok_def check_reflex_ok ran_clock_def)
  from verdicts_are_earned [OF run v] have "step_done ran_clock" by simp
  moreover have "verified (check_reflex [ran_clock])"
    using ok by (simp add: check_reflex_def ran_clock_def kernel_simps)
  ultimately show ?thesis using run ok by blast
qed

end
