(* ===== verification/Reports.thy ===== *)
theory Reports
  imports Verify
begin

section \<open>What is said when work is done (agent/report.py)\<close>

text \<open>
  The report of a run, built from the evidence and the verdict: a measured answer or a headline,
  the problems, a line per step and the developer record. The exact run time is a rational; its
  shortest decimal form after rounding is the parameter \<open>show\<close> (\<open>repr\<close> of a float).
\<close>

record report =
  rp_short :: string
  rp_details :: string
  rp_developer :: pydict
  rp_verified :: bool
  rp_problems :: "string list"
  rp_answer :: string

definition render_report :: "bool \<Rightarrow> report \<Rightarrow> string" where
  "render_report verbose r =
     (if verbose \<and> rp_details r \<noteq> [] then strip (rp_short r @ nl @ nl @ rp_details r) else rp_short r)"

definition report_to_dict :: "report \<Rightarrow> pydict" where
  "report_to_dict r =
     [(''short'', PStr (rp_short r)), (''details'', PStr (rp_details r)), (''verified'', PBool (rp_verified r)),
      (''problems'', PList (map PStr (rp_problems r))), (''developer'', PDict (rp_developer r)),
      (''answer'', PStr (rp_answer r))]"

definition trim_goal :: "string \<Rightarrow> string" where
  "trim_goal s = rstrip_char (CHR ''.'') (shorten 120 (join '' '' (split_ws s)))"

definition duration_text :: "rat \<Rightarrow> string" where
  "duration_text secs =
     (if secs < 60 then fixed_text 0 secs @ '' s''
      else if secs < 3600 then fixed_text 0 (secs / 60) @ '' min''
      else fixed_text 1 (secs / 3600) @ '' h'')"

definition measured_answer :: "step_evidence list \<Rightarrow> string" where
  "measured_answer completed =
     (case find (\<lambda>e. reflex_answer (se_tool e) (se_value e) \<noteq> []) completed of
        None \<Rightarrow> [] | Some e \<Rightarrow> reflex_answer (se_tool e) (se_value e))"

definition headline :: "goal \<Rightarrow> verification \<Rightarrow> step_evidence list \<Rightarrow> step_evidence list \<Rightarrow> string" where
  "headline g v completed failed =
     (if v_ok v then ''Gotowe: '' @ trim_goal (gl_text g) @ ''.''
      else if failed \<noteq> [] then ''Nie uda'' @ pl_l @ ''o si'' @ pl_e @ '' doko'' @ pl_n @ ''czy'' @ pl_c @ '': '' @ trim_goal (gl_text g) @ ''.''
      else if completed = [] then ''Nie wykona'' @ pl_l @ ''em nic dla: '' @ trim_goal (gl_text g) @ ''.''
      else ''Cz'' @ pl_e @ pl_s @ ''ciowo zrobione: '' @ trim_goal (gl_text g) @ ''.'')"

text \<open>What follows the headline when nothing was measured.\<close>

definition verdict_piece :: "verification \<Rightarrow> string" where
  "verdict_piece v =
     (if v_ok v \<and> v_checked v then (if v_note v \<noteq> [] then v_note v else ''Sprawdzi'' @ pl_l @ ''em rezultat.'')
      else if v_ok v then (if v_note v \<noteq> [] then v_note v else ''Nie sprawdza'' @ pl_l @ ''em rezultatu.'')
      else v_note v)"

definition short_pieces ::
  "goal \<Rightarrow> step_evidence list \<Rightarrow> verification \<Rightarrow> nat \<Rightarrow> string list" where
  "short_pieces g evidence v repairs =
     (let completed = filter step_done evidence; skipped = filter se_skipped evidence;
          meas = measured_answer completed
      in [if meas \<noteq> [] then meas else headline g v completed (filter step_failed evidence)] @
         (if meas = [] then [verdict_piece v] else []) @
         (if repairs \<noteq> 0 then [''Po drodze zmienia'' @ pl_l @ ''em metod'' @ pl_e @ '' '' @ nat_str repairs @ '' raz'' @
             (if 1 < repairs then ''y'' else []) @ ''.''] else []) @
         (if skipped \<noteq> [] then [''Pomin'' @ pl_a @ pl_l @ ''em '' @ nat_str (length skipped) @ '' krok(i) opcjonalny(ch).''] else []))"

definition step_mark :: "step_evidence \<Rightarrow> string" where
  "step_mark e = (if se_skipped e then em_dash else if se_ok e then [CHR 0xE2, CHR 0x9C, CHR 0x93] else [CHR 0xE2, CHR 0x9C, CHR 0x97])"

definition step_line :: "nat \<Rightarrow> step_evidence \<Rightarrow> string" where
  "step_line i e =
     step_mark e @ '' '' @ nat_str i @ ''. '' @ se_tool e @
     (if se_purpose e \<noteq> [] then '' '' @ em_dash @ '' '' @ se_purpose e else []) @
     (if se_ok e \<and> se_summary e \<noteq> [] then nl @ ''     '' @ cp_take 300 (se_summary e)
      else if se_error e \<noteq> [] then nl @ ''     b'' @ pl_l @ pl_a @ ''d: '' @ cp_take 300 (se_error e) else [])"

fun step_lines :: "nat \<Rightarrow> step_evidence list \<Rightarrow> string list" where
  "step_lines i [] = []"
| "step_lines i (e # es) = step_line i e # step_lines (i + 1) es"

definition round_to :: "nat \<Rightarrow> rat \<Rightarrow> rat" where
  "round_to d r = of_int (if r < 0 then - round_even (- r * 10 ^ d) else round_even (r * 10 ^ d)) / 10 ^ d"

definition developer_steps :: "step_evidence list \<Rightarrow> pyval" where
  "developer_steps evidence =
     PList (map (\<lambda>e. PDict [(''tool'', PStr (se_tool e)), (''ok'', PBool (se_ok e)),
       (''skipped'', PBool (se_skipped e)), (''error'', PStr (se_error e)),
       (''extras'', PDict (se_extras e))]) evidence)"

definition build_report ::
  "(rat \<Rightarrow> string) \<Rightarrow> goal \<Rightarrow> plan \<Rightarrow> step_evidence list \<Rightarrow> verification \<Rightarrow> rat \<Rightarrow> nat \<Rightarrow> report" where
  "build_report show_float g p evidence v secs repairs =
     \<lparr>rp_short = join '' '' (map strip (filter (\<lambda>q. strip q \<noteq> []) (short_pieces g evidence v repairs))),
      rp_details = join nl
        ((if pn_summary p \<noteq> [] then [''Plan: '' @ pn_summary p] else []) @
         (if pn_assumptions p \<noteq> [] then [''Za'' @ pl_l @ ''o'' @ pl_z @ ''enia: '' @ join ''; '' (pn_assumptions p)] else []) @
         step_lines 1 evidence @
         (if secs \<noteq> 0 then [''Czas: '' @ duration_text secs] else [])),
      rp_developer =
        [(''plan'', PDict (plan_to_dict p)), (''steps'', developer_steps evidence),
         (''verification'', PDict (verification_to_dict v)),
         (''duration_seconds'', PFloat (round_to 2 secs) (show_float (round_to 2 secs))),
         (''repairs'', PInt (int repairs))],
      rp_verified = verified v,
      rp_problems = map (\<lambda>e. se_tool e @ '': '' @ cp_take 160 (se_error e)) (filter step_failed evidence) @ v_unmet v,
      rp_answer = measured_answer (filter step_done evidence)\<rparr>"

definition blocked_report :: "goal \<Rightarrow> string \<Rightarrow> report" where
  "blocked_report g question =
     \<lparr>rp_short = question, rp_details = ''Cel: '' @ gl_text g, rp_developer = [], rp_verified = False,
      rp_problems = [''brak informacji od u'' @ pl_z @ ''ytkownika''], rp_answer = []\<rparr>"

definition failed_report :: "goal \<Rightarrow> string \<Rightarrow> string \<Rightarrow> report" where
  "failed_report g reason details =
     \<lparr>rp_short = reason, rp_details = (if details \<noteq> [] then details else ''Cel: '' @ gl_text g),
      rp_developer = [], rp_verified = False, rp_problems = [reason], rp_answer = []\<rparr>"

subsection \<open>A report claims no more than the evidence\<close>

lemma measured_answer_from: "measured_answer es \<noteq> [] \<Longrightarrow>
    \<exists>e \<in> set es. reflex_check (se_tool e) (se_value e) = [] \<and> measured_answer es = reflex_answer (se_tool e) (se_value e)"
  by (auto simp: measured_answer_def answer_iff_check dest!: find_SomeD split: option.splits)

lemma report_claims:
  "rp_verified (build_report show_float g p es v secs repairs) = verified v"
  "rp_answer (build_report show_float g p es v secs repairs) = measured_answer (filter step_done es)"
  by (simp_all add: build_report_def)

end
