(* ===== verification/Loop.thy ===== *)
theory Loop
  imports Executor Reports
begin

section \<open>Plan, act, verify, repair, report (agent/loop.py)\<close>

text \<open>
  One run of the agent loop on a goal. Its world is the runtime, the number of requests made to
  the model router and the journal; the journal's four operations are a record, as the source has
  them as a protocol, and the locale \<open>durable_journal\<close> states what the loop relies on. The while
  loop is \<open>drive\<close>, one iteration of it \<open>turn\<close>: it goes on, leaves the loop, or ends the run with
  an outcome or an exception. The value \<open>None\<close> is the fuel of nested actions running out, as in
  \<open>perform\<close>. A pause between attempts may be cut short by a cancellation.
\<close>

definition MAX_REPLANS :: nat where "MAX_REPLANS = 2"
definition RETRY_BACKOFF :: "rat list" where "RETRY_BACKOFF = [1, 3, 8]"

datatype agent_state = A_IDLE | A_THINKING | A_WORKING | A_VERIFYING | A_BLOCKED | A_DONE | A_FAILED

fun agent_state_value :: "agent_state \<Rightarrow> string" where
  "agent_state_value A_IDLE = ''idle''"
| "agent_state_value A_THINKING = ''thinking''"
| "agent_state_value A_WORKING = ''working''"
| "agent_state_value A_VERIFYING = ''verifying''"
| "agent_state_value A_BLOCKED = ''blocked''"
| "agent_state_value A_DONE = ''done''"
| "agent_state_value A_FAILED = ''failed''"

record 'j journal =
  jn_save_plan :: "string \<Rightarrow> plan \<Rightarrow> instant \<Rightarrow> 'j \<Rightarrow> 'j"
  jn_completed :: "string \<Rightarrow> 'j \<Rightarrow> pydict"
  jn_started :: "string \<Rightarrow> plan_step \<Rightarrow> nat \<Rightarrow> instant \<Rightarrow> 'j \<Rightarrow> 'j"
  jn_finished :: "string \<Rightarrow> plan_step \<Rightarrow> action_result \<Rightarrow> instant \<Rightarrow> 'j \<Rightarrow> 'j"

record outcome =
  oc_state :: agent_state
  oc_report :: report
  oc_plan :: plan
  oc_evidence :: "step_evidence list"
  oc_verification :: "verification option"
  oc_approval :: uid
  oc_question :: string
  oc_resumable :: bool

definition outcome_ok :: "outcome \<Rightarrow> bool" where
  "outcome_ok o' = (oc_state o' = A_DONE)"

definition outcome_to_dict :: "outcome \<Rightarrow> pydict" where
  "outcome_to_dict o' =
     [(''state'', PStr (agent_state_value (oc_state o'))), (''report'', PDict (report_to_dict (oc_report o'))),
      (''question'', PStr (oc_question o')), (''approval_id'', PStr (oc_approval o')),
      (''resumable'', PBool (oc_resumable o')),
      (''verification'', (case oc_verification o' of None \<Rightarrow> PNone | Some v \<Rightarrow> PDict (verification_to_dict v)))]"

text \<open>The verifier holds the planner's router, as the application builds them.\<close>

record 'j agent_loop =
  lp_env :: run_env
  lp_fuel :: nat
  lp_planner :: "handler planner"
  lp_verify_language :: string
  lp_journal :: "'j journal option"
  lp_repair_attempts :: int
  lp_cut_short :: "nat \<Rightarrow> rat \<Rightarrow> bool"

record 'j world =
  wd_rt :: runtime
  wd_asks :: nat
  wd_journal :: 'j

definition on_rt :: "(runtime \<Rightarrow> runtime) \<Rightarrow> 'j world \<Rightarrow> 'j world" where
  "on_rt f w = w\<lparr>wd_rt := f (wd_rt w)\<rparr>"

definition loop_now :: "'j agent_loop \<Rightarrow> 'j world \<Rightarrow> instant" where
  "loop_now L w = rt_now (lp_env L) (wd_rt w)"

definition announce_state :: "'j agent_loop \<Rightarrow> string \<Rightarrow> agent_state \<Rightarrow> 'j world \<Rightarrow> 'j world" where
  "announce_state L task s w =
     on_rt (rt_emit (lp_env L) AGENT_STATE
       [(''task_id'', EvVal (PStr task)), (''state'', EvVal (PStr (agent_state_value s)))]) w"

definition journal_save :: "'j agent_loop \<Rightarrow> string \<Rightarrow> plan \<Rightarrow> 'j world \<Rightarrow> 'j world" where
  "journal_save L task p w =
     (case lp_journal L of None \<Rightarrow> w
      | Some J \<Rightarrow> on_rt tick (w\<lparr>wd_journal := jn_save_plan J task p (loop_now L w) (wd_journal w)\<rparr>))"

definition journal_completed :: "'j agent_loop \<Rightarrow> string \<Rightarrow> 'j world \<Rightarrow> pydict" where
  "journal_completed L task w = (case lp_journal L of None \<Rightarrow> [] | Some J \<Rightarrow> jn_completed J task (wd_journal w))"

definition journal_started :: "'j agent_loop \<Rightarrow> string \<Rightarrow> plan_step \<Rightarrow> nat \<Rightarrow> 'j world \<Rightarrow> 'j world" where
  "journal_started L task s i w =
     (case lp_journal L of None \<Rightarrow> w
      | Some J \<Rightarrow> on_rt tick (w\<lparr>wd_journal := jn_started J task s i (loop_now L w) (wd_journal w)\<rparr>))"

definition journal_finished :: "'j agent_loop \<Rightarrow> string \<Rightarrow> plan_step \<Rightarrow> action_result \<Rightarrow> 'j world \<Rightarrow> 'j world" where
  "journal_finished L task s res w =
     (case lp_journal L of None \<Rightarrow> w
      | Some J \<Rightarrow> on_rt tick (w\<lparr>wd_journal := jn_finished J task s res (loop_now L w) (wd_journal w)\<rparr>))"

subsection \<open>Flattening a value\<close>

definition short_value :: "pyval \<Rightarrow> string" where
  "short_value v = shorten 120 (join '' '' (split_ws (py_str v)))"

definition flatten_value :: "pyval \<Rightarrow> string" where
  "flatten_value v =
     shorten 1200 (join '' '' (split_ws
       (case v of
          PNone \<Rightarrow> []
        | PStr s \<Rightarrow> s
        | PDict d \<Rightarrow> join ''; '' (map (\<lambda>(k, x). k @ '': '' @ short_value x) d)
        | PList xs \<Rightarrow> nat_str (length xs) @ '' pozycji: '' @ join ''; '' (map short_value (take 8 xs))
        | _ \<Rightarrow> py_str v)))"

subsection \<open>One step, with retries\<close>

definition step_action :: "'j agent_loop \<Rightarrow> goal \<Rightarrow> string \<Rightarrow> plan_step \<Rightarrow> runtime \<Rightarrow> action" where
  "step_action L g task s w =
     new_action (ev_uid (lp_env L) (rt_ticks w)) (rt_now (lp_env L) w) (st_tool s) (st_params s)
       (if st_purpose s \<noteq> [] then st_purpose s else gl_text g) (Some task) (Some (st_key s)) (gl_target g)"

definition announce_step :: "'j agent_loop \<Rightarrow> string \<Rightarrow> plan_step \<Rightarrow> nat \<Rightarrow> runtime \<Rightarrow> runtime" where
  "announce_step L task s attempt w =
     rt_emit (lp_env L) TASK_STEP
       [(''task_id'', EvVal (PStr task)), (''step'', EvVal (PStr (st_key s))), (''tool'', EvVal (PStr (st_tool s))),
        (''purpose'', EvVal (PStr (st_purpose s))), (''attempt'', EvVal (PInt (int attempt + 1)))] w"

text \<open>Attempt number \<open>attempt\<close>, with \<open>left\<close> more allowed after it.\<close>

fun try_step ::
  "'j agent_loop \<Rightarrow> goal \<Rightarrow> string \<Rightarrow> plan_step \<Rightarrow> nat \<Rightarrow> nat \<Rightarrow> runtime \<Rightarrow> ((exn + action_result) \<times> runtime) option" where
  "try_step L g task s attempt left w =
     (case perform (lp_env L) (lp_fuel L) (step_action L g task s w) (announce_step L task s attempt (tick w)) of
        None \<Rightarrow> None
      | Some (Inl x, w1) \<Rightarrow> Some (Inl x, w1)
      | Some (Inr res, w1) \<Rightarrow>
          if ar_ok res \<or> \<not> ar_retryable res then Some (Inr res, w1)
          else (case left of
                  0 \<Rightarrow> Some (Inr res, w1)
                | Suc m \<Rightarrow>
                    if lp_cut_short L (rt_ticks w1) (RETRY_BACKOFF ! min attempt (length RETRY_BACKOFF - 1))
                    then Some (Inl Cancellation, w1)
                    else try_step L g task s (attempt + 1) m w1))"

declare try_step.simps [simp del]

definition attempts_allowed :: "'j agent_loop \<Rightarrow> nat" where
  "attempts_allowed L = nat (max 1 (lp_repair_attempts L))"

definition run_step ::
  "'j agent_loop \<Rightarrow> goal \<Rightarrow> string \<Rightarrow> plan_step \<Rightarrow> nat \<Rightarrow> 'j world \<Rightarrow> ((exn + action_result) \<times> 'j world) option" where
  "run_step L g task s i w =
     (let w0 = journal_started L task s i w
      in map_option (\<lambda>(r, rt).
           let w1 = w0\<lparr>wd_rt := rt\<rparr>
           in case r of Inl x \<Rightarrow> (Inl x, w1) | Inr res \<Rightarrow> (Inr res, journal_finished L task s res w1))
         (try_step L g task s 0 (attempts_allowed L - 1) (wd_rt w0)))"

subsection \<open>One iteration\<close>

record 'j run_state =
  rs_plan :: plan
  rs_index :: nat
  rs_replans :: nat
  rs_evidence :: "step_evidence list"
  rs_failures :: "string list"
  rs_world :: "'j world"

datatype 'j turn = Go "'j run_state" | Leave "'j run_state" | Halt "exn + outcome" "'j world"

definition evidence_of :: "plan_step \<Rightarrow> bool \<Rightarrow> pyval \<Rightarrow> pydict \<Rightarrow> step_evidence" where
  "evidence_of s ok v extras =
     \<lparr>se_tool = st_tool s, se_purpose = st_purpose s, se_ok = ok, se_expects = st_expects s,
      se_summary = (if ok then flatten_value v else []), se_error = [], se_skipped = False, se_value = v,
      se_extras = extras\<rparr>"

definition error_text :: "action_result \<Rightarrow> string" where
  "error_text res = (case ar_error res of None \<Rightarrow> [] | Some e \<Rightarrow> e)"

definition skipped_evidence :: "plan_step \<Rightarrow> action_result \<Rightarrow> step_evidence" where
  "skipped_evidence s res = (evidence_of s False PNone [])\<lparr>se_skipped := True, se_error := error_text res\<rparr>"

definition failed_evidence :: "plan_step \<Rightarrow> action_result \<Rightarrow> step_evidence" where
  "failed_evidence s res =
     (evidence_of s False PNone [])\<lparr>se_error := (if error_text res \<noteq> [] then error_text res else ''nieznany b'' @ pl_l @ pl_a @ ''d'')\<rparr>"

definition ended :: "agent_state \<Rightarrow> report \<Rightarrow> plan \<Rightarrow> step_evidence list \<Rightarrow> outcome" where
  "ended st rep p es =
     \<lparr>oc_state = st, oc_report = rep, oc_plan = p, oc_evidence = es, oc_verification = None, oc_approval = [],
      oc_question = [], oc_resumable = False\<rparr>"

text \<open>The \<open>except\<close> clauses around a step.\<close>

definition halted :: "'j agent_loop \<Rightarrow> goal \<Rightarrow> string \<Rightarrow> plan \<Rightarrow> step_evidence list \<Rightarrow> exn \<Rightarrow> 'j world \<Rightarrow> 'j turn" where
  "halted L g task p es x w =
     (case x of
        Garis e \<Rightarrow>
          if isinstance x ApprovalRequired then
            Halt (Inr ((ended A_BLOCKED (blocked_report g (ge_prompt e)) p es)
              \<lparr>oc_approval := ge_request_id e, oc_question := ge_prompt e, oc_resumable := True\<rparr>))
              (announce_state L task A_BLOCKED w)
          else if isinstance x ApprovalDenied then
            Halt (Inr (ended A_FAILED (failed_report g (explain e) []) p es)) w
          else if isinstance x PolicyDenied then
            Halt (Inr (ended A_FAILED (failed_report g (explain e) (ge_message e)) p es)) w
          else Halt (Inl x) w
      | _ \<Rightarrow> Halt (Inl x) w)"

definition progress_message :: string where
  "progress_message = ''Pierwsza metoda nie zadzia'' @ pl_l @ ''a'' @ pl_l @ ''a, pr'' @ pl_o @ ''buj'' @ pl_e @ '' inaczej.''"

definition spliced :: "plan \<Rightarrow> nat \<Rightarrow> plan \<Rightarrow> plan" where
  "spliced p i fresh =
     rekey \<lparr>pn_summary = (if pn_summary p \<noteq> [] then pn_summary p else pn_summary fresh),
            pn_steps = take i (pn_steps p) @ pn_steps fresh, pn_question = [],
            pn_assumptions = (if pn_assumptions p \<noteq> [] then pn_assumptions p else pn_assumptions fresh),
            pn_notes = pn_notes fresh, pn_origin = ''model''\<rparr>"

text \<open>A required step failed: another plan for what is left, or the end of the loop.\<close>

definition repair ::
  "'j agent_loop \<Rightarrow> goal \<Rightarrow> string \<Rightarrow> plan_step \<Rightarrow> action_result \<Rightarrow> 'j run_state \<Rightarrow> 'j turn" where
  "repair L g task s res rs =
     (let give_up = (\<lambda>q. Leave (q\<lparr>rs_evidence := rs_evidence q @ [failed_evidence s res]\<rparr>))
      in if rs_replans rs < MAX_REPLANS then
           (let w1 = on_rt (rt_emit (lp_env L) TASK_PROGRESS
                  [(''task_id'', EvVal (PStr task)), (''message'', EvVal (PStr progress_message)),
                   (''silent'', EvVal (PBool True))]) (announce_state L task A_THINKING (rs_world rs));
                (r, m) = repair_plan (lp_planner L) g (rs_failures rs)
                  (map (\<lambda>e. se_tool e @ '': '' @ se_purpose e) (filter se_ok (rs_evidence rs))) (wd_asks w1);
                w2 = w1\<lparr>wd_asks := m\<rparr>;
                rs1 = rs\<lparr>rs_replans := rs_replans rs + 1, rs_world := w2\<rparr>
            in case r of
                 Inl x \<Rightarrow> if isinstance x GarisError then give_up rs1 else Halt (Inl x) w2
               | Inr fresh \<Rightarrow>
                   if pn_steps fresh = [] then give_up rs1
                   else (let p = spliced (rs_plan rs) (rs_index rs) fresh
                         in Go (rs1\<lparr>rs_plan := p,
                              rs_world := announce_state L task A_WORKING (journal_save L task p w2)\<rparr>)))
         else give_up rs)"

definition turn_loop ::
  "'j agent_loop \<Rightarrow> goal \<Rightarrow> string \<Rightarrow> pydict \<Rightarrow> 'j run_state \<Rightarrow> 'j turn option" where
  "turn_loop L g task completed rs =
     (let s = pn_steps (rs_plan rs) ! rs_index rs
      in case map_of completed (st_key s) of
           Some v \<Rightarrow>
             Some (Go (rs\<lparr>rs_evidence := rs_evidence rs @ [evidence_of s True v [(''resumed'', PBool True)]],
               rs_index := rs_index rs + 1\<rparr>))
         | None \<Rightarrow>
             (case run_step L g task s (rs_index rs) (rs_world rs) of
                None \<Rightarrow> None
              | Some (Inl x, w) \<Rightarrow> Some (halted L g task (rs_plan rs) (rs_evidence rs) x w)
              | Some (Inr res, w) \<Rightarrow>
                  if ar_ok res then
                    Some (Go (rs\<lparr>rs_evidence := rs_evidence rs @
                        [evidence_of s True (ar_value res) [(''duration_ms'', PInt (ar_duration_ms res))]],
                      rs_index := rs_index rs + 1, rs_world := w\<rparr>))
                  else
                    let rs1 = rs\<lparr>rs_failures := rs_failures rs @
                          [st_tool s @ '': '' @ (case ar_error res of None \<Rightarrow> ''None'' | Some e \<Rightarrow> e)],
                        rs_world := w\<rparr>
                    in if st_optional s then
                         Some (Go (rs1\<lparr>rs_evidence := rs_evidence rs1 @ [skipped_evidence s res],
                           rs_index := rs_index rs1 + 1\<rparr>))
                       else Some (repair L g task s res rs1)))"

subsection \<open>The whole run\<close>

definition nothing_done :: verification where
  "nothing_done = mk_verification False (''Nie wykona'' @ pl_l @ ''em '' @ pl_z @ ''adnego kroku, wi'' @ pl_e @ ''c nie ma czego uzna'' @ pl_c @ '' za zrobione.'') [] True ''rules''"

text \<open>Verify, decide, report.\<close>

definition conclude ::
  "'j agent_loop \<Rightarrow> goal \<Rightarrow> string \<Rightarrow> instant \<Rightarrow> 'j run_state \<Rightarrow> (exn + outcome) \<times> 'j world" where
  "conclude L g task started rs =
     (let w1 = announce_state L task A_VERIFYING (rs_world rs);
          es = rs_evidence rs;
          (r, m) = verify (pl_router (lp_planner L)) (lp_verify_language L) g es (Some (rs_plan rs)) (wd_asks w1);
          w2 = w1\<lparr>wd_asks := m\<rparr>
      in case r of
           Inl x \<Rightarrow> (Inl x, w2)
         | Inr v0 \<Rightarrow>
             let executed = filter step_done es;
                 st = (if executed \<noteq> [] \<and> v_ok v0 then A_DONE else A_FAILED);
                 v = (if executed = [] \<and> v_ok v0 then nothing_done else v0);
                 rep = build_report (ev_show_float (lp_env L)) g (rs_plan rs) es v (loop_now L w2 - started)
                         (rs_replans rs)
             in (Inr ((ended st rep (rs_plan rs) es)\<lparr>oc_verification := Some v\<rparr>),
                 announce_state L task st (on_rt tick w2)))"

text \<open>Every iteration that goes on either moves to the next step or uses up a repair.\<close>

lemma turn_loop_progress:
  "turn_loop L g task completed rs = Some (Go rs') \<Longrightarrow>
   (rs_replans rs' = rs_replans rs \<and> rs_plan rs' = rs_plan rs \<and> rs_index rs' = rs_index rs + 1) \<or>
   (rs_replans rs < MAX_REPLANS \<and> rs_replans rs' = rs_replans rs + 1 \<and> rs_index rs' = rs_index rs)"
  by (auto simp: turn_loop_def repair_def halted_def Let_def split: option.splits sum.splits prod.splits exn.splits if_splits)

function drive ::
  "'j agent_loop \<Rightarrow> goal \<Rightarrow> string \<Rightarrow> instant \<Rightarrow> pydict \<Rightarrow> 'j run_state \<Rightarrow> ((exn + outcome) \<times> 'j world) option" where
  "drive L g task started completed rs =
     (if rs_index rs < length (pn_steps (rs_plan rs)) then
        (case turn_loop L g task completed rs of
           None \<Rightarrow> None
         | Some (Go rs') \<Rightarrow> drive L g task started completed rs'
         | Some (Leave rs') \<Rightarrow> Some (conclude L g task started rs')
         | Some (Halt r w) \<Rightarrow> Some (r, w))
      else Some (conclude L g task started rs))"
  by pat_completeness auto

termination
proof (relation "measures [\<lambda>(L, g, t, s, c, rs). MAX_REPLANS - rs_replans rs,
    \<lambda>(L, g, t, s, c, rs). length (pn_steps (rs_plan rs)) - rs_index rs]", goal_cases)
  case 1
  show ?case by simp
next
  case (2 L g task started completed rs x2 rs')
  with turn_loop_progress [of L g task completed rs rs'] show ?case by auto
qed

declare drive.simps [simp del]

definition run_goal ::
  "'j agent_loop \<Rightarrow> goal \<Rightarrow> string \<Rightarrow> 'j world \<Rightarrow> ((exn + outcome) \<times> 'j world) option" where
  "run_goal L g task w =
     (let started = loop_now L w;
          w1 = announce_state L task A_THINKING (on_rt tick w);
          (r, m) = make_plan (lp_planner L) g (wd_asks w1);
          w2 = w1\<lparr>wd_asks := m\<rparr>
      in case r of
           Inl (Garis e) \<Rightarrow>
             if isinstance (Garis e) NoModelAvailable then
               Some (Inr ((ended A_BLOCKED (blocked_report g (explain e)) empty_plan [])
                   \<lparr>oc_question := explain e, oc_resumable := True\<rparr>), announce_state L task A_BLOCKED w2)
             else
               Some (Inr (ended A_FAILED (failed_report g (''Nie uda'' @ pl_l @ ''o mi si'' @ pl_e @ '' zaplanowa'' @ pl_c @ '' tego zadania.'') (ge_message e))
                 empty_plan []), w2)
         | Inl x \<Rightarrow> Some (Inl x, w2)
         | Inr p \<Rightarrow>
             if plan_blocked p then
               Some (Inr ((ended A_BLOCKED (blocked_report g (pn_question p)) p [])
                   \<lparr>oc_question := pn_question p, oc_resumable := True\<rparr>), announce_state L task A_BLOCKED w2)
             else
               let w3 = journal_save L task p w2
               in drive L g task started (journal_completed L task w3)
                    \<lparr>rs_plan = p, rs_index = 0, rs_replans = 0, rs_evidence = [], rs_failures = [],
                     rs_world = announce_state L task A_WORKING w3\<rparr>)"

subsection \<open>What a run keeps\<close>

lemma turn_loopE:
  assumes "turn_loop L g task c rs = Some t" and "s = pn_steps (rs_plan rs) ! rs_index rs"
  obtains (resumed) v where "map_of c (st_key s) = Some v"
      and "t = Go (rs\<lparr>rs_evidence := rs_evidence rs @ [evidence_of s True v [(''resumed'', PBool True)]],
        rs_index := rs_index rs + 1\<rparr>)"
    | (raised) x w where "map_of c (st_key s) = None" and "run_step L g task s (rs_index rs) (rs_world rs) = Some (Inl x, w)"
      and "t = halted L g task (rs_plan rs) (rs_evidence rs) x w"
    | (fine) res w where "map_of c (st_key s) = None" and "run_step L g task s (rs_index rs) (rs_world rs) = Some (Inr res, w)"
      and "ar_ok res" and "t = Go (rs\<lparr>rs_evidence := rs_evidence rs @
        [evidence_of s True (ar_value res) [(''duration_ms'', PInt (ar_duration_ms res))]],
        rs_index := rs_index rs + 1, rs_world := w\<rparr>)"
    | (skipped) res w fs where "map_of c (st_key s) = None" and "run_step L g task s (rs_index rs) (rs_world rs) = Some (Inr res, w)"
      and "t = Go (rs\<lparr>rs_failures := fs, rs_world := w, rs_evidence := rs_evidence rs @ [skipped_evidence s res],
        rs_index := rs_index rs + 1\<rparr>)"
    | (failed) res w fs where "map_of c (st_key s) = None" and "run_step L g task s (rs_index rs) (rs_world rs) = Some (Inr res, w)"
      and "\<not> ar_ok res" and "t = repair L g task s res (rs\<lparr>rs_failures := fs, rs_world := w\<rparr>)"
  using assms
  by (auto simp: turn_loop_def Let_def split: option.splits sum.splits prod.splits if_splits)

text \<open>A relation between the world before and after that the small steps and every step not yet
  completed keep is kept by a whole run.\<close>

locale loop_kept =
  fixes L :: "'j agent_loop"
    and task :: string
    and finished :: "string \<Rightarrow> bool"
    and R :: "'j world \<Rightarrow> 'j world \<Rightarrow> bool"
  assumes R_refl: "R w w"
    and R_trans: "R w w' \<Longrightarrow> R w' w'' \<Longrightarrow> R w w''"
    and R_tick: "R w (on_rt tick w)"
    and R_emit: "R w (on_rt (rt_emit E t body) w)"
    and R_asks: "R w (w\<lparr>wd_asks := n\<rparr>)"
    and R_save: "R w (journal_save L task p w)"
    and R_step: "\<not> finished (st_key s) \<Longrightarrow> run_step L g task s i w = Some (r, w') \<Longrightarrow> R w w'"
begin

lemma R_announce: "R w (announce_state L task s w)"
  unfolding announce_state_def by (rule R_emit)

lemma R_halted: "halted L g task p es x w = Halt r w' \<Longrightarrow> R w w'"
  by (auto simp: halted_def split: exn.splits if_splits intro: R_refl R_announce)

lemma R_repair:
  "repair L g task s res rs = Go rs' \<or> repair L g task s res rs = Leave rs' \<Longrightarrow> R (rs_world rs) (rs_world rs')"
  "repair L g task s res rs = Halt r w' \<Longrightarrow> R (rs_world rs) w'"
proof -
  have ask: "R w ((on_rt (rt_emit E t body) (announce_state L task st w))\<lparr>wd_asks := n\<rparr>)" for w E t body st n
    by (rule R_trans [OF R_announce R_trans [OF R_emit R_asks]])
  have more: "R w (announce_state L task st' (journal_save L task p
      ((on_rt (rt_emit E t body) (announce_state L task st w))\<lparr>wd_asks := n\<rparr>)))" for w E t body st n st' p
    by (rule R_trans [OF ask R_trans [OF R_save R_announce]])
  show "R (rs_world rs) (rs_world rs')"
    if "repair L g task s res rs = Go rs' \<or> repair L g task s res rs = Leave rs'"
    using that
    by (auto simp: repair_def Let_def split: prod.splits sum.splits if_splits intro: ask more R_refl)
  show "R (rs_world rs) w'" if "repair L g task s res rs = Halt r w'"
    using that by (auto simp: repair_def Let_def split: prod.splits sum.splits if_splits intro: ask)
qed

lemma R_turn:
  assumes "\<And>k. finished k \<Longrightarrow> map_of c k \<noteq> None" and "turn_loop L g task c rs = Some t"
  shows "(t = Go rs' \<or> t = Leave rs' \<longrightarrow> R (rs_world rs) (rs_world rs')) \<and> (t = Halt r w' \<longrightarrow> R (rs_world rs) w')"
proof -
  let ?s = "pn_steps (rs_plan rs) ! rs_index rs"
  have step: "R (rs_world rs) w" if "map_of c (st_key ?s) = None"
    and "run_step L g task ?s (rs_index rs) (rs_world rs) = Some (q, w)" for q w
    using assms(1) [of "st_key ?s"] that by (intro R_step [of ?s g "rs_index rs" _ q]) auto
  from assms(2) refl [of ?s] show ?thesis
  proof (cases rule: turn_loopE)
    case (resumed v)
    then show ?thesis by (auto intro: R_refl)
  next
    case (raised x w)
    have "\<exists>q u. halted L g task p es x w = Halt q u" for p es
      by (simp add: halted_def split: exn.splits)
    with raised step show ?thesis by (metis R_halted R_trans turn.distinct(3,5) turn.inject(3))
  next
    case (fine res w)
    with step show ?thesis by auto
  next
    case (skipped res w fs)
    with step show ?thesis by auto
  next
    case (failed res w fs)
    have "R (rs_world rs) w" by (rule step [OF failed(1,2)])
    then show ?thesis unfolding failed(4)
      using R_repair [of g ?s res "rs\<lparr>rs_failures := fs, rs_world := w\<rparr>"] by (auto intro: R_trans)
  qed
qed

lemma R_conclude: "R (rs_world rs) (snd (conclude L g task started rs))"
proof -
  have ask: "R w ((announce_state L task st w)\<lparr>wd_asks := n\<rparr>)" for w st n
    by (rule R_trans [OF R_announce R_asks])
  have "R w (announce_state L task st' (on_rt tick ((announce_state L task st w)\<lparr>wd_asks := n\<rparr>)))" for w st n st'
    by (rule R_trans [OF ask R_trans [OF R_tick R_announce]])
  with ask show ?thesis by (auto simp: conclude_def Let_def split: prod.splits sum.splits)
qed

lemma R_drive:
  assumes "\<And>k. finished k \<Longrightarrow> map_of c k \<noteq> None"
  shows "drive L g task started c rs = Some (r, w') \<Longrightarrow> R (rs_world rs) w'"
proof (induction L\<equiv>L g task\<equiv>task started c\<equiv>c rs rule: drive.induct)
  case (1 g started rs)
  show ?case
  proof (cases "rs_index rs < length (pn_steps (rs_plan rs))")
    case False
    with "1.prems" have "conclude L g task started rs = (r, w')" by (simp add: drive.simps [of L])
    with R_conclude [of rs g started] show ?thesis by simp
  next
    case True
    with "1.prems" obtain t where t: "turn_loop L g task c rs = Some t"
      by (auto simp: drive.simps [of L g task started c rs] split: option.splits)
    note kept = R_turn [OF assms t]
    show ?thesis
    proof (cases t)
      case (Go rs')
      with True t "1.prems" have "drive L g task started c rs' = Some (r, w')"
        by (simp add: drive.simps [of L g task started c rs])
      with "1.hyps" [OF True t Go] have "R (rs_world rs') w'" .
      with kept [of rs'] Go show ?thesis by (blast intro: R_trans)
    next
      case (Leave rs')
      with True t "1.prems" have "conclude L g task started rs' = (r, w')"
        by (simp add: drive.simps [of L g task started c rs])
      with R_conclude [of rs' g started] kept [of rs'] Leave show ?thesis by (auto intro: R_trans)
    next
      case (Halt q u)
      with True t "1.prems" have "u = w'" by (simp add: drive.simps [of L g task started c rs])
      with kept [where r = q and w' = u] Halt show ?thesis by auto
    qed
  qed
qed

lemma R_run:
  assumes "run_goal L g task w = Some (r, w')"
    and "\<And>k p n. finished k \<Longrightarrow> map_of (journal_completed L task (journal_save L task p
      ((announce_state L task A_THINKING (on_rt tick w))\<lparr>wd_asks := n\<rparr>))) k \<noteq> None"
  shows "R w w'"
proof -
  obtain q m where q: "make_plan (lp_planner L) g (wd_asks (announce_state L task A_THINKING (on_rt tick w))) = (q, m)"
    by (cases "make_plan (lp_planner L) g (wd_asks (announce_state L task A_THINKING (on_rt tick w)))")
  define w2 where "w2 = (announce_state L task A_THINKING (on_rt tick w))\<lparr>wd_asks := m\<rparr>"
  have w2: "R w w2" unfolding w2_def by (rule R_trans [OF R_tick R_trans [OF R_announce R_asks]])
  note run = assms(1) [unfolded run_goal_def Let_def q prod.case, folded w2_def]
  show ?thesis
  proof (cases q)
    case (Inl x)
    with run w2 show ?thesis by (auto split: exn.splits if_splits intro: R_trans R_announce)
  next
    case (Inr p)
    show ?thesis
    proof (cases "plan_blocked p")
      case True
      with run Inr w2 show ?thesis by (auto intro: R_trans R_announce)
    next
      case False
      define w3 where "w3 = journal_save L task p w2"
      have "finished k \<Longrightarrow> map_of (journal_completed L task w3) k \<noteq> None" for k
        unfolding w3_def w2_def by (rule assms(2))
      from R_drive [OF this] run Inr False have "R (announce_state L task A_WORKING w3) w'"
        by (fastforce simp: w3_def)
      moreover have "R w (announce_state L task A_WORKING w3)"
        unfolding w3_def by (rule R_trans [OF w2 R_trans [OF R_save R_announce]])
      ultimately show ?thesis by (blast intro: R_trans)
    qed
  qed
qed

end

end
