(* ===== verification/Runs.thy ===== *)
theory Runs
  imports Loop
begin

section \<open>What a run of the agent guarantees\<close>

text \<open>
  The properties of the loop: it returns; what it calls done was executed, audited and judged; and,
  with a durable journal, work recorded as done is neither repeated nor lost.
\<close>

subsection \<open>The audit log grows\<close>

definition audit_of :: "'j world \<Rightarrow> audit_row list" where
  "audit_of w = al_rows (rt_log (wd_rt w))"

lemma audit_of_simps [simp]:
  "audit_of (on_rt tick w) = audit_of w" "audit_of (on_rt (rt_emit E t body) w) = audit_of w"
  "audit_of (w\<lparr>wd_asks := n\<rparr>) = audit_of w" "audit_of (w\<lparr>wd_journal := j\<rparr>) = audit_of w"
  "audit_of (journal_save L task p w) = audit_of w" "audit_of (journal_started L task s i w) = audit_of w"
  "audit_of (journal_finished L task s res w) = audit_of w"
  "audit_of (announce_state L task st w) = audit_of w"
  by (auto simp: audit_of_def on_rt_def journal_save_def journal_started_def journal_finished_def
      announce_state_def split: option.splits)

text \<open>A row that says this tool was run for this task and succeeded.\<close>

definition ok_row :: "string \<Rightarrow> string \<Rightarrow> audit_row \<Rightarrow> bool" where
  "ok_row task tool r = (au_tool r = tool \<and> au_task r = Some task \<and> au_outcome r = ''ok'')"

lemma perform_log:
  assumes "perform E n a w = Some (r, w')"
  shows "prefix (al_rows (rt_log w)) (al_rows (rt_log w'))"
    and "r = Inr res \<Longrightarrow> ar_ok res \<Longrightarrow> ac_task a = Some task \<Longrightarrow> \<exists>x \<in> set (al_rows (rt_log w')). ok_row task (ac_tool a) x"
proof -
  show "prefix (al_rows (rt_log w)) (al_rows (rt_log w'))"
    using growing.R_perform [OF assms] by (simp add: log_grows_def)
  assume "r = Inr res" "ar_ok res" "ac_task a = Some task"
  with perform_closes [OF assms] have "ends_with a ''ok'' w'" by (simp add: closes_def)
  then show "\<exists>x \<in> set (al_rows (rt_log w')). ok_row task (ac_tool a) x"
    using \<open>ac_task a = Some task\<close> by (auto simp: ends_with_def ok_row_def intro: last_in_set)
qed

lemma try_step_log:
  "try_step L g task s attempt left w = Some (r, w') \<Longrightarrow>
   prefix (al_rows (rt_log w)) (al_rows (rt_log w')) \<and>
   (\<forall>res. r = Inr res \<and> ar_ok res \<longrightarrow> (\<exists>x \<in> set (al_rows (rt_log w')). ok_row task (st_tool s) x))"
proof (induction L g task s attempt left w rule: try_step.induct)
  case (1 L g task s attempt left w)
  let ?a = "step_action L g task s w" and ?w = "announce_step L task s attempt (tick w)"
  have a: "ac_tool ?a = st_tool s" "ac_task ?a = Some task" by (simp_all add: step_action_def new_action_def)
  have w: "rt_log ?w = rt_log w" by (simp add: announce_step_def)
  obtain q w1 where p: "perform (lp_env L) (lp_fuel L) ?a ?w = Some (q, w1)"
    using "1.prems" by (cases "perform (lp_env L) (lp_fuel L) ?a ?w") (auto simp: try_step.simps)
  note grow = perform_log(1) [OF p, unfolded w]
  note row = perform_log(2) [OF p, OF _ _ a(2), unfolded a(1)]
  show ?case
  proof (cases q)
    case (Inl x)
    with "1.prems" p grow show ?thesis by (auto simp: try_step.simps)
  next
    case (Inr res)
    show ?thesis
    proof (cases "ar_ok res \<or> \<not> ar_retryable res")
      case True
      with "1.prems" p Inr grow row show ?thesis by (auto simp: try_step.simps [of L g task s attempt left w])
    next
      case again: False
      show ?thesis
      proof (cases left)
        case 0
        with "1.prems" p Inr again grow show ?thesis
          by (auto simp: try_step.simps [of L g task s attempt 0 w])
      next
        case (Suc m)
        show ?thesis
        proof (cases "lp_cut_short L (rt_ticks w1) (RETRY_BACKOFF ! min attempt (length RETRY_BACKOFF - 1))")
          case True
          with "1.prems" p Inr again Suc grow show ?thesis
            by (auto simp: try_step.simps [of L g task s attempt "Suc m" w])
        next
          case False
          with "1.prems" p Inr again Suc have "try_step L g task s (attempt + 1) m w1 = Some (r, w')"
            by (simp add: try_step.simps [of L g task s attempt "Suc m" w])
          with "1.IH" [OF p refl Inr again Suc False] grow show ?thesis by (auto intro: prefix_order.trans)
        qed
      qed
    qed
  qed
qed

lemma run_step_log:
  assumes "run_step L g task s i w = Some (r, w')"
  shows "prefix (audit_of w) (audit_of w') \<and>
    (\<forall>res. r = Inr res \<and> ar_ok res \<longrightarrow> (\<exists>x \<in> set (audit_of w'). ok_row task (st_tool s) x))"
proof -
  let ?w0 = "journal_started L task s i w"
  obtain q rt where t: "try_step L g task s 0 (attempts_allowed L - 1) (wd_rt ?w0) = Some (q, rt)"
    and w': "(r, w') = (case q of Inl x \<Rightarrow> (Inl x, ?w0\<lparr>wd_rt := rt\<rparr>)
        | Inr res \<Rightarrow> (Inr res, journal_finished L task s res (?w0\<lparr>wd_rt := rt\<rparr>)))"
    using assms by (auto simp: run_step_def Let_def)
  from w' have "r = q" and a: "audit_of w' = al_rows (rt_log rt)"
    by (auto split: sum.splits) (simp_all add: audit_of_def)
  have "audit_of w = al_rows (rt_log (wd_rt ?w0))" by (metis audit_of_def audit_of_simps(6))
  with try_step_log [OF t] \<open>r = q\<close> a show ?thesis by simp
qed

interpretation run_log: loop_kept L task "\<lambda>k. False" "\<lambda>w w'. prefix (audit_of w) (audit_of w')" for L task
  by unfold_locales (auto dest: run_step_log intro: prefix_order.trans)

subsection \<open>What evidence stands for\<close>

text \<open>A step counted as done was run and audited for this task, or was already in the journal.\<close>

definition backed :: "string \<Rightarrow> pydict \<Rightarrow> 'j world \<Rightarrow> step_evidence \<Rightarrow> bool" where
  "backed task c w e =
     (se_ok e \<longrightarrow> (\<exists>x \<in> set (audit_of w). ok_row task (se_tool e) x) \<or>
        (se_extras e = [(''resumed'', PBool True)] \<and> se_value e \<in> snd ` set c))"

lemma backed_grows: "prefix (audit_of w) (audit_of w') \<Longrightarrow> backed task c w e \<Longrightarrow> backed task c w' e"
  by (auto simp: backed_def dest: set_mono_prefix)

text \<open>An outcome whose claims are all backed.\<close>

definition honest :: "string \<Rightarrow> pydict \<Rightarrow> outcome \<Rightarrow> 'j world \<Rightarrow> bool" where
  "honest task c o' w =
     ((\<forall>e \<in> set (oc_evidence o'). backed task c w e) \<and>
      (oc_resumable o' \<longleftrightarrow> oc_state o' = A_BLOCKED) \<and>
      (rp_verified (oc_report o') \<longrightarrow> oc_state o' = A_DONE) \<and>
      (oc_state o' = A_DONE \<longrightarrow>
         (\<exists>v. oc_verification o' = Some v \<and> v_ok v \<and> rp_verified (oc_report o') = verified v) \<and>
         (\<exists>e \<in> set (oc_evidence o'). step_done e) \<and> (\<forall>e \<in> set (oc_evidence o'). \<not> step_failed e)) \<and>
      (rp_answer (oc_report o') \<noteq> [] \<longrightarrow>
         (\<exists>e \<in> set (oc_evidence o'). step_done e \<and> reflex_check (se_tool e) (se_value e) = [] \<and>
            rp_answer (oc_report o') = reflex_answer (se_tool e) (se_value e))))"

lemma halted_honest:
  assumes "halted L g task p es x w = Halt (Inr o') w'" and "\<forall>e \<in> set es. backed task c w e"
  shows "honest task c o' w'"
  using assms by (auto simp: halted_def honest_def ended_def blocked_report_def failed_report_def backed_def
      split: exn.splits if_splits)

lemma conclude_honest:
  assumes "conclude L g task started rs = (Inr o', w')" and "\<forall>e \<in> set (rs_evidence rs). backed task c (rs_world rs) e"
  shows "honest task c o' w'"
proof -
  let ?es = "rs_evidence rs"
  let ?w1 = "announce_state L task A_VERIFYING (rs_world rs)"
  obtain q m where q: "verify (pl_router (lp_planner L)) (lp_verify_language L) g ?es (Some (rs_plan rs)) (wd_asks ?w1) = (q, m)"
    by (cases "verify (pl_router (lp_planner L)) (lp_verify_language L) g ?es (Some (rs_plan rs)) (wd_asks ?w1)")
  then obtain v0 where v0: "q = Inr v0" using assms(1) by (cases q) (auto simp: conclude_def Let_def)
  let ?st = "if filter step_done ?es \<noteq> [] \<and> v_ok v0 then A_DONE else A_FAILED"
  define v where "v = (if filter step_done ?es = [] \<and> v_ok v0 then nothing_done else v0)"
  have st: "oc_state o' = ?st" and ev: "oc_evidence o' = ?es" and ver: "oc_verification o' = Some v"
    and res: "\<not> oc_resumable o'" and rep: "rp_verified (oc_report o') = verified v"
    and ans: "rp_answer (oc_report o') = measured_answer (filter step_done ?es)"
    and aud: "audit_of w' = audit_of (rs_world rs)"
    using assms(1) q v0 by (auto simp: conclude_def Let_def v_def ended_def report_claims)
  have b: "\<forall>e \<in> set ?es. backed task c w' e" using assms(2) by (auto simp: backed_def aud)
  have failed: "\<forall>e \<in> set ?es. \<not> step_failed e" if "v_ok v0"
    using that q v0 by (auto simp: verify_def kernel_simps filter_empty_conv split: list.splits)
  have done_ver: "verified v \<longrightarrow> ?st = A_DONE"
    by (auto simp: v_def nothing_done_def kernel_simps)
  have "?st = A_DONE \<longrightarrow> v = v0 \<and> v_ok v0 \<and> (\<exists>e \<in> set ?es. step_done e)"
    by (auto simp: v_def filter_empty_conv)
  moreover have "?st \<noteq> A_BLOCKED" by simp
  moreover have "measured_answer (filter step_done ?es) \<noteq> [] \<longrightarrow> (\<exists>e \<in> set ?es. step_done e \<and>
      reflex_check (se_tool e) (se_value e) = [] \<and>
      measured_answer (filter step_done ?es) = reflex_answer (se_tool e) (se_value e))"
    using measured_answer_from [of "filter step_done ?es"] by auto
  ultimately show ?thesis
    unfolding honest_def st ev ver rep ans using b res failed done_ver by blast
qed

lemma repair_evidence:
  "repair L g task s res rs = Go rs' \<Longrightarrow> rs_evidence rs' = rs_evidence rs"
  "repair L g task s res rs = Leave rs' \<Longrightarrow> rs_evidence rs' = rs_evidence rs @ [failed_evidence s res]"
  "repair L g task s res rs = Halt r w \<Longrightarrow> \<exists>x. r = Inl x"
  by (auto simp: repair_def Let_def split: prod.splits sum.splits if_splits)

lemma turn_honest:
  assumes "turn_loop L g task c rs = Some t" and "\<forall>e \<in> set (rs_evidence rs). backed task c (rs_world rs) e"
  shows "(t = Go rs' \<or> t = Leave rs' \<longrightarrow> (\<forall>e \<in> set (rs_evidence rs'). backed task c (rs_world rs') e)) \<and>
    (t = Halt (Inr o') w' \<longrightarrow> honest task c o' w')"
proof -
  let ?s = "pn_steps (rs_plan rs) ! rs_index rs"
  have grow: "prefix (audit_of (rs_world rs)) (audit_of w)"
    if "run_step L g task ?s (rs_index rs) (rs_world rs) = Some (q, w)" for q w
    using run_step_log [OF that] by simp
  have kept: "\<forall>e \<in> set (rs_evidence rs). backed task c w e" if "prefix (audit_of (rs_world rs)) (audit_of w)" for w
    using assms(2) backed_grows [OF that] by blast
  have unbacked: "backed task c w (failed_evidence ?s res)" "backed task c w (skipped_evidence ?s res)" for w res
    by (simp_all add: backed_def failed_evidence_def skipped_evidence_def evidence_of_def)
  from assms(1) refl [of ?s] show ?thesis
  proof (cases rule: turn_loopE)
    case (resumed v)
    then have "v \<in> snd ` set c" by (force dest: map_of_SomeD)
    then have "backed task c (rs_world rs) (evidence_of ?s True v [(''resumed'', PBool True)])"
      by (simp add: backed_def evidence_of_def)
    with resumed assms(2) show ?thesis by auto
  next
    case (raised x w)
    have "halted L g task p es x w \<noteq> Go rs' \<and> halted L g task p es x w \<noteq> Leave rs'" for p es
      by (simp add: halted_def split: exn.splits)
    with raised(3) halted_honest [OF _ kept [OF grow [OF raised(2)]]] show ?thesis by metis
  next
    case (fine res w)
    have "backed task c w (evidence_of ?s True (ar_value res) d)" for d
      using run_step_log [OF fine(2)] fine(3) by (auto simp: backed_def evidence_of_def)
    with fine kept [OF grow [OF fine(2)]] show ?thesis by auto
  next
    case (skipped res w fs)
    with unbacked kept [OF grow [OF skipped(2)]] show ?thesis by auto
  next
    case (failed res w fs)
    let ?r = "rs\<lparr>rs_failures := fs, rs_world := w\<rparr>"
    have bigger: "prefix (audit_of (rs_world rs)) (audit_of (rs_world rs'))" if "t = Go rs' \<or> t = Leave rs'"
      using run_log.R_turn [OF _ assms(1)] that by blast
    have "rs_evidence rs' = rs_evidence rs \<or> rs_evidence rs' = rs_evidence rs @ [failed_evidence ?s res]"
      if "t = Go rs' \<or> t = Leave rs'"
      using that failed(4) repair_evidence(1,2) [of L g task ?s res ?r] by auto
    with bigger kept unbacked have "\<forall>e \<in> set (rs_evidence rs'). backed task c (rs_world rs') e"
      if "t = Go rs' \<or> t = Leave rs'"
      using that by fastforce
    moreover have "t \<noteq> Halt (Inr o') w'"
      using failed(4) repair_evidence(3) [of L g task ?s res ?r] by fastforce
    ultimately show ?thesis by blast
  qed
qed

lemma drive_honest:
  "drive L g task started c rs = Some (Inr o', w') \<Longrightarrow>
   \<forall>e \<in> set (rs_evidence rs). backed task c (rs_world rs) e \<Longrightarrow> honest task c o' w'"
proof (induction L g task started c rs rule: drive.induct)
  case (1 L g task started c rs)
  show ?case
  proof (cases "rs_index rs < length (pn_steps (rs_plan rs))")
    case False
    with "1.prems" show ?thesis by (auto simp: drive.simps [of L] intro: conclude_honest)
  next
    case True
    with "1.prems" obtain t where t: "turn_loop L g task c rs = Some t"
      by (auto simp: drive.simps [of L g task started c rs] split: option.splits)
    note inv = turn_honest [OF t "1.prems"(2)]
    have step: "drive L g task started c rs = (case t of Go rs' \<Rightarrow> drive L g task started c rs'
        | Leave rs' \<Rightarrow> Some (conclude L g task started rs') | Halt r w \<Rightarrow> Some (r, w))"
      using True t by (simp add: drive.simps [of L g task started c rs])
    show ?thesis
    proof (cases t)
      case (Go rs')
      with "1.IH" [OF True t Go] "1.prems"(1) step inv [of rs'] show ?thesis by simp
    next
      case (Leave rs')
      with "1.prems"(1) step inv [of rs'] show ?thesis by (auto intro: conclude_honest)
    next
      case (Halt r w)
      with "1.prems"(1) step inv [where o' = o' and w' = w'] show ?thesis by auto
    qed
  qed
qed

lemma run_stepE:
  assumes "run_step L g task s i w = Some (r, w')"
  obtains (raised) x rt where "r = Inl x" and "w' = (journal_started L task s i w)\<lparr>wd_rt := rt\<rparr>"
    | (ended) res rt where "r = Inr res"
        and "w' = journal_finished L task s res ((journal_started L task s i w)\<lparr>wd_rt := rt\<rparr>)"
proof -
  obtain q rt where "try_step L g task s 0 (attempts_allowed L - 1) (wd_rt (journal_started L task s i w)) = Some (q, rt)"
    using assms by (auto simp: run_step_def Let_def)
  with assms raised ended show ?thesis by (cases q) (auto simp: run_step_def Let_def)
qed

subsection \<open>A durable journal\<close>

text \<open>
  What the loop relies on: an entry per task and key, whose state says whether the step is done and
  with what value. Saving a plan touches no entry, starting a step re-opens its own entry only,
  and finishing it records the value of a success.
\<close>

locale durable_journal =
  fixes J :: "'j journal"
    and entry :: "string \<Rightarrow> string \<Rightarrow> 'j \<Rightarrow> 'e option"
    and finished_with :: "'e \<Rightarrow> pyval option"
    and stored :: "pyval \<Rightarrow> pyval"
  assumes completed_entry: "map_of (jn_completed J t j) k = Option.bind (entry t k j) finished_with"
    and save_keeps: "entry t k (jn_save_plan J t' p now j) = entry t k j"
    and started_keeps: "t \<noteq> t' \<or> k \<noteq> st_key s \<Longrightarrow> entry t k (jn_started J t' s i now j) = entry t k j"
    and finished_keeps: "t \<noteq> t' \<or> k \<noteq> st_key s \<Longrightarrow> entry t k (jn_finished J t' s res now j) = entry t k j"
    and finished_records: "\<exists>e. entry t (st_key s) (jn_finished J t s res now (jn_started J t s i now' j)) = Some e \<and>
      finished_with e = (if ar_ok res then Some (stored (ar_value res)) else None)"
begin

lemma recorded:
  "map_of (jn_completed J t (jn_finished J t s res now (jn_started J t s i now' j))) (st_key s) =
   (if ar_ok res then Some (stored (ar_value res)) else None)"
  using finished_records [of t s res now i now' j] by (auto simp: completed_entry)

end

locale journalled_loop = durable_journal J entry finished_with stored
  for J :: "'j journal" and entry :: "string \<Rightarrow> string \<Rightarrow> 'j \<Rightarrow> 'e option"
    and finished_with :: "'e \<Rightarrow> pyval option" and stored :: "pyval \<Rightarrow> pyval" +
  fixes L :: "'j agent_loop"
  assumes has_journal: "lp_journal L = Some J"
begin

lemma run_step_entry:
  assumes "run_step L g task s i w = Some (r, w')" and "t \<noteq> task \<or> k \<noteq> st_key s"
  shows "entry t k (wd_journal w') = entry t k (wd_journal w)"
  using assms(1)
  by (cases rule: run_stepE)
     (simp_all add: journal_started_def journal_finished_def has_journal on_rt_def
        started_keeps [OF assms(2)] finished_keeps [OF assms(2)])

lemma run_step_recorded:
  assumes "run_step L g task s i w = Some (Inr res, w')"
  shows "map_of (journal_completed L task w') (st_key s) = (if ar_ok res then Some (stored (ar_value res)) else None)"
  using assms
  by (cases rule: run_stepE)
     (simp_all add: journal_started_def journal_finished_def journal_completed_def has_journal on_rt_def recorded)

end

text \<open>Entries of steps done before the run, and of other tasks, are kept.\<close>

definition entries_kept :: "(string \<Rightarrow> string \<Rightarrow> 'j \<Rightarrow> 'e option) \<Rightarrow> string \<Rightarrow> (string \<Rightarrow> bool) \<Rightarrow> 'j world \<Rightarrow> 'j world \<Rightarrow> bool" where
  "entries_kept entry task finished w w' =
     (\<forall>t k. t \<noteq> task \<or> finished k \<longrightarrow> entry t k (wd_journal w') = entry t k (wd_journal w))"

sublocale journalled_loop \<subseteq> kept: loop_kept L task finished "entries_kept entry task finished" for task finished
proof unfold_locales
  show "entries_kept entry task finished w w'"
    if "\<not> finished (st_key s)" and "run_step L g task s i w = Some (r, w')" for s g i w r w'
    using that run_step_entry [OF that(2)] unfolding entries_kept_def by metis
qed (auto simp: entries_kept_def on_rt_def journal_save_def has_journal save_keeps)

context journalled_loop
begin

lemma run_keeps_entries:
  assumes "run_goal L g task w = Some (r, w')"
    and "t \<noteq> task \<or> map_of (journal_completed L task w) k \<noteq> None"
  shows "entry t k (wd_journal w') = entry t k (wd_journal w)"
proof -
  let ?f = "\<lambda>k. map_of (journal_completed L task w) k \<noteq> None"
  have same: "map_of (journal_completed L task (journal_save L task p
      ((announce_state L task A_THINKING (on_rt tick w))\<lparr>wd_asks := n\<rparr>))) = map_of (journal_completed L task w)" for p n
    by (rule ext) (simp add: journal_completed_def journal_save_def announce_state_def on_rt_def has_journal
        completed_entry save_keeps)
  have "entries_kept entry task ?f w w'"
    by (rule kept.R_run [where finished = ?f, OF assms(1)]) (simp add: same)
  with assms(2) show ?thesis by (auto simp: entries_kept_def)
qed

end

subsection \<open>The loop returns\<close>

lemma attempt_returns:
  assumes "ranked rank (lp_env L)" and "rank (st_tool s) < lp_fuel L"
  obtains r w' where "perform (lp_env L) (lp_fuel L) (step_action L g task s w) u = Some (r, w')"
proof -
  have "perform (lp_env L) (lp_fuel L) (step_action L g task s w) u \<noteq> None"
    using assms(2) by (intro perform_returns [OF assms(1)]) (simp add: step_action_def new_action_def)
  with that show thesis by auto
qed

lemma try_step_returns:
  assumes "ranked rank (lp_env L)" and "rank (st_tool s) < lp_fuel L"
  shows "try_step L g task s attempt left w \<noteq> None"
proof (induction left arbitrary: attempt w)
  case 0
  obtain r w' where "perform (lp_env L) (lp_fuel L) (step_action L g task s w) (announce_step L task s attempt (tick w)) = Some (r, w')"
    using attempt_returns [OF assms] .
  then show ?case by (cases r) (auto simp: try_step.simps [of L g task s attempt 0 w])
next
  case (Suc m)
  obtain r w' where "perform (lp_env L) (lp_fuel L) (step_action L g task s w) (announce_step L task s attempt (tick w)) = Some (r, w')"
    using attempt_returns [OF assms] .
  with Suc.IH show ?case
    by (cases r) (simp_all add: try_step.simps [of L g task s attempt "Suc m" w] del: not_None_eq)
qed

lemma turn_returns:
  assumes "ranked rank (lp_env L)" and "\<forall>tool. rank tool < lp_fuel L"
  shows "turn_loop L g task c rs \<noteq> None"
proof -
  have "run_step L g task s i w \<noteq> None" for s i w
    using try_step_returns [OF assms(1), of s g task 0] assms(2)
    by (simp add: run_step_def Let_def option.map_disc_iff del: not_None_eq)
  then show ?thesis
    by (auto simp: turn_loop_def Let_def simp del: not_None_eq split: option.splits prod.splits sum.splits)
qed

lemma drive_returns:
  assumes "ranked rank (lp_env L)" and "\<forall>tool. rank tool < lp_fuel L"
  shows "drive L g task started c rs \<noteq> None"
  using assms
proof (induction L g task started c rs rule: drive.induct)
  case (1 L g task started c rs)
  obtain t where t: "turn_loop L g task c rs = Some t"
    using turn_returns [OF "1.prems"] by (metis option.exhaust)
  show ?case
  proof (cases "rs_index rs < length (pn_steps (rs_plan rs))")
    case True
    with t "1.IH" [OF True t _ "1.prems"] show ?thesis
      by (cases t) (simp_all add: drive.simps [of L g task started c rs] del: not_None_eq)
  qed (simp add: drive.simps [of L g task started c rs])
qed

lemma run_goal_returns:
  assumes "ranked rank (lp_env L)" and "\<forall>tool. rank tool < lp_fuel L"
  shows "run_goal L g task w \<noteq> None"
  using drive_returns [OF assms]
  by (auto simp: run_goal_def Let_def simp del: not_None_eq split: prod.splits sum.splits exn.splits)

subsection \<open>Properties\<close>

text \<open>What the journal answers, asked right after the plan was saved.\<close>

definition known_done :: "'j agent_loop \<Rightarrow> string \<Rightarrow> 'j world \<Rightarrow> pydict \<Rightarrow> bool" where
  "known_done L task w c =
     (case lp_journal L of None \<Rightarrow> c = []
      | Some J \<Rightarrow> \<exists>p now. c = jn_completed J task (jn_save_plan J task p now (wd_journal w)))"

lemma known_done_saved:
  "known_done L task w (journal_completed L task (journal_save L task p
     ((announce_state L task s (on_rt tick w))\<lparr>wd_asks := n\<rparr>)))"
  by (cases "lp_journal L")
     (auto simp: known_done_def journal_completed_def journal_save_def announce_state_def on_rt_def)

lemma known_done_exists: "\<exists>c. known_done L task w c"
  using known_done_saved by blast

lemma outcomes_backed:
  assumes "run_goal L g task w = Some (Inr o', w')"
  shows "\<exists>c. known_done L task w c \<and> honest task c o' w'"
proof -
  obtain q m where q: "make_plan (lp_planner L) g (wd_asks (announce_state L task A_THINKING (on_rt tick w))) = (q, m)"
    by (cases "make_plan (lp_planner L) g (wd_asks (announce_state L task A_THINKING (on_rt tick w)))")
  define w2 where "w2 = (announce_state L task A_THINKING (on_rt tick w))\<lparr>wd_asks := m\<rparr>"
  note run = assms [unfolded run_goal_def Let_def q prod.case, folded w2_def]
  obtain c where c: "known_done L task w c" using known_done_exists by blast
  show ?thesis
  proof (cases q)
    case (Inl x)
    then obtain e where x: "x = Garis e" using run by (cases x) auto
    with run Inl have "honest task c o' w'"
      by (auto simp: honest_def ended_def failed_report_def blocked_report_def split: if_splits)
    with c show ?thesis by blast
  next
    case (Inr p)
    show ?thesis
    proof (cases "plan_blocked p")
      case True
      with run Inr have "honest task c o' w'"
        by (auto simp: honest_def ended_def blocked_report_def)
      with c show ?thesis by blast
    next
      case False
      let ?c = "journal_completed L task (journal_save L task p w2)"
      have "honest task ?c o' w'"
        using run Inr False by (intro drive_honest) auto
      moreover have "known_done L task w ?c" unfolding w2_def by (rule known_done_saved)
      ultimately show ?thesis by blast
    qed
  qed
qed


text \<open>A loop whose model has nothing to say.\<close>

definition mute_loop :: "unit agent_loop" where
  "mute_loop =
     \<lparr>lp_env = small_env [echo], lp_fuel = 1,
      lp_planner = \<lparr>pl_router = (\<lambda>n r. Refused (Garis (mk_error NoModelAvailable ''none'' None))),
        pl_registry = [(''echo'', echo)], pl_memory = None, pl_language = ''pl'', pl_platform = ''win32'',
        pl_float = (\<lambda>v. None)\<rparr>,
      lp_verify_language = ''pl'', lp_journal = None, lp_repair_attempts = 3, lp_cut_short = (\<lambda>n r. False)\<rparr>"

definition first_world :: "unit world" where
  "first_world = \<lparr>wd_rt = start_runtime, wd_asks = 0, wd_journal = ()\<rparr>"

text \<open>One that answers every question with a plan of one step.\<close>

definition echo_loop :: "unit agent_loop" where
  "echo_loop = mute_loop\<lparr>lp_planner := (lp_planner mute_loop)
     \<lparr>pl_router := (\<lambda>n r. Read (PDict [(''steps'', PList [PDict [(''tool'', PStr ''echo'')]])]) False)\<rparr>\<rparr>"

lemma ranked_small: "ranked (\<lambda>t. 0) (small_env [echo])"
  by (auto simp: ranked_def small_env_def reg_get_def echo_def plain_tool_def split: if_splits)


text \<open>C6: a run ends. Whatever the model and the tools answer, however often plans fail and are
  repaired, the loop returns an outcome or an exception, provided handlers only perform tools of
  a lower rank and the fuel for nested actions is above every rank.\<close>

theorem run_terminates:
  assumes "ranked rank (lp_env L)" and "\<forall>tool. rank tool < lp_fuel L"
  shows "\<exists>r w'. run_goal L g task w = Some (r, w')"
  using run_goal_returns [OF assms, of g task w] by auto

theorem run_terminates_witness:
  "\<exists>r w'. run_goal echo_loop (new_goal ''x'') ''t1'' first_world = Some (r, w')"
  using ranked_small
  by (intro run_terminates [of "\<lambda>t. 0"]) (simp_all add: echo_loop_def mute_loop_def)

end
