(* ===== verification/Tasks.thy ===== *)
theory Tasks
  imports Runs
begin

section \<open>Task records and their storage (tasks/models.py, tasks/store.py)\<close>

text \<open>
  Tasks and their step journal: two tables, a row per task and a row per task and step key. JSON
  columns hold what comes back when they are read (\<open>stored\<close>: an object that is no JSON value
  comes back as its text). One clock reading serves an operation. The store is the durable journal
  of the agent loop; the interpretation below discharges the laws the loop relies on.
\<close>

subsection \<open>Records\<close>

datatype task_state = T_PENDING | T_RUNNING | T_BLOCKED | T_FINISHED | T_FAILED | T_STOPPED

fun task_state_value :: "task_state \<Rightarrow> string" where
  "task_state_value T_PENDING = ''pending''"
| "task_state_value T_RUNNING = ''running''"
| "task_state_value T_BLOCKED = ''blocked''"
| "task_state_value T_FINISHED = ''finished''"
| "task_state_value T_FAILED = ''failed''"
| "task_state_value T_STOPPED = ''stopped''"

definition terminal :: "task_state \<Rightarrow> bool" where
  "terminal s = (s \<in> {T_FINISHED, T_FAILED, T_STOPPED})"

definition active :: "task_state \<Rightarrow> bool" where
  "active s = (s \<in> {T_PENDING, T_RUNNING, T_BLOCKED})"

datatype step_state = S_PENDING | S_RUNNING | S_DONE | S_FAILED

fun step_state_value :: "step_state \<Rightarrow> string" where
  "step_state_value S_PENDING = ''pending''"
| "step_state_value S_RUNNING = ''running''"
| "step_state_value S_DONE = ''done''"
| "step_state_value S_FAILED = ''failed''"

record task_record =
  tk_id :: uid
  tk_goal :: string
  tk_state :: task_state
  tk_criteria :: "string list"
  tk_origin :: string
  tk_target :: string
  tk_plan :: pydict
  tk_cursor :: int
  tk_result :: pyval
  tk_report :: "pydict option"
  tk_error :: string
  tk_attempts :: nat
  tk_created_at :: instant
  tk_updated_at :: instant
  tk_started_at :: "instant option"
  tk_finished_at :: "instant option"
  tk_deadline :: "instant option"
  tk_meta :: pydict

definition new_task ::
  "uid \<Rightarrow> instant \<Rightarrow> string \<Rightarrow> string list \<Rightarrow> string \<Rightarrow> string \<Rightarrow> instant option \<Rightarrow> pydict \<Rightarrow> task_record" where
  "new_task fresh now what criteria origin target deadline meta =
     \<lparr>tk_id = fresh, tk_goal = strip what, tk_state = T_PENDING, tk_criteria = criteria, tk_origin = origin,
      tk_target = target, tk_plan = [], tk_cursor = 0, tk_result = PNone, tk_report = None, tk_error = [],
      tk_attempts = 0, tk_created_at = now, tk_updated_at = now, tk_started_at = None, tk_finished_at = None,
      tk_deadline = deadline, tk_meta = meta\<rparr>"

definition to_goal :: "task_record \<Rightarrow> goal" where
  "to_goal t =
     \<lparr>gl_text = tk_goal t, gl_criteria = tk_criteria t, gl_target = tk_target t,
      gl_private = truthy (dget (tk_meta t) ''private''),
      gl_context = (case map_of (tk_meta t) ''context'' of None \<Rightarrow> [] | Some v \<Rightarrow> py_str v),
      gl_origin = tk_origin t\<rparr>"

definition plan_object :: "task_record \<Rightarrow> string + plan" where
  "plan_object t = (if tk_plan t \<noteq> [] then plan_from_dict (tk_plan t) else Inr empty_plan)"

definition age_seconds :: "instant \<Rightarrow> task_record \<Rightarrow> rat" where
  "age_seconds now t = now - tk_created_at t"

definition expired :: "instant \<Rightarrow> task_record \<Rightarrow> bool" where
  "expired now t = (case tk_deadline t of None \<Rightarrow> False | Some d \<Rightarrow> d < now)"

definition opt_instant :: "(rat \<Rightarrow> string) \<Rightarrow> instant option \<Rightarrow> pyval" where
  "opt_instant show_float i = (case i of None \<Rightarrow> PNone | Some r \<Rightarrow> PFloat r (show_float r))"

definition task_to_dict :: "(rat \<Rightarrow> string) \<Rightarrow> bool \<Rightarrow> task_record \<Rightarrow> pydict" where
  "task_to_dict show_float include_plan t =
     [(''id'', PStr (tk_id t)), (''goal'', PStr (tk_goal t)), (''state'', PStr (task_state_value (tk_state t))),
      (''criteria'', PList (map PStr (tk_criteria t))), (''origin'', PStr (tk_origin t)),
      (''target'', PStr (tk_target t)),
      (''created_at'', opt_instant show_float (Some (tk_created_at t))),
      (''updated_at'', opt_instant show_float (Some (tk_updated_at t))),
      (''started_at'', opt_instant show_float (tk_started_at t)),
      (''finished_at'', opt_instant show_float (tk_finished_at t)),
      (''error'', PStr (tk_error t)), (''attempts'', PInt (int (tk_attempts t)))] @
     (case tk_report t of Some d \<Rightarrow> if d \<noteq> [] then [(''report'', PDict d)] else [] | None \<Rightarrow> []) @
     (if include_plan then [(''plan'', PDict (tk_plan t)), (''result'', tk_result t)] else [])"

fun state_mark :: "task_state \<Rightarrow> string" where
  "state_mark T_PENDING = ellipsis"
| "state_mark T_RUNNING = [CHR 0xE2, CHR 0x96, CHR 0xB6]"
| "state_mark T_BLOCKED = ''?''"
| "state_mark T_FINISHED = [CHR 0xE2, CHR 0x9C, CHR 0x93]"
| "state_mark T_FAILED = [CHR 0xE2, CHR 0x9C, CHR 0x97]"
| "state_mark T_STOPPED = [CHR 0xE2, CHR 0x96, CHR 0xA0]"

definition summary_line :: "task_record \<Rightarrow> string" where
  "summary_line t = state_mark (tk_state t) @ '' '' @ tk_id t @ ''  '' @ shorten 70 (tk_goal t)"

record step_row =
  sp_task :: uid
  sp_key :: string
  sp_ordinal :: nat
  sp_tool :: string
  sp_params :: pydict
  sp_state :: step_state
  sp_result :: pyval
  sp_error :: string
  sp_attempts :: nat
  sp_started_at :: "instant option"
  sp_finished_at :: "instant option"

definition step_row_to_dict :: "(rat \<Rightarrow> string) \<Rightarrow> step_row \<Rightarrow> pydict" where
  "step_row_to_dict show_float r =
     [(''task_id'', PStr (sp_task r)), (''step_key'', PStr (sp_key r)), (''ordinal'', PInt (int (sp_ordinal r))),
      (''tool'', PStr (sp_tool r)), (''state'', PStr (step_state_value (sp_state r))),
      (''error'', PStr (sp_error r)), (''attempts'', PInt (int (sp_attempts r))),
      (''started_at'', opt_instant show_float (sp_started_at r)),
      (''finished_at'', opt_instant show_float (sp_finished_at r))]"

subsection \<open>JSON columns\<close>

fun stored :: "pyval \<Rightarrow> pyval" where
  "stored (PList xs) = PList (map stored xs)"
| "stored (PDict d) = PDict (map (\<lambda>(k, v). (k, stored v)) d)"
| "stored (PObj t r) = PStr r"
| "stored v = v"

definition stored_dict :: "pydict \<Rightarrow> pydict" where
  "stored_dict d = map (\<lambda>(k, v). (k, stored v)) d"

text \<open>What was stored and read is a fixed point of storing.\<close>

lemma stored_idem [simp]: "stored (stored v) = stored v"
  by (induction v rule: stored.induct) auto

subsection \<open>Tasks\<close>

record task_store =
  db_tasks :: "task_record list"
  db_steps :: "step_row list"

definition task_create :: "task_record \<Rightarrow> task_store \<Rightarrow> garis_error + task_store" where
  "task_create t db =
     (if tk_id t \<in> tk_id ` set (db_tasks db)
      then Inl (mk_error StoreError (''Zapytanie nie przesz'' @ pl_l @ ''o: UNIQUE constraint failed: tasks.id'') None)
      else Inr (db\<lparr>db_tasks := db_tasks db @ [t\<lparr>tk_plan := stored_dict (tk_plan t), tk_result := stored (tk_result t),
        tk_report := map_option stored_dict (tk_report t), tk_meta := stored_dict (tk_meta t)\<rparr>]\<rparr>))"

definition task_get :: "uid \<Rightarrow> task_store \<Rightarrow> task_record option" where
  "task_get i db = row_by tk_id i (db_tasks db)"

text \<open>The \<open>KeyError\<close> carries the identifier.\<close>

definition task_require :: "uid \<Rightarrow> task_store \<Rightarrow> exn + task_record" where
  "task_require i db = (case task_get i db of None \<Rightarrow> Inl (PyExn ''KeyError'' i) | Some t \<Rightarrow> Inr t)"

definition task_list :: "task_state option \<Rightarrow> bool \<Rightarrow> nat \<Rightarrow> task_store \<Rightarrow> task_record list" where
  "task_list st active_only limit db =
     take limit (sort_key (\<lambda>t. - tk_created_at t)
       (filter (\<lambda>t. (case st of None \<Rightarrow> True | Some s \<Rightarrow> tk_state t = s) \<and> (active_only \<longrightarrow> active (tk_state t)))
         (db_tasks db)))"

text \<open>The keyword arguments \<open>set_state\<close> is given beside the state.\<close>

record extra =
  ex_error :: "string option"
  ex_report :: "pydict option option"
  ex_result :: "pyval option"
  ex_started_at :: "instant option"
  ex_finished_at :: "instant option"

definition no_extra :: extra where
  "no_extra = \<lparr>ex_error = None, ex_report = None, ex_result = None, ex_started_at = None, ex_finished_at = None\<rparr>"

definition given :: "'a option \<Rightarrow> 'a \<Rightarrow> 'a" where
  "given o' d = (case o' of None \<Rightarrow> d | Some v \<Rightarrow> v)"

definition with_state :: "instant \<Rightarrow> task_state \<Rightarrow> extra \<Rightarrow> task_record \<Rightarrow> task_record" where
  "with_state now s x t =
     t\<lparr>tk_state := s, tk_updated_at := now,
       tk_started_at := (case ex_started_at x of Some i \<Rightarrow> Some i
          | None \<Rightarrow> if s = T_RUNNING then Some now else tk_started_at t),
       tk_finished_at := (case ex_finished_at x of Some i \<Rightarrow> Some i
          | None \<Rightarrow> if terminal s then Some now else tk_finished_at t),
       tk_error := given (ex_error x) (tk_error t),
       tk_report := (case ex_report x of None \<Rightarrow> tk_report t | Some r \<Rightarrow> map_option stored_dict r),
       tk_result := (case ex_result x of None \<Rightarrow> tk_result t | Some v \<Rightarrow> stored v)\<rparr>"

definition set_state :: "instant \<Rightarrow> uid \<Rightarrow> task_state \<Rightarrow> extra \<Rightarrow> task_store \<Rightarrow> task_store" where
  "set_state now i s x db =
     db\<lparr>db_tasks := update_where (\<lambda>t. tk_id t = i) (with_state now s x) (db_tasks db)\<rparr>"

definition save_plan :: "instant \<Rightarrow> uid \<Rightarrow> plan \<Rightarrow> task_store \<Rightarrow> task_store" where
  "save_plan now i p db =
     db\<lparr>db_tasks := update_where (\<lambda>t. tk_id t = i)
       (\<lambda>t. t\<lparr>tk_plan := stored_dict (plan_to_dict p), tk_updated_at := now\<rparr>) (db_tasks db)\<rparr>"

definition task_finish ::
  "instant \<Rightarrow> uid \<Rightarrow> task_state \<Rightarrow> pydict option \<Rightarrow> pyval \<Rightarrow> string \<Rightarrow> task_store \<Rightarrow> task_store" where
  "task_finish now i s rep res err db =
     set_state now i s (no_extra\<lparr>ex_report := Some rep, ex_result := Some res, ex_error := Some err\<rparr>) db"

definition touch :: "instant \<Rightarrow> uid \<Rightarrow> task_store \<Rightarrow> task_store" where
  "touch now i db =
     db\<lparr>db_tasks := update_where (\<lambda>t. tk_id t = i) (\<lambda>t. t\<lparr>tk_updated_at := now\<rparr>) (db_tasks db)\<rparr>"

definition bump_attempts :: "instant \<Rightarrow> uid \<Rightarrow> task_store \<Rightarrow> nat \<times> task_store" where
  "bump_attempts now i db =
     (let db' = db\<lparr>db_tasks := update_where (\<lambda>t. tk_id t = i)
            (\<lambda>t. t\<lparr>tk_attempts := tk_attempts t + 1, tk_updated_at := now\<rparr>) (db_tasks db)\<rparr>
      in (case task_get i db' of None \<Rightarrow> 0 | Some t \<Rightarrow> tk_attempts t, db'))"

definition stale :: "instant \<Rightarrow> int \<Rightarrow> task_record \<Rightarrow> bool" where
  "stale now days t =
     (terminal (tk_state t) \<and> (case tk_finished_at t of None \<Rightarrow> False | Some f \<Rightarrow> f < now - of_int days * 86400))"

definition prune_finished :: "instant \<Rightarrow> int \<Rightarrow> task_store \<Rightarrow> nat \<times> task_store" where
  "prune_finished now days db =
     (length (filter (stale now days) (db_tasks db)),
      db\<lparr>db_tasks := filter (\<lambda>t. \<not> stale now days t) (db_tasks db)\<rparr>)"

subsection \<open>Steps\<close>

definition is_step :: "uid \<Rightarrow> string \<Rightarrow> step_row \<Rightarrow> bool" where
  "is_step i k r = (sp_task r = i \<and> sp_key r = k)"

definition step_started :: "instant \<Rightarrow> uid \<Rightarrow> string \<Rightarrow> nat \<Rightarrow> string \<Rightarrow> pydict \<Rightarrow> task_store \<Rightarrow> task_store" where
  "step_started now i k ordinal tool params db =
     (if list_ex (is_step i k) (db_steps db)
      then db\<lparr>db_steps := update_where (is_step i k)
             (\<lambda>r. r\<lparr>sp_attempts := sp_attempts r + 1, sp_started_at := Some now, sp_state := S_RUNNING\<rparr>) (db_steps db)\<rparr>
      else db\<lparr>db_steps := db_steps db @
             [\<lparr>sp_task = i, sp_key = k, sp_ordinal = ordinal, sp_tool = tool, sp_params = stored_dict params,
               sp_state = S_RUNNING, sp_result = PNone, sp_error = [], sp_attempts = 1,
               sp_started_at = Some now, sp_finished_at = None\<rparr>]\<rparr>)"

definition step_finished :: "instant \<Rightarrow> uid \<Rightarrow> string \<Rightarrow> action_result \<Rightarrow> task_store \<Rightarrow> task_store" where
  "step_finished now i k res db =
     db\<lparr>db_steps := update_where (is_step i k)
       (\<lambda>r. r\<lparr>sp_state := (if ar_ok res then S_DONE else S_FAILED), sp_result := stored (ar_value res),
              sp_error := error_text res, sp_finished_at := Some now\<rparr>) (db_steps db)\<rparr>"

definition completed_steps :: "uid \<Rightarrow> task_store \<Rightarrow> pydict" where
  "completed_steps i db =
     map (\<lambda>r. (sp_key r, sp_result r)) (filter (\<lambda>r. sp_task r = i \<and> sp_state r = S_DONE) (db_steps db))"

definition steps_for :: "uid \<Rightarrow> task_store \<Rightarrow> step_row list" where
  "steps_for i db = sort_key sp_ordinal (filter (\<lambda>r. sp_task r = i) (db_steps db))"

definition reset_running_steps :: "uid \<Rightarrow> task_store \<Rightarrow> nat \<times> task_store" where
  "reset_running_steps i db =
     (let p = (\<lambda>r. sp_task r = i \<and> sp_state r = S_RUNNING)
      in (length (filter p (db_steps db)),
          db\<lparr>db_steps := update_where p (\<lambda>r. r\<lparr>sp_state := S_PENDING\<rparr>) (db_steps db)\<rparr>))"

definition recover_incomplete :: "task_store \<Rightarrow> task_record list \<times> task_store" where
  "recover_incomplete db =
     (let ts = filter (\<lambda>t. tk_state t = T_RUNNING) (db_tasks db)
      in (ts, fold (\<lambda>t d. snd (reset_running_steps (tk_id t) d)) ts db))"

subsection \<open>The store as the loop's journal (tasks/supervisor.py, _StoreJournal)\<close>

definition store_journal :: "task_store journal" where
  "store_journal =
     \<lparr>jn_save_plan = (\<lambda>i p now. save_plan now i p), jn_completed = completed_steps,
      jn_started = (\<lambda>i s ordinal now. step_started now i (st_key s) ordinal (st_tool s) (st_params s)),
      jn_finished = (\<lambda>i s res now. step_finished now i (st_key s) res)\<rparr>"

text \<open>The rows of one step, if there are any.\<close>

definition step_rows :: "uid \<Rightarrow> string \<Rightarrow> task_store \<Rightarrow> step_row list" where
  "step_rows i k db = filter (is_step i k) (db_steps db)"

definition step_entry :: "uid \<Rightarrow> string \<Rightarrow> task_store \<Rightarrow> step_row list option" where
  "step_entry i k db = (if step_rows i k db = [] then None else Some (step_rows i k db))"

definition rows_done :: "step_row list \<Rightarrow> pyval option" where
  "rows_done rs = map_option sp_result (find (\<lambda>r. sp_state r = S_DONE) rs)"

lemma is_step_fields [simp]:
  "is_step i k (r\<lparr>sp_state := s\<rparr>) = is_step i k r" "is_step i k (r\<lparr>sp_attempts := n\<rparr>) = is_step i k r"
  "is_step i k (r\<lparr>sp_started_at := b\<rparr>) = is_step i k r" "is_step i k (r\<lparr>sp_finished_at := b\<rparr>) = is_step i k r"
  "is_step i k (r\<lparr>sp_result := v\<rparr>) = is_step i k r" "is_step i k (r\<lparr>sp_error := e\<rparr>) = is_step i k r"
  by (simp_all add: is_step_def)

lemma step_rows_started_other:
  "t \<noteq> i \<or> k \<noteq> k' \<Longrightarrow> step_rows t k (step_started now i k' n tool ps db) = step_rows t k db"
  unfolding step_rows_def step_started_def
  by (auto simp: is_step_def intro!: filter_update_elsewhere)

lemma step_rows_finished_other:
  "t \<noteq> i \<or> k \<noteq> k' \<Longrightarrow> step_rows t k (step_finished now i k' res db) = step_rows t k db"
  unfolding step_rows_def step_finished_def
  by (auto simp: is_step_def intro!: filter_update_elsewhere)

lemma step_rows_save: "step_rows t k (save_plan now i p db) = step_rows t k db"
  by (simp add: step_rows_def save_plan_def)

lemma step_rows_started: "step_rows i k (step_started now i k n tool ps db) \<noteq> []"
proof (cases "list_ex (is_step i k) (db_steps db)")
  case True
  then have "filter (is_step i k) (db_steps db) \<noteq> []" by (simp add: list_ex_iff filter_empty_conv)
  with True show ?thesis by (simp add: step_rows_def step_started_def filter_update_where)
next
  case False
  then show ?thesis by (simp add: step_rows_def step_started_def is_step_def)
qed

lemma step_rows_finished:
  "step_rows i k (step_finished now i k res db) =
   map (\<lambda>r. r\<lparr>sp_state := (if ar_ok res then S_DONE else S_FAILED), sp_result := stored (ar_value res),
          sp_error := error_text res, sp_finished_at := Some now\<rparr>) (step_rows i k db)"
  unfolding step_rows_def step_finished_def by (simp add: filter_update_where)

lemma completed_entry: "map_of (completed_steps i db) k = Option.bind (step_entry i k db) rows_done"
proof -
  have "map_of (map (\<lambda>r. (sp_key r, sp_result r)) (filter (\<lambda>r. sp_task r = i \<and> sp_state r = S_DONE) rows)) k =
      map_option sp_result (find (\<lambda>r. sp_state r = S_DONE) (filter (is_step i k) rows))" for rows
    by (induction rows) (auto simp: is_step_def)
  then show ?thesis by (auto simp: completed_steps_def step_entry_def rows_done_def step_rows_def)
qed

lemma rows_done_ok: "rows \<noteq> [] \<Longrightarrow> rows_done (map (\<lambda>r. r\<lparr>sp_state := S_DONE, sp_result := v,
    sp_error := e, sp_finished_at := f\<rparr>) rows) = Some v"
  by (cases rows) (simp_all add: rows_done_def)

lemma rows_done_failed: "rows_done (map (\<lambda>r. r\<lparr>sp_state := S_FAILED, sp_result := v,
    sp_error := e, sp_finished_at := f\<rparr>) rows) = None"
  by (induction rows) (simp_all add: rows_done_def)

interpretation task_journal: durable_journal store_journal step_entry rows_done stored
proof unfold_locales
  fix t s res now i now' j
  have "step_rows t (st_key s) (jn_started store_journal t s i now' j) \<noteq> []"
    by (simp add: store_journal_def step_rows_started)
  then show "\<exists>e. step_entry t (st_key s) (jn_finished store_journal t s res now (jn_started store_journal t s i now' j)) =
      Some e \<and> rows_done e = (if ar_ok res then Some (stored (ar_value res)) else None)"
    by (simp add: step_entry_def store_journal_def step_rows_finished rows_done_ok rows_done_failed)
qed (auto simp: store_journal_def completed_entry step_entry_def step_rows_started_other step_rows_finished_other
      step_rows_save)

interpretation booked: journalled_loop store_journal step_entry rows_done stored "L\<lparr>lp_journal := Some store_journal\<rparr>" for L
  by unfold_locales simp

subsection \<open>Properties\<close>

text \<open>C5: finished work is neither repeated nor lost. Whatever a run of a task does, however its plan
  differs from the plan of an earlier life, the journal rows of every step that was done before
  it (attempts, result and times included) and all rows of other tasks are the same afterwards,
  so no such step was started again.\<close>

theorem done_work_is_kept:
  assumes "run_goal (L\<lparr>lp_journal := Some store_journal\<rparr>) g task w = Some (r, w')"
    and "t \<noteq> task \<or> map_of (completed_steps task (wd_journal w)) k \<noteq> None"
  shows "step_rows t k (wd_journal w') = step_rows t k (wd_journal w)"
proof -
  have "map_of (journal_completed (L\<lparr>lp_journal := Some store_journal\<rparr>) task w) k =
      map_of (completed_steps task (wd_journal w)) k"
    by (simp add: journal_completed_def store_journal_def)
  with booked.run_keeps_entries [OF assms(1), of t k] assms(2)
  have "step_entry t k (wd_journal w') = step_entry t k (wd_journal w)" by simp
  then show ?thesis by (simp add: step_entry_def split: if_splits)
qed

definition done_row :: step_row where
  "done_row = \<lparr>sp_task = ''t1'', sp_key = ''step-1'', sp_ordinal = 0, sp_tool = ''other'', sp_params = [],
     sp_state = S_DONE, sp_result = PInt 5, sp_error = [], sp_attempts = 1, sp_started_at = None, sp_finished_at = None\<rparr>"

definition booked_loop :: "task_store agent_loop" where
  "booked_loop =
     \<lparr>lp_env = small_env [echo], lp_fuel = 1, lp_planner = lp_planner echo_loop, lp_verify_language = ''pl'',
      lp_journal = None, lp_repair_attempts = 3, lp_cut_short = (\<lambda>n r. False)\<rparr>"

theorem done_work_is_kept_witness:
  "\<exists>r w'. run_goal (booked_loop\<lparr>lp_journal := Some store_journal\<rparr>) (new_goal ''x'') ''t1''
       \<lparr>wd_rt = start_runtime, wd_asks = 0, wd_journal = \<lparr>db_tasks = [], db_steps = [done_row]\<rparr>\<rparr> = Some (r, w') \<and>
     step_rows ''t1'' ''step-1'' (wd_journal w') = [done_row]"
proof -
  let ?w = "\<lparr>wd_rt = start_runtime, wd_asks = 0, wd_journal = \<lparr>db_tasks = [], db_steps = [done_row]\<rparr>\<rparr>"
  let ?L = "booked_loop\<lparr>lp_journal := Some store_journal\<rparr>"
  have "run_goal ?L (new_goal ''x'') ''t1'' ?w \<noteq> None"
    by (rule run_goal_returns [of "\<lambda>t. 0"]) (simp_all add: booked_loop_def ranked_small)
  then obtain r w' where run: "run_goal ?L (new_goal ''x'') ''t1'' ?w = Some (r, w')" by auto
  have "map_of (completed_steps ''t1'' (wd_journal ?w)) ''step-1'' \<noteq> None"
    by (simp add: completed_steps_def done_row_def)
  with done_work_is_kept [OF run, of "''t1''" "''step-1''"]
  have "step_rows ''t1'' ''step-1'' (wd_journal w') = [done_row]"
    by (simp add: step_rows_def is_step_def done_row_def)
  with run show ?thesis by blast
qed

text \<open>Resetting touches the running steps of one task only.\<close>

lemma reset_steps: "db_steps (snd (reset_running_steps i db)) =
    map (\<lambda>r. if sp_task r = i \<and> sp_state r = S_RUNNING then r\<lparr>sp_state := S_PENDING\<rparr> else r) (db_steps db)"
  by (simp add: reset_running_steps_def Let_def update_where_def)

lemma fold_reset_steps:
  "db_steps (fold (\<lambda>t d. snd (reset_running_steps (tk_id t) d)) ts db) =
   map (\<lambda>r. if sp_task r \<in> tk_id ` set ts \<and> sp_state r = S_RUNNING then r\<lparr>sp_state := S_PENDING\<rparr> else r) (db_steps db)"
  by (induction ts arbitrary: db) (auto simp: reset_steps)

lemma fold_reset_tasks: "db_tasks (fold (\<lambda>t d. snd (reset_running_steps (tk_id t) d)) ts db) = db_tasks db"
  by (induction ts arbitrary: db) (auto simp: reset_running_steps_def Let_def)

lemma recovery_tasks: "db_tasks (snd (recover_incomplete db)) = db_tasks db"
  by (simp add: recover_incomplete_def Let_def fold_reset_tasks)

text \<open>Recovery finds exactly the tasks that were running when the process died and puts exactly
  their unfinished steps back to pending: no task row changes, a step of such a task that was
  caught running becomes pending, and every other step row, the done ones in particular, is as
  it was.\<close>

theorem recovery_resets_the_unfinished:
  "fst (recover_incomplete db) = filter (\<lambda>t. tk_state t = T_RUNNING) (db_tasks db) \<and>
   db_tasks (snd (recover_incomplete db)) = db_tasks db \<and>
   db_steps (snd (recover_incomplete db)) = map (\<lambda>r.
     if sp_state r = S_RUNNING \<and> list_ex (\<lambda>t. tk_id t = sp_task r \<and> tk_state t = T_RUNNING) (db_tasks db)
     then r\<lparr>sp_state := S_PENDING\<rparr> else r) (db_steps db)"
proof -
  have "sp_task r \<in> tk_id ` set (filter (\<lambda>t. tk_state t = T_RUNNING) (db_tasks db)) \<longleftrightarrow>
      list_ex (\<lambda>t. tk_id t = sp_task r \<and> tk_state t = T_RUNNING) (db_tasks db)" for r
    by (force simp: list_ex_iff)
  then show ?thesis
    by (auto simp: recover_incomplete_def Let_def fold_reset_steps fold_reset_tasks intro!: map_cong)
qed

end
