(* ===== verification/Supervisor.thy ===== *)
theory Supervisor
  imports Tasks
begin

section \<open>The task supervisor (tasks/supervisor.py)\<close>

text \<open>
  Tasks run as coroutines of one event loop. A coroutine waits for a slot of the semaphore, is
  inside (the agent loop runs), or is over; a cancellation is requested first and delivered
  later. The operations are functions; the relation \<open>sup_next\<close> interleaves them with what the
  coroutines do: getting a slot, writing the journal, coming back from the agent loop with any
  outcome or exception, being cancelled, and the whole process dying. \<open>task_run\<close> is one coroutine
  run without interruption, with the agent loop of the theory \<open>Loop\<close> inside.
\<close>

subsection \<open>What a finished run does to the store\<close>

definition stopped_by_user :: string where
  "stopped_by_user = ''zatrzymane przez u'' @ pl_z @ ''ytkownika''"

definition mark_stopped :: "instant \<Rightarrow> uid \<Rightarrow> string \<Rightarrow> task_store \<Rightarrow> task_store" where
  "mark_stopped now i why db = set_state now i T_STOPPED (no_extra\<lparr>ex_error := Some why\<rparr>) db"

definition final_error :: "outcome \<Rightarrow> string" where
  "final_error o' =
     (if outcome_ok o' then [] else if rp_short (oc_report o') \<noteq> [] then rp_short (oc_report o') else ''nie uda'' @ pl_l @ ''o si'' @ pl_e)"

definition apply_outcome :: "instant \<Rightarrow> uid \<Rightarrow> outcome \<Rightarrow> task_store \<Rightarrow> task_store" where
  "apply_outcome now i o' db =
     (if oc_state o' = A_BLOCKED then
        set_state now i T_BLOCKED
          (no_extra\<lparr>ex_report := Some (Some (report_to_dict (oc_report o'))), ex_error := Some (oc_question o')\<rparr>) db
      else
        task_finish now i (if outcome_ok o' then T_FINISHED else T_FAILED)
          (Some (report_to_dict (oc_report o'))) (PDict (rp_developer (oc_report o'))) (final_error o') db)"

text \<open>How \<open>_run\<close> ends: an exception it does not catch leaves the store as it is.\<close>

definition settle_run :: "instant \<Rightarrow> uid \<Rightarrow> exn + outcome \<Rightarrow> task_store \<Rightarrow> task_store" where
  "settle_run now i r db =
     (case r of
        Inr o' \<Rightarrow> apply_outcome now i o' db
      | Inl x \<Rightarrow>
          (case x of
             Cancellation \<Rightarrow> mark_stopped now i stopped_by_user db
           | Garis e \<Rightarrow> if isinstance x TaskAborted then mark_stopped now i (ge_message e) db else db
           | PyExn t m \<Rightarrow> db))"

definition id_only :: "uid \<Rightarrow> payload" where
  "id_only i = [(''task_id'', EvVal (PStr i))]"

definition run_notice :: "uid \<Rightarrow> exn + outcome \<Rightarrow> (topic \<times> payload) option" where
  "run_notice i r =
     (case r of
        Inr o' \<Rightarrow>
          Some (if oc_state o' = A_BLOCKED
                then (TASK_BLOCKED, id_only i @ [(''question'', EvVal (PStr (oc_question o'))),
                        (''approval_id'', EvVal (PStr (oc_approval o')))])
                else (if outcome_ok o' then TASK_FINISHED else TASK_FAILED,
                      id_only i @ [(''report'', EvVal (PStr (rp_short (oc_report o'))))]))
      | Inl x \<Rightarrow>
          (case x of
             Cancellation \<Rightarrow> Some (TASK_STOPPED, id_only i)
           | Garis e \<Rightarrow> if isinstance x TaskAborted then Some (TASK_STOPPED, id_only i) else None
           | PyExn t m \<Rightarrow> None))"

definition started_body :: "uid \<Rightarrow> string \<Rightarrow> payload" where
  "started_body i what = id_only i @ [(''goal'', EvVal (PStr what))]"

subsection \<open>One coroutine, uninterrupted\<close>

definition task_run ::
  "task_store agent_loop \<Rightarrow> uid \<Rightarrow> task_store world \<Rightarrow> ((exn + outcome) \<times> task_store world) option" where
  "task_run L i w =
     (case task_require i (wd_journal w) of
        Inl x \<Rightarrow> Some (Inl x, w)
      | Inr t \<Rightarrow>
          let w1 = on_rt tick (w\<lparr>wd_journal := set_state (loop_now L w) i T_RUNNING no_extra (wd_journal w)\<rparr>);
              w2 = on_rt (rt_emit (lp_env L) TASK_STARTED (started_body i (tk_goal t))) w1
          in map_option (\<lambda>(r, w3).
               let w4 = on_rt tick (w3\<lparr>wd_journal := settle_run (loop_now L w3) i r (wd_journal w3)\<rparr>)
               in (r, case run_notice i r of None \<Rightarrow> w4 | Some (topic, body) \<Rightarrow> on_rt (rt_emit (lp_env L) topic body) w4))
             (run_goal (L\<lparr>lp_journal := Some store_journal\<rparr>) (to_goal t) i w2))"

subsection \<open>The supervisor\<close>

datatype phase = Queued | Inside | Over

record coroutine =
  co_phase :: phase
  co_cancelled :: bool

record supervisor =
  sv_db :: task_store
  sv_running :: "(uid \<times> coroutine) list"
  sv_flags :: "uid list"
  sv_bus :: bus

definition fresh_coroutine :: coroutine where
  "fresh_coroutine = \<lparr>co_phase = Queued, co_cancelled = False\<rparr>"

definition phase_of :: "supervisor \<Rightarrow> uid \<Rightarrow> phase" where
  "phase_of s i = (case map_of (sv_running s) i of None \<Rightarrow> Over | Some c \<Rightarrow> co_phase c)"

definition alive :: "supervisor \<Rightarrow> uid \<Rightarrow> bool" where
  "alive s i = (phase_of s i \<noteq> Over)"

definition inside_count :: "supervisor \<Rightarrow> nat" where
  "inside_count s = length (filter (\<lambda>(i, c). co_phase c = Inside) (sv_running s))"

definition set_phase :: "uid \<Rightarrow> phase \<Rightarrow> supervisor \<Rightarrow> supervisor" where
  "set_phase i p s =
     s\<lparr>sv_running := map (\<lambda>(j, c). (j, if j = i then c\<lparr>co_phase := p\<rparr> else c)) (sv_running s)\<rparr>"

definition tell_bus :: "instant \<Rightarrow> topic \<Rightarrow> payload \<Rightarrow> supervisor \<Rightarrow> supervisor" where
  "tell_bus now t body s = s\<lparr>sv_bus := emit now (topic_name t) body (sv_bus s)\<rparr>"

definition launch :: "uid \<Rightarrow> supervisor \<Rightarrow> supervisor" where
  "launch i s = (if alive s i then s else s\<lparr>sv_running := dict_set i fresh_coroutine (sv_running s)\<rparr>)"

definition submit ::
  "uid \<Rightarrow> instant \<Rightarrow> string \<Rightarrow> string list \<Rightarrow> string \<Rightarrow> string \<Rightarrow> instant option \<Rightarrow> pydict \<Rightarrow> supervisor \<Rightarrow>
   garis_error + task_record \<times> supervisor" where
  "submit fresh now what criteria origin target deadline meta s =
     (let t = new_task fresh now what criteria origin target deadline meta
      in case task_create t (sv_db s) of
           Inl e \<Rightarrow> Inl e
         | Inr db \<Rightarrow> Inr (t, launch fresh (tell_bus now TASK_CREATED
             (started_body fresh (tk_goal t) @ [(''origin'', EvVal (PStr origin))]) (s\<lparr>sv_db := db\<rparr>))))"

definition resume :: "instant \<Rightarrow> uid \<Rightarrow> supervisor \<Rightarrow> (exn + task_record) \<times> supervisor" where
  "resume now i s =
     (case task_require i (sv_db s) of
        Inl x \<Rightarrow> (Inl x, s)
      | Inr t \<Rightarrow>
          if tk_state t \<noteq> T_BLOCKED \<and> tk_state t \<noteq> T_PENDING then (Inr t, s)
          else let s' = launch i (s\<lparr>sv_db := set_state now i T_PENDING (no_extra\<lparr>ex_error := Some []\<rparr>) (sv_db s)\<rparr>)
               in (task_require i (sv_db s'), s'))"

definition request_cancel :: "uid \<Rightarrow> supervisor \<Rightarrow> supervisor" where
  "request_cancel i s =
     s\<lparr>sv_flags := List.insert i (sv_flags s),
       sv_running := map (\<lambda>(j, c). (j, if j = i then c\<lparr>co_cancelled := True\<rparr> else c)) (sv_running s)\<rparr>"

definition stop :: "instant \<Rightarrow> uid \<Rightarrow> supervisor \<Rightarrow> bool \<times> supervisor" where
  "stop now i s =
     (if alive s i then (True, request_cancel i s)
      else (case task_get i (sv_db s) of
              None \<Rightarrow> (False, s)
            | Some t \<Rightarrow> if active (tk_state t)
                then (True, s\<lparr>sv_db := mark_stopped now i stopped_by_user (sv_db s)\<rparr>) else (False, s)))"

definition recover :: "instant \<Rightarrow> supervisor \<Rightarrow> task_record list \<times> supervisor" where
  "recover now s =
     (let (ts, db) = recover_incomplete (sv_db s)
      in (ts, fold (\<lambda>t u. launch (tk_id t) (tell_bus now TASK_STARTED
            (started_body (tk_id t) (tk_goal t) @ [(''resumed'', EvVal (PBool True))]) u)) ts (s\<lparr>sv_db := db\<rparr>)))"

subsection \<open>What coroutines do\<close>

text \<open>A slot is free: the coroutine gets in and marks its task, or dies when the task is gone.\<close>

definition enter :: "instant \<Rightarrow> uid \<Rightarrow> supervisor \<Rightarrow> supervisor" where
  "enter now i s =
     (case task_require i (sv_db s) of
        Inl x \<Rightarrow> set_phase i Over s
      | Inr t \<Rightarrow> tell_bus now TASK_STARTED (started_body i (tk_goal t))
          (set_phase i Inside (s\<lparr>sv_db := set_state now i T_RUNNING no_extra (sv_db s)\<rparr>)))"

definition leave :: "instant \<Rightarrow> uid \<Rightarrow> exn + outcome \<Rightarrow> supervisor \<Rightarrow> supervisor" where
  "leave now i r s =
     (let s1 = set_phase i Over (s\<lparr>sv_flags := removeAll i (sv_flags s), sv_db := settle_run now i r (sv_db s)\<rparr>)
      in case run_notice i r of None \<Rightarrow> s1 | Some (topic, body) \<Rightarrow> tell_bus now topic body s1)"

text \<open>A cancellation that arrives while the coroutine is queued is raised by the semaphore,
  before the handler of \<open>_run\<close> is in force.\<close>

definition drop_queued :: "uid \<Rightarrow> supervisor \<Rightarrow> supervisor" where
  "drop_queued i s = set_phase i Over s"

definition restarted :: "bus \<Rightarrow> supervisor \<Rightarrow> supervisor" where
  "restarted b s = s\<lparr>sv_running := [], sv_flags := [], sv_bus := b\<rparr>"

inductive sup_next :: "nat \<Rightarrow> supervisor \<Rightarrow> supervisor \<Rightarrow> bool" for slots where
  submits: "submit fresh now what criteria origin target deadline meta s = Inr (t, s') \<Longrightarrow> sup_next slots s s'"
| resumes: "resume now i s = (r, s') \<Longrightarrow> sup_next slots s s'"
| stops: "stop now i s = (b, s') \<Longrightarrow> sup_next slots s s'"
| recovers: "recover now s = (ts, s') \<Longrightarrow> sup_next slots s s'"
| enters: "map_of (sv_running s) i = Some c \<Longrightarrow> co_phase c = Queued \<Longrightarrow> \<not> co_cancelled c \<Longrightarrow>
    inside_count s < slots \<Longrightarrow> sup_next slots s (enter now i s)"
| drops: "map_of (sv_running s) i = Some c \<Longrightarrow> co_phase c = Queued \<Longrightarrow> co_cancelled c \<Longrightarrow>
    sup_next slots s (drop_queued i s)"
| leaves: "phase_of s i = Inside \<Longrightarrow> sup_next slots s (leave now i r s)"
| saves: "phase_of s i = Inside \<Longrightarrow> sup_next slots s (s\<lparr>sv_db := save_plan now i p (sv_db s)\<rparr>)"
| starts: "phase_of s i = Inside \<Longrightarrow>
    sup_next slots s (s\<lparr>sv_db := step_started now i k n tool ps (sv_db s)\<rparr>)"
| finishes: "phase_of s i = Inside \<Longrightarrow> sup_next slots s (s\<lparr>sv_db := step_finished now i k res (sv_db s)\<rparr>)"
| prunes: "prune_finished now days (sv_db s) = (n, db) \<Longrightarrow> sup_next slots s (s\<lparr>sv_db := db\<rparr>)"
| restarts: "sup_next slots s (restarted b s)"

definition first_supervisor :: "bus \<Rightarrow> supervisor" where
  "first_supervisor b = \<lparr>sv_db = \<lparr>db_tasks = [], db_steps = []\<rparr>, sv_running = [], sv_flags = [], sv_bus = b\<rparr>"

inductive sup_reach :: "nat \<Rightarrow> supervisor \<Rightarrow> bool" for slots where
  begins: "sup_reach slots (first_supervisor b)"
| goes: "sup_reach slots s \<Longrightarrow> sup_next slots s s' \<Longrightarrow> sup_reach slots s'"

definition max_slots :: "int \<Rightarrow> nat" where
  "max_slots max_parallel = nat (max 1 max_parallel)"

subsection \<open>Waiting\<close>

text \<open>\<open>wait\<close> polls the store; the list holds what it sees at each poll and the clock then.\<close>

fun sup_wait :: "uid \<Rightarrow> instant option \<Rightarrow> (task_store \<times> instant) list \<Rightarrow> (exn + task_record) option" where
  "sup_wait i deadline [] = None"
| "sup_wait i deadline ((db, now) # polls) =
     (case task_require i db of
        Inl x \<Rightarrow> Some (Inl x)
      | Inr t \<Rightarrow>
          if \<not> active (tk_state t) \<or> tk_state t = T_BLOCKED then Some (Inr t)
          else if (case deadline of None \<Rightarrow> False | Some d \<Rightarrow> d \<le> now) then Some (Inr t)
          else sup_wait i deadline polls)"

definition active_count :: "supervisor \<Rightarrow> nat" where
  "active_count s = length (task_list None True 200 (sv_db s))"

subsection \<open>The state of tasks and coroutines under the operations\<close>

definition state_in :: "supervisor \<Rightarrow> uid \<Rightarrow> task_state option" where
  "state_in s i = map_option tk_state (task_get i (sv_db s))"

lemma tk_id_with_state [simp]: "tk_id (with_state now st x t) = tk_id t"
  by (simp add: with_state_def)

lemma tk_state_with_state [simp]: "tk_state (with_state now st x t) = st"
  by (simp add: with_state_def)

lemma get_set_state: "task_get j (set_state now i st x db) =
    (if j = i then map_option (with_state now st x) (task_get i db) else task_get j db)"
  by (simp add: task_get_def set_state_def row_by_update_key)

lemma get_save_plan: "task_get j (save_plan now i p db) =
    (if j = i then map_option (\<lambda>t. t\<lparr>tk_plan := stored_dict (plan_to_dict p), tk_updated_at := now\<rparr>) (task_get i db)
     else task_get j db)"
  by (simp add: task_get_def save_plan_def row_by_update_key)

lemma get_steps [simp]:
  "task_get j (step_started now i k n tool ps db) = task_get j db"
  "task_get j (step_finished now i k res db) = task_get j db"
  "task_get j (snd (recover_incomplete db)) = task_get j db"
  using recovery_tasks [of db]
  by (simp_all add: task_get_def step_started_def step_finished_def)

lemma get_create: "task_create t db = Inr db' \<Longrightarrow> task_get (tk_id t) db = None \<and>
    (\<exists>t'. tk_state t' = tk_state t \<and> tk_id t' = tk_id t \<and> db_tasks db' = db_tasks db @ [t'] \<and>
       task_get j db' = (if j = tk_id t then Some t' else task_get j db))"
  by (auto simp: task_create_def task_get_def row_by_append split: if_splits option.splits)

lemma row_by_filter:
  "distinct (map key rows) \<Longrightarrow> row_by key k (filter P rows) =
   (case row_by key k rows of None \<Rightarrow> None | Some r \<Rightarrow> if P r then Some r else None)"
proof (induction rows)
  case Nil
  then show ?case by simp
next
  case (Cons r rows)
  then have "row_by key (key r) rows = None" by simp
  with Cons show ?case by (auto split: option.splits)
qed

lemma phase_set_phase: "phase_of (set_phase i p s) j =
    (if j = i \<and> map_of (sv_running s) i \<noteq> None then p else phase_of s j)"
proof -
  have "map_of (map (\<lambda>(k, c). (k, if k = i then f c else c)) xs) j =
      (if j = i then map_option f (map_of xs j) else map_of xs j)" for f :: "coroutine \<Rightarrow> coroutine" and xs
    by (induction xs) auto
  then show ?thesis by (auto simp: phase_of_def set_phase_def split: option.splits)
qed

lemma running_request_cancel: "map_of (sv_running (request_cancel i s)) i =
    map_option (\<lambda>c. c\<lparr>co_cancelled := True\<rparr>) (map_of (sv_running s) i)"
proof -
  have "map_of (map (\<lambda>(j, c). (j, if j = i then c\<lparr>co_cancelled := True\<rparr> else c)) xs) i =
      map_option (\<lambda>c. c\<lparr>co_cancelled := True\<rparr>) (map_of xs i)" for xs
    by (induction xs) auto
  from this [of "sv_running s"] show ?thesis by (simp add: request_cancel_def)
qed

lemma phase_request_cancel [simp]: "phase_of (request_cancel i s) j = phase_of s j"
proof -
  have "map_option co_phase (map_of (map (\<lambda>(k, c). (k, if k = i then c\<lparr>co_cancelled := True\<rparr> else c)) xs) j) =
      map_option co_phase (map_of xs j)" for xs
    by (induction xs) auto
  from this [of "sv_running s"] show ?thesis
    by (auto simp: phase_of_def request_cancel_def split: option.splits)
qed

lemma phase_launch: "phase_of (launch i s) j = (if j = i \<and> \<not> alive s i then Queued else phase_of s j)"
  by (auto simp: launch_def phase_of_def fresh_coroutine_def alive_def)

lemma phase_frame [simp]:
  "phase_of (s\<lparr>sv_db := db\<rparr>) i = phase_of s i" "phase_of (s\<lparr>sv_flags := fl\<rparr>) i = phase_of s i"
  "phase_of (tell_bus now t body s) i = phase_of s i"
  by (simp_all add: phase_of_def tell_bus_def)

lemma alive_frame [simp]: "alive (s\<lparr>sv_db := db\<rparr>) i = alive s i" "\<not> alive (restarted b s) i"
  by (simp_all add: alive_def phase_of_def restarted_def)

lemma db_frame [simp]:
  "sv_db (set_phase i p s) = sv_db s" "sv_db (tell_bus now t body s) = sv_db s"
  "sv_db (launch i s) = sv_db s" "sv_db (request_cancel i s) = sv_db s"
  "sv_db (restarted b s) = sv_db s" "sv_db (drop_queued i s) = sv_db s"
  by (simp_all add: set_phase_def tell_bus_def launch_def request_cancel_def restarted_def drop_queued_def)

lemma running_frame [simp]:
  "sv_running (tell_bus now t body s) = sv_running s"
  by (simp add: tell_bus_def)

text \<open>Coroutines inside, counted over the dict.\<close>

definition inside_in :: "(uid \<times> coroutine) list \<Rightarrow> nat" where
  "inside_in xs = length (filter (\<lambda>(i, c). co_phase c = Inside) xs)"

lemma inside_count_in: "inside_count s = inside_in (sv_running s)"
  by (simp add: inside_count_def inside_in_def)

lemma inside_dict_set:
  "(\<forall>c. map_of xs i = Some c \<longrightarrow> co_phase c \<noteq> Inside) \<Longrightarrow> inside_in (dict_set i fresh_coroutine xs) = inside_in xs"
  by (induction i fresh_coroutine xs rule: dict_set.induct) (auto simp: inside_in_def fresh_coroutine_def)

lemma inside_launch [simp]: "inside_count (launch i s) = inside_count s"
  by (auto simp: inside_count_in launch_def alive_def phase_of_def intro!: inside_dict_set)

lemma inside_map_le:
  assumes "distinct (map fst xs)"
  shows "inside_in (map (\<lambda>(j, c). (j, if j = i then c\<lparr>co_phase := p\<rparr> else c)) xs) \<le> inside_in xs + (if p = Inside then 1 else 0)"
  using assms
proof (induction xs)
  case Nil
  then show ?case by (simp add: inside_in_def)
next
  case (Cons x xs)
  obtain j c where x: "x = (j, c)" by (cases x)
  show ?case
  proof (cases "j = i")
    case True
    with Cons.prems x have "map (\<lambda>(j, c). (j, if j = i then c\<lparr>co_phase := p\<rparr> else c)) xs = xs"
      by (intro map_idI) force
    with True x show ?thesis by (auto simp: inside_in_def)
  next
    case False
    with Cons x show ?thesis by (auto simp: inside_in_def)
  qed
qed

lemma keys_set_phase: "map fst (sv_running (set_phase i p s)) = map fst (sv_running s)"
  by (auto simp: set_phase_def)

lemma inside_set_phase:
  "distinct (map fst (sv_running s)) \<Longrightarrow> inside_count (set_phase i p s) \<le> inside_count s + (if p = Inside then 1 else 0)"
  using inside_map_le [of "sv_running s" i p] by (simp add: inside_count_in set_phase_def)

lemma inside_cancel [simp]: "inside_count (request_cancel i s) = inside_count s"
proof -
  have "inside_in (map (\<lambda>(j, c). (j, if j = i then c\<lparr>co_cancelled := True\<rparr> else c)) xs) = inside_in xs" for xs
    by (induction xs) (auto simp: inside_in_def split: if_splits)
  then show ?thesis by (simp add: inside_count_in request_cancel_def)
qed

subsection \<open>The invariant\<close>

definition live_state :: "phase \<Rightarrow> task_state option \<Rightarrow> bool" where
  "live_state p st =
     (case p of Over \<Rightarrow> True | Queued \<Rightarrow> st = Some T_PENDING \<or> st = Some T_RUNNING | Inside \<Rightarrow> st = Some T_RUNNING)"

definition sup_ok :: "nat \<Rightarrow> supervisor \<Rightarrow> bool" where
  "sup_ok slots s =
     (distinct (map tk_id (db_tasks (sv_db s))) \<and> distinct (map fst (sv_running s)) \<and>
      inside_count s \<le> slots \<and> (\<forall>i. live_state (phase_of s i) (state_in s i)))"

text \<open>How a row may change in one step: a terminal row not at all, any other along the arrows.\<close>

fun legal :: "task_state \<Rightarrow> task_state \<Rightarrow> bool" where
  "legal T_PENDING s = (s \<in> {T_PENDING, T_RUNNING, T_STOPPED})"
| "legal T_RUNNING s = (s \<in> {T_RUNNING, T_BLOCKED, T_FINISHED, T_FAILED, T_STOPPED})"
| "legal T_BLOCKED s = (s \<in> {T_BLOCKED, T_PENDING, T_STOPPED})"
| "legal _ s = False"

definition row_step :: "task_record option \<Rightarrow> task_record option \<Rightarrow> bool" where
  "row_step a b =
     (case a of
        None \<Rightarrow> (case b of None \<Rightarrow> True | Some t' \<Rightarrow> tk_state t' = T_PENDING)
      | Some t \<Rightarrow> (case b of None \<Rightarrow> terminal (tk_state t) | Some t' \<Rightarrow> t' = t \<or> legal (tk_state t) (tk_state t')))"

lemma row_step_refl [simp]: "row_step a a"
  by (simp add: row_step_def split: option.splits)

definition rows_step :: "supervisor \<Rightarrow> supervisor \<Rightarrow> bool" where
  "rows_step s s' = (\<forall>i. row_step (task_get i (sv_db s)) (task_get i (sv_db s')))"

lemma state_frame [simp]:
  "state_in (set_phase i p s) j = state_in s j" "state_in (tell_bus now t body s) j = state_in s j"
  "state_in (launch i s) j = state_in s j" "state_in (request_cancel i s) j = state_in s j"
  by (simp_all add: state_in_def)

lemma inside_frame [simp]:
  "inside_count (s\<lparr>sv_db := db\<rparr>) = inside_count s" "inside_count (s\<lparr>sv_flags := fl\<rparr>) = inside_count s"
  "inside_count (tell_bus now t body s) = inside_count s"
  by (simp_all add: inside_count_in)

lemma sup_ok_frame [simp]:
  "sup_ok slots (tell_bus now t body s) = sup_ok slots s" "sup_ok slots (s\<lparr>sv_flags := fl\<rparr>) = sup_ok slots s"
  by (simp_all add: sup_ok_def state_in_def)

lemma ids_set_state [simp]: "map tk_id (db_tasks (set_state now i st x db)) = map tk_id (db_tasks db)"
  by (simp add: set_state_def)

lemma sup_ok_set_state:
  assumes "sup_ok slots s" and "live_state (phase_of s i) (Some st)"
  shows "sup_ok slots (s\<lparr>sv_db := set_state now i st x (sv_db s)\<rparr>)"
proof -
  have "live_state (phase_of s j) (state_in (s\<lparr>sv_db := set_state now i st x (sv_db s)\<rparr>) j)" for j
  proof (cases "j = i \<and> task_get i (sv_db s) \<noteq> None")
    case True
    then obtain t where "j = i" "task_get i (sv_db s) = Some t" by auto
    with assms(2) show ?thesis by (simp add: state_in_def get_set_state)
  next
    case False
    then have "state_in (s\<lparr>sv_db := set_state now i st x (sv_db s)\<rparr>) j = state_in s j"
      by (auto simp: state_in_def get_set_state)
    with assms(1) show ?thesis by (simp add: sup_ok_def)
  qed
  with assms(1) show ?thesis by (simp add: sup_ok_def)
qed

lemma sup_ok_launch:
  assumes "sup_ok slots s" and "state_in s i = Some T_PENDING \<or> state_in s i = Some T_RUNNING"
  shows "sup_ok slots (launch i s)"
proof -
  have "distinct (map fst (sv_running (launch i s)))"
    using assms(1) dict_ok_dict_set [of "sv_running s" i fresh_coroutine]
    by (simp add: sup_ok_def launch_def dict_ok_def)
  moreover have "live_state (phase_of (launch i s) j) (state_in s j)" for j
    using assms by (auto simp: phase_launch live_state_def sup_ok_def)
  ultimately show ?thesis using assms(1) by (simp add: sup_ok_def)
qed

lemma sup_ok_over: "sup_ok slots s \<Longrightarrow> sup_ok slots (set_phase i Over s)"
  using inside_set_phase [of s i Over]
  by (auto simp: sup_ok_def keys_set_phase phase_set_phase live_state_def)

lemma rows_set_state:
  assumes "\<And>t. task_get i (sv_db s) = Some t \<Longrightarrow> legal (tk_state t) st"
  shows "rows_step s (s\<lparr>sv_db := set_state now i st x (sv_db s)\<rparr>)"
  using assms by (auto simp: rows_step_def row_step_def get_set_state split: option.splits)

lemma rows_same_db: "sv_db s' = sv_db s \<Longrightarrow> rows_step s s'"
  by (simp add: rows_step_def)

lemma live_row: "sup_ok slots s \<Longrightarrow> live_state (phase_of s i) (map_option tk_state (task_get i (sv_db s)))"
  by (simp add: sup_ok_def state_in_def)

lemma settle_cases: "settle_run now i r db = db \<or>
    (\<exists>st x. settle_run now i r db = set_state now i st x db \<and> legal T_RUNNING st)"
  by (auto simp: settle_run_def apply_outcome_def mark_stopped_def task_finish_def split: sum.splits exn.splits)

lemma leave_db: "sv_db (leave now i r s) = settle_run now i r (sv_db s)"
  by (simp add: leave_def Let_def split: option.splits)

lemma leave_ok: "sup_ok slots (leave now i r s) =
    sup_ok slots (set_phase i Over (s\<lparr>sv_db := settle_run now i r (sv_db s)\<rparr>))"
proof -
  have "set_phase i Over (s\<lparr>sv_flags := fl, sv_db := db\<rparr>) = (set_phase i Over (s\<lparr>sv_db := db\<rparr>))\<lparr>sv_flags := fl\<rparr>" for fl db
    by (simp add: set_phase_def)
  then show ?thesis by (simp add: leave_def Let_def split: option.splits)
qed

lemma recover_launches:
  assumes "sup_ok slots s" and "\<forall>t \<in> set ts. state_in s (tk_id t) = Some T_RUNNING"
  shows "sup_ok slots (fold (\<lambda>t u. launch (tk_id t) (tell_bus now TASK_STARTED (f t) u)) ts s) \<and>
    sv_db (fold (\<lambda>t u. launch (tk_id t) (tell_bus now TASK_STARTED (f t) u)) ts s) = sv_db s"
  using assms
proof (induction ts arbitrary: s)
  case Nil
  then show ?case by simp
next
  case (Cons t ts)
  let ?s = "launch (tk_id t) (tell_bus now TASK_STARTED (f t) s)"
  have "sup_ok slots ?s" using Cons.prems by (intro sup_ok_launch) simp_all
  moreover have "\<forall>t \<in> set ts. state_in ?s (tk_id t) = Some T_RUNNING" using Cons.prems(2) by simp
  ultimately have "sup_ok slots (fold (\<lambda>t u. launch (tk_id t) (tell_bus now TASK_STARTED (f t) u)) ts ?s) \<and>
      sv_db (fold (\<lambda>t u. launch (tk_id t) (tell_bus now TASK_STARTED (f t) u)) ts ?s) = sv_db ?s"
    by (rule Cons.IH)
  then show ?case by simp
qed

lemma sup_ok_db:
  assumes "sup_ok slots s" and "map tk_id (db_tasks db) = map tk_id (db_tasks (sv_db s))"
    and "\<And>j. map_option tk_state (task_get j db) = state_in s j"
  shows "sup_ok slots (s\<lparr>sv_db := db\<rparr>)"
  using assms by (simp add: sup_ok_def state_in_def)

lemma submit_ok:
  assumes "sup_ok slots s" and "submit fresh now what criteria origin target deadline meta s = Inr (t, s')"
  shows "sup_ok slots s' \<and> rows_step s s'"
proof -
  let ?t = "new_task fresh now what criteria origin target deadline meta"
  have t: "tk_id ?t = fresh" "tk_state ?t = T_PENDING" by (simp_all add: new_task_def)
  obtain db where c: "task_create ?t (sv_db s) = Inr db"
    using assms(2) by (auto simp: submit_def Let_def split: sum.splits)
  then have s': "s' = launch fresh (tell_bus now TASK_CREATED
      (started_body fresh (tk_goal ?t) @ [(''origin'', EvVal (PStr origin))]) (s\<lparr>sv_db := db\<rparr>))"
    using assms(2) by (auto simp: submit_def Let_def)
  have none: "task_get fresh (sv_db s) = None" using get_create [OF c] t by simp
  have get: "\<exists>t'. tk_state t' = T_PENDING \<and> tk_id t' = fresh \<and> db_tasks db = db_tasks (sv_db s) @ [t'] \<and>
      task_get j db = (if j = fresh then Some t' else task_get j (sv_db s))" for j
    using get_create [OF c, of j] t by auto
  have over: "phase_of s fresh = Over"
    using live_row [OF assms(1), of fresh] none by (simp add: live_state_def split: phase.splits)
  have live: "live_state (phase_of s j) (state_in (s\<lparr>sv_db := db\<rparr>) j)" for j
  proof (cases "j = fresh")
    case True
    with over show ?thesis by (simp add: live_state_def)
  next
    case False
    with get [of j] live_row [OF assms(1), of j] show ?thesis by (auto simp: state_in_def)
  qed
  have "fresh \<notin> tk_id ` set (db_tasks (sv_db s))" using none by (simp add: task_get_def)
  then have "distinct (map tk_id (db_tasks db))" using assms(1) get [of fresh] by (auto simp: sup_ok_def)
  with assms(1) live have "sup_ok slots (s\<lparr>sv_db := db\<rparr>)" by (simp add: sup_ok_def)
  then have "sup_ok slots s'"
    unfolding s' using get [of fresh] by (intro sup_ok_launch) (auto simp: state_in_def)
  moreover have "rows_step s s'"
    unfolding rows_step_def s'
  proof
    fix j
    from get [of j] none show "row_step (task_get j (sv_db s)) (task_get j (sv_db (launch fresh (tell_bus now TASK_CREATED
      (started_body fresh (tk_goal ?t) @ [(''origin'', EvVal (PStr origin))]) (s\<lparr>sv_db := db\<rparr>)))))"
      by (auto simp: row_step_def split: option.splits if_splits)
  qed
  ultimately show ?thesis ..
qed

lemma resume_ok:
  assumes "sup_ok slots s" and "resume now i s = (r, s')"
  shows "sup_ok slots s' \<and> rows_step s s'"
proof (cases "\<exists>t. task_get i (sv_db s) = Some t \<and> (tk_state t = T_BLOCKED \<or> tk_state t = T_PENDING)")
  case False
  then have "s' = s" using assms(2) by (auto simp: resume_def task_require_def split: option.splits if_splits)
  with assms(1) show ?thesis by (simp add: rows_same_db)
next
  case True
  then obtain t where t: "task_get i (sv_db s) = Some t" "tk_state t = T_BLOCKED \<or> tk_state t = T_PENDING" by blast
  let ?s = "s\<lparr>sv_db := set_state now i T_PENDING (no_extra\<lparr>ex_error := Some []\<rparr>) (sv_db s)\<rparr>"
  have s': "s' = launch i ?s" using assms(2) t by (auto simp: resume_def task_require_def Let_def)
  have "live_state (phase_of s i) (Some T_PENDING)"
    using live_row [OF assms(1), of i] t by (auto simp: live_state_def split: phase.splits)
  with assms(1) have "sup_ok slots ?s" by (rule sup_ok_set_state)
  then have "sup_ok slots s'" unfolding s' by (rule sup_ok_launch) (simp add: state_in_def get_set_state t)
  moreover have "rows_step s ?s" using t by (intro rows_set_state) auto
  then have "rows_step s s'" by (simp add: rows_step_def s')
  ultimately show ?thesis ..
qed

lemma stop_ok:
  assumes "sup_ok slots s" and "stop now i s = (b, s')"
  shows "sup_ok slots s' \<and> rows_step s s'"
proof (cases "alive s i")
  case True
  then have s': "s' = request_cancel i s" using assms(2) by (simp add: stop_def)
  have "map fst (sv_running (request_cancel i s)) = map fst (sv_running s)" by (auto simp: request_cancel_def)
  with assms(1) show ?thesis by (simp add: sup_ok_def s' rows_same_db)
next
  case False
  show ?thesis
  proof (cases "\<exists>t. task_get i (sv_db s) = Some t \<and> active (tk_state t)")
    case True
    then obtain t where t: "task_get i (sv_db s) = Some t" "active (tk_state t)" by blast
    have s': "s' = s\<lparr>sv_db := mark_stopped now i stopped_by_user (sv_db s)\<rparr>"
      using assms(2) False t by (simp add: stop_def)
    have "live_state (phase_of s i) (Some T_STOPPED)" using False by (simp add: alive_def live_state_def)
    with assms(1) have "sup_ok slots s'" unfolding s' mark_stopped_def by (rule sup_ok_set_state)
    moreover have "rows_step s s'"
      using t unfolding s' mark_stopped_def by (intro rows_set_state) (auto simp: active_def)
    ultimately show ?thesis ..
  next
    case none: False
    then have "s' = s" using assms(2) False by (auto simp: stop_def split: option.splits if_splits)
    with assms(1) show ?thesis by (simp add: rows_same_db)
  qed
qed

lemma recover_ok:
  assumes "sup_ok slots s" and "recover now s = (ts, s')"
  shows "sup_ok slots s' \<and> rows_step s s' \<and> db_tasks (sv_db s') = db_tasks (sv_db s)"
proof -
  let ?db = "snd (recover_incomplete (sv_db s))"
  let ?f = "\<lambda>t. started_body (tk_id t) (tk_goal t) @ [(''resumed'', EvVal (PBool True))]"
  have ts: "ts = filter (\<lambda>t. tk_state t = T_RUNNING) (db_tasks (sv_db s))"
    and s': "s' = fold (\<lambda>t u. launch (tk_id t) (tell_bus now TASK_STARTED (?f t) u)) ts (s\<lparr>sv_db := ?db\<rparr>)"
    using assms(2) by (auto simp: recover_def recover_incomplete_def Let_def)
  have ok: "sup_ok slots (s\<lparr>sv_db := ?db\<rparr>)"
    using assms(1) by (rule sup_ok_db) (simp_all add: recovery_tasks state_in_def)
  have "distinct (map tk_id (db_tasks (sv_db s)))" using assms(1) by (simp add: sup_ok_def)
  then have run: "\<forall>t \<in> set ts. state_in (s\<lparr>sv_db := ?db\<rparr>) (tk_id t) = Some T_RUNNING"
    by (auto simp: ts state_in_def task_get_def recovery_tasks row_by_distinct)
  from recover_launches [OF ok run, of now ?f] show ?thesis
    unfolding s' by (auto simp: rows_step_def recovery_tasks)
qed

lemma enter_ok:
  assumes "sup_ok slots s" and "map_of (sv_running s) i = Some c" and "co_phase c = Queued" and "inside_count s < slots"
  shows "sup_ok slots (enter now i s) \<and> rows_step s (enter now i s)"
proof (cases "task_get i (sv_db s)")
  case None
  with assms(1) show ?thesis by (simp add: enter_def task_require_def sup_ok_over rows_same_db)
next
  case (Some t)
  let ?s = "s\<lparr>sv_db := set_state now i T_RUNNING no_extra (sv_db s)\<rparr>"
  have q: "phase_of s i = Queued" using assms(2,3) by (simp add: phase_of_def)
  then have st: "tk_state t = T_PENDING \<or> tk_state t = T_RUNNING"
    using live_row [OF assms(1), of i] Some by (simp add: live_state_def)
  have "sup_ok slots ?s" using assms(1) by (rule sup_ok_set_state) (simp add: q live_state_def)
  moreover have "inside_count (set_phase i Inside ?s) \<le> slots"
    using inside_set_phase [of ?s i Inside] assms(1,4) by (simp add: sup_ok_def)
  moreover have "state_in ?s i = Some T_RUNNING" using Some by (simp add: state_in_def get_set_state)
  ultimately have "sup_ok slots (set_phase i Inside ?s)"
    by (auto simp: sup_ok_def keys_set_phase phase_set_phase live_state_def)
  moreover have "rows_step s ?s" using st Some by (intro rows_set_state) auto
  ultimately show ?thesis using Some by (simp add: enter_def task_require_def rows_step_def)
qed

lemma leave_run_ok:
  assumes "sup_ok slots s" and "phase_of s i = Inside"
  shows "sup_ok slots (leave now i r s) \<and> rows_step s (leave now i r s)"
proof -
  obtain t where t: "task_get i (sv_db s) = Some t" "tk_state t = T_RUNNING"
    using live_row [OF assms(1), of i] assms(2) by (auto simp: live_state_def)
  let ?s = "s\<lparr>sv_db := settle_run now i r (sv_db s)\<rparr>"
  have "sup_ok slots (set_phase i Over ?s) \<and> rows_step s ?s"
  proof (cases "settle_run now i r (sv_db s) = sv_db s")
    case True
    with assms(1) show ?thesis by (simp add: sup_ok_over rows_same_db)
  next
    case False
    then obtain st x where set: "settle_run now i r (sv_db s) = set_state now i st x (sv_db s)" and st: "legal T_RUNNING st"
      using settle_cases [of now i r "sv_db s"] by blast
    let ?o = "set_phase i Over s"
    have "map_of (sv_running s) i \<noteq> None" using assms(2) by (auto simp: phase_of_def split: option.splits)
    then have over: "phase_of ?o i = Over" by (simp only: phase_set_phase) simp
    have "sup_ok slots (?o\<lparr>sv_db := set_state now i st x (sv_db ?o)\<rparr>)"
      by (rule sup_ok_set_state [OF sup_ok_over [OF assms(1)]]) (simp add: over live_state_def)
    moreover have "set_phase i Over (s\<lparr>sv_db := db\<rparr>) = ?o\<lparr>sv_db := db\<rparr>" for db by (simp add: set_phase_def)
    moreover have "rows_step s (s\<lparr>sv_db := set_state now i st x (sv_db s)\<rparr>)"
      using t st by (intro rows_set_state) auto
    ultimately show ?thesis by (simp add: set)
  qed
  then show ?thesis by (simp add: leave_ok rows_step_def leave_db)
qed

lemma save_ok:
  assumes "sup_ok slots s" and "phase_of s i = Inside"
  shows "sup_ok slots (s\<lparr>sv_db := save_plan now i p (sv_db s)\<rparr>) \<and> rows_step s (s\<lparr>sv_db := save_plan now i p (sv_db s)\<rparr>)"
proof -
  obtain t where t: "task_get i (sv_db s) = Some t" "tk_state t = T_RUNNING"
    using live_row [OF assms(1), of i] assms(2) by (auto simp: live_state_def)
  have "sup_ok slots (s\<lparr>sv_db := save_plan now i p (sv_db s)\<rparr>)"
    using assms(1) by (rule sup_ok_db) (auto simp: save_plan_def state_in_def task_get_def row_by_update_key option.map_comp comp_def)
  moreover have "rows_step s (s\<lparr>sv_db := save_plan now i p (sv_db s)\<rparr>)"
    using t by (auto simp: rows_step_def row_step_def get_save_plan split: option.splits)
  ultimately show ?thesis ..
qed

lemma prune_ok:
  assumes "sup_ok slots s" and "prune_finished now days (sv_db s) = (n, db)"
  shows "sup_ok slots (s\<lparr>sv_db := db\<rparr>) \<and> rows_step s (s\<lparr>sv_db := db\<rparr>)"
proof -
  have db: "db = (sv_db s)\<lparr>db_tasks := filter (\<lambda>t. \<not> stale now days t) (db_tasks (sv_db s))\<rparr>"
    using assms(2) by (simp add: prune_finished_def)
  have d: "distinct (map tk_id (db_tasks (sv_db s)))" using assms(1) by (simp add: sup_ok_def)
  have get: "task_get j db = (case task_get j (sv_db s) of None \<Rightarrow> None
      | Some t \<Rightarrow> if stale now days t then None else Some t)" for j
    using row_by_filter [OF d, of j "\<lambda>t. \<not> stale now days t"] by (auto simp: db task_get_def split: option.splits)
  have live: "live_state (phase_of s j) (state_in (s\<lparr>sv_db := db\<rparr>) j)" for j
    using live_row [OF assms(1), of j] get [of j]
    by (auto simp: live_state_def state_in_def stale_def terminal_def split: phase.splits option.splits)
  have "distinct (map tk_id (db_tasks db))" using d by (simp add: db distinct_map_filter)
  with assms(1) live have "sup_ok slots (s\<lparr>sv_db := db\<rparr>)" by (simp add: sup_ok_def)
  moreover have "rows_step s (s\<lparr>sv_db := db\<rparr>)"
    using get by (auto simp: rows_step_def row_step_def stale_def split: option.splits)
  ultimately show ?thesis ..
qed

lemma sup_next_ok: "sup_next slots s s' \<Longrightarrow> sup_ok slots s \<Longrightarrow> sup_ok slots s' \<and> rows_step s s'"
proof (induction rule: sup_next.induct)
  case (submits fresh now what criteria origin target deadline meta s t s')
  then show ?case by (blast intro: submit_ok [THEN conjunct1] submit_ok [THEN conjunct2])
next
  case (resumes now i s r s')
  then show ?case using resume_ok by blast
next
  case (stops now i s b s')
  then show ?case using stop_ok by blast
next
  case (recovers now s ts s')
  then show ?case using recover_ok by blast
next
  case (enters s i c now)
  then show ?case by (blast intro: enter_ok [THEN conjunct1] enter_ok [THEN conjunct2])
next
  case (drops s i c)
  then show ?case by (simp add: drop_queued_def sup_ok_over rows_same_db)
next
  case (leaves s i now r)
  then show ?case by (simp add: leave_run_ok)
next
  case (saves s i now p)
  then show ?case by (simp add: save_ok)
next
  case (starts s i now k n tool ps)
  then have "sup_ok slots (s\<lparr>sv_db := step_started now i k n tool ps (sv_db s)\<rparr>)"
    by (intro sup_ok_db) (simp_all add: step_started_def state_in_def task_get_def)
  then show ?case by (simp add: rows_step_def)
next
  case (finishes s i now k res)
  then have "sup_ok slots (s\<lparr>sv_db := step_finished now i k res (sv_db s)\<rparr>)"
    by (intro sup_ok_db) (simp_all add: step_finished_def state_in_def task_get_def)
  then show ?case by (simp add: rows_step_def)
next
  case (prunes now days s n db)
  then show ?case using prune_ok by blast
next
  case (restarts s b)
  then have "sup_ok slots (restarted b s)"
    by (simp add: sup_ok_def restarted_def inside_count_in inside_in_def phase_of_def live_state_def)
  then show ?case by (simp add: rows_same_db)
qed

lemma sup_reach_ok: "sup_reach slots s \<Longrightarrow> sup_ok slots s"
proof (induction rule: sup_reach.induct)
  case (begins b)
  then show ?case
    by (simp add: sup_ok_def first_supervisor_def inside_count_in inside_in_def phase_of_def live_state_def)
next
  case (goes s s')
  then show ?case using sup_next_ok by blast
qed

subsection \<open>The run of one task\<close>

definition final_state :: "exn + outcome \<Rightarrow> task_state" where
  "final_state r =
     (case r of
        Inr o' \<Rightarrow> (if oc_state o' = A_BLOCKED then T_BLOCKED else if oc_state o' = A_DONE then T_FINISHED else T_FAILED)
      | Inl x \<Rightarrow> if x = Cancellation \<or> isinstance x TaskAborted then T_STOPPED else T_RUNNING)"

text \<open>The states of all tasks.\<close>

definition states_of :: "task_store world \<Rightarrow> uid \<Rightarrow> task_state option" where
  "states_of w i = map_option tk_state (task_get i (wd_journal w))"

lemma states_journal [simp]:
  "states_of (on_rt f w) = states_of w" "states_of (w\<lparr>wd_asks := n\<rparr>) = states_of w"
  "states_of (w\<lparr>wd_rt := rt\<rparr>) = states_of w"
  by (simp_all add: states_of_def on_rt_def fun_eq_iff)

lemma states_store [simp]:
  "states_of (journal_save (L\<lparr>lp_journal := Some store_journal\<rparr>) task p w) = states_of w"
  "states_of (journal_started (L\<lparr>lp_journal := Some store_journal\<rparr>) task s i w) = states_of w"
  "states_of (journal_finished (L\<lparr>lp_journal := Some store_journal\<rparr>) task s res w) = states_of w"
  by (auto simp: journal_save_def journal_started_def journal_finished_def store_journal_def on_rt_def states_of_def
      get_save_plan fun_eq_iff option.map_comp comp_def)

interpretation run_states: loop_kept "L\<lparr>lp_journal := Some store_journal\<rparr>" task "\<lambda>k. False"
  "\<lambda>w w'. states_of w' = states_of w" for L task
proof unfold_locales
  show "states_of w' = states_of w"
    if "run_step (L\<lparr>lp_journal := Some store_journal\<rparr>) g task s i w = Some (r, w')" for s g i w r w'
    using that by (cases rule: run_stepE) simp_all
qed simp_all

lemma settle_state:
  assumes "states_of w i = Some T_RUNNING"
  shows "states_of (w\<lparr>wd_journal := settle_run now i r (wd_journal w)\<rparr>) i = Some (final_state r)"
proof -
  obtain t where "task_get i (wd_journal w) = Some t" "tk_state t = T_RUNNING"
    using assms by (auto simp: states_of_def)
  then show ?thesis
    by (auto simp: states_of_def settle_run_def apply_outcome_def mark_stopped_def task_finish_def get_set_state
        final_state_def outcome_ok_def split: sum.splits exn.splits)
qed

lemma honest_frame: "audit_of w' = audit_of w \<Longrightarrow> honest task c o' w' = honest task c o' w"
  by (simp add: honest_def backed_def)


definition waiting_task :: task_record where
  "waiting_task = new_task ''t1'' 0 ''x'' [] ''user'' ''local'' None []"


subsection \<open>Properties of the interleaving\<close>

text \<open>C8: however operations and coroutines interleave, no more coroutines are inside than there are
  slots, a queued coroutine's task is pending or running and one inside is running, and a task's
  row changes only along the state machine: created pending, pending to running or stopped,
  running to blocked, finished, failed or stopped, blocked to pending or stopped. A row that is
  finished, failed or stopped never changes again; it can only be pruned, and no other can.\<close>

theorem tasks_move_legally:
  assumes "sup_reach slots s" and "sup_next slots s s'"
  shows "inside_count s' \<le> slots \<and>
    (\<forall>i. live_state (phase_of s' i) (state_in s' i)) \<and>
    (\<forall>i. row_step (task_get i (sv_db s)) (task_get i (sv_db s')))"
  using sup_next_ok [OF assms(2) sup_reach_ok [OF assms(1)]] by (simp add: sup_ok_def rows_step_def)

definition quiet_bus :: bus where
  "quiet_bus = \<lparr>b_subs = [], b_history = [], b_history_max = 10, b_next = 0\<rparr>"

definition one_queued :: supervisor where
  "one_queued = snd (projr (submit ''t1'' 0 ''x'' [] ''user'' ''local'' None [] (first_supervisor quiet_bus)))"

lemma submit_first: "submit ''t1'' 0 ''x'' [] ''user'' ''local'' None [] (first_supervisor quiet_bus) = Inr (waiting_task, one_queued)"
  by (simp add: one_queued_def submit_def Let_def task_create_def first_supervisor_def new_task_def waiting_task_def)

lemma reach_queued: "sup_reach slots one_queued"
  by (rule sup_reach.goes [OF sup_reach.begins [of slots quiet_bus] sup_next.submits [OF submit_first]])

lemma one_queued_simps: "sv_running one_queued = [(''t1'', fresh_coroutine)]"
  "task_get ''t1'' (sv_db one_queued) = Some waiting_task" "tk_state waiting_task = T_PENDING"
  by (simp_all add: one_queued_def submit_def Let_def task_create_def first_supervisor_def new_task_def launch_def
      alive_def phase_of_def tell_bus_def task_get_def waiting_task_def stored_dict_def)

theorem tasks_move_legally_witness:
  "inside_count (enter 0 ''t1'' one_queued) \<le> 1 \<and> state_in (enter 0 ''t1'' one_queued) ''t1'' = Some T_RUNNING"
proof -
  have "sup_next 1 one_queued (enter 0 ''t1'' one_queued)"
    by (rule sup_next.enters [of _ _ fresh_coroutine])
       (simp_all add: one_queued_simps fresh_coroutine_def inside_count_in inside_in_def)
  from tasks_move_legally [OF reach_queued this] have "inside_count (enter 0 ''t1'' one_queued) \<le> 1" by simp
  then show ?thesis
    by (simp add: state_in_def enter_def task_require_def one_queued_simps get_set_state)
qed

lemma fold_launch_alive:
  "alive (fold (\<lambda>t u. launch (tk_id t) (tell_bus now TASK_STARTED (f t) u)) ts s) i \<longleftrightarrow>
   alive s i \<or> i \<in> tk_id ` set ts"
  by (induction ts arbitrary: s) (auto simp: alive_def phase_launch)

lemma restart_facts:
  assumes "sup_reach slots s" and "recover now (restarted b s) = (ts, s')"
  shows "(\<forall>i. alive s' i \<longleftrightarrow> state_in s i = Some T_RUNNING) \<and>
    (\<forall>i. task_get i (sv_db s') = task_get i (sv_db s)) \<and> sup_reach slots s'"
proof -
  let ?r = "restarted b s"
  have r: "sup_reach slots ?r" using assms(1) sup_next.restarts by (rule sup_reach.goes)
  have "distinct (map tk_id (db_tasks (sv_db s)))" using sup_reach_ok [OF assms(1)] by (simp add: sup_ok_def)
  then have ids: "i \<in> tk_id ` set (filter (\<lambda>t. tk_state t = T_RUNNING) (db_tasks (sv_db s))) \<longleftrightarrow>
      state_in s i = Some T_RUNNING" for i
    by (force simp: state_in_def task_get_def row_by_distinct dest: row_by_SomeD)
  have "alive s' i \<longleftrightarrow> i \<in> tk_id ` set (filter (\<lambda>t. tk_state t = T_RUNNING) (db_tasks (sv_db s)))" for i
    using assms(2) by (auto simp: recover_def recover_incomplete_def Let_def fold_launch_alive)
  moreover have "task_get i (sv_db s') = task_get i (sv_db s)" for i
    using recover_ok [OF sup_reach_ok [OF r] assms(2)] by (simp add: task_get_def)
  moreover have "sup_reach slots s'" using r sup_next.recovers [OF assms(2)] by (rule sup_reach.goes)
  ultimately show ?thesis using ids by simp
qed

lemmas restart_alive = restart_facts [THEN conjunct1, rule_format]

text \<open>C9: what a restart brings back. After the process died and came back, recovery starts exactly
  the tasks whose rows say running, whatever the coroutines of the old process were doing, and
  changes no task row: blocked tasks stay put, and so do the pending ones, which nothing starts.\<close>

theorem restart_brings_back_the_running:
  assumes "sup_reach slots s" and "recover now (restarted b s) = (ts, s')"
  shows "(\<forall>i. alive s' i \<longleftrightarrow> state_in s i = Some T_RUNNING) \<and>
    (\<forall>i. task_get i (sv_db s') = task_get i (sv_db s)) \<and> sup_reach slots s'"
  using assms by (rule restart_facts)

theorem restart_brings_back_the_running_witness:
  "\<not> alive (snd (recover 0 (restarted quiet_bus one_queued))) ''t1'' \<and>
   task_get ''t1'' (sv_db (snd (recover 0 (restarted quiet_bus one_queued)))) = Some waiting_task"
proof -
  obtain ts s' where "recover 0 (restarted quiet_bus one_queued) = (ts, s')" by fastforce
  with restart_brings_back_the_running [OF reach_queued this] show ?thesis
    by (simp add: state_in_def one_queued_simps)
qed

text \<open>Stopping a task that waits for a slot answers yes and does not stop it. The store is not
  touched; the cancellation is raised by the semaphore, outside the handler that would record it;
  and once delivered the task has no coroutine, still says pending, and neither it nor a restart
  with recovery starts it.\<close>

theorem stop_of_a_queued_task_is_lost:
  assumes "sup_reach slots s" and "phase_of s i = Queued" and "state_in s i = Some T_PENDING"
    and "stop now i s = (answer, s1)"
  shows "answer \<and> sv_db s1 = sv_db s \<and> sup_next slots s1 (drop_queued i s1) \<and>
    \<not> alive (drop_queued i s1) i \<and> state_in (drop_queued i s1) i = Some T_PENDING \<and>
    \<not> alive (snd (recover now' (restarted b (drop_queued i s1)))) i"
proof -
  have al: "alive s i" using assms(2) by (simp add: alive_def)
  then have s1: "s1 = request_cancel i s" and a: answer using assms(4) by (simp_all add: stop_def)
  obtain c where c: "map_of (sv_running s) i = Some c" "co_phase c = Queued"
    using assms(2) by (auto simp: phase_of_def split: option.splits)
  then have c1: "map_of (sv_running s1) i = Some (c\<lparr>co_cancelled := True\<rparr>)"
    by (simp add: s1 running_request_cancel)
  have nxt: "sup_next slots s1 (drop_queued i s1)" by (rule sup_next.drops [OF c1]) (simp_all add: c)
  have r1: "sup_reach slots s1" using assms(1) sup_next.stops [OF assms(4)] by (rule sup_reach.goes)
  have r2: "sup_reach slots (drop_queued i s1)" using r1 nxt by (rule sup_reach.goes)
  have over: "\<not> alive (drop_queued i s1) i" by (simp add: alive_def drop_queued_def phase_set_phase c1)
  have st: "state_in (drop_queued i s1) i = Some T_PENDING"
    using assms(3) by (simp add: drop_queued_def s1)
  obtain ts s' where rec: "recover now' (restarted b (drop_queued i s1)) = (ts, s')" by fastforce
  have "\<not> alive s' i" using restart_alive [OF r2 rec] st by simp
  then show ?thesis using a nxt over st rec by (simp add: s1)
qed

theorem stop_of_a_queued_task_is_lost_witness:
  "fst (stop 0 ''t1'' one_queued) \<and>
   state_in (drop_queued ''t1'' (snd (stop 0 ''t1'' one_queued))) ''t1'' = Some T_PENDING"
proof -
  obtain a s1 where s: "stop 0 ''t1'' one_queued = (a, s1)" by fastforce
  have "phase_of one_queued ''t1'' = Queued" by (simp add: phase_of_def one_queued_simps fresh_coroutine_def)
  moreover have "state_in one_queued ''t1'' = Some T_PENDING" by (simp add: state_in_def one_queued_simps)
  ultimately show ?thesis using stop_of_a_queued_task_is_lost [OF reach_queued [of 1] _ _ s] s by simp
qed

end
