(* ===== verification/Health.thy ===== *)
theory Health
  imports Reflexes Events
begin

section \<open>Provider health (models/health.py)\<close>

text \<open>
  What the state of a model provider is and why: the classification of HTTP answers and of
  exceptions, and the monitor that caches one measured state per provider. The clock is an
  argument of each operation, the HTTP client an argument of the check that uses it: a check is
  split at its await, because other operations run between the question and the answer. HTTP
  header values are Latin-1 text, as \<open>http.client\<close> hands them out. A floating point number of
  seconds is a rational. The bus is shared with others: operations take it and return it, and
  the monitor only knows whether it has one.
\<close>

subsection \<open>States\<close>

datatype provider_status = ONLINE | OFFLINE | INVALID_CONFIG | INVALID_KEY | TIMED_OUT | RATE_LIMIT | UNKNOWN

fun status_value :: "provider_status \<Rightarrow> string" where
  "status_value ONLINE = ''online''"
| "status_value OFFLINE = ''offline''"
| "status_value INVALID_CONFIG = ''invalid_config''"
| "status_value INVALID_KEY = ''invalid_key''"
| "status_value TIMED_OUT = ''timeout''"
| "status_value RATE_LIMIT = ''rate_limit''"
| "status_value UNKNOWN = ''unknown''"

fun status_reason :: "provider_status \<Rightarrow> string" where
  "status_reason ONLINE = ''Gotowy.''"
| "status_reason OFFLINE = ''Dostawca nie odpowiada.''"
| "status_reason INVALID_CONFIG = ''Brak klucza.''"
| "status_reason INVALID_KEY = ''Klucz odrzucony przez dostawc'' @ pl_e @ ''.''"
| "status_reason TIMED_OUT = ''Dostawca nie odpowiedzia'' @ pl_l @ '' na czas.''"
| "status_reason RATE_LIMIT = ''Limit u dostawcy wyczerpany.''"
| "status_reason UNKNOWN = ''Jeszcze nie sprawdza'' @ pl_l @ ''em.''"

definition DEFAULT_TTL :: rat where "DEFAULT_TTL = 3600"
definition DEFAULT_COOLDOWN :: rat where "DEFAULT_COOLDOWN = 60"

record provider_health =
  ph_provider :: string
  ph_status :: provider_status
  ph_reason :: string
  ph_detail :: string
  ph_checked_at :: instant
  ph_latency_ms :: rat
  ph_retry_after :: instant
  ph_failures :: int

definition provider_health_new :: "string \<Rightarrow> provider_status \<Rightarrow> provider_health" where
  "provider_health_new name s =
     \<lparr>ph_provider = name, ph_status = s, ph_reason = [], ph_detail = [], ph_checked_at = 0,
      ph_latency_ms = 0, ph_retry_after = 0, ph_failures = 0\<rparr>"

definition usable_at :: "provider_health \<Rightarrow> instant \<Rightarrow> bool" where
  "usable_at h now =
     (case ph_status h of
        ONLINE \<Rightarrow> True
      | UNKNOWN \<Rightarrow> True
      | RATE_LIMIT \<Rightarrow> ph_retry_after h \<noteq> 0 \<and> ph_retry_after h \<le> now
      | _ \<Rightarrow> False)"

definition health_sentence :: "provider_health \<Rightarrow> string" where
  "health_sentence h = (if ph_reason h \<noteq> [] then ph_reason h else status_reason (ph_status h))"

text \<open>\<open>to_dict\<close>; \<open>float_val\<close> makes the Python float of a number, \<open>round1\<close> rounds to one decimal.\<close>

definition health_to_dict :: "(rat \<Rightarrow> pyval) \<Rightarrow> (rat \<Rightarrow> rat) \<Rightarrow> instant \<Rightarrow> provider_health \<Rightarrow> pydict" where
  "health_to_dict float_val round1 now h =
     [(''provider'', PStr (ph_provider h)), (''status'', PStr (status_value (ph_status h))),
      (''reason'', PStr (health_sentence h)), (''detail'', PStr (ph_detail h)),
      (''checked_at'', float_val (ph_checked_at h)), (''latency_ms'', float_val (round1 (ph_latency_ms h))),
      (''retry_after'', float_val (ph_retry_after h)), (''failures'', PInt (ph_failures h)),
      (''usable'', PBool (usable_at h now))]"

subsection \<open>Classification\<close>

type_synonym reading = "provider_status \<times> string \<times> instant"

text \<open>
  \<open>str.isdigit\<close> on Latin-1 text accepts the superscript digits, which \<open>float\<close> then refuses; the
  UTF-8 bytes of a superscript digit are 0xC2 and 0xB2, 0xB3 or 0xB9.
\<close>

definition ascii_digit :: "char \<Rightarrow> bool" where
  "ascii_digit c = (48 \<le> byte_of c \<and> byte_of c \<le> 57)"

fun all_digits :: "string \<Rightarrow> bool" where
  "all_digits [] = True"
| "all_digits (c # cs) =
     (if ascii_digit c then all_digits cs
      else case cs of
          [] \<Rightarrow> False
        | d # ds \<Rightarrow> byte_of c = 194 \<and> byte_of d \<in> {178, 179, 185} \<and> all_digits ds)"

definition isdigit :: "string \<Rightarrow> bool" where
  "isdigit s = (s \<noteq> [] \<and> all_digits s)"

definition digits_value :: "string \<Rightarrow> nat" where
  "digits_value s = foldl (\<lambda>n c. 10 * n + (byte_of c - 48)) 0 s"

definition retry_after :: "string \<Rightarrow> exn + rat" where
  "retry_after raw =
     (let v = strip raw
      in if isdigit v then
           (if list_all ascii_digit v then Inr (of_nat (digits_value v))
            else Inl (PyExn ''ValueError'' (''could not convert string to float: '' @ repr_str v)))
         else Inr 0)"

definition header_get :: "(string \<times> string) list \<Rightarrow> string \<Rightarrow> string" where
  "header_get headers k = (case map_of headers k of None \<Rightarrow> [] | Some v \<Rightarrow> v)"

definition plain_reading :: "provider_status \<Rightarrow> reading" where
  "plain_reading s = (s, status_reason s, 0)"

definition classify_response :: "int \<Rightarrow> string \<Rightarrow> (string \<times> string) list \<Rightarrow> instant \<Rightarrow> exn + reading" where
  "classify_response status body headers now =
     (let lowered = lower body in
      if 200 \<le> status \<and> status < 300 then Inr (plain_reading ONLINE)
      else if status \<in> {401, 403} then Inr (plain_reading INVALID_KEY)
      else if status = 429 then
        (case retry_after (header_get headers ''retry-after'') of
           Inl e \<Rightarrow> Inl e
         | Inr wait \<Rightarrow> Inr (RATE_LIMIT, status_reason RATE_LIMIT,
             if wait \<noteq> 0 then now + wait else now + DEFAULT_COOLDOWN))
      else if status = 402 \<or> contains lowered ''insufficient'' \<or> contains lowered ''billing'' then
        Inr (RATE_LIMIT, ''Brak '' @ pl_s @ ''rodk'' @ pl_o @ ''w na koncie u dostawcy.'', 0)
      else if status = 400 then
        (if contains lowered ''api key'' \<or> contains lowered ''api_key'' then Inr (plain_reading INVALID_KEY)
         else Inr (INVALID_CONFIG, ''Dostawca odrzuci'' @ pl_l @ '' zapytanie.'', 0))
      else if status = 404 then Inr (INVALID_CONFIG, ''Z'' @ pl_l @ ''y adres dostawcy.'', 0)
      else if status = 408 then Inr (plain_reading TIMED_OUT)
      else Inr (plain_reading OFFLINE))"

text \<open>\<open>getattr(exc, "status", 0)\<close>: only execution errors carry a status.\<close>

fun exn_status :: "exn \<Rightarrow> int" where
  "exn_status (Garis e) = (if is_subclass (ge_class e) ExecutionError then ge_status e else 0)"
| "exn_status _ = 0"

fun is_timeout :: "exn \<Rightarrow> bool" where
  "is_timeout (Garis e) = is_subclass (ge_class e) NetworkTimeout"
| "is_timeout (PyExn t m) = (t = ''TimeoutError'')"
| "is_timeout Cancellation = False"

definition classify_exception :: "exn \<Rightarrow> instant \<Rightarrow> reading" where
  "classify_exception e now =
     (if is_timeout e then plain_reading TIMED_OUT
      else if isinstance e NetworkUnreachable then plain_reading OFFLINE
      else if exn_status e \<noteq> 0 then
        (case classify_response (exn_status e) (exn_text e) [] now of
           Inr r \<Rightarrow> r | Inl _ \<Rightarrow> plain_reading OFFLINE)
      else plain_reading OFFLINE)"

text \<open>Without a header there is nothing to misread, so the last case above never happens.\<close>

lemma retry_after_empty [simp]: "retry_after [] = Inr 0"
  by (simp add: retry_after_def strip_def strip_by_def isdigit_def)

lemma classify_response_no_headers: "\<exists>r. classify_response status body [] now = Inr r"
  by (auto simp: classify_response_def plain_reading_def header_get_def Let_def)

subsection \<open>The monitor\<close>

record monitor =
  hm_states :: "(string \<times> provider_health) list"
  hm_ttl :: rat
  hm_bus :: bool

definition health_status :: "monitor \<Rightarrow> string \<Rightarrow> provider_health" where
  "health_status m name =
     (case map_of (hm_states m) name of None \<Rightarrow> provider_health_new name UNKNOWN | Some h \<Rightarrow> h)"

definition hm_usable :: "monitor \<Rightarrow> instant \<Rightarrow> string \<Rightarrow> bool" where
  "hm_usable m now name = usable_at (health_status m name) now"

definition hm_stale :: "monitor \<Rightarrow> instant \<Rightarrow> string \<Rightarrow> bool" where
  "hm_stale m now name =
     (let h = health_status m name
      in ph_status h = UNKNOWN \<or> hm_ttl m \<le> now - ph_checked_at h)"

definition hm_forget :: "string option \<Rightarrow> monitor \<Rightarrow> monitor" where
  "hm_forget name m =
     (case name of None \<Rightarrow> m\<lparr>hm_states := []\<rparr> | Some n \<Rightarrow> m\<lparr>hm_states := dict_del n (hm_states m)\<rparr>)"

definition hm_record :: "instant \<Rightarrow> provider_health \<Rightarrow> monitor \<times> bus \<Rightarrow> monitor \<times> bus" where
  "hm_record now h mb =
     (let (m, b) = mb;
          previous = map_of (hm_states m) (ph_provider h)
      in (m\<lparr>hm_states := dict_set (ph_provider h) h (hm_states m)\<rparr>,
          if hm_bus m \<and> (case previous of None \<Rightarrow> True | Some p \<Rightarrow> ph_status p \<noteq> ph_status h) then
            emit now (topic_name PROVIDER_HEALTH)
              [(''provider'', EvVal (PStr (ph_provider h))),
               (''status'', EvVal (PStr (status_value (ph_status h)))),
               (''reason'', EvVal (PStr (health_sentence h))),
               (''was'', EvVal (PStr (status_value (case previous of None \<Rightarrow> UNKNOWN | Some p \<Rightarrow> ph_status p))))] b
          else b))"

definition failed_health :: "monitor \<Rightarrow> string \<Rightarrow> exn \<Rightarrow> instant \<Rightarrow> rat \<Rightarrow> provider_health" where
  "failed_health m name e now latency =
     (let (s, reason, again) = classify_exception e now
      in \<lparr>ph_provider = name, ph_status = s, ph_reason = reason, ph_detail = cp_take 300 (exn_text e),
          ph_checked_at = now, ph_latency_ms = latency, ph_retry_after = again,
          ph_failures = ph_failures (health_status m name) + 1\<rparr>)"

definition note_failure :: "instant \<Rightarrow> string \<Rightarrow> exn \<Rightarrow> monitor \<times> bus \<Rightarrow> monitor \<times> bus" where
  "note_failure now name e mb = hm_record now (failed_health (fst mb) name e now 0) mb"

subsection \<open>A check, split at its await\<close>

text \<open>
  A provider as the monitor sees it: whether it can be probed, the request it contributes, and
  its answer to \<open>available\<close> when it has such a method.
\<close>

record probed =
  pb_name :: string
  pb_request :: "(string \<times> (string \<times> string) list) option"
  pb_available :: bool

record http_response =
  hr_status :: int
  hr_text :: string
  hr_headers :: "(string \<times> string) list"

datatype check_begun = Answered provider_health | Asking string "(string \<times> string) list" instant

definition without_probe :: "instant \<Rightarrow> probed \<Rightarrow> monitor \<Rightarrow> provider_health" where
  "without_probe now p m =
     (if pb_available p then
        (provider_health_new (pb_name p) ONLINE)
          \<lparr>ph_reason := ''Gotowy, nie wymaga sprawdzenia.'', ph_checked_at := now\<rparr>
      else
        (provider_health_new (pb_name p) INVALID_CONFIG)
          \<lparr>ph_reason := status_reason INVALID_CONFIG, ph_checked_at := now,
           ph_failures := ph_failures (health_status m (pb_name p)) + 1\<rparr>)"

definition check_begin :: "bool \<Rightarrow> instant \<Rightarrow> probed \<Rightarrow> monitor \<times> bus \<Rightarrow> check_begun \<times> monitor \<times> bus" where
  "check_begin force now p mb =
     (if \<not> force \<and> \<not> hm_stale (fst mb) now (pb_name p) then (Answered (health_status (fst mb) (pb_name p)), mb)
      else case pb_request p of
          None \<Rightarrow> (let h = without_probe now p (fst mb) in (Answered h, hm_record now h mb))
        | Some (url, headers) \<Rightarrow> (Asking url headers now, mb))"

definition check_end ::
  "string \<Rightarrow> instant \<Rightarrow> instant \<Rightarrow> exn + http_response \<Rightarrow> monitor \<times> bus \<Rightarrow> (exn + provider_health) \<times> monitor \<times> bus" where
  "check_end name started now answer mb =
     (let m = fst mb; latency = (now - started) * 1000
      in case answer of
          Inl Cancellation \<Rightarrow> (Inl Cancellation, mb)
        | Inl e \<Rightarrow> (let h = failed_health m name e now latency in (Inr h, hm_record now h mb))
        | Inr r \<Rightarrow>
            (case classify_response (hr_status r) (cp_take 2000 (hr_text r)) (hr_headers r) now of
               Inl e \<Rightarrow> (Inl e, mb)
             | Inr (s, reason, again) \<Rightarrow>
                 (let healthy = (s = ONLINE);
                      h = \<lparr>ph_provider = name, ph_status = s, ph_reason = reason,
                           ph_detail = (if healthy then []
                             else ''HTTP '' @ int_str (hr_status r) @ '': '' @ cp_take 200 (hr_text r)),
                           ph_checked_at = now, ph_latency_ms = latency, ph_retry_after = again,
                           ph_failures = (if healthy then 0 else ph_failures (health_status m name) + 1)\<rparr>
                  in (Inr h, hm_record now h mb))))"

definition unconfigured :: "string \<Rightarrow> string \<Rightarrow> instant \<Rightarrow> instant \<Rightarrow> provider_health" where
  "unconfigured name reason now clock =
     (provider_health_new name INVALID_CONFIG)
       \<lparr>ph_reason := (if reason \<noteq> [] then reason else status_reason INVALID_CONFIG),
        ph_checked_at := (if now \<noteq> 0 then now else clock)\<rparr>"

subsection \<open>Checking several at once\<close>

text \<open>
  \<open>asyncio.gather\<close> starts the checks in order, each running to its await; \<open>later\<close> lists
  the answers in the order they come in: which check, at what time, with what. The result is
  there when every check has ended.
\<close>

fun begin_all :: "bool \<Rightarrow> instant \<Rightarrow> probed list \<Rightarrow> monitor \<times> bus \<Rightarrow> check_begun list \<times> monitor \<times> bus" where
  "begin_all force now [] mb = ([], mb)"
| "begin_all force now (p # ps) mb =
     (let (c, mb1) = check_begin force now p mb; (cs, mb2) = begin_all force now ps mb1 in (c # cs, mb2))"

definition begun_result :: "check_begun \<Rightarrow> (exn + provider_health) option" where
  "begun_result c = (case c of Answered h \<Rightarrow> Some (Inr h) | Asking _ _ _ \<Rightarrow> None)"

fun end_all ::
  "string list \<Rightarrow> check_begun list \<Rightarrow> (nat \<times> instant \<times> (exn + http_response)) list \<Rightarrow>
   (exn + provider_health) option list \<Rightarrow> monitor \<times> bus \<Rightarrow> (exn + provider_health) option list \<times> monitor \<times> bus" where
  "end_all names begun [] results mb = (results, mb)"
| "end_all names begun ((i, now, answer) # later) results mb =
     (case (if i < length begun \<and> results ! i = None then Some (begun ! i) else None) of
        Some (Asking url headers started) \<Rightarrow>
          (let (r, mb1) = check_end (names ! i) started now answer mb
           in end_all names begun later (results[i := Some r]) mb1)
      | _ \<Rightarrow> end_all names begun later results mb)"

definition collect_results :: "monitor \<Rightarrow> (string \<times> (exn + provider_health)) list \<Rightarrow> (string \<times> provider_health) list" where
  "collect_results m rs =
     fold (\<lambda>(n, r) d. dict_set n (case r of Inr h \<Rightarrow> h | Inl _ \<Rightarrow> health_status m n) d) rs []"

definition check_all ::
  "bool \<Rightarrow> instant \<Rightarrow> probed list \<Rightarrow> (nat \<times> instant \<times> (exn + http_response)) list \<Rightarrow> monitor \<times> bus \<Rightarrow>
   (string \<times> provider_health) list option \<times> monitor \<times> bus" where
  "check_all force now ps later mb =
     (let (begun, mb1) = begin_all force now ps mb;
          (results, mb2) = end_all (map pb_name ps) begun later (map begun_result begun) mb1
      in (if list_all (\<lambda>r. r \<noteq> None) results
          then Some (collect_results (fst mb2) (zip (map pb_name ps) (map the results)))
          else None, mb2))"

subsection \<open>What the table holds\<close>

definition monitor_ok :: "monitor \<Rightarrow> bool" where
  "monitor_ok m = (dict_ok (hm_states m) \<and> (\<forall>(n, h) \<in> set (hm_states m). ph_provider h = n \<and> 0 \<le> ph_failures h))"

lemma dict_set_all: "\<forall>(n, h) \<in> set d. P n h \<Longrightarrow> P k v \<Longrightarrow> \<forall>(n, h) \<in> set (dict_set k v d). P n h"
  by (induction k v d rule: dict_set.induct) auto

lemma health_status_frame:
  assumes "monitor_ok m"
  shows "ph_provider (health_status m n) = n \<and> 0 \<le> ph_failures (health_status m n)"
proof (cases "map_of (hm_states m) n")
  case None
  then show ?thesis by (simp add: health_status_def provider_health_new_def)
next
  case (Some h)
  with assms map_of_SomeD [OF Some] show ?thesis by (auto simp: health_status_def monitor_ok_def)
qed

lemma health_status_record [simp]:
  "health_status (fst (hm_record now h mb)) n = (if n = ph_provider h then h else health_status (fst mb) n)"
  by (simp add: hm_record_def health_status_def Let_def case_prod_beta)

lemma monitor_ok_record: "monitor_ok (fst mb) \<Longrightarrow> 0 \<le> ph_failures h \<Longrightarrow> monitor_ok (fst (hm_record now h mb))"
  using dict_set_all [of "hm_states (fst mb)" "\<lambda>n h. ph_provider h = n \<and> 0 \<le> ph_failures h" "ph_provider h" h]
  by (simp add: monitor_ok_def hm_record_def Let_def case_prod_beta)

lemma failed_health_frame: "monitor_ok m \<Longrightarrow> 0 \<le> ph_failures (failed_health m n e now l)"
  using health_status_frame [of m n] by (simp add: failed_health_def case_prod_beta)

lemma monitor_ok_note: "monitor_ok (fst mb) \<Longrightarrow> monitor_ok (fst (note_failure now n e mb))"
  unfolding note_failure_def by (rule monitor_ok_record [OF _ failed_health_frame])

lemma monitor_ok_begin: "monitor_ok (fst mb) \<Longrightarrow> monitor_ok (fst (snd (check_begin force now p mb)))"
  using health_status_frame [of "fst mb" "pb_name p"]
  by (auto simp: check_begin_def without_probe_def provider_health_new_def Let_def
      split: option.splits intro!: monitor_ok_record)

lemma monitor_ok_end: "monitor_ok (fst mb) \<Longrightarrow> monitor_ok (fst (snd (check_end n started now answer mb)))"
  using health_status_frame [of "fst mb" n]
  by (auto simp: check_end_def Let_def split: sum.splits exn.splits
      intro!: monitor_ok_record failed_health_frame)

lemma monitor_ok_forget: "monitor_ok m \<Longrightarrow> monitor_ok (hm_forget n m)"
  by (auto simp: monitor_ok_def hm_forget_def dict_del_def dict_ok_def distinct_map_filter split: option.splits)

lemma monitor_ok_begin_all: "monitor_ok (fst mb) \<Longrightarrow> monitor_ok (fst (snd (begin_all force now ps mb)))"
  by (induction ps arbitrary: mb) (simp_all add: case_prod_beta monitor_ok_begin)

lemma monitor_ok_end_all: "monitor_ok (fst mb) \<Longrightarrow> monitor_ok (fst (snd (end_all ns begun later rs mb)))"
  by (induction ns begun later rs mb rule: end_all.induct)
    (auto simp: case_prod_beta monitor_ok_end split: option.splits check_begun.splits if_splits)

lemma monitor_ok_check_all: "monitor_ok (fst mb) \<Longrightarrow> monitor_ok (fst (snd (check_all force now ps later mb)))"
  by (simp add: check_all_def case_prod_beta monitor_ok_begin_all monitor_ok_end_all)

subsection \<open>When a failed provider is usable again\<close>

text \<open>Only a rate limit that states its window, and an answer that was no failure, leave a door open.\<close>

definition usable_again :: "exn \<Rightarrow> instant \<Rightarrow> instant \<Rightarrow> bool" where
  "usable_again e failed_at t =
     (\<not> is_timeout e \<and> \<not> isinstance e NetworkUnreachable \<and>
      (200 \<le> exn_status e \<and> exn_status e < 300 \<or>
       exn_status e = 429 \<and> failed_at + DEFAULT_COOLDOWN \<noteq> 0 \<and> failed_at + DEFAULT_COOLDOWN \<le> t))"

lemma usable_after_failure:
  "hm_usable (fst (note_failure now name e mb)) t n =
     (if n = name then usable_again e now t else hm_usable (fst mb) t n)"
  by (auto simp: hm_usable_def note_failure_def failed_health_def usable_at_def usable_again_def
      classify_exception_def classify_response_def plain_reading_def header_get_def Let_def)

end
