(* ===== verification/Router.thy ===== *)
theory Router
  imports Planner Health "HOL-Library.Product_Lexorder"
begin

section \<open>Choosing and calling a model (models/base.py, models/router.py)\<close>

text \<open>
  Callers state a need; the router scores every model of every usable provider, filters by
  privacy, budget and capability, and calls down the ranking until one answers. A provider is
  its declared models and a function that answers the n-th call with an exception or a
  completion. Scores, prices and the money spent are rationals. The clock stands still within
  one synchronous step: \<open>candidates\<close> reads it once, and \<open>clock n\<close> is its reading when
  the n-th call has failed.
\<close>

subsection \<open>Needs, models, completions\<close>

datatype capability =
    CAN_TOOLS | CAN_VISION | CAN_JSON_MODE | CAN_STREAMING | CAN_LONG_CONTEXT | CAN_REALTIME_VOICE | CAN_LOCAL

fun job_value :: "job \<Rightarrow> string" where
  "job_value JOB_PLAN = ''plan''"
| "job_value JOB_REASON = ''reason''"
| "job_value JOB_CODE = ''code''"
| "job_value JOB_CHAT = ''chat''"
| "job_value JOB_CLASSIFY = ''classify''"
| "job_value JOB_SUMMARIZE = ''summarize''"
| "job_value JOB_EXTRACT = ''extract''"
| "job_value JOB_VISION = ''vision''"
| "job_value JOB_VOICE = ''voice''"

fun privacy_value :: "privacy \<Rightarrow> string" where
  "privacy_value PRIV_ANY = ''any''"
| "privacy_value PREFER_LOCAL = ''prefer_local''"
| "privacy_value LOCAL_ONLY = ''local_only''"

record tool_call =
  tc_id :: string
  tc_name :: string
  tc_arguments :: pydict

record usage =
  us_input :: int
  us_output :: int
  us_cost :: rat

definition no_usage :: usage where
  "no_usage = \<lparr>us_input = 0, us_output = 0, us_cost = 0\<rparr>"

definition add_usage :: "usage \<Rightarrow> usage \<Rightarrow> usage" where
  "add_usage u v = \<lparr>us_input = us_input u + us_input v, us_output = us_output u + us_output v, us_cost = us_cost u + us_cost v\<rparr>"

record completion =
  cm_text :: string
  cm_model :: string
  cm_provider :: string
  cm_tool_calls :: "tool_call list"
  cm_usage :: usage
  cm_finish :: string
  cm_stub :: bool

record model_spec =
  md_name :: string
  md_provider :: string
  md_jobs :: "job set"
  md_capabilities :: "capability set"
  md_quality :: rat
  md_speed :: rat
  md_input_cost :: rat
  md_output_cost :: rat
  md_context :: int
  md_local :: bool
  md_stub :: bool

definition supports :: "model_spec \<Rightarrow> job \<Rightarrow> bool" where
  "supports m j = (j \<in> md_jobs m)"

definition price_for :: "model_spec \<Rightarrow> int \<Rightarrow> int \<Rightarrow> rat" where
  "price_for m input output = (of_int input * md_input_cost m + of_int output * md_output_cost m) / 1000000"

record need =
  nd_job :: job
  nd_privacy :: privacy
  nd_requires :: "capability set"
  nd_max_cost :: "rat option"
  nd_prefer_speed :: bool
  nd_min_context :: int

record model_call =
  mk_messages :: "(chat_role \<times> string) list"
  mk_tools :: "pydict list"
  mk_temperature :: rat
  mk_max_tokens :: nat
  mk_json_mode :: bool
  mk_timeout :: rat

record provider =
  pv_name :: string
  pv_models :: "model_spec list"
  pv_available :: bool
  pv_complete :: "nat \<Rightarrow> model_spec \<Rightarrow> model_call \<Rightarrow> exn + completion"

subsection \<open>Profiles\<close>

record weights =
  wt_quality :: rat
  wt_speed :: rat
  wt_cost :: rat
  wt_local :: rat

definition mk_weights :: "rat \<Rightarrow> rat \<Rightarrow> rat \<Rightarrow> rat \<Rightarrow> weights" where
  "mk_weights q s c l = \<lparr>wt_quality = q, wt_speed = s, wt_cost = c, wt_local = l\<rparr>"

definition PROFILES :: "(string \<times> weights) list" where
  "PROFILES =
     [(''local_only'', mk_weights (5/10) (3/10) 0 1),
      (''prefer_local'', mk_weights (55/100) (25/100) (2/10) (35/100)),
      (''balanced'', mk_weights (6/10) (2/10) (2/10) (1/10)),
      (''quality_first'', mk_weights (85/100) (1/10) (5/100) 0)]"

definition QUALITY_CRITICAL :: "job set" where
  "QUALITY_CRITICAL = {JOB_PLAN, JOB_REASON, JOB_CODE}"

definition COST_CEILING :: rat where "COST_CEILING = 40"

record models_config =
  mc_privacy :: string
  mc_allow_cloud :: bool
  mc_monthly_budget :: rat

record choice =
  ch_provider :: provider
  ch_model :: model_spec
  ch_score :: rat
  ch_reasons :: "(string \<times> rat) list"

definition choice_text :: "choice \<Rightarrow> string" where
  "choice_text c =
     md_provider (ch_model c) @ ''/'' @ md_name (ch_model c) @ '' ('' @ fixed_text 2 (ch_score c) @ '')''"

record router =
  mr_providers :: "provider list"
  mr_config :: models_config
  mr_bus :: bool
  mr_health :: "monitor option"
  mr_usage :: usage
  mr_spend :: rat
  mr_calls :: nat

definition new_router :: "provider list \<Rightarrow> models_config \<Rightarrow> bool \<Rightarrow> monitor option \<Rightarrow> router" where
  "new_router ps cfg b h =
     \<lparr>mr_providers = ps, mr_config = cfg, mr_bus = b, mr_health = h, mr_usage = no_usage, mr_spend = 0, mr_calls = 0\<rparr>"

definition replace_providers :: "provider list \<Rightarrow> router \<Rightarrow> router" where
  "replace_providers ps R = R\<lparr>mr_providers := ps\<rparr>"

definition add_provider :: "provider \<Rightarrow> router \<Rightarrow> router" where
  "add_provider p R = R\<lparr>mr_providers := mr_providers R @ [p]\<rparr>"

definition provider_usable :: "instant \<Rightarrow> router \<Rightarrow> provider \<Rightarrow> bool" where
  "provider_usable now R p =
     (pv_available p \<and> (case mr_health R of None \<Rightarrow> True | Some m \<Rightarrow> hm_usable m now (pv_name p)))"

definition state_of_provider :: "router \<Rightarrow> provider \<Rightarrow> provider_health" where
  "state_of_provider R p =
     (case mr_health R of
        Some m \<Rightarrow> health_status m (pv_name p)
      | None \<Rightarrow> provider_health_new (pv_name p) (if pv_available p then ONLINE else INVALID_CONFIG))"

subsection \<open>Ranking\<close>

definition profile_of :: "models_config \<Rightarrow> need \<Rightarrow> weights" where
  "profile_of cfg n =
     (let privacy = (case nd_privacy n of
            LOCAL_ONLY \<Rightarrow> ''local_only'' | PREFER_LOCAL \<Rightarrow> ''prefer_local'' | PRIV_ANY \<Rightarrow> mc_privacy cfg);
          w = (case map_of PROFILES privacy of Some w \<Rightarrow> w | None \<Rightarrow> the (map_of PROFILES ''balanced''))
      in if nd_job n \<in> QUALITY_CRITICAL \<and> privacy \<notin> {''local_only'', ''prefer_local''} then
           mk_weights (8/10) (1/10) (wt_cost w) 0
         else if nd_prefer_speed n then mk_weights (wt_quality w * (6/10)) (5/10) (wt_cost w) (wt_local w)
         else w)"

definition over_budget :: "router \<Rightarrow> bool" where
  "over_budget R = (let cap = mc_monthly_budget (mr_config R) in cap \<noteq> 0 \<and> cap \<le> mr_spend R)"

definition eligible :: "router \<Rightarrow> need \<Rightarrow> model_spec \<Rightarrow> bool" where
  "eligible R n m =
     (supports m (nd_job n) \<and> nd_requires n \<subseteq> md_capabilities m \<and>
      \<not> (nd_min_context n \<noteq> 0 \<and> md_context m < nd_min_context n) \<and>
      \<not> (nd_privacy n = LOCAL_ONLY \<and> \<not> md_local m) \<and>
      \<not> (\<not> mc_allow_cloud (mr_config R) \<and> \<not> md_local m) \<and>
      \<not> (over_budget R \<and> \<not> md_local m) \<and>
      (case nd_max_cost n of None \<Rightarrow> True | Some cap \<Rightarrow> price_for m 8000 1500 \<le> cap))"

definition score_model :: "weights \<Rightarrow> provider \<Rightarrow> model_spec \<Rightarrow> choice" where
  "score_model w p m =
     (let cost_index = min 1 ((md_input_cost m + md_output_cost m * 3) / COST_CEILING);
          reasons = [(''quality'', wt_quality w * md_quality m), (''speed'', wt_speed w * md_speed m),
            (''cost'', - wt_cost w * cost_index), (''local'', if md_local m then wt_local w else 0)]
      in \<lparr>ch_provider = p, ch_model = m, ch_score = sum_list (map snd reasons), ch_reasons = reasons\<rparr>)"

definition rank_key :: "choice \<Rightarrow> rat \<times> string" where
  "rank_key c = (- ch_score c, md_name (ch_model c))"

definition offered :: "instant \<Rightarrow> need \<Rightarrow> router \<Rightarrow> choice list" where
  "offered now n R =
     concat (map (\<lambda>p. if provider_usable now R p
                      then map (score_model (profile_of (mr_config R) n) p) (filter (eligible R n) (pv_models p))
                      else []) (mr_providers R))"

definition candidates :: "instant \<Rightarrow> need \<Rightarrow> router \<Rightarrow> choice list" where
  "candidates now n R = sort_key rank_key (offered now n R)"

subsection \<open>Spreading over providers\<close>

abbreviation vendor :: "choice \<Rightarrow> string" where "vendor c \<equiv> pv_name (ch_provider c)"

definition group_in :: "choice \<Rightarrow> (string \<times> choice list) list \<Rightarrow> (string \<times> choice list) list" where
  "group_in c d =
     dict_set (vendor c) ((case map_of d (vendor c) of None \<Rightarrow> [] | Some cs \<Rightarrow> cs) @ [c]) d"

definition by_provider :: "choice list \<Rightarrow> (string \<times> choice list) list" where
  "by_provider ranked = fold group_in ranked []"

text \<open>\<open>zip_longest(*lists)\<close>, each round without its fill values, the rounds joined.\<close>

function rounds :: "'a list list \<Rightarrow> 'a list" where
  "rounds xss =
     (if filter (\<lambda>xs. xs \<noteq> []) xss = [] then []
      else map hd (filter (\<lambda>xs. xs \<noteq> []) xss) @ rounds (map tl xss))"
  by pat_completeness auto
termination
proof (relation "measure (\<lambda>xss. sum_list (map length xss))")
  fix xss :: "'a list list"
  assume "filter (\<lambda>xs. xs \<noteq> []) xss \<noteq> []"
  then obtain xs where xs: "xs \<in> set xss" "xs \<noteq> []" by (auto simp: filter_empty_conv)
  have le: "sum_list (map (\<lambda>ys. length ys - Suc 0) yss) \<le> sum_list (map length yss)" for yss :: "'a list list"
    by (induction yss) auto
  from xs have "sum_list (map (\<lambda>ys. length ys - Suc 0) xss) < sum_list (map length xss)"
    by (induction xss) (auto intro: add_less_le_mono add_le_less_mono le)
  then show "(map tl xss, xss) \<in> measure (\<lambda>xss. sum_list (map length xss))" by (simp add: comp_def)
qed simp

declare rounds.simps [simp del]

definition spread :: "choice list \<Rightarrow> choice list" where
  "spread ranked = rounds (map snd (by_provider ranked))"

subsection \<open>What is said when there is no model\<close>

definition why_unavailable :: "router \<Rightarrow> string" where
  "why_unavailable R =
     (let t = join '', '' (map (\<lambda>p. pv_name p @ '': '' @ health_sentence (state_of_provider R p)) (mr_providers R))
      in if t \<noteq> [] then t else ''brak skonfigurowanych dostawc'' @ pl_o @ ''w'')"

definition no_model_sentence :: "instant \<Rightarrow> router \<Rightarrow> string" where
  "no_model_sentence now R =
     (if mr_providers R = [] then
        ''Nie mam skonfigurowanego '' @ pl_z @ ''adnego modelu, wi'' @ pl_e @ ''c nie zaplanuj'' @ pl_e @ '' tego zadania. Dodaj klucz w Ustawieniach '' @ [CHR 0xE2, CHR 0x86, CHR 0x92] @ '' Modele (albo: garis vault set openai_api_key) i zle'' @ pl_c @ '' je ponownie.''
      else case filter (\<lambda>p. \<not> provider_usable now R p) (mr_providers R) of
          [] \<Rightarrow> (case class_user_message NoModelAvailable of None \<Rightarrow> [] | Some t \<Rightarrow> t)
        | p # _ \<Rightarrow> ''Nie mam teraz dost'' @ pl_e @ ''pnego modelu '' @ em_dash @ '' '' @ pv_name p @ '': '' @
            lower (health_sentence (state_of_provider R p)))"

definition select_choice :: "instant \<Rightarrow> need \<Rightarrow> router \<Rightarrow> exn + choice" where
  "select_choice now n R =
     (case candidates now n R of
        c # _ \<Rightarrow> Inr c
      | [] \<Rightarrow> Inl (Garis (mk_error NoModelAvailable
          (''Brak modelu dla zadania '' @ job_value (nd_job n) @ '' (prywatno'' @ pl_s @ pl_c @ '': '' @ privacy_value (nd_privacy n) @ ''); '' @ why_unavailable R)
          (Some (no_model_sentence now R)))))"

subsection \<open>Calling\<close>

definition note_call_failure :: "instant \<Rightarrow> choice \<Rightarrow> exn \<Rightarrow> router \<times> bus \<Rightarrow> router \<times> bus" where
  "note_call_failure now c e Rb =
     (let (R, b) = Rb;
          b1 = (if mr_bus R then emit now ''model.fallback''
                  [(''model'', EvVal (PStr (choice_text c))), (''error'', EvVal (PStr (exn_text e)))] b else b)
      in case mr_health R of
          None \<Rightarrow> (R, b1)
        | Some m \<Rightarrow> (let (m', b2) = note_failure now (vendor c) e (m, b1) in (R\<lparr>mr_health := Some m'\<rparr>, b2)))"

definition record_completion :: "completion \<Rightarrow> router \<Rightarrow> router" where
  "record_completion c R = R\<lparr>mr_usage := add_usage (mr_usage R) (cm_usage c), mr_spend := mr_spend R + us_cost (cm_usage c)\<rparr>"

definition call_error :: "choice \<Rightarrow> exn \<Rightarrow> string" where
  "call_error c e =
     choice_text c @ '': '' @ (if isinstance e ProviderError then [] else exn_name e @ '': '') @ exn_text e"

definition call_for :: "model_call \<Rightarrow> choice \<Rightarrow> model_call" where
  "call_for call c = call\<lparr>mk_json_mode := mk_json_mode call \<and> CAN_JSON_MODE \<in> md_capabilities (ch_model c)\<rparr>"

definition ask_choice :: "nat \<Rightarrow> model_call \<Rightarrow> choice \<Rightarrow> exn + completion" where
  "ask_choice n call c = pv_complete (ch_provider c) n (ch_model c) (call_for call c)"

datatype call_end = Completed completion | Cancelled | Exhausted "string list" "string list"

fun try_choices ::
  "(nat \<Rightarrow> instant) \<Rightarrow> model_call \<Rightarrow> choice list \<Rightarrow> string list \<Rightarrow> string list \<Rightarrow> router \<times> bus \<Rightarrow> call_end \<times> router \<times> bus" where
  "try_choices clock call [] attempted errs Rb = (Exhausted attempted errs, Rb)"
| "try_choices clock call (c # cs) attempted errs Rb =
     (let n = mr_calls (fst Rb); Rb1 = ((fst Rb)\<lparr>mr_calls := n + 1\<rparr>, snd Rb) in
      case ask_choice n call c of
        Inr done \<Rightarrow> (Completed done, record_completion done (fst Rb1), snd Rb1)
      | Inl Cancellation \<Rightarrow> (Cancelled, Rb1)
      | Inl e \<Rightarrow> try_choices clock call cs (attempted @ [vendor c]) (errs @ [call_error c e])
          (note_call_failure (clock n) c e Rb1))"

definition attempt_budget :: "int \<Rightarrow> choice list \<Rightarrow> nat" where
  "attempt_budget max_attempts ranked = nat (max max_attempts (int (card (set (map vendor ranked)))))"

definition all_failed :: "string list \<Rightarrow> string list \<Rightarrow> garis_error" where
  "all_failed attempted errs =
     (let tried = join '', '' (sort (remdups attempted))
      in mk_error NoModelAvailable
          (''Wszyscy dostawcy zawiedli (pr'' @ pl_o @ ''bowani: '' @ tried @ ''): '' @ join ''; '' errs)
          (Some ([CHR 0xC5, CHR 0xBB] @ ''aden z dostawc'' @ pl_o @ ''w nie odpowiedzia'' @ pl_l @ '' ('' @ tried @ ''). Spr'' @ pl_o @ ''buj'' @ pl_e @ '' ponownie p'' @ pl_o @ pl_x @ ''niej.'')))"

definition complete_need ::
  "(nat \<Rightarrow> instant) \<Rightarrow> instant \<Rightarrow> need \<Rightarrow> model_call \<Rightarrow> int \<Rightarrow> router \<times> bus \<Rightarrow> (exn + completion) \<times> router \<times> bus" where
  "complete_need clock now n call max_attempts Rb =
     (let ranked = candidates now n (fst Rb) in
      if ranked = [] then
        (Inl (Garis (mk_error NoModelAvailable
          (''Brak modelu dla zadania '' @ job_value (nd_job n) @ ''; '' @ why_unavailable (fst Rb))
          (Some (no_model_sentence now (fst Rb))))), Rb)
      else case try_choices clock call (take (attempt_budget max_attempts ranked) (spread ranked)) [] [] Rb of
          (Completed done, Rb') \<Rightarrow> (Inr done, Rb')
        | (Cancelled, Rb') \<Rightarrow> (Inl Cancellation, Rb')
        | (Exhausted attempted errs, Rb') \<Rightarrow> (Inl (Garis (all_failed attempted errs)), Rb'))"

definition stream_choice :: "instant \<Rightarrow> need \<Rightarrow> router \<Rightarrow> exn + choice" where
  "stream_choice now n R = select_choice now (n\<lparr>nd_requires := nd_requires n \<union> {CAN_STREAMING}\<rparr>) R"

subsection \<open>Reports\<close>

definition available_providers :: "instant \<Rightarrow> router \<Rightarrow> string list" where
  "available_providers now R = map pv_name (filter (provider_usable now R) (mr_providers R))"

definition has_any :: "instant \<Rightarrow> router \<Rightarrow> bool" where
  "has_any now R = list_ex (provider_usable now R) (mr_providers R)"

definition reset_spend :: "router \<Rightarrow> router" where
  "reset_spend R = R\<lparr>mr_spend := 0\<rparr>"

definition jobs_of :: "model_spec list \<Rightarrow> job set" where
  "jobs_of ms = \<Union> (set (map md_jobs ms))"

definition describe_provider :: "(rat \<Rightarrow> pyval) \<Rightarrow> (rat \<Rightarrow> rat) \<Rightarrow> instant \<Rightarrow> router \<Rightarrow> provider \<Rightarrow> pydict" where
  "describe_provider float_val round1 now R p =
     (let h = state_of_provider R p
      in [(''name'', PStr (pv_name p)), (''available'', PBool (provider_usable now R p)),
          (''models'', PList (map (PStr \<circ> md_name) (pv_models p))), (''status'', PStr (status_value (ph_status h))),
          (''reason'', PStr (health_sentence h)), (''detail'', PStr (ph_detail h)),
          (''checked_at'', float_val (ph_checked_at h)), (''latency_ms'', float_val (round1 (ph_latency_ms h))),
          (''retry_after'', float_val (ph_retry_after h)), (''failures'', PInt (ph_failures h))])"

definition ALL_JOBS :: "job list" where
  "ALL_JOBS = [JOB_PLAN, JOB_REASON, JOB_CODE, JOB_CHAT, JOB_CLASSIFY, JOB_SUMMARIZE, JOB_EXTRACT, JOB_VISION, JOB_VOICE]"

definition need_for :: "job \<Rightarrow> need" where
  "need_for j =
     \<lparr>nd_job = j, nd_privacy = PRIV_ANY, nd_requires = {}, nd_max_cost = None, nd_prefer_speed = False, nd_min_context = 0\<rparr>"

definition describe_router :: "(rat \<Rightarrow> pyval) \<Rightarrow> (rat \<Rightarrow> rat) \<Rightarrow> (rat \<Rightarrow> rat) \<Rightarrow> instant \<Rightarrow> router \<Rightarrow> pydict" where
  "describe_router float_val round1 round4 now R =
     [(''privacy'', PStr (mc_privacy (mr_config R))), (''allow_cloud'', PBool (mc_allow_cloud (mr_config R))),
      (''monthly_budget'', float_val (mc_monthly_budget (mr_config R))), (''spend'', float_val (round4 (mr_spend R))),
      (''providers'', PList (map (PDict \<circ> describe_provider float_val round1 now R) (mr_providers R))),
      (''picks'', PDict (map (\<lambda>j. (job_value j, PStr (case candidates now (need_for j) R of
          c # _ \<Rightarrow> choice_text c | [] \<Rightarrow> em_dash))) ALL_JOBS))]"

subsection \<open>The spread of a ranking\<close>

lemma rounds_step: "list_ex (\<lambda>xs. xs \<noteq> []) xss \<Longrightarrow>
    rounds xss = map hd (filter (\<lambda>xs. xs \<noteq> []) xss) @ rounds (map tl xss)"
  by (subst rounds.simps) (auto simp: filter_empty_conv list_ex_iff)

lemma rounds_none: "\<not> list_ex (\<lambda>xs. xs \<noteq> []) xss \<Longrightarrow> rounds xss = []"
  by (subst rounds.simps) (auto simp: filter_empty_conv list_ex_iff)

lemma filter_heads_none:
  "\<forall>xs \<in> set xss. filter P xs = [] \<Longrightarrow> filter P (map hd (filter (\<lambda>xs. xs \<noteq> []) xss)) = []"
  by (induction xss) (auto simp: filter_empty_conv)

lemma filter_tl_none: "\<forall>xs \<in> set xss. filter P xs = [] \<Longrightarrow> \<forall>xs \<in> set (map tl xss). filter P xs = []"
  by (auto simp: filter_empty_conv dest: list.set_sel(2) [rotated]) (metis list.sel(2) list.set_sel(2))

text \<open>A list all of whose elements have a property that no element of the others has is read
  back from the rounds as it was.\<close>

lemma filter_rounds:
  assumes "\<forall>xs \<in> set ass. filter P xs = []" and "\<forall>xs \<in> set bs. filter P xs = []" and "list_all P ys"
  shows "filter P (rounds (ass @ ys # bs)) = ys"
  using assms
proof (induction "ass @ ys # bs" arbitrary: ass ys bs rule: rounds.induct)
  case 1
  show ?case
  proof (cases "list_ex (\<lambda>xs. xs \<noteq> []) (ass @ ys # bs)")
    case False
    then have "ys = []" by simp
    with rounds_none [OF False] show ?thesis by simp
  next
    case True
    have ih: "filter P (rounds (map tl ass @ tl ys # map tl bs)) = tl ys"
      using "1.hyps" [of "map tl ass" "tl ys" "map tl bs"] True "1.prems"
        filter_tl_none [of ass P] filter_tl_none [of bs P]
      by (cases ys) (auto simp: filter_empty_conv list_ex_iff)
    have "filter P (map hd (filter (\<lambda>xs. xs \<noteq> []) (ass @ ys # bs))) = take 1 ys"
      using "1.prems" by (cases ys) (simp_all add: filter_heads_none)
    with ih have "filter P (rounds (ass @ ys # bs)) = take 1 ys @ tl ys"
      unfolding rounds_step [OF True] filter_append by simp
    then show ?thesis by (cases ys) simp_all
  qed
qed

definition groups_of :: "choice list \<Rightarrow> (string \<times> choice list) list \<Rightarrow> bool" where
  "groups_of seen d = (dict_ok d \<and>
     (\<forall>n. map_of d n = (let l = filter (\<lambda>c. vendor c = n) seen in if l = [] then None else Some l)))"

lemma groups_of_step: "groups_of seen d \<Longrightarrow> groups_of (seen @ [c]) (group_in c d)"
  by (auto simp: groups_of_def group_in_def Let_def)

lemma groups_of_fold: "groups_of seen d \<Longrightarrow> groups_of (seen @ cs) (fold group_in cs d)"
proof (induction cs arbitrary: seen d)
  case Nil
  then show ?case by simp
next
  case (Cons c cs)
  from Cons.IH [OF groups_of_step [OF Cons.prems, of c]] show ?case by simp
qed

lemma by_provider_groups: "groups_of r (by_provider r)"
  using groups_of_fold [of "[]" "[]" r] by (simp add: by_provider_def groups_of_def)

lemma by_provider_entry: "(n, l) \<in> set (by_provider r) \<Longrightarrow> l \<noteq> [] \<and> l = filter (\<lambda>c. vendor c = n) r"
proof -
  assume "(n, l) \<in> set (by_provider r)"
  moreover have g: "dict_ok (by_provider r)"
    "map_of (by_provider r) n = (let l = filter (\<lambda>c. vendor c = n) r in if l = [] then None else Some l)"
    using by_provider_groups [of r] by (simp_all add: groups_of_def)
  ultimately have "map_of (by_provider r) n = Some l" by (intro map_of_is_SomeI) (simp_all add: dict_ok_def)
  with g(2) show ?thesis by (auto simp: Let_def split: if_splits)
qed

lemma by_provider_keys: "fst ` set (by_provider r) = vendor ` set r"
proof -
  have "n \<in> fst ` set (by_provider r) \<longleftrightarrow> n \<in> vendor ` set r" for n
  proof -
    have "n \<in> fst ` set (by_provider r) \<longleftrightarrow> map_of (by_provider r) n \<noteq> None"
      by (simp add: map_of_eq_None_iff)
    also have "\<dots> \<longleftrightarrow> n \<in> vendor ` set r"
      using by_provider_groups [of r] by (auto simp: groups_of_def Let_def filter_empty_conv)
    finally show ?thesis .
  qed
  then show ?thesis by blast
qed

lemma spread_of_vendor: "filter (\<lambda>c. vendor c = n) (spread r) = filter (\<lambda>c. vendor c = n) r"
proof (cases "n \<in> vendor ` set r")
  case True
  then obtain l where l: "(n, l) \<in> set (by_provider r)" using by_provider_keys [of r] by force
  then obtain ps qs where d: "by_provider r = ps @ (n, l) # qs" by (meson in_set_conv_decomp)
  have "distinct (map fst (by_provider r))" using by_provider_groups by (simp add: groups_of_def dict_ok_def)
  then have nd: "n \<notin> fst ` set ps \<union> fst ` set qs" by (simp add: d)
  have other: "filter (\<lambda>c. vendor c = n) xs = []" if "xs \<in> set (map snd ps) \<union> set (map snd qs)" for xs
  proof -
    from that obtain m where m: "(m, xs) \<in> set ps \<union> set qs" by (auto; blast)
    then have "m \<noteq> n" using nd by force
    moreover have "(m, xs) \<in> set (by_provider r)" using m by (auto simp: d)
    then have "xs = filter (\<lambda>c. vendor c = m) r" using by_provider_entry by simp
    ultimately show ?thesis by (auto simp: filter_empty_conv)
  qed
  have "list_all (\<lambda>c. vendor c = n) l" using by_provider_entry [OF l] by (auto simp: list_all_iff)
  then show ?thesis
    using filter_rounds [of "map snd ps" "\<lambda>c. vendor c = n" "map snd qs" l] other by_provider_entry [OF l]
    by (simp add: spread_def d)
next
  case False
  have "filter (\<lambda>c. vendor c = n) xs = []" if "xs \<in> set (map snd (by_provider r))" for xs
    using that by_provider_entry False by (fastforce simp: filter_empty_conv)
  then have "filter (\<lambda>c. vendor c = n) (rounds ([] @ [] # map snd (by_provider r))) = []"
    by (intro filter_rounds) simp_all
  moreover have "rounds ([] # xss) = rounds xss" for xss :: "choice list list"
  proof (induction xss rule: rounds.induct)
    case (1 xss)
    show ?case
      by (cases "list_ex (\<lambda>xs. xs \<noteq> []) xss") (use 1 in \<open>auto simp: rounds_step rounds_none filter_empty_conv list_ex_iff\<close>)
  qed
  moreover have "filter (\<lambda>c. vendor c = n) r = []" using False by (auto simp: filter_empty_conv)
  ultimately show ?thesis by (simp add: spread_def)
qed

lemma spread_mset: "mset (spread r) = mset r"
proof (rule multiset_eqI)
  fix c
  have by_vendor: "filter ((=) c) xs = filter ((=) c) (filter (\<lambda>x. vendor x = vendor c) xs)" for xs
    unfolding filter_filter by (rule filter_cong) auto
  have "filter ((=) c) (spread r) = filter ((=) c) r"
    by (simp only: by_vendor [of "spread r"] by_vendor [of r] spread_of_vendor)
  then show "count (mset (spread r)) c = count (mset r) c" by (simp add: count_mset count_list_eq_length_filter)
qed

lemma set_spread [simp]: "set (spread r) = set r"
  using spread_mset by (metis set_mset_mset)

lemma spread_first_round:
  "map vendor (take (card (vendor ` set r)) (spread r)) = map fst (by_provider r)"
proof (cases r)
  case Nil
  then show ?thesis by (simp add: by_provider_def)
next
  case (Cons c cs)
  let ?d = "by_provider r"
  have ne: "\<forall>xs \<in> set (map snd ?d). xs \<noteq> []" using by_provider_entry by auto
  have nd: "distinct (map fst ?d)" using by_provider_groups by (simp add: groups_of_def dict_ok_def)
  have len: "card (vendor ` set r) = length ?d"
    using distinct_card [OF nd] by_provider_keys [of r] by simp
  have "?d \<noteq> []" using by_provider_keys [of r] Cons by auto
  then have "list_ex (\<lambda>xs. xs \<noteq> []) (map snd ?d)" using ne by (cases ?d) auto
  then have "spread r = map hd (map snd ?d) @ rounds (map tl (map snd ?d))"
    unfolding spread_def using ne by (simp add: rounds_step filter_True)
  moreover have "vendor (hd l) = n" if "(n, l) \<in> set ?d" for n l
  proof -
    have "hd l \<in> set (filter (\<lambda>c. vendor c = n) r)" using by_provider_entry [OF that] hd_in_set by metis
    then show ?thesis by simp
  qed
  ultimately show ?thesis by (auto simp: len)
qed

text \<open>Spreading a ranking loses and invents no candidate, keeps each provider's own
  candidates in rank order, and puts the best one of every provider before the second of any:
  the first round names every provider once.\<close>

theorem spread_tries_every_provider_first:
  "mset (spread ranked) = mset ranked \<and>
   filter (\<lambda>c. vendor c = n) (spread ranked) = filter (\<lambda>c. vendor c = n) ranked \<and>
   distinct (map vendor (take (card (vendor ` set ranked)) (spread ranked))) \<and>
   set (map vendor (take (card (vendor ` set ranked)) (spread ranked))) = vendor ` set ranked"
proof -
  have "distinct (map fst (by_provider ranked))" using by_provider_groups by (simp add: groups_of_def dict_ok_def)
  then show ?thesis
    unfolding spread_first_round using spread_mset spread_of_vendor by_provider_keys by simp
qed

subsection \<open>Falling through to the first answer\<close>

definition settled_answer :: "exn + completion \<Rightarrow> bool" where
  "settled_answer a = (case a of Inl e \<Rightarrow> e = Cancellation | Inr _ \<Rightarrow> True)"

definition answers_from :: "nat \<Rightarrow> model_call \<Rightarrow> choice list \<Rightarrow> (exn + completion) list" where
  "answers_from n call order = map (\<lambda>(i, c). ask_choice i call c) (enumerate n order)"

definition spend_of :: "exn + completion \<Rightarrow> rat" where
  "spend_of a = (case a of Inl _ \<Rightarrow> 0 | Inr c \<Rightarrow> us_cost (cm_usage c))"

lemma note_call_failure_frame [simp]:
  "mr_calls (fst (note_call_failure now c e Rb)) = mr_calls (fst Rb)"
  "mr_spend (fst (note_call_failure now c e Rb)) = mr_spend (fst Rb)"
  "mr_usage (fst (note_call_failure now c e Rb)) = mr_usage (fst Rb)"
  "mr_config (fst (note_call_failure now c e Rb)) = mr_config (fst Rb)"
  "mr_providers (fst (note_call_failure now c e Rb)) = mr_providers (fst Rb)"
  by (simp_all add: note_call_failure_def Let_def case_prod_beta split: option.splits)

fun end_answer :: "call_end \<Rightarrow> (exn + completion) option" where
  "end_answer (Completed c) = Some (Inr c)"
| "end_answer Cancelled = Some (Inl Cancellation)"
| "end_answer (Exhausted _ _) = None"

lemma try_choices_spec:
  assumes "try_choices clock call order attempted errs Rb = (fin, Rb')"
  shows "end_answer fin = find settled_answer (answers_from (mr_calls (fst Rb)) call order) \<and>
    mr_spend (fst Rb') = mr_spend (fst Rb) + (case end_answer fin of None \<Rightarrow> 0 | Some a \<Rightarrow> spend_of a) \<and>
    (end_answer fin = None \<longrightarrow> (\<exists>more. fin = Exhausted (attempted @ map vendor order) (errs @ more) \<and> length more = length order))"
  using assms
proof (induction order arbitrary: attempted errs Rb)
  case Nil
  then show ?case by (auto simp: answers_from_def)
next
  case (Cons c cs)
  define n where "n = mr_calls (fst Rb)"
  define Rb1 where "Rb1 = ((fst Rb)\<lparr>mr_calls := n + 1\<rparr>, snd Rb)"
  have answers: "answers_from n call (c # cs) = ask_choice n call c # answers_from (Suc n) call cs"
    by (simp add: answers_from_def)
  show ?case
  proof (cases "ask_choice n call c")
    case (Inr d)
    with Cons.prems answers show ?thesis
      by (auto simp: n_def [symmetric] settled_answer_def record_completion_def spend_of_def Let_def)
  next
    case (Inl e)
    show ?thesis
    proof (cases "e = Cancellation")
      case True
      with Cons.prems answers Inl show ?thesis
        by (auto simp: n_def [symmetric] settled_answer_def spend_of_def Let_def)
    next
      case False
      then have "try_choices clock call cs (attempted @ [vendor c]) (errs @ [call_error c e])
          (note_call_failure (clock n) c e Rb1) = (fin, Rb')"
        using Cons.prems Inl by (cases e) (auto simp: Rb1_def n_def Let_def)
      from Cons.IH [OF this] False Inl answers show ?thesis
        by (auto simp: Rb1_def n_def [symmetric] settled_answer_def)
    qed
  qed
qed

lemma card_le_attempts: "card (vendor ` set ranked) \<le> attempt_budget k ranked"
  by (simp add: attempt_budget_def)

lemma attempts_name_everyone:
  assumes "card (vendor ` set ranked) \<le> k"
  shows "vendor ` set (take k (spread ranked)) = vendor ` set ranked"
proof
  show "vendor ` set (take k (spread ranked)) \<subseteq> vendor ` set ranked"
    using set_take_subset [of k "spread ranked"] by auto
  have "set (take (card (vendor ` set ranked)) (spread ranked)) \<subseteq> set (take k (spread ranked))"
    using assms by (rule set_take_subset_set_take)
  moreover have "vendor ` set (take (card (vendor ` set ranked)) (spread ranked)) = vendor ` set ranked"
    using spread_first_round [of ranked] by_provider_keys [of ranked] by (metis list.set_map)
  ultimately show "vendor ` set ranked \<subseteq> vendor ` set (take k (spread ranked))" by blast
qed

text \<open>C13: a completion is what the first choice that answers (or is cancelled) gives, in the order of
  the spread ranking; when none does, the error names every provider that has a candidate, each
  of them called. Exactly the cost of the answer is added to the spending.\<close>

theorem complete_is_the_first_answer:
  assumes "complete_need clock now n call k (R, b) = (result, R', b')"
    and "order = take (attempt_budget k (candidates now n R)) (spread (candidates now n R))"
    and "candidates now n R \<noteq> []"
  shows "(case find settled_answer (answers_from (mr_calls R) call order) of
        Some a \<Rightarrow> result = a
      | None \<Rightarrow> \<exists>errs. result = Inl (Garis (all_failed (map vendor order) errs)) \<and> length errs = length order) \<and>
    vendor ` set order = vendor ` set (candidates now n R) \<and>
    mr_spend R' = mr_spend R + spend_of result"
proof -
  obtain fin R1 b1 where t: "try_choices clock call order [] [] (R, b) = (fin, R1, b1)" by (metis prod_cases3)
  have spec: "end_answer fin = find settled_answer (answers_from (mr_calls R) call order)"
    "mr_spend R1 = mr_spend R + (case end_answer fin of None \<Rightarrow> 0 | Some a \<Rightarrow> spend_of a)"
    "end_answer fin = None \<Longrightarrow> \<exists>more. fin = Exhausted (map vendor order) more \<and> length more = length order"
    using try_choices_spec [OF t] by simp_all
  have "vendor ` set order = vendor ` set (candidates now n R)"
    unfolding assms(2) by (rule attempts_name_everyone [OF card_le_attempts])
  moreover have "result = (case fin of Completed d \<Rightarrow> Inr d | Cancelled \<Rightarrow> Inl Cancellation
      | Exhausted attempted errs \<Rightarrow> Inl (Garis (all_failed attempted errs)))" and "R' = R1"
    using assms(1) t assms(3) unfolding assms(2) complete_need_def Let_def by (cases fin; simp)+
  ultimately show ?thesis
    unfolding spec(1) [symmetric] using spec(2,3) by (cases fin) (auto simp: spend_of_def)
qed

subsection \<open>What never leaves the machine\<close>

definition swap_cloud :: "(nat \<Rightarrow> model_spec \<Rightarrow> model_call \<Rightarrow> exn + completion) \<Rightarrow> provider \<Rightarrow> provider" where
  "swap_cloud g p = p\<lparr>pv_complete := \<lambda>i m call. if md_local m then pv_complete p i m call else g i m call\<rparr>"

definition swap_router :: "(nat \<Rightarrow> model_spec \<Rightarrow> model_call \<Rightarrow> exn + completion) \<Rightarrow> router \<Rightarrow> router" where
  "swap_router g R = R\<lparr>mr_providers := map (swap_cloud g) (mr_providers R)\<rparr>"

definition swap_choice :: "(nat \<Rightarrow> model_spec \<Rightarrow> model_call \<Rightarrow> exn + completion) \<Rightarrow> choice \<Rightarrow> choice" where
  "swap_choice g c = c\<lparr>ch_provider := swap_cloud g (ch_provider c)\<rparr>"

lemma swap_simps [simp]:
  "pv_name (swap_cloud g p) = pv_name p" "pv_models (swap_cloud g p) = pv_models p"
  "pv_available (swap_cloud g p) = pv_available p" "ch_model (swap_choice g c) = ch_model c"
  "ch_score (swap_choice g c) = ch_score c" "rank_key (swap_choice g c) = rank_key c"
  "ch_provider (swap_choice g c) = swap_cloud g (ch_provider c)"
  "choice_text (swap_choice g c) = choice_text c"
  "mr_config (swap_router g R) = mr_config R" "mr_health (swap_router g R) = mr_health R"
  "mr_bus (swap_router g R) = mr_bus R" "mr_calls (swap_router g R) = mr_calls R"
  "mr_spend (swap_router g R) = mr_spend R" "mr_usage (swap_router g R) = mr_usage R"
  "mr_providers (swap_router g R) = map (swap_cloud g) (mr_providers R)"
  by (simp_all add: swap_cloud_def swap_choice_def swap_router_def rank_key_def choice_text_def)

lemma swap_reads [simp]:
  "provider_usable now (swap_router g R) (swap_cloud g p) = provider_usable now R p"
  "state_of_provider (swap_router g R) (swap_cloud g p) = state_of_provider R p"
  "eligible (swap_router g R) n m = eligible R n m"
  by (simp_all add: provider_usable_def state_of_provider_def eligible_def over_budget_def split: option.splits)

lemma swap_score: "score_model w (swap_cloud g p) m = swap_choice g (score_model w p m)"
  by (simp add: score_model_def swap_choice_def Let_def)

lemma swap_eligible: "eligible (swap_router g R) n = eligible R n"
  by (rule ext) simp

lemma swap_offered: "offered now n (swap_router g R) = map (swap_choice g) (offered now n R)"
  by (auto simp: offered_def map_concat comp_def swap_score swap_eligible intro!: arg_cong [of _ _ concat])

lemma insort_key_map: "insort_key f (h x) (map h xs) = map h (insort_key (\<lambda>x. f (h x)) x xs)"
  by (induction xs) auto

lemma sort_key_map: "sort_key f (map h xs) = map h (sort_key (\<lambda>x. f (h x)) xs)"
  by (induction xs) (simp_all add: insort_key_map)

lemma swap_candidates: "candidates now n (swap_router g R) = map (swap_choice g) (candidates now n R)"
  by (simp add: candidates_def swap_offered sort_key_map)

lemma rounds_map: "rounds (map (map h) xss) = map h (rounds xss)"
proof (induction xss rule: rounds.induct)
  case (1 xss)
  show ?case
  proof (cases "list_ex (\<lambda>xs. xs \<noteq> []) xss")
    case False
    then have "\<not> list_ex (\<lambda>xs. xs \<noteq> []) (map (map h) xss)" by (simp add: list_ex_iff)
    with False show ?thesis by (simp add: rounds_none)
  next
    case True
    have "map hd (filter (\<lambda>xs. xs \<noteq> []) (map (map h) xss)) = map h (map hd (filter (\<lambda>xs. xs \<noteq> []) xss))"
      by (induction xss) (auto simp: hd_map)
    moreover have "map tl (map (map h) xss) = map (map h) (map tl xss)" by (simp add: map_tl)
    moreover have "list_ex (\<lambda>xs. xs \<noteq> []) (map (map h) xss)" using True by (simp add: list_ex_iff)
    ultimately show ?thesis
      using 1 True by (simp add: rounds_step filter_empty_conv list_ex_iff del: map_map filter_map)
  qed
qed

lemma swap_group:
  "group_in (swap_choice g c) (map (\<lambda>(n, cs). (n, map (swap_choice g) cs)) d) =
   map (\<lambda>(n, cs). (n, map (swap_choice g) cs)) (group_in c d)"
proof -
  have set: "dict_set n (map h v) (map (\<lambda>(n, cs). (n, map h cs)) d) = map (\<lambda>(n, cs). (n, map h cs)) (dict_set n v d)"
    for n v and h :: "choice \<Rightarrow> choice"
    by (induction n v d rule: dict_set.induct) auto
  have get: "map_of (map (\<lambda>(n, cs). (n, map h cs)) d) n = map_option (map h) (map_of d n)"
    for n and h :: "choice \<Rightarrow> choice"
    by (induction d) auto
  show ?thesis
    using set [of "vendor c" "swap_choice g" "(case map_of d (vendor c) of None \<Rightarrow> [] | Some cs \<Rightarrow> cs) @ [c]"]
    by (simp add: group_in_def get split: option.splits)
qed

lemma swap_spread: "spread (map (swap_choice g) r) = map (swap_choice g) (spread r)"
proof -
  have "fold group_in (map (swap_choice g) cs) (map (\<lambda>(n, cs). (n, map (swap_choice g) cs)) d) =
      map (\<lambda>(n, cs). (n, map (swap_choice g) cs)) (fold group_in cs d)" for cs d
    by (induction cs arbitrary: d) (simp_all add: swap_group)
  from this [of r "[]"] have "by_provider (map (swap_choice g) r) =
      map (\<lambda>(n, cs). (n, map (swap_choice g) cs)) (by_provider r)"
    by (simp add: by_provider_def)
  then show ?thesis
    by (simp add: spread_def comp_def split_beta rounds_map [symmetric])
qed

lemma swap_note: "note_call_failure now (swap_choice g c) e (swap_router g R, b) =
    (swap_router g (fst (note_call_failure now c e (R, b))), snd (note_call_failure now c e (R, b)))"
  by (simp add: note_call_failure_def swap_router_def Let_def case_prod_beta split: option.splits)

lemma swap_ask: "md_local (ch_model c) \<Longrightarrow> ask_choice i call (swap_choice g c) = ask_choice i call c"
  by (simp add: ask_choice_def swap_cloud_def call_for_def)

lemma swap_try:
  assumes "\<forall>c \<in> set order. md_local (ch_model c)"
  shows "try_choices clock call (map (swap_choice g) order) attempted errs (swap_router g R, b) =
    (case try_choices clock call order attempted errs (R, b) of (fin, R', b') \<Rightarrow> (fin, swap_router g R', b'))"
  using assms
proof (induction order arbitrary: attempted errs R b)
  case Nil
  then show ?case by simp
next
  case (Cons c cs)
  have ask: "ask_choice i call (swap_choice g c) = ask_choice i call c" for i
    using Cons.prems by (simp add: swap_ask)
  have count: "(swap_router g R)\<lparr>mr_calls := k\<rparr> = swap_router g (R\<lparr>mr_calls := k\<rparr>)" for R k
    by (simp add: swap_router_def)
  have rec: "record_completion d (swap_router g R) = swap_router g (record_completion d R)" for d R
    by (simp add: record_completion_def swap_router_def)
  have err: "call_error (swap_choice g c) e = call_error c e" for e by (simp add: call_error_def)
  show ?case
    using Cons
    by (auto simp: ask count rec err swap_note Let_def case_prod_beta split: sum.splits exn.splits)
qed

lemma candidates_local:
  assumes "nd_privacy n = LOCAL_ONLY \<or> \<not> mc_allow_cloud (mr_config R) \<or> over_budget R"
    and "c \<in> set (candidates now n R)"
  shows "md_local (ch_model c)"
  using assms by (auto simp: candidates_def offered_def score_model_def eligible_def Let_def split: if_splits)

text \<open>C12: work that must stay on the machine (a local-only need, cloud models switched off, or
  the monthly budget spent) stays there: what the cloud models would answer has no influence on
  the result, the spending, the health table or the events, because none of them is asked.\<close>

theorem private_work_stays_local:
  assumes "nd_privacy n = LOCAL_ONLY \<or> \<not> mc_allow_cloud (mr_config R) \<or> over_budget R"
    and "complete_need clock now n call k (R, b) = (result, R', b')"
  shows "complete_need clock now n call k (swap_router g R, b) = (result, swap_router g R', b')"
proof -
  have loc: "\<forall>c \<in> set (take m (spread (candidates now n R))). md_local (ch_model c)" for m
    using candidates_local [OF assms(1)] set_take_subset set_spread by (metis subsetD)
  have why: "why_unavailable (swap_router g R) = why_unavailable R"
    by (simp add: why_unavailable_def comp_def)
  have filt: "filter (provider_usable now (swap_router g R)) (map (swap_cloud g) ps) =
      map (swap_cloud g) (filter (provider_usable now R) ps)"
    "filter (\<lambda>p. \<not> provider_usable now (swap_router g R) p) (map (swap_cloud g) ps) =
      map (swap_cloud g) (filter (\<lambda>p. \<not> provider_usable now R p) ps)" for ps
    by (induction ps) simp_all
  have sentence: "no_model_sentence now (swap_router g R) = no_model_sentence now R"
    by (simp add: no_model_sentence_def filt split: list.splits)
  have budget: "attempt_budget k (map (swap_choice g) r) = attempt_budget k r" for r
    by (simp add: attempt_budget_def image_image)
  show ?thesis
    using assms(2)
    by (auto simp: complete_need_def swap_candidates swap_spread take_map budget why sentence swap_try [OF loc]
        Let_def split: prod.splits call_end.splits)
qed

text \<open>A provider that failed in real work is not a candidate again until what the failure
  said has passed: while \<open>usable_again\<close> does not hold, no choice of any later ranking is of it.\<close>

theorem failed_provider_is_not_asked:
  assumes "mr_health R = Some m" and "note_call_failure now c e (R, b) = (R', b')"
    and "\<not> usable_again e now t"
  shows "\<forall>d \<in> set (candidates t n R'). vendor d \<noteq> vendor c"
proof -
  obtain m' where m': "mr_health R' = Some m'" and "\<not> hm_usable m' t (vendor c)"
    using assms usable_after_failure [of now "vendor c" e "(m, _)" t "vendor c"]
    by (auto simp: note_call_failure_def Let_def case_prod_beta split: if_splits)
  then show ?thesis
    by (auto simp: candidates_def offered_def provider_usable_def score_model_def Let_def split: if_splits)
qed

subsection \<open>Witnesses\<close>

definition wit_model :: "string \<Rightarrow> bool \<Rightarrow> rat \<Rightarrow> model_spec" where
  "wit_model name loc q =
     \<lparr>md_name = name, md_provider = name, md_jobs = {JOB_CHAT}, md_capabilities = {}, md_quality = q, md_speed = 0,
      md_input_cost = 0, md_output_cost = 0, md_context = 8, md_local = loc, md_stub = False\<rparr>"

definition wit_done :: completion where
  "wit_done = \<lparr>cm_text = ''hi'', cm_model = ''b'', cm_provider = ''b'', cm_tool_calls = [],
     cm_usage = \<lparr>us_input = 1, us_output = 2, us_cost = 3\<rparr>, cm_finish = ''stop'', cm_stub = False\<rparr>"

definition wit_error :: exn where
  "wit_error = Garis (execution_error ProviderError ''401'' None True None 401)"

definition wit_provider :: "string \<Rightarrow> bool \<Rightarrow> rat \<Rightarrow> exn + completion \<Rightarrow> provider" where
  "wit_provider name loc q a =
     \<lparr>pv_name = name, pv_models = [wit_model name loc q], pv_available = True, pv_complete = (\<lambda>i m call. a)\<rparr>"

definition wit_router :: router where
  "wit_router =
     new_router [wit_provider ''a'' False 1 (Inl wit_error), wit_provider ''b'' True 0 (Inr wit_done)]
       \<lparr>mc_privacy = ''balanced'', mc_allow_cloud = True, mc_monthly_budget = 0\<rparr> False
       (Some \<lparr>hm_states = [], hm_ttl = 3600, hm_bus = False\<rparr>)"

definition wit_call :: model_call where
  "wit_call = \<lparr>mk_messages = [], mk_tools = [], mk_temperature = 0, mk_max_tokens = 5, mk_json_mode = False, mk_timeout = 9\<rparr>"

lemmas wit_router_simps =
  wit_router_def new_router_def wit_provider_def wit_model_def candidates_def offered_def provider_usable_def
  hm_usable_def health_status_def provider_health_new_def usable_at_def eligible_def supports_def over_budget_def
  need_for_def score_model_def rank_key_def profile_of_def PROFILES_def mk_weights_def QUALITY_CRITICAL_def
  COST_CEILING_def Let_def

lemma wit_candidates:
  "candidates 0 (need_for JOB_CHAT) wit_router =
     [score_model (profile_of (mr_config wit_router) (need_for JOB_CHAT)) (wit_provider ''a'' False 1 (Inl wit_error)) (wit_model ''a'' False 1),
      score_model (profile_of (mr_config wit_router) (need_for JOB_CHAT)) (wit_provider ''b'' True 0 (Inr wit_done)) (wit_model ''b'' True 0)]"
  by (simp add: wit_router_simps less_eq_prod_def)

lemma failed_provider_is_not_asked_witness:
  "\<exists>R'. \<forall>d \<in> set (candidates 50 (need_for JOB_CHAT) R'). vendor d \<noteq> ''a''"
proof -
  obtain R' b' where n: "note_call_failure 0 (hd (candidates 0 (need_for JOB_CHAT) wit_router)) wit_error (wit_router, new_bus 1) = (R', b')"
    by (metis surj_pair)
  have "\<forall>d \<in> set (candidates 50 (need_for JOB_CHAT) R'). vendor d \<noteq> vendor (hd (candidates 0 (need_for JOB_CHAT) wit_router))"
    by (rule failed_provider_is_not_asked [OF _ n])
      (simp_all add: wit_router_def new_router_def usable_again_def wit_error_def is_subclass_def)
  then show ?thesis by (auto simp: wit_candidates score_model_def wit_provider_def Let_def)
qed

lemma complete_is_the_first_answer_witness:
  "\<exists>R' b'. complete_need (\<lambda>i. 0) 0 (need_for JOB_CHAT) wit_call 3 (wit_router, new_bus 1) = (Inr wit_done, R', b') \<and> mr_spend R' = 3"
proof -
  obtain result R' b' where c: "complete_need (\<lambda>i. 0) 0 (need_for JOB_CHAT) wit_call 3 (wit_router, new_bus 1) = (result, R', b')"
    by (metis prod_cases3)
  let ?r = "candidates 0 (need_for JOB_CHAT) wit_router"
  have r: "spread ?r = ?r" "attempt_budget 3 ?r = 3"
    by (simp_all add: wit_candidates spread_def by_provider_def group_in_def rounds.simps score_model_def
        wit_provider_def attempt_budget_def Let_def)
  have "answers_from (mr_calls wit_router) wit_call (take (attempt_budget 3 ?r) (spread ?r)) = [Inl wit_error, Inr wit_done]"
    unfolding r by (simp add: wit_candidates answers_from_def ask_choice_def score_model_def wit_provider_def Let_def)
  with complete_is_the_first_answer [OF c refl] have "result = Inr wit_done \<and> mr_spend R' = mr_spend wit_router + spend_of result"
    by (simp add: wit_candidates settled_answer_def wit_error_def)
  with c show ?thesis by (simp add: wit_router_def new_router_def spend_of_def wit_done_def)
qed

lemma private_work_stays_local_witness:
  "\<exists>result R' b'. complete_need (\<lambda>i. 0) 0 ((need_for JOB_CHAT)\<lparr>nd_privacy := LOCAL_ONLY\<rparr>) wit_call 3
      (swap_router (\<lambda>i m call. Inl Cancellation) wit_router, new_bus 1) =
    (result, swap_router (\<lambda>i m call. Inl Cancellation) R', b')"
proof -
  obtain result R' b' where c: "complete_need (\<lambda>i. 0) 0 ((need_for JOB_CHAT)\<lparr>nd_privacy := LOCAL_ONLY\<rparr>) wit_call 3
      (wit_router, new_bus 1) = (result, R', b')"
    by (metis prod_cases3)
  show ?thesis using private_work_stays_local [OF _ c] by auto
qed

end
