(* ===== verification/Pool.thy ===== *)
theory Pool
  imports Router Vault
begin

section \<open>The live provider set (models/__init__.py, models/pool.py)\<close>

text \<open>
  Which providers exist follows from the configuration and the vault; the pool rebuilds them
  when either moves and forgets what was measured about those that changed. The adapters that
  talk to a vendor (models/providers) are the parameter \<open>adapter\<close>, which builds one from its name,
  key and address; the digest of a configuration is the parameter \<open>digest\<close> (SHA-256 cut to 16
  digits). Reading the vault counts uses, so the vault is threaded through.
\<close>

subsection \<open>Configured providers\<close>

record provider_config =
  pc_enabled :: bool
  pc_key_ref :: string
  pc_base_url :: string
  pc_monthly_budget :: rat

definition PROVIDER_ALIASES :: "(string \<times> string) list" where
  "PROVIDER_ALIASES =
     [(''claude'', ''anthropic''), (''chatgpt'', ''openai''), (''gpt'', ''openai''), (''google'', ''gemini''),
      (''local'', ''ollama'')]"

definition resolve_provider_name :: "string \<Rightarrow> string" where
  "resolve_provider_name name =
     (let cleaned = lower (strip name)
      in case map_of PROVIDER_ALIASES cleaned of Some n \<Rightarrow> n | None \<Rightarrow> cleaned)"

definition keyed_config :: "string \<Rightarrow> provider_config" where
  "keyed_config ref = \<lparr>pc_enabled = True, pc_key_ref = ref, pc_base_url = [], pc_monthly_budget = 0\<rparr>"

definition default_provider_config :: "(string \<times> provider_config) list" where
  "default_provider_config =
     [(''openai'', keyed_config ''vault://openai_api_key''),
      (''anthropic'', keyed_config ''vault://anthropic_api_key''),
      (''gemini'', keyed_config ''vault://gemini_api_key'')]"

definition configured :: "(string \<times> provider_config) list \<Rightarrow> (string \<times> provider_config) list" where
  "configured ps = (if ps \<noteq> [] then ps else default_provider_config)"

definition CLOUD_BUILDERS :: "string list" where
  "CLOUD_BUILDERS = [''openai'', ''anthropic'', ''gemini'']"

definition resolve_key ::
  "unseal \<Rightarrow> instant \<Rightarrow> provider_config \<Rightarrow> vault option \<Rightarrow> (exn + string option) \<times> vault option" where
  "resolve_key unseal now s v =
     (let ref = pc_key_ref s in
      if ref = [] then (Inr None, v)
      else if \<not> prefix REF_PREFIX ref then (Inr (Some ref), v)
      else case v of
          None \<Rightarrow> (Inr None, None)
        | Some vt \<Rightarrow> (let (r, vt') = vault_get_optional unseal now (ref_name ref) vt in (r, Some vt')))"

fun build_providers ::
  "(string \<Rightarrow> string \<Rightarrow> string \<Rightarrow> provider) \<Rightarrow> unseal \<Rightarrow> instant \<Rightarrow> (string \<times> provider_config) list \<Rightarrow>
   provider option \<Rightarrow> vault option \<Rightarrow> (exn + provider list) \<times> vault option" where
  "build_providers adapter unseal now [] fake v = (Inr (case fake of None \<Rightarrow> [] | Some p \<Rightarrow> [p]), v)"
| "build_providers adapter unseal now ((raw, s) # rest) fake v =
     (let name = resolve_provider_name raw;
          later = build_providers adapter unseal now rest fake;
          with_one = (\<lambda>p v. let (r, v') = later v in (map_sum id (\<lambda>ps. p # ps) r, v'))
      in if \<not> pc_enabled s then later v
         else if name = ''ollama'' then with_one (adapter name [] (pc_base_url s)) v
         else if name \<notin> set CLOUD_BUILDERS then later v
         else case resolve_key unseal now s v of
             (Inl e, v1) \<Rightarrow> (Inl e, v1)
           | (Inr key, v1) \<Rightarrow>
               (case key of
                  Some k \<Rightarrow> if k = [] then later v1 else with_one (adapter name k (pc_base_url s)) v1
                | None \<Rightarrow> later v1))"

subsection \<open>Signatures\<close>

definition signature_key ::
  "unseal \<Rightarrow> instant \<Rightarrow> provider_config \<Rightarrow> vault option \<Rightarrow> (exn + string) \<times> vault option" where
  "signature_key unseal now s v =
     (let ref = pc_key_ref s in
      case v of
        Some vt \<Rightarrow>
          if prefix REF_PREFIX ref then
            (let (r, vt') = vault_get_optional unseal now (ref_name ref) vt
             in (map_sum id (\<lambda>k. case k of None \<Rightarrow> [] | Some k \<Rightarrow> k) r, Some vt'))
          else (Inr ref, v)
      | None \<Rightarrow> (Inr ref, None))"

definition signature_material :: "provider_config \<Rightarrow> string \<Rightarrow> string" where
  "signature_material s key =
     (if pc_enabled s then ''True'' else ''False'') @ ''|'' @ pc_base_url s @ ''|'' @ key"

fun signatures_now ::
  "(string \<Rightarrow> string) \<Rightarrow> unseal \<Rightarrow> instant \<Rightarrow> (string \<times> provider_config) list \<Rightarrow> (string \<times> string) list \<Rightarrow>
   vault option \<Rightarrow> (exn + (string \<times> string) list) \<times> vault option" where
  "signatures_now digest unseal now [] acc v = (Inr acc, v)"
| "signatures_now digest unseal now ((raw, s) # rest) acc v =
     (case signature_key unseal now s v of
        (Inl e, v1) \<Rightarrow> (Inl e, v1)
      | (Inr key, v1) \<Rightarrow>
          signatures_now digest unseal now rest
            (dict_set (resolve_provider_name raw) (digest (signature_material s key)) acc) v1)"

subsection \<open>The pool\<close>

record pool =
  po_router :: router
  po_providers :: "(string \<times> provider_config) list"
  po_fake :: "provider option"
  po_bus :: bool
  po_signatures :: "(string \<times> string) list"

text \<open>The names whose measurements are dropped: changed, new, or gone.\<close>

definition moved_names :: "(string \<times> string) list \<Rightarrow> (string \<times> string) list \<Rightarrow> string list" where
  "moved_names old new =
     map fst (filter (\<lambda>(n, s). map_of old n \<noteq> Some s) new) @
     filter (\<lambda>n. n \<notin> fst ` set new) (map fst old)"

definition forget_names :: "string list \<Rightarrow> router \<Rightarrow> router" where
  "forget_names ns R =
     R\<lparr>mr_health := map_option (fold (\<lambda>n m. hm_forget (Some n) m) ns) (mr_health R)\<rparr>"

definition rebuild ::
  "(string \<Rightarrow> string) \<Rightarrow> (string \<Rightarrow> string \<Rightarrow> string \<Rightarrow> provider) \<Rightarrow> unseal \<Rightarrow> instant \<Rightarrow> string \<Rightarrow>
   pool \<times> vault option \<times> bus \<Rightarrow> (exn + unit) \<times> pool \<times> vault option \<times> bus" where
  "rebuild digest adapter unseal now reason w =
     (let (P, v, b) = w; settings = configured (po_providers P)
      in case signatures_now digest unseal now settings [] v of
          (Inl e, v1) \<Rightarrow> (Inl e, P, v1, b)
        | (Inr sigs, v1) \<Rightarrow>
            (let P1 = P\<lparr>po_router := forget_names (moved_names (po_signatures P) sigs) (po_router P),
                        po_signatures := sigs\<rparr>
             in case build_providers adapter unseal now settings (po_fake P) v1 of
                 (Inl e, v2) \<Rightarrow> (Inl e, P1, v2, b)
               | (Inr ps, v2) \<Rightarrow>
                   (Inr (), P1\<lparr>po_router := replace_providers ps (po_router P1)\<rparr>, v2,
                    if po_bus P then emit now ''models.reloaded''
                      [(''reason'', EvVal (PStr reason)), (''providers'', EvVal (PList (map (PStr \<circ> pv_name) ps)))] b
                    else b)))"

text \<open>After a rebuild the providers are probed, which may change their models, and checked.\<close>

definition probe_all :: "(provider \<Rightarrow> provider) \<Rightarrow> pool \<Rightarrow> pool" where
  "probe_all probe P = P\<lparr>po_router := (po_router P)\<lparr>mr_providers := map probe (mr_providers (po_router P))\<rparr>\<rparr>"

definition refresh ::
  "(provider \<Rightarrow> probed) \<Rightarrow> bool \<Rightarrow> instant \<Rightarrow> (nat \<times> instant \<times> (exn + http_response)) list \<Rightarrow>
   pool \<times> bus \<Rightarrow> provider_health list option \<times> pool \<times> bus" where
  "refresh view force now later Pb =
     (let (P, b) = Pb; ps = mr_providers (po_router P)
      in case mr_health (po_router P) of
          None \<Rightarrow> (None, P, b)
        | Some m \<Rightarrow>
            (let (res, m', b') = check_all force now (map view ps) later (m, b)
             in (map_option (\<lambda>d. List.map_filter (\<lambda>p. map_of d (pv_name p)) ps) res,
                 P\<lparr>po_router := (po_router P)\<lparr>mr_health := Some m'\<rparr>\<rparr>, b')))"

definition referenced_secrets :: "(string \<times> provider_config) list \<Rightarrow> string set" where
  "referenced_secrets ps =
     set (map (\<lambda>(n, s). ref_name (pc_key_ref s)) (filter (\<lambda>(n, s). prefix REF_PREFIX (pc_key_ref s)) (configured ps)))"

definition concerns_models :: "pool \<Rightarrow> string \<Rightarrow> pydict \<Rightarrow> bool" where
  "concerns_models P topic body =
     (if topic = topic_name VAULT_CHANGED then
        (let name = (case map_of body ''name'' of None \<Rightarrow> [] | Some v \<Rightarrow> py_str v)
         in name = [] \<or> name \<in> referenced_secrets (po_providers P))
      else (case dget body ''paths'' of
          PList xs \<Rightarrow> list_ex (\<lambda>x. prefix ''models'' (py_str x)) xs
        | _ \<Rightarrow> False))"

subsection \<open>What a rebuild keeps and what it forgets\<close>

lemma forget_status:
  "health_status (hm_forget (Some n) m) k = (if k = n then provider_health_new k UNKNOWN else health_status m k)"
  by (simp add: hm_forget_def health_status_def)

lemma forget_fold_status:
  "health_status (fold (\<lambda>n m. hm_forget (Some n) m) ns m) k =
     (if k \<in> set ns then provider_health_new k UNKNOWN else health_status m k)"
  by (induction ns arbitrary: m) (auto simp: forget_status)

lemma signatures_now_ok: "dict_ok acc \<Longrightarrow> signatures_now digest unseal now ss acc v = (Inr sigs, v') \<Longrightarrow> dict_ok sigs"
  by (induction digest unseal now ss acc v rule: signatures_now.induct) (auto split: prod.splits sum.splits)

lemma moved_iff:
  assumes "dict_ok old" and "dict_ok new"
  shows "n \<in> set (moved_names old new) \<longleftrightarrow> map_of old n \<noteq> map_of new n"
proof -
  have get: "(n, s) \<in> set d \<longleftrightarrow> map_of d n = Some s" if "dict_ok d" for d :: "(string \<times> string) list" and s
    using that by (metis dict_ok_def map_of_eq_Some_iff)
  have mem: "n \<in> fst ` set d \<longleftrightarrow> map_of d n \<noteq> None" for d :: "(string \<times> string) list"
    by (simp add: map_of_eq_None_iff)
  have "n \<in> set (moved_names old new) \<longleftrightarrow>
      (\<exists>s. (n, s) \<in> set new \<and> map_of old n \<noteq> Some s) \<or> n \<in> fst ` set old \<and> n \<notin> fst ` set new"
    by (auto simp: moved_names_def image_iff)
  also have "\<dots> \<longleftrightarrow> map_of old n \<noteq> map_of new n"
    unfolding get [OF assms(2)] mem by (cases "map_of new n"; cases "map_of old n") auto
  finally show ?thesis .
qed

lemma built_have_keys:
  assumes "build_providers adapter unseal now ss fake v = (Inr ps, v')" and "p \<in> set ps"
  shows "fake = Some p \<or> (\<exists>raw s key. (raw, s) \<in> set ss \<and> pc_enabled s \<and>
      p = adapter (resolve_provider_name raw) key (pc_base_url s) \<and>
      (resolve_provider_name raw = ''ollama'' \<or> resolve_provider_name raw \<in> set CLOUD_BUILDERS \<and> key \<noteq> []))"
  using assms
proof (induction adapter unseal now ss fake v arbitrary: ps v' rule: build_providers.induct)
  case (1 adapter unseal now fake v)
  then show ?case by (auto split: option.splits)
next
  case (2 adapter unseal now raw s rest fake v)
  let ?n = "resolve_provider_name raw"
  let ?goal = "\<lambda>ss. fake = Some p \<or> (\<exists>raw s key. (raw, s) \<in> set ss \<and> pc_enabled s \<and>
      p = adapter (resolve_provider_name raw) key (pc_base_url s) \<and>
      (resolve_provider_name raw = ''ollama'' \<or> resolve_provider_name raw \<in> set CLOUD_BUILDERS \<and> key \<noteq> []))"
  have later: "?goal rest" if "build_providers adapter unseal now rest fake u = (Inr qs, u')" "p \<in> set qs" for u qs u'
    using 2 that by blast
  have "?goal rest \<or> pc_enabled s \<and> (\<exists>key. p = adapter ?n key (pc_base_url s) \<and>
      (?n = ''ollama'' \<or> ?n \<in> set CLOUD_BUILDERS \<and> key \<noteq> []))"
    using "2.prems" later
    by (auto simp: Let_def map_sum_Inr_iff split: if_splits prod.splits sum.splits option.splits)
  then show ?case by auto
qed

text \<open>A rebuild forgets the measured health of exactly the providers whose configuration moved,
  keeps that of all the others and the spending, and leaves a provider set in which every
  provider is enabled and, unless it is local or the test double, has a key.\<close>

theorem rebuild_forgets_exactly_what_moved:
  assumes "rebuild digest adapter unseal now reason (P, v, b) = (Inr (), P', v', b')"
    and "dict_ok (po_signatures P)" and "mr_health (po_router P) = Some m"
  shows "(\<exists>m'. mr_health (po_router P') = Some m' \<and>
      (\<forall>n. health_status m' n =
         (if map_of (po_signatures P') n = map_of (po_signatures P) n then health_status m n
          else provider_health_new n UNKNOWN))) \<and>
    dict_ok (po_signatures P') \<and> mr_spend (po_router P') = mr_spend (po_router P) \<and>
    (\<forall>p \<in> set (mr_providers (po_router P')). po_fake P = Some p \<or>
      (\<exists>raw s key. (raw, s) \<in> set (configured (po_providers P)) \<and> pc_enabled s \<and>
         p = adapter (resolve_provider_name raw) key (pc_base_url s) \<and>
         (resolve_provider_name raw = ''ollama'' \<or> resolve_provider_name raw \<in> set CLOUD_BUILDERS \<and> key \<noteq> [])))"
proof -
  let ?ss = "configured (po_providers P)"
  obtain sigs v1 where sigs: "signatures_now digest unseal now ?ss [] v = (Inr sigs, v1)"
    using assms(1) by (auto simp: rebuild_def Let_def split: prod.splits sum.splits)
  obtain ps where ps: "build_providers adapter unseal now ?ss (po_fake P) v1 = (Inr ps, v')"
    and P': "P' = P\<lparr>po_router := replace_providers ps (forget_names (moved_names (po_signatures P) sigs) (po_router P)),
      po_signatures := sigs\<rparr>"
    using assms(1) sigs by (auto simp: rebuild_def Let_def split: prod.splits sum.splits)
  have ok: "dict_ok sigs" by (rule signatures_now_ok [OF dict_ok_Nil sigs])
  let ?m = "fold (\<lambda>n m. hm_forget (Some n) m) (moved_names (po_signatures P) sigs) m"
  have "health_status ?m n = (if map_of sigs n = map_of (po_signatures P) n then health_status m n
      else provider_health_new n UNKNOWN)" for n
    by (auto simp: forget_fold_status moved_iff [OF assms(2) ok])
  moreover have "mr_health (po_router P') = Some ?m"
    using assms(3) by (simp add: P' replace_providers_def forget_names_def)
  ultimately show ?thesis
    using ok built_have_keys [OF ps] by (auto simp: P' replace_providers_def forget_names_def)
qed

definition wit_pool :: pool where
  "wit_pool = \<lparr>po_router = wit_router, po_providers = [('' GPT '', keyed_config ''sk'')], po_fake = None, po_bus = True,
     po_signatures = [(''gemini'', ''old'')]\<rparr>"

lemma rebuild_forgets_exactly_what_moved_witness:
  "\<exists>P' b' m'. rebuild id (\<lambda>n k u. wit_provider n False 1 (Inr wit_done)) (\<lambda>a b c d. None) 5 ''test'' (wit_pool, None, new_bus 9) =
      (Inr (), P', None, b') \<and> po_signatures P' = [(''openai'', ''True||sk'')] \<and>
    mr_health (po_router P') = Some m' \<and> health_status m' ''gemini'' = provider_health_new ''gemini'' UNKNOWN"
proof -
  have name: "resolve_provider_name '' GPT '' = ''openai''"
    by code_simp
  have pre: "\<not> prefix REF_PREFIX ''sk''" by (simp add: REF_PREFIX_def)
  obtain P' b' where r: "rebuild id (\<lambda>n k u. wit_provider n False 1 (Inr wit_done)) (\<lambda>a b c d. None) 5 ''test'' (wit_pool, None, new_bus 9) =
      (Inr (), P', None, b')" and s: "po_signatures P' = [(''openai'', ''True||sk'')]"
    by (simp add: rebuild_def wit_pool_def configured_def keyed_config_def signature_key_def signature_material_def
        name pre resolve_key_def CLOUD_BUILDERS_def Let_def)
  have h: "mr_health (po_router wit_pool) = Some \<lparr>hm_states = [], hm_ttl = 3600, hm_bus = False\<rparr>"
    by (simp add: wit_pool_def wit_router_def new_router_def)
  have "dict_ok (po_signatures wit_pool)" by (simp add: wit_pool_def dict_ok_def)
  from rebuild_forgets_exactly_what_moved [OF r this h] s r show ?thesis
    by (auto simp: wit_pool_def)
qed

end
