(* ===== verification/Json.thy ===== *)
theory Json
  imports Actions
begin

section \<open>JSON text (json.dumps, json.loads)\<close>

text \<open>
  What the source uses of Python's \<open>json\<close> module: the compact writer is \<open>json_text\<close> of the
  prelude (\<open>ensure_ascii=False\<close>), this theory adds the reader. A text is its UTF-8 bytes. A number with a
  fraction or an exponent becomes a float: \<open>fl\<close> maps its text to the value with its \<open>repr\<close>.
  \<open>None\<close> is \<open>JSONDecodeError\<close>. The recursion of the reader is bounded by a fuel that the length of the
  text supplies; \<open>parse_value_enough\<close> shows that more fuel changes nothing, and
  \<open>json_loads_of_text\<close> that reading back what was written gives the value.
\<close>

subsection \<open>Strings\<close>

definition hex_digit :: "char \<Rightarrow> nat option" where
  "hex_digit c =
     (let n = byte_of c in
      if 48 \<le> n \<and> n \<le> 57 then Some (n - 48)
      else if 97 \<le> n \<and> n \<le> 102 then Some (n - 87)
      else if 65 \<le> n \<and> n \<le> 70 then Some (n - 55)
      else None)"

fun hex4 :: "string \<Rightarrow> nat option" where
  "hex4 (a # b # c # d # r) =
     (case (hex_digit a, hex_digit b, hex_digit c, hex_digit d) of
        (Some p, Some q, Some s, Some t) \<Rightarrow> Some (((p * 16 + q) * 16 + s) * 16 + t)
      | _ \<Rightarrow> None)"
| "hex4 _ = None"

text \<open>The UTF-8 bytes of a code point; a lone surrogate is kept as its three bytes.\<close>

definition utf8 :: "nat \<Rightarrow> string" where
  "utf8 u =
     (if u < 128 then [char_of u]
      else if u < 2048 then [char_of (192 + u div 64), char_of (128 + u mod 64)]
      else if u < 65536 then [char_of (224 + u div 4096), char_of (128 + u div 64 mod 64), char_of (128 + u mod 64)]
      else [char_of (240 + u div 262144), char_of (128 + u div 4096 mod 64), char_of (128 + u div 64 mod 64), char_of (128 + u mod 64)])"

definition low_surrogate :: "string \<Rightarrow> nat option" where
  "low_surrogate s =
     (case s of
        b # u # r \<Rightarrow> if byte_of b = 92 \<and> u = CHR ''u'' then
            (case hex4 r of Some v \<Rightarrow> if 0xDC00 \<le> v \<and> v \<le> 0xDFFF then Some v else None | None \<Rightarrow> None)
          else None
      | _ \<Rightarrow> None)"

definition simple_escape :: "char \<Rightarrow> char option" where
  "simple_escape e =
     (if e = CHR 0x22 \<or> byte_of e = 92 \<or> e = CHR ''/'' then Some e
      else if e = CHR ''b'' then Some (char_of (8 :: nat))
      else if e = CHR ''f'' then Some (char_of (12 :: nat))
      else if e = CHR ''n'' then Some (char_of (10 :: nat))
      else if e = CHR ''r'' then Some (char_of (13 :: nat))
      else if e = CHR ''t'' then Some (char_of (9 :: nat))
      else None)"

text \<open>From behind the opening quote: the string and what follows its closing quote.\<close>

definition prepend :: "string \<Rightarrow> (string \<times> string) option \<Rightarrow> (string \<times> string) option" where
  "prepend t = map_option (\<lambda>(s, r). (t @ s, r))"

function scan_string :: "string \<Rightarrow> (string \<times> string) option" where
  "scan_string [] = None"
| "scan_string (c # cs) =
     (if c = CHR 0x22 then Some ([], cs)
      else if byte_of c = 92 then
        (case cs of
           [] \<Rightarrow> None
         | e # r \<Rightarrow>
             if e = CHR ''u'' then
               (case hex4 r of
                  None \<Rightarrow> None
                | Some u \<Rightarrow>
                    (case (if 0xD800 \<le> u \<and> u \<le> 0xDBFF then low_surrogate (drop 4 r) else None) of
                       Some v \<Rightarrow> prepend (utf8 (0x10000 + (u - 0xD800) * 1024 + (v - 0xDC00))) (scan_string (drop 10 r))
                     | None \<Rightarrow> prepend (utf8 u) (scan_string (drop 4 r))))
             else (case simple_escape e of None \<Rightarrow> None | Some x \<Rightarrow> prepend [x] (scan_string r)))
      else if byte_of c < 32 then None
      else prepend [c] (scan_string cs))"
  by pat_completeness auto
termination by (relation "measure length") auto

subsection \<open>Numbers and literals\<close>

definition lex_sign :: "string \<Rightarrow> string" where
  "lex_sign s = (if prefix ''-'' s then ''-'' else [])"

definition lex_int_part :: "string \<Rightarrow> string" where
  "lex_int_part s = (if prefix ''0'' s then ''0'' else takeWhile is_digit s)"

definition lex_frac :: "string \<Rightarrow> string" where
  "lex_frac s =
     (case s of
        [] \<Rightarrow> []
      | c # cs \<Rightarrow> if c = CHR ''.'' \<and> takeWhile is_digit cs \<noteq> [] then c # takeWhile is_digit cs else [])"

definition exp_sign :: "string \<Rightarrow> string" where
  "exp_sign s = (case s of [] \<Rightarrow> [] | d # _ \<Rightarrow> if d = CHR ''+'' \<or> d = CHR ''-'' then [d] else [])"

definition lex_exp :: "string \<Rightarrow> string" where
  "lex_exp s =
     (case s of
        [] \<Rightarrow> []
      | c # cs \<Rightarrow>
          if (c = CHR ''e'' \<or> c = CHR ''E'') \<and> takeWhile is_digit (drop (length (exp_sign cs)) cs) \<noteq> []
          then c # exp_sign cs @ takeWhile is_digit (drop (length (exp_sign cs)) cs) else [])"

definition lex_number :: "string \<Rightarrow> (string \<times> bool \<times> string) option" where
  "lex_number s =
     (let sg = lex_sign s;
          ds = lex_int_part (drop (length sg) s);
          s2 = drop (length ds) (drop (length sg) s);
          fr = lex_frac s2;
          s3 = drop (length fr) s2;
          ex = lex_exp s3
      in if ds = [] then None else Some (sg @ ds @ fr @ ex, fr @ ex \<noteq> [], drop (length ex) s3))"

definition word_then :: "string \<Rightarrow> pyval \<Rightarrow> string \<Rightarrow> (pyval \<times> string) option \<Rightarrow> (pyval \<times> string) option" where
  "word_then w v s other = (if prefix w s then Some (v, drop (length w) s) else other)"

definition parse_atom :: "(string \<Rightarrow> pyval) \<Rightarrow> string \<Rightarrow> (pyval \<times> string) option" where
  "parse_atom fl s =
     word_then ''null'' PNone s (word_then ''true'' (PBool True) s (word_then ''false'' (PBool False) s
       (word_then ''NaN'' (fl ''NaN'') s (word_then ''Infinity'' (fl ''Infinity'') s
         (word_then ''-Infinity'' (fl ''-Infinity'') s
           (case lex_number s of
              None \<Rightarrow> None
            | Some (t, float, r) \<Rightarrow> Some (if float then fl t else PInt (the (parse_int t)), r)))))))"

subsection \<open>Values\<close>

definition json_space :: "char \<Rightarrow> bool" where
  "json_space c = (byte_of c \<in> {9, 10, 13, 32})"

definition skip :: "string \<Rightarrow> string" where
  "skip s = dropWhile json_space s"

definition dict_of_pairs :: "pydict \<Rightarrow> pydict" where
  "dict_of_pairs ps = fold (\<lambda>(k, v) d. dict_set k v d) ps []"

fun parse_value :: "(string \<Rightarrow> pyval) \<Rightarrow> nat \<Rightarrow> string \<Rightarrow> (pyval \<times> string) option"
and parse_elems :: "(string \<Rightarrow> pyval) \<Rightarrow> nat \<Rightarrow> string \<Rightarrow> (pyval list \<times> string) option"
and parse_members :: "(string \<Rightarrow> pyval) \<Rightarrow> nat \<Rightarrow> string \<Rightarrow> (pydict \<times> string) option" where
  "parse_value fl 0 s = None"
| "parse_value fl (Suc n) s =
     (case skip s of
        [] \<Rightarrow> None
      | c # cs \<Rightarrow>
          if c = CHR 0x22 then map_option (\<lambda>(t, r). (PStr t, r)) (scan_string cs)
          else if c = CHR ''['' then
            (if prefix '']'' (skip cs) then Some (PList [], tl (skip cs))
             else map_option (\<lambda>(vs, r). (PList vs, r)) (parse_elems fl n cs))
          else if c = CHR ''{'' then
            (if prefix ''}'' (skip cs) then Some (PDict [], tl (skip cs))
             else map_option (\<lambda>(ms, r). (PDict (dict_of_pairs ms), r)) (parse_members fl n cs))
          else parse_atom fl (c # cs))"
| "parse_elems fl 0 s = None"
| "parse_elems fl (Suc n) s =
     (case parse_value fl n s of
        None \<Rightarrow> None
      | Some (v, r) \<Rightarrow>
          (case skip r of
             [] \<Rightarrow> None
           | c # r' \<Rightarrow>
               if c = CHR '','' then map_option (\<lambda>(vs, q). (v # vs, q)) (parse_elems fl n r')
               else if c = CHR '']'' then Some ([v], r')
               else None))"
| "parse_members fl 0 s = None"
| "parse_members fl (Suc n) s =
     (case skip s of
        [] \<Rightarrow> None
      | c # cs \<Rightarrow>
          if c \<noteq> CHR 0x22 then None
          else case scan_string cs of
              None \<Rightarrow> None
            | Some (k, r) \<Rightarrow>
                (case skip r of
                   [] \<Rightarrow> None
                 | d # r1 \<Rightarrow>
                     if d \<noteq> CHR '':'' then None
                     else case parse_value fl n r1 of
                         None \<Rightarrow> None
                       | Some (v, r2) \<Rightarrow>
                           (case skip r2 of
                              [] \<Rightarrow> None
                            | e # r3 \<Rightarrow>
                                if e = CHR '','' then map_option (\<lambda>(ms, q). ((k, v) # ms, q)) (parse_members fl n r3)
                                else if e = CHR ''}'' then Some ([(k, v)], r3)
                                else None)))"

definition json_loads :: "(string \<Rightarrow> pyval) \<Rightarrow> string \<Rightarrow> pyval option" where
  "json_loads fl s =
     (case parse_value fl (2 * length s + 1) s of
        None \<Rightarrow> None
      | Some (v, r) \<Rightarrow> if skip r = [] then Some v else None)"

subsection \<open>Reading strings back\<close>

lemma prepend_Some [simp]: "prepend t (Some (s, r)) = Some (t @ s, r)"
  by (simp add: prepend_def)

lemma hex_digit_char: "d < 16 \<Longrightarrow> hex_digit (hex_char d) = Some d"
  by (auto simp: hex_digit_def hex_char_def byte_of_def Let_def)

lemma char_codes: "char_of (34 :: nat) = CHR 0x22" "char_of (92 :: nat) \<noteq> CHR 0x22" "char_of (48 :: nat) = CHR ''0''"
  by code_simp+

lemma scan_json_char: "scan_string (json_char c @ t) = prepend [c] (scan_string t)"
proof -
  have low: "hex4 (CHR ''0'' # CHR ''0'' # hex_char (byte_of c div 16) # hex_char (byte_of c mod 16) # t) = Some (byte_of c)"
    if "byte_of c < 32"
    using that hex_digit_char [of "byte_of c div 16"] hex_digit_char [of "byte_of c mod 16"]
    by (simp add: hex_digit_def byte_of_def)
  have same: "byte_of c = n \<Longrightarrow> char_of n = c" for n by (auto simp: byte_of_def)
  consider "byte_of c = 34" | "byte_of c = 92" | "byte_of c = 10" | "byte_of c = 13" | "byte_of c = 9"
    | "byte_of c = 8" | "byte_of c = 12" | "byte_of c < 32" "byte_of c \<notin> {8, 9, 10, 12, 13}"
    | "32 \<le> byte_of c" "byte_of c \<notin> {34, 92}"
    by (cases "byte_of c < 32"; cases "byte_of c \<in> {8, 9, 10, 12, 13}"; cases "byte_of c \<in> {34, 92}") auto
  then show ?thesis
  proof cases
    case 8
    then show ?thesis using low same by (simp add: json_char_def byte_of_def utf8_def char_codes del: hex4.simps)
  next
    case 9
    then have "c \<noteq> CHR 0x22" by (auto simp: byte_of_def)
    with 9 show ?thesis by (simp add: json_char_def)
  qed (use same in \<open>auto simp: json_char_def simple_escape_def byte_of_def char_codes\<close>)
qed

lemma scan_quoted: "scan_string (concat (map json_char s) @ CHR 0x22 # rest) = Some (s, rest)"
  by (induction s) (simp_all add: scan_json_char)

subsection \<open>Reading numbers back\<close>

definition value_end :: "string \<Rightarrow> bool" where
  "value_end rest = (rest = [] \<or> hd rest \<in> {CHR '','', CHR '']'', CHR ''}'', CHR '' '', CHR 0x0A})"

lemma prefix_single [simp]: "prefix [c] s = (s \<noteq> [] \<and> hd s = c)"
  by (cases s) auto

lemma value_end_takeWhile: "value_end rest \<Longrightarrow> takeWhile is_digit (s @ rest) = takeWhile is_digit s"
proof (induction s)
  case Nil
  then show ?case by (cases rest) (auto simp: value_end_def is_digit_def byte_of_def)
next
  case (Cons c cs)
  then show ?case by simp
qed

lemma lex_sign_append: "s \<noteq> [] \<Longrightarrow> lex_sign (s @ rest) = lex_sign s"
  by (simp add: lex_sign_def)

lemma lex_int_part_append: "value_end rest \<Longrightarrow> s \<noteq> [] \<Longrightarrow> lex_int_part (s @ rest) = lex_int_part s"
  by (simp add: lex_int_part_def value_end_takeWhile)

lemma lex_frac_append: "value_end rest \<Longrightarrow> lex_frac (s @ rest) = lex_frac s"
  by (cases s) (auto simp: lex_frac_def value_end_takeWhile, auto simp: value_end_def split: list.splits)

lemma exp_sign_append: "value_end rest \<Longrightarrow> exp_sign (s @ rest) = exp_sign s"
  by (cases s) (auto simp: exp_sign_def value_end_def split: list.splits)

lemma exp_sign_length: "length (exp_sign s) \<le> length s"
  by (auto simp: exp_sign_def split: list.splits)

lemma lex_exp_append: "value_end rest \<Longrightarrow> lex_exp (s @ rest) = lex_exp s"
  by (cases s) (auto simp: lex_exp_def exp_sign_append exp_sign_length value_end_takeWhile,
    auto simp: value_end_def split: list.splits)

lemma lex_lengths: "length (lex_sign s) \<le> length s" "length (lex_int_part s) \<le> length s"
  "length (lex_frac s) \<le> length s" "length (lex_exp s) \<le> length s"
proof -
  have t: "length (takeWhile is_digit u) \<le> length u" for u by (rule length_takeWhile_le)
  show "length (lex_sign s) \<le> length s" by (cases s) (auto simp: lex_sign_def)
  show "length (lex_int_part s) \<le> length s" using t by (cases s) (auto simp: lex_int_part_def)
  show "length (lex_frac s) \<le> length s" using t by (auto simp: lex_frac_def split: list.splits)
  show "length (lex_exp s) \<le> length s"
  proof (cases s)
    case (Cons c cs)
    then show ?thesis
      using t [of "drop (length (exp_sign cs)) cs"] exp_sign_length [of cs] by (auto simp: lex_exp_def)
  qed (simp add: lex_exp_def)
qed

lemma lex_stable:
  assumes "lex_number t = Some (t', float, [])" and "value_end rest"
  shows "lex_number (t @ rest) = Some (t', float, rest)"
proof -
  define s1 where "s1 = drop (length (lex_sign t)) t"
  define s2 where "s2 = drop (length (lex_int_part s1)) s1"
  define s3 where "s3 = drop (length (lex_frac s2)) s2"
  have t: "lex_int_part s1 \<noteq> []" "t' = lex_sign t @ lex_int_part s1 @ lex_frac s2 @ lex_exp s3"
    "float = (lex_frac s2 @ lex_exp s3 \<noteq> [])" "drop (length (lex_exp s3)) s3 = []"
    using assms(1) unfolding lex_number_def Let_def s1_def [symmetric] s2_def [symmetric] s3_def [symmetric]
    by (simp_all split: if_splits)
  have ne: "s1 \<noteq> []" "t \<noteq> []" using t(1) s1_def by (auto simp: lex_int_part_def)
  have "drop (length (lex_sign (t @ rest))) (t @ rest) = s1 @ rest"
    using lex_lengths(1) [of t] by (simp add: lex_sign_append [OF ne(2)] s1_def)
  moreover have "drop (length (lex_int_part (s1 @ rest))) (s1 @ rest) = s2 @ rest"
    using lex_lengths(2) [of s1] by (simp add: lex_int_part_append [OF assms(2) ne(1)] s2_def)
  moreover have "drop (length (lex_frac (s2 @ rest))) (s2 @ rest) = s3 @ rest"
    using lex_lengths(3) [of s2] by (simp add: lex_frac_append [OF assms(2)] s3_def)
  moreover have "drop (length (lex_exp (s3 @ rest))) (s3 @ rest) = rest"
    using lex_lengths(4) [of s3] t(4) by (simp add: lex_exp_append [OF assms(2)])
  ultimately show ?thesis
    unfolding lex_number_def Let_def using t(1)
    by (simp add: lex_sign_append [OF ne(2)] lex_int_part_append [OF assms(2) ne(1)] lex_frac_append [OF assms(2)]
        lex_exp_append [OF assms(2)] t(2,3))
qed

lemma lex_not_word:
  assumes "lex_number s \<noteq> None"
  shows "parse_atom fl s = (case lex_number s of None \<Rightarrow> None
    | Some (t, float, r) \<Rightarrow> Some (if float then fl t else PInt (the (parse_int t)), r))"
proof -
  have "\<not> prefix w s" if "w \<in> {''null'', ''true'', ''false'', ''NaN'', ''Infinity'', ''-Infinity''}" for w
  proof
    assume "prefix w s"
    then obtain r where "s = w @ r" by (auto simp: prefix_def)
    with that have "lex_int_part (drop (length (lex_sign s)) s) = []"
      by (elim insertE emptyE) (simp_all add: lex_sign_def lex_int_part_def is_digit_def byte_of_def)
    then have "lex_number s = None" by (simp add: lex_number_def Let_def)
    with assms show False by simp
  qed
  then show ?thesis by (simp add: parse_atom_def word_then_def)
qed

lemma nat_str_head: "0 < n \<Longrightarrow> hd (nat_str n) \<noteq> CHR ''0''"
proof (induction n rule: nat_str.induct)
  case (1 n)
  have ne: "nat_str k \<noteq> []" for k by (subst nat_str.simps) simp
  have "digit_char n \<noteq> CHR ''0''" if "n < 10" using that "1.prems"
    by (auto simp: digit_char_def dest!: arg_cong [where f = "of_char :: char \<Rightarrow> nat"])
  with 1 ne show ?case by (subst nat_str.simps) (auto simp: hd_append)
qed

lemma nat_str_all_digits: "takeWhile is_digit (nat_str n) = nat_str n" "nat_str n \<noteq> []"
  using nat_str_digits [of n] by (auto simp: takeWhile_eq_all_conv is_digit_def) (subst (asm) nat_str.simps, simp split: if_splits)

lemma lex_int_part_nat: "lex_int_part (nat_str n) = nat_str n"
proof (cases "n = 0")
  case True
  then show ?thesis by (subst (1 2) nat_str.simps) (simp add: lex_int_part_def digit_char_def char_codes)
next
  case False
  with nat_str_head [of n] show ?thesis by (simp add: lex_int_part_def nat_str_all_digits)
qed

lemma nat_str_no_minus: "hd (nat_str n) \<noteq> CHR ''-''"
  using nat_str_digits [of n] nat_str_all_digits(2) [of n] by (cases "nat_str n") (auto simp: byte_of_def)

lemma lex_int: "lex_number (int_str i) = Some (int_str i, False, [])"
  using nat_str_no_minus nat_str_all_digits(2)
  by (auto simp: lex_number_def int_str_def lex_sign_def lex_int_part_nat lex_frac_def lex_exp_def Let_def)

lemma is_digit_digit_char: "d < 10 \<Longrightarrow> is_digit (digit_char d) \<and> byte_of (digit_char d) = 48 + d"
  by (simp add: is_digit_def digit_char_def byte_of_def)

lemma digits_value_nat_str: "digits_value k (nat_str n @ ys) = digits_value (k * 10 ^ length (nat_str n) + n) ys"
proof (induction n arbitrary: k ys rule: nat_str.induct)
  case (1 n)
  show ?case
  proof (cases "n < 10")
    case True
    then have "nat_str n = [digit_char n]" by (subst nat_str.simps) simp
    with True show ?thesis by (simp add: is_digit_digit_char algebra_simps)
  next
    case False
    then have n: "nat_str n = nat_str (n div 10) @ [digit_char (n mod 10)]" by (subst nat_str.simps) simp
    have "digits_value k (nat_str n @ ys) =
        digits_value (10 * (k * 10 ^ length (nat_str (n div 10)) + n div 10) + n mod 10) ys"
      using 1 [OF False, of k] by (simp add: n is_digit_digit_char)
    also have "10 * (k * 10 ^ length (nat_str (n div 10)) + n div 10) + n mod 10 = k * 10 ^ length (nat_str n) + n"
      by (simp add: n add_mult_distrib2)
    finally show ?thesis .
  qed
qed

lemma strip_clean: "\<forall>c \<in> set s. \<not> is_space c \<Longrightarrow> strip s = s"
proof -
  assume s: "\<forall>c \<in> set s. \<not> is_space c"
  have "dropWhile is_space u = u" if "\<forall>c \<in> set u. \<not> is_space c" for u using that by (cases u) auto
  from this [of s] this [of "rev s"] s show ?thesis by (simp add: strip_def strip_by_def)
qed

lemma parse_int_str: "parse_int (int_str i) = Some i"
proof -
  have "\<forall>c \<in> set (int_str i). \<not> is_space c"
    using nat_str_digits [of "nat i"] nat_str_digits [of "nat (- i)"]
    by (auto simp: int_str_def is_space_def byte_of_def)
  then have "strip (int_str i) = int_str i" by (rule strip_clean)
  moreover obtain c cs where c: "nat_str (nat \<bar>i\<bar>) = c # cs" using nat_str_all_digits(2) by (meson list.exhaust)
  moreover have "is_digit c" using nat_str_digits [of "nat \<bar>i\<bar>"] c by (simp add: is_digit_def)
  moreover have "c \<noteq> CHR ''-''" "c \<noteq> CHR ''+''" using \<open>is_digit c\<close> by (auto simp: is_digit_def byte_of_def)
  moreover have "digits_value 0 (c # cs) = Some (nat \<bar>i\<bar>)" using digits_value_nat_str [of 0 "nat \<bar>i\<bar>" "[]"] c by simp
  ultimately show ?thesis by (auto simp: parse_int_def int_str_def Let_def)
qed

subsection \<open>Reading values back\<close>

fun json_ok :: "(string \<Rightarrow> pyval) \<Rightarrow> pyval \<Rightarrow> bool" where
  "json_ok fl (PFloat r t) = (lex_number t = Some (t, True, []) \<and> fl t = PFloat r t)"
| "json_ok fl (PObj t r) = False"
| "json_ok fl (PList xs) = list_all (json_ok fl) xs"
| "json_ok fl (PDict d) = (dict_ok d \<and> list_all (\<lambda>(k, v). json_ok fl v) d)"
| "json_ok fl _ = True"

lemma skip_clean: "\<not> json_space c \<Longrightarrow> skip (c # cs) = c # cs"
  by (simp add: skip_def)

lemma skip_ws: "list_all json_space w \<Longrightarrow> skip (w @ s) = skip s"
  by (induction w) (simp_all add: skip_def)

lemma parse_ws:
  assumes "list_all json_space w"
  shows "parse_value fl n (w @ s) = parse_value fl n s" "parse_elems fl n (w @ s) = parse_elems fl n s"
    "parse_members fl n (w @ s) = parse_members fl n s"
proof -
  show v: "parse_value fl n (w @ s) = parse_value fl n s" for n by (cases n) (simp_all add: skip_ws [OF assms])
  show "parse_elems fl n (w @ s) = parse_elems fl n s" by (cases n) (simp_all add: v)
  show "parse_members fl n (w @ s) = parse_members fl n s" by (cases n) (simp_all add: skip_ws [OF assms])
qed

lemma lex_start:
  assumes "lex_number s = Some x"
  obtains c cs where "s = c # cs" "is_digit c \<or> c = CHR ''-''"
proof (cases s)
  case Nil
  with assms that show ?thesis by (simp add: lex_number_def lex_sign_def lex_int_part_def Let_def)
next
  case (Cons c cs)
  have "is_digit c \<or> c = CHR ''-''"
  proof (rule ccontr)
    assume "\<not> (is_digit c \<or> c = CHR ''-'')"
    then have "lex_int_part (drop (length (lex_sign s)) s) = []"
      by (auto simp: Cons lex_sign_def lex_int_part_def is_digit_def byte_of_def)
    with assms show False by (simp add: lex_number_def Let_def)
  qed
  with Cons that show ?thesis by blast
qed

lemma parse_number:
  assumes "lex_number t = Some (t, float, [])" and "value_end rest"
  shows "parse_value fl (Suc n) (t @ rest) = Some (if float then fl t else PInt (the (parse_int t)), rest)"
proof -
  have lex: "lex_number (t @ rest) = Some (t, float, rest)" using assms by (rule lex_stable)
  obtain c cs where c: "t @ rest = c # cs" "is_digit c \<or> c = CHR ''-''" using lex_start [OF lex] by metis
  then have k: "\<not> json_space c" "c \<noteq> CHR 0x22" "c \<noteq> CHR ''[''" "c \<noteq> CHR ''{''"
    by (auto simp: is_digit_def json_space_def byte_of_def)
  then have "parse_value fl (Suc n) (c # cs) = parse_atom fl (c # cs)" by (simp add: skip_clean)
  with lex show ?thesis by (simp add: c(1) [symmetric] lex_not_word)
qed

lemma parse_word:
  "parse_value fl (Suc n) (''null'' @ rest) = Some (PNone, rest)"
  "parse_value fl (Suc n) (''true'' @ rest) = Some (PBool True, rest)"
  "parse_value fl (Suc n) (''false'' @ rest) = Some (PBool False, rest)"
  by (simp_all add: skip_clean json_space_def byte_of_def parse_atom_def word_then_def)

lemma parse_string: "parse_value fl (Suc n) (json_quote s @ rest) = Some (PStr s, rest)"
  by (simp add: json_quote_def skip_clean json_space_def byte_of_def scan_quoted)

text \<open>
  A layout of the writer: the white space behind an opening bracket, behind a comma and before a
  closing bracket, by depth. The compact writer and the one with \<open>indent=2\<close> are two layouts.
\<close>

record layout =
  ly_open :: "nat \<Rightarrow> string"
  ly_sep :: "nat \<Rightarrow> string"
  ly_close :: "nat \<Rightarrow> string"

definition layout_ok :: "layout \<Rightarrow> bool" where
  "layout_ok L = (\<forall>k. list_all json_space (ly_open L k) \<and> list_all json_space (ly_sep L k) \<and>
     list_all json_space (ly_close L k) \<and> value_end (ly_close L k))"

fun elems_text :: "layout \<Rightarrow> nat \<Rightarrow> string list \<Rightarrow> string" where
  "elems_text L k [] = ly_close L k @ '']''"
| "elems_text L k (x # xs) = x @ (if xs = [] then ly_close L k @ '']'' else '','' @ ly_sep L k @ elems_text L k xs)"

fun members_text :: "layout \<Rightarrow> nat \<Rightarrow> (string \<times> string) list \<Rightarrow> string" where
  "members_text L k [] = ly_close L k @ ''}''"
| "members_text L k ((n, x) # d) =
     json_quote n @ '': '' @ x @ (if d = [] then ly_close L k @ ''}'' else '','' @ ly_sep L k @ members_text L k d)"

fun json_layout :: "layout \<Rightarrow> nat \<Rightarrow> pyval \<Rightarrow> string" where
  "json_layout L k PNone = ''null''"
| "json_layout L k (PBool b) = (if b then ''true'' else ''false'')"
| "json_layout L k (PInt i) = int_str i"
| "json_layout L k (PFloat r t) = t"
| "json_layout L k (PStr s) = json_quote s"
| "json_layout L k (PList xs) =
     (if xs = [] then ''[]'' else ''['' @ ly_open L k @ elems_text L k (map (json_layout L (k + 1)) xs))"
| "json_layout L k (PDict d) =
     (if d = [] then ''{}'' else ''{'' @ ly_open L k @ members_text L k (map (\<lambda>(n, v). (n, json_layout L (k + 1) v)) d))"
| "json_layout L k (PObj t r) = json_quote r"

definition compact :: layout where
  "compact = \<lparr>ly_open = \<lambda>k. [], ly_sep = \<lambda>k. '' '', ly_close = \<lambda>k. []\<rparr>"

definition indented :: layout where
  "indented =
     \<lparr>ly_open = \<lambda>k. nl @ replicate (2 * (k + 1)) (CHR '' ''), ly_sep = \<lambda>k. nl @ replicate (2 * (k + 1)) (CHR '' ''),
      ly_close = \<lambda>k. nl @ replicate (2 * k) (CHR '' '')\<rparr>"

lemma compact_simps: "ly_open compact k = []" "ly_sep compact k = '' ''" "ly_close compact k = []"
  by (simp_all add: compact_def)

lemma compact_ok: "layout_ok compact"
  by (simp add: layout_ok_def compact_def json_space_def byte_of_def value_end_def)

lemma indented_ok: "layout_ok indented"
  by (auto simp: layout_ok_def indented_def json_space_def byte_of_def value_end_def list_all_iff)

lemma elems_text_join: "xs \<noteq> [] \<Longrightarrow> elems_text L k xs = join ('','' @ ly_sep L k) xs @ ly_close L k @ '']''"
  by (induction xs) (auto simp: join_def split: list.splits)

lemma members_text_join:
  "d \<noteq> [] \<Longrightarrow> members_text L k d =
     join ('','' @ ly_sep L k) (map (\<lambda>(n, x). json_quote n @ '': '' @ x) d) @ ly_close L k @ ''}''"
  by (induction d) (auto simp: join_def split: list.splits)

lemma json_text_compact: "json_text v = json_layout compact k v"
proof (induction v arbitrary: k rule: json_text.induct)
  case (6 xs)
  have m: "map json_text xs = map (json_layout compact (k + 1)) xs" using 6 by simp
  show ?case
    unfolding json_text.simps json_layout.simps m
    by (cases "xs = []") (simp_all add: elems_text_join compact_simps, simp add: join_def)
next
  case (7 d)
  have "(\<lambda>(n, v). json_quote n @ '': '' @ json_text v) p =
      (\<lambda>(n, x). json_quote n @ '': '' @ x) ((\<lambda>(n, v). (n, json_layout compact (k + 1) v)) p)" if "p \<in> set d" for p
    using 7 [OF that, of "fst p" "snd p" "k + 1"] by (simp add: case_prod_beta)
  then have m: "map (\<lambda>(n, v). json_quote n @ '': '' @ json_text v) d =
      map (\<lambda>(n, x). json_quote n @ '': '' @ x) (map (\<lambda>(n, v). (n, json_layout compact (k + 1) v)) d)"
    by simp
  show ?case
    unfolding json_text.simps json_layout.simps m
    by (cases "d = []") (simp_all add: members_text_join compact_simps, simp add: join_def)
qed simp_all

lemma layout_start:
  assumes "json_ok fl v"
  obtains c cs where "json_layout L k v = c # cs" "\<not> json_space c" "c \<noteq> CHR '']''" "c \<noteq> CHR ''}''"
proof -
  have num: "\<exists>c cs. json_layout L k v = c # cs \<and> \<not> json_space c \<and> c \<noteq> CHR '']'' \<and> c \<noteq> CHR ''}''"
    if lex: "lex_number (json_layout L k v) = Some x" for x
    by (rule lex_start [OF lex]) (auto simp: is_digit_def json_space_def byte_of_def)
  have "\<exists>c cs. json_layout L k v = c # cs \<and> \<not> json_space c \<and> c \<noteq> CHR '']'' \<and> c \<noteq> CHR ''}''"
  proof (cases v)
    case (PInt i)
    with num lex_int show ?thesis by simp
  next
    case (PFloat r t)
    with num assms show ?thesis by simp
  qed (use assms in \<open>auto simp: json_quote_def json_space_def byte_of_def\<close>)
  with that show thesis by blast
qed

lemma json_text_start:
  assumes "json_ok fl v"
  obtains c cs where "json_text v = c # cs"
  using layout_start [OF assms, of compact 0] by (metis json_text_compact)

lemma value_end_text: "value_end (CHR '','' # s)" "value_end (CHR '']'' # s)" "value_end (CHR ''}'' # s)"
  by (simp_all add: value_end_def)

lemma value_end_close: "layout_ok L \<Longrightarrow> b \<in> {CHR '']'', CHR ''}''} \<Longrightarrow> value_end (ly_close L k @ b # rest)"
  by (cases "ly_close L k") (auto simp: layout_ok_def value_end_def dest!: spec [of _ k])

lemma skip_close: "layout_ok L \<Longrightarrow> b \<in> {CHR '']'', CHR ''}''} \<Longrightarrow> skip (ly_close L k @ b # rest) = b # rest"
  by (subst skip_ws) (auto simp: layout_ok_def skip_clean json_space_def byte_of_def)

text \<open>\<open>T x\<close> is the text of the value \<open>x\<close>.\<close>

lemma parse_elems_text:
  assumes "layout_ok L"
    and "\<And>x rest n. x \<in> set xs \<Longrightarrow> value_end rest \<Longrightarrow> 2 * length (T x @ rest) < n \<Longrightarrow>
      parse_value fl n (T x @ rest) = Some (x, rest)"
    and "xs \<noteq> []" and "2 * length (elems_text L k (map T xs) @ rest) + 1 < n"
  shows "parse_elems fl n (elems_text L k (map T xs) @ rest) = Some (xs, rest)"
  using assms(2-)
proof (induction xs arbitrary: n)
  case Nil
  then show ?case by simp
next
  case (Cons x xs)
  obtain m where n: "n = Suc m" using Cons.prems(3) by (cases n) auto
  have comma: "skip (CHR '','' # s) = CHR '','' # s" for s
    by (simp add: skip_clean json_space_def byte_of_def)
  have sep: "list_all json_space (ly_sep L k)" using assms(1) by (simp add: layout_ok_def)
  show ?case
  proof (cases "xs = []")
    case True
    have "parse_value fl m (T x @ ly_close L k @ '']'' @ rest) = Some (x, ly_close L k @ '']'' @ rest)"
      using Cons.prems(3) by (intro Cons.prems(1)) (simp_all add: n True value_end_close [OF assms(1)])
    then show ?thesis by (simp add: n True skip_close [OF assms(1)])
  next
    case False
    have "parse_value fl m (T x @ '','' @ ly_sep L k @ elems_text L k (map T xs) @ rest) =
        Some (x, '','' @ ly_sep L k @ elems_text L k (map T xs) @ rest)"
      using Cons.prems(3) False by (intro Cons.prems(1)) (simp_all add: n value_end_text)
    moreover have "parse_elems fl m (elems_text L k (map T xs) @ rest) = Some (xs, rest)"
      using Cons.prems(3) False by (intro Cons.IH Cons.prems(1)) (simp_all add: n)
    ultimately show ?thesis using False by (simp add: n comma parse_ws [OF sep])
  qed
qed

lemma parse_members_text:
  assumes "layout_ok L"
    and "\<And>k x rest n. (k, x) \<in> set d \<Longrightarrow> value_end rest \<Longrightarrow> 2 * length (T x @ rest) < n \<Longrightarrow>
      parse_value fl n (T x @ rest) = Some (x, rest)"
    and "d \<noteq> []" and "2 * length (members_text L k (map (\<lambda>(n, x). (n, T x)) d) @ rest) + 1 < n"
  shows "parse_members fl n (members_text L k (map (\<lambda>(n, x). (n, T x)) d) @ rest) = Some (d, rest)"
  using assms(2-)
proof (induction d arbitrary: n)
  case Nil
  then show ?case by simp
next
  case (Cons p d)
  obtain j x where p: "p = (j, x)" by (cases p)
  obtain m where n: "n = Suc m" using Cons.prems(3) by (cases n) auto
  have marks: "skip (CHR '','' # s) = CHR '','' # s" "skip (CHR '':'' # s) = CHR '':'' # s"
    "skip (CHR 0x22 # s) = CHR 0x22 # s" for s
    by (simp_all add: skip_clean json_space_def byte_of_def)
  have space: "list_all json_space '' ''" by (simp add: json_space_def byte_of_def)
  have sep: "list_all json_space (ly_sep L k)" using assms(1) by (simp add: layout_ok_def)
  let ?d = "map (\<lambda>(n, x). (n, T x)) d"
  note parse_space = parse_ws(1) [OF space, simplified]
  show ?case
  proof (cases "d = []")
    case True
    have "parse_value fl m (T x @ ly_close L k @ ''}'' @ rest) = Some (x, ly_close L k @ ''}'' @ rest)"
      using Cons.prems(3) by (intro Cons.prems(1) [of j]) (simp_all add: n p True value_end_close [OF assms(1)])
    then show ?thesis by (simp add: n p True marks json_quote_def scan_quoted parse_space skip_close [OF assms(1)])
  next
    case False
    have "parse_value fl m (T x @ '','' @ ly_sep L k @ members_text L k ?d @ rest) =
        Some (x, '','' @ ly_sep L k @ members_text L k ?d @ rest)"
      using Cons.prems(3) False by (intro Cons.prems(1) [of j]) (simp_all add: n p value_end_text)
    moreover have "parse_members fl m (members_text L k ?d @ rest) = Some (d, rest)"
    proof (rule Cons.IH)
      show "parse_value fl n' (T x' @ rest') = Some (x', rest')"
        if "(k', x') \<in> set d" "value_end rest'" "2 * length (T x' @ rest') < n'" for k' x' rest' n'
        using that by (intro Cons.prems(1) [of k']) simp_all
    qed (use Cons.prems(3) False in \<open>simp_all add: n p\<close>)
    ultimately show ?thesis using False by (simp add: n p marks json_quote_def scan_quoted parse_space parse_ws [OF sep])
  qed
qed

lemma dict_set_fresh: "k \<notin> fst ` set d \<Longrightarrow> dict_set k v d = d @ [(k, v)]"
  by (induction k v d rule: dict_set.induct) auto

lemma dict_of_pairs_id: "dict_ok d \<Longrightarrow> dict_of_pairs d = d"
proof -
  have "dict_ok (e @ d) \<Longrightarrow> fold (\<lambda>(k, v) d. dict_set k v d) d e = e @ d" for e
    by (induction d arbitrary: e) (auto simp: dict_ok_def dict_set_fresh)
  from this [of "[]"] show "dict_ok d \<Longrightarrow> dict_of_pairs d = d" by (simp add: dict_of_pairs_def)
qed

lemma parse_layout:
  assumes "layout_ok L"
  shows "json_ok fl v \<Longrightarrow> value_end rest \<Longrightarrow> 2 * length (json_layout L k v @ rest) < n \<Longrightarrow>
     parse_value fl n (json_layout L k v @ rest) = Some (v, rest)"
  using assms
proof (induction L k v arbitrary: rest n rule: json_layout.induct)
  case (3 L k i)
  then show ?case using parse_number [OF lex_int] parse_int_str by (cases n) simp_all
next
  case (4 L k r t)
  then show ?case using parse_number [of t True] by (cases n) simp_all
next
  case (5 L k s)
  then show ?case using parse_string by (cases n) simp_all
next
  case (6 L k xs)
  obtain m where n: "n = Suc m" using "6.prems"(3) by (cases n) auto
  show ?case
  proof (cases "xs = []")
    case True
    then show ?thesis by (simp add: n skip_clean json_space_def byte_of_def)
  next
    case False
    let ?t = "elems_text L k (map (json_layout L (k + 1)) xs) @ rest"
    have L: "layout_ok L" "list_all json_space (ly_open L k)" using "6.prems"(4) by (simp_all add: layout_ok_def)
    have t: "json_layout L k (PList xs) @ rest = CHR ''['' # ly_open L k @ ?t" using False by simp
    obtain y ys where y: "xs = y # ys" using False by (cases xs) auto
    obtain c cs where c: "json_layout L (k + 1) y = c # cs" "\<not> json_space c" "c \<noteq> CHR '']''"
      by (rule layout_start [of fl y]) (use "6.prems"(1) y in auto)
    have "parse_elems fl m ?t = Some (xs, rest)"
    proof (rule parse_elems_text [OF L(1)])
      show "2 * length ?t + 1 < m" using "6.prems"(3) unfolding t n by simp
    qed (use 6 False in \<open>auto simp: list_all_iff\<close>)
    moreover have "\<not> prefix '']'' (skip ?t)" using c by (simp add: y skip_clean)
    ultimately show ?thesis
      unfolding t n by (auto simp: skip_clean json_space_def byte_of_def parse_ws [OF L(2)] skip_ws [OF L(2)])
  qed
next
  case (7 L k d)
  obtain m where n: "n = Suc m" using "7.prems"(3) by (cases n) auto
  show ?case
  proof (cases "d = []")
    case True
    then show ?thesis by (simp add: n skip_clean json_space_def byte_of_def)
  next
    case False
    let ?t = "members_text L k (map (\<lambda>(n, v). (n, json_layout L (k + 1) v)) d) @ rest"
    have L: "layout_ok L" "list_all json_space (ly_open L k)" using "7.prems"(4) by (simp_all add: layout_ok_def)
    have t: "json_layout L k (PDict d) @ rest = CHR ''{'' # ly_open L k @ ?t" using False by simp
    have "parse_members fl m ?t = Some (d, rest)"
    proof (rule parse_members_text [OF L(1)])
      show "2 * length ?t + 1 < m" using "7.prems"(3) unfolding t n by simp
      show "parse_value fl n' (json_layout L (k + 1) x @ rest') = Some (x, rest')"
        if "(j, x) \<in> set d" "value_end rest'" "2 * length (json_layout L (k + 1) x @ rest') < n'" for j x rest' n'
        using "7.IH" [OF False that(1) refl _ that(2,3)] that(1) "7.prems"(1) L(1) by (auto simp: list_all_iff)
    qed (simp add: False)
    moreover have "\<not> prefix ''}'' (skip ?t)"
      by (cases d; cases "hd d") (auto simp: False json_quote_def skip_clean json_space_def byte_of_def)
    moreover have "dict_of_pairs d = d" using "7.prems"(1) by (simp add: dict_of_pairs_id)
    ultimately show ?thesis
      unfolding t n by (auto simp: skip_clean json_space_def byte_of_def parse_ws [OF L(2)] skip_ws [OF L(2)])
  qed
next
  case (1 L k)
  then obtain m where "n = Suc m" by (cases n) auto
  with parse_word(1) [of fl m rest] show ?case by (simp del: parse_value.simps)
next
  case (2 L k b)
  then obtain m where "n = Suc m" by (cases n) auto
  with parse_word(2,3) [of fl m rest] show ?case by (simp del: parse_value.simps)
qed simp

subsection \<open>The fuel is enough\<close>

lemma skip_length: "length (skip s) \<le> length s"
  by (simp add: skip_def length_dropWhile_le)

lemma prepend_SomeD: "prepend u x = Some (t, r) \<Longrightarrow> \<exists>t'. x = Some (t', r)"
  by (auto simp: prepend_def)

lemma scan_string_length: "scan_string s = Some (t, r) \<Longrightarrow> length r < length s"
proof (induction s arbitrary: t r rule: measure_induct_rule [of length])
  case (less s)
  have step: "length r < length s"
    if "prepend u (scan_string q) = Some (t, r)" "length q < length s" for u q
    using prepend_SomeD [OF that(1)] less.IH [OF that(2)] that(2) by fastforce
  show ?case
  proof (cases s)
    case Nil
    with less.prems show ?thesis by simp
  next
    case (Cons c cs)
    with less.prems show ?thesis
      by (auto split: if_splits list.splits option.splits dest!: step)
  qed
qed

lemma parse_atom_length: "parse_atom fl s = Some (v, r) \<Longrightarrow> length r < length s"
proof -
  assume a: "parse_atom fl s = Some (v, r)"
  show "length r < length s"
  proof (cases "lex_number s")
    case None
    with a show ?thesis
      by (auto simp: parse_atom_def word_then_def prefix_def split: if_splits)
  next
    case (Some x)
    obtain t float q where x: "x = (t, float, q)" by (cases x)
    have "lex_int_part (drop (length (lex_sign s)) s) \<noteq> []" using Some by (auto simp: lex_number_def Let_def)
    then have pos: "0 < length (lex_int_part (drop (length (lex_sign s)) s))" by simp
    have "\<exists>a b c. q = drop (a + (b + (length (lex_int_part (drop (length (lex_sign s)) s)) + c))) s"
      using Some by (auto simp: x lex_number_def Let_def split: if_splits)
    moreover have "s \<noteq> []" using Some lex_start by blast
    ultimately have "length q < length s" using pos by (auto simp del: length_greater_0_conv simp flip: length_greater_0_conv)
    with a Some show ?thesis by (simp add: lex_not_word x)
  qed
qed

lemma parse_lengths:
  "parse_value fl n s = Some (v, r) \<Longrightarrow> length r < length s"
  "parse_elems fl n s = Some (vs, r) \<Longrightarrow> length r < length s"
  "parse_members fl n s = Some (ms, r) \<Longrightarrow> length r < length s"
proof (induction n arbitrary: s v vs ms r)
  case 0
  { case 1 then show ?case by simp }
  { case 2 then show ?case by simp }
  { case 3 then show ?case by simp }
next
  case (Suc n)
  have sk: "skip s = c # cs \<Longrightarrow> length cs < length s" for c cs s using skip_length [of s] by simp
  {
    case 1
    then show ?case
      using sk [of s] skip_length [of "tl (skip s)"]
      by (auto split: list.splits if_splits dest!: scan_string_length Suc.IH(2,3) parse_atom_length) 
  }
  {
    case 2
    then show ?case
      by (auto split: list.splits if_splits option.splits dest!: Suc.IH(1) Suc.IH(2) sk)
  }
  {
    case 3
    then show ?case
      by (auto split: list.splits if_splits option.splits dest!: Suc.IH(1) Suc.IH(3) scan_string_length sk)
  }
qed

lemma parse_enough:
  "2 * length s < n \<Longrightarrow> parse_value fl (Suc n) s = parse_value fl n s"
  "2 * length s + 1 < n \<Longrightarrow> parse_elems fl (Suc n) s = parse_elems fl n s"
  "2 * length s + 1 < n \<Longrightarrow> parse_members fl (Suc n) s = parse_members fl n s"
proof (induction n arbitrary: s)
  case 0
  { case 1 then show ?case by simp }
  { case 2 then show ?case by simp }
  { case 3 then show ?case by simp }
next
  case (Suc n)
  have sk: "length cs < length s" if "skip s = c # cs" for c cs s using that skip_length [of s] by simp
  {
    case 1
    have "parse_elems fl (Suc n) cs = parse_elems fl n cs" "parse_members fl (Suc n) cs = parse_members fl n cs"
      if "skip s = c # cs" for c cs
      using sk [OF that] 1 Suc.IH(2,3) [of cs] by simp_all
    then show ?case
      unfolding parse_value.simps(2) [of fl "Suc n" s] parse_value.simps(2) [of fl n s]
      by (auto simp del: parse_value.simps parse_elems.simps parse_members.simps split: list.splits)
  }
  {
    case 2
    have "parse_value fl (Suc n) s = parse_value fl n s" using 2 Suc.IH(1) [of s] by simp
    moreover have "parse_elems fl (Suc n) cs = parse_elems fl n cs"
      if "parse_value fl n s = Some (v, r)" "skip r = c # cs" for v r c cs
      using sk [OF that(2)] parse_lengths(1) [OF that(1)] 2 Suc.IH(2) [of cs] by simp
    ultimately show ?case
      unfolding parse_elems.simps(2) [of fl "Suc n" s] parse_elems.simps(2) [of fl n s]
      by (auto simp del: parse_value.simps parse_elems.simps parse_members.simps split: option.splits list.splits)
  }
  {
    case 3
    have v: "parse_value fl (Suc n) r1 = parse_value fl n r1"
      if "skip s = c # cs" "scan_string cs = Some (k, r)" "skip r = d # r1" for c cs k r d r1
      using sk [OF that(1)] scan_string_length [OF that(2)] sk [OF that(3)] 3 Suc.IH(1) [of r1] by simp
    have m: "parse_members fl (Suc n) r3 = parse_members fl n r3"
      if "skip s = c # cs" "scan_string cs = Some (k, r)" "skip r = d # r1" "parse_value fl n r1 = Some (v, r2)"
        "skip r2 = e # r3" for c cs k r d r1 v r2 e r3
      using sk [OF that(1)] scan_string_length [OF that(2)] sk [OF that(3)] parse_lengths(1) [OF that(4)] sk [OF that(5)]
        3 Suc.IH(3) [of r3] by simp
    show ?case
      unfolding parse_members.simps(2) [of fl "Suc n" s] parse_members.simps(2) [of fl n s]
      by (auto simp: v m simp del: parse_value.simps parse_elems.simps parse_members.simps split: option.splits list.splits)
  }
qed

lemma parse_value_enough: "2 * length s < n \<Longrightarrow> parse_value fl (n + k) s = parse_value fl n s"
proof (induction k)
  case (Suc k)
  then show ?case using parse_enough(1) [of s "n + k" fl] by simp
qed simp

text \<open>What the compact writer wrote is read back as the same value, whatever fuel above its bound the
  reader gets: for every value whose dicts have distinct keys and whose floats are finite and
  printed as they are read.\<close>

lemma json_loads_of_layout: "layout_ok L \<Longrightarrow> json_ok fl v \<Longrightarrow> json_loads fl (json_layout L k v) = Some v"
  using parse_layout [of L fl v "[]" k "2 * length (json_layout L k v) + 1"]
  by (simp add: json_loads_def value_end_def skip_def)

lemma json_loads_of_text: "json_ok fl v \<Longrightarrow> json_loads fl (json_text v) = Some v"
  using json_loads_of_layout [OF compact_ok] json_text_compact by metis

end
