(* ===== verification/Database.thy ===== *)
theory Database
  imports Json Tasks
begin

section \<open>The SQLite store (store.py)\<close>

text \<open>
  One connection: what is committed and what the connection sees. A statement is a function on
  the contents that may fail; the single-statement helpers commit what the connection sees, a
  transaction commits at its end or rolls back. The contents stay abstract (each component models
  its own tables as lists of rows), except for the key/value table. JSON columns are texts:
  \<open>loads_dumps\<close> shows that reading a written column gives what \<open>stored\<close> says, which is how the other
  theories model such columns.
\<close>

subsection \<open>JSON columns\<close>

definition dumps :: "pyval \<Rightarrow> string" where
  "dumps v = json_text v"

definition loads :: "(string \<Rightarrow> pyval) \<Rightarrow> string option \<Rightarrow> pyval \<Rightarrow> pyval" where
  "loads fl text dflt =
     (case text of
        None \<Rightarrow> dflt
      | Some t \<Rightarrow> if t = [] then dflt else (case json_loads fl t of None \<Rightarrow> dflt | Some v \<Rightarrow> v))"

lemma json_text_stored: "json_text (stored v) = json_text v"
proof (induction v rule: json_text.induct)
  case (6 xs)
  then show ?case by (simp cong: map_cong)
next
  case (7 d)
  have "json_text (stored (snd p)) = json_text (snd p)" if "p \<in> set d" for p
    using 7 [OF that, of "fst p" "snd p"] by simp
  then show ?case by (simp add: case_prod_beta cong: map_cong)
qed simp_all

lemma loads_of_dumps: "json_ok fl (stored v) \<Longrightarrow> loads fl (Some (dumps v)) dflt = stored v"
proof -
  assume ok: "json_ok fl (stored v)"
  then obtain c cs where "json_text (stored v) = c # cs" by (rule json_text_start)
  with json_loads_of_text [OF ok] show ?thesis by (simp add: loads_def dumps_def json_text_stored)
qed

text \<open>A JSON column comes back as it went in: whatever was there, an object that is no JSON value as
  its text, for every value whose dicts have distinct keys and whose floats are finite and
  printed as they are read.\<close>

theorem loads_dumps:
  assumes "json_ok fl (stored v)"
  shows "loads fl (Some (dumps v)) dflt = stored v"
  using assms by (rule loads_of_dumps)

lemma loads_dumps_witness:
  "loads (\<lambda>t. PNone) (Some (dumps (PDict [(''plan'', PList [PInt (- 1), PBool False]), (''x'', PObj ''P'' ''p()'')]))) PNone =
     PDict [(''plan'', PList [PInt (- 1), PBool False]), (''x'', PStr ''p()'')]"
  using loads_dumps [of "\<lambda>t. PNone" "PDict [(''plan'', PList [PInt (- 1), PBool False]), (''x'', PObj ''P'' ''p()'')]" PNone]
  by (simp add: dict_ok_def)

subsection \<open>One connection\<close>

record 'd conn =
  cn_committed :: 'd
  cn_seen :: 'd

definition open_conn :: "'d \<Rightarrow> 'd conn" where
  "open_conn d = \<lparr>cn_committed = d, cn_seen = d\<rparr>"

definition commit :: "'d conn \<Rightarrow> 'd conn" where
  "commit c = c\<lparr>cn_committed := cn_seen c\<rparr>"

definition rollback :: "'d conn \<Rightarrow> 'd conn" where
  "rollback c = c\<lparr>cn_seen := cn_committed c\<rparr>"

type_synonym 'd stmt = "'d \<Rightarrow> string + 'd"

definition store_failed :: "string \<Rightarrow> string \<Rightarrow> exn" where
  "store_failed what e = Garis (mk_error StoreError (what @ '': '' @ e) None)"

text \<open>\<open>execute\<close> and \<open>executemany\<close>: a run that fails half-way is rolled back as a whole.\<close>

definition db_execute :: "'d stmt \<Rightarrow> 'd conn \<Rightarrow> (exn + unit) \<times> 'd conn" where
  "db_execute f c =
     (case f (cn_seen c) of
        Inr d \<Rightarrow> (Inr (), commit (c\<lparr>cn_seen := d\<rparr>))
      | Inl e \<Rightarrow> (Inl (store_failed (''Zapytanie nie przesz'' @ pl_l @ ''o'') e), rollback c))"

fun run_rows :: "('r \<Rightarrow> 'd stmt) \<Rightarrow> 'r list \<Rightarrow> 'd \<Rightarrow> string + 'd" where
  "run_rows f [] d = Inr d"
| "run_rows f (r # rs) d = (case f r d of Inl e \<Rightarrow> Inl e | Inr d' \<Rightarrow> run_rows f rs d')"

definition db_executemany :: "('r \<Rightarrow> 'd stmt) \<Rightarrow> 'r list \<Rightarrow> 'd conn \<Rightarrow> (exn + unit) \<times> 'd conn" where
  "db_executemany f rows c =
     (case run_rows f rows (cn_seen c) of
        Inr d \<Rightarrow> (Inr (), commit (c\<lparr>cn_seen := d\<rparr>))
      | Inl e \<Rightarrow> (Inl (store_failed (''Zapytanie zbiorcze nie przesz'' @ pl_l @ ''o'') e), rollback c))"

subsection \<open>Transactions\<close>

text \<open>
  The body of a \<open>with transaction()\<close> block: statements on the connection, calls of the helpers, and
  exceptions of its own. A failing statement raises \<open>sqlite3.Error\<close>.
\<close>

datatype 'd body_step = OnConn "'d stmt" | ByHelper "'d stmt" | Raise exn

fun run_body :: "'d body_step list \<Rightarrow> 'd conn \<Rightarrow> (exn + unit) \<times> 'd conn" where
  "run_body [] c = (Inr (), c)"
| "run_body (OnConn f # rest) c =
     (case f (cn_seen c) of
        Inr d \<Rightarrow> run_body rest (c\<lparr>cn_seen := d\<rparr>)
      | Inl e \<Rightarrow> (Inl (PyExn ''sqlite3.Error'' e), c))"
| "run_body (ByHelper f # rest) c =
     (case db_execute f c of (Inr u, c') \<Rightarrow> run_body rest c' | (Inl e, c') \<Rightarrow> (Inl e, c'))"
| "run_body (Raise e # rest) c = (Inl e, c)"

text \<open>A cancellation is no \<open>Exception\<close>: the block is left without rollback and without commit.\<close>

definition transaction :: "'d body_step list \<Rightarrow> 'd conn \<Rightarrow> (exn + unit) \<times> 'd conn" where
  "transaction body c =
     (case run_body body c of
        (Inr u, c') \<Rightarrow> (Inr u, commit c')
      | (Inl Cancellation, c') \<Rightarrow> (Inl Cancellation, c')
      | (Inl e, c') \<Rightarrow> (Inl e, rollback c'))"

fun on_conn_only :: "'d body_step \<Rightarrow> bool" where
  "on_conn_only (ByHelper f) = False"
| "on_conn_only _ = True"

fun body_result :: "'d body_step list \<Rightarrow> 'd \<Rightarrow> exn + 'd" where
  "body_result [] d = Inr d"
| "body_result (OnConn f # rest) d = (case f d of Inr d' \<Rightarrow> body_result rest d' | Inl e \<Rightarrow> Inl (PyExn ''sqlite3.Error'' e))"
| "body_result (ByHelper f # rest) d = (case f d of Inr d' \<Rightarrow> body_result rest d' | Inl e \<Rightarrow> Inl (store_failed (''Zapytanie nie przesz'' @ pl_l @ ''o'') e))"
| "body_result (Raise e # rest) d = Inl e"

lemma run_body_spec:
  "list_all on_conn_only body \<Longrightarrow> run_body body c = (r, c') \<Longrightarrow>
     cn_committed c' = cn_committed c \<and>
     (case body_result body (cn_seen c) of Inr d \<Rightarrow> r = Inr () \<and> cn_seen c' = d | Inl e \<Rightarrow> r = Inl e)"
proof (induction body arbitrary: c)
  case Nil
  then show ?case by simp
next
  case (Cons x body)
  show ?case
  proof (cases x)
    case (OnConn f)
    show ?thesis
    proof (cases "f (cn_seen c)")
      case (Inl e)
      with Cons.prems OnConn show ?thesis by auto
    next
      case (Inr d)
      with Cons.prems OnConn have "run_body body (c\<lparr>cn_seen := d\<rparr>) = (r, c')" by simp
      from Cons.IH [OF _ this] Cons.prems(1) Inr OnConn show ?thesis by simp
    qed
  qed (use Cons.prems in auto)
qed



text \<open>A helper inside a transaction commits everything before it: what was to be undone stays.\<close>

lemma helper_commits_early:
  "transaction [OnConn (\<lambda>d. Inr (d + 1)), ByHelper Inr, Raise (PyExn ''ValueError'' [])] (open_conn (0 :: nat)) =
     (Inl (PyExn ''ValueError'' []), open_conn 1)"
  by (simp add: transaction_def open_conn_def db_execute_def commit_def rollback_def)

subsection \<open>Migrations\<close>

text \<open>
  \<open>executescript\<close> commits what is pending and then runs outside a transaction; the version row is
  committed by the next script or at the end. \<open>d\<close> is the contents without the version table.
\<close>

record 'd schema_state =
  sv_contents :: 'd
  sv_versions :: "nat list"
  sv_pending :: "nat list"

definition current_version :: "'d schema_state \<Rightarrow> nat" where
  "current_version s = foldl max 0 (sv_versions s @ sv_pending s)"

fun run_migrations ::
  "nat \<Rightarrow> (nat \<times> ('d \<Rightarrow> (string \<times> 'd) + 'd)) list \<Rightarrow> 'd schema_state \<Rightarrow> (exn + unit) \<times> 'd schema_state" where
  "run_migrations current [] s = (Inr (), s\<lparr>sv_versions := sv_versions s @ sv_pending s, sv_pending := []\<rparr>)"
| "run_migrations current ((version, script) # rest) s =
     (if version \<le> current then run_migrations current rest s
      else let s1 = s\<lparr>sv_versions := sv_versions s @ sv_pending s, sv_pending := []\<rparr> in
        case script (sv_contents s) of
          Inr d \<Rightarrow> run_migrations current rest (s1\<lparr>sv_contents := d, sv_pending := [version]\<rparr>)
        | Inl (e, d) \<Rightarrow> (Inl (store_failed (''Migracja '' @ nat_str version @ '' nie przesz'' @ pl_l @ ''a'') e), s1\<lparr>sv_contents := d\<rparr>))"

definition migrate :: "(nat \<times> ('d \<Rightarrow> (string \<times> 'd) + 'd)) list \<Rightarrow> 'd schema_state \<Rightarrow> (exn + unit) \<times> 'd schema_state" where
  "migrate schema s = run_migrations (current_version s) schema s"

lemma run_migrations_versions:
  "run_migrations current schema s = (Inr (), s') \<Longrightarrow>
     sv_pending s' = [] \<and>
     sv_versions s' = sv_versions s @ sv_pending s @ filter (\<lambda>v. current < v) (map fst schema)"
  by (induction current schema s rule: run_migrations.induct) (auto simp: Let_def split: if_splits sum.splits)

lemma foldl_max: "foldl max (m :: nat) xs = (if xs = [] then m else max m (Max (set xs)))"
proof (induction xs arbitrary: m)
  case (Cons x xs)
  then show ?case by (cases "xs = []") (auto simp: max.assoc)
qed simp

text \<open>Migrating again runs no script: after a migration went through, every version of the schema is
  on record, and the same migration leaves the contents as they are.\<close>

theorem migrate_once:
  assumes "migrate schema s = (Inr (), s')" and "sv_pending s = []"
  shows "migrate schema s' = (Inr (), s') \<and> (\<forall>v \<in> fst ` set schema. v \<le> current_version s')"
proof -
  have v: "sv_pending s' = []" "sv_versions s' = sv_versions s @ filter (\<lambda>v. current_version s < v) (map fst schema)"
    using run_migrations_versions [OF assms(1) [unfolded migrate_def]] assms(2) by simp_all
  have cur: "u \<le> current_version t" if "u \<in> set (sv_versions t)" for u and t :: "'a schema_state"
    using that by (auto simp: current_version_def foldl_max intro: le_max_iff_disj [THEN iffD2])
  have mono: "current_version s \<le> current_version s'"
    using v assms(2) by (auto simp: current_version_def foldl_max intro: Max_mono le_max_iff_disj [THEN iffD2])
  have "u \<le> current_version s'" if "u \<in> fst ` set schema" for u
  proof (cases "current_version s < u")
    case True
    then show ?thesis using cur [of u s'] that v(2) by auto
  next
    case False
    then show ?thesis using mono by simp
  qed
  then have all: "\<forall>u \<in> fst ` set schema. u \<le> current_version s'" by blast
  have "run_migrations k sc t = (Inr (), t)"
    if "\<forall>u \<in> fst ` set sc. u \<le> k" "sv_pending t = []" for k sc and t :: "'a schema_state"
    using that by (induction k sc t rule: run_migrations.induct) auto
  with all v(1) show ?thesis by (simp add: migrate_def)
qed

lemma migrate_once_witness:
  "migrate [(1 :: nat, \<lambda>d. Inr (d + 1)), (2, \<lambda>d. Inr (d + 10))]
     (snd (migrate [(1, \<lambda>d. Inr (d + 1)), (2, \<lambda>d. Inr (d + 10))] \<lparr>sv_contents = 0 :: nat, sv_versions = [1], sv_pending = []\<rparr>)) =
   (Inr (), \<lparr>sv_contents = 10, sv_versions = [1, 2], sv_pending = []\<rparr>)"
proof -
  let ?sc = "[(1, \<lambda>d. Inr (d + 1)), (2, \<lambda>d. Inr (d + 10))] :: (nat \<times> (nat \<Rightarrow> (string \<times> nat) + nat)) list"
  have m: "migrate ?sc \<lparr>sv_contents = 0, sv_versions = [1], sv_pending = []\<rparr> =
      (Inr (), \<lparr>sv_contents = 10, sv_versions = [1, 2], sv_pending = []\<rparr>)"
    by (simp add: migrate_def current_version_def)
  show ?thesis unfolding m snd_conv by (rule migrate_once [OF m, THEN conjunct1]) simp
qed

subsection \<open>The key/value table\<close>

type_synonym kv_table = "(string \<times> string) list"

definition kv_get :: "(string \<Rightarrow> pyval) \<Rightarrow> string \<Rightarrow> pyval \<Rightarrow> kv_table \<Rightarrow> exn + pyval" where
  "kv_get fl k dflt kv =
     (case map_of kv k of
        None \<Rightarrow> Inr dflt
      | Some t \<Rightarrow> (case json_loads fl t of None \<Rightarrow> Inl (PyExn ''JSONDecodeError'' t) | Some v \<Rightarrow> Inr v))"

text \<open>\<open>json.dumps\<close> without \<open>default\<close> refuses an object that is no JSON value.\<close>

fun pure_json :: "pyval \<Rightarrow> bool" where
  "pure_json (PList xs) = list_all pure_json xs"
| "pure_json (PDict d) = list_all (\<lambda>(k, v). pure_json v) d"
| "pure_json (PObj t r) = False"
| "pure_json _ = True"

definition kv_set :: "string \<Rightarrow> pyval \<Rightarrow> kv_table conn \<Rightarrow> (exn + unit) \<times> kv_table conn" where
  "kv_set k v c =
     (if pure_json v then db_execute (\<lambda>kv. Inr (dict_set k (json_text v) kv)) c
      else (Inl (PyExn ''TypeError'' ''Object is not JSON serializable''), c))"

lemma kv_get_set:
  assumes "json_ok fl v" and "kv_set k v c = (Inr (), c')"
  shows "kv_get fl k dflt (cn_committed c') = Inr v"
  using assms json_loads_of_text [OF assms(1)]
  by (auto simp: kv_set_def kv_get_def db_execute_def commit_def split: if_splits)

end
