(* ===== verification/Settings.thy ===== *)
theory Settings
  imports Json Events Errors
begin

section \<open>Settings (config.py, settings.py)\<close>

text \<open>
  The configuration is a tree of dataclass objects, dicts and plain values. Objects are held by
  other parts of the program (the policy holds \<open>config.autonomy\<close>, the router \<open>config.models\<close>), so an
  object carries a mark that tells which construction made it: values move, marks stay. The
  classes with their fields, annotations and defaults are the schema \<open>CONFIG\<close>; \<open>build\<close> makes a tree of
  JSON after it. \<open>fl\<close> makes the float of a text, \<open>to_float\<close> is Python's \<open>float\<close>. A dict inside a list
  stays a plain value.
\<close>

subsection \<open>The tree\<close>

datatype conf =
    CVal pyval
  | CData nat string "(string \<times> conf) list"
  | CMap "(string \<times> conf) list"

text \<open>A JSON value as the program holds it: its dicts are dicts.\<close>

fun lift :: "pyval \<Rightarrow> conf" where
  "lift (PDict d) = CMap (map (\<lambda>(k, v). (k, lift v)) d)"
| "lift v = CVal v"

text \<open>\<open>dataclasses.asdict\<close>.\<close>

fun asdict :: "conf \<Rightarrow> pyval" where
  "asdict (CVal v) = v"
| "asdict (CData g c fs) = PDict (map (\<lambda>(f, x). (f, asdict x)) fs)"
| "asdict (CMap es) = PDict (map (\<lambda>(k, x). (k, asdict x)) es)"

text \<open>Python's \<open>==\<close>: objects of one class by their fields, dicts by their entries.\<close>

fun conf_eq :: "conf \<Rightarrow> conf \<Rightarrow> bool" where
  "conf_eq (CVal v) (CVal w) = py_eq v w"
| "conf_eq (CData g c fs) (CData h d gs) =
     (c = d \<and> list_all (\<lambda>(f, x). case map_of gs f of None \<Rightarrow> False | Some y \<Rightarrow> conf_eq x y) fs)"
| "conf_eq (CMap es) (CMap hs) =
     (length es = length hs \<and> list_all (\<lambda>(k, x). case map_of hs k of None \<Rightarrow> False | Some y \<Rightarrow> conf_eq x y) es)"
| "conf_eq _ _ = False"

subsection \<open>The schema\<close>

datatype conf_type = TAny | TData string "(string \<times> conf_type \<times> conf) list" | TMapOf conf_type

fun same_class :: "conf \<Rightarrow> conf \<Rightarrow> bool" where
  "same_class (CData g c fs) (CData h d gs) = (c = d)"
| "same_class _ _ = False"

fun mark :: "nat \<Rightarrow> conf \<Rightarrow> conf" where
  "mark g (CVal v) = CVal v"
| "mark g (CData h c fs) = CData g c (map (\<lambda>(f, x). (f, mark g x)) fs)"
| "mark g (CMap es) = CMap (map (\<lambda>(k, x). (k, mark g x)) es)"

definition config_error :: "string \<Rightarrow> exn" where
  "config_error m = Garis (mk_error ConfigError m None)"

fun is_class :: "conf_type \<Rightarrow> bool" where
  "is_class (TData c fs) = True"
| "is_class _ = False"

fun is_dict :: "pyval \<Rightarrow> bool" where
  "is_dict (PDict d) = True"
| "is_dict _ = False"

text \<open>\<open>_build\<close>: unknown keys are ignored, missing ones take their default.\<close>

function build :: "nat \<Rightarrow> conf_type \<Rightarrow> pyval \<Rightarrow> exn + conf"
and build_fields :: "nat \<Rightarrow> (string \<times> conf_type \<times> conf) list \<Rightarrow> pydict \<Rightarrow> exn + (string \<times> conf) list"
and build_one :: "nat \<Rightarrow> conf_type \<Rightarrow> conf \<Rightarrow> pyval option \<Rightarrow> exn + conf"
and build_entries :: "nat \<Rightarrow> conf_type \<Rightarrow> pydict \<Rightarrow> exn + (string \<times> conf) list" where
  "build g TAny v = Inr (lift v)"
| "build g (TData c fs) v =
     (case v of
        PDict d \<Rightarrow> map_sum id (CData g c) (build_fields g fs d)
      | _ \<Rightarrow> Inl (config_error (''Oczekiwano obiektu dla '' @ c)))"
| "build g (TMapOf t) v =
     (case v of PDict d \<Rightarrow> map_sum id CMap (build_entries g t d) | _ \<Rightarrow> Inr (lift v))"
| "build_fields g [] d = Inr []"
| "build_fields g ((f, t, dflt) # fs) d =
     (case build_one g t dflt (map_of d f) of
        Inl e \<Rightarrow> Inl e
      | Inr x \<Rightarrow> map_sum id (\<lambda>xs. (f, x) # xs) (build_fields g fs d))"
| "build_one g t dflt None = Inr (mark g dflt)"
| "build_one g t dflt (Some v) = (if is_class t \<and> \<not> is_dict v then Inr (lift v) else build g t v)"
| "build_entries g t [] = Inr []"
| "build_entries g t ((k, v) # d) =
     (case build g t v of Inl e \<Rightarrow> Inl e | Inr x \<Rightarrow> map_sum id (\<lambda>xs. (k, x) # xs) (build_entries g t d))"
  by pat_completeness auto
termination
  by (relation "measures [\<lambda>x. case x of
      Inl (Inl (g, t, v)) \<Rightarrow> size t
    | Inl (Inr (g, fs, d)) \<Rightarrow> size_list (size_prod (\<lambda>x. 0) (size_prod size (\<lambda>x. 0))) fs
    | Inr (Inl (g, t, dflt, v)) \<Rightarrow> size t
    | Inr (Inr (g, t, d)) \<Rightarrow> size t,
    \<lambda>x. case x of Inl _ \<Rightarrow> 0 | Inr (Inl _) \<Rightarrow> 1 | Inr (Inr (g, t, d)) \<Rightarrow> 1 + length d]") auto

subsection \<open>adopt: values move, objects stay\<close>

definition sub_path :: "string \<Rightarrow> string \<Rightarrow> string" where
  "sub_path p f = (if p = [] then f else p @ ''.'' @ f)"

text \<open>
  \<open>_adopt\<close> over the fields of an object and \<open>_adopt_dict\<close> over a dict: removed keys first, then the
  keys of the source in its order. \<open>adopt_value\<close> is one field; in a dict only objects of one class
  are walked into.
\<close>

definition put_all :: "(string \<times> conf) list \<Rightarrow> (string \<times> conf) list \<Rightarrow> (string \<times> conf) list" where
  "put_all new old = fold (\<lambda>(k, x) d. dict_set k x d) new old"

abbreviation entries_size :: "(string \<times> conf) list \<Rightarrow> nat" where
  "entries_size gs \<equiv> size_list (size_prod (\<lambda>x. 0) size) gs"

lemma size_of_entry: "map_of gs f = Some (y :: conf) \<Longrightarrow> size y < entries_size gs"
  by (induction gs) (auto split: if_splits)

function adopt_value :: "string \<Rightarrow> conf \<Rightarrow> conf \<Rightarrow> conf \<times> string list"
and adopt_fields :: "string \<Rightarrow> (string \<times> conf) list \<Rightarrow> (string \<times> conf) list \<Rightarrow> (string \<times> conf) list \<times> string list"
and adopt_entries :: "string \<Rightarrow> (string \<times> conf) list \<Rightarrow> (string \<times> conf) list \<Rightarrow> (string \<times> conf) list \<times> string list" where
  "adopt_value p cur inc =
     (case (cur, inc) of
        (CData g c fs, CData h d gs) \<Rightarrow>
          if c = d then (let (fs', ch) = adopt_fields p fs gs in (CData g c fs', ch))
          else (inc, [p])
      | (CMap es, CMap hs) \<Rightarrow>
          (let kept = filter (\<lambda>(k, x). k \<in> fst ` set hs) es;
               gone = map (\<lambda>(k, x). sub_path p k) (filter (\<lambda>(k, x). k \<notin> fst ` set hs) es);
               (moved, ch) = adopt_entries p es hs
           in (CMap (put_all moved kept), gone @ ch))
      | _ \<Rightarrow> if conf_eq cur inc then (cur, []) else (inc, [p]))"
| "adopt_fields p [] gs = ([], [])"
| "adopt_fields p ((f, x) # fs) gs =
     (let (x', ch) = (case map_of gs f of None \<Rightarrow> (x, []) | Some y \<Rightarrow> adopt_value (sub_path p f) x y);
          (fs', ch') = adopt_fields p fs gs
      in ((f, x') # fs', ch @ ch'))"
| "adopt_entries p es [] = ([], [])"
| "adopt_entries p es ((k, y) # hs) =
     (let (y', ch) = (case map_of es k of
            None \<Rightarrow> (y, [sub_path p k])
          | Some x \<Rightarrow>
              if same_class x y then adopt_value (sub_path p k) x y
              else if conf_eq x y then (x, []) else (y, [sub_path p k]));
          (hs', ch') = adopt_entries p es hs
      in ((k, y') # hs', ch @ ch'))"
  by pat_completeness auto

termination
  by (relation "measures [\<lambda>x. case x of
      Inl (p, cur, inc) \<Rightarrow> size inc
    | Inr (Inl (p, fs, gs)) \<Rightarrow> entries_size gs
    | Inr (Inr (p, es, hs)) \<Rightarrow> entries_size hs,
    \<lambda>x. case x of Inr (Inl (p, fs, gs)) \<Rightarrow> length fs | _ \<Rightarrow> 0]")
    (auto dest!: size_of_entry)

declare adopt_value.simps [simp del]

subsection \<open>Dotted access\<close>

definition unknown_setting :: "string \<Rightarrow> exn" where
  "unknown_setting path = config_error (''Nieznane ustawienie: '' @ path)"

fun walk :: "string \<Rightarrow> string list \<Rightarrow> conf \<Rightarrow> exn + conf" where
  "walk path [] node = Inr node"
| "walk path (f # rest) node =
     (case node of
        CData g c fs \<Rightarrow> (case map_of fs f of None \<Rightarrow> Inl (PyExn ''AttributeError'' f) | Some x \<Rightarrow> walk path rest x)
      | CMap es \<Rightarrow> (case map_of es f of None \<Rightarrow> Inl (PyExn ''KeyError'' f) | Some x \<Rightarrow> walk path rest x)
      | CVal v \<Rightarrow> Inl (unknown_setting path))"

definition conf_get :: "string \<Rightarrow> conf \<Rightarrow> exn + conf" where
  "conf_get path node = walk path (split_on (CHR ''.'') path) node"

definition yes_words :: "string list" where "yes_words = [''1'', ''true'', ''tak'', ''yes'', ''on'']"
definition no_words :: "string list" where "no_words = [''0'', ''false'', ''nie'', ''no'', ''off'']"

definition coerce_like :: "(pyval \<Rightarrow> exn + rat \<times> string) \<Rightarrow> conf \<Rightarrow> pyval \<Rightarrow> exn + conf" where
  "coerce_like to_float current v =
     (case current of
        CVal (PBool b) \<Rightarrow>
          (case v of
             PStr s \<Rightarrow> (let low = lower (strip s) in
               if low \<in> set yes_words then Inr (CVal (PBool True))
               else if low \<in> set no_words then Inr (CVal (PBool False))
               else Inl (config_error (''Oczekiwano tak/nie, otrzymano '' @ py_repr v)))
           | _ \<Rightarrow> Inr (CVal (PBool (truthy v))))
      | CVal (PInt i) \<Rightarrow>
          (case py_int v of
             Some n \<Rightarrow> Inr (CVal (PInt n))
           | None \<Rightarrow> Inl (PyExn (case v of PStr s \<Rightarrow> ''ValueError'' | _ \<Rightarrow> ''TypeError'') (py_repr v)))
      | CVal (PFloat r t) \<Rightarrow> map_sum id (\<lambda>(r, t). CVal (PFloat r t)) (to_float v)
      | CVal (PList xs) \<Rightarrow>
          (case v of
             PStr s \<Rightarrow> Inr (CVal (PList (map PStr (filter (\<lambda>x. x \<noteq> []) (map strip (split_on (CHR '','') s))))))
           | _ \<Rightarrow> Inr (lift v))
      | _ \<Rightarrow> Inr (lift v))"

fun conf_set :: "(pyval \<Rightarrow> exn + rat \<times> string) \<Rightarrow> string \<Rightarrow> string list \<Rightarrow> pyval \<Rightarrow> conf \<Rightarrow> exn + conf" where
  "conf_set to_float path [] v node = Inl (unknown_setting path)"
| "conf_set to_float path [leaf] v node =
     (case node of
        CMap es \<Rightarrow> Inr (CMap (dict_set leaf (lift v) es))
      | CData g c fs \<Rightarrow>
          (case map_of fs leaf of
             None \<Rightarrow> Inl (unknown_setting path)
           | Some current \<Rightarrow> map_sum id (\<lambda>x. CData g c (dict_set leaf x fs)) (coerce_like to_float current v))
      | CVal w \<Rightarrow> Inl (unknown_setting path))"
| "conf_set to_float path (f # rest) v node =
     (case node of
        CMap es \<Rightarrow>
          (case map_of es f of
             None \<Rightarrow> Inl (PyExn ''KeyError'' f)
           | Some x \<Rightarrow> map_sum id (\<lambda>y. CMap (dict_set f y es)) (conf_set to_float path rest v x))
      | CData g c fs \<Rightarrow>
          (case map_of fs f of
             None \<Rightarrow> Inl (PyExn ''AttributeError'' f)
           | Some x \<Rightarrow> map_sum id (\<lambda>y. CData g c (dict_set f y fs)) (conf_set to_float path rest v x))
      | CVal w \<Rightarrow> Inl (unknown_setting path))"

subsection \<open>The classes of config.py\<close>

definition str_field :: "string \<Rightarrow> string \<Rightarrow> string \<times> conf_type \<times> conf" where
  "str_field f d = (f, TAny, CVal (PStr d))"
definition bool_field :: "string \<Rightarrow> bool \<Rightarrow> string \<times> conf_type \<times> conf" where
  "bool_field f d = (f, TAny, CVal (PBool d))"
definition int_field :: "string \<Rightarrow> int \<Rightarrow> string \<times> conf_type \<times> conf" where
  "int_field f d = (f, TAny, CVal (PInt d))"
definition float_field :: "string \<Rightarrow> rat \<Rightarrow> string \<Rightarrow> string \<times> conf_type \<times> conf" where
  "float_field f d t = (f, TAny, CVal (PFloat d t))"

fun default_of :: "conf_type \<Rightarrow> conf" where
  "default_of (TData c fs) = CData 0 c (map (\<lambda>(f, t, d). (f, d)) fs)"
| "default_of _ = CMap []"

definition part_field :: "string \<Rightarrow> conf_type \<Rightarrow> string \<times> conf_type \<times> conf" where
  "part_field f t = (f, t, default_of t)"

definition IDENTITY :: conf_type where
  "IDENTITY = TData ''Identity''
     [str_field ''name'' [], str_field ''address_as'' [], str_field ''language'' ''pl'', str_field ''timezone'' [],
      bool_field ''onboarded'' False]"

definition PERSONA :: conf_type where
  "PERSONA = TData ''PersonaConfig''
     [str_field ''preset'' ''assistant'', str_field ''custom_prompt'' [], float_field ''humor'' (3/10) ''0.3'',
      float_field ''brevity'' (7/10) ''0.7'', bool_field ''adapt_to_context'' True]"

definition VOICE :: conf_type where
  "VOICE = TData ''VoiceConfig''
     [bool_field ''enabled'' True, str_field ''wake_word'' ''garis'', bool_field ''wake_word_enabled'' True,
      str_field ''push_to_talk'' ''ctrl+alt+space'', str_field ''open_window_hotkey'' ''ctrl+alt+g'',
      str_field ''input_device'' [], str_field ''output_device'' [], str_field ''voice_id'' ''pl_female_calm'',
      float_field ''speech_rate'' 1 ''1.0'', float_field ''noise_floor_dbfs'' (- 45) ''-45.0'',
      bool_field ''barge_in'' True, str_field ''engine'' ''auto'']"

definition PROVIDER :: conf_type where
  "PROVIDER = TData ''ProviderConfig''
     [bool_field ''enabled'' True, str_field ''key_ref'' [], str_field ''base_url'' [],
      float_field ''monthly_budget'' 0 ''0.0'']"

definition MODELS :: conf_type where
  "MODELS = TData ''ModelsConfig''
     [(''providers'', TMapOf PROVIDER, CMap []), str_field ''privacy'' ''balanced'', bool_field ''allow_cloud'' True,
      float_field ''monthly_budget'' 0 ''0.0'']"

definition QUIET_HOURS :: conf_type where
  "QUIET_HOURS = TData ''QuietHours''
     [bool_field ''enabled'' True, str_field ''start'' ''23:00'', str_field ''end'' ''08:00'']"

definition NOTIFICATIONS :: conf_type where
  "NOTIFICATIONS = TData ''NotificationsConfig''
     [part_field ''quiet_hours'' QUIET_HOURS, bool_field ''suppress_while_gaming'' True, int_field ''min_importance'' 3,
      bool_field ''briefing_on_startup'' True, int_field ''max_per_hour'' 6]"

definition AUTONOMY :: conf_type where
  "AUTONOMY = TData ''AutonomyConfig''
     [bool_field ''auto_install_free_software'' True, int_field ''download_notice_bytes'' (2 * 1024 ^ 3),
      float_field ''spend_notice_amount'' 0 ''0.0'', bool_field ''allow_admin_elevation'' True,
      (''confirm_effects'', TAny, CVal (PList (map PStr
         [''payment'', ''publish'', ''send_message'', ''credentials'', ''delete_permanent'']))),
      int_field ''max_repair_attempts'' 3]"

definition TASKS :: conf_type where
  "TASKS = TData ''TasksConfig''
     [int_field ''max_parallel'' 4, int_field ''step_timeout_seconds'' 900, int_field ''keep_finished_days'' 30]"

definition API :: conf_type where
  "API = TData ''ApiConfig''
     [str_field ''host'' ''127.0.0.1'', int_field ''port'' 8756, str_field ''token_ref'' ''vault://api_token'']"

definition DEV :: conf_type where
  "DEV = TData ''DevConfig''
     [bool_field ''verbose'' False, bool_field ''developer_mode'' False, str_field ''log_level'' ''INFO'']"

definition APPEARANCE :: conf_type where
  "APPEARANCE = TData ''AppearanceConfig''
     [str_field ''theme'' ''system'', str_field ''accent'' ''cyan'', float_field ''glass'' 1 ''1.0'',
      str_field ''density'' ''comfortable'', float_field ''text_scale'' 1 ''1.0'', str_field ''animation'' ''system'',
      str_field ''orb'' ''full'', str_field ''navigation'' ''auto'', bool_field ''sounds'' False,
      bool_field ''high_contrast'' False]"

definition CONFIG :: conf_type where
  "CONFIG = TData ''Config''
     [part_field ''identity'' IDENTITY, part_field ''persona'' PERSONA, part_field ''voice'' VOICE,
      part_field ''models'' MODELS, part_field ''notifications'' NOTIFICATIONS, part_field ''autonomy'' AUTONOMY,
      part_field ''tasks'' TASKS, part_field ''api'' API, part_field ''dev'' DEV,
      part_field ''appearance'' APPEARANCE, bool_field ''autostart'' True]"

subsection \<open>validate\<close>

definition APPEARANCE_CHOICES :: "(string \<times> string list) list" where
  "APPEARANCE_CHOICES =
     [(''theme'', [''system'', ''dark'', ''light'']), (''density'', [''comfortable'', ''compact'']),
      (''animation'', [''system'', ''full'', ''off'']), (''orb'', [''full'', ''simple'', ''off'']),
      (''navigation'', [''auto'', ''labels'', ''rail''])]"

definition ACCENTS :: "string list" where
  "ACCENTS = [''cyan'', ''blue'', ''violet'', ''teal'', ''green'', ''amber'', ''rose'']"

definition hex_colour :: "string \<Rightarrow> bool" where
  "hex_colour s =
     (case s of
        [] \<Rightarrow> False
      | c # cs \<Rightarrow> c = CHR 0x23 \<and> 6 \<le> length cs \<and> list_all (\<lambda>x. hex_digit x \<noteq> None) (take 6 cs) \<and>
          drop 6 cs \<in> {[], nl})"

definition attribute :: "conf \<Rightarrow> string \<Rightarrow> exn + conf" where
  "attribute x f =
     (case x of
        CData g c fs \<Rightarrow> (case map_of fs f of Some y \<Rightarrow> Inr y | None \<Rightarrow> Inl (PyExn ''AttributeError'' f))
      | _ \<Rightarrow> Inl (PyExn ''AttributeError'' f))"

definition one_of :: "string list \<Rightarrow> conf \<Rightarrow> bool" where
  "one_of allowed x = (case x of CVal v \<Rightarrow> list_ex (\<lambda>a. py_eq v (PStr a)) allowed | _ \<Rightarrow> False)"

definition check_choice :: "conf \<Rightarrow> string \<times> string list \<Rightarrow> exn option" where
  "check_choice look fa =
     (case attribute look (fst fa) of
        Inl e \<Rightarrow> Some e
      | Inr x \<Rightarrow>
          if one_of (snd fa) x then None
          else Some (config_error (''appearance.'' @ fst fa @ '': '' @ [CHR 0xE2, CHR 0x80, CHR 0x9E] @ py_str (asdict x) @ [CHR 0xE2, CHR 0x80, CHR 0x9D] @ '' nie jest jedn'' @ pl_a @ '' z '' @
            join '', '' (snd fa))))"

definition check_accent :: "conf \<Rightarrow> exn option" where
  "check_accent look =
     (case attribute look ''accent'' of
        Inl e \<Rightarrow> Some e
      | Inr (CVal (PStr s)) \<Rightarrow>
          if s \<in> set ACCENTS \<or> hex_colour s then None
          else Some (config_error (''appearance.accent: '' @ [CHR 0xE2, CHR 0x80, CHR 0x9E] @ s @ [CHR 0xE2, CHR 0x80, CHR 0x9D] @ '' to ani jeden z '' @ join '', '' ACCENTS @
            '', ani kolor #rrggbb''))
      | Inr _ \<Rightarrow> Some (PyExn ''TypeError'' ''accent''))"

definition check_range :: "string \<Rightarrow> rat \<Rightarrow> rat \<Rightarrow> string \<Rightarrow> conf \<Rightarrow> exn option" where
  "check_range f lo hi message look =
     (case attribute look f of
        Inl e \<Rightarrow> Some e
      | Inr (CVal v) \<Rightarrow>
          (case number_of v of
             None \<Rightarrow> Some (PyExn ''TypeError'' f)
           | Some r \<Rightarrow> if lo \<le> r \<and> r \<le> hi then None else Some (config_error message))
      | Inr _ \<Rightarrow> Some (PyExn ''TypeError'' f))"

fun first_fault :: "exn option list \<Rightarrow> exn option" where
  "first_fault [] = None"
| "first_fault (None # rest) = first_fault rest"
| "first_fault (Some e # rest) = Some e"

definition conf_validate :: "conf \<Rightarrow> exn option" where
  "conf_validate cfg =
     (case attribute cfg ''appearance'' of
        Inl e \<Rightarrow> Some e
      | Inr look \<Rightarrow> first_fault
          (map (check_choice look) APPEARANCE_CHOICES @
           [check_accent look,
            check_range ''glass'' 0 1 (''appearance.glass mie'' @ pl_s @ ''ci si'' @ pl_e @ '' w 0..1'') look,
            check_range ''text_scale'' (9/10) (14/10) (''appearance.text_scale mie'' @ pl_s @ ''ci si'' @ pl_e @ '' w 0.9..1.4'') look]))"

subsection \<open>The service\<close>

record settings_file =
  sf_text :: string
  sf_mtime :: instant

record settings =
  ss_config :: conf
  ss_path :: string
  ss_file :: "settings_file option"
  ss_stamp :: "instant \<times> nat"
  ss_complained :: bool
  ss_bus :: bool
  ss_built :: nat

definition file_stamp :: "settings_file option \<Rightarrow> instant \<times> nat" where
  "file_stamp f = (case f of None \<Rightarrow> (0, 0) | Some x \<Rightarrow> (sf_mtime x, length (sf_text x)))"

definition conf_load :: "(string \<Rightarrow> pyval) \<Rightarrow> string \<Rightarrow> nat \<Rightarrow> settings_file option \<Rightarrow> exn + conf" where
  "conf_load fl path g f =
     (case f of
        None \<Rightarrow> Inr (mark g (default_of CONFIG))
      | Some x \<Rightarrow>
          (case json_loads fl (sf_text x) of
             None \<Rightarrow> Inl (config_error (''Uszkodzony plik konfiguracji: '' @ path))
           | Some v \<Rightarrow> build g CONFIG v))"

definition conf_text :: "conf \<Rightarrow> string" where
  "conf_text cfg = json_layout indented 0 (asdict cfg)"

text \<open>\<open>save\<close>; \<open>disk_ok\<close> tells whether the write goes through.\<close>

definition settings_save :: "instant \<Rightarrow> bool \<Rightarrow> settings \<Rightarrow> (exn + unit) \<times> settings" where
  "settings_save now disk_ok S =
     (if disk_ok then
        (let f = Some \<lparr>sf_text = conf_text (ss_config S), sf_mtime = now\<rparr>
         in (Inr (), S\<lparr>ss_file := f, ss_stamp := file_stamp f\<rparr>))
      else (Inl (PyExn ''OSError'' ''write''), S))"

definition settings_announce :: "instant \<Rightarrow> string list \<Rightarrow> string \<Rightarrow> settings \<Rightarrow> bus \<Rightarrow> bus" where
  "settings_announce now paths source S b =
     (if ss_bus S then emit now (topic_name CONFIG_CHANGED)
        [(''paths'', EvVal (PList (map PStr paths))), (''source'', EvVal (PStr source))] b else b)"

definition settings_notice :: "instant \<Rightarrow> string \<Rightarrow> settings \<Rightarrow> bus \<Rightarrow> bus" where
  "settings_notice now message S b =
     (if ss_bus S then emit now (topic_name NOTICE)
        [(''message'', EvVal (PStr message)), (''importance'', EvVal (PInt 3))] b else b)"

fun set_all :: "(pyval \<Rightarrow> exn + rat \<times> string) \<Rightarrow> pydict \<Rightarrow> conf \<Rightarrow> exn + conf" where
  "set_all to_float [] cfg = Inr cfg"
| "set_all to_float ((path, v) # rest) cfg =
     (case conf_set to_float path (split_on (CHR ''.'') path) v cfg of
        Inl e \<Rightarrow> Inl e
      | Inr cfg' \<Rightarrow> set_all to_float rest cfg')"

definition candidate :: "(pyval \<Rightarrow> exn + rat \<times> string) \<Rightarrow> pydict \<Rightarrow> settings \<Rightarrow> exn + conf" where
  "candidate to_float changes S =
     (case build (ss_built S) CONFIG (asdict (ss_config S)) of
        Inl e \<Rightarrow> Inl e
      | Inr copy \<Rightarrow>
          (case set_all to_float changes copy of
             Inl e \<Rightarrow> Inl e
           | Inr c \<Rightarrow> (case conf_validate c of Some e \<Rightarrow> Inl e | None \<Rightarrow> Inr c)))"

definition apply_settings ::
  "(pyval \<Rightarrow> exn + rat \<times> string) \<Rightarrow> instant \<Rightarrow> bool \<Rightarrow> pydict \<Rightarrow> string \<Rightarrow> settings \<times> bus \<Rightarrow>
   (exn + string list) \<times> settings \<times> bus" where
  "apply_settings to_float now disk_ok changes source w =
     (let (S, b) = w in
      case candidate to_float changes S of
        Inl e \<Rightarrow> (Inl e, S\<lparr>ss_built := ss_built S + 1\<rparr>, b)
      | Inr c \<Rightarrow>
          (let (cfg, changed) = adopt_value [] (ss_config S) c;
               S1 = S\<lparr>ss_config := cfg, ss_built := ss_built S + 1\<rparr>
           in if changed = [] then (Inr [], S1, b)
              else case settings_save now disk_ok S1 of
                  (Inl e, S2) \<Rightarrow> (Inl e, S2, b)
                | (Inr _, S2) \<Rightarrow> (Inr changed, S2, settings_announce now changed source S2 b)))"

definition reload_settings ::
  "(string \<Rightarrow> pyval) \<Rightarrow> instant \<Rightarrow> settings \<times> bus \<Rightarrow> (exn + string list) \<times> settings \<times> bus" where
  "reload_settings fl now w =
     (let (S, b) = w; stamp = file_stamp (ss_file S); S0 = S\<lparr>ss_built := ss_built S + 1\<rparr> in
      if stamp = ss_stamp S then (Inr [], S, b)
      else
        let incoming = (case conf_load fl (ss_path S) (ss_built S) (ss_file S) of
              Inl e \<Rightarrow> Inl e
            | Inr c \<Rightarrow> (case conf_validate c of Some e \<Rightarrow> Inl e | None \<Rightarrow> Inr c))
        in case incoming of
            Inl (Garis e) \<Rightarrow>
              if is_subclass (ge_class e) ConfigError then
                (if ss_complained S then (Inr [], S0, b)
                 else (Inr [], S0\<lparr>ss_complained := True\<rparr>,
                   settings_notice now (''Nie mog'' @ pl_e @ '' odczyta'' @ pl_c @ '' ustawie'' @ pl_n @ '': '' @ explain e) S b))
              else (Inl (Garis e), S0, b)
          | Inl e \<Rightarrow> (Inl e, S0, b)
          | Inr c \<Rightarrow>
              (let (cfg, changed) = adopt_value [] (ss_config S) c;
                   S1 = S0\<lparr>ss_stamp := stamp, ss_complained := False, ss_config := cfg\<rparr>
               in (Inr changed, S1, if changed \<noteq> [] then settings_announce now changed ''disk'' S1 b else b)))"

subsection \<open>Adopting makes equal\<close>

text \<open>A tree of dataclass objects: the fields of an object are those of its class (\<open>F\<close>), in order.\<close>

fun conf_ok :: "(string \<Rightarrow> string list) \<Rightarrow> conf \<Rightarrow> bool" where
  "conf_ok F (CVal v) = (lift v = CVal v)"
| "conf_ok F (CData g c fs) = (map fst fs = F c \<and> distinct (F c) \<and> list_all (\<lambda>(f, x). conf_ok F x) fs)"
| "conf_ok F (CMap es) = (dict_ok es \<and> list_all (\<lambda>(k, x). conf_ok F x) es)"

definition matched :: "(string \<times> conf) list \<Rightarrow> string \<times> conf \<Rightarrow> bool" where
  "matched gs p = (case map_of gs (fst p) of None \<Rightarrow> False | Some y \<Rightarrow> conf_eq (snd p) y)"

lemma conf_eq_matched:
  "conf_eq (CData g c fs) (CData h d gs) = (c = d \<and> list_all (matched gs) fs)"
  "conf_eq (CMap es) (CMap hs) = (length es = length hs \<and> list_all (matched hs) es)"
proof -
  have "(\<lambda>(f, x). case map_of ks f of None \<Rightarrow> False | Some y \<Rightarrow> conf_eq x y) = matched ks" for ks
    by (auto simp: matched_def fun_eq_iff split: option.splits)
  then show "conf_eq (CData g c fs) (CData h d gs) = (c = d \<and> list_all (matched gs) fs)"
    "conf_eq (CMap es) (CMap hs) = (length es = length hs \<and> list_all (matched hs) es)"
    by simp_all
qed

lemma py_eq_refl [simp]: "py_eq v v"
  by (simp add: py_eq_def split: option.splits)

lemma map_of_member: "dict_ok d \<Longrightarrow> (k, v) \<in> set d \<longleftrightarrow> map_of d k = Some v"
  by (simp add: dict_ok_def)

lemma conf_eq_refl: "conf_ok F x \<Longrightarrow> conf_eq x x"
proof (induction F x rule: conf_ok.induct)
  case (1 F v)
  then show ?case by simp
next
  case (2 F g c fs)
  then have ok: "dict_ok fs" and sub: "\<And>p. p \<in> set fs \<Longrightarrow> conf_ok F (snd p)"
    by (auto simp: dict_ok_def list_all_iff)
  have "matched fs p" if "p \<in> set fs" for p
    using map_of_member [OF ok, of "fst p" "snd p"] that "2.IH" [OF that, of "fst p" "snd p"] sub [OF that]
    by (simp add: matched_def)
  then show ?case by (simp add: conf_eq_matched list_all_iff del: conf_eq.simps)
next
  case (3 F es)
  then have ok: "dict_ok es" and sub: "\<And>p. p \<in> set es \<Longrightarrow> conf_ok F (snd p)"
    by (auto simp: list_all_iff)
  have "matched es p" if "p \<in> set es" for p
    using map_of_member [OF ok, of "fst p" "snd p"] that "3.IH" [OF that, of "fst p" "snd p"] sub [OF that]
    by (simp add: matched_def)
  then show ?case by (simp add: conf_eq_matched list_all_iff del: conf_eq.simps)
qed

lemma map_of_put_all: "dict_ok new \<Longrightarrow> map_of (put_all new old) k = (case map_of new k of None \<Rightarrow> map_of old k | Some x \<Rightarrow> Some x)"
proof (induction new arbitrary: old)
  case Nil
  then show ?case by (simp add: put_all_def)
next
  case (Cons p new)
  obtain j x where p: "p = (j, x)" by (cases p)
  from Cons.prems have new: "dict_ok new" "map_of new j = None" by (simp_all add: dict_ok_def p map_of_eq_None_iff)
  show ?case using Cons.IH [OF new(1), of "dict_set j x old"] new(2)
    by (auto simp: put_all_def p split: option.splits)
qed

lemma dict_ok_put_all: "dict_ok old \<Longrightarrow> dict_ok (put_all new old)"
  unfolding put_all_def by (induction new arbitrary: old) (simp_all add: case_prod_beta)

lemma dict_ok_filter: "dict_ok d \<Longrightarrow> dict_ok (filter P d)"
  by (simp add: dict_ok_def distinct_map_filter)

lemma same_keys_length: "dict_ok d \<Longrightarrow> dict_ok e \<Longrightarrow> fst ` set d = fst ` set e \<Longrightarrow> length d = length e"
  by (metis dict_ok_def distinct_card length_map list.set_map)

lemma conf_eq_maps:
  assumes "dict_ok es" and "dict_ok hs"
  shows "conf_eq (CMap es) (CMap hs) \<longleftrightarrow>
    fst ` set es = fst ` set hs \<and> (\<forall>k x. map_of es k = Some x \<longrightarrow> matched hs (k, x))"
proof
  assume a: "conf_eq (CMap es) (CMap hs)"
  then have len: "length es = length hs" and m: "list_all (matched hs) es" by (simp_all add: conf_eq_matched del: conf_eq.simps)
  have "fst ` set es \<subseteq> fst ` set hs"
    using m by (force simp: matched_def list_all_iff map_of_eq_None_iff split: option.splits)
  moreover have "card (fst ` set es) = card (fst ` set hs)"
    using len assms by (metis dict_ok_def distinct_card length_map list.set_map)
  ultimately have "fst ` set es = fst ` set hs" by (simp add: card_subset_eq)
  with m show "fst ` set es = fst ` set hs \<and> (\<forall>k x. map_of es k = Some x \<longrightarrow> matched hs (k, x))"
    using assms(1) by (auto simp: list_all_iff map_of_member)
next
  assume a: "fst ` set es = fst ` set hs \<and> (\<forall>k x. map_of es k = Some x \<longrightarrow> matched hs (k, x))"
  then show "conf_eq (CMap es) (CMap hs)"
    using assms same_keys_length [of es hs] by (auto simp: conf_eq_matched list_all_iff map_of_member simp del: conf_eq.simps)
qed

text \<open>What one field, the fields of an object and the entries of a dict become.\<close>

definition adopted :: "(string \<Rightarrow> string list) \<Rightarrow> conf \<Rightarrow> conf \<Rightarrow> conf \<times> string list \<Rightarrow> bool" where
  "adopted F cur inc r = (conf_ok F (fst r) \<and> conf_eq (fst r) inc \<and> (snd r = [] \<longleftrightarrow> conf_eq cur inc))"

definition adopted_fields ::
  "(string \<Rightarrow> string list) \<Rightarrow> (string \<times> conf) list \<Rightarrow> (string \<times> conf) list \<Rightarrow> (string \<times> conf) list \<times> string list \<Rightarrow> bool" where
  "adopted_fields F fs gs r =
     (map fst (fst r) = map fst fs \<and> list_all (\<lambda>(f, x). conf_ok F x) (fst r) \<and> list_all (matched gs) (fst r) \<and>
      (snd r = [] \<longleftrightarrow> list_all (matched gs) fs))"

definition adopted_entries ::
  "(string \<Rightarrow> string list) \<Rightarrow> (string \<times> conf) list \<Rightarrow> (string \<times> conf) list \<Rightarrow> (string \<times> conf) list \<times> string list \<Rightarrow> bool" where
  "adopted_entries F es hs r =
     (list_all2 (\<lambda>p q. fst p = fst q \<and> conf_ok F (snd p) \<and> conf_eq (snd p) (snd q)) (fst r) hs \<and>
      (snd r = [] \<longleftrightarrow> list_all (\<lambda>(k, y). case map_of es k of None \<Rightarrow> False | Some x \<Rightarrow> conf_eq x y) hs))"

lemma adopted_maps:
  assumes "dict_ok es" and "dict_ok hs" and "list_all (\<lambda>(k, x). conf_ok F x) es"
    and "adopted_entries F es hs (moved, ch)"
  shows "adopted F (CMap es) (CMap hs)
    (CMap (put_all moved (filter (\<lambda>(k, x). k \<in> fst ` set hs) es)),
     map (\<lambda>(k, x). sub_path p k) (filter (\<lambda>(k, x). k \<notin> fst ` set hs) es) @ ch)"
proof -
  let ?new = "put_all moved (filter (\<lambda>(k, x). k \<in> fst ` set hs) es)"
  have rel: "list_all2 (\<lambda>p q. fst p = fst q \<and> conf_ok F (snd p) \<and> conf_eq (snd p) (snd q)) moved hs"
    and ch: "ch = [] \<longleftrightarrow> list_all (\<lambda>(k, y). case map_of es k of None \<Rightarrow> False | Some x \<Rightarrow> conf_eq x y) hs"
    using assms(4) by (simp_all add: adopted_entries_def)
  have keys: "map fst moved = map fst hs" using rel by (induction moved hs rule: list_all2_induct) auto
  then have okm: "dict_ok moved" using assms(2) by (simp add: dict_ok_def)
  have get: "map_of moved k = Some x \<Longrightarrow> conf_ok F x \<and> matched hs (k, x)" for k x
    using rel by (induction moved hs rule: list_all2_induct) (auto simp: matched_def split: if_splits)
  have none: "map_of moved k = None \<longleftrightarrow> k \<notin> fst ` set hs" for k
    using keys by (metis list.set_map map_of_eq_None_iff)
  have new: "map_of ?new k = map_of moved k" for k
  proof (cases "map_of moved k")
    case None
    then have "k \<notin> fst ` set (filter (\<lambda>(k, x). k \<in> fst ` set hs) es)" using none [of k] by force
    then have "map_of (filter (\<lambda>(k, x). k \<in> fst ` set hs) es) k = None" unfolding map_of_eq_None_iff .
    then show ?thesis using None okm by (simp add: map_of_put_all)
  qed (use okm in \<open>simp add: map_of_put_all\<close>)
  have okn: "dict_ok ?new" using assms(1) by (intro dict_ok_put_all dict_ok_filter)
  have "fst ` set ?new = fst ` set hs"
  proof (rule set_eqI)
    fix k
    show "k \<in> fst ` set ?new \<longleftrightarrow> k \<in> fst ` set hs" using new [of k] none [of k] by (metis map_of_eq_None_iff)
  qed
  moreover have "conf_ok F (CMap ?new)"
    using okn get new by (auto simp: list_all_iff map_of_member)
  ultimately have "conf_ok F (CMap ?new)" "conf_eq (CMap ?new) (CMap hs)"
    using get new by (auto simp: conf_eq_maps [OF okn assms(2)] simp del: conf_eq.simps)
  moreover have "map (\<lambda>(k, x). sub_path p k) (filter (\<lambda>(k, x). k \<notin> fst ` set hs) es) @ ch = [] \<longleftrightarrow>
      conf_eq (CMap es) (CMap hs)"
  proof -
    let ?alike = "\<lambda>k y. \<exists>x. map_of es k = Some x \<and> conf_eq x y"
    have "ch = [] \<longleftrightarrow> (\<forall>(k, y) \<in> set hs. ?alike k y)"
      unfolding ch list_all_iff by (intro ball_cong refl) (auto split: option.splits)
    also have "\<dots> \<longleftrightarrow> (\<forall>k y. map_of hs k = Some y \<longrightarrow> ?alike k y)"
      unfolding map_of_member [OF assms(2), symmetric] by auto
    finally have c: "ch = [] \<longleftrightarrow> (\<forall>k y. map_of hs k = Some y \<longrightarrow> ?alike k y)" .
    have g: "filter (\<lambda>(k, x). k \<notin> fst ` set hs) es = [] \<longleftrightarrow> fst ` set es \<subseteq> fst ` set hs"
      by (simp add: filter_empty_conv image_subset_iff case_prod_beta)
    have key: "k \<in> fst ` set d \<longleftrightarrow> (\<exists>x. map_of d k = Some x)" for k and d :: "(string \<times> conf) list"
      by (metis map_of_eq_None_iff option.exhaust option.distinct(1))
    have sub: "fst ` set d \<subseteq> fst ` set e \<longleftrightarrow> (\<forall>k x. map_of d k = Some x \<longrightarrow> (\<exists>y. map_of e k = Some y))"
      for d e :: "(string \<times> conf) list"
      unfolding subset_iff key by blast
    have m: "matched hs (k, x) \<longleftrightarrow> (\<exists>y. map_of hs k = Some y \<and> conf_eq x y)" for k x
      by (simp add: matched_def split: option.splits)
    have "fst ` set es \<subseteq> fst ` set hs \<and> (\<forall>k y. map_of hs k = Some y \<longrightarrow> ?alike k y) \<longleftrightarrow>
        fst ` set es = fst ` set hs \<and> (\<forall>k x. map_of es k = Some x \<longrightarrow> matched hs (k, x))"
    proof (intro iffI conjI allI impI)
      assume a: "fst ` set es \<subseteq> fst ` set hs \<and> (\<forall>k y. map_of hs k = Some y \<longrightarrow> ?alike k y)"
      then have "fst ` set hs \<subseteq> fst ` set es" unfolding sub by blast
      with a show "fst ` set es = fst ` set hs" by simp
      fix k x
      assume x: "map_of es k = Some x"
      with a obtain y where y: "map_of hs k = Some y" unfolding sub by blast
      with a x have "conf_eq x y" by fastforce
      with y show "matched hs (k, x)" by (simp add: m)
    next
      assume a: "fst ` set es = fst ` set hs \<and> (\<forall>k x. map_of es k = Some x \<longrightarrow> matched hs (k, x))"
      then show "fst ` set es \<subseteq> fst ` set hs" by simp
      fix k y
      assume y: "map_of hs k = Some y"
      with a obtain x where x: "map_of es k = Some x" using key by metis
      with a y have "conf_eq x y" using m by fastforce
      with x show "?alike k y" by blast
    qed
    then show ?thesis
      unfolding conf_eq_maps [OF assms(1,2)] using c g by simp
  qed
  ultimately show ?thesis by (simp add: adopted_def)
qed

lemma ok_entry: "list_all (\<lambda>(f, x). conf_ok F x) d \<Longrightarrow> map_of d f = Some x \<Longrightarrow> conf_ok F x"
  by (auto simp: list_all_iff dest: map_of_SomeD)

lemma adopt_equalises:
  "conf_ok F cur \<Longrightarrow> conf_ok F inc \<Longrightarrow> adopted F cur inc (adopt_value p cur inc)"
  "list_all (\<lambda>(f, x). conf_ok F x) fs \<Longrightarrow> list_all (\<lambda>(f, x). conf_ok F x) gs \<Longrightarrow> fst ` set fs \<subseteq> fst ` set gs \<Longrightarrow>
     distinct (map fst fs) \<Longrightarrow> adopted_fields F fs gs (adopt_fields p fs gs)"
  "list_all (\<lambda>(f, x). conf_ok F x) es \<Longrightarrow> list_all (\<lambda>(f, x). conf_ok F x) hs \<Longrightarrow>
     adopted_entries F es hs (adopt_entries p es hs)"
proof (induction p cur inc and p fs gs and p es hs rule: adopt_value_adopt_fields_adopt_entries.induct)
  case (1 p cur inc)
  consider (data) g c fs h gs where "cur = CData g c fs" "inc = CData h c gs"
    | (maps) es hs where "cur = CMap es" "inc = CMap hs"
    | (other) "adopt_value p cur inc = (if conf_eq cur inc then (cur, []) else (inc, [p]))"
    by (cases cur; cases inc; cases "same_class cur inc") (auto simp: adopt_value.simps)
  then show ?case
  proof cases
    case data
    obtain fs' ch where r: "adopt_fields p fs gs = (fs', ch)" by (cases "adopt_fields p fs gs")
    have keys: "map fst fs = F c" "map fst gs = F c" "distinct (F c)" using 1 data by simp_all
    have sub: "fst ` set fs \<subseteq> fst ` set gs" "distinct (map fst fs)" using keys by (metis list.set_map order_refl, simp)
    have "adopted_fields F fs gs (adopt_fields p fs gs)"
      by (rule "1.IH"(1)) (use "1.prems" data sub in \<open>simp_all del: list.set_map\<close>)
    then show ?thesis
      using data keys r 1
      by (simp add: adopt_value.simps adopted_def adopted_fields_def conf_eq_matched del: conf_eq.simps)
  next
    case maps
    obtain moved ch where r: "adopt_entries p es hs = (moved, ch)" by (cases "adopt_entries p es hs")
    have "adopted_entries F es hs (adopt_entries p es hs)"
      by (rule "1.IH"(2)) (use "1.prems" maps in simp_all)
    then have "adopted F (CMap es) (CMap hs)
        (CMap (put_all moved (filter (\<lambda>(k, x). k \<in> fst ` set hs) es)),
         map (\<lambda>(k, x). sub_path p k) (filter (\<lambda>(k, x). k \<notin> fst ` set hs) es) @ ch)"
      using 1 maps r by (intro adopted_maps) simp_all
    then show ?thesis using maps r by (simp add: adopt_value.simps)
  next
    case other
    show ?thesis
      unfolding adopted_def other using "1.prems" conf_eq_refl by (auto simp del: conf_eq.simps)
  qed
next
  case (2 p gs)
  then show ?case by (simp add: adopted_fields_def)
next
  case (3 p f x fs gs)
  obtain y where y: "map_of gs f = Some y" using "3.prems"(3) by (force simp: map_of_eq_None_iff)
  have oky: "conf_ok F y" using "3.prems"(2) y by (rule ok_entry)
  have one: "adopted F x y (adopt_value (sub_path p f) x y)"
    using "3.IH"(1) [OF y] "3.prems"(1) oky by simp
  obtain x' ch where r1: "adopt_value (sub_path p f) x y = (x', ch)" by (cases "adopt_value (sub_path p f) x y")
  obtain fs' ch' where r2: "adopt_fields p fs gs = (fs', ch')" by (cases "adopt_fields p fs gs")
  have "adopted_fields F fs gs (fs', ch')" using "3.IH"(2) [OF refl] "3.prems" r1 r2 y by simp
  with one r1 r2 y show ?case by (auto simp: adopted_fields_def adopted_def matched_def)
next
  case (4 p es)
  then show ?case by (simp add: adopted_entries_def)
next
  case (5 p es k y hs)
  have oky: "conf_ok F y" using "5.prems"(2) by simp
  obtain y' ch where r1: "(case map_of es k of None \<Rightarrow> (y, [sub_path p k])
      | Some x \<Rightarrow> if same_class x y then adopt_value (sub_path p k) x y
          else if conf_eq x y then (x, []) else (y, [sub_path p k])) = (y', ch)"
    by (meson surj_pair)
  have one: "conf_ok F y' \<and> conf_eq y' y \<and> (ch = [] \<longleftrightarrow> (\<exists>x. map_of es k = Some x \<and> conf_eq x y))"
  proof (cases "map_of es k")
    case None
    with r1 oky conf_eq_refl show ?thesis by auto
  next
    case (Some x)
    have okx: "conf_ok F x" using "5.prems"(1) Some by (rule ok_entry)
    show ?thesis
    proof (cases "same_class x y")
      case True
      with "5.IH"(1) [OF Some True okx oky] r1 Some show ?thesis by (simp add: adopted_def)
    next
      case False
      with r1 Some okx oky conf_eq_refl show ?thesis by (auto split: if_splits)
    qed
  qed
  obtain hs' ch' where r2: "adopt_entries p es hs = (hs', ch')" by (cases "adopt_entries p es hs")
  have "adopted_entries F es hs (hs', ch')" using "5.IH"(2) [OF r1 [symmetric]] "5.prems" r2 by simp
  with one r1 r2 show ?case by (auto simp: adopted_entries_def split: option.splits)
qed

subsection \<open>Objects stay\<close>

text \<open>A path along fields whose objects have the same classes in both trees, and the object it leads to.\<close>

fun aligned :: "string list \<Rightarrow> conf \<Rightarrow> conf \<Rightarrow> bool" where
  "aligned [] x y = same_class x y"
| "aligned (f # p) (CData g c fs) (CData h d gs) =
     (c = d \<and> (case (map_of fs f, map_of gs f) of (Some x, Some y) \<Rightarrow> aligned p x y | _ \<Rightarrow> False))"
| "aligned _ _ _ = False"

fun object_at :: "string list \<Rightarrow> conf \<Rightarrow> (nat \<times> string) option" where
  "object_at [] (CData g c fs) = Some (g, c)"
| "object_at (f # p) (CData g c fs) = (case map_of fs f of None \<Rightarrow> None | Some x \<Rightarrow> object_at p x)"
| "object_at _ _ = None"

lemma adopt_fields_get:
  "map_of (fst (adopt_fields q fs gs)) f =
     map_option (\<lambda>x. case map_of gs f of None \<Rightarrow> x | Some y \<Rightarrow> fst (adopt_value (sub_path q f) x y)) (map_of fs f)"
  by (induction fs) (auto simp: case_prod_beta Let_def split: option.splits)

lemma objects_stay: "aligned p cur inc \<Longrightarrow> object_at p (fst (adopt_value q cur inc)) = object_at p cur"
proof (induction p cur inc arbitrary: q rule: aligned.induct)
  case (1 x y)
  then show ?case by (cases x; cases y) (auto simp: adopt_value.simps case_prod_beta)
next
  case (2 f p g c fs h d gs)
  then obtain x y where "map_of fs f = Some x" "map_of gs f = Some y" "aligned p x y" "c = d"
    by (auto split: option.splits)
  with "2.IH" show ?case by (simp add: adopt_value.simps case_prod_beta Let_def adopt_fields_get)
qed simp_all

text \<open>Adopting a configuration moves its values and keeps the objects: afterwards the tree equals the
  adopted one, no path is reported exactly when there was nothing to move, and every object that
  both trees have is still the one other parts of the program hold.\<close>

theorem adopting_moves_values_not_objects:
  assumes "conf_ok F cur" and "conf_ok F inc" and "adopt_value [] cur inc = (new, changed)"
  shows "conf_eq new inc \<and> (changed = [] \<longleftrightarrow> conf_eq cur inc) \<and>
    (\<forall>p. aligned p cur inc \<longrightarrow> object_at p new = object_at p cur)"
  using adopt_equalises(1) [OF assms(1,2), of "[]"] objects_stay [of _ cur inc "[]"] assms(3)
  by (simp add: adopted_def)

subsection \<open>What a settings change keeps\<close>

fun pv_ok :: "pyval \<Rightarrow> bool" where
  "pv_ok (PDict d) = (dict_ok d \<and> list_all (\<lambda>(k, v). pv_ok v) d)"
| "pv_ok _ = True"

fun schema_ok :: "(string \<Rightarrow> string list) \<Rightarrow> conf_type \<Rightarrow> bool" where
  "schema_ok F TAny = True"
| "schema_ok F (TData c fs) =
     (map fst fs = F c \<and> distinct (F c) \<and> list_all (\<lambda>(f, t, d). schema_ok F t \<and> conf_ok F d) fs)"
| "schema_ok F (TMapOf t) = schema_ok F t"

lemma dict_ok_map [simp]: "dict_ok (map (\<lambda>(k, v). (k, h v)) d) = dict_ok d"
  by (simp add: dict_ok_def comp_def case_prod_beta)

lemma fst_map_pair [simp]: "map fst (map (\<lambda>(k, v). (k, h v)) d) = map fst d"
  by (simp add: comp_def case_prod_beta)

lemma conf_ok_lift: "pv_ok v \<Longrightarrow> conf_ok F (lift v)"
  by (induction v rule: lift.induct) (auto simp: list_all_iff)

lemma pv_ok_asdict: "conf_ok F x \<Longrightarrow> pv_ok (asdict x)"
proof (induction x rule: asdict.induct)
  case (1 v)
  then show ?case by (cases v) auto
next
  case (2 g c fs)
  then have "dict_ok fs" by (simp add: dict_ok_def)
  with 2 show ?case by (auto simp: list_all_iff)
next
  case (3 es)
  then show ?case by (auto simp: list_all_iff)
qed

lemma conf_ok_mark: "conf_ok F x \<Longrightarrow> conf_ok F (mark g x)"
  by (induction g x rule: mark.induct) (auto simp: list_all_iff comp_def case_prod_beta)

lemma pv_ok_entry: "list_all (\<lambda>(k, v). pv_ok v) d \<Longrightarrow> map_of d f = Some v \<Longrightarrow> pv_ok v"
  by (auto simp: list_all_iff dest: map_of_SomeD)

lemma build_keys:
  "build_fields g fs d = Inr xs \<Longrightarrow> map fst xs = map fst fs"
  "build_entries g t d = Inr xs \<Longrightarrow> map fst xs = map fst d"
proof -
  show "build_fields g fs d = Inr xs \<Longrightarrow> map fst xs = map fst fs"
    by (induction fs arbitrary: xs) (auto simp: Let_def map_sum_Inr_iff split: sum.splits)
  show "build_entries g t d = Inr xs \<Longrightarrow> map fst xs = map fst d"
    by (induction d arbitrary: xs) (auto simp: map_sum_Inr_iff split: sum.splits)
qed

lemma build_ok:
  "schema_ok F t \<Longrightarrow> pv_ok v \<Longrightarrow> build g t v = Inr x \<Longrightarrow> conf_ok F x"
  "list_all (\<lambda>(f, t, d). schema_ok F t \<and> conf_ok F d) fs \<Longrightarrow> list_all (\<lambda>(k, v). pv_ok v) d \<Longrightarrow>
     build_fields g fs d = Inr xs \<Longrightarrow> list_all (\<lambda>(f, x). conf_ok F x) xs"
  "schema_ok F t1 \<Longrightarrow> conf_ok F dflt \<Longrightarrow> (\<And>v. ov = Some v \<Longrightarrow> pv_ok v) \<Longrightarrow> build_one g t1 dflt ov = Inr y \<Longrightarrow> conf_ok F y"
  "schema_ok F t' \<Longrightarrow> list_all (\<lambda>(k, v). pv_ok v) e \<Longrightarrow> build_entries g t' e = Inr ys \<Longrightarrow>
     list_all (\<lambda>(f, x). conf_ok F x) ys"
proof (induction g t v and g fs d and g t1 dflt ov and g t' e arbitrary: x and xs and y and ys
    rule: build_build_fields_build_one_build_entries.induct)
  case (1 g v)
  then show ?case using conf_ok_lift by auto
next
  case (2 g c fs v)
  then show ?case using build_keys(1) conf_ok_lift
    by (cases v) (auto simp: map_sum_Inr_iff)
next
  case (3 g t v)
  have keys: "dict_ok zs = dict_ok d" if "build_entries g t d = Inr zs" for zs d
    using build_keys(2) [OF that] by (simp add: dict_ok_def)
  show ?case using 3 conf_ok_lift [of v F] by (cases v) (auto simp: map_sum_Inr_iff keys simp del: lift.simps)
next
  case (4 g d)
  then show ?case by simp
next
  case (5 g f t dflt fs d)
  obtain y ys where y: "build_one g t dflt (map_of d f) = Inr y" and ys: "build_fields g fs d = Inr ys"
    and xs: "xs = (f, y) # ys"
    using "5.prems"(3) by (auto simp: map_sum_Inr_iff split: sum.splits)
  have "conf_ok F y" using "5.IH"(1) [OF _ _ pv_ok_entry [OF "5.prems"(2)] y] "5.prems"(1) by simp
  moreover have "list_all (\<lambda>(f, x). conf_ok F x) ys" using "5.IH"(2) [OF y _ "5.prems"(2) ys] "5.prems"(1) by simp
  ultimately show ?case by (simp add: xs)
next
  case (6 g t dflt)
  then show ?case by (auto simp: conf_ok_mark)
next
  case (7 g t dflt v)
  then show ?case using conf_ok_lift by (auto split: if_splits)
next
  case (8 g t)
  then show ?case by simp
next
  case (9 g t k v d)
  then show ?case by (auto simp: map_sum_Inr_iff split: sum.splits)
qed

lemma map_fst_dict_set: "map_of d k = Some x \<Longrightarrow> map fst (dict_set k v d) = map fst d"
  by (induction k v d rule: dict_set.induct) (auto split: if_splits)

lemma list_all_dict_set:
  "list_all (\<lambda>(k, x). P x) d \<Longrightarrow> P v \<Longrightarrow> list_all (\<lambda>(k, x). P x) (dict_set k v d)"
  by (induction k v d rule: dict_set.induct) auto

lemma conf_ok_put:
  "conf_ok F (CData g c fs) \<Longrightarrow> map_of fs f = Some x \<Longrightarrow> conf_ok F y \<Longrightarrow> conf_ok F (CData g c (dict_set f y fs))"
  "conf_ok F (CMap es) \<Longrightarrow> conf_ok F y \<Longrightarrow> conf_ok F (CMap (dict_set f y es))"
  by (simp_all add: map_fst_dict_set list_all_dict_set)

lemma coerce_like_ok: "pv_ok v \<Longrightarrow> coerce_like to_float cur v = Inr x \<Longrightarrow> conf_ok F x"
  using conf_ok_lift [of v F]
  by (cases cur) (auto simp: coerce_like_def Let_def map_sum_Inr_iff split: pyval.splits if_splits option.splits)

lemma conf_set_ok:
  "conf_ok F node \<Longrightarrow> pv_ok v \<Longrightarrow> conf_set to_float path ps v node = Inr x \<Longrightarrow> conf_ok F x"
proof (induction to_float path ps v node arbitrary: x rule: conf_set.induct)
  case (1 to_float path v node)
  then show ?case by simp
next
  case (2 to_float path leaf v node)
  show ?case
  proof (cases node)
    case (CData g c fs)
    with 2 show ?thesis
      by (auto simp: map_sum_Inr_iff coerce_like_ok conf_ok_put(1) simp del: conf_ok.simps split: option.splits)
  next
    case (CMap es)
    with 2 conf_ok_lift show ?thesis by (auto simp: conf_ok_put(2) simp del: conf_ok.simps)
  qed (use 2 in simp)
next
  case (3 to_float path f p ps v node)
  show ?case
  proof (cases node)
    case (CData g c fs)
    then obtain y z where y: "map_of fs f = Some y" and z: "conf_set to_float path (p # ps) v y = Inr z"
      and x: "x = CData g c (dict_set f z fs)"
      using "3.prems"(3) by (auto simp: map_sum_Inr_iff split: option.splits)
    have "conf_ok F y" using "3.prems"(1) y CData by (auto intro: ok_entry)
    with "3.IH"(1) [OF CData y _ "3.prems"(2) z] "3.prems"(1) y CData show ?thesis unfolding x by (metis conf_ok_put(1))
  next
    case (CMap es)
    then obtain y z where y: "map_of es f = Some y" and z: "conf_set to_float path (p # ps) v y = Inr z"
      and x: "x = CMap (dict_set f z es)"
      using "3.prems"(3) by (auto simp: map_sum_Inr_iff split: option.splits)
    have "conf_ok F y" using "3.prems"(1) y CMap by (auto intro: ok_entry)
    with "3.IH"(2) [OF CMap y _ "3.prems"(2) z] "3.prems"(1) y CMap show ?thesis unfolding x by (metis conf_ok_put(2))
  qed (use 3 in simp)
qed

lemma set_all_ok:
  "conf_ok F cfg \<Longrightarrow> list_all (\<lambda>(p, v). pv_ok v) changes \<Longrightarrow> set_all to_float changes cfg = Inr c \<Longrightarrow> conf_ok F c"
proof (induction changes arbitrary: cfg)
  case Nil
  then show ?case by simp
next
  case (Cons q changes)
  obtain p v where q: "q = (p, v)" by (cases q)
  then obtain cfg' where s: "conf_set to_float p (split_on (CHR ''.'') p) v cfg = Inr cfg'"
    and r: "set_all to_float changes cfg' = Inr c"
    using Cons.prems(3) by (auto split: sum.splits)
  have "conf_ok F cfg'" using conf_set_ok [OF Cons.prems(1) _ s] Cons.prems(2) q by simp
  with Cons.IH [OF this _ r] Cons.prems(2) show ?case by simp
qed

text \<open>The field names of each class of the configuration.\<close>

fun classes :: "conf_type \<Rightarrow> (string \<times> string list) list" where
  "classes TAny = []"
| "classes (TData c fs) = (c, map fst fs) # concat (map (\<lambda>(f, t, d). classes t) fs)"
| "classes (TMapOf t) = classes t"

definition class_fields :: "string \<Rightarrow> string list" where
  "class_fields c = (case map_of (classes CONFIG) c of None \<Rightarrow> [] | Some fs \<Rightarrow> fs)"

lemma config_schema_ok: "schema_ok class_fields CONFIG"
  by code_simp

lemma candidate_ok:
  assumes "conf_ok class_fields (ss_config S)" and "list_all (\<lambda>(p, v). pv_ok v) changes"
    and "candidate to_float changes S = Inr c"
  shows "conf_ok class_fields c \<and> conf_validate c = None"
proof -
  obtain copy where b: "build (ss_built S) CONFIG (asdict (ss_config S)) = Inr copy"
    and s: "set_all to_float changes copy = Inr c" and v: "conf_validate c = None"
    using assms(3) by (auto simp: candidate_def split: sum.splits option.splits)
  have "conf_ok class_fields copy" by (rule build_ok(1) [OF config_schema_ok pv_ok_asdict [OF assms(1)] b])
  with set_all_ok [OF this assms(2) s] v show ?thesis by simp
qed


subsection \<open>What is saved loads back\<close>

fun is_object :: "conf \<Rightarrow> bool" where
  "is_object (CData g c fs) = True"
| "is_object _ = False"

function typed :: "conf_type \<Rightarrow> conf \<Rightarrow> bool"
and typed_fields :: "(string \<times> conf_type \<times> conf) list \<Rightarrow> (string \<times> conf) list \<Rightarrow> bool" where
  "typed TAny x = (lift (asdict x) = x)"
| "typed (TData c fs) x =
     (case x of CData g d gs \<Rightarrow> c = d \<and> typed_fields fs gs | CVal v \<Rightarrow> \<not> is_dict v | CMap es \<Rightarrow> False)"
| "typed (TMapOf t) x =
     (case x of CMap es \<Rightarrow> list_all (\<lambda>(k, y). is_class t \<and> is_object y \<and> typed t y) es
      | CVal v \<Rightarrow> \<not> is_dict v | CData g d gs \<Rightarrow> False)"
| "typed_fields [] gs = (gs = [])"
| "typed_fields ((f, t, d) # fs) gs =
     (case gs of [] \<Rightarrow> False | (f', y) # gs' \<Rightarrow> f = f' \<and> typed t y \<and> typed_fields fs gs')"
  by pat_completeness auto
termination
  by (relation "measure (\<lambda>x. case x of
      Inl (t, x) \<Rightarrow> size t
    | Inr (fs, gs) \<Rightarrow> size_list (size_prod (\<lambda>x. 0) (size_prod size (\<lambda>x. 0))) fs)") auto

lemma mark_lift: "mark g (lift v) = lift v"
  by (induction v rule: lift.induct) auto

lemma lift_plain: "\<not> is_dict v \<Longrightarrow> lift v = CVal v"
  by (cases v) auto

lemma is_dict_asdict: "is_object x \<Longrightarrow> \<exists>d. asdict x = PDict d"
  by (cases x) auto

lemma build_asdict:
  "conf_ok F x \<Longrightarrow> typed t x \<Longrightarrow> is_class t \<longrightarrow> is_object x \<Longrightarrow> build g t (asdict x) = Inr (mark g x)"
  "list_all (\<lambda>(f, y). conf_ok F y) gs \<Longrightarrow> typed_fields fs gs \<Longrightarrow>
     (\<forall>(f, y) \<in> set gs. map_of d f = Some (asdict y)) \<Longrightarrow>
     build_fields g fs d = Inr (map (\<lambda>(f, y). (f, mark g y)) gs)"
proof (induction t x and fs gs arbitrary: and d rule: typed_typed_fields.induct)
  case (1 x)
  then have "mark g x = x" using mark_lift by (metis typed.simps(1))
  with 1 show ?case by simp
next
  case (2 c fs x)
  then obtain h gs where x: "x = CData h c gs" by (cases x) auto
  have ok: "dict_ok gs" using "2.prems"(1) by (simp add: x dict_ok_def)
  have "\<forall>(f, y) \<in> set gs. map_of (map (\<lambda>(f, x). (f, asdict x)) gs) f = Some (asdict y)"
    using ok by (auto simp: map_of_map map_of_member)
  with 2 x show ?case by (simp add: id_def)
next
  case (3 t x)
  show ?case
  proof (cases x)
    case (CVal v)
    with 3 show ?thesis by (cases v) auto
  next
    case (CMap es)
    have "build g t (asdict (snd q)) = Inr (mark g (snd q))" if "q \<in> set es" for q
      using "3.IH" [OF CMap that, of "fst q" "snd q"] "3.prems" that by (fastforce simp: CMap list_all_iff case_prod_beta)
    then have "\<forall>q \<in> set es. build g t (asdict (snd q)) = Inr (mark g (snd q))" by blast
    then have "build_entries g t (map (\<lambda>(k, x). (k, asdict x)) es) = Inr (map (\<lambda>(k, x). (k, mark g x)) es)"
      by (induction es) (simp_all add: case_prod_beta)
    with CMap show ?thesis by simp
  qed (use 3 in simp)
next
  case (4 gs)
  then show ?case by simp
next
  case (5 f t dflt fs gs)
  then obtain y gs' where gs: "gs = (f, y) # gs'" and t: "typed t y" "typed_fields fs gs'" by (auto split: list.splits)
  have y: "map_of d f = Some (asdict y)" and rest: "\<forall>(f, y) \<in> set gs'. map_of d f = Some (asdict y)"
    using "5.prems"(3) by (auto simp: gs)
  have "build_one g t d' (Some (asdict y)) = Inr (mark g y)" for d'
  proof (cases "is_class t \<and> \<not> is_dict (asdict y)")
    case True
    then obtain v where "y = CVal v" using t(1) by (cases t; cases y) auto
    with True show ?thesis by (simp add: lift_plain)
  next
    case False
    then have "is_class t \<longrightarrow> is_object y" using t(1) by (cases t; cases y) auto
    with False "5.IH"(1) [OF gs refl] t "5.prems"(1) gs show ?thesis by auto
  qed
  moreover have "build_fields g fs d = Inr (map (\<lambda>(f, y). (f, mark g y)) gs')"
    using "5.IH"(2) [OF gs refl _ t(2) rest] "5.prems"(1) gs by simp
  ultimately show ?case using y by (simp add: gs)
qed


subsection \<open>Witnesses\<close>

definition float_of_text :: "string \<Rightarrow> pyval" where
  "float_of_text t = PFloat (the (map_of [(''0.3'', 3/10), (''0.7'', 7/10), (''1.0'', 1), (''-45.0'', - 45), (''0.0'', 0)] t)) t"

definition fresh_settings :: settings where
  "fresh_settings =
     \<lparr>ss_config = default_of CONFIG, ss_path = ''config.json'', ss_file = None, ss_stamp = (0, 0), ss_complained = False,
      ss_bus = True, ss_built = 1\<rparr>"

lemma fresh_ok: "conf_ok class_fields (ss_config fresh_settings)" "typed CONFIG (ss_config fresh_settings)"
  "json_ok float_of_text (asdict (ss_config fresh_settings))"
  by code_simp+


lemma adopting_moves_values_not_objects_witness:
  "adopt_value [] (CData 1 ''C'' [(''a'', CData 2 ''D'' [(''x'', CVal (PInt 1))])])
      (CData 8 ''C'' [(''a'', CData 9 ''D'' [(''x'', CVal (PInt 5))])]) =
     (CData 1 ''C'' [(''a'', CData 2 ''D'' [(''x'', CVal (PInt 5))])], [''a.x'']) \<and>
   object_at [''a''] (CData 1 ''C'' [(''a'', CData 2 ''D'' [(''x'', CVal (PInt 5))])]) = Some (2, ''D'')"
proof -
  let ?F = "\<lambda>c. if c = ''C'' then [''a''] else [''x'']"
  let ?cur = "CData 1 ''C'' [(''a'', CData 2 ''D'' [(''x'', CVal (PInt 1))])]"
  let ?inc = "CData 8 ''C'' [(''a'', CData 9 ''D'' [(''x'', CVal (PInt 5))])]"
  have a: "adopt_value [] ?cur ?inc = (CData 1 ''C'' [(''a'', CData 2 ''D'' [(''x'', CVal (PInt 5))])], [''a.x''])"
    by (simp add: adopt_value.simps sub_path_def py_eq_def)
  have "object_at [''a''] (CData 1 ''C'' [(''a'', CData 2 ''D'' [(''x'', CVal (PInt 5))])]) = object_at [''a''] ?cur"
    by (rule adopting_moves_values_not_objects [of ?F, OF _ _ a, THEN conjunct2, THEN conjunct2, rule_format]) simp_all
  with a show ?thesis by simp
qed

text \<open>A value of the right type and the wrong meaning is refused; the file and the window stay as they were.\<close>

lemma purple_refused:
  "candidate (\<lambda>v. Inl Cancellation) [(''appearance.theme'', PStr ''purple'')] fresh_settings =
     Inl (config_error (''appearance.theme'' @ '': '' @ [CHR 0xE2, CHR 0x80, CHR 0x9E] @ ''purple'' @ [CHR 0xE2, CHR 0x80, CHR 0x9D] @ '' nie jest jedn'' @ pl_a @ '' z '' @ ''system, dark, light''))"
  by code_simp


text \<open>A provider given as a dict is stored as a dict, which no reader of the provider table expects; only
  a restart makes an object of it.\<close>

lemma provider_dict_is_untyped:
  "\<exists>c. candidate (\<lambda>v. Inl Cancellation)
      [(''models.providers.openai'', PDict [(''key_ref'', PStr ''vault://k'')])] fresh_settings = Inr c \<and>
     conf_get ''models.providers.openai'' c = Inr (CMap [(''key_ref'', CVal (PStr ''vault://k''))]) \<and> \<not> typed CONFIG c"
proof -
  let ?set = "conf_set (\<lambda>v. Inl Cancellation) ''models.providers.openai''
      [''models'', ''providers'', ''openai''] (PDict [(''key_ref'', PStr ''vault://k'')]) (default_of CONFIG)"
  let ?ok = "\<lambda>c. conf_get ''models.providers.openai'' c = Inr (CMap [(''key_ref'', CVal (PStr ''vault://k''))]) \<and> \<not> typed CONFIG c"
  have "case candidate (\<lambda>v. Inl Cancellation)
      [(''models.providers.openai'', PDict [(''key_ref'', PStr ''vault://k'')])] fresh_settings of Inl e \<Rightarrow> False | Inr c \<Rightarrow> ?ok c"
    by code_simp
  then show ?thesis by (auto split: sum.splits)
qed

end
