(* ===== verification/Capabilities.thy ===== *)
theory Capabilities
  imports Actions
begin

section \<open>Capabilities (capabilities/base.py, capabilities/registry.py, capabilities/processes.py)\<close>

text \<open>
  A capability declares its inputs, the evidence its verifier requires, an executor and a verifier;
  \<open>cap_perform\<close> is the one way to run one. Executors and verifiers work on the world they see, a
  type parameter, and may raise. A verifier is one of the two the package offers or one of a
  capability's own; the evidence verifier looks its capability up in the registry, which is why it is
  a name here and not a function. Parameters: \<open>platform\<close> (\<open>sys.platform\<close>), \<open>to_float\<close>
  (the \<open>float\<close> constructor) and the process table that \<open>windows.process.list\<close> reads.
\<close>

subsection \<open>Declarations\<close>

datatype risk = Risk_READ | Risk_REVERSIBLE | Risk_DISRUPTIVE | Risk_IRREVERSIBLE

fun risk_value :: "risk \<Rightarrow> string" where
  "risk_value Risk_READ = ''read''"
| "risk_value Risk_REVERSIBLE = ''reversible''"
| "risk_value Risk_DISRUPTIVE = ''disruptive''"
| "risk_value Risk_IRREVERSIBLE = ''irreversible''"

datatype permission =
  Perm_NONE | Perm_SYSTEM_READ | Perm_AUDIO | Perm_DESKTOP | Perm_PROCESS | Perm_FILES | Perm_NETWORK

fun permission_value :: "permission \<Rightarrow> string" where
  "permission_value Perm_NONE = ''none''"
| "permission_value Perm_SYSTEM_READ = ''system.read''"
| "permission_value Perm_AUDIO = ''audio''"
| "permission_value Perm_DESKTOP = ''desktop''"
| "permission_value Perm_PROCESS = ''process''"
| "permission_value Perm_FILES = ''files''"
| "permission_value Perm_NETWORK = ''network''"

record cap_field =
  fd_name :: string
  fd_type :: string
  fd_description :: string
  fd_required :: bool
  fd_check :: "(pyval \<Rightarrow> bool) option"

record cap_outcome =
  co_ok :: bool
  co_value :: pyval
  co_evidence :: pydict
  co_error :: string
  co_uncertain :: bool

record cap_verdict =
  cv_ok :: bool
  cv_checked :: bool
  cv_note :: string
  cv_missing :: "string list"

definition cap_unchecked :: "string \<Rightarrow> cap_verdict" where
  "cap_unchecked why = \<lparr>cv_ok = False, cv_checked = False, cv_note = why, cv_missing = []\<rparr>"

record invocation =
  iv_capability :: string
  iv_args :: pydict
  iv_effect :: string

definition iv_get :: "invocation \<Rightarrow> string \<Rightarrow> pyval \<Rightarrow> pyval" where
  "iv_get i name dflt = (case map_of (iv_args i) name of None \<Rightarrow> dflt | Some v \<Rightarrow> v)"

type_synonym 'w cap_executor = "invocation \<Rightarrow> 'w \<Rightarrow> (exn + cap_outcome) \<times> 'w"

datatype 'w cap_verifier =
    AlwaysUnchecked
  | EvidenceVerifier string
  | OwnVerifier "invocation \<Rightarrow> cap_outcome \<Rightarrow> 'w \<Rightarrow> (exn + cap_verdict) \<times> 'w"

record 'w capability_decl =
  cb_id :: string
  cb_version :: int
  cb_summary :: string
  cb_risk :: risk
  cb_permission :: permission
  cb_executor :: "'w cap_executor"
  cb_verifier :: "'w cap_verifier"
  cb_inputs :: "cap_field list"
  cb_outputs :: "cap_field list"
  cb_evidence :: "cap_field list"
  cb_platforms :: "string list"
  cb_needs_model :: bool
  cb_needs_approval :: bool
  cb_exposed :: bool

definition cap_supported :: "string \<Rightarrow> 'w capability_decl \<Rightarrow> bool" where
  "cap_supported platform c = (platform \<in> set (cb_platforms c))"

subsection \<open>Arguments and evidence\<close>

text \<open>What \<open>int\<close> says when it refuses.\<close>

definition int_refusal :: "pyval \<Rightarrow> string" where
  "int_refusal v =
     (case v of
        PStr s \<Rightarrow> ''invalid literal for int() with base 10: '' @ repr_str s
      | _ \<Rightarrow> (''int() argument must be a string, a bytes-like object or a real number, not '') @ repr_str (type_name v))"

definition cap_refused :: "string \<Rightarrow> cap_field \<Rightarrow> string \<Rightarrow> exn" where
  "cap_refused w f message = PyExn ''ValueError'' (w @ '': '' @ fd_name f @ ('' '' @ em_dash @ '' '') @ message)"

definition cap_coerce ::
  "(pyval \<Rightarrow> exn + rat \<times> string) \<Rightarrow> string \<Rightarrow> cap_field \<Rightarrow> pyval \<Rightarrow> exn + pyval" where
  "cap_coerce to_float w f v =
     (if fd_type f = ''int'' then
        (case py_int v of Some i \<Rightarrow> Inr (PInt i) | None \<Rightarrow> Inl (cap_refused w f (int_refusal v)))
      else if fd_type f = ''float'' then
        (case to_float v of
           Inr (r, t) \<Rightarrow> Inr (PFloat r t)
         | Inl x \<Rightarrow> Inl (case x of
             PyExn t m \<Rightarrow> if t \<in> {''TypeError'', ''ValueError''} then cap_refused w f m else x
           | _ \<Rightarrow> x))
      else if fd_type f = ''bool'' then Inr (PBool (truthy v))
      else if fd_type f = ''str'' then Inr (PStr (py_str v))
      else if fd_type f = ''list'' then
        (case v of PList xs \<Rightarrow> Inr (PList xs) | _ \<Rightarrow> Inl (cap_refused w f (type_name v)))
      else if fd_type f = ''dict'' then
        (case v of PDict d \<Rightarrow> Inr (PDict d) | _ \<Rightarrow> Inl (cap_refused w f (type_name v)))
      else Inr v)"

fun cap_validate_from ::
  "(pyval \<Rightarrow> exn + rat \<times> string) \<Rightarrow> string \<Rightarrow> pydict \<Rightarrow> cap_field list \<Rightarrow> pydict \<Rightarrow> exn + pydict" where
  "cap_validate_from to_float w args [] out = Inr out"
| "cap_validate_from to_float w args (f # fs) out =
     (case map_of args (fd_name f) of
        None \<Rightarrow>
          if fd_required f
          then Inl (PyExn ''ValueError'' (w @ '': brakuje parametru '' @ repr_str (fd_name f)))
          else cap_validate_from to_float w args fs out
      | Some v \<Rightarrow>
          (case cap_coerce to_float w f v of
             Inl x \<Rightarrow> Inl x
           | Inr v' \<Rightarrow> cap_validate_from to_float w args fs (dict_set (fd_name f) v' out)))"

definition cap_validate ::
  "(pyval \<Rightarrow> exn + rat \<times> string) \<Rightarrow> 'w capability_decl \<Rightarrow> pydict \<Rightarrow> exn + pydict" where
  "cap_validate to_float c args = cap_validate_from to_float (cb_id c) args (cb_inputs c) []"

definition field_gap :: "cap_outcome \<Rightarrow> cap_field \<Rightarrow> bool" where
  "field_gap o' f =
     (case map_of (co_evidence o') (fd_name f) of
        None \<Rightarrow> fd_required f
      | Some v \<Rightarrow> (case fd_check f of None \<Rightarrow> False | Some p \<Rightarrow> \<not> p v))"

definition missing_evidence :: "'w capability_decl \<Rightarrow> cap_outcome \<Rightarrow> string list" where
  "missing_evidence c o' = map fd_name (filter (field_gap o') (cb_evidence c))"

subsection \<open>The registry\<close>

record performed =
  pf_capability :: string
  pf_version :: int
  pf_outcome :: cap_outcome
  pf_verdict :: cap_verdict
  pf_effect :: string

definition pf_ok :: "performed \<Rightarrow> bool" where
  "pf_ok p = co_ok (pf_outcome p)"

definition pf_verified :: "performed \<Rightarrow> bool" where
  "pf_verified p = (cv_ok (pf_verdict p) \<and> cv_checked (pf_verdict p))"

definition performed_to_dict :: "performed \<Rightarrow> pydict" where
  "performed_to_dict p =
     [(''capability'', PStr (pf_capability p)), (''version'', PInt (pf_version p)),
      (''ok'', PBool (co_ok (pf_outcome p))), (''uncertain'', PBool (co_uncertain (pf_outcome p))),
      (''value'', co_value (pf_outcome p)), (''evidence'', PDict (co_evidence (pf_outcome p))),
      (''error'', PStr (co_error (pf_outcome p))), (''verified'', PBool (pf_verified p)),
      (''checked'', PBool (cv_checked (pf_verdict p))), (''note'', PStr (cv_note (pf_verdict p))),
      (''missing'', PList (map PStr (cv_missing (pf_verdict p)))), (''effect_id'', PStr (pf_effect p))]"

record 'w cap_registry =
  cr_by_id :: "(string \<times> 'w capability_decl) list"
  cr_performed :: "(string \<times> performed) list"

definition empty_registry :: "'w cap_registry" where
  "empty_registry = \<lparr>cr_by_id = [], cr_performed = []\<rparr>"

definition cr_add :: "'w capability_decl \<Rightarrow> 'w cap_registry \<Rightarrow> exn + 'w cap_registry" where
  "cr_add c R =
     (case map_of (cr_by_id R) (cb_id c) of
        Some e \<Rightarrow>
          if cb_version e \<noteq> cb_version c
          then Inl (PyExn ''ValueError'' (cb_id c @ '': wersja '' @ int_str (cb_version e) @ ('' jest ju'' @ pl_z @ '' zarejestrowana'')))
          else Inr (R\<lparr>cr_by_id := dict_set (cb_id c) c (cr_by_id R)\<rparr>)
      | None \<Rightarrow> Inr (R\<lparr>cr_by_id := dict_set (cb_id c) c (cr_by_id R)\<rparr>))"

definition cr_has :: "'w cap_registry \<Rightarrow> string \<Rightarrow> bool" where
  "cr_has R i = (map_of (cr_by_id R) i \<noteq> None)"

definition cr_get :: "'w cap_registry \<Rightarrow> string \<Rightarrow> exn + 'w capability_decl" where
  "cr_get R i =
     (case map_of (cr_by_id R) i of
        Some c \<Rightarrow> Inr c
      | None \<Rightarrow> Inl (Garis (unsupported_error (''Nie znam zdolno'' @ (pl_s @ ''ci '') @ repr_str i) None)))"

definition cr_all :: "'w cap_registry \<Rightarrow> 'w capability_decl list" where
  "cr_all R = map snd (cr_by_id R)"

definition usable_here :: "string \<Rightarrow> 'w cap_registry \<Rightarrow> 'w capability_decl list" where
  "usable_here platform R = filter (cap_supported platform) (cr_all R)"

definition catalogue_field :: "cap_field \<Rightarrow> pyval" where
  "catalogue_field f = PDict
     [(''name'', PStr (fd_name f)), (''type'', PStr (fd_type f)), (''required'', PBool (fd_required f)),
      (''description'', PStr (fd_description f))]"

definition cap_catalogue :: "string \<Rightarrow> 'w cap_registry \<Rightarrow> pydict list" where
  "cap_catalogue platform R =
     map (\<lambda>c. [(''id'', PStr (cb_id c)), (''version'', PInt (cb_version c)), (''summary'', PStr (cb_summary c)),
        (''risk'', PStr (risk_value (cb_risk c))), (''permission'', PStr (permission_value (cb_permission c))),
        (''needs_approval'', PBool (cb_needs_approval c)),
        (''inputs'', PList (map catalogue_field (cb_inputs c)))])
       (filter (\<lambda>c. cb_exposed c \<and> cap_supported platform c) (cr_all R))"

definition forget_effects :: "'w cap_registry \<Rightarrow> 'w cap_registry" where
  "forget_effects R = R\<lparr>cr_performed := []\<rparr>"

subsection \<open>Running one\<close>

definition evidence_verdict :: "'w cap_registry \<Rightarrow> string \<Rightarrow> invocation \<Rightarrow> cap_outcome \<Rightarrow> exn + cap_verdict" where
  "evidence_verdict R note i o' =
     (case cr_get R (iv_capability i) of
        Inl x \<Rightarrow> Inl x
      | Inr c \<Rightarrow> Inr
          (if cb_evidence c = [] then
             cap_unchecked (''Ta zdolno'' @ pl_s @ pl_c @ '' nie deklaruje '' @ pl_z @ ''adnych dowod'' @ pl_o @ ''w do sprawdzenia.'')
           else if \<not> co_ok o' then
             \<lparr>cv_ok = False, cv_checked = True,
              cv_note = (if co_error o' = [] then ''Nie powiod'' @ pl_l @ ''o si'' @ pl_e @ ''.'' else co_error o'), cv_missing = []\<rparr>
           else let gaps = missing_evidence c o' in
             if gaps \<noteq> [] then
               \<lparr>cv_ok = False, cv_checked = True,
                cv_note = (''Brakuje dowod'' @ pl_o @ ''w wykonania: '') @ join '', '' gaps, cv_missing = gaps\<rparr>
             else \<lparr>cv_ok = True, cv_checked = True, cv_note = note, cv_missing = []\<rparr>))"

fun run_verifier ::
  "'w cap_registry \<Rightarrow> 'w cap_verifier \<Rightarrow> invocation \<Rightarrow> cap_outcome \<Rightarrow> 'w \<Rightarrow> (exn + cap_verdict) \<times> 'w" where
  "run_verifier R AlwaysUnchecked i o' w =
     (Inr (cap_unchecked (''Nie ma sprawdzenia po fakcie dla tej zdolno'' @ pl_s @ ''ci.'')), w)"
| "run_verifier R (EvidenceVerifier note) i o' w = (evidence_verdict R note i o', w)"
| "run_verifier R (OwnVerifier f) i o' w = f i o' w"

definition bad_run :: "'w capability_decl \<Rightarrow> string \<Rightarrow> string \<Rightarrow> string \<Rightarrow> performed" where
  "bad_run c error note e =
     \<lparr>pf_capability = cb_id c, pf_version = cb_version c,
      pf_outcome = \<lparr>co_ok = False, co_value = PNone, co_evidence = [], co_error = error, co_uncertain = False\<rparr>,
      pf_verdict = \<lparr>cv_ok = False, cv_checked = True, cv_note = note, cv_missing = []\<rparr>, pf_effect = e\<rparr>"

text \<open>
  The first half of \<open>perform\<close>, up to the first \<open>await\<close>: either the call is answered at once,
  or it goes to the executor with checked arguments.
\<close>

datatype 'w admission = Answered "exn + performed" | Admitted "'w capability_decl" invocation

definition cap_admit ::
  "string \<Rightarrow> (pyval \<Rightarrow> exn + rat \<times> string) \<Rightarrow> 'w cap_registry \<Rightarrow> string \<Rightarrow> pydict \<Rightarrow> string \<Rightarrow> 'w admission" where
  "cap_admit platform to_float R i args e =
     (case cr_get R i of
        Inl x \<Rightarrow> Answered (Inl x)
      | Inr c \<Rightarrow>
          if \<not> cap_supported platform c then
            Answered (Inr (bad_run c
              (cb_id c @ ('' nie dzia'' @ pl_l @ ''a na tym systemie ('') @ platform @ (''); obs'' @ pl_l @ ''ugiwane: '') @ join '', '' (cb_platforms c))
              (''Zdolno'' @ pl_s @ pl_c @ '' nieobs'' @ pl_l @ ''ugiwana tutaj.'') e))
          else (case (if e = [] then None else map_of (cr_performed R) e) of
             Some p \<Rightarrow> Answered (Inr p)
           | None \<Rightarrow>
               (case cap_validate to_float c args of
                  Inl x \<Rightarrow>
                    (case x of
                       PyExn t m \<Rightarrow>
                         if t = ''ValueError'' then Answered (Inr (bad_run c m (''Z'' @ pl_l @ ''e parametry '' @ em_dash @ '' nic nie zrobi'' @ pl_l @ ''em.'') e))
                         else Answered (Inl x)
                     | _ \<Rightarrow> Answered (Inl x))
                | Inr checked \<Rightarrow> Admitted c \<lparr>iv_capability = cb_id c, iv_args = checked, iv_effect = e\<rparr>)))"

text \<open>The executor, with \<open>except Exception\<close> around it.\<close>

definition crashed :: "'w capability_decl \<Rightarrow> exn \<Rightarrow> cap_outcome" where
  "crashed c x =
     \<lparr>co_ok = False, co_value = PNone, co_evidence = [], co_error = exn_name x @ '': '' @ exn_text x,
      co_uncertain = (cb_risk c \<noteq> Risk_READ)\<rparr>"

definition cap_execute :: "'w capability_decl \<Rightarrow> invocation \<Rightarrow> 'w \<Rightarrow> (exn + cap_outcome) \<times> 'w" where
  "cap_execute c i w =
     (case cb_executor c i w of
        (Inl Cancellation, w') \<Rightarrow> (Inl Cancellation, w')
      | (Inl x, w') \<Rightarrow> (Inr (crashed c x), w')
      | (Inr o', w') \<Rightarrow> (Inr o', w'))"

text \<open>The verdict, and the effect remembered when the executor reported success.\<close>

definition cap_conclude ::
  "'w capability_decl \<Rightarrow> invocation \<Rightarrow> cap_outcome \<Rightarrow> 'w cap_registry \<Rightarrow> 'w \<Rightarrow> (exn + performed) \<times> 'w cap_registry \<times> 'w" where
  "cap_conclude c i o' R w =
     (case run_verifier R (cb_verifier c) i o' w of
        (Inl x, w') \<Rightarrow> (Inl x, R, w')
      | (Inr v, w') \<Rightarrow>
          (let p = \<lparr>pf_capability = cb_id c, pf_version = cb_version c, pf_outcome = o', pf_verdict = v,
                    pf_effect = iv_effect i\<rparr>
           in (Inr p,
               if iv_effect i \<noteq> [] \<and> co_ok o' then R\<lparr>cr_performed := dict_set (iv_effect i) p (cr_performed R)\<rparr> else R,
               w')))"

definition cap_perform ::
  "string \<Rightarrow> (pyval \<Rightarrow> exn + rat \<times> string) \<Rightarrow> string \<Rightarrow> pydict \<Rightarrow> string \<Rightarrow> 'w cap_registry \<times> 'w \<Rightarrow>
   (exn + performed) \<times> 'w cap_registry \<times> 'w" where
  "cap_perform platform to_float i args e Rw =
     (let (R, w) = Rw in
      case cap_admit platform to_float R i args e of
        Answered r \<Rightarrow> (r, R, w)
      | Admitted c iv \<Rightarrow>
          (case cap_execute c iv w of
             (Inl x, w') \<Rightarrow> (Inl x, R, w')
           | (Inr o', w') \<Rightarrow> cap_conclude c iv o' R w'))"

text \<open>A run of calls one after the other.\<close>

fun cap_perform_all ::
  "string \<Rightarrow> (pyval \<Rightarrow> exn + rat \<times> string) \<Rightarrow> (string \<times> pydict \<times> string) list \<Rightarrow> 'w cap_registry \<times> 'w \<Rightarrow>
   (exn + performed) list \<times> 'w cap_registry \<times> 'w" where
  "cap_perform_all platform to_float [] Rw = ([], Rw)"
| "cap_perform_all platform to_float ((i, args, e) # calls) Rw =
     (let (r, Rw1) = cap_perform platform to_float i args e Rw;
          (rs, Rw2) = cap_perform_all platform to_float calls Rw1
      in (r # rs, Rw2))"

subsection \<open>Which programs are running\<close>

definition MAX_ROWS :: int where "MAX_ROWS = 400"

definition row_name :: "pydict \<Rightarrow> string" where
  "row_name r = lower (case map_of r ''name'' of None \<Rightarrow> [] | Some v \<Rightarrow> py_str v)"

definition needle_of :: "string \<Rightarrow> string" where
  "needle_of s = lower (strip s)"

definition int_of :: "pyval \<Rightarrow> exn + int" where
  "int_of v = (case py_int v of Some i \<Rightarrow> Inr i
     | None \<Rightarrow> Inl (PyExn (case v of PStr s \<Rightarrow> ''ValueError'' | _ \<Rightarrow> ''TypeError'') (int_refusal v)))"

definition process_outcome :: "string \<Rightarrow> string \<Rightarrow> int \<Rightarrow> pydict list \<Rightarrow> cap_outcome" where
  "process_outcome platform needle limit rows =
     (if rows = [] then
        \<lparr>co_ok = False, co_value = PNone,
         co_evidence = [(''platform'', PStr platform), (''scanned'', PInt 0)],
         co_error = ''Nie uda'' @ pl_l @ ''o si'' @ pl_e @ '' odczyta'' @ pl_c @ '' listy proces'' @ pl_o @ ''w na tym systemie.'', co_uncertain = False\<rparr>
      else
        let matched = (if needle = [] then rows else filter (\<lambda>r. contains (row_name r) needle) rows);
            trimmed = take (nat (max 1 (min limit MAX_ROWS))) matched
        in \<lparr>co_ok = True,
            co_value = PDict
              [(''processes'', PList (map PDict trimmed)), (''matched'', PInt (int (length matched))),
               (''scanned'', PInt (int (length rows))), (''query'', PStr needle)],
            co_evidence =
              [(''platform'', PStr platform), (''scanned'', PInt (int (length rows))),
               (''matched'', PInt (int (length matched))),
               (''found'', if needle = [] then PNone else PBool (matched \<noteq> []))],
            co_error = [], co_uncertain = False\<rparr>)"

definition process_list :: "string \<Rightarrow> ('w \<Rightarrow> exn + pydict list) \<Rightarrow> 'w cap_executor" where
  "process_list platform processes iv w =
     (case int_of (or_else (iv_get iv ''limit'' (PInt 100)) (PInt 100)) of
        Inl x \<Rightarrow> (Inl x, w)
      | Inr limit \<Rightarrow>
          (case processes w of
             Inl x \<Rightarrow> (Inl x, w)
           | Inr rows \<Rightarrow>
               (Inr (process_outcome platform
                  (needle_of (str_or_empty (iv_get iv ''name'' (PStr [])))) limit rows), w)))"

definition scanned_enough :: "pyval \<Rightarrow> bool" where
  "scanned_enough v = (case v of PInt i \<Rightarrow> 0 < i | PBool b \<Rightarrow> b | _ \<Rightarrow> False)"

definition LIST_capability :: "string \<Rightarrow> ('w \<Rightarrow> exn + pydict list) \<Rightarrow> 'w capability_decl" where
  "LIST_capability platform processes =
     \<lparr>cb_id = ''windows.process.list'', cb_version = 1,
      cb_summary = ''Wypisuje dzia'' @ pl_l @ ''aj'' @ pl_a @ ''ce procesy, opcjonalnie filtruj'' @ pl_a @ ''c po nazwie.'',
      cb_risk = Risk_READ, cb_permission = Perm_SYSTEM_READ, cb_executor = process_list platform processes,
      cb_verifier = EvidenceVerifier (''Odczyta'' @ pl_l @ ''em list'' @ pl_e @ '' proces'' @ pl_o @ ''w.''),
      cb_inputs = [\<lparr>fd_name = ''name'', fd_type = ''str'', fd_description = ''Fragment nazwy procesu'', fd_required = False, fd_check = None\<rparr>,
        \<lparr>fd_name = ''limit'', fd_type = ''int'', fd_description = ''Ile pozycji zwr'' @ pl_o @ ''ci'' @ pl_c, fd_required = False, fd_check = None\<rparr>],
      cb_outputs = [\<lparr>fd_name = ''processes'', fd_type = ''list'', fd_description = ''Znalezione procesy'', fd_required = True, fd_check = None\<rparr>,
        \<lparr>fd_name = ''matched'', fd_type = ''int'', fd_description = ''Ile pasuje do zapytania'', fd_required = True, fd_check = None\<rparr>,
        \<lparr>fd_name = ''scanned'', fd_type = ''int'', fd_description = ''Ile proces'' @ pl_o @ ''w przejrzano'', fd_required = True, fd_check = None\<rparr>],
      cb_evidence = [\<lparr>fd_name = ''platform'', fd_type = ''str'', fd_description = ''System, na kt'' @ pl_o @ ''rym mierzono'', fd_required = True, fd_check = None\<rparr>,
        \<lparr>fd_name = ''scanned'', fd_type = ''int'', fd_description = ''Ile proces'' @ pl_o @ ''w odczytano'', fd_required = True,
         fd_check = Some scanned_enough\<rparr>],
      cb_platforms = [''win32'', ''linux'', ''darwin''], cb_needs_model = False, cb_needs_approval = False,
      cb_exposed = True\<rparr>"

fun any_named :: "string \<Rightarrow> pyval list \<Rightarrow> exn + bool" where
  "any_named needle [] = Inr False"
| "any_named needle (PDict r # rows) =
     (if contains (row_name r) needle then Inr True else any_named needle rows)"
| "any_named needle (v # rows) = Inl (PyExn ''AttributeError'' [])"

definition is_running :: "pyval \<Rightarrow> string \<Rightarrow> exn + bool" where
  "is_running v name =
     (case v of
        PDict d \<Rightarrow>
          (case py_iter (case map_of d ''processes'' of None \<Rightarrow> PList [] | Some x \<Rightarrow> x) of
             None \<Rightarrow> Inl (PyExn ''TypeError'' [])
           | Some rows \<Rightarrow> any_named (needle_of name) rows)
      | _ \<Rightarrow> Inr False)"

subsection \<open>What validation guarantees\<close>

definition of_field_type :: "string \<Rightarrow> pyval \<Rightarrow> bool" where
  "of_field_type ty v =
     ((ty = ''int'' \<longrightarrow> (\<exists>i. v = PInt i)) \<and> (ty = ''float'' \<longrightarrow> (\<exists>r t. v = PFloat r t)) \<and>
      (ty = ''bool'' \<longrightarrow> (\<exists>b. v = PBool b)) \<and> (ty = ''str'' \<longrightarrow> (\<exists>s. v = PStr s)) \<and>
      (ty = ''list'' \<longrightarrow> (\<exists>xs. v = PList xs)) \<and> (ty = ''dict'' \<longrightarrow> (\<exists>d. v = PDict d)))"

lemma cap_coerce_typed:
  assumes "cap_coerce to_float w f v = Inr v'"
  shows "of_field_type (fd_type f) v'"
proof -
  consider "fd_type f = ''int''" | "fd_type f = ''float''" | "fd_type f = ''bool''" | "fd_type f = ''str''"
    | "fd_type f = ''list''" | "fd_type f = ''dict''"
    | "fd_type f \<notin> {''int'', ''float'', ''bool'', ''str'', ''list'', ''dict''}" by blast
  then show ?thesis
    using assms
    by cases (auto simp: cap_coerce_def of_field_type_def split: option.splits sum.splits pyval.splits)
qed

definition typed_entry :: "cap_field list \<Rightarrow> pydict \<Rightarrow> string \<Rightarrow> pyval \<Rightarrow> bool" where
  "typed_entry fs args k v = (\<exists>f \<in> set fs. fd_name f = k \<and> of_field_type (fd_type f) v \<and> k \<in> fst ` set args)"

lemma typed_entry_Cons:
  "typed_entry fs args k v \<Longrightarrow> typed_entry (f # fs) args k v"
  "of_field_type (fd_type f) v \<Longrightarrow> fd_name f \<in> fst ` set args \<Longrightarrow> typed_entry (f # fs) args (fd_name f) v"
  by (auto simp: typed_entry_def)

lemma cap_validate_entries:
  "cap_validate_from to_float w args fs out = Inr out' \<Longrightarrow> map_of out' k = Some v \<Longrightarrow>
     map_of out k = Some v \<or> typed_entry fs args k v"
proof (induction to_float w args fs out rule: cap_validate_from.induct)
  case (2 to_float w args f fs out)
  show ?case
  proof (cases "map_of args (fd_name f)")
    case None
    with 2 show ?thesis by (auto split: if_splits intro: typed_entry_Cons(1))
  next
    case (Some v1)
    then have present: "fd_name f \<in> fst ` set args" by (metis domI dom_map_of_conv_image_fst)
    from Some "2.prems"(1) obtain v' where v': "cap_coerce to_float w f v1 = Inr v'"
      and rest: "cap_validate_from to_float w args fs (dict_set (fd_name f) v' out) = Inr out'"
      by (auto split: sum.splits)
    from "2.IH"(2) [OF Some v' rest "2.prems"(2)] cap_coerce_typed [OF v'] present show ?thesis
      by (auto intro: typed_entry_Cons split: if_splits)
  qed
qed simp

lemma cap_validate_keys:
  "cap_validate_from to_float w args fs out = Inr out' \<Longrightarrow>
     (\<forall>f \<in> set fs. fd_required f \<longrightarrow> fd_name f \<in> fst ` set args) \<and>
     fst ` set out' = fst ` set out \<union> (fd_name ` set fs \<inter> fst ` set args) \<and> (dict_ok out \<longrightarrow> dict_ok out')"
proof (induction to_float w args fs out rule: cap_validate_from.induct)
  case (2 to_float w args f fs out)
  show ?case
  proof (cases "map_of args (fd_name f)")
    case None
    then have absent: "fd_name f \<notin> fst ` set args" by (simp add: map_of_eq_None_iff)
    with None "2.prems" have opt: "\<not> fd_required f" "cap_validate_from to_float w args fs out = Inr out'"
      by (auto split: if_splits)
    from "2.IH"(1) [OF None opt] opt(1) absent show ?thesis by simp
  next
    case (Some v1)
    then have present: "fd_name f \<in> fst ` set args" by (metis domI dom_map_of_conv_image_fst)
    from Some "2.prems"(1) obtain v' where v': "cap_coerce to_float w f v1 = Inr v'"
      and rest: "cap_validate_from to_float w args fs (dict_set (fd_name f) v' out) = Inr out'"
      by (auto split: sum.splits)
    from "2.IH"(2) [OF Some v' rest] present show ?thesis by simp
  qed
qed simp

subsection \<open>What a run amounts to\<close>

lemma cap_execute_ok:
  "cap_execute c i w = (Inr o', w') \<Longrightarrow> co_ok o' \<Longrightarrow> cb_executor c i w = (Inr o', w')"
  by (auto simp: cap_execute_def crashed_def split: prod.splits sum.splits exn.splits)

lemma evidence_verdict_verified:
  "evidence_verdict R note i o' = Inr v \<Longrightarrow> cv_ok v \<Longrightarrow> cr_get R (iv_capability i) = Inr c \<Longrightarrow>
     co_ok o' \<and> cb_evidence c \<noteq> [] \<and> missing_evidence c o' = []"
  by (auto simp: evidence_verdict_def cap_unchecked_def Let_def split: if_splits)

lemma no_missing_evidence:
  "missing_evidence c o' = [] \<longleftrightarrow> (\<forall>f \<in> set (cb_evidence c).
     (case map_of (co_evidence o') (fd_name f) of None \<Rightarrow> \<not> fd_required f
      | Some v \<Rightarrow> (case fd_check f of None \<Rightarrow> True | Some ok \<Rightarrow> ok v)))"
  by (auto simp: missing_evidence_def filter_empty_conv field_gap_def split: option.splits)

lemma cap_perform_cases:
  assumes "cap_perform platform to_float i args e (R, w) = (r, R', w')"
  obtains (answered) "cap_admit platform to_float R i args e = Answered r" "R' = R" "w' = w"
  | (ran) c iv w1 o' where "cap_admit platform to_float R i args e = Admitted c iv"
      "cap_execute c iv w = (Inr o', w1)" "cap_conclude c iv o' R w1 = (r, R', w')"
  | (cancelled) c iv where "cap_admit platform to_float R i args e = Admitted c iv"
      "R' = R" "\<exists>x. r = Inl x"
  using assms by (auto simp: cap_perform_def split: admission.splits prod.splits sum.splits)

lemma cap_admitted:
  "cap_admit platform to_float R i args e = Admitted c iv \<Longrightarrow>
     cr_get R i = Inr c \<and> cap_supported platform c \<and> (e \<noteq> [] \<longrightarrow> map_of (cr_performed R) e = None) \<and>
     cap_validate to_float c args = Inr (iv_args iv) \<and> iv_effect iv = e \<and> iv_capability iv = cb_id c"
  by (auto simp: cap_admit_def split: sum.splits if_splits option.splits exn.splits)

lemma cap_answered_ok:
  "cap_admit platform to_float R i args e = Answered (Inr p) \<Longrightarrow> pf_ok p \<Longrightarrow>
     e \<noteq> [] \<and> map_of (cr_performed R) e = Some p"
  by (auto simp: cap_admit_def pf_ok_def bad_run_def split: sum.splits if_splits option.splits exn.splits)

lemma cap_conclude_keeps:
  "cap_conclude c iv o' R w = (r, R', w') \<Longrightarrow> iv_effect iv \<noteq> e \<Longrightarrow>
     map_of (cr_performed R') e = map_of (cr_performed R) e"
  by (auto simp: cap_conclude_def Let_def split: prod.splits sum.splits if_splits)

lemma cap_conclude_registry: "cap_conclude c iv o' R w = (r, R', w') \<Longrightarrow> cr_by_id R' = cr_by_id R"
  by (auto simp: cap_conclude_def Let_def split: prod.splits sum.splits if_splits)

lemma cap_perform_keeps:
  assumes "cap_perform platform to_float i args e' (R, w) = (r, R', w')"
    and "map_of (cr_performed R) e = Some p" "e \<noteq> []"
  shows "map_of (cr_performed R') e = Some p"
  using assms(1)
proof (cases rule: cap_perform_cases)
  case (ran c iv w1 o')
  then have "iv_effect iv \<noteq> e" using cap_admitted [OF ran(1)] assms(2,3) by auto
  with cap_conclude_keeps [OF ran(3)] assms(2) show ?thesis by simp
qed (use assms in simp_all)

lemma cap_perform_all_keeps:
  "cap_perform_all platform to_float calls (R, w) = (rs, R', w') \<Longrightarrow>
     map_of (cr_performed R) e = Some p \<Longrightarrow> e \<noteq> [] \<Longrightarrow> map_of (cr_performed R') e = Some p"
proof (induction calls arbitrary: R w rs)
  case (Cons call calls)
  obtain i args e' where call: "call = (i, args, e')" by (cases call)
  obtain r R1 w1 where one: "cap_perform platform to_float i args e' (R, w) = (r, R1, w1)"
    by (metis prod_cases3)
  with Cons.prems(1) call obtain rs1 where "cap_perform_all platform to_float calls (R1, w1) = (rs1, R', w')"
    by (auto split: prod.splits)
  with Cons.IH Cons.prems(2,3) cap_perform_keeps [OF one] show ?case by blast
qed simp

lemma ok_effect_is_recorded:
  assumes "cap_perform platform to_float i args e (R, w) = (Inr p, R', w')" "pf_ok p" "e \<noteq> []"
  shows "map_of (cr_performed R') e = Some p"
  using assms(1)
proof (cases rule: cap_perform_cases)
  case answered
  with cap_answered_ok assms(2) show ?thesis by blast
next
  case (ran c iv w1 o')
  with cap_admitted [OF ran(1)] assms(2,3) show ?thesis
    by (auto simp: cap_conclude_def Let_def pf_ok_def split: prod.splits sum.splits if_splits)
qed simp

lemma recorded_is_replayed:
  assumes "map_of (cr_performed R) e = Some p" "e \<noteq> []" "cr_get R j = Inr c" "cap_supported platform c"
  shows "cap_perform platform to_float j args e (R, w) = (Inr p, R, w)"
  using assms by (simp add: cap_perform_def cap_admit_def)

text \<open>Registration keeps every capability under its own id.\<close>

definition registry_ok :: "'w cap_registry \<Rightarrow> bool" where
  "registry_ok R = (\<forall>i c. map_of (cr_by_id R) i = Some c \<longrightarrow> cb_id c = i)"

lemma registry_ok_empty: "registry_ok empty_registry"
  by (simp add: registry_ok_def empty_registry_def)

lemma registry_ok_add: "registry_ok R \<Longrightarrow> cr_add c R = Inr R' \<Longrightarrow> registry_ok R'"
  by (auto simp: registry_ok_def cr_add_def split: option.splits if_splits)

lemma registry_ok_perform:
  assumes "cap_perform platform to_float i args e (R, w) = (r, R', w')" "registry_ok R"
  shows "registry_ok R'"
  using assms(1)
proof (cases rule: cap_perform_cases)
  case (ran c iv w1 o')
  with cap_conclude_registry [OF ran(3)] assms(2) show ?thesis by (simp add: registry_ok_def)
qed (use assms(2) in simp_all)

lemma registered_id: "registry_ok R \<Longrightarrow> cr_get R i = Inr c \<Longrightarrow> cb_id c = i"
  by (auto simp: registry_ok_def cr_get_def split: option.splits)

subsection \<open>The process list\<close>

lemma process_list_ok:
  assumes "process_list platform processes iv w = (Inr o', w')" "co_ok o'"
  obtains rows limit where "processes w = Inr rows" "rows \<noteq> []"
    "o' = process_outcome platform (needle_of (str_or_empty (iv_get iv ''name'' (PStr [])))) limit rows"
  using assms by (auto simp: process_list_def process_outcome_def split: sum.splits if_splits)

lemma validated_name:
  assumes "cap_validate to_float (LIST_capability platform processes) args = Inr out"
  shows "str_or_empty (case map_of out ''name'' of None \<Rightarrow> PStr [] | Some v \<Rightarrow> v) =
    (case map_of args ''name'' of None \<Rightarrow> [] | Some v \<Rightarrow> py_str v)"
  using assms
  by (auto simp: cap_validate_def LIST_capability_def cap_coerce_def str_or_empty_def py_str_def
      split: option.splits if_splits sum.splits)

lemma any_named_all:
  "\<forall>r \<in> set rows. contains (row_name r) needle \<Longrightarrow> any_named needle (map PDict rows) = Inr (rows \<noteq> [])"
  by (cases rows) auto

abbreviation matches :: "string \<Rightarrow> pydict list \<Rightarrow> pydict list" where
  "matches needle rows \<equiv> (if needle = [] then rows else filter (\<lambda>r. contains (row_name r) needle) rows)"

lemma process_outcome_found:
  assumes "rows \<noteq> []" "needle_of name = needle" "needle \<noteq> []"
  shows "is_running (co_value (process_outcome platform needle limit rows)) name = Inr (matches needle rows \<noteq> []) \<and>
    dget (co_evidence (process_outcome platform needle limit rows)) ''found'' = PBool (matches needle rows \<noteq> [])"
proof -
  define shown where "shown = take (nat (max 1 (min limit MAX_ROWS))) (filter (\<lambda>r. contains (row_name r) needle) rows)"
  have "\<forall>r \<in> set shown. contains (row_name r) needle" by (auto simp: shown_def dest!: in_set_takeD)
  then have "any_named needle (map PDict shown) = Inr (shown \<noteq> [])" by (rule any_named_all)
  moreover have "shown = [] \<longleftrightarrow> matches needle rows = []" using assms(3) by (simp only: shown_def) simp
  moreover have "is_running (co_value (process_outcome platform needle limit rows)) name = any_named needle (map PDict shown)"
    using assms by (simp add: process_outcome_def is_running_def Let_def py_iter_def shown_def)
  moreover have "dget (co_evidence (process_outcome platform needle limit rows)) ''found'' = PBool (matches needle rows \<noteq> [])"
    using assms by (simp add: process_outcome_def Let_def dget_def)
  ultimately show ?thesis by simp
qed

lemma process_outcome_verdict:
  assumes "rows \<noteq> []" "map_of (cr_by_id R) ''windows.process.list'' = Some (LIST_capability platform processes)"
    "iv_capability iv = ''windows.process.list''"
  shows "\<exists>v. evidence_verdict R note iv (process_outcome platform needle limit rows) = Inr v \<and> cv_ok v \<and> cv_checked v"
  using assms
  by (simp add: evidence_verdict_def cr_get_def LIST_capability_def missing_evidence_def field_gap_def
      process_outcome_def scanned_enough_def Let_def)

subsection \<open>Properties\<close>

text \<open>C25: the arguments an executor gets are the declared ones. Every argument that passes validation is
  a declared input of its declared type, a declared input passes exactly when the caller gave it, the
  required ones are there, and nothing else gets through.\<close>

theorem capability_arguments_are_typed:
  assumes "cap_validate to_float c args = Inr out"
  shows "dict_ok out \<and>
    (\<forall>k v. map_of out k = Some v \<longrightarrow> (\<exists>f \<in> set (cb_inputs c). fd_name f = k \<and> of_field_type (fd_type f) v)) \<and>
    (\<forall>f \<in> set (cb_inputs c). (fd_name f \<in> fst ` set out \<longleftrightarrow> fd_name f \<in> fst ` set args) \<and>
       (fd_required f \<longrightarrow> fd_name f \<in> fst ` set out))"
proof -
  have v: "cap_validate_from to_float (cb_id c) args (cb_inputs c) [] = Inr out"
    using assms by (simp add: cap_validate_def)
  have "\<exists>f \<in> set (cb_inputs c). fd_name f = k \<and> of_field_type (fd_type f) x" if "map_of out k = Some x" for k x
    using cap_validate_entries [OF v that] by (auto simp: typed_entry_def)
  with cap_validate_keys [OF v] show ?thesis by auto
qed

definition sample_processes :: "nat \<Rightarrow> exn + pydict list" where
  "sample_processes w = Inr [[(''name'', PStr ''Discord''), (''pid'', PInt 7)], [(''name'', PStr ''sh'')]]"

definition sample_registry :: "nat cap_registry" where
  "sample_registry =
     \<lparr>cr_by_id = [(''windows.process.list'', LIST_capability ''linux'' sample_processes)], cr_performed = []\<rparr>"

theorem capability_arguments_are_typed_witness:
  "cap_validate (\<lambda>v. Inl Cancellation) (LIST_capability ''linux'' sample_processes)
     [(''limit'', PStr '' 5''), (''force'', PBool True)] = Inr [(''limit'', PInt 5)] \<and>
   of_field_type ''int'' (PInt 5)"
proof
  have five: "parse_int '' 5'' = Some 5"
    by (simp add: parse_int_def strip_def strip_by_def is_space_def is_digit_def byte_of_def)
  show v: "cap_validate (\<lambda>v. Inl Cancellation) (LIST_capability ''linux'' sample_processes)
     [(''limit'', PStr '' 5''), (''force'', PBool True)] = Inr [(''limit'', PInt 5)]"
    by (simp add: cap_validate_def LIST_capability_def cap_coerce_def five)
  have "\<exists>f \<in> set (cb_inputs (LIST_capability ''linux'' sample_processes)).
      fd_name f = ''limit'' \<and> of_field_type (fd_type f) (PInt 5)"
    using capability_arguments_are_typed [OF v] by simp
  then show "of_field_type ''int'' (PInt 5)" by (auto simp: LIST_capability_def)
qed



text \<open>An effect that succeeded is not performed again. Once a call with an effect id returned a successful
  result, every later call with that id, of any supported capability and after any number of other
  calls, changes nothing and returns that very result.\<close>

theorem capability_effect_is_not_repeated:
  assumes "cap_perform platform to_float i args e (R, w) = (Inr p, R1, w1)" "pf_ok p" "e \<noteq> []"
    and "cap_perform_all platform to_float calls (R1, w1) = (rs, R2, w2)"
    and "cr_get R2 j = Inr c" "cap_supported platform c"
  shows "cap_perform platform to_float j args' e (R2, w2) = (Inr p, R2, w2)"
  using recorded_is_replayed [OF cap_perform_all_keeps [OF assms(4) ok_effect_is_recorded [OF assms(1-3)] assms(3)]]
    assms(3,5,6) by blast

theorem capability_effect_is_not_repeated_witness:
  "\<exists>p R1. cap_perform ''linux'' (\<lambda>v. Inl Cancellation) ''windows.process.list'' [] ''e1'' (sample_registry, 0) =
     (Inr p, R1, 0) \<and>
   cap_perform ''linux'' (\<lambda>v. Inl Cancellation) ''windows.process.list'' [(''limit'', PInt 1)] ''e1'' (R1, 0) =
     (Inr p, R1, 0)"
proof -
  obtain p R1 where p: "cap_perform ''linux'' (\<lambda>v. Inl Cancellation) ''windows.process.list'' [] ''e1'' (sample_registry, 0) =
      (Inr p, R1, 0)" "pf_ok p" "cr_get R1 ''windows.process.list'' = Inr (LIST_capability ''linux'' sample_processes)"
    by (simp add: cap_perform_def cap_admit_def cr_get_def sample_registry_def cap_supported_def cap_validate_def
        LIST_capability_def cap_execute_def process_list_def iv_get_def or_else_def int_of_def
        sample_processes_def cap_conclude_def evidence_verdict_def process_outcome_def missing_evidence_def
        field_gap_def scanned_enough_def pf_ok_def Let_def)
  have "cap_perform ''linux'' (\<lambda>v. Inl Cancellation) ''windows.process.list'' [(''limit'', PInt 1)] ''e1'' (R1, 0) =
      (Inr p, R1, 0)"
    by (rule capability_effect_is_not_repeated [OF p(1,2) _ _ p(3), where calls = "[]"])
       (simp_all add: LIST_capability_def cap_supported_def)
  with p(1) show ?thesis by blast
qed

text \<open>"is that program running" is answered from what was read. A successful run of windows.process.list
  read a table that was not empty, is verified, shows between one and four hundred rows of the ones whose
  name contains the query, in order, and when a name was asked for, both the evidence field and
  is_running on the result say whether the table had such a row, however short the list shown is.\<close>

theorem process_list_is_measured:
  assumes "cap_perform platform to_float ''windows.process.list'' args [] (R, w) = (Inr p, R', w')" "pf_ok p"
    and "map_of (cr_by_id R) ''windows.process.list'' = Some (LIST_capability platform processes)"
    and "name = (case map_of args ''name'' of None \<Rightarrow> [] | Some v \<Rightarrow> py_str v)"
  shows "\<exists>rows n. processes w = Inr rows \<and> rows \<noteq> [] \<and> pf_verified p \<and> 1 \<le> n \<and> n \<le> 400 \<and>
    (\<exists>d. co_value (pf_outcome p) = PDict d \<and>
       dget d ''processes'' = PList (map PDict (take n (matches (needle_of name) rows)))) \<and>
    (needle_of name \<noteq> [] \<longrightarrow>
       is_running (co_value (pf_outcome p)) name = Inr (matches (needle_of name) rows \<noteq> []) \<and>
       dget (co_evidence (pf_outcome p)) ''found'' = PBool (matches (needle_of name) rows \<noteq> []))"
  using assms(1)
proof (cases rule: cap_perform_cases)
  case answered
  with cap_answered_ok assms(2) show ?thesis by blast
next
  case (ran c iv w1 o')
  let ?c = "LIST_capability platform processes"
  from cap_admitted [OF ran(1)] assms(3) have c: "c = ?c" and iv: "iv_capability iv = ''windows.process.list''"
    and args: "cap_validate to_float ?c args = Inr (iv_args iv)"
    by (auto simp: cr_get_def LIST_capability_def)
  from ran(3) c obtain v nt where v: "evidence_verdict R nt iv o' = Inr v"
    and p: "pf_outcome p = o'" "pf_verdict p = v"
    by (auto simp: cap_conclude_def Let_def LIST_capability_def split: prod.splits sum.splits)
  have "cb_executor ?c iv w = (Inr o', w1)" using cap_execute_ok [OF ran(2)] p assms(2) c by (simp add: pf_ok_def)
  then have "process_list platform processes iv w = (Inr o', w1)" by (simp add: LIST_capability_def)
  then obtain rows limit where rows: "processes w = Inr rows" "rows \<noteq> []"
    "o' = process_outcome platform (needle_of (str_or_empty (iv_get iv ''name'' (PStr [])))) limit rows"
    using process_list_ok p assms(2) by (metis pf_ok_def)
  have n: "str_or_empty (iv_get iv ''name'' (PStr [])) = name"
    using validated_name [OF args] assms(4) by (simp add: iv_get_def)
  have "pf_verified p"
    using process_outcome_verdict [OF rows(2) assms(3) iv] v p rows(3) n by (metis pf_verified_def sum.inject(2))
  moreover have "\<exists>d. co_value o' = PDict d \<and>
      dget d ''processes'' = PList (map PDict (take (nat (max 1 (min limit MAX_ROWS))) (matches (needle_of name) rows)))"
    using rows(2,3) n by (simp add: process_outcome_def Let_def dget_def)
  moreover have "1 \<le> nat (max 1 (min limit MAX_ROWS)) \<and> nat (max 1 (min limit MAX_ROWS)) \<le> 400"
    by (auto simp: MAX_ROWS_def)
  moreover have "needle_of name \<noteq> [] \<longrightarrow> is_running (co_value o') name = Inr (matches (needle_of name) rows \<noteq> []) \<and>
      dget (co_evidence o') ''found'' = PBool (matches (needle_of name) rows \<noteq> [])"
    using process_outcome_found [OF rows(2) refl, of name platform limit] rows(3) n by simp
  ultimately show ?thesis unfolding p(1) using rows(1,2) by blast
qed simp

theorem process_list_is_measured_witness:
  "\<exists>p. cap_perform ''linux'' (\<lambda>v. Inl Cancellation) ''windows.process.list'' [(''name'', PStr ''disco'')] []
      (sample_registry, 0) = (Inr p, sample_registry, 0) \<and>
    is_running (co_value (pf_outcome p)) ''disco'' = Inr True"
proof -
  obtain p where p: "cap_perform ''linux'' (\<lambda>v. Inl Cancellation) ''windows.process.list'' [(''name'', PStr ''disco'')] []
      (sample_registry, 0) = (Inr p, sample_registry, 0)" "pf_ok p"
    by (simp add: cap_perform_def cap_admit_def cr_get_def sample_registry_def cap_supported_def cap_validate_def
        LIST_capability_def cap_execute_def process_list_def iv_get_def or_else_def int_of_def cap_coerce_def
        sample_processes_def cap_conclude_def evidence_verdict_def process_outcome_def missing_evidence_def
        field_gap_def scanned_enough_def pf_ok_def Let_def)
  have g: "map_of (cr_by_id sample_registry) ''windows.process.list'' = Some (LIST_capability ''linux'' sample_processes)"
    by (simp add: sample_registry_def)
  have needle: "needle_of ''disco'' = ''disco''" by code_simp
  have "contains (row_name [(''name'', PStr ''Discord''), (''pid'', PInt 7)]) ''disco''" by code_simp
  then have "matches ''disco'' [[(''name'', PStr ''Discord''), (''pid'', PInt 7)], [(''name'', PStr ''sh'')]] \<noteq> []" by simp
  with process_list_is_measured [OF p g refl] needle p(1) show ?thesis
    by (auto simp: sample_processes_def py_str_def)
qed

end
