(* ===== verification/WebSocket.thy ===== *)
theory WebSocket
  imports Crypto "HOL-Library.Word"
begin

unbundle bit_operations_syntax

section \<open>WebSocket frames (api/websocket.py)\<close>

text \<open>
  The server side of RFC 6455: frames written to a client and frames read from one. A stream is the
  list of bytes still to come before the peer closes; \<open>readexactly\<close> beyond its end is
  \<open>IncompleteReadError\<close>. Whether the end has been noticed when a frame is begun (\<open>at_eof\<close>)
  depends on timing and is a parameter, asked with the number of frames read so far. The reference
  encoder of a client (masked, any fragmentation) is \<open>client_part\<close>; the theorems show that what it
  sends is read back, what the reader may hold, and that frames of concurrent senders never mix.
\<close>

subsection \<open>Writing\<close>

type_synonym bytes = "8 word list"

definition OP_CONTINUATION :: "8 word" where "OP_CONTINUATION = 0x0"
definition OP_TEXT :: "8 word" where "OP_TEXT = 0x1"
definition OP_BINARY :: "8 word" where "OP_BINARY = 0x2"
definition OP_CLOSE :: "8 word" where "OP_CLOSE = 0x8"
definition OP_PING :: "8 word" where "OP_PING = 0x9"
definition OP_PONG :: "8 word" where "OP_PONG = 0xA"

definition MAX_PAYLOAD :: nat where "MAX_PAYLOAD = 1048576"

text \<open>\<open>struct.pack("!H", n)\<close> and \<open>"!Q"\<close>: big-endian, \<open>k\<close> bytes.\<close>

fun be_bytes :: "nat \<Rightarrow> nat \<Rightarrow> bytes" where
  "be_bytes 0 n = []"
| "be_bytes (Suc k) n = be_bytes k (n div 256) @ [of_nat n]"

fun be_value :: "nat \<Rightarrow> bytes \<Rightarrow> nat" where
  "be_value n [] = n"
| "be_value n (b # bs) = be_value (256 * n + unat b) bs"

definition encode_frame :: "bytes \<Rightarrow> 8 word \<Rightarrow> bytes" where
  "encode_frame payload opcode =
     (let n = length payload in
      (0x80 OR opcode) #
      (if n < 126 then [of_nat n]
       else if n < 65536 then 126 # be_bytes 2 n
       else 127 # be_bytes 8 n) @ payload)"

definition text_bytes :: "string \<Rightarrow> bytes" where
  "text_bytes s = map of_char s"

definition encode_text :: "string \<Rightarrow> bytes" where
  "encode_text s = encode_frame (text_bytes s) OP_TEXT"

text \<open>A code that does not fit its two bytes is a \<open>struct.error\<close>.\<close>

definition encode_close :: "int \<Rightarrow> string \<Rightarrow> exn + bytes" where
  "encode_close code reason =
     (if 0 \<le> code \<and> code < 65536 then Inr (encode_frame (be_bytes 2 (nat code) @ text_bytes reason) OP_CLOSE)
      else Inl (PyExn ''error'' ''ushort format requires 0 <= number <= 65535''))"

text \<open>The handshake. \<open>sha1\<close> is a parameter; a key with a byte that is not ASCII is a \<open>UnicodeEncodeError\<close>.\<close>

definition GUID :: string where "GUID = ''258EAFA5-E914-47DA-95CA-C5AB0DC85B11''"

definition accept_key :: "(string \<Rightarrow> string) \<Rightarrow> string \<Rightarrow> exn + string" where
  "accept_key sha1 client_key =
     (if list_ex (\<lambda>c. 128 \<le> byte_of c) client_key then Inl (PyExn ''UnicodeEncodeError'' [])
      else Inr (b64encode False (sha1 (client_key @ GUID))))"

definition crlf :: string where "crlf = [CHR 0x0D, CHR 0x0A]"

definition handshake_response :: "(string \<Rightarrow> string) \<Rightarrow> string \<Rightarrow> exn + string" where
  "handshake_response sha1 client_key =
     map_sum id (\<lambda>k. ''HTTP/1.1 101 Switching Protocols'' @ crlf @ ''Upgrade: websocket'' @ crlf @
        ''Connection: Upgrade'' @ crlf @ ''Sec-WebSocket-Accept: '' @ k @ crlf @ crlf)
       (accept_key sha1 client_key)"

subsection \<open>Reading\<close>

record frame =
  fr_opcode :: "8 word"
  fr_payload :: bytes

definition is_close :: "frame \<Rightarrow> bool" where
  "is_close f = (fr_opcode f = OP_CLOSE)"

definition protocol_error :: "string \<Rightarrow> exn" where
  "protocol_error m = PyExn ''ProtocolError'' m"

definition incomplete :: exn where
  "incomplete = PyExn ''IncompleteReadError'' []"

definition readexactly :: "nat \<Rightarrow> bytes \<Rightarrow> exn + bytes \<times> bytes" where
  "readexactly n bs = (if length bs < n then Inl incomplete else Inr (take n bs, drop n bs))"

definition unmask :: "bytes \<Rightarrow> bytes \<Rightarrow> bytes" where
  "unmask mkey raw = map (\<lambda>i. raw ! i XOR mkey ! (i mod 4)) [0..<length raw]"

text \<open>One frame after its first two bytes: the extended length, the checks, the mask, the payload.\<close>

definition read_length :: "8 word \<Rightarrow> bytes \<Rightarrow> exn + nat \<times> bytes" where
  "read_length second bs =
     (let n = unat (second AND 0x7F) in
      if n = 126 then map_sum id (\<lambda>(h, rest). (be_value 0 h, rest)) (readexactly 2 bs)
      else if n = 127 then map_sum id (\<lambda>(h, rest). (be_value 0 h, rest)) (readexactly 8 bs)
      else Inr (n, bs))"

definition read_payload :: "bool \<Rightarrow> 8 word \<Rightarrow> bytes \<Rightarrow> exn + bytes \<times> bytes" where
  "read_payload expect_mask second bs =
     (let masked = (second AND 0x80 \<noteq> 0) in
      case read_length second bs of
        Inl x \<Rightarrow> Inl x
      | Inr (n, rest) \<Rightarrow>
          if MAX_PAYLOAD < n then
            Inl (protocol_error (''Ramka '' @ nat_str n @ '' B przekracza limit '' @ nat_str MAX_PAYLOAD @ '' B''))
          else if expect_mask \<and> \<not> masked then Inl (protocol_error (''Klient musi maskowa'' @ pl_c @ '' ramki''))
          else if \<not> expect_mask \<and> masked then
            Inl (protocol_error (''Serwer nie powinien maskowa'' @ pl_c @ '' ramek''))
          else if masked then
            (case readexactly 4 rest of
               Inl x \<Rightarrow> Inl x
             | Inr (mkey, rest') \<Rightarrow> map_sum id (\<lambda>(raw, left). (unmask mkey raw, left)) (readexactly n rest'))
          else readexactly n rest)"

text \<open>\<open>read_frame\<close>: \<open>opcode\<close> and \<open>chunks\<close> are the loop's variables.\<close>

lemma readexactly_length: "readexactly n bs = Inr (h, rest) \<Longrightarrow> length rest \<le> length bs \<and> length h = n"
  by (auto simp: readexactly_def split: if_splits)

lemma read_payload_length: "read_payload m second bs = Inr (p, rest) \<Longrightarrow> length rest \<le> length bs"
  by (auto simp: read_payload_def read_length_def Let_def map_sum_Inr_iff split: sum.splits if_splits
      dest!: readexactly_length)

function read_from ::
  "(nat \<Rightarrow> bool) \<Rightarrow> bool \<Rightarrow> nat \<Rightarrow> 8 word option \<Rightarrow> bytes list \<Rightarrow> bytes \<Rightarrow> exn + (frame \<times> bytes) option" where
  "read_from at_eof expect_mask k opcode chunks bs =
     (case bs of
        [] \<Rightarrow> if at_eof k then Inr None else Inl incomplete
      | [b] \<Rightarrow> Inl incomplete
      | first # second # remaining \<Rightarrow>
          (case read_payload expect_mask second remaining of
             Inl x \<Rightarrow> Inl x
           | Inr (payload, rest) \<Rightarrow>
               (let this = first AND 0x0F;
                    opcode' = (if this \<noteq> OP_CONTINUATION then Some this else opcode);
                    chunks' = chunks @ [payload]
                in if first AND 0x80 \<noteq> 0
                   then Inr (Some (\<lparr>fr_opcode = (case opcode' of None \<Rightarrow> OP_TEXT | Some c \<Rightarrow> c),
                                    fr_payload = concat chunks'\<rparr>, rest))
                   else read_from at_eof expect_mask (k + 1) opcode' chunks' rest)))"
  by pat_completeness auto

termination
  by (relation "measure (\<lambda>(e, m, k, c, cs, bs). length bs)") (auto dest: read_payload_length)

declare read_from.simps [simp del]

lemma read_from_Cons2:
  "read_from at_eof m k opcode chunks (first # second # left) =
     (case read_payload m second left of
        Inl x \<Rightarrow> Inl x
      | Inr (payload, rest) \<Rightarrow>
          (let this = first AND 0x0F; opcode' = (if this \<noteq> OP_CONTINUATION then Some this else opcode)
           in if first AND 0x80 \<noteq> 0
              then Inr (Some (\<lparr>fr_opcode = (case opcode' of None \<Rightarrow> OP_TEXT | Some c \<Rightarrow> c),
                               fr_payload = concat (chunks @ [payload])\<rparr>, rest))
              else read_from at_eof m (k + 1) opcode' (chunks @ [payload]) rest))"
  by (subst read_from.simps) (simp only: list.case Let_def)

definition read_frame :: "(nat \<Rightarrow> bool) \<Rightarrow> bool \<Rightarrow> bytes \<Rightarrow> exn + (frame \<times> bytes) option" where
  "read_frame at_eof expect_mask bs = read_from at_eof expect_mask 0 None [] bs"

subsection \<open>Lengths in big-endian\<close>

lemma length_be_bytes [simp]: "length (be_bytes k n) = k"
  by (induction k n rule: be_bytes.induct) simp_all

lemma be_value_append: "be_value n (xs @ [b]) = 256 * be_value n xs + unat b"
  by (induction n xs rule: be_value.induct) simp_all

lemma be_value_bytes: "n < 256 ^ k \<Longrightarrow> be_value 0 (be_bytes k n) = n"
proof (induction k n rule: be_bytes.induct)
  case (2 k n)
  then have "n div 256 < 256 ^ k" by (simp add: less_mult_imp_div_less mult.commute)
  with 2 show ?case by (simp add: be_value_append unat_of_nat)
qed simp

text \<open>Masking twice gives the payload back.\<close>

lemma length_unmask [simp]: "length (unmask mkey raw) = length raw"
  by (simp add: unmask_def)

lemma unmask_twice [simp]: "unmask mkey (unmask mkey p) = p"
  by (rule nth_equalityI) (simp_all add: unmask_def xor.assoc)

subsection \<open>The reference client\<close>

text \<open>A client's part of a message: masked with its own key, final or not (RFC 6455, 5.2 and 5.3).\<close>

definition length_code :: "nat \<Rightarrow> 8 word \<times> bytes" where
  "length_code n = (if n < 126 then (of_nat n, []) else if n < 65536 then (126, be_bytes 2 n) else (127, be_bytes 8 n))"

definition client_part :: "bool \<Rightarrow> 8 word \<Rightarrow> bytes \<times> bytes \<Rightarrow> bytes" where
  "client_part final opcode part =
     (let (mkey, payload) = part; (code, ext) = length_code (length payload) in
      [(if final then 0x80 else 0) OR opcode, 0x80 OR code] @ ext @ mkey @ unmask mkey payload)"

text \<open>A message in parts: the first carries the opcode, the others continue it, the last is final.\<close>

fun client_message :: "8 word \<Rightarrow> (bytes \<times> bytes) list \<Rightarrow> bytes" where
  "client_message opcode [] = []"
| "client_message opcode [p] = client_part True opcode p"
| "client_message opcode (p # ps) = client_part False opcode p @ client_message OP_CONTINUATION ps"

subsection \<open>What is sent is read\<close>

lemma small_lengths:
  "\<forall>n \<in> set [0..<128]. (0x80 OR (of_nat n :: 8 word)) AND 0x7F = of_nat n \<and> (of_nat n :: 8 word) AND 0x80 = 0 \<and>
     (of_nat n :: 8 word) AND 0x7F = of_nat n \<and> unat (of_nat n :: 8 word) = n"
  by code_simp

lemma low_byte:
  "n < 128 \<Longrightarrow> (0x80 OR (of_nat n :: 8 word)) AND 0x7F = of_nat n \<and> (of_nat n :: 8 word) AND 0x80 = 0 \<and>
     (of_nat n :: 8 word) AND 0x7F = of_nat n \<and> unat (of_nat n :: 8 word) = n"
  using small_lengths by simp

lemma readexactly_append [simp]: "length xs = n \<Longrightarrow> readexactly n (xs @ ys) = Inr (xs, ys)"
  by (simp add: readexactly_def)

lemma read_length_code:
  assumes "length_code n = (code, ext)" "n < 2 ^ 64"
  shows "read_length code (ext @ rest) = Inr (n, rest)" "read_length (0x80 OR code) (ext @ rest) = Inr (n, rest)"
    "code AND 0x80 = 0"
proof -
  have n8: "n < 256 ^ 8" using assms(2) by simp
  consider "n < 126" "code = of_nat n" "ext = []" | "126 \<le> n" "n < 256 ^ 2" "code = 126" "ext = be_bytes 2 n"
    | "126 \<le> n" "code = 127" "ext = be_bytes 8 n"
    using assms(1) by (fastforce simp: length_code_def split: if_splits)
  then have "read_length code (ext @ rest) = Inr (n, rest) \<and> read_length (0x80 OR code) (ext @ rest) = Inr (n, rest) \<and>
    code AND 0x80 = 0"
  proof cases
    case 1
    with low_byte [of n] show ?thesis by (simp add: read_length_def)
  next
    case 2
    with be_value_bytes [OF 2(2)] show ?thesis by (simp add: read_length_def)
  next
    case 3
    with be_value_bytes [OF n8] show ?thesis by (simp add: read_length_def)
  qed
  then show "read_length code (ext @ rest) = Inr (n, rest)" "read_length (0x80 OR code) (ext @ rest) = Inr (n, rest)"
    "code AND 0x80 = 0" by simp_all
qed

text \<open>A part a client may send: a mask of four bytes and a payload within the limit.\<close>

definition part_ok :: "bytes \<times> bytes \<Rightarrow> bool" where
  "part_ok p = (length (fst p) = 4 \<and> length (snd p) \<le> MAX_PAYLOAD)"

lemma opcode_bits:
  assumes "(opcode :: 8 word) AND 0x0F = opcode"
  shows "(0x80 OR opcode) AND 0x0F = opcode" "(0x80 OR opcode) AND 0x80 \<noteq> 0" "opcode AND 0x80 = 0"
proof -
  show "(0x80 OR opcode) AND 0x0F = opcode" using assms by (simp add: word_ao_dist)
  show "(0x80 OR opcode) AND 0x80 \<noteq> 0" by (simp add: word_ao_dist)
  have "opcode AND 0x80 = (opcode AND 0x0F) AND 0x80" using assms by simp
  also have "\<dots> = opcode AND (0x0F AND 0x80)" by (simp only: and.assoc)
  finally show "opcode AND 0x80 = 0" by simp
qed

lemma read_client_part:
  assumes "part_ok (mkey, payload)" "length_code (length payload) = (code, ext)"
  shows "read_payload True (0x80 OR code) (ext @ mkey @ unmask mkey payload @ rest) = Inr (payload, rest)"
proof -
  from assms(1) have "length payload < 2 ^ 64" "\<not> MAX_PAYLOAD < length payload" "length mkey = 4"
    by (simp_all add: part_ok_def MAX_PAYLOAD_def)
  then show ?thesis
    using read_length_code(2) [OF assms(2)] by (simp add: read_payload_def Let_def word_ao_dist)
qed

lemma read_from_part:
  assumes "part_ok p" "opcode AND 0x0F = opcode"
  shows "read_from at_eof True k old chunks (client_part final opcode p @ rest) =
    (let old' = (if opcode \<noteq> OP_CONTINUATION then Some opcode else old); chunks' = chunks @ [snd p]
     in if final then Inr (Some (\<lparr>fr_opcode = (case old' of None \<Rightarrow> OP_TEXT | Some c \<Rightarrow> c), fr_payload = concat chunks'\<rparr>, rest))
        else read_from at_eof True (k + 1) old' chunks' rest)"
proof -
  obtain mkey payload code ext where p: "p = (mkey, payload)" "length_code (length payload) = (code, ext)"
    by (metis surj_pair)
  have "read_payload True (0x80 OR code) (ext @ mkey @ unmask mkey payload @ rest) = Inr (payload, rest)"
    using read_client_part assms(1) p by blast
  then show ?thesis
    using opcode_bits [OF assms(2)] assms(2) by (simp add: read_from_Cons2 client_part_def p Let_def)
qed

lemma continuation_nibble [simp]: "OP_CONTINUATION AND 0x0F = OP_CONTINUATION"
  by (simp add: OP_CONTINUATION_def)

lemma read_continuations:
  assumes "list_all part_ok (p # ps)"
  shows "read_from at_eof True k (Some opcode) chunks (client_message OP_CONTINUATION (p # ps) @ rest) =
    Inr (Some (\<lparr>fr_opcode = opcode, fr_payload = concat (chunks @ map snd (p # ps))\<rparr>, rest))"
  using assms
proof (induction ps arbitrary: p k chunks)
  case Nil
  then show ?case by (simp add: read_from_part)
next
  case (Cons q qs)
  then show ?case by (simp add: read_from_part)
qed

lemma client_message_read:
  assumes "list_all part_ok (p # ps)" "opcode AND 0x0F = opcode" "opcode \<noteq> OP_CONTINUATION"
  shows "read_frame at_eof True (client_message opcode (p # ps) @ rest) =
    Inr (Some (\<lparr>fr_opcode = opcode, fr_payload = concat (map snd (p # ps))\<rparr>, rest))"
proof (cases ps)
  case Nil
  with assms show ?thesis by (simp add: read_frame_def read_from_part)
next
  case (Cons q qs)
  with assms show ?thesis by (simp add: read_frame_def read_from_part read_continuations)
qed

lemma server_frame_read:
  assumes "length payload \<le> MAX_PAYLOAD" "opcode AND 0x0F = opcode" "opcode \<noteq> OP_CONTINUATION"
  shows "read_frame at_eof False (encode_frame payload opcode @ rest) =
    Inr (Some (\<lparr>fr_opcode = opcode, fr_payload = payload\<rparr>, rest))"
proof -
  obtain code ext where c: "length_code (length payload) = (code, ext)" by fastforce
  have n: "length payload < 2 ^ 64" using assms(1) by (simp add: MAX_PAYLOAD_def)
  have enc: "encode_frame payload opcode = (0x80 OR opcode) # code # ext @ payload"
    using c by (auto simp: encode_frame_def length_code_def Let_def split: if_splits)
  have "read_payload False code (ext @ payload @ rest) = Inr (payload, rest)"
    using read_length_code(1,3) [OF c n] assms(1) by (simp add: read_payload_def Let_def)
  then show ?thesis
    using opcode_bits [OF assms(2)] assms(3) by (simp add: read_frame_def read_from_Cons2 enc Let_def)
qed

subsection \<open>What the reader may hold\<close>

lemma readexactly_more: "readexactly n bs = Inr (h, rest) \<Longrightarrow> readexactly n (bs @ ys) = Inr (h, rest @ ys)"
  by (auto simp: readexactly_def split: if_splits)

lemma readexactly_used: "readexactly n bs = Inr (h, rest) \<Longrightarrow> length bs = n + length rest \<and> length h = n"
  by (auto simp: readexactly_def split: if_splits)

lemma read_length_more: "read_length second bs = Inr (n, rest) \<Longrightarrow> read_length second (bs @ ys) = Inr (n, rest @ ys)"
  by (auto simp: read_length_def Let_def map_sum_Inr_iff split: if_splits dest: readexactly_more)

lemma read_length_used: "read_length second bs = Inr (n, rest) \<Longrightarrow> length rest \<le> length bs"
  by (auto simp: read_length_def Let_def map_sum_Inr_iff split: if_splits dest: readexactly_used)

lemma read_payload_bounds:
  "read_payload m second bs = Inr (p, rest) \<Longrightarrow> length p \<le> MAX_PAYLOAD \<and> length p + length rest \<le> length bs"
  by (auto simp: read_payload_def Let_def map_sum_Inr_iff split: sum.splits if_splits
      dest!: readexactly_used read_length_used)

lemma read_from_bounds:
  "read_from at_eof m k opcode chunks bs = Inr (Some (f, rest)) \<Longrightarrow>
     \<exists>parts. parts \<noteq> [] \<and> fr_payload f = concat (chunks @ parts) \<and> (\<forall>p \<in> set parts. length p \<le> MAX_PAYLOAD) \<and>
       2 * length parts + length (concat parts) + length rest \<le> length bs"
proof (induction at_eof m k opcode chunks bs rule: read_from.induct)
  case (1 at_eof m k opcode chunks bs)
  from "1.prems" obtain first second left where bs: "bs = first # second # left"
    by (subst (asm) read_from.simps) (auto split: list.splits if_splits)
  from "1.prems" obtain payload rest' where p: "read_payload m second left = Inr (payload, rest')"
    unfolding bs read_from_Cons2 by (auto split: sum.splits)
  note used = read_payload_bounds [OF p]
  show ?case
  proof (cases "first AND 0x80 \<noteq> 0")
    case True
    with "1.prems" p have "fr_payload f = concat (chunks @ [payload])" "rest = rest'"
      unfolding bs read_from_Cons2 by (auto simp: Let_def)
    with used bs show ?thesis by (intro exI [of _ "[payload]"]) simp
  next
    case False
    define opcode' where "opcode' = (if first AND 0x0F \<noteq> OP_CONTINUATION then Some (first AND 0x0F) else opcode)"
    have "read_from at_eof m (k + 1) opcode' (chunks @ [payload]) rest' = Inr (Some (f, rest))"
      using "1.prems" p False unfolding bs read_from_Cons2 by (simp add: Let_def opcode'_def)
    from "1.IH" [OF bs refl p refl refl opcode'_def refl _ this] False obtain parts where
      "parts \<noteq> []" "fr_payload f = concat ((chunks @ [payload]) @ parts)" "\<forall>p \<in> set parts. length p \<le> MAX_PAYLOAD"
      "2 * length parts + length (concat parts) + length rest \<le> length rest'" by auto
    with used bs show ?thesis by (intro exI [of _ "payload # parts"]) auto
  qed
qed

subsection \<open>One connection\<close>

text \<open>
  \<open>Connection\<close>: senders wait for the lock in order, the one inside writes at once and drains while it
  holds the lock. What a write does is the transport's business: the data goes out, is lost on a
  closing transport, or an error is raised. \<open>cn_wire\<close> holds the frames written so far.
\<close>

datatype written = Wrote | Lost | Raised

record ws_conn =
  cn_closed :: bool
  cn_draining :: bool
  cn_waiting :: "frame list"
  cn_wire :: "frame list"
  cn_ended :: bool

definition fresh_conn :: ws_conn where
  "fresh_conn = \<lparr>cn_closed = False, cn_draining = False, cn_waiting = [], cn_wire = [], cn_ended = False\<rparr>"

datatype conn_event =
    SendFrame frame written
  | Drained bool
  | WakeNext written
  | CloseStart int string written
  | CloseEnd

definition write_locked :: "written \<Rightarrow> frame \<Rightarrow> ws_conn \<Rightarrow> ws_conn" where
  "write_locked r f s =
     (case r of
        Wrote \<Rightarrow> s\<lparr>cn_wire := cn_wire s @ [f], cn_draining := True\<rparr>
      | Lost \<Rightarrow> s\<lparr>cn_draining := True\<rparr>
      | Raised \<Rightarrow> s\<lparr>cn_closed := True\<rparr>)"

definition close_frame :: "int \<Rightarrow> string \<Rightarrow> frame" where
  "close_frame code reason = \<lparr>fr_opcode = OP_CLOSE, fr_payload = be_bytes 2 (nat code) @ text_bytes reason\<rparr>"

definition conn_send :: "frame \<Rightarrow> written \<Rightarrow> ws_conn \<Rightarrow> ws_conn" where
  "conn_send f r s =
     (if cn_closed s then s
      else if \<not> cn_draining s \<and> cn_waiting s = [] then write_locked r f s
      else s\<lparr>cn_waiting := cn_waiting s @ [f]\<rparr>)"

definition conn_drained :: "bool \<Rightarrow> ws_conn \<Rightarrow> ws_conn" where
  "conn_drained good s =
     (if cn_draining s then s\<lparr>cn_draining := False, cn_closed := (cn_closed s \<or> \<not> good)\<rparr> else s)"

definition conn_wake :: "written \<Rightarrow> ws_conn \<Rightarrow> ws_conn" where
  "conn_wake r s =
     (if cn_draining s then s
      else case cn_waiting s of [] \<Rightarrow> s | f # fs \<Rightarrow> write_locked r f (s\<lparr>cn_waiting := fs\<rparr>))"

definition conn_close :: "int \<Rightarrow> string \<Rightarrow> written \<Rightarrow> ws_conn \<Rightarrow> ws_conn" where
  "conn_close code reason r s =
     (if cn_closed s then s
      else case encode_close code reason of
        Inl x \<Rightarrow> s\<lparr>cn_closed := True, cn_ended := True\<rparr>
      | Inr bs \<Rightarrow> (case r of
          Wrote \<Rightarrow> s\<lparr>cn_closed := True, cn_wire := cn_wire s @ [close_frame code reason]\<rparr>
        | _ \<Rightarrow> s\<lparr>cn_closed := True\<rparr>))"

fun conn_step :: "conn_event \<Rightarrow> ws_conn \<Rightarrow> ws_conn" where
  "conn_step (SendFrame f r) s = conn_send f r s"
| "conn_step (Drained good) s = conn_drained good s"
| "conn_step (WakeNext r) s = conn_wake r s"
| "conn_step (CloseStart code reason r) s = conn_close code reason r s"
| "conn_step CloseEnd s = s\<lparr>cn_ended := True\<rparr>"

definition frame_bytes :: "frame \<Rightarrow> bytes" where
  "frame_bytes f = encode_frame (fr_payload f) (fr_opcode f)"

definition sendable :: "frame \<Rightarrow> bool" where
  "sendable f = (length (fr_payload f) \<le> MAX_PAYLOAD \<and> fr_opcode f \<in> {OP_TEXT, OP_CLOSE, OP_PONG})"

fun event_ok :: "conn_event \<Rightarrow> bool" where
  "event_ok (SendFrame f r) = (sendable f \<and> \<not> is_close f)"
| "event_ok (CloseStart code reason r) = (length reason + 2 \<le> MAX_PAYLOAD)"
| "event_ok _ = True"

fun handed_in :: "conn_event list \<Rightarrow> frame list" where
  "handed_in [] = []"
| "handed_in (SendFrame f r # evs) = f # handed_in evs"
| "handed_in (e # evs) = handed_in evs"

fun read_many :: "nat \<Rightarrow> bytes \<Rightarrow> frame list" where
  "read_many 0 bs = []"
| "read_many (Suc n) bs =
     (case read_frame (\<lambda>k. True) False bs of Inr (Some (f, rest)) \<Rightarrow> f # read_many n rest | _ \<Rightarrow> [])"

lemma close_frame_bytes: "encode_close code reason = Inr bs \<Longrightarrow> bs = frame_bytes (close_frame code reason)"
  by (auto simp: encode_close_def frame_bytes_def close_frame_def split: if_splits)

lemma read_many_frames:
  "\<forall>f \<in> set fs. sendable f \<Longrightarrow> read_many (length fs) (concat (map frame_bytes fs)) = fs"
proof (induction fs)
  case (Cons f fs)
  then have f: "length (fr_payload f) \<le> MAX_PAYLOAD" "fr_opcode f AND 0x0F = fr_opcode f" "fr_opcode f \<noteq> OP_CONTINUATION"
    by (auto simp: sendable_def OP_TEXT_def OP_CLOSE_def OP_PONG_def OP_CONTINUATION_def)
  from server_frame_read [OF f, of "\<lambda>k. True" "concat (map frame_bytes fs)"] Cons show ?case
    by (simp add: frame_bytes_def [symmetric])
qed simp

lemma handed_in_snoc:
  "handed_in (evs @ [e]) = handed_in evs @ (case e of SendFrame f r \<Rightarrow> [f] | _ \<Rightarrow> [])"
  by (induction evs rule: handed_in.induct) (auto split: conn_event.splits)

definition conn_inv :: "conn_event list \<Rightarrow> ws_conn \<Rightarrow> bool" where
  "conn_inv evs s =
     (subseq (filter (\<lambda>f. \<not> is_close f) (cn_wire s) @ cn_waiting s) (handed_in evs) \<and>
      (\<forall>f \<in> set (cn_wire s). sendable f) \<and> (\<forall>f \<in> set (cn_waiting s). sendable f \<and> \<not> is_close f) \<and>
      length (filter is_close (cn_wire s)) \<le> (if cn_closed s then 1 else 0))"

lemma subseq_snoc: "subseq xs ys \<Longrightarrow> subseq (xs @ [a]) (ys @ [a])" "subseq xs ys \<Longrightarrow> subseq xs (ys @ zs)"
  by (auto intro: list_emb_append_mono list_emb_append2)

lemma subseq_drop_mid: "subseq (xs @ f # fs) ys \<Longrightarrow> subseq (xs @ fs) ys"
  by (meson list_emb_append_mono subseq_order.dual_order.trans subseq_Cons' subseq_order.order_refl)

lemma write_locked_inv:
  assumes "subseq (filter (\<lambda>f. \<not> is_close f) (cn_wire s) @ f # cn_waiting s) hs" "sendable f" "\<not> is_close f"
    and "\<forall>f \<in> set (cn_wire s). sendable f" "\<forall>f \<in> set (cn_waiting s). sendable f \<and> \<not> is_close f"
    and "length (filter is_close (cn_wire s)) \<le> (if cn_closed s then 1 else 0)" "hs = handed_in evs"
  shows "conn_inv evs (write_locked r f s)"
  using assms subseq_drop_mid [OF assms(1)]
  by (cases r) (auto simp: conn_inv_def write_locked_def split: if_splits)

lemma conn_step_inv:
  assumes "conn_inv evs s" "event_ok e"
  shows "conn_inv (evs @ [e]) (conn_step e s)"
proof (cases e)
  case (SendFrame f r)
  show ?thesis
  proof (cases "\<not> cn_closed s \<and> \<not> cn_draining s \<and> cn_waiting s = []")
    case True
    with assms SendFrame have "conn_inv (evs @ [e]) (write_locked r f s)"
      by (intro write_locked_inv) (auto simp: conn_inv_def handed_in_snoc intro: subseq_snoc)
    with True SendFrame show ?thesis by (simp add: conn_send_def)
  next
    case False
    with assms SendFrame subseq_snoc(1) [of "filter (\<lambda>f. \<not> is_close f) (cn_wire s) @ cn_waiting s" "handed_in evs" f]
    show ?thesis by (auto simp: conn_inv_def conn_send_def handed_in_snoc intro: subseq_snoc(2))
  qed
next
  case (WakeNext r)
  show ?thesis
  proof (cases "cn_draining s \<or> cn_waiting s = []")
    case True
    with assms WakeNext show ?thesis by (auto simp: conn_wake_def handed_in_snoc conn_inv_def)
  next
    case False
    then obtain f fs where w: "cn_waiting s = f # fs" by (auto simp: neq_Nil_conv)
    with assms have "conn_inv (evs @ [e]) (write_locked r f (s\<lparr>cn_waiting := fs\<rparr>))"
      by (intro write_locked_inv) (auto simp: conn_inv_def handed_in_snoc WakeNext)
    with w False WakeNext show ?thesis by (simp add: conn_wake_def)
  qed
next
  case (CloseStart code reason r)
  with assms show ?thesis
    by (cases "cn_closed s") (auto simp: conn_inv_def handed_in_snoc conn_close_def close_frame_def is_close_def sendable_def text_bytes_def
        split: sum.splits written.splits)
qed (use assms in \<open>auto simp: conn_inv_def handed_in_snoc conn_drained_def split: if_splits\<close>)

lemma conn_run_inv: "list_all event_ok evs \<Longrightarrow> conn_inv evs (fold conn_step evs fresh_conn)"
proof (induction evs rule: rev_induct)
  case Nil
  then show ?case by (simp add: conn_inv_def fresh_conn_def)
next
  case (snoc e evs)
  then show ?case by (simp add: conn_step_inv)
qed

subsection \<open>Properties\<close>

text \<open>C26: what a client sends is read back. A message masked with any keys and cut into any number of parts
  is read as one frame with its opcode and its whole payload, whatever follows on the stream, and a
  frame the server writes is read by a client as it was.\<close>

theorem client_messages_are_read:
  assumes "list_all part_ok parts" "parts \<noteq> []" "opcode AND 0x0F = opcode" "opcode \<noteq> OP_CONTINUATION"
    and "length payload \<le> MAX_PAYLOAD"
  shows "read_frame at_eof True (client_message opcode parts @ rest) =
      Inr (Some (\<lparr>fr_opcode = opcode, fr_payload = concat (map snd parts)\<rparr>, rest)) \<and>
    read_frame at_eof False (encode_frame payload opcode @ rest) =
      Inr (Some (\<lparr>fr_opcode = opcode, fr_payload = payload\<rparr>, rest))"
proof -
  obtain p ps where "parts = p # ps" using assms(2) by (cases parts) auto
  with client_message_read assms server_frame_read show ?thesis by blast
qed

theorem client_messages_are_read_witness:
  "read_frame (\<lambda>k. False) True (client_message OP_TEXT [([1, 2, 3, 4], [72, 105]), ([9, 9, 9, 9], [33])]) =
     Inr (Some (\<lparr>fr_opcode = OP_TEXT, fr_payload = [72, 105, 33]\<rparr>, []))"
  using client_messages_are_read [of "[([1, 2, 3, 4], [72, 105]), ([9, 9, 9, 9], [33])]" OP_TEXT "[]" "\<lambda>k. False" "[]"]
  by (simp add: part_ok_def MAX_PAYLOAD_def OP_TEXT_def OP_CONTINUATION_def)

text \<open>What the reader holds is bounded by the stream. A frame that is returned is made of parts of at most
  MAX_PAYLOAD bytes each, its payload and two bytes per part were on the stream, and a part that
  announces more than the limit is refused on its header alone, whatever comes after it.\<close>

theorem frames_are_bounded:
  "(read_frame at_eof m bs = Inr (Some (f, rest)) \<longrightarrow>
     (\<exists>parts. parts \<noteq> [] \<and> fr_payload f = concat parts \<and> (\<forall>p \<in> set parts. length p \<le> MAX_PAYLOAD) \<and>
        2 * length parts + length (fr_payload f) + length rest \<le> length bs)) \<and>
   (read_length second ext = Inr (n, []) \<and> MAX_PAYLOAD < n \<longrightarrow>
     (\<exists>message. read_frame at_eof m (first # second # ext @ anything) = Inl (protocol_error message)))"
proof (intro conjI impI)
  assume "read_frame at_eof m bs = Inr (Some (f, rest))"
  from read_from_bounds [OF this [unfolded read_frame_def]] show "\<exists>parts. parts \<noteq> [] \<and> fr_payload f = concat parts \<and>
      (\<forall>p \<in> set parts. length p \<le> MAX_PAYLOAD) \<and> 2 * length parts + length (fr_payload f) + length rest \<le> length bs"
    by auto
next
  assume n: "read_length second ext = Inr (n, []) \<and> MAX_PAYLOAD < n"
  then have "read_length second (ext @ anything) = Inr (n, anything)" using read_length_more by fastforce
  with n show "\<exists>message. read_frame at_eof m (first # second # ext @ anything) = Inl (protocol_error message)"
    by (auto simp: read_frame_def read_from_Cons2 read_payload_def)
qed

theorem frames_are_bounded_witness:
  "\<exists>message. read_frame (\<lambda>k. False) True [0x81, 0xFF, 0, 0, 0, 0, 0, 0x20, 0, 0, 1, 2] = Inl (protocol_error message)"
proof -
  have "read_length 0xFF [0, 0, 0, 0, 0, 0x20, 0, 0] = Inr (2097152, [])"
    by (simp add: read_length_def readexactly_def Let_def)
  moreover have "MAX_PAYLOAD < 2097152" by (simp add: MAX_PAYLOAD_def)
  ultimately show ?thesis
    using frames_are_bounded [THEN conjunct2, of "0xFF" "[0, 0, 0, 0, 0, 0x20, 0, 0]" 2097152 "\<lambda>k. False" True "0x81" "[1, 2]"]
    by simp
qed

text \<open>A control frame inside a fragmented message destroys it. RFC 6455 lets a client send a ping between
  two fragments; here the ping ends the message: the frame returned is a ping whose payload begins
  with the first fragment, and what is left is read as a text frame of its own.\<close>

theorem interleaved_ping_ends_the_message:
  assumes "list_all part_ok [p, q, r]"
  shows "read_frame at_eof True
      (client_part False OP_BINARY p @ client_part True OP_PING q @ client_part True OP_CONTINUATION r @ rest) =
      Inr (Some (\<lparr>fr_opcode = OP_PING, fr_payload = snd p @ snd q\<rparr>, client_part True OP_CONTINUATION r @ rest)) \<and>
    read_frame at_eof True (client_part True OP_CONTINUATION r @ rest) =
      Inr (Some (\<lparr>fr_opcode = OP_TEXT, fr_payload = snd r\<rparr>, rest))"
proof -
  have n: "OP_BINARY AND 0x0F = OP_BINARY" "OP_PING AND 0x0F = OP_PING" "OP_BINARY \<noteq> OP_CONTINUATION" "OP_PING \<noteq> OP_CONTINUATION"
    by (simp_all add: OP_BINARY_def OP_PING_def OP_CONTINUATION_def)
  with assms show ?thesis by (simp add: read_frame_def read_from_part)
qed

theorem interleaved_ping_ends_the_message_witness:
  "read_frame (\<lambda>k. False) True
     (client_part False OP_BINARY ([1, 2, 3, 4], [7]) @ client_part True OP_PING ([0, 0, 0, 0], []) @
      client_part True OP_CONTINUATION ([5, 6, 7, 8], [9])) =
   Inr (Some (\<lparr>fr_opcode = OP_PING, fr_payload = [7]\<rparr>, client_part True OP_CONTINUATION ([5, 6, 7, 8], [9])))"
  using interleaved_ping_ends_the_message [of "([1, 2, 3, 4], [7])" "([0, 0, 0, 0], [])" "([5, 6, 7, 8], [9])" "\<lambda>k. False" "[]"]
  by (simp add: part_ok_def MAX_PAYLOAD_def)

text \<open>Frames of concurrent senders never mix. Whatever the order of sends, drains, wake-ups and closes and
  whatever the transport does with each write, the bytes written read back as exactly the frames
  written, these are frames handed in, in that order, and at most one close frame is among them.\<close>

theorem writes_never_interleave:
  assumes "list_all event_ok evs"
  shows "(let s = fold conn_step evs fresh_conn in
    read_many (length (cn_wire s)) (concat (map frame_bytes (cn_wire s))) = cn_wire s \<and>
    subseq (filter (\<lambda>f. \<not> is_close f) (cn_wire s)) (handed_in evs) \<and>
    length (filter is_close (cn_wire s)) \<le> 1)"
proof -
  define s where "s = fold conn_step evs fresh_conn"
  have i: "conn_inv evs s" using conn_run_inv [OF assms] by (simp add: s_def)
  then have "subseq (filter (\<lambda>f. \<not> is_close f) (cn_wire s)) (handed_in evs)"
    unfolding conn_inv_def by (meson list_emb_append2 subseq_order.dual_order.trans subseq_order.order_refl
        subseq_rev_drop_many list_emb_prefix prefixI)
  moreover have "length (filter is_close (cn_wire s)) \<le> 1" using i by (auto simp: conn_inv_def split: if_splits)
  moreover have "read_many (length (cn_wire s)) (concat (map frame_bytes (cn_wire s))) = cn_wire s"
    using i by (intro read_many_frames) (simp add: conn_inv_def)
  ultimately show ?thesis by (simp add: s_def [symmetric] Let_def)
qed

definition text_frame :: "string \<Rightarrow> frame" where
  "text_frame s = \<lparr>fr_opcode = OP_TEXT, fr_payload = text_bytes s\<rparr>"

theorem writes_never_interleave_witness:
  "cn_wire (fold conn_step [SendFrame (text_frame ''a'') Wrote, SendFrame (text_frame ''b'') Wrote,
      CloseStart 1000 [] Wrote, Drained True, WakeNext Wrote] fresh_conn) =
     [text_frame ''a'', close_frame 1000 [], text_frame ''b''] \<and>
   read_many 3 (concat (map frame_bytes [text_frame ''a'', close_frame 1000 [], text_frame ''b''])) =
     [text_frame ''a'', close_frame 1000 [], text_frame ''b'']"
proof -
  let ?evs = "[SendFrame (text_frame ''a'') Wrote, SendFrame (text_frame ''b'') Wrote, CloseStart 1000 [] Wrote,
    Drained True, WakeNext Wrote]"
  have wire: "cn_wire (fold conn_step ?evs fresh_conn) = [text_frame ''a'', close_frame 1000 [], text_frame ''b'']"
    by (simp add: conn_send_def conn_close_def conn_drained_def conn_wake_def write_locked_def fresh_conn_def encode_close_def)
  have "list_all event_ok ?evs"
    by (simp add: sendable_def text_frame_def text_bytes_def MAX_PAYLOAD_def is_close_def OP_TEXT_def OP_CLOSE_def)
  from writes_never_interleave [OF this] wire show ?thesis by (simp add: Let_def eval_nat_numeral)
qed

end
