(* ===== verification/Http.thy ===== *)
theory Http
  imports WebSocket Json
begin

section \<open>The local API: requests, routes, authentication (api/server.py)\<close>

text \<open>
  From the bytes of a connection to the bytes of the answer. A stream is what the client sends until it
  closes. Header lines are Latin-1 text, one character per byte, as the code decodes them. What the
  handlers do is a parameter here (\<open>handler\<close>, on any state \<open>'w\<close>), except for the one route that needs no
  token; \<open>he_split\<close> stands for \<open>urlsplit\<close> with \<open>parse_qs\<close>, \<open>he_sha1\<close> and \<open>he_float\<close> for hashlib and for the
  float reader, \<open>he_overlong\<close> and \<open>he_incompatible\<close> for two messages of the standard library.
\<close>

subsection \<open>Replies\<close>

record http_reply =
  hr_status :: int
  hr_body :: pyval
  hr_headers :: "(string \<times> string) list"

definition reply_ok :: "pyval \<Rightarrow> int \<Rightarrow> http_reply" where
  "reply_ok body status =
     \<lparr>hr_status = status, hr_body = (if body = PNone then PDict [(''ok'', PBool True)] else body), hr_headers = []\<rparr>"

definition reply_error :: "int \<Rightarrow> string \<Rightarrow> string \<Rightarrow> http_reply" where
  "reply_error status message detail =
     \<lparr>hr_status = status,
      hr_body = PDict ([(''error'', PStr message)] @ (if detail = [] then [] else [(''detail'', PStr detail)])),
      hr_headers = []\<rparr>"

definition reply_encode :: "http_reply \<Rightarrow> string" where
  "reply_encode r = json_text (hr_body r)"

definition REASONS :: "(int \<times> string) list" where
  "REASONS =
     [(200, ''OK''), (201, ''Created''), (400, ''Bad Request''), (401, ''Unauthorized''), (404, ''Not Found''),
      (409, ''Conflict''), (422, ''Unprocessable Entity''), (500, ''Internal Server Error'')]"

definition reason_phrase :: "int \<Rightarrow> string" where
  "reason_phrase status = (case map_of REASONS status of None \<Rightarrow> ''OK'' | Some r \<Rightarrow> r)"

definition reply_head :: "http_reply \<Rightarrow> string list" where
  "reply_head r =
     [''HTTP/1.1 '' @ int_str (hr_status r) @ '' '' @ reason_phrase (hr_status r),
      ''Content-Type: application/json; charset=utf-8'',
      ''Content-Length: '' @ nat_str (length (reply_encode r)),
      ''Connection: close'', ''Cache-Control: no-store'', ''X-Content-Type-Options: nosniff''] @
     map (\<lambda>(k, v). k @ '': '' @ v) (hr_headers r)"

definition write_reply :: "http_reply \<Rightarrow> string" where
  "write_reply r = join crlf (reply_head r) @ crlf @ crlf @ reply_encode r"

subsection \<open>Origins\<close>

definition ALLOWED_ORIGINS :: "string list" where
  "ALLOWED_ORIGINS = [''tauri://localhost'', ''http://tauri.localhost'', ''https://tauri.localhost'']"

text \<open>\<open>LOCAL_ORIGIN.fullmatch\<close>: after the scheme one of the two hosts, then nothing or a colon and digits.\<close>

definition drop_prefix :: "string \<Rightarrow> string \<Rightarrow> string option" where
  "drop_prefix p s = (if prefix p s then Some (drop (length p) s) else None)"

definition port_part :: "string \<Rightarrow> bool" where
  "port_part s = (case s of [] \<Rightarrow> True | c # ds \<Rightarrow> c = CHR '':'' \<and> ds \<noteq> [] \<and> list_all is_digit ds)"

definition local_origin :: "string \<Rightarrow> bool" where
  "local_origin s =
     (case drop_prefix ''http://'' s of
        None \<Rightarrow> False
      | Some h \<Rightarrow> list_ex (\<lambda>host. case drop_prefix host h of None \<Rightarrow> False | Some r \<Rightarrow> port_part r) [''localhost'', ''127.0.0.1''])"

definition origin_allowed :: "string \<Rightarrow> bool" where
  "origin_allowed s = (s \<noteq> [] \<and> (s \<in> set ALLOWED_ORIGINS \<or> local_origin s))"

definition cors_headers :: "string \<Rightarrow> (string \<times> string) list" where
  "cors_headers s =
     (if \<not> origin_allowed s then []
      else [(''Access-Control-Allow-Origin'', s),
            (''Access-Control-Allow-Methods'', ''GET, POST, PATCH, DELETE, OPTIONS''),
            (''Access-Control-Allow-Headers'', ''Authorization, Content-Type''),
            (''Access-Control-Max-Age'', ''600''), (''Vary'', ''Origin'')])"

subsection \<open>Requests\<close>

definition MAX_BODY :: int where "MAX_BODY = 1048576"
definition MAX_HEADER_LINES :: nat where "MAX_HEADER_LINES = 100"
definition READ_LIMIT :: int where "READ_LIMIT = 65536"

record http_request =
  rq_method :: string
  rq_path :: string
  rq_query :: "(string \<times> string) list"
  rq_headers :: "(string \<times> string) list"
  rq_body :: string
  rq_params :: "(string \<times> string) list"

record http_env =
  he_token :: string
  he_split :: "string \<Rightarrow> exn + string \<times> (string \<times> string) list"
  he_sha1 :: "string \<Rightarrow> string"
  he_float :: "string \<Rightarrow> pyval"
  he_overlong :: string
  he_incompatible :: string

text \<open>A strict UTF-8 decoder accepts exactly these bytes.\<close>

definition cont_byte :: "nat \<Rightarrow> nat \<Rightarrow> char \<Rightarrow> bool" where
  "cont_byte lo hi c = (lo \<le> byte_of c \<and> byte_of c \<le> hi)"

definition continuation_bounds :: "nat \<Rightarrow> (nat \<times> nat) list option" where
  "continuation_bounds b =
     (if b < 0x80 then Some []
      else if 0xC2 \<le> b \<and> b \<le> 0xDF then Some [(0x80, 0xBF)]
      else if 0xE0 \<le> b \<and> b \<le> 0xEF
        then Some [(if b = 0xE0 then 0xA0 else 0x80, if b = 0xED then 0x9F else 0xBF), (0x80, 0xBF)]
      else if 0xF0 \<le> b \<and> b \<le> 0xF4
        then Some [(if b = 0xF0 then 0x90 else 0x80, if b = 0xF4 then 0x8F else 0xBF), (0x80, 0xBF), (0x80, 0xBF)]
      else None)"

fun utf8_rest :: "(nat \<times> nat) list \<Rightarrow> string \<Rightarrow> bool" where
  "utf8_rest [] [] = True"
| "utf8_rest [] (c # cs) =
     (case continuation_bounds (byte_of c) of None \<Rightarrow> False | Some bounds \<Rightarrow> utf8_rest bounds cs)"
| "utf8_rest (b # bs) [] = False"
| "utf8_rest (b # bs) (c # cs) = (cont_byte (fst b) (snd b) c \<and> utf8_rest bs cs)"

definition utf8_ok :: "string \<Rightarrow> bool" where
  "utf8_ok s = utf8_rest [] s"

definition request_json :: "http_env \<Rightarrow> http_request \<Rightarrow> pydict" where
  "request_json E r =
     (if rq_body r = [] \<or> \<not> utf8_ok (rq_body r) then []
      else case json_loads (he_float E) (rq_body r) of Some (PDict d) \<Rightarrow> d | _ \<Rightarrow> [])"

definition header_space :: "char \<Rightarrow> bool" where
  "header_space c = (is_space c \<or> byte_of c \<in> {0x85, 0xA0})"

definition header_strip :: "string \<Rightarrow> string" where
  "header_strip s = strip_by header_space s"

definition str_get :: "(string \<times> string) list \<Rightarrow> string \<Rightarrow> string \<Rightarrow> string" where
  "str_get d k other = (case map_of d k of None \<Rightarrow> other | Some v \<Rightarrow> v)"

definition request_token :: "http_request \<Rightarrow> string" where
  "request_token r =
     (let header = str_get (rq_headers r) ''authorization'' [] in
      if prefix ''bearer '' (lower header) then header_strip (drop 7 header)
      else str_get (rq_query r) ''token'' [])"

text \<open>\<open>secrets.compare_digest\<close> on strings: both must be ASCII.\<close>

definition is_ascii :: "string \<Rightarrow> bool" where
  "is_ascii s = list_all (\<lambda>c. byte_of c < 128) s"

definition authorised :: "http_env \<Rightarrow> http_request \<Rightarrow> exn + bool" where
  "authorised E r =
     (if is_ascii (request_token r) \<and> is_ascii (he_token E) then Inr (request_token r = he_token E)
      else Inl (PyExn ''TypeError'' (he_incompatible E)))"

subsection \<open>Reading a request\<close>

definition newline :: char where "newline = CHR 0x0A"

definition readline :: "http_env \<Rightarrow> string \<Rightarrow> exn + string \<times> string" where
  "readline E s =
     (let line = takeWhile (\<lambda>c. c \<noteq> newline) s in
      if READ_LIMIT < int (length line) then Inl (PyExn ''ValueError'' (he_overlong E))
      else case dropWhile (\<lambda>c. c \<noteq> newline) s of [] \<Rightarrow> Inr (line, []) | _ # rest \<Rightarrow> Inr (line @ [newline], rest))"

text \<open>\<open>text.partition(":")\<close>.\<close>

definition header_pair :: "string \<Rightarrow> string \<times> string" where
  "header_pair raw =
     (lower (header_strip (takeWhile (\<lambda>c. c \<noteq> CHR '':'') raw)),
      header_strip (drop 1 (dropWhile (\<lambda>c. c \<noteq> CHR '':'') raw)))"

fun read_headers :: "http_env \<Rightarrow> nat \<Rightarrow> string \<Rightarrow> (string \<times> string) list \<Rightarrow> exn + (string \<times> string) list \<times> string" where
  "read_headers E 0 s hs = Inr (hs, s)"
| "read_headers E (Suc n) s hs =
     (case readline E s of
        Inl x \<Rightarrow> Inl x
      | Inr (raw, rest) \<Rightarrow>
          if raw \<in> {crlf, [newline], []} then Inr (hs, rest)
          else read_headers E n rest (dict_set (fst (header_pair raw)) (snd (header_pair raw)) hs))"

definition upper_char :: "char \<Rightarrow> char" where
  "upper_char c = (if 97 \<le> byte_of c \<and> byte_of c \<le> 122 then char_of (byte_of c - 32) else c)"

definition content_length :: "(string \<times> string) list \<Rightarrow> exn + int" where
  "content_length hs =
     (let v = str_get hs ''content-length'' ''0'' in
      if v = [] then Inr 0
      else case parse_int v of
        None \<Rightarrow> Inl (PyExn ''ValueError'' (''invalid literal for int() with base 10: '' @ repr_str v))
      | Some n \<Rightarrow> Inr (min n MAX_BODY))"

definition read_body :: "int \<Rightarrow> string \<Rightarrow> exn + string" where
  "read_body n s =
     (if n = 0 then Inr []
      else if n < 0 then Inl (PyExn ''ValueError'' ''readexactly size can not be less than zero'')
      else if length s < nat n then Inl incomplete
      else Inr (take (nat n) s))"

definition read_request :: "http_env \<Rightarrow> string \<Rightarrow> exn + http_request option" where
  "read_request E s =
     (case readline E s of
        Inl x \<Rightarrow> Inl x
      | Inr (line, rest) \<Rightarrow>
          if line = [] then Inr None
          else case split_max (CHR '' '') 2 line of
            [meth, target, version] \<Rightarrow>
              (case read_headers E MAX_HEADER_LINES rest [] of
                 Inl x \<Rightarrow> Inl x
               | Inr (hs, rest') \<Rightarrow>
                   (case content_length hs of
                      Inl x \<Rightarrow> Inl x
                    | Inr n \<Rightarrow>
                        (case read_body n rest' of
                           Inl x \<Rightarrow> Inl x
                         | Inr body \<Rightarrow>
                             (case he_split E target of
                                Inl x \<Rightarrow> Inl x
                              | Inr (path, query) \<Rightarrow>
                                  let p = rstrip_char (CHR ''/'') path in
                                  Inr (Some \<lparr>rq_method = map upper_char meth,
                                     rq_path = (if p = [] then ''/'' else p), rq_query = query,
                                     rq_headers = hs, rq_body = body, rq_params = []\<rparr>)))))
          | _ \<Rightarrow> Inr None)"

subsection \<open>Routes\<close>

datatype endpoint =
    EpHealth | EpState | EpSay | EpTasks | EpCreateTask | EpTask | EpStopTask | EpResumeTask
  | EpApprovals | EpResolveApproval | EpMemory | EpRemember | EpCorrectMemory | EpForget
  | EpVault | EpStoreSecret | EpDeleteSecret | EpProviders | EpCheckProviders | EpDevices | EpTools
  | EpActivity | EpAudit | EpConfig | EpPatchConfig

datatype segment = Lit string | Param string

record route =
  rt_method :: string
  rt_pattern :: "segment list"
  rt_endpoint :: endpoint
  rt_auth :: bool

definition segment_of :: "string \<Rightarrow> segment" where
  "segment_of s = (if s \<noteq> [] \<and> hd s = CHR ''{'' \<and> last s = CHR ''}'' then Param (butlast (tl s)) else Lit s)"

definition path_pattern :: "string \<Rightarrow> segment list" where
  "path_pattern path = map segment_of (split_on (CHR ''/'') path)"

definition route_to :: "string \<Rightarrow> string \<Rightarrow> endpoint \<Rightarrow> bool \<Rightarrow> route" where
  "route_to meth path e auth = \<lparr>rt_method = meth, rt_pattern = path_pattern path, rt_endpoint = e, rt_auth = auth\<rparr>"

definition ROUTES :: "route list" where
  "ROUTES =
     [route_to ''GET'' ''/api/health'' EpHealth False,
      route_to ''GET'' ''/api/state'' EpState True,
      route_to ''POST'' ''/api/say'' EpSay True,
      route_to ''GET'' ''/api/tasks'' EpTasks True,
      route_to ''POST'' ''/api/tasks'' EpCreateTask True,
      route_to ''GET'' ''/api/tasks/{id}'' EpTask True,
      route_to ''POST'' ''/api/tasks/{id}/stop'' EpStopTask True,
      route_to ''POST'' ''/api/tasks/{id}/resume'' EpResumeTask True,
      route_to ''GET'' ''/api/approvals'' EpApprovals True,
      route_to ''POST'' ''/api/approvals/{id}'' EpResolveApproval True,
      route_to ''GET'' ''/api/memory'' EpMemory True,
      route_to ''POST'' ''/api/memory'' EpRemember True,
      route_to ''PATCH'' ''/api/memory/{id}'' EpCorrectMemory True,
      route_to ''DELETE'' ''/api/memory/{id}'' EpForget True,
      route_to ''GET'' ''/api/vault'' EpVault True,
      route_to ''POST'' ''/api/vault'' EpStoreSecret True,
      route_to ''DELETE'' ''/api/vault/{name}'' EpDeleteSecret True,
      route_to ''GET'' ''/api/providers'' EpProviders True,
      route_to ''POST'' ''/api/providers/check'' EpCheckProviders True,
      route_to ''GET'' ''/api/devices'' EpDevices True,
      route_to ''GET'' ''/api/tools'' EpTools True,
      route_to ''GET'' ''/api/activity'' EpActivity True,
      route_to ''GET'' ''/api/audit'' EpAudit True,
      route_to ''GET'' ''/api/config'' EpConfig True,
      route_to ''PATCH'' ''/api/config'' EpPatchConfig True]"

text \<open>\<open>pattern.fullmatch(path).groupdict()\<close>: a parameter is \<open>[^/]+\<close>, so a path matches part by part.\<close>

fun match_parts :: "segment list \<Rightarrow> string list \<Rightarrow> (string \<times> string) list option" where
  "match_parts [] [] = Some []"
| "match_parts (Lit l # ps) (s # ss) = (if s = l then match_parts ps ss else None)"
| "match_parts (Param k # ps) (s # ss) = (if s = [] then None else map_option (\<lambda>d. (k, s) # d) (match_parts ps ss))"
| "match_parts _ _ = None"

definition match_route :: "route \<Rightarrow> http_request \<Rightarrow> (string \<times> string) list option" where
  "match_route t r =
     (if rt_method t \<noteq> rq_method r then None else match_parts (rt_pattern t) (split_on (CHR ''/'') (rq_path r)))"

fun find_route :: "route list \<Rightarrow> http_request \<Rightarrow> (route \<times> (string \<times> string) list) option" where
  "find_route [] r = None"
| "find_route (t # ts) r = (case match_route t r of Some d \<Rightarrow> Some (t, d) | None \<Rightarrow> find_route ts r)"

subsection \<open>Dispatch\<close>

type_synonym 'w http_handler = "endpoint \<Rightarrow> http_request \<Rightarrow> 'w \<Rightarrow> (exn + http_reply) \<times> 'w"

definition PROTOCOL_VERSION :: int where "PROTOCOL_VERSION = 1"

definition health_reply :: http_reply where
  "health_reply = reply_ok (PDict [(''ok'', PBool True), (''protocol'', PInt PROTOCOL_VERSION)]) 200"

definition unauthorised_reply :: http_reply where
  "unauthorised_reply = reply_error 401 ''Brak autoryzacji'' []"

definition call_endpoint :: "'w http_handler \<Rightarrow> 'w http_handler" where
  "call_endpoint handler e r w = (if e = EpHealth then (Inr health_reply, w) else handler e r w)"

definition settle_reply :: "exn + http_reply \<Rightarrow> exn + http_reply" where
  "settle_reply res =
     (case res of
        Inl (Garis e) \<Rightarrow> Inr (reply_error 400 (explain e) (ge_message e))
      | Inl (PyExn t m) \<Rightarrow>
          if t = ''KeyError'' then Inr (reply_error 404 (''Nie ma takiego elementu: '' @ m) []) else Inl (PyExn t m)
      | _ \<Rightarrow> res)"

definition dispatch :: "http_env \<Rightarrow> 'w http_handler \<Rightarrow> http_request \<Rightarrow> 'w \<Rightarrow> (exn + http_reply) \<times> 'w" where
  "dispatch E handler r w =
     (case find_route ROUTES r of
        None \<Rightarrow> (Inr (reply_error 404 (''Nieznana '' @ pl_s @ ''cie'' @ pl_z @ ''ka '' @ rq_path r) []), w)
      | Some (t, d) \<Rightarrow>
          let go = (let (res, w') = call_endpoint handler (rt_endpoint t) (r\<lparr>rq_params := d\<rparr>) w in (settle_reply res, w'))
          in if \<not> rt_auth t then go
             else (case authorised E r of
                 Inl x \<Rightarrow> (Inl x, w)
               | Inr allowed \<Rightarrow> if allowed then go else (Inr unauthorised_reply, w)))"

subsection \<open>One connection\<close>

datatype served = Silent | Replied http_reply | Upgraded string

definition connection_lost :: "exn \<Rightarrow> bool" where
  "connection_lost x =
     (exn_name x \<in> {''ConnectionError'', ''ConnectionResetError'', ''ConnectionAbortedError'', ''ConnectionRefusedError'',
        ''BrokenPipeError'', ''IncompleteReadError'', ''CancelledError''})"

definition failed_reply :: "exn \<Rightarrow> served" where
  "failed_reply x = (if connection_lost x then Silent else Replied (reply_error 500 (''B'' @ pl_l @ pl_a @ ''d serwera'') (exn_text x)))"

definition upgrade :: "http_env \<Rightarrow> http_request \<Rightarrow> served" where
  "upgrade E r =
     (let k = str_get (rq_headers r) ''sec-websocket-key'' [] in
      if k = [] then Replied unauthorised_reply
      else case authorised E r of
        Inl x \<Rightarrow> failed_reply x
      | Inr allowed \<Rightarrow>
          if \<not> allowed then Replied unauthorised_reply
          else case handshake_response (he_sha1 E) k of Inl x \<Rightarrow> failed_reply x | Inr text \<Rightarrow> Upgraded text)"

definition put_headers :: "(string \<times> string) list \<Rightarrow> http_reply \<Rightarrow> http_reply" where
  "put_headers hs r = r\<lparr>hr_headers := fold (\<lambda>(k, v) d. dict_set k v d) hs (hr_headers r)\<rparr>"

definition serve :: "http_env \<Rightarrow> 'w http_handler \<Rightarrow> string \<Rightarrow> 'w \<Rightarrow> served \<times> 'w" where
  "serve E handler s w =
     (case read_request E s of
        Inl x \<Rightarrow> (failed_reply x, w)
      | Inr None \<Rightarrow> (Silent, w)
      | Inr (Some r) \<Rightarrow>
          let cors = cors_headers (str_get (rq_headers r) ''origin'' []) in
          if rq_path r = ''/ws'' then (upgrade E r, w)
          else if rq_method r = ''OPTIONS'' then
            (Replied \<lparr>hr_status = (if cors \<noteq> [] then 200 else 403), hr_body = PDict [], hr_headers = cors\<rparr>, w)
          else
            let (res, w') = dispatch E handler r w
            in (case res of Inl x \<Rightarrow> failed_reply x | Inr reply \<Rightarrow> Replied (put_headers cors reply), w'))"

text \<open>What goes over the wire.\<close>

definition served_text :: "served \<Rightarrow> string" where
  "served_text out = (case out of Silent \<Rightarrow> [] | Replied r \<Rightarrow> write_reply r | Upgraded text \<Rightarrow> text)"

subsection \<open>Lemmas\<close>

declare read_request_def [simp del]

lemma find_route_in: "find_route ts r = Some (t, d) \<Longrightarrow> t \<in> set ts \<and> match_route t r = Some d"
  by (induction ts) (auto split: option.splits)

lemma open_route: "t \<in> set ROUTES \<Longrightarrow> rt_auth t \<or> rt_endpoint t = EpHealth"
  by (auto simp: ROUTES_def route_to_def)

lemma dispatch_without_token:
  assumes "authorised E r \<noteq> Inr True"
  shows "snd (dispatch E handler r w) = w \<and> fst (dispatch E handler r w) = fst (dispatch E other r v)"
proof (cases "find_route ROUTES r")
  case (Some td)
  then obtain t d where td: "td = (t, d)" "t \<in> set ROUTES" using find_route_in by (metis surj_pair)
  show ?thesis
  proof (cases "rt_auth t")
    case True
    with Some td(1) assms show ?thesis by (auto simp: dispatch_def split: sum.splits)
  next
    case False
    with open_route [OF td(2)] Some td(1) show ?thesis by (simp add: dispatch_def call_endpoint_def Let_def)
  qed
qed (simp add: dispatch_def)

text \<open>Two patterns that one path can match agree wherever both have a literal.\<close>

fun part_matches :: "segment \<Rightarrow> string \<Rightarrow> bool" where
  "part_matches (Lit l) s = (s = l)"
| "part_matches (Param k) s = (s \<noteq> [])"

fun may_meet :: "segment \<Rightarrow> segment \<Rightarrow> bool" where
  "may_meet (Lit a) (Lit b) = (a = b)"
| "may_meet (Lit a) (Param k) = (a \<noteq> [])"
| "may_meet (Param k) (Lit b) = (b \<noteq> [])"
| "may_meet (Param k) (Param l) = True"

definition overlap :: "route \<Rightarrow> route \<Rightarrow> bool" where
  "overlap t u = (rt_method t = rt_method u \<and> list_all2 may_meet (rt_pattern t) (rt_pattern u))"

lemma match_parts_iff: "match_parts ps ss \<noteq> None \<longleftrightarrow> list_all2 part_matches ps ss"
  by (induction ps ss rule: match_parts.induct) auto

lemma part_meets: "part_matches a s \<Longrightarrow> part_matches b s \<Longrightarrow> may_meet a b"
  by (cases a; cases b) auto

lemma match_overlap:
  assumes "match_route t r \<noteq> None" "match_route u r \<noteq> None"
  shows "overlap t u"
proof -
  let ?ss = "split_on (CHR ''/'') (rq_path r)"
  have m: "list_all2 part_matches (rt_pattern t) ?ss" "list_all2 part_matches (rt_pattern u) ?ss"
    "rt_method t = rq_method r" "rt_method u = rq_method r"
    using assms match_parts_iff by (auto simp: match_route_def split: if_splits)
  then have "length (rt_pattern t) = length (rt_pattern u)" by (simp add: list_all2_lengthD)
  with m show ?thesis by (auto simp: overlap_def list_all2_conv_all_nth part_meets)
qed

lemma routes_apart: "sorted_wrt (\<lambda>t u. \<not> overlap t u) ROUTES"
  by code_simp

lemma overlap_sym: "overlap t u \<Longrightarrow> overlap u t"
proof -
  have "may_meet a b \<Longrightarrow> may_meet b a" for a b by (cases a; cases b) auto
  then show "overlap t u \<Longrightarrow> overlap u t" by (auto simp: overlap_def list_all2_conv_all_nth)
qed

lemma apart_members:
  "sorted_wrt (\<lambda>t u. \<not> overlap t u) ts \<Longrightarrow> t \<in> set ts \<Longrightarrow> u \<in> set ts \<Longrightarrow> t \<noteq> u \<Longrightarrow> \<not> overlap t u"
  by (induction ts) (auto dest: overlap_sym)

lemma find_route_None: "find_route ts r = None \<longleftrightarrow> (\<forall>t \<in> set ts. match_route t r = None)"
  by (induction ts) (auto split: option.splits)

lemma find_route_unique:
  assumes "t \<in> set ts" "match_route t r = Some d" "\<And>u. u \<in> set ts \<Longrightarrow> match_route u r \<noteq> None \<Longrightarrow> u = t"
  shows "find_route ts r = Some (t, d)"
proof (cases "find_route ts r")
  case None
  with assms(1,2) show ?thesis by (simp add: find_route_None)
next
  case (Some ue)
  then obtain u e where u: "ue = (u, e)" "find_route ts r = Some (u, e)" by (cases ue) simp
  from find_route_in [OF u(2)] assms(3) [of u] have "u = t" by simp
  with find_route_in [OF u(2)] assms(2) u(2) show ?thesis by simp
qed

lemma digits_clean: "list_all is_digit ds \<Longrightarrow> c \<in> set ds \<Longrightarrow> c \<noteq> CHR 0x0D \<and> c \<noteq> CHR 0x0A"
  by (auto simp: list_all_iff is_digit_def byte_of_def)

lemma drop_prefix_Some: "drop_prefix p s = Some r \<longleftrightarrow> s = p @ r"
  by (auto simp: drop_prefix_def prefix_def)

lemma local_origin_iff:
  "local_origin s \<longleftrightarrow> (\<exists>host \<in> {''localhost'', ''127.0.0.1''}. s = ''http://'' @ host \<or>
     (\<exists>digits. digits \<noteq> [] \<and> list_all is_digit digits \<and> s = ''http://'' @ host @ '':'' @ digits))"
proof -
  have port: "port_part r \<longleftrightarrow> r = [] \<or> (\<exists>digits. digits \<noteq> [] \<and> list_all is_digit digits \<and> r = CHR '':'' # digits)" for r
    by (cases r) (auto simp: port_part_def)
  have at_host: "(case drop_prefix host h of None \<Rightarrow> False | Some r \<Rightarrow> port_part r) \<longleftrightarrow> (\<exists>r. h = host @ r \<and> port_part r)" for host h
  proof (cases "drop_prefix host h")
    case None
    then have "h \<noteq> host @ r" for r using drop_prefix_Some [of host h r] by simp
    with None show ?thesis by simp
  next
    case (Some r)
    then have "h = host @ r" by (simp add: drop_prefix_Some)
    with Some show ?thesis by simp
  qed
  have "local_origin s \<longleftrightarrow> (\<exists>host \<in> {''localhost'', ''127.0.0.1''}. \<exists>r. s = ''http://'' @ host @ r \<and> port_part r)"
  proof (cases "drop_prefix ''http://'' s")
    case None
    then have "s \<noteq> ''http://'' @ h" for h using drop_prefix_Some [of "''http://''" s h] by simp
    with None show ?thesis by (simp add: local_origin_def)
  next
    case (Some h)
    then have "s = ''http://'' @ h" by (simp add: drop_prefix_Some)
    with Some show ?thesis by (simp add: local_origin_def at_host)
  qed
  then show ?thesis unfolding port by auto
qed

lemma allowed_origin_clean: "origin_allowed s \<Longrightarrow> c \<in> set s \<Longrightarrow> c \<noteq> CHR 0x0D \<and> c \<noteq> CHR 0x0A"
  by (auto simp: origin_allowed_def ALLOWED_ORIGINS_def local_origin_iff dest: digits_clean)

definition clean_line :: "string \<Rightarrow> bool" where
  "clean_line s = (CHR 0x0D \<notin> set s \<and> CHR 0x0A \<notin> set s)"

lemma clean_line_append [simp]: "clean_line (s @ t) \<longleftrightarrow> clean_line s \<and> clean_line t"
  by (auto simp: clean_line_def)

lemma clean_line_Cons [simp]: "clean_line [] = True" "clean_line (c # s) \<longleftrightarrow> c \<noteq> CHR 0x0D \<and> c \<noteq> CHR 0x0A \<and> clean_line s"
  by (auto simp: clean_line_def)

lemma clean_number: "clean_line (int_str n)" "clean_line (nat_str k)"
proof -
  have "clean_line (nat_str k)" for k
    using nat_str_digits [of k] by (fastforce simp: clean_line_def list_all_iff byte_of_def)
  then show "clean_line (int_str n)" "clean_line (nat_str k)"
    by (auto simp: int_str_def clean_line_def)
qed

lemma clean_reason: "clean_line (reason_phrase n)"
  by (auto simp: reason_phrase_def REASONS_def clean_line_def split: option.splits if_splits dest!: map_of_SomeD)

definition is_cors :: "string \<Rightarrow> (string \<times> string) list \<Rightarrow> bool" where
  "is_cors s hs = (hs = [] \<or> hs = cors_headers s)"

lemma served_headers:
  assumes "\<And>e r w. (case fst (handler e r w) of Inr reply \<Rightarrow> hr_headers reply = [] | Inl x \<Rightarrow> True)"
    and "fst (serve E handler s w) = Replied reply" "read_request E s = Inr (Some r)"
  shows "is_cors (str_get (rq_headers r) ''origin'' []) (hr_headers reply)"
proof -
  let ?c = "cors_headers (str_get (rq_headers r) ''origin'' [])"
  have five: "fold (\<lambda>(k, v) d. dict_set k v d) ?c [] = ?c" by (simp add: cors_headers_def)
  have err: "hr_headers (reply_error n m d) = []" for n m d by (simp add: reply_error_def)
  have failed: "failed_reply x = Replied reply \<Longrightarrow> hr_headers reply = []" for x
    by (auto simp: failed_reply_def err split: if_splits)
  have go: "(case fst (call_endpoint handler e q v) of Inr b \<Rightarrow> hr_headers b = [] | Inl x \<Rightarrow> True)" for e q v
    using assms(1) [of e q v] by (simp add: call_endpoint_def health_reply_def reply_ok_def)
  have settled: "(case fst p of Inr b \<Rightarrow> hr_headers b = [] | Inl x \<Rightarrow> True) \<Longrightarrow> settle_reply (fst p) = Inr b \<Longrightarrow> hr_headers b = []"
    for p :: "(exn + http_reply) \<times> 'a" and b by (auto simp: settle_reply_def err split: sum.splits exn.splits if_splits)
  have gone: "call_endpoint handler e q v = (res, v') \<Longrightarrow> settle_reply res = Inr b \<Longrightarrow> hr_headers b = []" for e q v res v' b
    using settled [OF go [of e q v]] by simp
  have disp: "fst (dispatch E handler r w) = Inr b \<Longrightarrow> hr_headers b = []" for b
    by (auto simp: dispatch_def err unauthorised_reply_def Let_def split: option.splits sum.splits if_splits prod.splits
        dest: gone)
  show ?thesis
  proof (cases "rq_path r = ''/ws''")
    case True
    with assms(2,3) show ?thesis
      by (auto simp: serve_def upgrade_def is_cors_def unauthorised_reply_def err failed Let_def split: sum.splits if_splits)
  next
    case False
    with assms(2,3) disp failed five show ?thesis
      by (auto simp: serve_def is_cors_def put_headers_def Let_def split: sum.splits if_splits prod.splits)
  qed
qed

subsection \<open>Properties\<close>

text \<open>C30: without the token nothing happens. Whatever bytes a client sends, if what they read as does not carry the
  token, the state behind the API is untouched, and the bytes the client gets back are the same
  whatever that state is and whatever the handlers would have done.\<close>

theorem no_token_no_effect:
  assumes "\<And>r. read_request E s = Inr (Some r) \<Longrightarrow> request_token r \<noteq> he_token E"
  shows "snd (serve E handler s w) = w \<and>
    served_text (fst (serve E handler s w)) = served_text (fst (serve E other s v))"
proof (cases "\<exists>r. read_request E s = Inr (Some r)")
  case True
  then obtain r where r: "read_request E s = Inr (Some r)" by blast
  then have a: "authorised E r \<noteq> Inr True" using assms by (auto simp: authorised_def)
  from dispatch_without_token [OF a, of handler w other v] dispatch_without_token [OF a, of other v handler w] r
  show ?thesis by (auto simp: serve_def Let_def split: prod.splits)
next
  case False
  then show ?thesis by (auto simp: serve_def split: sum.splits option.splits)
qed

definition sample_http :: http_env where
  "sample_http =
     \<lparr>he_token = ''secret'', he_split = (\<lambda>t. Inr (t, [])), he_sha1 = (\<lambda>s. s), he_float = PStr, he_overlong = [],
      he_incompatible = []\<rparr>"

definition sample_request :: string where
  "sample_request = ''DELETE /api/vault/openai HTTP/1.1'' @ crlf @ ''Authorization: Bearer guess'' @ crlf @ crlf"

theorem no_token_no_effect_witness:
  "snd (serve sample_http (\<lambda>e r w. (Inr health_reply, w + 1)) sample_request (0::nat)) = 0"
proof -
  have "map_sum (\<lambda>x. ()) (map_option request_token) (read_request sample_http sample_request) = Inr (Some ''guess'')"
    by code_simp
  moreover have "he_token sample_http = ''secret''" by (simp add: sample_http_def)
  ultimately have "read_request sample_http sample_request = Inr (Some r) \<Longrightarrow> request_token r \<noteq> he_token sample_http" for r
    by simp
  then show ?thesis by (rule conjunct1 [OF no_token_no_effect])
qed

text \<open>C31: only GARIS's own window may read replies. A reply lets a page in only if its origin is one of the
  three of the packaged window or http on localhost or 127.0.0.1 with any port, and then
  exactly that origin; and no header line carries a line break, whatever the request says.\<close>

theorem only_the_window_is_let_in:
  assumes "\<And>e r w. (case fst (handler e r w) of Inr reply \<Rightarrow> hr_headers reply = [] | Inl x \<Rightarrow> True)"
    and "fst (serve E handler s w) = Replied reply" "read_request E s = Inr (Some r)"
  shows "(\<forall>v. map_of (hr_headers reply) ''Access-Control-Allow-Origin'' = Some v \<longrightarrow>
      map_of (rq_headers r) ''origin'' = Some v \<and>
      (v \<in> set ALLOWED_ORIGINS \<or> (\<exists>host \<in> {''localhost'', ''127.0.0.1''}. v = ''http://'' @ host \<or>
         (\<exists>digits. digits \<noteq> [] \<and> list_all is_digit digits \<and> v = ''http://'' @ host @ '':'' @ digits)))) \<and>
    (\<forall>line \<in> set (reply_head reply). clean_line line)"
proof -
  let ?o = "str_get (rq_headers r) ''origin'' []"
  have c: "hr_headers reply = [] \<or> (hr_headers reply = cors_headers ?o \<and> origin_allowed ?o)"
    using served_headers [OF assms] by (auto simp: is_cors_def cors_headers_def)
  have o: "origin_allowed ?o \<Longrightarrow> map_of (rq_headers r) ''origin'' = Some ?o"
    by (auto simp: str_get_def origin_allowed_def split: option.splits)
  have "\<forall>(k, v) \<in> set (hr_headers reply). clean_line (k @ '': '' @ v)"
  proof -
    have "origin_allowed ?o \<Longrightarrow> clean_line ?o" using allowed_origin_clean [of ?o] unfolding clean_line_def by blast
    with c show ?thesis by (auto simp: cors_headers_def)
  qed
  then have "\<forall>line \<in> set (reply_head reply). clean_line line"
    by (auto simp: reply_head_def clean_number clean_reason)
  moreover from c o have "map_of (hr_headers reply) ''Access-Control-Allow-Origin'' = Some v \<Longrightarrow>
      map_of (rq_headers r) ''origin'' = Some v \<and> origin_allowed v" for v
    by (auto simp: cors_headers_def)
  ultimately show ?thesis by (auto simp: origin_allowed_def local_origin_iff)
qed

theorem only_the_window_is_let_in_witness:
  "list_all clean_line (reply_head (case fst (serve sample_http (\<lambda>e r w. (Inr health_reply, w)) sample_request ()) of
      Replied reply \<Rightarrow> reply))"
proof -
  have "\<exists>r. read_request sample_http sample_request = Inr (Some r)"
  proof -
    have "map_sum (\<lambda>x. ()) (map_option rq_method) (read_request sample_http sample_request) = Inr (Some ''DELETE'')"
      by code_simp
    then show ?thesis by (cases "read_request sample_http sample_request") auto
  qed
  moreover have "\<exists>reply. fst (serve sample_http (\<lambda>e r w. (Inr health_reply, w)) sample_request ()) = Replied reply"
  proof -
    have "(case fst (serve sample_http (\<lambda>e r w. (Inr health_reply, w)) sample_request ()) of Replied reply \<Rightarrow> True | _ \<Rightarrow> False)"
      by code_simp
    then show ?thesis by (auto split: served.splits)
  qed
  ultimately show ?thesis
    using only_the_window_is_let_in [of "\<lambda>e r w. (Inr health_reply, w)" sample_http sample_request "()"]
    by (auto simp: health_reply_def reply_ok_def list_all_iff)
qed

text \<open>The order of the routes does not matter. At most one route takes a request, so any arrangement of the table
  sends it to the same handler with the same parameters.\<close>

theorem routes_are_unambiguous:
  assumes "set ts = set ROUTES"
  shows "find_route ts r = find_route ROUTES r"
proof (cases "\<exists>t \<in> set ROUTES. match_route t r \<noteq> None")
  case False
  then have "find_route ts r = None" "find_route ROUTES r = None" using assms by (simp_all add: find_route_None)
  then show ?thesis by simp
next
  case True
  then obtain t d where t: "t \<in> set ROUTES" "match_route t r = Some d" by blast
  have only: "u = t" if "u \<in> set ROUTES" "match_route u r \<noteq> None" for u
  proof (rule ccontr)
    assume "u \<noteq> t"
    from apart_members [OF routes_apart that(1) t(1) this] match_overlap [OF that(2), of t] t(2) show False by simp
  qed
  have "find_route ts r = Some (t, d)" "find_route ROUTES r = Some (t, d)"
    by (rule find_route_unique [OF _ t(2)]; use assms t(1) only in blast)+
  then show ?thesis by simp
qed

definition stop_request :: http_request where
  "stop_request =
     \<lparr>rq_method = ''POST'', rq_path = ''/api/tasks/t1/stop'', rq_query = [], rq_headers = [], rq_body = [], rq_params = []\<rparr>"

theorem routes_are_unambiguous_witness:
  "map_option (\<lambda>(t, d). (rt_endpoint t, d)) (find_route (rev ROUTES) stop_request) = Some (EpStopTask, [(''id'', ''t1'')])"
proof -
  have "find_route (rev ROUTES) stop_request = find_route ROUTES stop_request" by (rule routes_are_unambiguous) simp
  moreover have "map_option (\<lambda>(t, d). (rt_endpoint t, d)) (find_route ROUTES stop_request) = Some (EpStopTask, [(''id'', ''t1'')])"
    by code_simp
  ultimately show ?thesis by simp
qed

end
