(* ===== verification/Notifications.thy ===== *)
theory Notifications
  imports Actions Events "HOL-Library.Product_Lexorder"
begin

section \<open>The notification gate (notifications.py, QuietHours in config.py)\<close>

text \<open>
  What stands between a notice and the user: duplicates, an importance floor, quiet hours, gaming and an
  hourly limit decide whether a notice is spoken, held for later or dropped; held ones are released
  as a batch. A time of day is its microseconds since midnight; \<open>tod\<close> is the clock at the moment of
  the decision. Parameters: \<open>digest\<close> (SHA-256), \<open>low\<close> (\<open>str.lower\<close> in full) and \<open>show\<close>
  (\<open>str\<close> of a float).
\<close>

subsection \<open>Quiet hours\<close>

record quiet_hours =
  qh_enabled :: bool
  qh_start :: string
  qh_end :: string

definition MICRO_DAY :: int where "MICRO_DAY = 86400000000"

definition bad_hour :: "string \<Rightarrow> exn" where
  "bad_hour v = Garis (mk_error ConfigError ((''Nieprawid'' @ pl_l @ ''owa godzina: '') @ repr_str v) None)"

definition parse_hour :: "string \<Rightarrow> exn + int" where
  "parse_hour v =
     (case split_on (CHR '':'') v of
        [hh, mm] \<Rightarrow>
          (case (parse_int hh, parse_int mm) of
             (Some h, Some m) \<Rightarrow>
               if 0 \<le> h \<and> h < 24 \<and> 0 \<le> m \<and> m < 60 then Inr ((h * 60 + m) * 60000000) else Inl (bad_hour v)
           | _ \<Rightarrow> Inl (bad_hour v))
      | _ \<Rightarrow> Inl (bad_hour v))"

definition quiet_contains :: "quiet_hours \<Rightarrow> int \<Rightarrow> exn + bool" where
  "quiet_contains q moment =
     (if \<not> qh_enabled q then Inr False
      else case parse_hour (qh_start q) of
        Inl x \<Rightarrow> Inl x
      | Inr start \<Rightarrow>
          (case parse_hour (qh_end q) of
             Inl x \<Rightarrow> Inl x
           | Inr stop \<Rightarrow> Inr
               (if start = stop then False
                else if start < stop then start \<le> moment \<and> moment < stop
                else start \<le> moment \<or> moment < stop)))"

subsection \<open>Notices\<close>

record notifications_config =
  nc_quiet :: quiet_hours
  nc_suppress_gaming :: bool
  nc_min_importance :: int
  nc_max_per_hour :: int

definition CRITICAL :: int where "CRITICAL = 5"
definition DEDUPE_WINDOW_SECONDS :: rat where "DEDUPE_WINDOW_SECONDS = 900"

datatype gate_verdict = Deliver | Hold | Drop_it

record notice =
  nt_message :: string
  nt_importance :: int
  nt_source :: string
  nt_task :: pyval
  nt_at :: instant
  nt_data :: payload

record notice_env =
  ne_digest :: "string \<Rightarrow> string"
  ne_low :: "string \<Rightarrow> string"
  ne_show :: "instant \<Rightarrow> string"

definition notice_print :: "notice_env \<Rightarrow> notice \<Rightarrow> string" where
  "notice_print E n = take 16 (ne_digest E (nt_source n @ ''|'' @ ne_low E (strip (nt_message n))))"

definition notice_to_dict :: "notice \<Rightarrow> payload" where
  "notice_to_dict n =
     fold (\<lambda>(k, v) d. dict_set k v d) (nt_data n)
       [(''message'', EvVal (PStr (nt_message n))), (''importance'', EvVal (PInt (nt_importance n))),
        (''source'', EvVal (PStr (nt_source n))), (''task_id'', EvVal (nt_task n)), (''at'', EvAt (nt_at n))]"

subsection \<open>The gate\<close>

record notice_gate =
  ga_config :: notifications_config
  ga_recent :: "(instant \<times> string) list"
  ga_delivered :: "instant list"
  ga_held :: "notice list"
  ga_gaming :: bool
  ga_bus :: "bus option"

definition RECENT_MAX :: nat where "RECENT_MAX = 64"
definition DELIVERED_MAX :: nat where "DELIVERED_MAX = 256"

definition new_gate :: "notifications_config \<Rightarrow> bus option \<Rightarrow> notice_gate" where
  "new_gate c b =
     \<lparr>ga_config = c, ga_recent = [], ga_delivered = [], ga_held = [], ga_gaming = False, ga_bus = b\<rparr>"

definition set_gaming :: "bool \<Rightarrow> notice_gate \<Rightarrow> notice_gate" where
  "set_gaming playing g = g\<lparr>ga_gaming := playing\<rparr>"

definition is_duplicate :: "notice_env \<Rightarrow> notice_gate \<Rightarrow> notice \<Rightarrow> bool" where
  "is_duplicate E g n =
     list_ex (\<lambda>(t, seen). nt_at n - DEDUPE_WINDOW_SECONDS \<le> t \<and> seen = notice_print E n) (ga_recent g)"

definition over_rate_limit :: "notice_gate \<Rightarrow> instant \<Rightarrow> bool" where
  "over_rate_limit g moment =
     (let cap = nc_max_per_hour (ga_config g) in
      if cap \<le> 0 then False
      else cap \<le> int (length (filter (\<lambda>t. moment - 3600 \<le> t) (ga_delivered g))))"

definition decide :: "notice_env \<Rightarrow> int \<Rightarrow> notice_gate \<Rightarrow> notice \<Rightarrow> exn + gate_verdict \<times> string" where
  "decide E tod g n =
     (let c = ga_config g in
      if is_duplicate E g n then Inr (Drop_it, ''duplikat'')
      else if nt_importance n < nc_min_importance c then Inr (Drop_it, ''poni'' @ pl_z @ ''ej progu wa'' @ pl_z @ ''no'' @ pl_s @ ''ci'')
      else if CRITICAL \<le> nt_importance n then Inr (Deliver, ''krytyczne'')
      else case quiet_contains (nc_quiet c) tod of
        Inl x \<Rightarrow> Inl x
      | Inr quiet \<Rightarrow> Inr
          (if quiet then (Hold, ''godziny ciszy'')
           else if ga_gaming g \<and> nc_suppress_gaming c then (Hold, ''gra'')
           else if over_rate_limit g (nt_at n) then (Hold, ''limit powiadomie'' @ pl_n @ '' na godzin'' @ pl_e)
           else (Deliver, ''przepuszczone'')))"

text \<open>
  \<open>bus.emit(Topic.SPEAK, **notice.to_dict(), reason=...)\<close>: a key of the notice's data that is also a
  parameter of the call is a \<open>TypeError\<close>.
\<close>

definition speak :: "instant \<Rightarrow> notice \<Rightarrow> string \<Rightarrow> bus \<Rightarrow> exn + bus" where
  "speak now n reason b =
     (let d = notice_to_dict n in
      if fst ` set d \<inter> {''reason'', ''topic'', ''self''} \<noteq> {} then Inl (PyExn ''TypeError'' [])
      else Inr (emit now (topic_name SPEAK) (d @ [(''reason'', EvVal (PStr reason))]) b))"

definition tell_user :: "instant \<Rightarrow> notice \<Rightarrow> string \<Rightarrow> notice_gate \<Rightarrow> (exn + unit) \<times> notice_gate" where
  "tell_user now n reason g =
     (case ga_bus g of
        None \<Rightarrow> (Inr (), g)
      | Some b \<Rightarrow> (case speak now n reason b of Inl x \<Rightarrow> (Inl x, g) | Inr b' \<Rightarrow> (Inr (), g\<lparr>ga_bus := Some b'\<rparr>)))"

definition remember_notice :: "notice_env \<Rightarrow> notice \<Rightarrow> notice_gate \<Rightarrow> notice_gate" where
  "remember_notice E n g = g\<lparr>ga_recent := push RECENT_MAX (nt_at n, notice_print E n) (ga_recent g)\<rparr>"

definition note_delivery :: "instant \<Rightarrow> notice_gate \<Rightarrow> notice_gate" where
  "note_delivery t g = g\<lparr>ga_delivered := push DELIVERED_MAX t (ga_delivered g)\<rparr>"

definition gate_consider :: "notice_env \<Rightarrow> instant \<Rightarrow> int \<Rightarrow> notice \<Rightarrow> notice_gate \<Rightarrow> (exn + gate_verdict \<times> string) \<times> notice_gate" where
  "gate_consider E now tod n g =
     (case decide E tod g n of
        Inl x \<Rightarrow> (Inl x, g)
      | Inr (v, reason) \<Rightarrow>
          (case v of
             Deliver \<Rightarrow>
               (case tell_user now n reason (note_delivery (nt_at n) (remember_notice E n g)) of
                  (Inl x, g') \<Rightarrow> (Inl x, g') | (Inr _, g') \<Rightarrow> (Inr (v, reason), g'))
           | Hold \<Rightarrow> (Inr (v, reason), remember_notice E n (g\<lparr>ga_held := ga_held g @ [n]\<rparr>))
           | Drop_it \<Rightarrow> (Inr (v, reason), g)))"

subsection \<open>Releasing\<close>

fun tell_all :: "instant \<Rightarrow> notice list \<Rightarrow> notice_gate \<Rightarrow> (exn + unit) \<times> notice_gate" where
  "tell_all now [] g = (Inr (), g)"
| "tell_all now (n # ns) g =
     (case tell_user now n (''zaleg'' @ pl_l @ ''e'') (note_delivery now g) of
        (Inl x, g') \<Rightarrow> (Inl x, g') | (Inr _, g') \<Rightarrow> tell_all now ns g')"

definition release_order :: "int \<Rightarrow> notice_gate \<Rightarrow> notice list" where
  "release_order limit g = slice_to limit (sort_key (\<lambda>n. (- nt_importance n, nt_at n)) (ga_held g))"

definition release_held :: "instant \<Rightarrow> int \<Rightarrow> notice_gate \<Rightarrow> (exn + notice list) \<times> notice_gate" where
  "release_held now limit g =
     (let ordered = release_order limit g;
          (r, g') = tell_all now ordered (g\<lparr>ga_held := filter (\<lambda>n. n \<notin> set ordered) (ga_held g)\<rparr>)
      in (map_sum id (\<lambda>_. ordered) r, g'))"

definition drop_held :: "notice_gate \<Rightarrow> nat \<times> notice_gate" where
  "drop_held g = (length (ga_held g), g\<lparr>ga_held := []\<rparr>)"

subsection \<open>Listening\<close>

definition event_py :: "notice_env \<Rightarrow> event_value \<Rightarrow> pyval" where
  "event_py E v = (case v of EvAt t \<Rightarrow> PFloat t (ne_show E t) | EvVal w \<Rightarrow> w)"

definition pop_or :: "notice_env \<Rightarrow> string \<Rightarrow> pyval \<Rightarrow> payload \<Rightarrow> pyval" where
  "pop_or E k dflt d = (case map_of d k of None \<Rightarrow> dflt | Some v \<Rightarrow> event_py E v)"

definition int_raises :: "pyval \<Rightarrow> exn" where
  "int_raises v = PyExn (case v of PStr s \<Rightarrow> ''ValueError'' | _ \<Rightarrow> ''TypeError'') (py_repr v)"

text \<open>One turn of \<open>pump\<close>: \<open>None\<close> is a silent event. An exception ends the pump.\<close>

definition pump_event ::
  "notice_env \<Rightarrow> instant \<Rightarrow> int \<Rightarrow> event \<Rightarrow> notice_gate \<Rightarrow> (exn + (gate_verdict \<times> string) option) \<times> notice_gate" where
  "pump_event E now tod e g =
     (let d = e_payload e in
      if truthy (pop_or E ''silent'' (PBool False) d) then (Inr None, g)
      else case py_int (pop_or E ''importance'' (PInt 3) d) of
        None \<Rightarrow> (Inl (int_raises (pop_or E ''importance'' (PInt 3) d)), g)
      | Some i \<Rightarrow>
          (let n = \<lparr>nt_message = py_str (pop_or E ''message'' (PStr []) d), nt_importance = i,
                 nt_source = py_str (pop_or E ''source'' (PStr []) d), nt_task = pop_or E ''task_id'' PNone d,
                 nt_at = e_at e,
                 nt_data = filter (\<lambda>(k, v). k \<notin> {''silent'', ''message'', ''importance'', ''source'', ''task_id''}) d\<rparr>;
               (r, g') = gate_consider E now tod n g
           in (map_sum id Some r, g')))"

definition describe_gate :: "int \<Rightarrow> notice_gate \<Rightarrow> exn + pydict" where
  "describe_gate tod g =
     (let c = ga_config g in
      map_sum id (\<lambda>quiet.
        [(''min_importance'', PInt (nc_min_importance c)),
         (''quiet_hours'', PDict [(''enabled'', PBool (qh_enabled (nc_quiet c))), (''start'', PStr (qh_start (nc_quiet c))),
            (''end'', PStr (qh_end (nc_quiet c))), (''active_now'', PBool quiet)]),
         (''gaming'', PBool (ga_gaming g)), (''suppress_while_gaming'', PBool (nc_suppress_gaming c)),
         (''max_per_hour'', PInt (nc_max_per_hour c)), (''held'', PInt (int (length (ga_held g))))])
        (quiet_contains (nc_quiet c) tod))"

text \<open>How many of a batch were told before one could not be.\<close>

fun told_count :: "instant \<Rightarrow> notice list \<Rightarrow> notice_gate \<Rightarrow> nat" where
  "told_count now [] g = 0"
| "told_count now (n # ns) g =
     (case tell_user now n (''zaleg'' @ pl_l @ ''e'') (note_delivery now g) of
        (Inl x, g') \<Rightarrow> 1 | (Inr _, g') \<Rightarrow> Suc (told_count now ns g'))"

definition released_count :: "instant \<Rightarrow> int \<Rightarrow> notice_gate \<Rightarrow> nat" where
  "released_count now limit g =
     (let ordered = release_order limit g in told_count now ordered (g\<lparr>ga_held := filter (\<lambda>n. n \<notin> set ordered) (ga_held g)\<rparr>))"

subsection \<open>A run of the gate\<close>

text \<open>What happens to a gate, with the log of what was told: when, and whether it passed as an ordinary
  notice. \<open>held\<close> and \<open>released\<close> collect the notices that took those ways.\<close>

datatype gate_op = Consider instant int notice | Release instant int | Gaming bool

record gate_run =
  gr_gate :: notice_gate
  gr_log :: "(instant \<times> bool) list"
  gr_kept :: "notice list"
  gr_released :: "notice list"

definition ordinary :: "exn + gate_verdict \<times> string \<Rightarrow> bool" where
  "ordinary r = (case r of Inr (v, reason) \<Rightarrow> v = Deliver \<and> reason = ''przepuszczone'' | Inl x \<Rightarrow> False)"

fun gate_step :: "notice_env \<Rightarrow> gate_op \<Rightarrow> gate_run \<Rightarrow> gate_run" where
  "gate_step E (Consider now tod n) G =
     (let g = gr_gate G; (r, g') = gate_consider E now tod n g; d = decide E tod g n in
      G\<lparr>gr_gate := g',
        gr_log := gr_log G @ (case d of Inr (Deliver, w) \<Rightarrow> [(nt_at n, ordinary d)] | _ \<Rightarrow> []),
        gr_kept := gr_kept G @ (case d of Inr (Hold, w) \<Rightarrow> [n] | _ \<Rightarrow> [])\<rparr>)"
| "gate_step E (Release now limit) G =
     (let (r, g') = release_held now limit (gr_gate G) in
      G\<lparr>gr_gate := g',
        gr_log := gr_log G @ replicate (released_count now limit (gr_gate G)) (now, False),
        gr_released := gr_released G @ (case r of Inr ns \<Rightarrow> ns | Inl x \<Rightarrow> [])\<rparr>)"
| "gate_step E (Gaming b) G = G\<lparr>gr_gate := set_gaming b (gr_gate G)\<rparr>"

definition fresh_run :: "notifications_config \<Rightarrow> bus option \<Rightarrow> gate_run" where
  "fresh_run c b = \<lparr>gr_gate = new_gate c b, gr_log = [], gr_kept = [], gr_released = []\<rparr>"

subsection \<open>Quiet hours are an arc of the clock\<close>

lemma parse_hour_range: "parse_hour v = Inr x \<Longrightarrow> 0 \<le> x \<and> x < MICRO_DAY"
  by (auto simp: parse_hour_def MICRO_DAY_def split: list.splits option.splits if_splits)

lemma mod_day: "- MICRO_DAY < x \<Longrightarrow> x < MICRO_DAY \<Longrightarrow> x mod MICRO_DAY = (if 0 \<le> x then x else x + MICRO_DAY)"
  using mod_pos_pos_trivial [of x MICRO_DAY] mod_pos_pos_trivial [of "x + MICRO_DAY" MICRO_DAY] by (auto simp: MICRO_DAY_def)

lemma quiet_arc:
  assumes "0 \<le> moment" "moment < MICRO_DAY" "parse_hour (qh_start q) = Inr s" "parse_hour (qh_end q) = Inr e"
  shows "quiet_contains q moment = Inr (qh_enabled q \<and> (moment - s) mod MICRO_DAY < (e - s) mod MICRO_DAY)"
proof -
  have "0 \<le> s" "s < MICRO_DAY" "0 \<le> e" "e < MICRO_DAY" using assms(3,4) parse_hour_range by blast+
  then have "(moment - s) mod MICRO_DAY = (if s \<le> moment then moment - s else moment - s + MICRO_DAY)"
    "(e - s) mod MICRO_DAY = (if s \<le> e then e - s else e - s + MICRO_DAY)"
    using assms(1,2) by (simp_all add: mod_day)
  with assms \<open>0 \<le> s\<close> \<open>s < MICRO_DAY\<close> \<open>0 \<le> e\<close> \<open>e < MICRO_DAY\<close> show ?thesis by (auto simp: quiet_contains_def)
qed

subsection \<open>The hourly limit\<close>

lemma sorted_split: "sorted xs \<Longrightarrow> xs = filter (\<lambda>x. x < c) xs @ filter (\<lambda>x. c \<le> x) (xs :: 'a::linorder list)"
proof (induction xs)
  case (Cons x xs)
  show ?case
  proof (cases "x < c")
    case False
    with Cons.prems have "filter (\<lambda>y. y < c) xs = []" by (auto simp: filter_empty_conv not_less)
    with False Cons show ?thesis by simp
  qed (use Cons in simp)
qed simp

lemma recent_count:
  fixes xs :: "rat list"
  assumes "sorted xs"
  shows "length (filter (\<lambda>x. c \<le> x) (last_n k xs)) = min k (length (filter (\<lambda>x. c \<le> x) xs))"
proof -
  define A where "A = filter (\<lambda>x. x < c) xs"
  define B where "B = filter (\<lambda>x. c \<le> x) xs"
  have xs: "xs = A @ B" using sorted_split [OF assms, of c] by (simp add: A_def B_def)
  have noA: "filter (\<lambda>x. c \<le> x) (drop n A) = []" for n by (auto simp: A_def filter_empty_conv dest!: in_set_dropD)
  have allB: "filter (\<lambda>x. c \<le> x) (drop n B) = drop n B" for n by (auto simp: B_def intro!: filter_True dest!: in_set_dropD)
  show ?thesis using noA noA [of 0] allB [of 0] allB by (auto simp: xs last_n_def min_def)
qed

lemma tell_user_same:
  "tell_user now n w g = (r, g') \<Longrightarrow> ga_delivered g' = ga_delivered g \<and> ga_config g' = ga_config g \<and> ga_held g' = ga_held g \<and> ga_recent g' = ga_recent g"
  by (auto simp: tell_user_def split: option.splits sum.splits)

lemma tell_all_delivered:
  "tell_all now ns g = (r, g') \<Longrightarrow> ga_delivered g = last_n DELIVERED_MAX ts \<Longrightarrow>
     ga_delivered g' = last_n DELIVERED_MAX (ts @ replicate (told_count now ns g) now) \<and> ga_config g' = ga_config g \<and>
     ga_held g' = ga_held g"
proof (induction now ns g arbitrary: ts rule: tell_all.induct)
  case (2 now n ns g)
  obtain r1 g1 where t: "tell_user now n (''zaleg'' @ pl_l @ ''e'') (note_delivery now g) = (r1, g1)" by (metis surj_pair)
  then have g1: "ga_delivered g1 = last_n DELIVERED_MAX (ts @ [now])" "ga_config g1 = ga_config g" "ga_held g1 = ga_held g"
    using tell_user_same [OF t] "2.prems"(2) by (simp_all add: note_delivery_def push_last_n)
  show ?case
  proof (cases r1)
    case (Inl x)
    with t g1 "2.prems" show ?thesis by auto
  next
    case (Inr u)
    with t "2.prems"(1) have "tell_all now ns g1 = (r, g')" by simp
    from "2.IH" [OF t [symmetric] Inr this g1(1)] g1 t Inr show ?thesis by simp
  qed
qed simp

lemma consider_delivered:
  assumes "gate_consider E now tod n g = (r, g')" "ga_delivered g = last_n DELIVERED_MAX ts"
  shows "ga_delivered g' = last_n DELIVERED_MAX (ts @ (case decide E tod g n of Inr (Deliver, w) \<Rightarrow> [nt_at n] | _ \<Rightarrow> [])) \<and>
    ga_config g' = ga_config g"
  using assms
  by (auto simp: gate_consider_def note_delivery_def remember_notice_def push_last_n
      split: sum.splits gate_verdict.splits prod.splits dest!: tell_user_same)

text \<open>Ordinary notices pass only under the limit.\<close>

lemma ordinary_under_limit:
  "ordinary (decide E tod g n) \<Longrightarrow> decide E tod g n = Inr (Deliver, ''przepuszczone'') \<and> \<not> over_rate_limit g (nt_at n)"
  by (auto simp: ordinary_def decide_def Let_def split: sum.splits if_splits)

fun op_time :: "gate_op \<Rightarrow> instant list" where
  "op_time (Consider now tod n) = [nt_at n]"
| "op_time (Release now limit) = [now]"
| "op_time (Gaming b) = []"

definition limit_kept :: "int \<Rightarrow> (instant \<times> bool) list \<Rightarrow> bool" where
  "limit_kept cap trail =
     (\<forall>pre t post. trail = pre @ (t, True) # post \<longrightarrow>
        int (length (filter (\<lambda>t'. t - 3600 \<le> t') (map fst pre))) < cap)"

lemma limit_kept_append:
  "limit_kept cap trail \<Longrightarrow> (b \<Longrightarrow> int (length (filter (\<lambda>t'. t - 3600 \<le> t') (map fst trail))) < cap) \<Longrightarrow>
     limit_kept cap (trail @ [(t, b)])"
  unfolding limit_kept_def by (auto simp: append_eq_append_conv2 append_eq_Cons_conv Cons_eq_append_conv) 

lemma limit_kept_replicate: "limit_kept cap trail \<Longrightarrow> limit_kept cap (trail @ replicate k (t, False))"
proof (induction k)
  case (Suc k)
  then have "limit_kept cap ((trail @ replicate k (t, False)) @ [(t, False)])" by (intro limit_kept_append) auto
  then show ?case by (simp add: replicate_append_same)
qed simp

definition rate_inv :: "notifications_config \<Rightarrow> instant list \<Rightarrow> gate_run \<Rightarrow> bool" where
  "rate_inv c ats G =
     (ga_config (gr_gate G) = c \<and> ga_delivered (gr_gate G) = last_n DELIVERED_MAX (map fst (gr_log G)) \<and>
      sorted (map fst (gr_log G)) \<and> set (map fst (gr_log G)) \<subseteq> set ats \<and> limit_kept (nc_max_per_hour c) (gr_log G))"

lemma rate_step:
  assumes "rate_inv c ats G" "sorted (ats @ op_time op)" "0 < nc_max_per_hour c" "nc_max_per_hour c \<le> int DELIVERED_MAX"
  shows "rate_inv c (ats @ op_time op) (gate_step E op G)"
proof (cases op)
  case (Consider now tod n)
  let ?g = "gr_gate G" and ?ts = "map fst (gr_log G)"
  obtain r g' where r: "gate_consider E now tod n ?g = (r, g')" by (metis surj_pair)
  have d: "ga_delivered ?g = last_n DELIVERED_MAX ?ts" using assms(1) by (simp add: rate_inv_def)
  have later: "\<forall>t \<in> set ?ts. t \<le> nt_at n" using assms(1,2) Consider by (auto simp: rate_inv_def sorted_append)
  have "int (length (filter (\<lambda>t'. nt_at n - 3600 \<le> t') ?ts)) < nc_max_per_hour c" if "ordinary (decide E tod ?g n)"
  proof -
    have "\<not> over_rate_limit ?g (nt_at n)" using ordinary_under_limit [OF that] by simp
    then show ?thesis using assms recent_count [of ?ts "nt_at n - 3600" DELIVERED_MAX]
      by (auto simp: over_rate_limit_def rate_inv_def Let_def d)
  qed
  then show ?thesis
    using consider_delivered [OF r d] r Consider assms(1) later
    by (auto simp: rate_inv_def sorted_append ordinary_def split: sum.splits gate_verdict.splits
        intro!: limit_kept_append)
next
  case (Release now limit)
  let ?g = "gr_gate G" and ?ts = "map fst (gr_log G)"
  obtain r g' where r: "release_held now limit ?g = (r, g')" by (metis surj_pair)
  have d: "ga_delivered ?g = last_n DELIVERED_MAX ?ts" using assms(1) by (simp add: rate_inv_def)
  have later: "\<forall>t \<in> set ?ts. t \<le> now" using assms(1,2) Release by (auto simp: rate_inv_def sorted_append)
  from r have "ga_delivered g' = last_n DELIVERED_MAX (?ts @ replicate (released_count now limit ?g) now) \<and> ga_config g' = ga_config ?g"
    using d by (auto simp: release_held_def released_count_def Let_def split: prod.splits dest!: tell_all_delivered)
  with r Release assms(1) later show ?thesis
    by (auto simp: rate_inv_def sorted_append intro: limit_kept_replicate)
qed (use assms in \<open>simp add: rate_inv_def set_gaming_def\<close>)

subsection \<open>Held notices\<close>

text \<open>A notice that can be told: its data do not use the parameters of the call.\<close>

definition tellable :: "notice \<Rightarrow> bool" where
  "tellable n = (fst ` set (nt_data n) \<inter> {''reason'', ''topic'', ''self''} = {})"

lemma keys_fold_dict_set: "fst ` set (fold (\<lambda>(k, v) d. dict_set k v d) p d) = fst ` set d \<union> fst ` set p"
proof (induction p arbitrary: d)
  case (Cons kv p)
  then show ?case by (cases kv) simp
qed simp

lemma tellable_speaks: "tellable n \<Longrightarrow> \<exists>b'. speak now n w b = Inr b'"
  by (auto simp: speak_def tellable_def notice_to_dict_def keys_fold_dict_set Let_def)

lemma tell_user_ok: "tellable n \<Longrightarrow> \<exists>g'. tell_user now n w g = (Inr (), g') \<and> ga_held g' = ga_held g"
proof (cases "ga_bus g")
  case (Some b)
  assume "tellable n"
  then obtain b' where "speak now n w b = Inr b'" using tellable_speaks by blast
  with Some show ?thesis by (simp add: tell_user_def)
qed (simp add: tell_user_def)

lemma tell_all_ok: "list_all tellable ns \<Longrightarrow> \<exists>g'. tell_all now ns g = (Inr (), g') \<and> ga_held g' = ga_held g"
proof (induction ns arbitrary: g)
  case (Cons n ns)
  then obtain g1 where "tell_user now n (''zaleg'' @ pl_l @ ''e'') (note_delivery now g) = (Inr (), g1)"
    "ga_held g1 = ga_held (note_delivery now g)" using tell_user_ok by fastforce
  with Cons.IH [of g1] Cons.prems show ?case by (auto simp: note_delivery_def)
qed simp

abbreviation urgency :: "notice \<Rightarrow> int \<times> rat" where
  "urgency n \<equiv> (- nt_importance n, nt_at n)"

lemma release_order_subset: "set (release_order limit g) \<subseteq> set (ga_held g)"
  by (auto simp: release_order_def slice_to_def dest!: in_set_takeD)

lemma release_held_ok:
  assumes "list_all tellable (ga_held g)"
  shows "\<exists>g'. release_held now limit g = (Inr (release_order limit g), g') \<and>
    ga_held g' = filter (\<lambda>n. n \<notin> set (release_order limit g)) (ga_held g)"
proof -
  have "list_all tellable (release_order limit g)"
    using assms release_order_subset [of limit g] by (auto simp: list_all_iff)
  from tell_all_ok [OF this, of now "g\<lparr>ga_held := filter (\<lambda>n. n \<notin> set (release_order limit g)) (ga_held g)\<rparr>"]
  show ?thesis by (auto simp: release_held_def Let_def)
qed

lemma release_order_first:
  "sorted (map urgency (release_order limit g)) \<and> (0 \<le> limit \<longrightarrow> length (release_order limit g) \<le> nat limit) \<and>
   (\<forall>n \<in> set (release_order limit g). \<forall>m \<in> set (ga_held g). m \<notin> set (release_order limit g) \<longrightarrow> urgency n \<le> urgency m)"
proof -
  define xs where "xs = sort_key urgency (ga_held g)"
  define k where "k = nat (if 0 \<le> limit then limit else int (length xs) + limit)"
  have o': "release_order limit g = take k xs" by (simp add: release_order_def slice_to_def xs_def k_def)
  have s: "sorted (map urgency (take k xs @ drop k xs))" by (simp add: xs_def)
  have "m \<in> set (drop k xs)" if "m \<in> set (ga_held g)" "m \<notin> set (take k xs)" for m
    using that append_take_drop_id [of k xs] by (metis UnE set_append set_sort xs_def)
  with s show ?thesis unfolding o' by (auto simp: sorted_append k_def simp del: append_take_drop_id)
qed

definition held_inv :: "gate_run \<Rightarrow> bool" where
  "held_inv G = (list_all tellable (ga_held (gr_gate G)) \<and>
     set (ga_held (gr_gate G)) \<union> set (gr_released G) = set (gr_kept G))"

lemma consider_held:
  "gate_consider E now tod n g = (r, g') \<Longrightarrow>
     ga_held g' = ga_held g @ (case decide E tod g n of Inr (Hold, w) \<Rightarrow> [n] | _ \<Rightarrow> [])"
  by (auto simp: gate_consider_def note_delivery_def remember_notice_def
      split: sum.splits gate_verdict.splits prod.splits dest!: tell_user_same)

fun op_tellable :: "gate_op \<Rightarrow> bool" where
  "op_tellable (Consider now tod n) = tellable n"
| "op_tellable _ = True"

lemma held_step:
  assumes "held_inv G" "op_tellable op"
  shows "held_inv (gate_step E op G)"
proof (cases op)
  case (Consider now tod n)
  obtain r g' where r: "gate_consider E now tod n (gr_gate G) = (r, g')" by (metis surj_pair)
  from consider_held [OF r] r assms Consider show ?thesis
    by (auto simp: held_inv_def split: sum.splits gate_verdict.splits)
next
  case (Release now limit)
  let ?ns = "release_order limit (gr_gate G)"
  from assms obtain g' where g': "release_held now limit (gr_gate G) = (Inr ?ns, g')"
    "ga_held g' = filter (\<lambda>n. n \<notin> set ?ns) (ga_held (gr_gate G))"
    using release_held_ok unfolding held_inv_def by blast
  with release_order_subset [of limit "gr_gate G"] have "set (ga_held g') \<union> set ?ns = set (ga_held (gr_gate G))" by auto
  with assms(1) g' Release show ?thesis by (simp add: held_inv_def list_all_iff) blast
qed (use assms in \<open>simp add: held_inv_def set_gaming_def\<close>)

lemma held_run: "list_all op_tellable ops \<Longrightarrow> held_inv G \<Longrightarrow> held_inv (fold (gate_step E) ops G)"
  by (induction ops arbitrary: G) (simp_all add: held_step)

lemma rate_run:
  assumes "0 < nc_max_per_hour c" "nc_max_per_hour c \<le> int DELIVERED_MAX"
  shows "rate_inv c ats G \<Longrightarrow> sorted (ats @ concat (map op_time ops)) \<Longrightarrow>
    rate_inv c (ats @ concat (map op_time ops)) (fold (gate_step E) ops G)"
proof (induction ops arbitrary: G ats)
  case (Cons op ops)
  then have "rate_inv c (ats @ op_time op) (gate_step E op G)"
    using assms by (intro rate_step) (auto simp: sorted_append)
  from Cons.IH [OF this] Cons.prems(2) show ?case by simp
qed simp

subsection \<open>Properties\<close>

text \<open>Quiet hours are an arc of the clock. For readable hours the window, also one that crosses midnight and
  one that is empty, contains exactly the moments less far after its start than its end is; an hour
  that cannot be read raises a configuration error whenever quiet hours are on, and only then.\<close>

theorem quiet_hours_are_an_arc:
  assumes "0 \<le> moment" "moment < MICRO_DAY"
  shows "(case (parse_hour (qh_start q), parse_hour (qh_end q)) of
      (Inr s, Inr e) \<Rightarrow>
        quiet_contains q moment = Inr (qh_enabled q \<and> (moment - s) mod MICRO_DAY < (e - s) mod MICRO_DAY)
    | _ \<Rightarrow> (\<exists>v. quiet_contains q moment = Inl (bad_hour v)) = qh_enabled q)"
proof -
  have bad: "parse_hour v = Inl x \<Longrightarrow> x = bad_hour v" for v x
    by (auto simp: parse_hour_def split: list.splits option.splits if_splits)
  show ?thesis
  proof (cases "parse_hour (qh_start q)")
    case (Inl x)
    with bad [OF Inl] show ?thesis by (auto simp: quiet_contains_def)
  next
    case start: (Inr s)
    show ?thesis
    proof (cases "parse_hour (qh_end q)")
      case (Inl x)
      with bad [OF Inl] start show ?thesis by (auto simp: quiet_contains_def)
    next
      case (Inr e)
      with quiet_arc [OF assms start] start show ?thesis by simp
    qed
  qed
qed

definition night :: quiet_hours where
  "night = \<lparr>qh_enabled = True, qh_start = ''23:00'', qh_end = ''08:00''\<rparr>"

lemma night_hours: "parse_hour ''23:00'' = Inr 82800000000" "parse_hour ''08:00'' = Inr 28800000000"
  by (simp_all add: parse_hour_def parse_int_def strip_def strip_by_def is_space_def is_digit_def byte_of_def)

theorem quiet_hours_are_an_arc_witness:
  "quiet_contains night 3600000000 = Inr True"
  using quiet_hours_are_an_arc [of 3600000000 night] by (simp add: night_def night_hours MICRO_DAY_def)

text \<open>C27: the hourly limit holds. Whatever notices, releases and games come, in the order of their times, an
  ordinary notice is let through only when fewer than max_per_hour were told in the hour before it,
  for every limit the gate's memory of 256 deliveries can count.\<close>

theorem hourly_limit_holds:
  assumes "0 < nc_max_per_hour c" "nc_max_per_hour c \<le> 256" "sorted (concat (map op_time ops))"
    and "gr_log (fold (gate_step E) ops (fresh_run c b)) = pre @ (t, True) # post"
  shows "int (length (filter (\<lambda>t'. t - 3600 \<le> t') (map fst pre))) < nc_max_per_hour c"
proof -
  have "rate_inv c [] (fresh_run c b)"
    by (simp add: rate_inv_def fresh_run_def new_gate_def last_n_def limit_kept_def)
  from rate_run [OF assms(1) _ this, of ops E] assms show ?thesis
    unfolding rate_inv_def limit_kept_def by (simp add: DELIVERED_MAX_def)
qed

definition sample_env :: notice_env where
  "sample_env = \<lparr>ne_digest = (\<lambda>s. s), ne_low = lower, ne_show = (\<lambda>t. [])\<rparr>"

definition sample_config :: notifications_config where
  "sample_config = \<lparr>nc_quiet = night, nc_suppress_gaming = True, nc_min_importance = 3, nc_max_per_hour = 1\<rparr>"

definition sample_notice :: "string \<Rightarrow> instant \<Rightarrow> notice" where
  "sample_notice m t = \<lparr>nt_message = m, nt_importance = 3, nt_source = ''s'', nt_task = PNone, nt_at = t, nt_data = []\<rparr>"

lemma noon_is_loud: "quiet_contains night 43200000000 = Inr False"
  by (simp add: quiet_contains_def night_def night_hours)

lemma sample_print: "notice_print sample_env (sample_notice [c] t) = [CHR ''s'', CHR ''|''] @ lower (strip [c])"
  by (simp add: notice_print_def sample_env_def sample_notice_def lower_def strip_def strip_by_def)

theorem hourly_limit_holds_witness:
  "gr_log (fold (gate_step sample_env) [Consider 10 43200000000 (sample_notice ''a'' 10)] (fresh_run sample_config None)) =
     [] @ (10, True) # [] \<and>
   int (length (filter (\<lambda>t'. 10 - 3600 \<le> t') (map fst ([] :: (rat \<times> bool) list)))) < nc_max_per_hour sample_config"
proof
  show l: "gr_log (fold (gate_step sample_env) [Consider 10 43200000000 (sample_notice ''a'' 10)] (fresh_run sample_config None)) =
     [] @ (10, True) # []"
    by (simp add: decide_def is_duplicate_def fresh_run_def new_gate_def sample_config_def sample_notice_def CRITICAL_def
        noon_is_loud over_rate_limit_def ordinary_def split: prod.splits)
  show "int (length (filter (\<lambda>t'. 10 - 3600 \<le> t') (map fst ([] :: (rat \<times> bool) list)))) < nc_max_per_hour sample_config"
    by (rule hourly_limit_holds [OF _ _ _ l]) (simp_all add: sample_config_def)
qed

text \<open>Held is not dropped. As long as the notices can be told at all, each one held is still held or was
  handed out by a release, nothing else is; and a release hands out the most important first, no
  more than asked for, leaving only notices that are no more urgent.\<close>

theorem held_notices_are_not_lost:
  assumes "list_all op_tellable ops"
    and "G = fold (gate_step E) ops (fresh_run c b)"
  shows "set (ga_held (gr_gate G)) \<union> set (gr_released G) = set (gr_kept G) \<and>
    (\<exists>ns g'. release_held now limit (gr_gate G) = (Inr ns, g') \<and> sorted (map urgency ns) \<and>
       (0 \<le> limit \<longrightarrow> length ns \<le> nat limit) \<and> set ns \<union> set (ga_held g') = set (ga_held (gr_gate G)) \<and>
       (\<forall>n \<in> set ns. \<forall>m \<in> set (ga_held g'). urgency n \<le> urgency m))"
proof -
  have "held_inv (fresh_run c b)" by (simp add: held_inv_def fresh_run_def new_gate_def)
  from held_run [OF assms(1) this] have h: "held_inv G" by (simp add: assms(2))
  then have "list_all tellable (ga_held (gr_gate G))" by (simp add: held_inv_def)
  from release_held_ok [OF this, of now limit] obtain g' where
    "release_held now limit (gr_gate G) = (Inr (release_order limit (gr_gate G)), g')"
    "ga_held g' = filter (\<lambda>n. n \<notin> set (release_order limit (gr_gate G))) (ga_held (gr_gate G))" by blast
  with h release_order_first [of limit "gr_gate G"] release_order_subset [of limit "gr_gate G"] show ?thesis
    by (auto simp: held_inv_def)
qed

theorem held_notices_are_not_lost_witness:
  "(let G = fold (gate_step sample_env) [Consider 10 3600000000 (sample_notice ''a'' 10)] (fresh_run sample_config None)
    in ga_held (gr_gate G) = [sample_notice ''a'' 10] \<and> set (gr_kept G) = {sample_notice ''a'' 10})"
proof -
  have q: "quiet_contains night 3600000000 = Inr True" by (simp add: quiet_contains_def night_def night_hours)
  let ?G = "fold (gate_step sample_env) [Consider 10 3600000000 (sample_notice ''a'' 10)] (fresh_run sample_config None)"
  have "ga_held (gr_gate ?G) = [sample_notice ''a'' 10]" "gr_released ?G = []"
    by (simp_all add: decide_def is_duplicate_def fresh_run_def new_gate_def sample_config_def CRITICAL_def q
        gate_consider_def remember_notice_def sample_notice_def split: prod.splits)
  with held_notices_are_not_lost [of "[Consider 10 3600000000 (sample_notice ''a'' 10)]" ?G sample_env sample_config None]
  show ?thesis by (simp add: tellable_def sample_notice_def Let_def)
qed

end
