(* ===== verification/VoiceSession.thy ===== *)
theory VoiceSession
  imports Events
begin

section \<open>The voice session (voice/session.py)\<close>

text \<open>
  Who may talk now: a machine of five states driven by wake-ups, voice activity, transcripts and the
  agent's own speech. The clock is read by number (\<open>ve_clock\<close>, in milliseconds; the session counts its
  readings), the bus stamps the n-th event with \<open>ve_wall\<close> n. The lemmas follow a session over any sequence
  of calls.
\<close>

subsection \<open>States\<close>

definition BARGE_IN_MS :: instant where "BARGE_IN_MS = 220"
definition END_OF_TURN_MS :: instant where "END_OF_TURN_MS = 700"
definition WAKE_WINDOW_MS :: instant where "WAKE_WINDOW_MS = 6000"

datatype voice_state = V_ASLEEP | V_LISTENING | V_THINKING | V_SPEAKING | V_PAUSED

fun voice_state_value :: "voice_state \<Rightarrow> string" where
  "voice_state_value V_ASLEEP = ''asleep''"
| "voice_state_value V_LISTENING = ''listening''"
| "voice_state_value V_THINKING = ''thinking''"
| "voice_state_value V_SPEAKING = ''speaking''"
| "voice_state_value V_PAUSED = ''paused''"

datatype trigger = WAKE_WORD | PUSH_TO_TALK | HOTKEY | TYPED | FOLLOW_UP

fun trigger_value :: "trigger \<Rightarrow> string" where
  "trigger_value WAKE_WORD = ''wake_word''"
| "trigger_value PUSH_TO_TALK = ''push_to_talk''"
| "trigger_value HOTKEY = ''hotkey''"
| "trigger_value TYPED = ''text''"
| "trigger_value FOLLOW_UP = ''follow_up''"

record voice_turn =
  tu_text :: string
  tu_started_at :: instant
  tu_ended_at :: instant
  tu_trigger :: trigger

definition turn_duration :: "voice_turn \<Rightarrow> instant" where
  "turn_duration t = tu_ended_at t - tu_started_at t"

record session_event =
  sx_kind :: string
  sx_state :: voice_state
  sx_detail :: payload

record voice_env =
  ve_clock :: "nat \<Rightarrow> instant"
  ve_wall :: "nat \<Rightarrow> instant"
  ve_barge_in :: bool
  ve_barge_in_ms :: instant
  ve_end_of_turn_ms :: instant
  ve_wake_window_ms :: instant

record session =
  vs_state :: voice_state
  vs_events :: "session_event list"
  vs_bus :: "bus option"
  vs_speech :: "instant option"
  vs_silence :: "instant option"
  vs_listening :: "instant option"
  vs_turn :: "instant option"
  vs_transcript :: "string list"
  vs_trigger :: trigger
  vs_interruptions :: nat
  vs_cut_short :: bool
  vs_reads :: nat

definition new_session :: "bus option \<Rightarrow> session" where
  "new_session b =
     \<lparr>vs_state = V_ASLEEP, vs_events = [], vs_bus = b, vs_speech = None, vs_silence = None, vs_listening = None,
      vs_turn = None, vs_transcript = [], vs_trigger = WAKE_WORD, vs_interruptions = 0, vs_cut_short = False,
      vs_reads = 0\<rparr>"

definition now_of :: "voice_env \<Rightarrow> session \<Rightarrow> instant" where
  "now_of E S = ve_clock E (vs_reads S)"

definition after_read :: "session \<Rightarrow> session" where
  "after_read S = S\<lparr>vs_reads := vs_reads S + 1\<rparr>"

definition voice_emit :: "voice_env \<Rightarrow> string \<Rightarrow> payload \<Rightarrow> session \<Rightarrow> session" where
  "voice_emit E kind detail S =
     S\<lparr>vs_events := vs_events S @ [\<lparr>sx_kind = kind, sx_state = vs_state S, sx_detail = detail\<rparr>],
       vs_bus := map_option (emit (ve_wall E (length (vs_events S))) (topic_name VOICE_STATE)
         ([(''state'', EvVal (PStr (voice_state_value (vs_state S)))), (''kind'', EvVal (PStr kind))] @ detail)) (vs_bus S)\<rparr>"

definition enter_state :: "voice_env \<Rightarrow> voice_state \<Rightarrow> string \<Rightarrow> payload \<Rightarrow> session \<Rightarrow> session" where
  "enter_state E st kind detail S = voice_emit E kind detail (S\<lparr>vs_state := st\<rparr>)"

definition because :: "string \<Rightarrow> payload" where
  "because why = [(''reason'', EvVal (PStr why))]"

subsection \<open>Opening and replying\<close>

definition finished_reason :: string where "finished_reason = ''koniec wypowiedzi''"
definition cut_reason :: string where "cut_reason = ''przerwane przez u'' @ pl_z @ ''ytkownika''"

definition stop_speaking :: "voice_env \<Rightarrow> string \<Rightarrow> session \<Rightarrow> session" where
  "stop_speaking E reason S =
     (if vs_state S \<noteq> V_SPEAKING then voice_emit E ''ignored'' (because (''nie m'' @ pl_o @ ''wi'' @ pl_e)) S
      else enter_state E V_ASLEEP ''stopped_speaking'' (because reason) (S\<lparr>vs_cut_short := (reason \<noteq> finished_reason)\<rparr>))"

definition wake :: "voice_env \<Rightarrow> trigger \<Rightarrow> session \<Rightarrow> session" where
  "wake E t S =
     (if vs_state S = V_PAUSED then voice_emit E ''ignored'' (because (''mikrofon wy'' @ pl_l @ pl_a @ ''czony'')) S
      else
        let S1 = (if vs_state S = V_SPEAKING then stop_speaking E cut_reason S else S)
        in enter_state E V_LISTENING ''listening'' [(''trigger'', EvVal (PStr (trigger_value t)))]
             (after_read (S1\<lparr>vs_trigger := t, vs_listening := Some (now_of E S1), vs_turn := None, vs_transcript := [],
                vs_speech := None, vs_silence := None\<rparr>)))"

definition voice_pause :: "voice_env \<Rightarrow> session \<Rightarrow> session" where
  "voice_pause E S = enter_state E V_PAUSED ''paused'' [] S"

definition voice_resume :: "voice_env \<Rightarrow> session \<Rightarrow> session" where
  "voice_resume E S = enter_state E V_ASLEEP ''asleep'' [] S"

definition start_speaking :: "voice_env \<Rightarrow> string \<Rightarrow> session \<Rightarrow> session" where
  "start_speaking E text S =
     enter_state E V_SPEAKING ''speaking'' [(''text'', EvVal (PStr text))] (S\<lparr>vs_speech := None, vs_cut_short := False\<rparr>)"

definition finished_speaking :: "voice_env \<Rightarrow> bool \<Rightarrow> session \<Rightarrow> session" where
  "finished_speaking E keep_floor S =
     (if keep_floor then wake E FOLLOW_UP S else enter_state E V_ASLEEP ''done_speaking'' [] S)"

subsection \<open>Speech\<close>

definition speech_started :: "voice_env \<Rightarrow> session \<Rightarrow> session" where
  "speech_started E S0 =
     (let now = now_of E S0; S = after_read S0 in
      if vs_state S = V_SPEAKING then
        (if \<not> ve_barge_in E then voice_emit E ''ignored'' (because (''przerywanie wy'' @ pl_l @ pl_a @ ''czone'')) S
         else voice_emit E ''maybe_interrupting'' [] (S\<lparr>vs_speech := Some now\<rparr>))
      else if vs_state S \<in> {V_ASLEEP, V_PAUSED} then S
      else voice_emit E ''speech'' []
             (S\<lparr>vs_speech := Some now, vs_silence := None,
                vs_turn := (if vs_turn S = None then Some now else vs_turn S)\<rparr>))"

definition turn_text :: "session \<Rightarrow> string" where
  "turn_text S = strip (join '' '' (vs_transcript S))"

text \<open>\<open>end_turn\<close> reads the clock for the end, and for the start when there is none (or it is zero).\<close>

definition end_turn :: "voice_env \<Rightarrow> session \<Rightarrow> session" where
  "end_turn E S =
     (let text = turn_text S;
          (start, S1) = (case vs_turn S of
              Some t \<Rightarrow> if t \<noteq> 0 then (t, S) else (now_of E S, after_read S)
            | None \<Rightarrow> (now_of E S, after_read S));
          t = \<lparr>tu_text = text, tu_started_at = start, tu_ended_at = now_of E S1, tu_trigger = vs_trigger S1\<rparr>;
          S2 = (after_read S1)\<lparr>vs_transcript := [], vs_turn := None, vs_silence := None\<rparr>
      in if text = [] then enter_state E V_ASLEEP ''empty_turn'' [] S2
         else enter_state E V_THINKING ''turn''
                [(''text'', EvVal (PStr text)), (''duration_ms'', EvAt (turn_duration t))] S2)"

definition heard :: "voice_env \<Rightarrow> string \<Rightarrow> session \<Rightarrow> session" where
  "heard E text S =
     (let cleaned = strip text in
      voice_emit E ''transcript'' [(''text'', EvVal (PStr cleaned)), (''partial'', EvVal (PBool True))]
        (if cleaned = [] then S else S\<lparr>vs_transcript := vs_transcript S @ [cleaned]\<rparr>))"

definition voice_frame :: "voice_env \<Rightarrow> instant \<Rightarrow> session \<Rightarrow> session" where
  "voice_frame E now S =
     (if vs_state S = V_SPEAKING \<and> ve_barge_in E then
        (case vs_speech S of
           None \<Rightarrow> S\<lparr>vs_speech := Some now\<rparr>
         | Some t \<Rightarrow>
             if ve_barge_in_ms E \<le> now - t
             then wake E FOLLOW_UP (stop_speaking E cut_reason (S\<lparr>vs_interruptions := vs_interruptions S + 1\<rparr>))
             else S)
      else if vs_state S = V_LISTENING then
        S\<lparr>vs_silence := None, vs_turn := (if vs_turn S = None then Some now else vs_turn S)\<rparr>
      else S)"

definition silent_frame :: "voice_env \<Rightarrow> instant \<Rightarrow> session \<Rightarrow> session" where
  "silent_frame E now S =
     (if vs_state S = V_SPEAKING then S\<lparr>vs_speech := None\<rparr>
      else if vs_state S \<noteq> V_LISTENING then S
      else case vs_silence S of
        None \<Rightarrow> S\<lparr>vs_silence := Some now\<rparr>
      | Some t \<Rightarrow>
          if vs_turn S \<noteq> None \<and> ve_end_of_turn_ms E \<le> now - t then end_turn E S
          else if vs_turn S = None \<and>
                  (case vs_listening S of None \<Rightarrow> False | Some l \<Rightarrow> ve_wake_window_ms E \<le> now - l)
            then enter_state E V_ASLEEP ''timeout'' [] S
          else S)"

definition audio_tick :: "voice_env \<Rightarrow> bool \<Rightarrow> session \<Rightarrow> session" where
  "audio_tick E speaking S =
     (if speaking then voice_frame E (now_of E S) (after_read S) else silent_frame E (now_of E S) (after_read S))"

definition voice_snapshot :: "voice_env \<Rightarrow> session \<Rightarrow> pydict" where
  "voice_snapshot E S =
     [(''state'', PStr (voice_state_value (vs_state S))), (''barge_in'', PBool (ve_barge_in E)),
      (''interruptions'', PInt (int (vs_interruptions S))), (''transcript'', PStr (join '' '' (vs_transcript S))),
      (''trigger'', PStr (trigger_value (vs_trigger S)))]"

subsection \<open>A session\<close>

datatype voice_call =
    Wake trigger | Pause | Resume | SpeechStarted | Tick bool | Heard string | EndTurn
  | StartSpeaking string | StopSpeaking string | FinishedSpeaking bool

fun voice_step :: "voice_env \<Rightarrow> voice_call \<Rightarrow> session \<Rightarrow> session" where
  "voice_step E (Wake t) S = wake E t S"
| "voice_step E Pause S = voice_pause E S"
| "voice_step E Resume S = voice_resume E S"
| "voice_step E SpeechStarted S = speech_started E S"
| "voice_step E (Tick speaking) S = audio_tick E speaking S"
| "voice_step E (Heard text) S = heard E text S"
| "voice_step E EndTurn S = end_turn E S"
| "voice_step E (StartSpeaking text) S = start_speaking E text S"
| "voice_step E (StopSpeaking reason) S = stop_speaking E reason S"
| "voice_step E (FinishedSpeaking keep) S = finished_speaking E keep S"

definition voice_run :: "voice_env \<Rightarrow> voice_call list \<Rightarrow> session \<Rightarrow> session" where
  "voice_run E calls S = fold (voice_step E) calls S"

lemma voice_run_snoc [simp]: "voice_run E (calls @ [c]) S = voice_step E c (voice_run E calls S)"
  by (simp add: voice_run_def)

lemma voice_run_Nil [simp]: "voice_run E [] S = S"
  by (simp add: voice_run_def)

lemmas voice_simps =
  voice_emit_def enter_state_def after_read_def wake_def stop_speaking_def voice_pause_def voice_resume_def
  start_speaking_def finished_speaking_def speech_started_def heard_def audio_tick_def voice_frame_def silent_frame_def Let_def

lemma end_turn_simps [simp]:
  "vs_state (end_turn E S) = (if turn_text S = [] then V_ASLEEP else V_THINKING)"
  "vs_interruptions (end_turn E S) = vs_interruptions S" "vs_speech (end_turn E S) = vs_speech S"
  by (auto simp: end_turn_def voice_simps split: option.splits prod.splits)

subsection \<open>Barge-in\<close>

definition voiced :: "voice_call \<Rightarrow> bool" where
  "voiced c = (c = Tick True \<or> c = SpeechStarted)"

definition unbroken :: "voice_call list \<Rightarrow> bool" where
  "unbroken mid = (\<forall>x \<in> set mid. x \<noteq> Tick False \<and> (\<forall>t. x \<noteq> StartSpeaking t))"

text \<open>Some call heard the voice at the instant noted, while GARIS spoke, and no silence since.\<close>

definition heard_since :: "voice_env \<Rightarrow> session \<Rightarrow> voice_call list \<Rightarrow> instant \<Rightarrow> bool" where
  "heard_since E S0 calls s =
     (\<exists>pre c mid. calls = pre @ c # mid \<and> voiced c \<and> unbroken mid \<and> vs_state (voice_run E pre S0) = V_SPEAKING \<and>
        s = now_of E (voice_run E pre S0))"

lemma heard_since_more:
  assumes "heard_since E S0 calls s" "c \<noteq> Tick False" "\<And>t. c \<noteq> StartSpeaking t"
  shows "heard_since E S0 (calls @ [c]) s"
proof -
  from assms(1) obtain pre v mid where k: "calls = pre @ v # mid" "voiced v" "unbroken mid"
    "vs_state (voice_run E pre S0) = V_SPEAKING" "s = now_of E (voice_run E pre S0)"
    unfolding heard_since_def by blast
  have "unbroken (mid @ [c])" using k(3) assms(2,3) by (simp add: unbroken_def)
  with k show ?thesis unfolding heard_since_def
    by (intro exI [of _ pre] exI [of _ v] exI [of _ "mid @ [c]"]) simp
qed

lemma heard_since_now:
  "voiced c \<Longrightarrow> vs_state (voice_run E calls S0) = V_SPEAKING \<Longrightarrow> heard_since E S0 (calls @ [c]) (now_of E (voice_run E calls S0))"
  unfolding heard_since_def by (intro exI [of _ calls] exI [of _ c] exI [of _ "[]"]) (simp add: unbroken_def)

lemma stays_speaking:
  assumes "vs_state (voice_step E c S) = V_SPEAKING" "vs_speech (voice_step E c S) = Some s"
  shows "vs_state S = V_SPEAKING \<and> c \<noteq> Tick False \<and> (\<forall>t. c \<noteq> StartSpeaking t) \<and>
    (vs_speech S = Some s \<or> (voiced c \<and> s = now_of E S))"
  using assms by (cases c) (auto simp: voice_simps voiced_def now_of_def split: if_splits option.splits)

lemma speech_is_heard:
  assumes "vs_state S0 \<noteq> V_SPEAKING"
  shows "vs_state (voice_run E calls S0) = V_SPEAKING \<Longrightarrow> vs_speech (voice_run E calls S0) = Some s \<Longrightarrow> heard_since E S0 calls s"
proof (induction calls arbitrary: s rule: rev_induct)
  case Nil
  with assms show ?case by simp
next
  case (snoc c calls)
  let ?S = "voice_run E calls S0"
  from stays_speaking [of E c ?S s] snoc.prems have k: "vs_state ?S = V_SPEAKING" "c \<noteq> Tick False" "\<And>t. c \<noteq> StartSpeaking t"
    "vs_speech ?S = Some s \<or> (voiced c \<and> s = now_of E ?S)" by simp_all
  from k(4) show ?case
  proof
    assume "vs_speech ?S = Some s"
    then show ?thesis using heard_since_more [OF snoc.IH [OF k(1)] k(2,3)] by blast
  next
    assume "voiced c \<and> s = now_of E ?S"
    with heard_since_now [of c E calls S0] k(1) show ?thesis by blast
  qed
qed

lemma interruption_steps:
  assumes "vs_interruptions S < vs_interruptions (voice_step E c S)"
  shows "c = Tick True \<and> vs_state S = V_SPEAKING \<and> ve_barge_in E \<and>
    (\<exists>s. vs_speech S = Some s \<and> ve_barge_in_ms E \<le> now_of E S - s) \<and> vs_state (voice_step E c S) = V_LISTENING \<and>
    vs_cut_short (voice_step E c S)"
  using assms
  by (cases c) (auto simp: voice_simps now_of_def cut_reason_def finished_reason_def split: if_splits option.splits)

subsection \<open>The wake window\<close>

definition opened :: "session \<Rightarrow> instant \<Rightarrow> bool" where
  "opened S l = (vs_state S = V_LISTENING \<and> vs_turn S = None \<and> vs_silence S = None \<and> vs_listening S = Some l)"

definition waits_on :: "session \<Rightarrow> instant \<Rightarrow> bool" where
  "waits_on S l = (vs_state S = V_LISTENING \<and> vs_turn S = None \<and> vs_silence S \<noteq> None \<and> vs_listening S = Some l)"

definition silence :: "voice_env \<Rightarrow> nat \<Rightarrow> session \<Rightarrow> session" where
  "silence E n S = (audio_tick E False ^^ n) S"

lemma silence_Suc: "silence E (Suc n) S = silence E n (audio_tick E False S)"
  by (simp add: silence_def funpow_swap1)

lemma silence_asleep: "vs_state S = V_ASLEEP \<Longrightarrow> vs_state (silence E n S) = V_ASLEEP \<and> vs_events (silence E n S) = vs_events S"
proof (induction n arbitrary: S)
  case (Suc n)
  then have "vs_state (audio_tick E False S) = V_ASLEEP" "vs_events (audio_tick E False S) = vs_events S"
    by (simp_all add: voice_simps)
  with Suc.IH [of "audio_tick E False S"] show ?case by (simp add: silence_Suc)
qed (simp add: silence_def)

definition window_over :: "voice_env \<Rightarrow> session \<Rightarrow> instant \<Rightarrow> nat \<Rightarrow> bool" where
  "window_over E S l k = (ve_wake_window_ms E \<le> ve_clock E (vs_reads S + k) - l)"

text \<open>No turn is announced by silence in an opened window, and it closes at the first tick past its end.\<close>

definition turns :: "session \<Rightarrow> nat" where
  "turns S = length (filter (\<lambda>e. sx_kind e = ''turn'') (vs_events S))"

lemma waits_silence:
  "waits_on S l \<Longrightarrow> vs_state (silence E n S) = (if \<exists>k<n. window_over E S l k then V_ASLEEP else V_LISTENING) \<and>
     turns (silence E n S) = turns S"
proof (induction n arbitrary: S)
  case 0
  then show ?case by (simp add: silence_def waits_on_def)
next
  case (Suc n)
  let ?S = "audio_tick E False S"
  have w: "vs_state S = V_LISTENING" "vs_turn S = None" "vs_listening S = Some l" and q: "\<exists>q. vs_silence S = Some q"
    using Suc.prems by (auto simp: waits_on_def)
  show ?case
  proof (cases "window_over E S l 0")
    case True
    with w q have "vs_state ?S = V_ASLEEP" "turns ?S = turns S"
      by (auto simp: voice_simps window_over_def now_of_def turns_def)
    with silence_asleep [of ?S E n] True show ?thesis by (auto simp: silence_Suc turns_def)
  next
    case False
    with w q have S: "?S = after_read S" by (auto simp: voice_simps window_over_def now_of_def)
    then have "waits_on ?S l" using Suc.prems by (simp add: waits_on_def after_read_def)
    have over: "window_over E S l (Suc k) = window_over E ?S l k" for k
      by (simp add: S window_over_def after_read_def)
    have "(\<exists>k<Suc n. window_over E S l k) = (\<exists>k<n. window_over E ?S l k)"
      using False by (simp add: Ex_less_Suc2 over)
    moreover have "turns ?S = turns S" by (simp add: S after_read_def turns_def)
    ultimately show ?thesis using Suc.IH [OF \<open>waits_on ?S l\<close>] by (simp add: silence_Suc)
  qed
qed

lemma opened_silence:
  "opened S l \<Longrightarrow> vs_state (silence E n S) = (if \<exists>k<n. 0 < k \<and> window_over E S l k then V_ASLEEP else V_LISTENING) \<and>
     turns (silence E n S) = turns S"
proof (cases n)
  case 0
  then show "opened S l \<Longrightarrow> ?thesis" by (simp add: silence_def opened_def)
next
  case (Suc m)
  assume o': "opened S l"
  let ?S = "audio_tick E False S"
  from o' have w: "waits_on ?S l" and reads: "vs_reads ?S = vs_reads S + 1" and turns: "turns ?S = turns S"
    by (auto simp: voice_simps opened_def waits_on_def turns_def)
  have over: "window_over E S l (Suc k) = window_over E ?S l k" for k
    by (simp add: window_over_def reads)
  have "(\<exists>k<Suc m. 0 < k \<and> window_over E S l k) = (\<exists>k<m. window_over E ?S l k)"
    by (simp add: Ex_less_Suc2 over)
  with waits_silence [OF w, of E m] turns Suc show ?thesis by (simp add: silence_Suc)
qed

lemma wake_opens: "vs_state S \<noteq> V_PAUSED \<Longrightarrow> opened (wake E t S) (now_of E S) \<and> vs_reads (wake E t S) = vs_reads S + 1"
  by (auto simp: opened_def voice_simps now_of_def)

lemma heard_opened: "opened S l \<Longrightarrow> opened (heard E text S) l \<and> vs_reads (heard E text S) = vs_reads S \<and> turns (heard E text S) = turns S"
  by (auto simp: opened_def voice_simps turns_def)

subsection \<open>Properties\<close>


definition sample_voice :: voice_env where
  "sample_voice =
     \<lparr>ve_clock = (\<lambda>n. 300 * of_nat n), ve_wall = (\<lambda>n. 0), ve_barge_in = True, ve_barge_in_ms = BARGE_IN_MS,
      ve_end_of_turn_ms = END_OF_TURN_MS, ve_wake_window_ms = WAKE_WINDOW_MS\<rparr>"

lemmas voice_eval = voice_run_def voice_simps now_of_def new_session_def sample_voice_def BARGE_IN_MS_def


text \<open>The wake window closes. After a wake-up followed by silence alone GARIS goes back to sleep at exactly the
  first frame, after the one that notes the silence, that comes wake_window_ms after the wake-up, and listens
  until then; nothing is announced as said.\<close>

theorem wake_window_closes:
  assumes "vs_state S \<noteq> V_PAUSED"
  shows "vs_state (silence E n (wake E t S)) =
      (if \<exists>k<n. 0 < k \<and> ve_wake_window_ms E \<le> ve_clock E (vs_reads S + 1 + k) - ve_clock E (vs_reads S)
       then V_ASLEEP else V_LISTENING) \<and>
    turns (silence E n (wake E t S)) = turns (wake E t S)"
  using opened_silence [of "wake E t S" "now_of E S" E n] wake_opens [OF assms, of E t]
  by (simp add: window_over_def now_of_def)

theorem wake_window_closes_witness:
  "vs_state (silence sample_voice 30 (wake sample_voice WAKE_WORD (new_session None))) = V_ASLEEP"
proof -
  have "\<exists>k<30. 0 < k \<and> (6000 :: rat) \<le> 300 * (1 + of_nat k)" by (intro exI [of _ 29]) simp
  with wake_window_closes [of "new_session None" sample_voice 30 WAKE_WORD] show ?thesis
    by (simp add: new_session_def sample_voice_def WAKE_WINDOW_MS_def)
qed

end
