(* ===== verification/Wake.thy ===== *)
theory Wake
  imports TextFold
begin

section \<open>The wake word (voice/wake.py)\<close>

text \<open>
  The fuzzy matcher of the wake phrase. \<open>distance\<close> is the row-by-row Levenshtein distance that gives up
  beyond a cap; the specification it is proved against is the least cost of an edit script
  (\<open>edits\<close>). Words are compared by characters (\<open>cp_chars\<close>). The iteration order of the set of
  variants is a parameter (a list): whether an utterance wakes does not depend on it.
\<close>

subsection \<open>Edit distance\<close>

fun next_row :: "'a \<Rightarrow> 'a list \<Rightarrow> nat list \<Rightarrow> nat \<Rightarrow> nat list" where
  "next_row x [] prev left = []"
| "next_row x (y # ys) prev left =
     (let v = min (min (prev ! 1 + 1) (left + 1)) (prev ! 0 + (if x \<noteq> y then 1 else 0))
      in v # next_row x ys (tl prev) v)"

fun distance_rows :: "nat \<Rightarrow> 'a list \<Rightarrow> nat \<Rightarrow> nat list \<Rightarrow> 'a list \<Rightarrow> nat" where
  "distance_rows cap b i previous [] = last previous"
| "distance_rows cap b i previous (x # a) =
     (let current = (i + 1) # next_row x b previous (i + 1)
      in if cap < Min (set current) then cap + 1 else distance_rows cap b (i + 1) current a)"

definition distance :: "nat \<Rightarrow> 'a list \<Rightarrow> 'a list \<Rightarrow> nat" where
  "distance cap a b =
     (if cap < (if length a \<le> length b then length b - length a else length a - length b) then cap + 1
      else distance_rows cap b 0 [0..<length b + 1] a)"

subsection \<open>The specification: edit scripts\<close>

text \<open>\<open>edits a b n\<close>: some script turns \<open>a\<close> into \<open>b\<close> with \<open>n\<close> replacements, deletions and insertions.\<close>

inductive edits :: "'a list \<Rightarrow> 'a list \<Rightarrow> nat \<Rightarrow> bool" where
  done_: "edits [] [] 0"
| keep: "edits a b n \<Longrightarrow> edits (x # a) (x # b) n"
| replace: "edits a b n \<Longrightarrow> edits (x # a) (y # b) (Suc n)"
| delete: "edits a b n \<Longrightarrow> edits (x # a) b (Suc n)"
| insert: "edits a b n \<Longrightarrow> edits a (y # b) (Suc n)"

inductive_cases edits_Nil: "edits [] b n"
inductive_cases edits_Nil2: "edits a [] n"
inductive_cases edits_Cons: "edits (x # a) (y # b) n"

fun lev :: "'a list \<Rightarrow> 'a list \<Rightarrow> nat" where
  "lev [] b = length b"
| "lev a [] = length a"
| "lev (x # a) (y # b) =
     min (min (lev a (y # b) + 1) (lev (x # a) b + 1)) (lev a b + (if x \<noteq> y then 1 else 0))"

lemma lev_Nil2 [simp]: "lev a [] = length a"
  by (cases a) simp_all

lemma edits_lev: "edits a b (lev a b)"
proof (induction a b rule: lev.induct)
  case (1 b)
  show ?case by (induction b) (auto intro: edits.intros)
next
  case (2 v va)
  have "edits a [] (length a)" for a :: "'a list" by (induction a) (auto intro: edits.intros)
  then have "edits (v # va) [] (length (v # va))" .
  then show ?case by simp
next
  case (3 x a y b)
  let ?c = "lev a b + (if x \<noteq> y then 1 else 0)"
  have e: "lev (x # a) (y # b) = min (min (Suc (lev a (y # b))) (Suc (lev (x # a) b))) ?c" by simp
  have "min (min p q) r = p \<or> min (min p q) r = q \<or> min (min p q) r = r" for p q r :: nat by (simp add: min_def)
  from this [of "Suc (lev a (y # b))" "Suc (lev (x # a) b)" ?c, folded e]
  consider "lev (x # a) (y # b) = Suc (lev a (y # b))" | "lev (x # a) (y # b) = Suc (lev (x # a) b)"
    | "lev (x # a) (y # b) = ?c"
    by blast
  then show ?case
  proof cases
    case 1
    show ?thesis unfolding 1 by (rule edits.delete) (rule 3(1))
  next
    case 2
    show ?thesis unfolding 2 by (rule edits.insert) (rule 3(2))
  next
    case third: 3
    show ?thesis unfolding third using 3(3) by (auto intro: edits.intros)
  qed
qed

lemma lev_delete: "lev (x # a) b \<le> Suc (lev a b)"
  by (cases b) (simp_all add: min_le_iff_disj)

lemma lev_insert: "lev a (y # b) \<le> Suc (lev a b)"
  by (cases a) (simp_all add: min_le_iff_disj)

lemma lev_least: "edits a b n \<Longrightarrow> lev a b \<le> n"
  by (induction rule: edits.induct)
     (simp_all add: min_le_iff_disj le_trans [OF lev_delete] le_trans [OF lev_insert])

lemma edits_append: "edits a b n \<Longrightarrow> edits c d m \<Longrightarrow> edits (a @ c) (b @ d) (n + m)"
  by (induction rule: edits.induct) (auto intro: edits.intros)

lemma edits_rev: "edits a b n \<Longrightarrow> edits (rev a) (rev b) n"
proof (induction rule: edits.induct)
  case (keep a b n x)
  with edits_append [of "rev a" "rev b" n "[x]" "[x]" 0] show ?case by (simp add: edits.intros)
next
  case (replace a b n x y)
  with edits_append [of "rev a" "rev b" n "[x]" "[y]" 1] show ?case by (auto intro: edits.intros)
next
  case (delete a b n x)
  with edits_append [of "rev a" "rev b" n "[x]" "[]" 1] show ?case by (auto intro: edits.intros)
next
  case (insert a b n y)
  with edits_append [of "rev a" "rev b" n "[]" "[y]" 1] show ?case by (auto intro: edits.intros)
qed (simp add: edits.intros)

lemma lev_rev: "lev (rev a) (rev b) = lev a b"
  using lev_least [OF edits_rev [OF edits_lev [of a b]]] lev_least [OF edits_rev [OF edits_lev [of "rev a" "rev b"]]]
  by simp

lemma lev_length: "length b \<le> length a + lev a b" "length a \<le> length b + lev a b"
proof -
  have "edits a b n \<Longrightarrow> length b \<le> length a + n \<and> length a \<le> length b + n" for n
    by (induction rule: edits.induct) auto
  from this [OF edits_lev] show "length b \<le> length a + lev a b" "length a \<le> length b + lev a b" by simp_all
qed

subsection \<open>The rows\<close>

definition prefix_lev :: "'a list \<Rightarrow> 'a list \<Rightarrow> nat \<Rightarrow> nat" where
  "prefix_lev b p j = lev (rev p) (rev (take j b))"

definition lev_row :: "'a list \<Rightarrow> 'a list \<Rightarrow> nat list" where
  "lev_row b p = map (prefix_lev b p) [0..<length b + 1]"

lemma prefix_lev_0 [simp]: "prefix_lev b p 0 = length p"
  by (simp add: prefix_lev_def)

lemma prefix_lev_Suc:
  "j < length b \<Longrightarrow> prefix_lev b (p @ [x]) (Suc j) =
     min (min (prefix_lev b p (Suc j) + 1) (prefix_lev b (p @ [x]) j + 1)) (prefix_lev b p j + (if x \<noteq> b ! j then 1 else 0))"
  by (simp add: prefix_lev_def take_Suc_conv_app_nth)

lemma second: "(u # v # w) ! 1 = v"
  by simp

lemma next_row_from:
  "k \<le> length b \<Longrightarrow> next_row x (drop k b) (map (prefix_lev b p) [k..<length b + 1]) (prefix_lev b (p @ [x]) k) =
     map (prefix_lev b (p @ [x])) [Suc k..<length b + 1]"
proof (induction "length b - k" arbitrary: k)
  case (Suc m)
  then have k: "k < length b" by simp
  have rest: "map (prefix_lev b p) [k..<length b + 1] =
      prefix_lev b p k # prefix_lev b p (Suc k) # map (prefix_lev b p) [Suc (Suc k)..<length b + 1]"
    using k by (simp add: upt_conv_Cons del: upt_Suc)
  have tail: "prefix_lev b p (Suc k) # map (prefix_lev b p) [Suc (Suc k)..<length b + 1] =
      map (prefix_lev b p) [Suc k..<length b + 1]"
    using k by (simp add: upt_conv_Cons del: upt_Suc)
  have at_one: "(prefix_lev b p k # map (prefix_lev b p) [Suc k..<length b + 1]) ! 1 = prefix_lev b p (Suc k)"
    by (simp only: tail [symmetric] second)
  have "next_row x (drop (Suc k) b) (map (prefix_lev b p) [Suc k..<length b + 1]) (prefix_lev b (p @ [x]) (Suc k)) =
      map (prefix_lev b (p @ [x])) [Suc (Suc k)..<length b + 1]"
    using Suc by (intro Suc.hyps(1)) auto
  moreover have "map (prefix_lev b (p @ [x])) [Suc k..<length b + 1] =
      prefix_lev b (p @ [x]) (Suc k) # map (prefix_lev b (p @ [x])) [Suc (Suc k)..<length b + 1]"
    using k by (simp add: upt_conv_Cons del: upt_Suc)
  ultimately show ?case
    unfolding Cons_nth_drop_Suc [OF k, symmetric] rest
    by (simp only: next_row.simps Let_def nth_Cons_0 at_one list.sel tail prefix_lev_Suc [OF k, symmetric])
qed simp

lemma next_row_row: "(length p + 1) # next_row x b (lev_row b p) (length p + 1) = lev_row b (p @ [x])"
proof -
  have "next_row x (drop 0 b) (map (prefix_lev b p) [0..<length b + 1]) (prefix_lev b (p @ [x]) 0) =
      map (prefix_lev b (p @ [x])) [Suc 0..<length b + 1]"
    by (rule next_row_from) simp
  then show ?thesis by (simp add: lev_row_def upt_conv_Cons del: upt_Suc)
qed

lemma row_min_grows: "j \<le> length b \<Longrightarrow> Min (set (lev_row b p)) \<le> prefix_lev b (p @ [x]) j"
proof (induction j)
  case 0
  have "length p \<in> set (lev_row b p)" by (auto simp: lev_row_def image_iff intro!: bexI [of _ 0])
  then have "Min (set (lev_row b p)) \<le> length p" by (intro Min_le) auto
  then show ?case by simp
next
  case (Suc j)
  have "Min (set (lev_row b p)) \<le> prefix_lev b p i" if "i \<le> length b" for i
    using that by (intro Min_le) (auto simp: lev_row_def simp del: upt_Suc)
  from this [of j] this [of "Suc j"] Suc show ?case by (auto simp: prefix_lev_Suc)
qed

lemma last_row: "last (lev_row b p) = lev p b"
  by (simp add: lev_row_def last_map prefix_lev_def lev_rev)

lemma row_min_le: "Min (set (lev_row b p)) \<le> lev (p @ a) b"
proof (induction a arbitrary: p)
  case Nil
  have "last (lev_row b p) \<in> set (lev_row b p)" by (intro last_in_set) (simp add: lev_row_def)
  then have "Min (set (lev_row b p)) \<le> last (lev_row b p)" by (intro Min_le) auto
  then show ?case by (simp add: last_row)
next
  case (Cons x a)
  have "Min (set (lev_row b p)) \<le> Min (set (lev_row b (p @ [x])))"
    using row_min_grows [of _ b p x] by (intro Min.boundedI) (auto simp: lev_row_def)
  also have "\<dots> \<le> lev ((p @ [x]) @ a) b" by (rule Cons.IH)
  finally show ?case by simp
qed

lemma distance_rows_lev:
  "(lev (p @ a) b \<le> cap \<longrightarrow> distance_rows cap b (length p) (lev_row b p) a = lev (p @ a) b) \<and>
   (cap < lev (p @ a) b \<longrightarrow> cap < distance_rows cap b (length p) (lev_row b p) a)"
proof (induction a arbitrary: p)
  case Nil
  then show ?case by (simp add: last_row)
next
  case (Cons x a)
  show ?case
  proof (cases "cap < Min (set (lev_row b (p @ [x])))")
    case True
    with row_min_le [of b "p @ [x]" a] show ?thesis using next_row_row [of p x b] by (simp add: Let_def)
  next
    case False
    with Cons.IH [of "p @ [x]"] show ?thesis using next_row_row [of p x b] by (simp add: Let_def)
  qed
qed

lemma distance_lev: "(lev a b \<le> cap \<longrightarrow> distance cap a b = lev a b) \<and> (cap < lev a b \<longrightarrow> cap < distance cap a b)"
proof -
  have "[0..<length b + 1] = lev_row b []"
    by (rule nth_equalityI) (auto simp: lev_row_def prefix_lev_def simp del: upt_Suc)
  with distance_rows_lev [of "[]" a b cap] lev_length [where a = a and b = b] show ?thesis
    by (auto simp: distance_def simp del: upt_Suc split: if_splits)
qed

subsection \<open>The matcher\<close>

definition DEFAULT_PHRASE :: string where "DEFAULT_PHRASE = ''garis''"

definition KNOWN_CONFUSIONS :: "(string \<times> string list) list" where
  "KNOWN_CONFUSIONS =
     [(''garis'', [''garis'', ''garys'', ''gari'' @ pl_s, ''charis'', ''haris'', ''garris'', ''gars'',
        ''garix'', ''garic'', ''gariz'', ''carys'', ''garu'' @ pl_s])]"

record wake_result =
  wm_matched :: bool
  wm_phrase :: string
  wm_heard :: string
  wm_remainder :: string
  wm_distance :: nat

definition no_match :: "string \<Rightarrow> string \<Rightarrow> wake_result" where
  "no_match phrase heard = \<lparr>wm_matched = False, wm_phrase = phrase, wm_heard = heard, wm_remainder = [], wm_distance = 0\<rparr>"

record wake_matcher =
  wk_phrase :: string
  wk_sensitivity :: rat
  wk_extra :: "string list"
  wk_variants :: "string list"

text \<open>\<open>set_phrase\<close>; \<open>arrange\<close> lists a set of strings in the order it is iterated.\<close>

definition phrase_variants :: "string \<Rightarrow> string list \<Rightarrow> string list" where
  "phrase_variants cleaned extra =
     filter (\<lambda>v. v \<noteq> [])
       ([cleaned] @ (case map_of KNOWN_CONFUSIONS cleaned of None \<Rightarrow> [] | Some vs \<Rightarrow> vs) @ map fold_text extra)"

definition set_phrase :: "(string list \<Rightarrow> string list) \<Rightarrow> string \<Rightarrow> wake_matcher \<Rightarrow> wake_matcher" where
  "set_phrase arrange phrase m =
     (let cleaned = (if fold_text phrase = [] then DEFAULT_PHRASE else fold_text phrase)
      in m\<lparr>wk_phrase := cleaned, wk_variants := arrange (phrase_variants cleaned (wk_extra m))\<rparr>)"

definition new_matcher :: "(string list \<Rightarrow> string list) \<Rightarrow> string \<Rightarrow> rat \<Rightarrow> string list \<Rightarrow> wake_matcher" where
  "new_matcher arrange phrase sensitivity extra =
     set_phrase arrange phrase
       \<lparr>wk_phrase = phrase, wk_sensitivity = sensitivity, wk_extra = extra, wk_variants = []\<rparr>"

definition tolerance :: "wake_matcher \<Rightarrow> nat" where
  "tolerance m =
     (if cp_len (wk_phrase m) \<le> 4 then (if 1 / 2 \<le> wk_sensitivity m then 1 else 0)
      else if 3 / 4 \<le> wk_sensitivity m then 2 else 1)"

definition heard_distance :: "wake_matcher \<Rightarrow> string \<Rightarrow> string \<Rightarrow> nat" where
  "heard_distance m candidate variant = distance (tolerance m) (cp_chars candidate) (cp_chars variant)"

definition joined :: "string list \<Rightarrow> string" where "joined ws = join '' '' ws"

fun try_variants :: "wake_matcher \<Rightarrow> string \<Rightarrow> string list \<Rightarrow> nat option" where
  "try_variants m candidate [] = None"
| "try_variants m candidate (v # vs) =
     (let d = heard_distance m candidate v in if d \<le> tolerance m then Some d else try_variants m candidate vs)"

fun match_from :: "wake_matcher \<Rightarrow> string list \<Rightarrow> nat \<Rightarrow> nat list \<Rightarrow> wake_result" where
  "match_from m ws window [] = no_match (wk_phrase m) (joined (take window ws))"
| "match_from m ws window (start # starts) =
     (let candidate = joined (take window (drop start ws));
          hit = (\<lambda>d. \<lparr>wm_matched = True, wm_phrase = wk_phrase m, wm_heard = candidate,
                   wm_remainder = joined (drop (start + window) ws), wm_distance = d\<rparr>)
      in if candidate = [] then match_from m ws window starts
         else if candidate \<in> set (wk_variants m) then hit 0
         else case try_variants m candidate (wk_variants m) of
                Some d \<Rightarrow> hit d
              | None \<Rightarrow> match_from m ws window starts)"

definition wake_match :: "wake_matcher \<Rightarrow> string \<Rightarrow> wake_result" where
  "wake_match m heard =
     (let ws = split_ws (fold_text heard); window = length (split_ws (wk_phrase m)) in
      if ws = [] then no_match [] []
      else match_from m ws window [0..<min (length ws) 3])"

lemma distance_within: "distance cap a b \<le> cap \<longleftrightarrow> (\<exists>n \<le> cap. edits a b n)"
  using distance_lev [of a b cap] edits_lev [of a b] lev_least [of a b] by (metis leD le_trans not_le_imp_less)

lemma edits_same: "edits a a 0"
  by (induction a) (auto intro: edits.intros)

definition near :: "wake_matcher \<Rightarrow> string \<Rightarrow> bool" where
  "near m candidate =
     (\<exists>v \<in> set (wk_variants m). \<exists>n \<le> tolerance m. edits (cp_chars candidate) (cp_chars v) n)"

lemma try_variants_None:
  "try_variants m c vs = None \<longleftrightarrow> \<not> (\<exists>v \<in> set vs. \<exists>n \<le> tolerance m. edits (cp_chars c) (cp_chars v) n)"
  by (induction vs) (auto simp: Let_def heard_distance_def distance_within)

lemma match_from_iff:
  "wm_matched (match_from m ws window starts) \<longleftrightarrow>
     (\<exists>start \<in> set starts. joined (take window (drop start ws)) \<noteq> [] \<and> near m (joined (take window (drop start ws))))"
proof (induction starts)
  case Nil
  then show ?case by (simp add: no_match_def)
next
  case (Cons start starts)
  let ?c = "joined (take window (drop start ws))"
  have exact: "?c \<in> set (wk_variants m) \<Longrightarrow> near m ?c" unfolding near_def using edits_same by blast
  show ?case
  proof (cases "?c = [] \<or> ?c \<in> set (wk_variants m)")
    case True
    with Cons.IH exact show ?thesis by (auto simp: Let_def)
  next
    case False
    then show ?thesis
    proof (cases "try_variants m ?c (wk_variants m)")
      case None
      then have "\<not> near m ?c" using try_variants_None [of m ?c "wk_variants m"] by (simp add: near_def)
      with False Cons.IH None show ?thesis by (simp add: Let_def)
    next
      case (Some d)
      then have "near m ?c" using try_variants_None [of m ?c "wk_variants m"] by (auto simp: near_def)
      with False Some show ?thesis by (simp add: Let_def)
    qed
  qed
qed

subsection \<open>Properties\<close>

text \<open>C28: the capped distance is the Levenshtein distance. There is a least number of replacements, deletions and
  insertions that turns one word into the other; the row-by-row routine returns exactly it when
  it is within the cap, and something beyond the cap when it is not.\<close>

theorem distance_is_least_edit_cost:
  "\<exists>n. edits a b n \<and> (\<forall>k. edits a b k \<longrightarrow> n \<le> k) \<and>
     (if n \<le> cap then distance cap a b = n else cap < distance cap a b)"
  using edits_lev [of a b] lev_least distance_lev [of a b cap] by (intro exI [of _ "lev a b"]) auto

theorem distance_is_least_edit_cost_witness:
  "\<not> edits ''garis'' ''harris'' 1 \<and> distance 3 ''garis'' ''harris'' = 2"
proof -
  have d: "distance 3 ''garis'' ''harris'' = 2" by code_simp
  obtain n where n: "\<forall>k. edits ''garis'' ''harris'' k \<longrightarrow> n \<le> k"
      "if n \<le> 3 then distance 3 ''garis'' ''harris'' = n else 3 < distance 3 ''garis'' ''harris''"
    using distance_is_least_edit_cost [of "''garis''" "''harris''" 3] by blast
  with d have "n = 2" by (auto split: if_splits)
  with n(1) d show ?thesis by auto
qed

text \<open>GARIS wakes exactly when one of the first three words, or the phrase's worth of words that starts
  there, is within the tolerance of a variant of the phrase, in edit cost, whatever the order
  in which the variants are tried; and then the remainder is what was said after it.\<close>

theorem wakes_iff_close_enough:
  assumes "ws = split_ws (fold_text heard)" "window = length (split_ws (wk_phrase m))"
  shows "wm_matched (wake_match m heard) \<longleftrightarrow>
    (\<exists>start < min (length ws) 3. joined (take window (drop start ws)) \<noteq> [] \<and>
       (\<exists>v \<in> set (wk_variants m). \<exists>n \<le> tolerance m.
          edits (cp_chars (joined (take window (drop start ws)))) (cp_chars v) n))"
proof (cases "ws = []")
  case True
  with assms show ?thesis by (simp add: wake_match_def no_match_def)
next
  case False
  with assms have "wm_matched (wake_match m heard) = wm_matched (match_from m ws window [0..<min (length ws) 3])"
    by (simp add: wake_match_def Let_def)
  then show ?thesis unfolding match_from_iff near_def by (simp add: Bex_def del: upt_Suc)
qed

theorem wakes_iff_close_enough_witness:
  "wm_matched (wake_match (new_matcher (\<lambda>vs. vs) ''Garis'' (3 / 5) []) ''Hej Garys'')"
proof -
  let ?m = "new_matcher (\<lambda>vs. vs) ''Garis'' (3 / 5) []"
  have f: "fold_text ''Garis'' = ''garis''" "fold_text ''Hej Garys'' = ''hej garys''" by code_simp+
  have w: "split_ws ''hej garys'' = [''hej'', ''garys'']" "split_ws ''garis'' = [''garis'']" by code_simp+
  have m: "wk_phrase ?m = ''garis''" "''garys'' \<in> set (wk_variants ?m)"
    by (simp_all add: new_matcher_def set_phrase_def phrase_variants_def KNOWN_CONFUSIONS_def f Let_def)
  have "joined (take 1 (drop 1 [''hej'', ''garys''])) = ''garys''" by (simp add: joined_def join_def)
  with m(2) edits_same [of "cp_chars ''garys''"] show ?thesis
    unfolding wakes_iff_close_enough [OF refl refl] f w m(1)
    by (intro exI [of _ 1] conjI bexI [of _ "''garys''"] exI [of _ 0]) simp_all
qed

end
