(* ===== verification/Audio.thy ===== *)
theory Audio
  imports Complex_Main "HOL-Library.Multiset" Prelude
begin

section \<open>Levels, calibration and devices (voice/audio.py)\<close>

text \<open>
  How loud a frame is, how loud the room is, and which device is used. Loudness is computed over the
  reals, with the library's square root and logarithm, where the code has doubles.
\<close>

subsection \<open>Loudness\<close>

definition SILENCE_DBFS :: real where "SILENCE_DBFS = -90"
definition SPEECH_MARGIN_DB :: real where "SPEECH_MARGIN_DB = 12"
definition MIN_CALIBRATION_FRAMES :: nat where "MIN_CALIBRATION_FRAMES = 8"

definition rms :: "real list \<Rightarrow> real" where
  "rms samples = (if samples = [] then 0 else sqrt (sum_list (map (\<lambda>s. s * s) samples) / of_nat (length samples)))"

definition dbfs :: "real list \<Rightarrow> real" where
  "dbfs samples = (if rms samples \<le> 1 / 10 ^ 9 then SILENCE_DBFS else max SILENCE_DBFS (20 * log 10 (rms samples)))"

definition normalised_level :: "real \<Rightarrow> real \<Rightarrow> real" where
  "normalised_level value bottom = (if value \<le> bottom then 0 else min 1 ((value - bottom) / - bottom))"

subsection \<open>Calibration\<close>

record calibration =
  cl_noise_floor :: real
  cl_threshold :: real
  cl_frames :: nat
  cl_peak :: real

definition empty_calibration :: calibration where
  "empty_calibration = \<lparr>cl_noise_floor = -45, cl_threshold = -33, cl_frames = 0, cl_peak = SILENCE_DBFS\<rparr>"

definition calibration_usable :: "calibration \<Rightarrow> bool" where
  "calibration_usable c = (MIN_CALIBRATION_FRAMES \<le> cl_frames c)"

definition noisy_room :: "calibration \<Rightarrow> bool" where
  "noisy_room c = (-30 < cl_noise_floor c)"

definition is_speech :: "calibration \<Rightarrow> real \<Rightarrow> bool" where
  "is_speech c level = (cl_threshold c \<le> level)"

text \<open>A calibrator is its margin and the levels collected so far.\<close>

type_synonym calibrator = "real \<times> real list"

definition new_calibrator :: calibrator where
  "new_calibrator = (SPEECH_MARGIN_DB, [])"

definition add_dbfs :: "real \<Rightarrow> calibrator \<Rightarrow> calibrator" where
  "add_dbfs level c = (fst c, snd c @ [level])"

definition add_frame :: "real list \<Rightarrow> calibrator \<Rightarrow> real \<times> calibrator" where
  "add_frame samples c = (dbfs samples, add_dbfs (dbfs samples) c)"

definition reset_calibrator :: "calibrator \<Rightarrow> calibrator" where
  "reset_calibrator c = (fst c, [])"

definition calibration_result :: "calibrator \<Rightarrow> calibration" where
  "calibration_result c =
     (case c of (margin, frames) \<Rightarrow>
        if frames = [] then empty_calibration
        else
          let ordered = sort frames; n = length ordered; quiet = ordered ! min (n - 1) (n div 4)
          in \<lparr>cl_noise_floor = quiet, cl_threshold = quiet + margin, cl_frames = n, cl_peak = last ordered\<rparr>)"

subsection \<open>Devices\<close>

datatype device_kind = D_INPUT | D_OUTPUT

record device =
  dv_id :: string
  dv_name :: string
  dv_kind :: device_kind
  dv_channels :: int
  dv_sample_rate :: int
  dv_default :: bool

record device_registry =
  dr_devices :: "device list"
  dr_preferred_input :: string
  dr_preferred_output :: string

definition inputs :: "device_registry \<Rightarrow> device list" where
  "inputs r = filter (\<lambda>d. dv_kind d = D_INPUT) (dr_devices r)"

definition outputs :: "device_registry \<Rightarrow> device list" where
  "outputs r = filter (\<lambda>d. dv_kind d = D_OUTPUT) (dr_devices r)"

definition devices_of :: "device_kind \<Rightarrow> device_registry \<Rightarrow> device list" where
  "devices_of k r = (case k of D_INPUT \<Rightarrow> inputs r | D_OUTPUT \<Rightarrow> outputs r)"

definition wanted_device :: "device_kind \<Rightarrow> device_registry \<Rightarrow> string" where
  "wanted_device k r = (case k of D_INPUT \<Rightarrow> dr_preferred_input r | D_OUTPUT \<Rightarrow> dr_preferred_output r)"

definition called :: "string \<Rightarrow> device \<Rightarrow> bool" where
  "called w d = (dv_id d = w \<or> dv_name d = w)"

definition resolve_device :: "device_kind \<Rightarrow> device_registry \<Rightarrow> device option" where
  "resolve_device k r =
     (let candidates = devices_of k r; wanted = wanted_device k r in
      if candidates = [] then None
      else case (if wanted = [] then None else find (called wanted) candidates) of
             Some d \<Rightarrow> Some d
           | None \<Rightarrow> (case find dv_default candidates of Some d \<Rightarrow> Some d | None \<Rightarrow> Some (hd candidates)))"

definition missing_preferred :: "device_kind \<Rightarrow> device_registry \<Rightarrow> bool" where
  "missing_preferred k r =
     (wanted_device k r \<noteq> [] \<and> \<not> (\<exists>d \<in> set (devices_of k r). called (wanted_device k r) d))"

subsection \<open>Lemmas\<close>

lemma devices_of_kind: "d \<in> set (devices_of k r) \<longleftrightarrow> d \<in> set (dr_devices r) \<and> dv_kind d = k"
  by (cases k) (auto simp: devices_of_def inputs_def outputs_def)

lemma find_in: "find P xs = Some x \<Longrightarrow> x \<in> set xs \<and> P x"
  by (auto simp: find_Some_iff in_set_conv_nth)

lemma filter_sort_length: "length (filter P (sort xs)) = length (filter P xs)"
  by (metis mset_filter mset_sort size_mset)

lemma sorted_below: "sorted s \<Longrightarrow> k < length s \<Longrightarrow> length (filter (\<lambda>x. x < s ! k) s) \<le> k"
proof -
  assume "sorted s" "k < length s"
  then have "x \<in> set (drop k s) \<Longrightarrow> s ! k \<le> x" for x
    by (auto simp: in_set_conv_nth sorted_iff_nth_mono)
  then have "filter (\<lambda>x. x < s ! k) (drop k s) = []" by (force simp: filter_empty_conv)
  moreover have "length (filter (\<lambda>x. x < s ! k) s) =
      length (filter (\<lambda>x. x < s ! k) (take k s)) + length (filter (\<lambda>x. x < s ! k) (drop k s))"
    by (metis append_take_drop_id filter_append length_append)
  moreover have "length (filter (\<lambda>x. x < s ! k) (take k s)) \<le> k"
    by (rule le_trans [OF length_filter_le]) simp
  ultimately show ?thesis by simp
qed

lemma sorted_upto: "sorted s \<Longrightarrow> k < length s \<Longrightarrow> k < length (filter (\<lambda>x. x \<le> s ! k) s)"
proof -
  assume "sorted s" "k < length s"
  then have "x \<in> set (take (Suc k) s) \<Longrightarrow> x \<le> s ! k" for x
    by (auto simp: in_set_conv_nth sorted_iff_nth_mono)
  then have "filter (\<lambda>x. x \<le> s ! k) (take (Suc k) s) = take (Suc k) s" by (simp add: filter_id_conv)
  moreover have "length (filter (\<lambda>x. x \<le> s ! k) s) =
      length (filter (\<lambda>x. x \<le> s ! k) (take (Suc k) s)) + length (filter (\<lambda>x. x \<le> s ! k) (drop (Suc k) s))"
    by (metis append_take_drop_id filter_append length_append)
  ultimately show ?thesis using \<open>k < length s\<close> by simp
qed

lemma sorted_last: "sorted s \<Longrightarrow> x \<in> set s \<Longrightarrow> x \<le> last s"
  by (cases s rule: rev_cases) (auto simp: sorted_append)

lemma square_mean_le: "\<forall>s \<in> set xs. \<bar>s\<bar> \<le> 1 \<Longrightarrow> sum_list (map (\<lambda>s. s * s) xs) \<le> real (length xs)"
proof (induction xs)
  case (Cons x xs)
  then have "x * x \<le> 1" by (simp add: abs_square_le_1 power2_eq_square [symmetric])
  with Cons show ?case by simp
qed simp

lemma square_sum_nonneg: "0 \<le> sum_list (map (\<lambda>s. s * s) (xs :: real list))"
  by (intro sum_list_nonneg) auto

subsection \<open>Properties\<close>

text \<open>Loudness stays on its scale. Whatever the samples, a frame is at least -90 dBFS, and at most 0 when the
  samples are within -1 to 1; the level shown by the orb is within 0 to 1 for every frame, and grows
  with the loudness.\<close>

theorem levels_stay_on_scale:
  "SILENCE_DBFS \<le> dbfs samples \<and>
   ((\<forall>s \<in> set samples. \<bar>s\<bar> \<le> 1) \<longrightarrow> dbfs samples \<le> 0) \<and>
   normalised_level (dbfs samples) (-60) \<in> {0..1} \<and>
   (dbfs samples \<le> dbfs others \<longrightarrow>
      normalised_level (dbfs samples) (-60) \<le> normalised_level (dbfs others) (-60))"
proof (intro conjI impI)
  show "SILENCE_DBFS \<le> dbfs samples" by (simp add: dbfs_def)
next
  assume b: "\<forall>s \<in> set samples. \<bar>s\<bar> \<le> 1"
  have "rms samples \<le> 1"
  proof (cases "samples = []")
    case False
    then show ?thesis using square_mean_le [OF b] by (simp add: rms_def)
  qed (simp add: rms_def)
  then show "dbfs samples \<le> 0"
    by (auto simp: dbfs_def SILENCE_DBFS_def log_le_zero_cancel_iff)
qed (auto simp: normalised_level_def min_def)

theorem levels_stay_on_scale_witness: "dbfs [1, -1] \<le> 0"
  using levels_stay_on_scale [of "[1, -1]" "[]"] by simp

text \<open>Calibration takes a low quantile of the room. The noise floor is one of the frames heard; at most a
  quarter of them are quieter, and more than a quarter are not louder; speech is what comes
  the margin above it, the peak is the loudest frame, and the order of the frames does not matter.\<close>

theorem calibration_is_a_quantile:
  assumes "frames \<noteq> []" "c = calibration_result (margin, frames)"
  shows "cl_noise_floor c \<in> set frames \<and>
    length (filter (\<lambda>x. x < cl_noise_floor c) frames) \<le> length frames div 4 \<and>
    length frames div 4 < length (filter (\<lambda>x. x \<le> cl_noise_floor c) frames) \<and>
    (\<forall>x. is_speech c x \<longleftrightarrow> cl_noise_floor c + margin \<le> x) \<and>
    cl_peak c \<in> set frames \<and> (\<forall>x \<in> set frames. x \<le> cl_peak c) \<and>
    (\<forall>other. mset other = mset frames \<longrightarrow> calibration_result (margin, other) = c)"
proof -
  let ?s = "sort frames" and ?k = "length frames div 4"
  have k: "?k < length ?s" "min (length frames - 1) ?k = ?k" using assms(1) by (cases frames; simp)+
  have c: "c = \<lparr>cl_noise_floor = ?s ! ?k, cl_threshold = ?s ! ?k + margin, cl_frames = length frames, cl_peak = last ?s\<rparr>"
    using assms k(2) by (simp add: calibration_result_def Let_def)
  have "?s \<noteq> []" using assms(1) by (metis set_sort set_empty)
  then have peak: "last ?s \<in> set frames" "\<forall>x \<in> set frames. x \<le> last ?s"
    using last_in_set [of ?s] sorted_last [OF sorted_sort, of _ frames] by simp_all
  have same: "calibration_result (margin, other) = c" if m: "mset other = mset frames" for other
  proof -
    have "sort other = ?s" using m by (metis mset_sort properties_for_sort sorted_sort)
    moreover have "length other = length frames" "other \<noteq> []" using m assms(1) by (auto dest: mset_eq_length)
    ultimately show ?thesis using k(2) by (simp add: c calibration_result_def Let_def)
  qed
  have f: "cl_noise_floor c = ?s ! ?k" "cl_threshold c = ?s ! ?k + margin" "cl_peak c = last ?s" by (simp_all add: c)
  have "?s ! ?k \<in> set frames" using nth_mem [OF k(1)] by simp
  moreover have "\<forall>x. is_speech c x \<longleftrightarrow> ?s ! ?k + margin \<le> x" by (simp add: is_speech_def f(2))
  moreover have "length (filter (\<lambda>x. x < ?s ! ?k) frames) \<le> ?k"
    using sorted_below [OF sorted_sort k(1)] unfolding filter_sort_length .
  moreover have "?k < length (filter (\<lambda>x. x \<le> ?s ! ?k) frames)"
    using sorted_upto [OF sorted_sort k(1)] unfolding filter_sort_length .
  ultimately show ?thesis unfolding f using peak same by blast
qed

theorem calibration_is_a_quantile_witness:
  "cl_noise_floor (calibration_result (12, [-50, -40, -60, -20])) \<in> {-50, -40, -60, -20}"
proof -
  have "[-50, -40, -60, -20 :: real] \<noteq> []" by simp
  from conjunct1 [OF calibration_is_a_quantile [OF this refl, of 12]] show ?thesis by (simp only: list.set)
qed

text \<open>An unplugged device leaves GARIS neither deaf nor mute. A device is found exactly when the machine has one
  of the kind; it is of that kind; it is the one the user picked whenever that is present, and
  otherwise a default one whenever there is one.\<close>

theorem device_falls_back:
  "(resolve_device k r = None \<longleftrightarrow> (\<forall>d \<in> set (dr_devices r). dv_kind d \<noteq> k)) \<and>
   (\<forall>d. resolve_device k r = Some d \<longrightarrow> d \<in> set (dr_devices r) \<and> dv_kind d = k \<and>
      (if wanted_device k r \<noteq> [] \<and> \<not> missing_preferred k r then called (wanted_device k r) d
       else (\<exists>e \<in> set (dr_devices r). dv_kind e = k \<and> dv_default e) \<longrightarrow> dv_default d))"
proof (intro conjI allI impI)
  show "resolve_device k r = None \<longleftrightarrow> (\<forall>d \<in> set (dr_devices r). dv_kind d \<noteq> k)"
  proof -
    have "resolve_device k r = None \<longleftrightarrow> devices_of k r = []"
      by (simp add: resolve_device_def Let_def split: option.split)
    also have "\<dots> \<longleftrightarrow> (\<forall>d \<in> set (dr_devices r). dv_kind d \<noteq> k)"
      by (cases k) (auto simp: devices_of_def inputs_def outputs_def filter_empty_conv)
    finally show ?thesis .
  qed
next
  fix d assume d: "resolve_device k r = Some d"
  let ?cs = "devices_of k r" and ?w = "wanted_device k r"
  from d have cs: "?cs \<noteq> []" by (auto simp: resolve_device_def split: if_splits)
  have "d \<in> set ?cs \<and> (if ?w \<noteq> [] \<and> \<not> missing_preferred k r then called ?w d
      else (\<exists>e \<in> set ?cs. dv_default e) \<longrightarrow> dv_default d)"
  proof (cases "if ?w = [] then None else find (called ?w) ?cs")
    case (Some e)
    with d cs have "d = e" "?w \<noteq> []" by (auto simp: resolve_device_def Let_def split: if_splits)
    with Some find_in [of "called ?w" ?cs e] show ?thesis by (auto simp: missing_preferred_def)
  next
    case None
    then have m: "\<not> (?w \<noteq> [] \<and> \<not> missing_preferred k r)"
      by (auto simp: missing_preferred_def find_None_iff split: if_splits)
    have e: "find dv_default ?cs = Some d \<or> (find dv_default ?cs = None \<and> d = hd ?cs)"
      using d cs None by (auto simp: resolve_device_def Let_def split: option.splits)
    then have "d \<in> set ?cs \<and> ((\<exists>e \<in> set ?cs. dv_default e) \<longrightarrow> dv_default d)"
      using cs find_in [of dv_default ?cs d] by (auto simp: find_None_iff)
    then show ?thesis unfolding if_not_P [OF m] .
  qed
  then show "d \<in> set (dr_devices r)" "dv_kind d = k"
    "if ?w \<noteq> [] \<and> \<not> missing_preferred k r then called ?w d
     else (\<exists>e \<in> set (dr_devices r). dv_kind e = k \<and> dv_default e) \<longrightarrow> dv_default d"
    using devices_of_kind [of _ k r] by (auto split: if_splits)
qed

definition headset :: device where
  "headset = \<lparr>dv_id = ''3'', dv_name = ''headset'', dv_kind = D_INPUT, dv_channels = 1, dv_sample_rate = 16000,
     dv_default = False\<rparr>"

theorem device_falls_back_witness:
  "resolve_device D_INPUT \<lparr>dr_devices = [headset], dr_preferred_input = ''gone'', dr_preferred_output = []\<rparr> \<noteq> None"
  using device_falls_back [of D_INPUT "\<lparr>dr_devices = [headset], dr_preferred_input = ''gone'', dr_preferred_output = []\<rparr>"]
  by (simp add: headset_def)

end
