(* ===== verification/VoiceService.thy ===== *)
theory VoiceService
  imports VoiceSession Wake Audio
begin

section \<open>The voice service (voice/__init__.py)\<close>

text \<open>
  The piece the rest of GARIS talks to: frames and transcripts in, goals for the agent out. It owns the
  wake-word matcher, the calibration of the room and the session. The matcher and the transcript
  detector are one object in the code, so one field here; \<open>shown\<close> stands for
  \<open>Calibration.to_dict\<close>, \<open>arrange\<close> for the order in which the set of variants is iterated.
  \<open>on_turn\<close> is the list of texts handed to it.
\<close>

record voice_service =
  vx_session :: session
  vx_matcher :: wake_matcher
  vx_last :: "wake_result option"
  vx_calibration :: calibration
  vx_calibrator :: "calibrator option"
  vx_wake_word :: string
  vx_wake_enabled :: bool
  vx_noise_floor :: real
  vx_on_turn :: bool
  vx_goals :: "string list"

definition new_service :: "(string list \<Rightarrow> string list) \<Rightarrow> bus option \<Rightarrow> string \<Rightarrow> bool \<Rightarrow> real \<Rightarrow> bool \<Rightarrow> voice_service" where
  "new_service arrange b wake_word enabled floor_dbfs has_on_turn =
     \<lparr>vx_session = new_session b, vx_matcher = new_matcher arrange wake_word (3 / 5) [], vx_last = None,
      vx_calibration = empty_calibration\<lparr>cl_noise_floor := floor_dbfs, cl_threshold := floor_dbfs + 12\<rparr>,
      vx_calibrator = None, vx_wake_word = wake_word, vx_wake_enabled = enabled, vx_noise_floor = floor_dbfs,
      vx_on_turn = has_on_turn, vx_goals = []\<rparr>"

definition on_session :: "(session \<Rightarrow> session) \<Rightarrow> voice_service \<Rightarrow> voice_service" where
  "on_session f sv = sv\<lparr>vx_session := f (vx_session sv)\<rparr>"

definition set_wake_word :: "(string list \<Rightarrow> string list) \<Rightarrow> string \<Rightarrow> voice_service \<Rightarrow> voice_service" where
  "set_wake_word arrange phrase sv =
     sv\<lparr>vx_wake_word := phrase, vx_matcher := set_phrase arrange phrase (vx_matcher sv)\<rparr>"

subsection \<open>Calibration\<close>

definition start_calibration :: "voice_service \<Rightarrow> voice_service" where
  "start_calibration sv = sv\<lparr>vx_calibrator := Some new_calibrator\<rparr>"

definition calibration_frame :: "real list \<Rightarrow> voice_service \<Rightarrow> real \<times> voice_service" where
  "calibration_frame samples sv =
     (let c = (case vx_calibrator sv of None \<Rightarrow> new_calibrator | Some c \<Rightarrow> c); (level, c') = add_frame samples c
      in (level, sv\<lparr>vx_calibrator := Some c'\<rparr>))"

definition finish_calibration :: "(calibration \<Rightarrow> payload) \<Rightarrow> instant \<Rightarrow> voice_service \<Rightarrow> calibration \<times> voice_service" where
  "finish_calibration shown stamp sv =
     (case vx_calibrator sv of
        None \<Rightarrow> (vx_calibration sv, sv)
      | Some c \<Rightarrow>
          let r = calibration_result c;
              announce = (\<lambda>S. S\<lparr>vs_bus := map_option (emit stamp (topic_name VOICE_STATE)
                ([(''state'', EvVal (PStr (voice_state_value (vs_state S)))), (''kind'', EvVal (PStr ''calibrated''))] @ shown r))
                (vs_bus S)\<rparr>)
          in (r, on_session announce (sv\<lparr>vx_calibration := r, vx_noise_floor := cl_noise_floor r, vx_calibrator := None\<rparr>)))"

subsection \<open>Frames, transcripts and turns\<close>

definition feed_frame :: "voice_env \<Rightarrow> real list \<Rightarrow> voice_service \<Rightarrow> real \<times> voice_service" where
  "feed_frame E samples sv =
     (let level = dbfs samples; speaking = is_speech (vx_calibration sv) level
      in (normalised_level level (-60), on_session (audio_tick E speaking) sv))"

definition feed_transcript :: "voice_env \<Rightarrow> string \<Rightarrow> voice_service \<Rightarrow> wake_result option \<times> voice_service" where
  "feed_transcript E text sv =
     (if vs_state (vx_session sv) = V_ASLEEP then
        (if \<not> vx_wake_enabled sv then (None, sv)
         else
           let m = wake_match (vx_matcher sv) text; sv1 = sv\<lparr>vx_last := Some m\<rparr>
           in if wm_matched m then
                (let sv2 = on_session (wake E WAKE_WORD) sv1
                 in (Some m, if wm_remainder m \<noteq> [] then on_session (heard E (wm_remainder m)) sv2 else sv2))
              else (Some m, sv1))
      else (None, if vs_state (vx_session sv) = V_LISTENING then on_session (heard E text) sv else sv))"

definition finish_turn :: "voice_env \<Rightarrow> voice_service \<Rightarrow> string \<times> voice_service" where
  "finish_turn E sv =
     (let text = turn_text (vx_session sv); sv1 = on_session (end_turn E) sv
      in (text, if text \<noteq> [] \<and> vx_on_turn sv then sv1\<lparr>vx_goals := vx_goals sv1 @ [text]\<rparr> else sv1))"

definition push_to_talk :: "voice_env \<Rightarrow> bool \<Rightarrow> voice_service \<Rightarrow> voice_service" where
  "push_to_talk E held sv =
     (if held then on_session (wake E PUSH_TO_TALK) sv
      else if vs_state (vx_session sv) = V_LISTENING then snd (finish_turn E sv) else sv)"

subsection \<open>Speaking\<close>

definition service_speak :: "voice_env \<Rightarrow> string \<Rightarrow> voice_service \<Rightarrow> voice_service" where
  "service_speak E text sv = on_session (start_speaking E text) sv"

definition service_interrupted :: "voice_env \<Rightarrow> voice_service \<Rightarrow> voice_service" where
  "service_interrupted E sv = on_session (stop_speaking E cut_reason) sv"

definition service_finished :: "voice_env \<Rightarrow> bool \<Rightarrow> voice_service \<Rightarrow> voice_service" where
  "service_finished E keep_floor sv = on_session (finished_speaking E keep_floor) sv"

subsection \<open>A stream of frames and transcripts\<close>

datatype voice_input = Frame "real list" | Said string

fun take_input :: "voice_env \<Rightarrow> voice_input \<Rightarrow> voice_service \<Rightarrow> voice_service" where
  "take_input E (Frame samples) sv = snd (feed_frame E samples sv)"
| "take_input E (Said text) sv = snd (feed_transcript E text sv)"

definition take_inputs :: "voice_env \<Rightarrow> voice_input list \<Rightarrow> voice_service \<Rightarrow> voice_service" where
  "take_inputs E is sv = fold (take_input E) is sv"

lemma take_inputs_simps [simp]:
  "take_inputs E [] sv = sv" "take_inputs E (i # is) sv = take_inputs E is (take_input E i sv)"
  by (simp_all add: take_inputs_def)

declare take_input.simps [simp del]

lemmas service_simps = take_input.simps on_session_def feed_frame_def feed_transcript_def finish_turn_def Let_def

lemma input_keeps [simp]:
  "vx_matcher (take_input E i sv) = vx_matcher sv" "vx_wake_enabled (take_input E i sv) = vx_wake_enabled sv"
  "vx_calibration (take_input E i sv) = vx_calibration sv" "vx_goals (take_input E i sv) = vx_goals sv"
  by (cases i; simp add: service_simps)+

lemma asleep_tick:
  "vs_state S = V_ASLEEP \<Longrightarrow> audio_tick E speaking S = after_read S"
  by (simp add: audio_tick_def voice_frame_def silent_frame_def after_read_def)

definition unaddressed :: "voice_service \<Rightarrow> voice_input \<Rightarrow> bool" where
  "unaddressed sv i = (case i of Frame samples \<Rightarrow> True
     | Said text \<Rightarrow> vx_wake_enabled sv \<longrightarrow> \<not> wm_matched (wake_match (vx_matcher sv) text))"

lemma unaddressed_take [simp]: "unaddressed (take_input E i sv) = unaddressed sv"
  by (rule ext) (simp add: unaddressed_def split: voice_input.splits)

lemma unaddressed_step:
  assumes "vs_state (vx_session sv) = V_ASLEEP" "unaddressed sv i"
  shows "\<exists>n. vx_session (take_input E i sv) = vx_session sv\<lparr>vs_reads := n\<rparr>"
proof (cases i)
  case (Frame samples)
  with assms(1) show ?thesis by (auto simp: service_simps asleep_tick after_read_def)
next
  case (Said words)
  with assms show ?thesis
    by (auto simp: service_simps unaddressed_def intro!: exI [of _ "vs_reads (vx_session sv)"])
qed

definition quiet :: "voice_service \<Rightarrow> voice_input \<Rightarrow> bool" where
  "quiet sv i = (case i of Frame samples \<Rightarrow> \<not> is_speech (vx_calibration sv) (dbfs samples) | Said text \<Rightarrow> False)"

lemma quiet_take [simp]: "quiet (take_input E i sv) = quiet sv"
  by (rule ext) (simp add: quiet_def split: voice_input.splits)

lemma quiet_frames:
  "\<forall>i \<in> set is. quiet sv i \<Longrightarrow> vx_session (take_inputs E is sv) = silence E (length is) (vx_session sv)"
proof (induction "is" arbitrary: sv)
  case Nil
  then show ?case by (simp add: silence_def)
next
  case (Cons i "is")
  then have "vx_session (take_input E i sv) = audio_tick E False (vx_session sv)"
    by (auto simp: quiet_def service_simps split: voice_input.splits)
  with Cons show ?case by (simp add: silence_Suc)
qed

subsection \<open>Properties\<close>

text \<open>Talk that is not addressed to GARIS is not acted on. While it sleeps, any stream of audio and of transcripts
  that do not carry the wake phrase (or any transcripts at all, with the wake word off) leaves
  the session as it was but for the clock: no state change, nothing remembered, no event, no goal.\<close>

theorem unaddressed_talk_is_ignored:
  assumes "vs_state (vx_session sv) = V_ASLEEP" "\<forall>i \<in> set is. unaddressed sv i"
  shows "(\<exists>n. vx_session (take_inputs E is sv) = vx_session sv\<lparr>vs_reads := n\<rparr>) \<and>
    vx_goals (take_inputs E is sv) = vx_goals sv"
  using assms
proof (induction "is" arbitrary: sv)
  case Nil
  show ?case by (simp, rule exI [of _ "vs_reads (vx_session sv)"]) simp
next
  case (Cons i "is")
  let ?sv = "take_input E i sv"
  from Cons.prems unaddressed_step [of sv i E] obtain n where s: "vx_session ?sv = vx_session sv\<lparr>vs_reads := n\<rparr>" by auto
  with Cons.prems Cons.IH [of ?sv] obtain k where "vx_session (take_inputs E is ?sv) = vx_session ?sv\<lparr>vs_reads := k\<rparr>"
    "vx_goals (take_inputs E is ?sv) = vx_goals ?sv" by auto
  with s show ?case by auto
qed

definition kitchen :: voice_service where
  "kitchen = new_service (\<lambda>vs. vs) None ''garis'' True (-45) True"

theorem unaddressed_talk_is_ignored_witness:
  "vs_events (vx_session (take_inputs sample_voice [Frame [1, -1], Said []] kitchen)) = []"
proof -
  have "vs_state (vx_session kitchen) = V_ASLEEP" by (simp add: kitchen_def new_service_def new_session_def)
  moreover have none: "vs_events (vx_session kitchen) = []" by (simp add: kitchen_def new_service_def new_session_def)
  have "split_ws (fold_text []) = []" by code_simp
  then have "\<forall>i \<in> set [Frame [1, -1], Said []]. unaddressed kitchen i"
    by (simp add: unaddressed_def wake_match_def no_match_def)
  ultimately show ?thesis
    using unaddressed_talk_is_ignored [of kitchen "[Frame [1, -1], Said []]" sample_voice] none by auto
qed

text \<open>A command said in one breath with the wake word is lost unless more is said. The rest of the sentence that
  woke GARIS does not open a turn, so after it, however many quiet frames come, no turn is announced
  and no goal handed over; at the end of the wake window GARIS falls asleep over the command.\<close>

theorem one_breath_command_is_lost:
  assumes "vs_state (vx_session sv) = V_ASLEEP" "vx_wake_enabled sv" "wm_matched (wake_match (vx_matcher sv) text)"
    and "\<forall>i \<in> set is. quiet sv i" "S = vx_session sv" "S' = vx_session (take_inputs E (Said text # is) sv)"
  shows "turns S' = turns S \<and> vx_goals (take_inputs E (Said text # is) sv) = vx_goals sv \<and>
    vs_state S' = (if \<exists>k < length is. 0 < k \<and> ve_wake_window_ms E \<le> ve_clock E (vs_reads S + 1 + k) - ve_clock E (vs_reads S)
      then V_ASLEEP else V_LISTENING)"
proof -
  let ?sv = "take_input E (Said text) sv" and ?W = "wake E WAKE_WORD (vx_session sv)"
  have o1: "opened ?W (now_of E S)" "vs_reads ?W = vs_reads S + 1" using wake_opens [of "vx_session sv" E WAKE_WORD] assms(1,5) by simp_all
  have t1: "turns ?W = turns S" using assms(1,5) by (simp add: voice_simps turns_def)
  have "vx_session ?sv = ?W \<or> vx_session ?sv = heard E (wm_remainder (wake_match (vx_matcher sv) text)) ?W"
    using assms(1-3) by (simp add: service_simps)
  then have o2: "opened (vx_session ?sv) (now_of E S)" and r2: "vs_reads (vx_session ?sv) = vs_reads S + 1"
      and t2: "turns (vx_session ?sv) = turns S"
    using o1 t1 heard_opened [OF o1(1)] by auto
  have "\<forall>i \<in> set is. quiet ?sv i" using assms(4) by simp
  then have "S' = silence E (length is) (vx_session ?sv)" using quiet_frames assms(6) by simp
  moreover have "vx_goals (take_inputs E is x) = vx_goals x" for x by (induction "is" arbitrary: x) simp_all
  ultimately show ?thesis
    using opened_silence [OF o2, of E "length is"] r2 t2 by (simp add: window_over_def now_of_def)
qed

theorem one_breath_command_is_lost_witness:
  "turns (vx_session (take_inputs sample_voice [Said ''Garis, wyjdz'', Frame []] kitchen)) = 0"
proof -
  have m: "wm_matched (wake_match (vx_matcher kitchen) ''Garis, wyjdz'')" by code_simp
  have k: "vs_state (vx_session kitchen) = V_ASLEEP" "vx_wake_enabled kitchen" "turns (vx_session kitchen) = 0"
    by (simp_all add: kitchen_def new_service_def new_session_def turns_def)
  have "\<forall>i \<in> set [Frame []]. quiet kitchen i"
    by (simp add: quiet_def is_speech_def kitchen_def new_service_def dbfs_def rms_def SILENCE_DBFS_def)
  from one_breath_command_is_lost [OF k(1,2) m this refl refl, of sample_voice] k(3) show ?thesis by simp
qed

end
