(* ===== verification/SecretScan.thy ===== *)
theory SecretScan
  imports Vault
begin

section \<open>What must never be remembered (memory.py, the secret patterns)\<close>

text \<open>
  The credential patterns of the memory, and the matcher of the regular expressions they use. A text is
  matched by characters (\<open>cp_chars\<close>); what counts as a letter or a space beyond ASCII is a table of the
  standard library and a parameter. \<open>ends\<close> runs a pattern with all its choices; \<open>fits\<close> says
  what the pattern means, and \<open>search_iff\<close> that the two agree.
\<close>

subsection \<open>Patterns\<close>

record unicode_table =
  un_word :: "string \<Rightarrow> bool"
  un_space :: "string \<Rightarrow> bool"

definition ascii_in :: "(nat \<Rightarrow> bool) \<Rightarrow> string \<Rightarrow> bool" where
  "ascii_in p c = (case c of [a] \<Rightarrow> byte_of a < 128 \<and> p (byte_of a) | _ \<Rightarrow> False)"

definition alnum_byte :: "nat \<Rightarrow> bool" where
  "alnum_byte n = ((48 \<le> n \<and> n \<le> 57) \<or> (65 \<le> n \<and> n \<le> 90) \<or> (97 \<le> n \<and> n \<le> 122))"

definition is_ascii_cp :: "string \<Rightarrow> bool" where "is_ascii_cp c = ascii_in (\<lambda>n. True) c"

definition cp_word :: "unicode_table \<Rightarrow> string \<Rightarrow> bool" where
  "cp_word U c = (if is_ascii_cp c then ascii_in (\<lambda>n. alnum_byte n \<or> n = 95) c else un_word U c)"

definition cp_space :: "unicode_table \<Rightarrow> string \<Rightarrow> bool" where
  "cp_space U c = (if is_ascii_cp c then ascii_in (\<lambda>n. n = 32 \<or> (9 \<le> n \<and> n \<le> 13) \<or> (28 \<le> n \<and> n \<le> 31)) c else un_space U c)"

datatype pat =
    One "string \<Rightarrow> bool"
  | AtLeast nat "string \<Rightarrow> bool"
  | Exactly nat "string \<Rightarrow> bool"
  | Maybe "string \<Rightarrow> bool"
  | Edge
  | Both pat pat
  | Either pat pat

subsection \<open>The matcher\<close>

type_synonym place = "string option \<times> string list"

fun many :: "nat \<Rightarrow> (string \<Rightarrow> bool) \<Rightarrow> place \<Rightarrow> place list" where
  "many n p (a, []) = (if n = 0 then [(a, [])] else [])"
| "many n p (a, c # cs) = (if n = 0 then [(a, c # cs)] else []) @ (if p c then many (n - 1) p (Some c, cs) else [])"

fun just :: "nat \<Rightarrow> (string \<Rightarrow> bool) \<Rightarrow> place \<Rightarrow> place list" where
  "just 0 p x = [x]"
| "just (Suc n) p (a, []) = []"
| "just (Suc n) p (a, c # cs) = (if p c then just n p (Some c, cs) else [])"

definition at_edge :: "unicode_table \<Rightarrow> place \<Rightarrow> bool" where
  "at_edge U x =
     ((case fst x of None \<Rightarrow> False | Some c \<Rightarrow> cp_word U c) \<noteq> (case snd x of [] \<Rightarrow> False | c # cs \<Rightarrow> cp_word U c))"

fun ends :: "unicode_table \<Rightarrow> pat \<Rightarrow> place \<Rightarrow> place list" where
  "ends U (One p) x = just 1 p x"
| "ends U (AtLeast n p) x = many n p x"
| "ends U (Exactly n p) x = just n p x"
| "ends U (Maybe p) x = x # just 1 p x"
| "ends U Edge x = (if at_edge U x then [x] else [])"
| "ends U (Both p q) x = concat (map (ends U q) (ends U p x))"
| "ends U (Either p q) x = ends U p x @ ends U q x"

fun search :: "unicode_table \<Rightarrow> pat \<Rightarrow> string option \<Rightarrow> string list \<Rightarrow> bool" where
  "search U p a [] = (ends U p (a, []) \<noteq> [])"
| "search U p a (c # cs) = (ends U p (a, c # cs) \<noteq> [] \<or> search U p (Some c) cs)"

subsection \<open>What a pattern means\<close>

definition last_of :: "string option \<Rightarrow> string list \<Rightarrow> string option" where
  "last_of a m = (if m = [] then a else Some (last m))"

fun fits :: "unicode_table \<Rightarrow> pat \<Rightarrow> string option \<Rightarrow> string list \<Rightarrow> string list \<Rightarrow> bool" where
  "fits U (One p) a m z = (length m = 1 \<and> list_all p m)"
| "fits U (AtLeast n p) a m z = (n \<le> length m \<and> list_all p m)"
| "fits U (Exactly n p) a m z = (length m = n \<and> list_all p m)"
| "fits U (Maybe p) a m z = (length m \<le> 1 \<and> list_all p m)"
| "fits U Edge a m z = (m = [] \<and> at_edge U (a, z))"
| "fits U (Both p q) a m z = (\<exists>m1 m2. m = m1 @ m2 \<and> fits U p a m1 (m2 @ z) \<and> fits U q (last_of a m1) m2 z)"
| "fits U (Either p q) a m z = (fits U p a m z \<or> fits U q a m z)"

lemma last_of_simps [simp]:
  "last_of a [] = a" "last_of a (c # m) = last_of (Some c) m" "last_of a (m @ m') = last_of (last_of a m) m'"
  by (auto simp: last_of_def)

lemma split_Cons:
  "(\<exists>m. c # s = m @ z \<and> P m) \<longleftrightarrow> (z = c # s \<and> P []) \<or> (\<exists>m. s = m @ z \<and> P (c # m))"
  by (auto simp: Cons_eq_append_conv)

lemma many_iff: "(b, z) \<in> set (many n p (a, s)) \<longleftrightarrow> (\<exists>m. s = m @ z \<and> b = last_of a m \<and> n \<le> length m \<and> list_all p m)"
proof (induction s arbitrary: n a)
  case Nil
  then show ?case by auto
next
  case (Cons c s)
  have "(\<exists>m. c # s = m @ z \<and> b = last_of a m \<and> n \<le> length m \<and> list_all p m) \<longleftrightarrow>
      (n = 0 \<and> b = a \<and> z = c # s) \<or> (p c \<and> (\<exists>m. s = m @ z \<and> b = last_of (Some c) m \<and> n - 1 \<le> length m \<and> list_all p m))"
    unfolding split_Cons by (auto simp: le_diff_conv)
  with Cons.IH [of "n - 1" "Some c"] show ?case by auto
qed

lemma just_iff: "(b, z) \<in> set (just n p (a, s)) \<longleftrightarrow> (\<exists>m. s = m @ z \<and> b = last_of a m \<and> length m = n \<and> list_all p m)"
proof (induction n arbitrary: a s)
  case (Suc n)
  show ?case
  proof (cases s)
    case (Cons c cs)
    have "(\<exists>m. c # cs = m @ z \<and> b = last_of a m \<and> length m = Suc n \<and> list_all p m) \<longleftrightarrow>
        p c \<and> (\<exists>m. cs = m @ z \<and> b = last_of (Some c) m \<and> length m = n \<and> list_all p m)"
      unfolding split_Cons by auto
    with Suc Cons show ?thesis by simp
  qed auto
qed auto

lemma ends_iff: "(b, z) \<in> set (ends U p (a, s)) \<longleftrightarrow> (\<exists>m. s = m @ z \<and> b = last_of a m \<and> fits U p a m z)"
proof (induction p arbitrary: a b s z)
  case (Maybe p)
  show ?case using just_iff [of b z 1 p a s] by (auto simp: le_Suc_eq)
next
  case (Both p q)
  have "(b, z) \<in> set (ends U (Both p q) (a, s)) \<longleftrightarrow>
      (\<exists>y t. (y, t) \<in> set (ends U p (a, s)) \<and> (b, z) \<in> set (ends U q (y, t)))" by auto
  also have "\<dots> \<longleftrightarrow> (\<exists>m1 m2. s = m1 @ m2 @ z \<and> b = last_of (last_of a m1) m2 \<and> fits U p a m1 (m2 @ z) \<and>
      fits U q (last_of a m1) m2 z)" unfolding Both.IH by blast
  also have "\<dots> \<longleftrightarrow> (\<exists>m. s = m @ z \<and> b = last_of a m \<and> fits U (Both p q) a m z)" by force
  finally show ?case .
qed (auto simp: many_iff just_iff)

lemma ends_some: "ends U p (a, s) \<noteq> [] \<longleftrightarrow> (\<exists>m z. s = m @ z \<and> fits U p a m z)"
proof -
  have "ends U p (a, s) \<noteq> [] \<longleftrightarrow> (\<exists>b z. (b, z) \<in> set (ends U p (a, s)))" by (cases "ends U p (a, s)") auto
  then show ?thesis unfolding ends_iff by blast
qed

lemma search_iff: "search U p a s \<longleftrightarrow> (\<exists>pre m z. s = pre @ m @ z \<and> fits U p (last_of a pre) m z)"
proof (induction s arbitrary: a)
  case Nil
  then show ?case by (simp add: ends_some)
next
  case (Cons c s)
  have "(\<exists>pre m z. c # s = pre @ m @ z \<and> fits U p (last_of a pre) m z) \<longleftrightarrow>
      (\<exists>m z. c # s = m @ z \<and> fits U p a m z) \<or> (\<exists>pre m z. s = pre @ m @ z \<and> fits U p (last_of (Some c) pre) m z)"
    (is "?l = (?x \<or> ?y)")
  proof
    assume ?l
    then obtain pre m z where k: "c # s = pre @ m @ z" "fits U p (last_of a pre) m z" by blast
    show "?x \<or> ?y" using k by (cases pre) auto
  next
    assume "?x \<or> ?y"
    then show ?l by (metis append_Cons append_Nil last_of_simps(1,2))
  qed
  then show ?case using Cons.IH by (simp add: ends_some)
qed

subsection \<open>The patterns\<close>

definition lit :: "string \<Rightarrow> pat" where
  "lit s = (case s of [] \<Rightarrow> AtLeast 0 (\<lambda>c. False)
     | c # cs \<Rightarrow> foldl (\<lambda>p c. Both p (One (\<lambda>x. x = [c]))) (One (\<lambda>x. x = [c])) cs)"

definition alnum :: "string \<Rightarrow> bool" where "alnum c = ascii_in alnum_byte c"
definition upper_num :: "string \<Rightarrow> bool" where
  "upper_num c = ascii_in (\<lambda>n. (48 \<le> n \<and> n \<le> 57) \<or> (65 \<le> n \<and> n \<le> 90)) c"
definition dashed :: "string \<Rightarrow> bool" where "dashed c = (alnum c \<or> c = ''-'')"
definition under :: "string \<Rightarrow> bool" where "under c = (alnum c \<or> c = ''_'')"
definition token_cp :: "string \<Rightarrow> bool" where "token_cp c = (alnum c \<or> c = ''_'' \<or> c = ''-'')"
definition upper_blank :: "string \<Rightarrow> bool" where
  "upper_blank c = ascii_in (\<lambda>n. (65 \<le> n \<and> n \<le> 90) \<or> n = 32) c"

fun seq :: "pat list \<Rightarrow> pat" where
  "seq [] = AtLeast 0 (\<lambda>c. False)"
| "seq [p] = p"
| "seq (p # ps) = Both p (seq ps)"

fun alt :: "pat list \<Rightarrow> pat" where
  "alt [] = One (\<lambda>c. False)"
| "alt [p] = p"
| "alt (p # ps) = Either p (alt ps)"

text \<open>One letter under \<open>IGNORECASE\<close>: both cases, and the characters beyond ASCII that fold to it.\<close>

definition folds_to :: "char \<Rightarrow> string \<Rightarrow> bool" where
  "folds_to c x =
     (map lower_char x = [c] \<or>
      (c = CHR ''k'' \<and> x = [CHR 0xE2, CHR 0x84, CHR 0xAA]) \<or> (c = CHR ''s'' \<and> x = [CHR 0xC5, CHR 0xBF]) \<or>
      (c = CHR ''i'' \<and> x \<in> {[CHR 0xC4, CHR 0xB0], [CHR 0xC4, CHR 0xB1]}))"

definition any_case :: "string \<Rightarrow> pat" where
  "any_case s = seq (map (\<lambda>c. One (folds_to c)) s)"

definition polish_l :: "string \<Rightarrow> bool" where
  "polish_l x = (folds_to (CHR ''l'') x \<or> x = pl_l \<or> x = [CHR 0xC5, CHR 0x81])"

definition spoken_secret :: "unicode_table \<Rightarrow> pat" where
  "spoken_secret U =
     seq [alt [seq [any_case ''has'', One polish_l, any_case ''o''], any_case ''password'', any_case ''passwd'',
            any_case ''token'',
            seq [any_case ''api'', Maybe (\<lambda>c. c \<in> {''_'', '' '', ''-''}), any_case ''key''],
            any_case ''klucz api'', any_case ''secret''],
          AtLeast 0 (cp_space U), alt [any_case ''to'', any_case ''jest'', lit ''='', lit '':''],
          AtLeast 0 (cp_space U), AtLeast 6 (\<lambda>c. \<not> cp_space U c)]"

definition SECRET_PATTERNS :: "unicode_table \<Rightarrow> (string \<times> pat) list" where
  "SECRET_PATTERNS U =
     [([CHR 0x5C] @ ''bsk-[A-Za-z0-9_-]{16,}'', seq [Edge, lit ''sk-'', AtLeast 16 token_cp]),
      ([CHR 0x5C] @ ''bsk-ant-[A-Za-z0-9_-]{16,}'', seq [Edge, lit ''sk-ant-'', AtLeast 16 token_cp]),
      ([CHR 0x5C] @ ''bAIza[0-9A-Za-z_-]{30,}'', seq [Edge, lit ''AIza'', AtLeast 30 token_cp]),
      ([CHR 0x5C] @ ''bgh[pousr]_[A-Za-z0-9]{20,}'',
        seq [Edge, lit ''gh'', One (\<lambda>c. c \<in> {''p'', ''o'', ''u'', ''s'', ''r''}), lit ''_'', AtLeast 20 alnum]),
      ([CHR 0x5C] @ ''bgithub_pat_[A-Za-z0-9_]{20,}'', seq [Edge, lit ''github_pat_'', AtLeast 20 under]),
      ([CHR 0x5C] @ ''bxox[baprs]-[A-Za-z0-9-]{10,}'',
        seq [Edge, lit ''xox'', One (\<lambda>c. c \<in> {''b'', ''a'', ''p'', ''r'', ''s''}), lit ''-'', AtLeast 10 dashed]),
      ([CHR 0x5C] @ ''bya29'' @ [CHR 0x5C] @ ''.[A-Za-z0-9_-]{20,}'', seq [Edge, lit ''ya29.'', AtLeast 20 token_cp]),
      ([CHR 0x5C] @ ''beyJ[A-Za-z0-9_-]{8,}'' @ [CHR 0x5C] @ ''.[A-Za-z0-9_-]{8,}'' @ [CHR 0x5C] @ ''.[A-Za-z0-9_-]{8,}'',
        seq [Edge, lit ''eyJ'', AtLeast 8 token_cp, lit ''.'', AtLeast 8 token_cp, lit ''.'', AtLeast 8 token_cp]),
      (''-----BEGIN [A-Z ]*PRIVATE KEY-----'', seq [lit ''-----BEGIN '', AtLeast 0 upper_blank, lit ''PRIVATE KEY-----'']),
      ([CHR 0x5C] @ ''bAKIA[0-9A-Z]{16}'' @ [CHR 0x5C] @ ''b'', seq [Edge, lit ''AKIA'', Exactly 16 upper_num, Edge]),
      (''(?:has['' @ pl_l @ ''l]o|password|passwd|token|api[_ -]?key|klucz api|secret)'' @ [CHR 0x5C] @ ''s*(?:to|jest|=|:)'' @ [CHR 0x5C] @ ''s*'' @ [CHR 0x5C] @ ''S{6,}'', spoken_secret U)]"

definition looks_like_secret :: "unicode_table \<Rightarrow> string \<Rightarrow> string option" where
  "looks_like_secret U s =
     (if is_ref (PStr s) then None
      else map_option fst (find (\<lambda>(name, p). search U p None (cp_chars s)) (SECRET_PATTERNS U)))"

lemma looks_like_secret_iff:
  "looks_like_secret U s \<noteq> None \<longleftrightarrow> \<not> prefix REF_PREFIX s \<and> (\<exists>(name, p) \<in> set (SECRET_PATTERNS U). search U p None (cp_chars s))"
proof -
  have "find P xs \<noteq> None \<longleftrightarrow> (\<exists>x \<in> set xs. P x)" for P and xs :: "(string \<times> pat) list"
    using find_None_iff [of P xs] by auto
  then show ?thesis by (simp add: looks_like_secret_def is_ref_def del: not_None_eq)
qed

lemma pattern_found:
  assumes "(name, p) \<in> set (SECRET_PATTERNS U)" "cp_chars s = pre @ m @ z" "fits U p (last_of None pre) m z" "\<not> prefix REF_PREFIX s"
  shows "looks_like_secret U s \<noteq> None"
  using assms search_iff [of U p None "cp_chars s"] unfolding looks_like_secret_iff by blast

end
