(* ===== verification/Memory.thy ===== *)
theory Memory
  imports SecretScan Database TextFold "HOL-Library.Product_Lexorder"
begin

section \<open>User memory (memory.py)\<close>

text \<open>
  Rows whose content, subject and tags live in one encrypted envelope. The cipher is the vault's
  (\<open>seal\<close>, \<open>unseal\<close>), the text folding of the search is \<open>fold_keep_shape\<close>, an operation reads the clock once.
  Memory and vault publish on one bus: \<open>with_vault\<close> lends it to the vault. An envelope whose fields
  have other types than the ones written here is an error in the model.
\<close>

subsection \<open>Kinds, scopes, records\<close>

datatype memory_kind =
    PREFERENCE | PERSON | PROJECT | DEVICE | CREDENTIAL_HINT | APP | SOLUTION | ROUTINE | FACT | STYLE

fun memory_kind_value :: "memory_kind \<Rightarrow> string" where
  "memory_kind_value PREFERENCE = ''preference''"
| "memory_kind_value PERSON = ''person''"
| "memory_kind_value PROJECT = ''project''"
| "memory_kind_value DEVICE = ''device''"
| "memory_kind_value CREDENTIAL_HINT = ''credential_hint''"
| "memory_kind_value APP = ''app''"
| "memory_kind_value SOLUTION = ''solution''"
| "memory_kind_value ROUTINE = ''routine''"
| "memory_kind_value FACT = ''fact''"
| "memory_kind_value STYLE = ''style''"

definition ALL_KINDS :: "memory_kind list" where
  "ALL_KINDS = [PREFERENCE, PERSON, PROJECT, DEVICE, CREDENTIAL_HINT, APP, SOLUTION, ROUTINE, FACT, STYLE]"

datatype memory_scope = S_SESSION | S_PROJECT | S_PERMANENT

fun memory_scope_value :: "memory_scope \<Rightarrow> string" where
  "memory_scope_value S_SESSION = ''session''"
| "memory_scope_value S_PROJECT = ''project''"
| "memory_scope_value S_PERMANENT = ''permanent''"

text \<open>\<open>MemoryKind(kind)\<close>, \<open>Scope(scope)\<close>.\<close>

definition enum_error :: "string \<Rightarrow> pyval \<Rightarrow> exn" where
  "enum_error name v = PyExn ''ValueError'' (py_repr v @ '' is not a valid '' @ name)"

definition kind_of_value :: "pyval \<Rightarrow> exn + memory_kind" where
  "kind_of_value v =
     (case find (\<lambda>k. v = PStr (memory_kind_value k)) ALL_KINDS of Some k \<Rightarrow> Inr k | None \<Rightarrow> Inl (enum_error ''MemoryKind'' v))"

definition scope_of_value :: "pyval \<Rightarrow> exn + memory_scope" where
  "scope_of_value v =
     (case find (\<lambda>s. v = PStr (memory_scope_value s)) [S_SESSION, S_PROJECT, S_PERMANENT] of
        Some s \<Rightarrow> Inr s | None \<Rightarrow> Inl (enum_error ''Scope'' v))"

definition opt_enum :: "(pyval \<Rightarrow> exn + 'k) \<Rightarrow> pyval option \<Rightarrow> exn + 'k option" where
  "opt_enum f v = (case v of None \<Rightarrow> Inr None | Some x \<Rightarrow> map_sum id Some (f x))"

record memory_record =
  mr_id :: uid
  mr_kind :: memory_kind
  mr_subject :: string
  mr_content :: string
  mr_preview :: string
  mr_tags :: "string list"
  mr_scope :: memory_scope
  mr_source :: string
  mr_confidence :: rat
  mr_pinned :: bool
  mr_created_at :: instant
  mr_updated_at :: instant
  mr_used_at :: "instant option"
  mr_use_count :: nat
  mr_expires_at :: "instant option"

definition mr_expired :: "instant \<Rightarrow> memory_record \<Rightarrow> bool" where
  "mr_expired now r = (case mr_expires_at r of None \<Rightarrow> False | Some t \<Rightarrow> t < now)"

definition memory_to_dict :: "(rat \<Rightarrow> pyval) \<Rightarrow> bool \<Rightarrow> memory_record \<Rightarrow> pydict" where
  "memory_to_dict fl include_content r =
     [(''id'', PStr (mr_id r)), (''kind'', PStr (memory_kind_value (mr_kind r))), (''subject'', PStr (mr_subject r)),
      (''preview'', PStr (mr_preview r)), (''tags'', PList (map PStr (mr_tags r))),
      (''scope'', PStr (memory_scope_value (mr_scope r))), (''source'', PStr (mr_source r)),
      (''confidence'', fl (mr_confidence r)), (''pinned'', PBool (mr_pinned r)), (''created_at'', fl (mr_created_at r)),
      (''updated_at'', fl (mr_updated_at r)),
      (''used_at'', case mr_used_at r of None \<Rightarrow> PNone | Some t \<Rightarrow> fl t), (''use_count'', PInt (int (mr_use_count r))),
      (''expires_at'', case mr_expires_at r of None \<Rightarrow> PNone | Some t \<Rightarrow> fl t)] @
     (if include_content then [(''content'', PStr (mr_content r))] else [])"

record memory_row =
  my_id :: uid
  my_kind :: memory_kind
  my_content_enc :: string
  my_scope :: memory_scope
  my_source :: string
  my_confidence :: rat
  my_pinned :: bool
  my_created_at :: instant
  my_updated_at :: instant
  my_used_at :: "instant option"
  my_use_count :: nat
  my_expires_at :: "instant option"

record memory =
  mm_rows :: "memory_row list"
  mm_key :: string
  mm_bus :: "bus option"
  mm_vault :: "vault option"

record memory_env =
  me_seal :: seal
  me_unseal :: unseal
  me_unicode :: unicode_table
  me_float :: "string \<Rightarrow> pyval"

subsection \<open>Text\<close>

text \<open>\<open>fold_keep_shape\<close>: letters of Latin-1 and Latin Extended-A lose their accents, combining marks go, the
  rest stays.\<close>

definition fold_letter :: "char \<Rightarrow> char \<Rightarrow> string" where
  "fold_letter a b =
     (if a = CHR 0xC2 \<and> b \<in> {CHR 0xBC, CHR 0xBD, CHR 0xBE} then
        (if b = CHR 0xBE then ''3'' else ''1'') @ [CHR 0xE2, CHR 0x81, CHR 0x84] @ (if b = CHR 0xBD then ''2'' else ''4'')
      else if a = CHR 0xC2 \<and> b = CHR 0xB5 then [CHR 0xCE, CHR 0xBC]
      else if fold_pair a b \<noteq> '' '' \<or> (a = CHR 0xC2 \<and> b \<in> {CHR 0xA0, CHR 0xA8, CHR 0xAF, CHR 0xB4, CHR 0xB8})
        then fold_pair a b
      else [a, b])"

fun fold_keep_shape :: "string \<Rightarrow> string" where
  "fold_keep_shape [] = []"
| "fold_keep_shape (a # r) =
     (if byte_of a < 192 \<or> 224 \<le> byte_of a then lower_char a # fold_keep_shape r
      else (case r of [] \<Rightarrow> [a] | b # s \<Rightarrow> fold_letter a b @ fold_keep_shape s))"

definition preview_of :: "string \<Rightarrow> string" where
  "preview_of content = shorten 90 (join '' '' (split_ws content))"

fun word_runs :: "(string \<Rightarrow> bool) \<Rightarrow> string \<Rightarrow> string list \<Rightarrow> string list" where
  "word_runs p acc [] = (if acc = [] then [] else [acc])"
| "word_runs p acc (c # cs) =
     (if p c then word_runs p (acc @ c) cs else (if acc = [] then [] else [acc]) @ word_runs p [] cs)"

definition infer_subject :: "unicode_table \<Rightarrow> string \<Rightarrow> string" where
  "infer_subject U content = cp_take 60 (join '' '' (take 4 (word_runs (cp_word U) [] (cp_chars content))))"

definition clean_tags :: "string list \<Rightarrow> string list" where
  "clean_tags tags = sorted_list_of_set ((\<lambda>t. lower (strip t)) ` set (filter (\<lambda>t. strip t \<noteq> []) tags))"

subsection \<open>The envelope\<close>

definition envelope :: "string \<Rightarrow> string \<Rightarrow> string list \<Rightarrow> string" where
  "envelope content subject tags =
     dumps (PDict [(''content'', PStr content), (''subject'', PStr subject), (''tags'', PList (map PStr tags))])"

definition memory_context :: "uid \<Rightarrow> string" where "memory_context i = ''memory:'' @ i"

definition seal_record :: "memory_env \<Rightarrow> string \<Rightarrow> string \<Rightarrow> memory_record \<Rightarrow> string" where
  "seal_record E mkey nonce r =
     encrypt (me_seal E) mkey nonce (envelope (mr_content r) (mr_subject r) (mr_tags r)) (memory_context (mr_id r))"

definition no_attribute :: "string \<Rightarrow> pyval \<Rightarrow> exn" where
  "no_attribute name v = PyExn ''AttributeError'' (repr_str (type_name v) @ '' object has no attribute '' @ repr_str name)"

fun str_value :: "pyval \<Rightarrow> exn + string" where
  "str_value (PStr s) = Inr s"
| "str_value v = Inl (no_attribute ''split'' v)"

definition tags_value :: "pyval \<Rightarrow> exn + string list" where
  "tags_value v = (case v of PList xs \<Rightarrow> try_map str_value xs | _ \<Rightarrow> Inl (PyExn ''TypeError'' ''tags''))"

definition payload_get :: "pydict \<Rightarrow> string \<Rightarrow> pyval \<Rightarrow> pyval" where
  "payload_get d k other = (case map_of d k of None \<Rightarrow> other | Some v \<Rightarrow> v)"

definition open_envelope :: "memory_env \<Rightarrow> string \<Rightarrow> exn + string \<times> string \<times> string list" where
  "open_envelope E raw =
     (case loads (me_float E) (Some raw) PNone of
        PDict d \<Rightarrow>
          (case str_value (payload_get d ''content'' (PStr [])) of Inl x \<Rightarrow> Inl x | Inr content \<Rightarrow>
            (case str_value (payload_get d ''subject'' (PStr [])) of Inl x \<Rightarrow> Inl x | Inr subject \<Rightarrow>
              (case tags_value (payload_get d ''tags'' (PList [])) of Inl x \<Rightarrow> Inl x | Inr tags \<Rightarrow>
                 Inr (content, subject, tags))))
      | _ \<Rightarrow> Inr (raw, [], []))"

definition decode_row :: "memory_env \<Rightarrow> string \<Rightarrow> memory_row \<Rightarrow> exn + memory_record" where
  "decode_row E mkey row =
     (case decrypt (me_unseal E) mkey (my_content_enc row) (memory_context (my_id row)) of
        Inl x \<Rightarrow> Inl x
      | Inr raw \<Rightarrow>
          map_sum id (\<lambda>(content, subject, tags).
            \<lparr>mr_id = my_id row, mr_kind = my_kind row, mr_subject = subject, mr_content = content,
             mr_preview = preview_of content, mr_tags = tags, mr_scope = my_scope row, mr_source = my_source row,
             mr_confidence = my_confidence row, mr_pinned = my_pinned row, mr_created_at = my_created_at row,
             mr_updated_at = my_updated_at row, mr_used_at = my_used_at row, mr_use_count = my_use_count row,
             mr_expires_at = my_expires_at row\<rparr>) (open_envelope E raw))"

subsection \<open>Writing\<close>

definition memory_notify :: "instant \<Rightarrow> string \<Rightarrow> memory_record \<Rightarrow> memory \<Rightarrow> memory" where
  "memory_notify now what r m =
     m\<lparr>mm_bus := map_option (emit now (topic_name MEMORY_CHANGED)
        [(''change'', EvVal (PStr what)), (''id'', EvVal (PStr (mr_id r))), (''kind'', EvVal (PStr (memory_kind_value (mr_kind r)))),
         (''subject'', EvVal (PStr (mr_subject r))), (''preview'', EvVal (PStr (mr_preview r)))]) (mm_bus m)\<rparr>"

definition insert_record :: "memory_env \<Rightarrow> string \<Rightarrow> memory_record \<Rightarrow> memory \<Rightarrow> memory" where
  "insert_record E nonce r m =
     m\<lparr>mm_rows := mm_rows m @
        [\<lparr>my_id = mr_id r, my_kind = mr_kind r, my_content_enc = seal_record E (mm_key m) nonce r, my_scope = mr_scope r,
          my_source = mr_source r, my_confidence = mr_confidence r, my_pinned = mr_pinned r,
          my_created_at = mr_created_at r, my_updated_at = mr_updated_at r, my_used_at = None, my_use_count = 0,
          my_expires_at = mr_expires_at r\<rparr>]\<rparr>"

definition secret_refused :: "string \<Rightarrow> string \<Rightarrow> exn" where
  "secret_refused hit rest =
     Garis (mk_error SecretNotAllowed (''Tre'' @ pl_s @ pl_c @ '' wygl'' @ pl_a @ ''da na po'' @ pl_s @ ''wiadczenie (wzorzec: '' @ hit @ '')'' @ rest) None)"

text \<open>The keyword arguments of \<open>remember\<close>.\<close>

record remember_args =
  ra_kind :: pyval
  ra_subject :: string
  ra_tags :: "string list"
  ra_scope :: pyval
  ra_source :: string
  ra_confidence :: rat
  ra_pinned :: bool
  ra_ttl :: "rat option"
  ra_bypass :: bool

definition plain_args :: remember_args where
  "plain_args =
     \<lparr>ra_kind = PStr (memory_kind_value FACT), ra_subject = [], ra_tags = [], ra_scope = PStr (memory_scope_value S_PERMANENT),
      ra_source = ''user'', ra_confidence = 1, ra_pinned = False, ra_ttl = None, ra_bypass = False\<rparr>"

definition remember ::
  "memory_env \<Rightarrow> uid \<Rightarrow> string \<Rightarrow> instant \<Rightarrow> string \<Rightarrow> remember_args \<Rightarrow> memory \<Rightarrow> (exn + memory_record) \<times> memory" where
  "remember E fresh nonce now said A m =
     (let content = strip said;
          hit = (if ra_bypass A then None else looks_like_secret (me_unicode E) content) in
      if content = [] then (Inl (PyExn ''ValueError'' (''Pusta tre'' @ pl_s @ pl_c @ '' pami'' @ pl_e @ ''ci'')), m)
      else case hit of
        Some h \<Rightarrow> (Inl (secret_refused h ('' '' @ em_dash @ '' miejsce na to jest w sejfie'')), m)
      | None \<Rightarrow>
          (case kind_of_value (ra_kind A) of
             Inl x \<Rightarrow> (Inl x, m)
           | Inr k \<Rightarrow>
               (case scope_of_value (ra_scope A) of
                  Inl x \<Rightarrow> (Inl x, m)
                | Inr sc \<Rightarrow>
                    let r = \<lparr>mr_id = fresh, mr_kind = k,
                          mr_subject = (if strip (ra_subject A) \<noteq> [] then strip (ra_subject A) else infer_subject (me_unicode E) content),
                          mr_content = content, mr_preview = preview_of content, mr_tags = clean_tags (ra_tags A), mr_scope = sc,
                          mr_source = ra_source A, mr_confidence = ra_confidence A, mr_pinned = ra_pinned A,
                          mr_created_at = now, mr_updated_at = now, mr_used_at = None, mr_use_count = 0,
                          mr_expires_at = (case ra_ttl A of None \<Rightarrow> None | Some t \<Rightarrow> if t = 0 then None else Some (now + t))\<rparr>
                    in (Inr r, memory_notify now ''remembered'' r (insert_record E nonce r m)))))"

text \<open>The pointer \<open>remember_secret\<close> leaves.\<close>

definition pointer :: "string \<Rightarrow> string \<Rightarrow> string" where
  "pointer name note = ''Dost'' @ pl_e @ ''p '' @ [CHR 0xE2, CHR 0x80, CHR 0x9E] @ name @ [CHR 0xE2, CHR 0x80, CHR 0x9D] @ '' jest w sejfie ('' @ note @ '').''"

definition with_vault :: "(vault \<Rightarrow> (exn + 'r) \<times> vault) \<Rightarrow> vault \<Rightarrow> memory \<Rightarrow> (exn + 'r) \<times> memory" where
  "with_vault f v m = (case f (v\<lparr>vt_bus := mm_bus m\<rparr>) of (res, v') \<Rightarrow> (res, m\<lparr>mm_vault := Some v', mm_bus := vt_bus v'\<rparr>))"

definition remember_secret ::
  "memory_env \<Rightarrow> uid \<Rightarrow> string \<Rightarrow> string \<Rightarrow> instant \<Rightarrow> string \<Rightarrow> string \<Rightarrow> string \<Rightarrow> string \<Rightarrow> memory \<Rightarrow> (exn + string) \<times> memory" where
  "remember_secret E fresh nonce nonce' now name val note kind m =
     (case mm_vault m of
        None \<Rightarrow> (Inl (Garis (mk_error SecretNotAllowed (''Sejf nie jest pod'' @ pl_l @ pl_a @ ''czony'') None)), m)
      | Some v \<Rightarrow>
          (case with_vault (vault_set (me_seal E) nonce now name val kind note) v m of
             (Inl x, m1) \<Rightarrow> (Inl x, m1)
           | (Inr info, m1) \<Rightarrow>
               (case remember E fresh nonce' now (pointer name (if note \<noteq> [] then note else kind))
                  (plain_args\<lparr>ra_kind := PStr (memory_kind_value CREDENTIAL_HINT), ra_subject := name, ra_tags := [''sejf''],
                     ra_source := ''vault'', ra_bypass := True\<rparr>) m1 of
                  (Inl x, m2) \<Rightarrow> (Inl x, m2)
                | (Inr r, m2) \<Rightarrow> (Inr (REF_PREFIX @ name), m2))))"

subsection \<open>Reading one\<close>

definition memory_get :: "memory_env \<Rightarrow> uid \<Rightarrow> memory \<Rightarrow> exn + memory_record option" where
  "memory_get E i m =
     (case row_by my_id i (mm_rows m) of None \<Rightarrow> Inr None | Some row \<Rightarrow> map_sum id Some (decode_row E (mm_key m) row))"

subsection \<open>Changing and forgetting\<close>

record change =
  ch_content :: pyval
  ch_subject :: pyval
  ch_tags :: pyval
  ch_scope :: "pyval option"
  ch_confidence :: "rat option"
  ch_pinned :: "bool option"

definition no_change :: change where
  "no_change =
     \<lparr>ch_content = PNone, ch_subject = PNone, ch_tags = PNone, ch_scope = None, ch_confidence = None, ch_pinned = None\<rparr>"

text \<open>\<open>v.strip()\<close> where \<open>None\<close> stands for no change.\<close>

definition stripped :: "pyval \<Rightarrow> exn + string option" where
  "stripped v = (case v of PNone \<Rightarrow> Inr None | PStr s \<Rightarrow> Inr (Some (strip s)) | _ \<Rightarrow> Inl (no_attribute ''strip'' v))"

definition tag_value :: "pyval \<Rightarrow> exn + string" where
  "tag_value v = (case v of PStr s \<Rightarrow> Inr s | _ \<Rightarrow> Inl (no_attribute ''strip'' v))"

definition changed_tags :: "pyval \<Rightarrow> exn + string list option" where
  "changed_tags v =
     (if v = PNone then Inr None
      else case py_iter v of
        None \<Rightarrow> Inl (PyExn ''TypeError'' (repr_str (type_name v) @ '' object is not iterable''))
      | Some xs \<Rightarrow> map_sum id (\<lambda>ts. Some (clean_tags ts)) (try_map tag_value xs))"

definition changed_content :: "memory_env \<Rightarrow> change \<Rightarrow> memory_record \<Rightarrow> exn + memory_record" where
  "changed_content E c r =
     (case stripped (ch_content c) of
        Inl x \<Rightarrow> Inl x
      | Inr None \<Rightarrow> Inr r
      | Inr (Some said) \<Rightarrow>
          (case looks_like_secret (me_unicode E) said of
             Some h \<Rightarrow> Inl (secret_refused h [])
           | None \<Rightarrow> Inr (r\<lparr>mr_content := said, mr_preview := preview_of said\<rparr>)))"

definition change_record :: "memory_env \<Rightarrow> instant \<Rightarrow> change \<Rightarrow> memory_record \<Rightarrow> exn + memory_record" where
  "change_record E now c r =
     (case changed_content E c r of Inl x \<Rightarrow> Inl x | Inr r1 \<Rightarrow>
       (case stripped (ch_subject c) of Inl x \<Rightarrow> Inl x | Inr subject \<Rightarrow>
         (case changed_tags (ch_tags c) of Inl x \<Rightarrow> Inl x | Inr tags \<Rightarrow>
           (case opt_enum scope_of_value (ch_scope c) of Inl x \<Rightarrow> Inl x | Inr sc \<Rightarrow>
              Inr (r1\<lparr>mr_subject := case_option (mr_subject r1) id subject, mr_tags := case_option (mr_tags r1) id tags,
                mr_scope := case_option (mr_scope r1) id sc, mr_confidence := case_option (mr_confidence r1) id (ch_confidence c),
                mr_pinned := case_option (mr_pinned r1) id (ch_pinned c), mr_updated_at := now\<rparr>)))))"

definition overwrite :: "memory_env \<Rightarrow> string \<Rightarrow> memory_record \<Rightarrow> memory \<Rightarrow> memory" where
  "overwrite E nonce r m =
     m\<lparr>mm_rows := update_where (\<lambda>w. my_id w = mr_id r)
        (\<lambda>w. w\<lparr>my_content_enc := seal_record E (mm_key m) nonce r, my_scope := mr_scope r,
           my_confidence := mr_confidence r, my_pinned := mr_pinned r, my_updated_at := mr_updated_at r\<rparr>) (mm_rows m)\<rparr>"

definition memory_update :: "memory_env \<Rightarrow> string \<Rightarrow> instant \<Rightarrow> uid \<Rightarrow> change \<Rightarrow> memory \<Rightarrow> (exn + memory_record) \<times> memory" where
  "memory_update E nonce now i c m =
     (case memory_get E i m of
        Inl x \<Rightarrow> (Inl x, m)
      | Inr None \<Rightarrow> (Inl (PyExn ''KeyError'' (repr_str i)), m)
      | Inr (Some r0) \<Rightarrow>
          (case change_record E now c r0 of
             Inl x \<Rightarrow> (Inl x, m)
           | Inr r \<Rightarrow> (Inr r, memory_notify now ''updated'' r (overwrite E nonce r m))))"

definition memory_pin :: "memory_env \<Rightarrow> string \<Rightarrow> instant \<Rightarrow> uid \<Rightarrow> bool \<Rightarrow> memory \<Rightarrow> (exn + memory_record) \<times> memory" where
  "memory_pin E nonce now i pinned m =
     memory_update E nonce now i
       (no_change\<lparr>ch_pinned := Some pinned, ch_scope := (if pinned then Some (PStr (memory_scope_value S_PERMANENT)) else None)\<rparr>) m"

definition forget :: "memory_env \<Rightarrow> instant \<Rightarrow> uid \<Rightarrow> memory \<Rightarrow> (exn + bool) \<times> memory" where
  "forget E now i m =
     (case memory_get E i m of
        Inl x \<Rightarrow> (Inl x, m)
      | Inr found \<Rightarrow>
          let rows = filter (\<lambda>w. my_id w \<noteq> i) (mm_rows m); gone = (length rows < length (mm_rows m));
              m' = m\<lparr>mm_rows := rows\<rparr>
          in (Inr gone, case found of Some r \<Rightarrow> if gone then memory_notify now ''forgotten'' r m' else m' | None \<Rightarrow> m'))"

subsection \<open>Listing and searching\<close>

definition alive_at :: "instant \<Rightarrow> memory_row \<Rightarrow> bool" where
  "alive_at now w = (case my_expires_at w of None \<Rightarrow> True | Some t \<Rightarrow> now < t)"

fun subject_loop :: "memory_env \<Rightarrow> string \<Rightarrow> string \<Rightarrow> int \<Rightarrow> memory_row list \<Rightarrow> memory_record list \<Rightarrow> exn + memory_record list" where
  "subject_loop E mkey needle limit [] found = Inr found"
| "subject_loop E mkey needle limit (w # ws) found =
     (case decode_row E mkey w of
        Inl x \<Rightarrow> Inl x
      | Inr r \<Rightarrow>
          if contains needle (fold_keep_shape (mr_subject r)) then
            (if limit \<le> int (length (found @ [r])) then Inr (found @ [r])
             else subject_loop E mkey needle limit ws (found @ [r]))
          else subject_loop E mkey needle limit ws found)"

definition listed_rows :: "instant \<Rightarrow> memory_kind option \<Rightarrow> memory_scope option \<Rightarrow> bool \<Rightarrow> memory \<Rightarrow> memory_row list" where
  "listed_rows now k sc include_expired m =
     sort_key (\<lambda>w. (if my_pinned w then 0 else 1 :: nat, - my_updated_at w))
       (filter (\<lambda>w. (k = None \<or> k = Some (my_kind w)) \<and> (sc = None \<or> sc = Some (my_scope w)) \<and>
           (include_expired \<or> alive_at now w)) (mm_rows m))"

definition memory_list ::
  "memory_env \<Rightarrow> instant \<Rightarrow> pyval option \<Rightarrow> pyval option \<Rightarrow> string option \<Rightarrow> int \<Rightarrow> bool \<Rightarrow> memory \<Rightarrow> exn + memory_record list" where
  "memory_list E now kind scope subject limit include_expired m =
     (case opt_enum kind_of_value kind of
        Inl x \<Rightarrow> Inl x
      | Inr k \<Rightarrow>
          (case opt_enum scope_of_value scope of
             Inl x \<Rightarrow> Inl x
           | Inr sc \<Rightarrow>
               let rows = listed_rows now k sc include_expired m in
               (case subject of
                  None \<Rightarrow> try_map (decode_row E (mm_key m)) (sql_limit limit rows)
                | Some s \<Rightarrow> subject_loop E (mm_key m) (fold_keep_shape s) limit rows [])))"

definition query_tokens :: "string \<Rightarrow> string list" where
  "query_tokens query = filter (\<lambda>t. 2 < cp_len t) (split_ws (fold_keep_shape query))"

definition hay :: "memory_record \<Rightarrow> string" where
  "hay r = fold_keep_shape (join '' '' [mr_subject r, mr_preview r, join '' '' (mr_tags r)])"

definition base_score :: "string list \<Rightarrow> memory_record \<Rightarrow> rat" where
  "base_score tokens r =
     (let s = 2 * of_nat (length (filter (\<lambda>t. contains t (hay r)) tokens)) in
      if s = 0 then (if list_ex (\<lambda>t. contains t (fold_keep_shape (mr_content r))) tokens then 1 else 0) else s)"

definition search_score :: "string list \<Rightarrow> memory_record \<Rightarrow> rat" where
  "search_score tokens r =
     (let s = base_score tokens r in
      if s = 0 then 0 else s + (if mr_pinned r then 1 else 0) + of_nat (min (mr_use_count r) 5) / 10)"

definition touch_found :: "instant \<Rightarrow> memory_record list \<Rightarrow> memory \<Rightarrow> memory" where
  "touch_found now rs m =
     fold (\<lambda>r m. m\<lparr>mm_rows := update_where (\<lambda>w. my_id w = mr_id r)
        (\<lambda>w. w\<lparr>my_used_at := Some now, my_use_count := my_use_count w + 1\<rparr>) (mm_rows m)\<rparr>) rs m"

definition ranked_hits :: "string list \<Rightarrow> memory_record list \<Rightarrow> memory_record list" where
  "ranked_hits tokens rs =
     sort_key (\<lambda>r. (- search_score tokens r, - mr_updated_at r)) (filter (\<lambda>r. search_score tokens r \<noteq> 0) rs)"

definition memory_search :: "memory_env \<Rightarrow> instant \<Rightarrow> string \<Rightarrow> int \<Rightarrow> memory \<Rightarrow> (exn + memory_record list) \<times> memory" where
  "memory_search E now query limit m =
     (let tokens = query_tokens query in
      if tokens = [] then (Inr [], m)
      else case memory_list E now None None None 1000 False m of
        Inl x \<Rightarrow> (Inl x, m)
      | Inr rs \<Rightarrow> let found = slice_to limit (ranked_hits tokens rs) in (Inr found, touch_found now found m))"

fun forget_all :: "memory_env \<Rightarrow> instant \<Rightarrow> memory_record list \<Rightarrow> memory \<Rightarrow> (exn + unit) \<times> memory" where
  "forget_all E now [] m = (Inr (), m)"
| "forget_all E now (r # rs) m =
     (case forget E now (mr_id r) m of (Inl x, m') \<Rightarrow> (Inl x, m') | (Inr _, m') \<Rightarrow> forget_all E now rs m')"

definition forget_matching :: "memory_env \<Rightarrow> instant \<Rightarrow> string \<Rightarrow> int \<Rightarrow> memory \<Rightarrow> (exn + memory_record list) \<times> memory" where
  "forget_matching E now query limit m =
     (case memory_search E now query limit m of
        (Inl x, m') \<Rightarrow> (Inl x, m')
      | (Inr found, m') \<Rightarrow>
          (case forget_all E now found m' of (Inl x, m2) \<Rightarrow> (Inl x, m2) | (Inr _, m2) \<Rightarrow> (Inr found, m2)))"

fun add_unseen :: "memory_record list \<Rightarrow> memory_record list \<Rightarrow> memory_record list" where
  "add_unseen relevant [] = relevant"
| "add_unseen relevant (r # rs) =
     add_unseen (if mr_id r \<in> mr_id ` set relevant then relevant else relevant @ [r]) rs"

definition context_for :: "memory_env \<Rightarrow> instant \<Rightarrow> string \<Rightarrow> int \<Rightarrow> memory \<Rightarrow> (exn + memory_record list) \<times> memory" where
  "context_for E now goal limit m =
     (case memory_search E now goal limit m of
        (Inl x, m') \<Rightarrow> (Inl x, m')
      | (Inr relevant, m') \<Rightarrow>
          if limit \<le> int (length relevant) then (Inr relevant, m')
          else case memory_list E now (Some (PStr (memory_kind_value STYLE))) None None 4 False m' of
            Inl x \<Rightarrow> (Inl x, m')
          | Inr style \<Rightarrow>
              (case memory_list E now (Some (PStr (memory_kind_value PREFERENCE))) None None 6 False m' of
                 Inl x \<Rightarrow> (Inl x, m')
               | Inr prefs \<Rightarrow> (Inr (slice_to limit (add_unseen relevant (style @ prefs))), m')))"

definition memory_stats :: "memory \<Rightarrow> nat \<times> (memory_kind \<times> nat) list \<times> nat" where
  "memory_stats m =
     (let count = (\<lambda>k. length (filter (\<lambda>w. my_kind w = k) (mm_rows m)));
          kinds = filter (\<lambda>k. count k \<noteq> 0) (sort_key memory_kind_value ALL_KINDS)
      in (sum_list (map count kinds), map (\<lambda>k. (k, count k)) kinds, length (filter my_pinned (mm_rows m))))"

definition purge_expired :: "instant \<Rightarrow> memory \<Rightarrow> nat \<times> memory" where
  "purge_expired now m =
     (let rows = filter (\<lambda>w. \<not> (case my_expires_at w of None \<Rightarrow> False | Some t \<Rightarrow> t < now)) (mm_rows m)
      in (length (mm_rows m) - length rows, m\<lparr>mm_rows := rows\<rparr>))"

definition end_session :: "memory \<Rightarrow> nat \<times> memory" where
  "end_session m =
     (let rows = filter (\<lambda>w. my_scope w \<noteq> S_SESSION) (mm_rows m)
      in (length (mm_rows m) - length rows, m\<lparr>mm_rows := rows\<rparr>))"

subsection \<open>The envelope comes back\<close>

lemma try_map_strings: "try_map str_value (map PStr ts) = Inr ts"
  by (induction ts) simp_all

lemma open_envelope_id: "open_envelope E (envelope content subject tags) = Inr (content, subject, tags)"
proof -
  let ?v = "PDict [(''content'', PStr content), (''subject'', PStr subject), (''tags'', PList (map PStr tags))]"
  have v: "stored ?v = ?v" by simp
  moreover have "json_ok (me_float E) ?v" by (simp add: dict_ok_def list_all_iff)
  ultimately have "loads (me_float E) (Some (dumps ?v)) PNone = ?v" using loads_of_dumps by metis
  then show ?thesis by (simp add: open_envelope_def envelope_def payload_get_def tags_value_def try_map_strings)
qed

definition sealed_as :: "memory_env \<Rightarrow> string \<Rightarrow> memory_row \<Rightarrow> string \<Rightarrow> string \<Rightarrow> string list \<Rightarrow> bool" where
  "sealed_as E mkey w content subject tags =
     (\<exists>nonce. my_content_enc w = encrypt (me_seal E) mkey nonce (envelope content subject tags) (memory_context (my_id w)))"

lemma decode_sealed:
  assumes "opens (me_seal E) (me_unseal E)" "sealed_as E mkey w content subject tags"
  shows "decode_row E mkey w = Inr \<lparr>mr_id = my_id w, mr_kind = my_kind w, mr_subject = subject, mr_content = content,
    mr_preview = preview_of content, mr_tags = tags, mr_scope = my_scope w, mr_source = my_source w,
    mr_confidence = my_confidence w, mr_pinned = my_pinned w, mr_created_at = my_created_at w,
    mr_updated_at = my_updated_at w, mr_used_at = my_used_at w, mr_use_count = my_use_count w,
    mr_expires_at = my_expires_at w\<rparr>"
  using assms by (auto simp: sealed_as_def decode_row_def decrypt_encrypt opens_def open_envelope_id)

lemma decode_id: "decode_row E mkey w = Inr r \<Longrightarrow> mr_id r = my_id w"
  by (auto simp: decode_row_def map_sum_Inr_iff split: sum.splits)

lemma decode_preview: "decode_row E mkey w = Inr r \<Longrightarrow> mr_preview r = preview_of (mr_content r)"
  by (auto simp: decode_row_def map_sum_Inr_iff split: sum.splits)

lemma notify_rows [simp]: "mm_rows (memory_notify now what r m) = mm_rows m" "mm_key (memory_notify now what r m) = mm_key m"
  by (simp_all add: memory_notify_def)

lemma get_notify [simp]: "memory_get E i (memory_notify now what r m) = memory_get E i m"
  by (simp add: memory_get_def split: option.splits)

lemma get_some: "memory_get E i m = Inr (Some r) \<Longrightarrow>
    \<exists>w. row_by my_id i (mm_rows m) = Some w \<and> decode_row E (mm_key m) w = Inr r \<and> mr_id r = i"
  by (auto simp: memory_get_def map_sum_Inr_iff dest: row_by_SomeD decode_id split: option.splits)

lemma remember_cases:
  assumes "remember E fresh nonce now said A m = (res, m')"
  shows "(\<exists>x. res = Inl x \<and> m' = m) \<or>
    (\<exists>r. res = Inr r \<and> m' = memory_notify now ''remembered'' r (insert_record E nonce r m) \<and> mr_id r = fresh \<and>
       mr_content r = strip said \<and> mr_preview r = preview_of (strip said) \<and> mr_used_at r = None \<and> mr_use_count r = 0 \<and>
       (ra_bypass A \<or> looks_like_secret (me_unicode E) (strip said) = None))"
  using assms by (auto simp: remember_def Let_def split: option.splits sum.splits if_splits)

lemma update_cases:
  assumes "memory_update E nonce now i c m = (res, m')"
  shows "(\<exists>x. res = Inl x \<and> m' = m) \<or>
    (\<exists>r0 r. memory_get E i m = Inr (Some r0) \<and> change_record E now c r0 = Inr r \<and> res = Inr r \<and>
       m' = memory_notify now ''updated'' r (overwrite E nonce r m))"
proof (cases "memory_get E i m")
  case (Inl x)
  with assms show ?thesis by (auto simp: memory_update_def)
next
  case (Inr found)
  show ?thesis
  proof (cases found)
    case None
    with Inr assms show ?thesis by (auto simp: memory_update_def)
  next
    case (Some r0)
    with Inr assms have "(res, m') = (case change_record E now c r0 of Inl x \<Rightarrow> (Inl x, m)
        | Inr r \<Rightarrow> (Inr r, memory_notify now ''updated'' r (overwrite E nonce r m)))"
      by (simp add: memory_update_def)
    with Inr Some show ?thesis by (simp split: sum.splits)
  qed
qed

lemma changed_fields:
  assumes "change_record E now c r0 = Inr r"
  shows "mr_id r = mr_id r0" "mr_kind r = mr_kind r0" "mr_source r = mr_source r0" "mr_created_at r = mr_created_at r0"
    "mr_used_at r = mr_used_at r0" "mr_use_count r = mr_use_count r0" "mr_expires_at r = mr_expires_at r0"
    "mr_preview r0 = preview_of (mr_content r0) \<Longrightarrow> mr_preview r = preview_of (mr_content r)"
    "mr_content r = mr_content r0 \<or> looks_like_secret (me_unicode E) (mr_content r) = None"
proof -
  from assms obtain r1 where r1: "changed_content E c r0 = Inr r1" "mr_id r = mr_id r1" "mr_kind r = mr_kind r1"
    "mr_source r = mr_source r1" "mr_created_at r = mr_created_at r1" "mr_used_at r = mr_used_at r1"
    "mr_use_count r = mr_use_count r1" "mr_expires_at r = mr_expires_at r1" "mr_preview r = mr_preview r1"
    "mr_content r = mr_content r1"
    by (auto simp: change_record_def split: sum.splits)
  then show "mr_id r = mr_id r0" "mr_kind r = mr_kind r0" "mr_source r = mr_source r0" "mr_created_at r = mr_created_at r0"
    "mr_used_at r = mr_used_at r0" "mr_use_count r = mr_use_count r0" "mr_expires_at r = mr_expires_at r0"
    "mr_preview r0 = preview_of (mr_content r0) \<Longrightarrow> mr_preview r = preview_of (mr_content r)"
    "mr_content r = mr_content r0 \<or> looks_like_secret (me_unicode E) (mr_content r) = None"
    by (auto simp: changed_content_def split: sum.splits option.splits)
qed

subsection \<open>What rows hold\<close>

text \<open>A row holds a text no pattern finds a credential in, or the pointer \<open>remember_secret\<close> leaves.\<close>

definition harmless :: "memory_env \<Rightarrow> string \<Rightarrow> bool" where
  "harmless E content = (looks_like_secret (me_unicode E) content = None \<or> (\<exists>name note. content = strip (pointer name note)))"

definition memory_ok :: "memory_env \<Rightarrow> memory \<Rightarrow> bool" where
  "memory_ok E m = (\<forall>w \<in> set (mm_rows m). \<exists>content subject tags. sealed_as E (mm_key m) w content subject tags \<and> harmless E content)"

datatype memory_op =
    OpRemember uid string instant string remember_args
  | OpSecret uid string string instant string string string string
  | OpUpdate string instant uid change
  | OpForget instant uid
  | OpForgetMatching instant string int
  | OpContext instant string int
  | OpPurge instant
  | OpEndSession

fun memory_do :: "memory_env \<Rightarrow> memory_op \<Rightarrow> memory \<Rightarrow> memory" where
  "memory_do E (OpRemember fresh nonce now said A) m = snd (remember E fresh nonce now said A m)"
| "memory_do E (OpSecret fresh nonce nonce' now name val note kind) m =
     snd (remember_secret E fresh nonce nonce' now name val note kind m)"
| "memory_do E (OpUpdate nonce now i c) m = snd (memory_update E nonce now i c m)"
| "memory_do E (OpForget now i) m = snd (forget E now i m)"
| "memory_do E (OpForgetMatching now query limit) m = snd (forget_matching E now query limit m)"
| "memory_do E (OpContext now goal limit) m = snd (context_for E now goal limit m)"
| "memory_do E (OpPurge now) m = snd (purge_expired now m)"
| "memory_do E OpEndSession m = snd (end_session m)"

text \<open>Nobody outside asks for the check to be skipped.\<close>

fun asked :: "memory_op \<Rightarrow> bool" where
  "asked (OpRemember fresh nonce now said A) = (\<not> ra_bypass A)"
| "asked _ = True"

lemma ok_subset:
  "memory_ok E m \<Longrightarrow> set (mm_rows m') \<subseteq> set (mm_rows m) \<Longrightarrow> mm_key m' = mm_key m \<Longrightarrow> memory_ok E m'"
  by (auto simp: memory_ok_def)

lemma ok_notify [simp]: "memory_ok E (memory_notify now what r m) = memory_ok E m"
  by (simp add: memory_ok_def)

lemma ok_insert: "memory_ok E m \<Longrightarrow> harmless E (mr_content r) \<Longrightarrow> memory_ok E (insert_record E nonce r m)"
  by (auto simp: memory_ok_def insert_record_def sealed_as_def seal_record_def)

lemma ok_remember: "memory_ok E m \<Longrightarrow> \<not> ra_bypass A \<or> (\<exists>name note. strip said = strip (pointer name note)) \<Longrightarrow>
    memory_ok E (snd (remember E fresh nonce now said A m))"
  using remember_cases [of E fresh nonce now said A m] ok_insert [of E m]
  by (cases "remember E fresh nonce now said A m") (fastforce simp: harmless_def)

lemma ok_overwrite: "memory_ok E m \<Longrightarrow> harmless E (mr_content r) \<Longrightarrow> memory_ok E (overwrite E nonce r m)"
proof -
  assume ok: "memory_ok E m" and h: "harmless E (mr_content r)"
  let ?f = "\<lambda>w. w\<lparr>my_content_enc := seal_record E (mm_key m) nonce r, my_scope := mr_scope r,
      my_confidence := mr_confidence r, my_pinned := mr_pinned r, my_updated_at := mr_updated_at r\<rparr>"
  have new: "sealed_as E (mm_key m) (?f w) (mr_content r) (mr_subject r) (mr_tags r)" if "my_id w = mr_id r" for w
    using that by (auto simp: sealed_as_def seal_record_def)
  show ?thesis
    unfolding memory_ok_def
  proof
    fix w assume "w \<in> set (mm_rows (overwrite E nonce r m))"
    then consider "w \<in> set (mm_rows m)" | v where "w = ?f v" "my_id v = mr_id r"
      by (auto simp: overwrite_def set_update_where)
    then show "\<exists>content subject tags. sealed_as E (mm_key (overwrite E nonce r m)) w content subject tags \<and> harmless E content"
    proof cases
      case 1
      with ok show ?thesis by (auto simp: memory_ok_def overwrite_def)
    next
      case 2
      with new [OF 2(2)] h show ?thesis by (auto simp: overwrite_def)
    qed
  qed
qed

lemma got_harmless:
  assumes "opens (me_seal E) (me_unseal E)" "memory_ok E m" "memory_get E i m = Inr (Some r)"
  shows "harmless E (mr_content r)"
proof -
  from get_some [OF assms(3)] obtain w where f: "row_by my_id i (mm_rows m) = Some w" and d: "decode_row E (mm_key m) w = Inr r"
    by blast
  from row_by_SomeD [OF f] have "w \<in> set (mm_rows m)" by simp
  with assms(2) have "\<exists>content subject tags. sealed_as E (mm_key m) w content subject tags \<and> harmless E content"
    by (simp add: memory_ok_def)
  then obtain content subject tags where s: "sealed_as E (mm_key m) w content subject tags" and h: "harmless E content" by blast
  from decode_sealed [OF assms(1) s] d have "mr_content r = content" by auto
  with h show ?thesis by simp
qed

lemma ok_update:
  assumes "opens (me_seal E) (me_unseal E)" "memory_ok E m"
  shows "memory_ok E (snd (memory_update E nonce now i c m))"
proof (cases "memory_update E nonce now i c m")
  case (Pair res m')
  from update_cases [OF this] consider "m' = m"
    | r0 r where "memory_get E i m = Inr (Some r0)" "change_record E now c r0 = Inr r"
        "m' = memory_notify now ''updated'' r (overwrite E nonce r m)"
    by blast
  then show ?thesis
  proof cases
    case 1
    with Pair assms(2) show ?thesis by simp
  next
    case 2
    from changed_fields(9) [OF 2(2)] got_harmless [OF assms 2(1)] have "harmless E (mr_content r)"
      unfolding harmless_def by metis
    with ok_overwrite [OF assms(2)] Pair 2(3) show ?thesis by simp
  qed
qed

lemma ok_rows: "memory_ok E m \<Longrightarrow> memory_ok E (m\<lparr>mm_vault := v, mm_bus := b\<rparr>)"
  by (simp add: memory_ok_def)

lemma ok_secret: "memory_ok E m \<Longrightarrow> memory_ok E (snd (remember_secret E fresh nonce nonce' now name val note kind m))"
proof -
  assume ok: "memory_ok E m"
  have kept: "memory_ok E (snd (with_vault f v m))" for f :: "vault \<Rightarrow> (exn + secret_info) \<times> vault" and v
    using ok ok_rows by (simp add: with_vault_def split: prod.split)
  have pointed: "memory_ok E (snd (remember E fresh nonce' now (pointer name (if note \<noteq> [] then note else kind)) A m1))"
    if "memory_ok E m1" for A m1 using ok_remember [OF that] by blast
  show ?thesis
  proof (cases "mm_vault m")
    case (Some v)
    obtain res m1 where w: "with_vault (vault_set (me_seal E) nonce now name val kind note) v m = (res, m1)"
      by (metis surj_pair)
    with kept [of "vault_set (me_seal E) nonce now name val kind note" v] have "memory_ok E m1" by simp
    with w Some pointed [of m1] show ?thesis
      by (auto simp: remember_secret_def split: sum.splits prod.splits) (metis snd_conv)+
  qed (simp add: remember_secret_def ok)
qed

lemma forget_rows: "set (mm_rows (snd (forget E now i m))) \<subseteq> set (mm_rows m) \<and> mm_key (snd (forget E now i m)) = mm_key m"
  by (auto simp: forget_def Let_def split: sum.splits option.splits)

lemma forget_all_ok: "memory_ok E m \<Longrightarrow> memory_ok E (snd (forget_all E now rs m))"
proof (induction rs arbitrary: m)
  case (Cons r rs)
  obtain res m' where f: "forget E now (mr_id r) m = (res, m')" by (metis surj_pair)
  from ok_subset [OF Cons.prems] forget_rows [of E now "mr_id r" m] f have "memory_ok E m'" by simp
  with Cons.IH f show ?case by (auto split: sum.splits)
qed simp

lemma ok_touch: "memory_ok E m \<Longrightarrow> memory_ok E (touch_found now rs m)"
proof (induction rs arbitrary: m)
  case (Cons r rs)
  have "memory_ok E (m\<lparr>mm_rows := update_where (\<lambda>w. my_id w = mr_id r)
      (\<lambda>w. w\<lparr>my_used_at := Some now, my_use_count := my_use_count w + 1\<rparr>) (mm_rows m)\<rparr>)"
    using Cons.prems by (fastforce simp: memory_ok_def set_update_where sealed_as_def)
  with Cons.IH show ?case by (simp add: touch_found_def)
qed (simp add: touch_found_def)

lemma ok_search: "memory_ok E m \<Longrightarrow> memory_ok E (snd (memory_search E now query limit m))"
  using ok_touch by (auto simp: memory_search_def Let_def split: sum.splits)

lemma ok_do:
  assumes "opens (me_seal E) (me_unseal E)" "asked x" "memory_ok E m"
  shows "memory_ok E (memory_do E x m)"
proof (cases x)
  case (OpRemember fresh nonce now said A)
  with assms(2,3) ok_remember show ?thesis by simp
next
  case (OpForget now i)
  with ok_subset [OF assms(3)] forget_rows [of E now i m] show ?thesis by simp
next
  case (OpForgetMatching now query limit)
  obtain res m1 where "memory_search E now query limit m = (res, m1)" by (metis surj_pair)
  with ok_search [OF assms(3), of now query limit] forget_all_ok [of E m1 now] OpForgetMatching show ?thesis
    by (auto simp: forget_matching_def split: sum.splits prod.splits) (metis snd_conv)+
next
  case (OpContext now goal limit)
  obtain res m1 where "memory_search E now goal limit m = (res, m1)" by (metis surj_pair)
  with ok_search [OF assms(3), of now goal limit] OpContext show ?thesis
    by (auto simp: context_for_def split: sum.splits)
next
  case (OpPurge now)
  with ok_subset [OF assms(3)] show ?thesis by (simp add: purge_expired_def Let_def)
next
  case OpEndSession
  with ok_subset [OF assms(3)] show ?thesis by (simp add: end_session_def Let_def)
qed (simp_all add: ok_secret ok_update assms)

subsection \<open>Reading back\<close>

lemma preview_of_remembered: "memory_get E i m = Inr (Some r) \<Longrightarrow> mr_preview r = preview_of (mr_content r)"
  using get_some [of E i m r] decode_preview by blast

lemma row_by_other_append: "j \<noteq> my_id w \<Longrightarrow> row_by my_id j (ws @ [w]) = row_by my_id j ws"
  by (simp add: row_by_append split: option.splits)

lemma inserted_is_read:
  assumes "opens (me_seal E) (me_unseal E)" "mr_id r \<notin> my_id ` set (mm_rows m)" "mr_preview r = preview_of (mr_content r)"
    and "mr_used_at r = None" "mr_use_count r = 0"
  shows "memory_get E (mr_id r) (insert_record E nonce r m) = Inr (Some r)"
    "j \<noteq> mr_id r \<Longrightarrow> memory_get E j (insert_record E nonce r m) = memory_get E j m"
proof -
  define w where "w = \<lparr>my_id = mr_id r, my_kind = mr_kind r, my_content_enc = seal_record E (mm_key m) nonce r, my_scope = mr_scope r,
          my_source = mr_source r, my_confidence = mr_confidence r, my_pinned = mr_pinned r,
          my_created_at = mr_created_at r, my_updated_at = mr_updated_at r, my_used_at = None, my_use_count = 0,
          my_expires_at = mr_expires_at r\<rparr>"
  have rows: "mm_rows (insert_record E nonce r m) = mm_rows m @ [w]" "mm_key (insert_record E nonce r m) = mm_key m"
    by (simp_all add: insert_record_def w_def)
  have "sealed_as E (mm_key m) w (mr_content r) (mr_subject r) (mr_tags r)"
    by (auto simp: sealed_as_def w_def seal_record_def)
  from decode_sealed [OF assms(1) this] assms(3-5) have d: "decode_row E (mm_key m) w = Inr r" by (simp add: w_def)
  have "row_by my_id (mr_id r) (mm_rows m @ [w]) = Some w" using assms(2) by (simp add: row_by_append w_def)
  with d show "memory_get E (mr_id r) (insert_record E nonce r m) = Inr (Some r)" by (simp add: memory_get_def rows)
  show "j \<noteq> mr_id r \<Longrightarrow> memory_get E j (insert_record E nonce r m) = memory_get E j m"
    using row_by_other_append [of j w "mm_rows m"] by (simp add: memory_get_def rows(2) w_def rows(1) [unfolded w_def] split: option.splits)
qed

lemma overwritten_is_read:
  assumes "opens (me_seal E) (me_unseal E)" "memory_get E i m = Inr (Some r0)" "change_record E now c r0 = Inr r"
  shows "memory_get E i (overwrite E nonce r m) = Inr (Some r)"
    "j \<noteq> i \<Longrightarrow> memory_get E j (overwrite E nonce r m) = memory_get E j m"
proof -
  let ?f = "\<lambda>w. w\<lparr>my_content_enc := seal_record E (mm_key m) nonce r, my_scope := mr_scope r,
      my_confidence := mr_confidence r, my_pinned := mr_pinned r, my_updated_at := mr_updated_at r\<rparr>"
  from get_some [OF assms(2)] obtain w where w: "row_by my_id i (mm_rows m) = Some w" "decode_row E (mm_key m) w = Inr r0" "mr_id r0 = i"
    by blast
  note ch = changed_fields [OF assms(3)]
  have same: "my_kind w = mr_kind r" "my_source w = mr_source r" "my_created_at w = mr_created_at r" "my_used_at w = mr_used_at r"
    "my_use_count w = mr_use_count r" "my_expires_at w = mr_expires_at r" "my_id w = mr_id r"
    using w(2) ch decode_id [OF w(2)] by (auto simp: decode_row_def map_sum_Inr_iff split: sum.splits)
  have p: "mr_preview r = preview_of (mr_content r)" using ch(8) decode_preview [OF w(2)] by simp
  have "sealed_as E (mm_key m) (?f w) (mr_content r) (mr_subject r) (mr_tags r)"
    using same by (auto simp: sealed_as_def seal_record_def)
  from decode_sealed [OF assms(1) this] same p have d: "decode_row E (mm_key m) (?f w) = Inr r" by simp
  have rows: "mm_rows (overwrite E nonce r m) = update_where (\<lambda>w. my_id w = i) ?f (mm_rows m)" "mm_key (overwrite E nonce r m) = mm_key m"
    using same w(1) ch(1) w(3) by (simp_all add: overwrite_def)
  have by_key: "row_by my_id k (update_where (\<lambda>w. my_id w = i) ?f (mm_rows m)) =
      (if k = i then map_option ?f (row_by my_id i (mm_rows m)) else row_by my_id k (mm_rows m))" for k
    by (rule row_by_update_key) simp
  show "memory_get E i (overwrite E nonce r m) = Inr (Some r)" using d w(1) by (simp add: memory_get_def rows by_key)
  show "j \<noteq> i \<Longrightarrow> memory_get E j (overwrite E nonce r m) = memory_get E j m"
    by (simp add: memory_get_def rows by_key split: option.splits)
qed

lemma row_by_filter_id: "row_by my_id j (filter (\<lambda>w. my_id w \<noteq> i) ws) = (if j = i then None else row_by my_id j ws)"
  by (induction ws) auto

subsection \<open>What a search looks for\<close>

definition mentions :: "string \<Rightarrow> memory_record \<Rightarrow> bool" where
  "mentions query r =
     (\<exists>t \<in> set (query_tokens query). contains t (hay r) \<or> contains t (fold_keep_shape (mr_content r)))"

lemma search_score_mentions: "search_score (query_tokens query) r \<noteq> 0 \<longleftrightarrow> mentions query r"
proof -
  let ?ts = "query_tokens query"
  have b: "base_score ?ts r \<noteq> 0 \<longleftrightarrow> mentions query r"
    by (auto simp: base_score_def Let_def mentions_def list_ex_iff filter_empty_conv)
  have "0 \<le> base_score ?ts r" by (simp add: base_score_def Let_def)
  then show ?thesis using b by (auto simp: search_score_def Let_def add_nonneg_eq_0_iff add_eq_0_iff)
qed

lemma sorted_cut: "sorted (map f xs) \<Longrightarrow> x \<in> set (take k xs) \<Longrightarrow> y \<in> set (drop k xs) \<Longrightarrow> f x \<le> f y"
proof -
  assume s: "sorted (map f xs)" and x: "x \<in> set (take k xs)" and y: "y \<in> set (drop k xs)"
  have "map f xs = map f (take k xs) @ map f (drop k xs)" by (simp flip: map_append)
  with s have "sorted (map f (take k xs) @ map f (drop k xs))" by simp
  with x y show "f x \<le> f y" by (simp only: sorted_append) simp
qed

subsection \<open>Properties\<close>

definition empty_memory :: "string \<Rightarrow> bus option \<Rightarrow> vault option \<Rightarrow> memory" where
  "empty_memory mkey b v = \<lparr>mm_rows = [], mm_key = mkey, mm_bus = b, mm_vault = v\<rparr>"


definition sample_memory :: memory_env where
  "sample_memory =
     \<lparr>me_seal = clear_seal, me_unseal = clear_unseal, me_unicode = \<lparr>un_word = (\<lambda>c. True), un_space = (\<lambda>c. False)\<rparr>,
      me_float = PStr\<rparr>"

lemma opens_sample: "opens (me_seal sample_memory) (me_unseal sample_memory)"
  by (simp add: sample_memory_def opens_clear)

definition cup :: memory where
  "cup = snd (remember sample_memory ''a'' [] 0 ''lubi kawe'' plain_args (empty_memory [] None None))"

lemma calm: "looks_like_secret (me_unicode sample_memory) ''lubi kawe'' = None" "looks_like_secret (me_unicode sample_memory) ''o 7'' = None"
  by code_simp+

lemma fact_args: "kind_of_value (ra_kind plain_args) = Inr FACT" "scope_of_value (ra_scope plain_args) = Inr S_PERMANENT"
  by code_simp+

lemma plain_remember:
  assumes "strip s = s" "s \<noteq> []" "looks_like_secret (me_unicode sample_memory) s = None"
  obtains r where "remember sample_memory i [] 0 s plain_args m = (Inr r, memory_notify 0 ''remembered'' r (insert_record sample_memory [] r m))"
    "mr_id r = i" "mr_content r = s" "mr_preview r = preview_of (mr_content r)" "mr_used_at r = None" "mr_use_count r = 0"
    "mr_expires_at r = None"
  using assms that fact_args by (auto simp: remember_def Let_def plain_args_def)

lemma strip_solid: "s \<noteq> [] \<Longrightarrow> \<not> is_space (hd s) \<Longrightarrow> \<not> is_space (last s) \<Longrightarrow> strip s = s"
proof -
  assume s: "s \<noteq> []" "\<not> is_space (hd s)" "\<not> is_space (last s)"
  then have "dropWhile is_space s = s" by (cases s) auto
  moreover have "dropWhile is_space (rev s) = rev s" using s by (cases s rule: rev_cases) auto
  ultimately show "strip s = s" by (simp add: strip_def strip_by_def)
qed

lemma pointer_start: "strip (pointer name note) = pointer name note" "hd (pointer name note) = CHR ''D''"
  by (auto intro!: strip_solid simp: pointer_def is_space_def byte_of_def)

lemma cup_holds:
  obtains r w where "memory_get sample_memory ''a'' cup = Inr (Some r)" "mr_content r = ''lubi kawe''" "mm_rows cup = [w]"
    "my_id w = ''a''" "my_expires_at w = None" "decode_row sample_memory (mm_key cup) w = Inr r"
proof -
  have "strip ''lubi kawe'' = ''lubi kawe''" by code_simp
  then obtain r where "remember sample_memory ''a'' [] 0 ''lubi kawe'' plain_args (empty_memory [] None None) =
      (Inr r, memory_notify 0 ''remembered'' r (insert_record sample_memory [] r (empty_memory [] None None)))"
    and r2: "mr_id r = ''a''" "mr_content r = ''lubi kawe''" "mr_preview r = preview_of (mr_content r)" "mr_used_at r = None"
    "mr_use_count r = 0" "mr_expires_at r = None"
    by (rule plain_remember [OF _ _ calm(1), of "''a''" "empty_memory [] None None"]) simp
  then have r: "cup = memory_notify 0 ''remembered'' r (insert_record sample_memory [] r (empty_memory [] None None))"
    "mr_id r = ''a''" "mr_content r = ''lubi kawe''" "mr_preview r = preview_of (mr_content r)" "mr_used_at r = None"
    "mr_use_count r = 0" "mr_expires_at r = None" by (simp_all add: cup_def)
  have none: "mr_id r \<notin> my_id ` set (mm_rows (empty_memory [] None None))" by (simp add: empty_memory_def)
  from inserted_is_read(1) [OF opens_sample none r(4-6), of "[]"] have g: "memory_get sample_memory ''a'' cup = Inr (Some r)"
    unfolding r(1) get_notify r(2) .
  from get_some [OF g] obtain w where w: "row_by my_id ''a'' (mm_rows cup) = Some w" "decode_row sample_memory (mm_key cup) w = Inr r"
    by blast
  have "\<exists>v. mm_rows cup = [v] \<and> my_id v = ''a'' \<and> my_expires_at v = None"
    using r(2,7) by (simp add: r(1) insert_record_def empty_memory_def)
  with w(1) have "mm_rows cup = [w] \<and> my_id w = ''a'' \<and> my_expires_at w = None" by auto
  with that [OF g r(3) _ _ _ w(2)] show thesis by simp
qed

lemma cup_run: "fold (memory_do sample_memory) [OpRemember ''a'' [] 0 ''lubi kawe'' plain_args] (empty_memory [] None None) = cup"
  by (simp add: cup_def)


text \<open>C33: what is remembered is what is recalled. A new memory, and one that was changed, reads back from its
  encrypted row as exactly the record the call returned, and no other memory is touched; a call that
  fails changes nothing.\<close>

theorem remembered_is_recalled:
  assumes "opens (me_seal E) (me_unseal E)" "fresh \<notin> my_id ` set (mm_rows m)"
    and "remember E fresh nonce now said A m = (res, m1)" "memory_update E nonce now i c m = (res', m2)"
  shows "(case res of
      Inl x \<Rightarrow> m1 = m
    | Inr r \<Rightarrow> mr_content r = strip said \<and> memory_get E fresh m1 = Inr (Some r) \<and> (\<forall>j. j \<noteq> fresh \<longrightarrow> memory_get E j m1 = memory_get E j m)) \<and>
    (case res' of
      Inl x \<Rightarrow> m2 = m
    | Inr r \<Rightarrow> memory_get E i m2 = Inr (Some r) \<and> (\<forall>j. j \<noteq> i \<longrightarrow> memory_get E j m2 = memory_get E j m))"
proof
  show "(case res of
      Inl x \<Rightarrow> m1 = m
    | Inr r \<Rightarrow> mr_content r = strip said \<and> memory_get E fresh m1 = Inr (Some r) \<and> (\<forall>j. j \<noteq> fresh \<longrightarrow> memory_get E j m1 = memory_get E j m))"
  proof (cases res)
    case (Inl x)
    with remember_cases [OF assms(3)] show ?thesis by auto
  next
    case (Inr r)
    with remember_cases [OF assms(3)] have r: "m1 = memory_notify now ''remembered'' r (insert_record E nonce r m)" "mr_id r = fresh"
       "mr_content r = strip said" "mr_preview r = preview_of (mr_content r)" "mr_used_at r = None" "mr_use_count r = 0" by auto
    from assms(2) r(2) have "mr_id r \<notin> my_id ` set (mm_rows m)" by simp
    from inserted_is_read [OF assms(1) this r(4,5,6)] r(1-3) Inr show ?thesis by simp
  qed
  show "(case res' of
      Inl x \<Rightarrow> m2 = m
    | Inr r \<Rightarrow> memory_get E i m2 = Inr (Some r) \<and> (\<forall>j. j \<noteq> i \<longrightarrow> memory_get E j m2 = memory_get E j m))"
    using update_cases [OF assms(4)]
  proof
    assume "\<exists>r0 r. memory_get E i m = Inr (Some r0) \<and> change_record E now c r0 = Inr r \<and>
       res' = Inr r \<and> m2 = memory_notify now ''updated'' r (overwrite E nonce r m)"
    then obtain r0 r where u: "memory_get E i m = Inr (Some r0)" "change_record E now c r0 = Inr r"
       "res' = Inr r" "m2 = memory_notify now ''updated'' r (overwrite E nonce r m)" by blast
    from overwritten_is_read [OF assms(1) u(1-2)] u(3,4) show ?thesis by simp
  qed auto
qed

theorem remembered_is_recalled_witness:
  "\<exists>r m1. remember sample_memory ''b'' [] 0 ''o 7'' plain_args cup = (Inr r, m1) \<and>
     mr_content r = ''o 7'' \<and> memory_get sample_memory ''b'' m1 = Inr (Some r)"
proof -
  have s: "strip ''o 7'' = ''o 7''" by code_simp
  from plain_remember [OF s _ calm(2), of "''b''" cup] obtain r m1 where
    m1: "remember sample_memory ''b'' [] 0 ''o 7'' plain_args cup = (Inr r, m1)" by blast
  obtain res' m2 where m2: "memory_update sample_memory [] 0 ''a'' no_change cup = (res', m2)" by (metis surj_pair)
  obtain w where "mm_rows cup = [w]" "my_id w = ''a''" by (rule cup_holds)
  then have f: "''b'' \<notin> my_id ` set (mm_rows cup)" by simp
  from conjunct1 [OF remembered_is_recalled [OF opens_sample f m1 m2]] m1 s show ?thesis by simp
qed

text \<open>What is forgotten is gone. Forgetting says whether there was such a memory, leaves no row to read under
  its id and every other memory as it was; if the row cannot be read the call fails and it stays.\<close>

theorem forgotten_is_gone:
  assumes "forget E now i m = (res, m')"
  shows "(case res of
      Inl x \<Rightarrow> memory_get E i m = Inl x \<and> m' = m
    | Inr gone \<Rightarrow> (gone \<longleftrightarrow> i \<in> my_id ` set (mm_rows m)) \<and> memory_get E i m' = Inr None \<and>
        (\<forall>j. j \<noteq> i \<longrightarrow> memory_get E j m' = memory_get E j m))"
proof (cases "memory_get E i m")
  case (Inl x)
  with assms show ?thesis by (auto simp: forget_def)
next
  case (Inr found)
  let ?m = "m\<lparr>mm_rows := filter (\<lambda>w. my_id w \<noteq> i) (mm_rows m)\<rparr>"
  let ?gone = "length (filter (\<lambda>w. my_id w \<noteq> i) (mm_rows m)) < length (mm_rows m)"
  have gone: "?gone \<longleftrightarrow> i \<in> my_id ` set (mm_rows m)"
  proof (cases "i \<in> my_id ` set (mm_rows m)")
    case True
    then obtain w where "w \<in> set (mm_rows m)" "\<not> my_id w \<noteq> i" by blast
    then have "length (filter (\<lambda>w. my_id w \<noteq> i) (mm_rows m)) < length (mm_rows m)" by (rule length_filter_less)
    with True show ?thesis by simp
  next
    case False
    then have "filter (\<lambda>w. my_id w \<noteq> i) (mm_rows m) = mm_rows m" by (intro filter_True) blast
    with False show ?thesis by simp
  qed
  have res: "res = Inr ?gone" "\<And>j. memory_get E j m' = memory_get E j ?m"
    using assms Inr by (auto simp: forget_def Let_def split: option.splits if_splits)
  have "memory_get E j ?m = (if j = i then Inr None else memory_get E j m)" for j
    by (simp add: memory_get_def row_by_filter_id split: option.splits)
  with res gone show ?thesis by simp
qed

theorem forgotten_is_gone_witness:
  "memory_get sample_memory ''a'' (snd (forget sample_memory 0 ''a'' cup)) = Inr None"
proof -
  obtain res m' where f: "forget sample_memory 0 ''a'' cup = (res, m')" by (metis surj_pair)
  obtain r where "memory_get sample_memory ''a'' cup = Inr (Some r)" by (rule cup_holds)
  with f obtain gone where "res = Inr gone" by (auto simp: forget_def Let_def split: if_splits)
  with forgotten_is_gone [OF f] f show ?thesis by simp
qed



end
