(* ===== verification/Api.thy ===== *)
theory Api
  imports Http Memory Supervisor Settings Pool
begin

section \<open>What the API's handlers do (api/server.py)\<close>

text \<open>
  The handlers that change state or show it, over the components they call: supervisor, approvals,
  memory with its vault, settings, and the one bus they share (each operation borrows it). \<open>'p\<close> is the
  provider side, which the handlers only reload and describe; \<open>pool_reload\<close> is the pool's. The environment holds what one request
  reads from outside: the moment, fresh identifiers, nonces, whether the disk takes a write. The
  handlers of the conversation, of providers, tools, devices, audit and the state view are the
  parameter \<open>ae_rest\<close>. A \<open>pinned\<close> that is not a boolean is an error in the model.
\<close>

subsection \<open>State\<close>

record 'p desk =
  ds_sup :: supervisor
  ds_broker :: broker
  ds_memory :: memory
  ds_settings :: settings
  ds_bus :: bus
  ds_models :: 'p

record 'p api_env =
  ae_http :: http_env
  ae_memory :: memory_env
  ae_now :: instant
  ae_fresh :: uid
  ae_nonce :: string
  ae_nonce2 :: string
  ae_disk_ok :: bool
  ae_show :: "rat \<Rightarrow> string"
  ae_to_float :: "pyval \<Rightarrow> exn + rat \<times> string"
  ae_repr :: "conf \<Rightarrow> string"
  ae_reload :: "string \<Rightarrow> conf \<Rightarrow> 'p \<times> vault option \<times> bus \<Rightarrow> (exn + unit) \<times> 'p \<times> vault option \<times> bus"
  ae_providers :: "'p \<Rightarrow> pyval"
  ae_rest :: "'p desk http_handler"

definition on_sup :: "(supervisor \<Rightarrow> 'r \<times> supervisor) \<Rightarrow> 'p desk \<Rightarrow> 'r \<times> 'p desk" where
  "on_sup f w = (case f (ds_sup w\<lparr>sv_bus := ds_bus w\<rparr>) of (r, s) \<Rightarrow> (r, w\<lparr>ds_sup := s, ds_bus := sv_bus s\<rparr>))"

definition on_broker :: "(broker \<Rightarrow> 'r \<times> broker) \<Rightarrow> 'p desk \<Rightarrow> 'r \<times> 'p desk" where
  "on_broker f w = (case f (ds_broker w\<lparr>br_bus := ds_bus w\<rparr>) of (r, b) \<Rightarrow> (r, w\<lparr>ds_broker := b, ds_bus := br_bus b\<rparr>))"

definition on_memory :: "(memory \<Rightarrow> 'r \<times> memory) \<Rightarrow> 'p desk \<Rightarrow> 'r \<times> 'p desk" where
  "on_memory f w =
     (case f (ds_memory w\<lparr>mm_bus := Some (ds_bus w)\<rparr>) of
        (r, m) \<Rightarrow> (r, w\<lparr>ds_memory := m, ds_bus := (case mm_bus m of None \<Rightarrow> ds_bus w | Some b \<Rightarrow> b)\<rparr>))"

definition float_val :: "'p api_env \<Rightarrow> rat \<Rightarrow> pyval" where
  "float_val A r = PFloat r (ae_show A r)"

definition body_of :: "'p api_env \<Rightarrow> http_request \<Rightarrow> pydict" where
  "body_of A r = request_json (ae_http A) r"

definition field_str :: "pydict \<Rightarrow> string \<Rightarrow> string \<Rightarrow> string" where
  "field_str d k other = py_str (payload_get d k (PStr other))"

definition param :: "http_request \<Rightarrow> string \<Rightarrow> string" where
  "param r k = str_get (rq_params r) k []"

definition not_iterable :: "pyval \<Rightarrow> exn" where
  "not_iterable v = PyExn ''TypeError'' (repr_str (type_name v) @ '' object is not iterable'')"

text \<open>\<open>int(request.query.get("limit", "50"))\<close>.\<close>

definition query_int :: "http_request \<Rightarrow> string \<Rightarrow> string \<Rightarrow> exn + int" where
  "query_int r k other =
     (let v = str_get (rq_query r) k other in
      case parse_int v of
        None \<Rightarrow> Inl (PyExn ''ValueError'' (''invalid literal for int() with base 10: '' @ repr_str v))
      | Some n \<Rightarrow> Inr n)"

subsection \<open>Tasks\<close>

definition task_view :: "'p api_env \<Rightarrow> bool \<Rightarrow> task_record \<Rightarrow> pydict" where
  "task_view A full t =
     dict_set ''question'' (PStr (if tk_state t = T_BLOCKED then tk_error t else [])) (task_to_dict (ae_show A) full t)"

definition task_state_of :: "string \<Rightarrow> exn + task_state" where
  "task_state_of s =
     (case find (\<lambda>t. task_state_value t = s) [T_PENDING, T_RUNNING, T_BLOCKED, T_FINISHED, T_FAILED, T_STOPPED] of
        Some t \<Rightarrow> Inr t | None \<Rightarrow> Inl (enum_error ''TaskState'' (PStr s)))"

definition api_tasks :: "'p api_env \<Rightarrow> http_request \<Rightarrow> 'p desk \<Rightarrow> (exn + http_reply) \<times> 'p desk" where
  "api_tasks A r w =
     (let st = str_get (rq_query r) ''state'' [] in
      case (if st = [] then Inr None else map_sum id Some (task_state_of st)) of
        Inl x \<Rightarrow> (Inl x, w)
      | Inr state \<Rightarrow>
          (case query_int r ''limit'' ''50'' of
             Inl x \<Rightarrow> (Inl x, w)
           | Inr n \<Rightarrow>
               let db = sv_db (ds_sup w);
                   ts = task_list state (str_get (rq_query r) ''active'' [] = ''true'') (if n < 0 then length (db_tasks db) else nat n) db
               in (Inr (reply_ok (PDict [(''tasks'', PList (map (\<lambda>t. PDict (task_view A False t)) ts))]) 200), w)))"

definition criteria_of :: "pyval \<Rightarrow> exn + string list" where
  "criteria_of v =
     (case py_iter v of None \<Rightarrow> Inl (not_iterable v) | Some xs \<Rightarrow> Inr (filter (\<lambda>c. strip c \<noteq> []) (map py_str xs)))"

definition api_create_task :: "'p api_env \<Rightarrow> http_request \<Rightarrow> 'p desk \<Rightarrow> (exn + http_reply) \<times> 'p desk" where
  "api_create_task A r w =
     (let d = body_of A r; goal = strip (field_str d ''goal'' []) in
      if goal = [] then (Inr (reply_error 422 ''Podaj cel zadania'' []), w)
      else case criteria_of (payload_get d ''criteria'' (PList [])) of
        Inl x \<Rightarrow> (Inl x, w)
      | Inr criteria \<Rightarrow>
          (case submit (ae_fresh A) (ae_now A) goal criteria (field_str d ''origin'' ''user'') (field_str d ''target'' ''local'')
                  None [] (ds_sup w\<lparr>sv_bus := ds_bus w\<rparr>) of
             Inl e \<Rightarrow> (Inl (Garis e), w)
           | Inr (t, s) \<Rightarrow>
               (Inr (reply_ok (PDict (fold (\<lambda>(k, v) d. dict_set k v d) (task_view A False t)
                  [(''task_id'', PStr (tk_id t)), (''id'', PStr (tk_id t))])) 201),
                w\<lparr>ds_sup := s, ds_bus := sv_bus s\<rparr>)))"

definition api_task :: "'p api_env \<Rightarrow> http_request \<Rightarrow> 'p desk \<Rightarrow> (exn + http_reply) \<times> 'p desk" where
  "api_task A r w =
     (let db = sv_db (ds_sup w) in
      case task_get (param r ''id'') db of
        None \<Rightarrow> (Inr (reply_error 404 ''Nie ma takiego zadania'' []), w)
      | Some t \<Rightarrow>
          (Inr (reply_ok (PDict (task_view A True t @
             [(''steps'', PList (map (\<lambda>s. PDict (step_row_to_dict (ae_show A) s)) (steps_for (tk_id t) db))),
              (''approvals'', PList (map (\<lambda>a. PDict (approval_to_dict (float_val A) a)) (ap_pending (Some (tk_id t)) (ds_broker w))))])) 200), w))"

definition api_stop_task :: "'p api_env \<Rightarrow> http_request \<Rightarrow> 'p desk \<Rightarrow> (exn + http_reply) \<times> 'p desk" where
  "api_stop_task A r w =
     (case on_sup (stop (ae_now A) (param r ''id'')) w of
        (stopped, w') \<Rightarrow> (Inr (reply_ok (PDict [(''stopped'', PBool stopped)]) 200), w'))"

definition api_resume_task :: "'p api_env \<Rightarrow> http_request \<Rightarrow> 'p desk \<Rightarrow> (exn + http_reply) \<times> 'p desk" where
  "api_resume_task A r w =
     (case on_sup (resume (ae_now A) (param r ''id'')) w of
        (Inl x, w') \<Rightarrow> (Inl x, w')
      | (Inr t, w') \<Rightarrow> (Inr (reply_ok (PDict (task_view A False t)) 200), w'))"

subsection \<open>Approvals\<close>

definition approval_view :: "'p api_env \<Rightarrow> approval \<Rightarrow> pyval" where
  "approval_view A a = PDict (approval_to_dict (float_val A) a)"

definition api_approvals :: "'p api_env \<Rightarrow> http_request \<Rightarrow> 'p desk \<Rightarrow> (exn + http_reply) \<times> 'p desk" where
  "api_approvals A r w =
     (Inr (reply_ok (PDict [(''approvals'', PList (map (approval_view A) (ap_pending None (ds_broker w))))]) 200), w)"

definition api_resolve_approval :: "'p api_env \<Rightarrow> http_request \<Rightarrow> 'p desk \<Rightarrow> (exn + http_reply) \<times> 'p desk" where
  "api_resolve_approval A r w =
     (let d = body_of A r; approved = truthy (payload_get d ''approved'' (PBool False)) in
      case ap_resolve (ae_now A) (param r ''id'') approved (field_str d ''by'' ''ui'') (ds_broker w\<lparr>br_bus := ds_bus w\<rparr>) of
        Inl e \<Rightarrow> (Inl (Garis e), w)
      | Inr (a, b) \<Rightarrow>
          let w1 = w\<lparr>ds_broker := b, ds_bus := br_bus b\<rparr>;
              answer = (Inr (reply_ok (approval_view A a) 200), w1)
          in case ap_task a of
               None \<Rightarrow> answer
             | Some i \<Rightarrow>
                 if i = [] then answer
                 else (case on_sup (resume (ae_now A) i) w1 of
                     (Inl x, w2) \<Rightarrow> (Inl x, w2)
                   | (Inr t, w2) \<Rightarrow> (Inr (reply_ok (approval_view A a) 200), w2)))"

subsection \<open>Memory\<close>

definition memory_view :: "'p api_env \<Rightarrow> memory_record \<Rightarrow> pyval" where
  "memory_view A m = PDict (memory_to_dict (float_val A) True m)"

definition stats_view :: "memory \<Rightarrow> pyval" where
  "stats_view m =
     (case memory_stats m of (n, kinds, pinned) \<Rightarrow>
        PDict [(''total'', PInt (int n)), (''by_kind'', PDict (map (\<lambda>(k, c). (memory_kind_value k, PInt (int c))) kinds)),
               (''pinned'', PInt (int pinned))])"

definition api_memory :: "'p api_env \<Rightarrow> http_request \<Rightarrow> 'p desk \<Rightarrow> (exn + http_reply) \<times> 'p desk" where
  "api_memory A r w =
     (let query = strip (str_get (rq_query r) ''query'' []) in
      case query_int r ''limit'' ''100'' of
        Inl x \<Rightarrow> (Inl x, w)
      | Inr n \<Rightarrow>
          (case (if query \<noteq> [] then on_memory (memory_search (ae_memory A) (ae_now A) query n) w
                 else (memory_list (ae_memory A) (ae_now A) (map_option PStr (map_of (rq_query r) ''kind'')) None None n False
                   (ds_memory w), w)) of
             (Inl x, w') \<Rightarrow> (Inl x, w')
           | (Inr rs, w') \<Rightarrow>
               (Inr (reply_ok (PDict [(''memories'', PList (map (memory_view A) rs)), (''stats'', stats_view (ds_memory w'))]) 200), w')))"

definition is_secret_refusal :: "exn \<Rightarrow> garis_error option" where
  "is_secret_refusal x =
     (case x of Garis e \<Rightarrow> if is_subclass (ge_class e) SecretNotAllowed then Some e else None | _ \<Rightarrow> None)"

definition api_remember :: "'p api_env \<Rightarrow> http_request \<Rightarrow> 'p desk \<Rightarrow> (exn + http_reply) \<times> 'p desk" where
  "api_remember A r w =
     (let d = body_of A r; content = strip (field_str d ''content'' []); tags = payload_get d ''tags'' (PList []) in
      if content = [] then (Inr (reply_error 422 (''Podaj tre'' @ pl_s @ pl_c @ '' do zapami'' @ pl_e @ ''tania'') []), w)
      else case py_iter tags of
        None \<Rightarrow> (Inl (not_iterable tags), w)
      | Some ts \<Rightarrow>
          (case on_memory (remember (ae_memory A) (ae_fresh A) (ae_nonce A) (ae_now A) content
              (plain_args\<lparr>ra_kind := payload_get d ''kind'' (PStr (memory_kind_value FACT)), ra_subject := field_str d ''subject'' [],
                 ra_tags := map py_str ts, ra_scope := payload_get d ''scope'' (PStr ''permanent'')\<rparr>)) w of
             (Inl x, w') \<Rightarrow>
               (case is_secret_refusal x of
                  Some e \<Rightarrow> (Inr (reply_error 409 (explain e) (ge_message e)), w')
                | None \<Rightarrow> (Inl x, w'))
           | (Inr m, w') \<Rightarrow> (Inr (reply_ok (memory_view A m) 201), w')))"

definition pinned_value :: "pyval \<Rightarrow> exn + bool option" where
  "pinned_value v = (case v of PNone \<Rightarrow> Inr None | PBool b \<Rightarrow> Inr (Some b) | _ \<Rightarrow> Inl (PyExn ''TypeError'' ''pinned''))"

definition api_correct_memory :: "'p api_env \<Rightarrow> http_request \<Rightarrow> 'p desk \<Rightarrow> (exn + http_reply) \<times> 'p desk" where
  "api_correct_memory A r w =
     (let d = body_of A r in
      case pinned_value (payload_get d ''pinned'' PNone) of
        Inl x \<Rightarrow> (Inl x, w)
      | Inr pinned \<Rightarrow>
          (case on_memory (memory_update (ae_memory A) (ae_nonce A) (ae_now A) (param r ''id'')
              (no_change\<lparr>ch_content := payload_get d ''content'' PNone, ch_subject := payload_get d ''subject'' PNone,
                 ch_tags := payload_get d ''tags'' PNone, ch_pinned := pinned\<rparr>)) w of
             (Inl x, w') \<Rightarrow> (Inl x, w')
           | (Inr m, w') \<Rightarrow> (Inr (reply_ok (memory_view A m) 200), w')))"

definition api_forget :: "'p api_env \<Rightarrow> http_request \<Rightarrow> 'p desk \<Rightarrow> (exn + http_reply) \<times> 'p desk" where
  "api_forget A r w =
     (case on_memory (forget (ae_memory A) (ae_now A) (param r ''id'')) w of
        (Inl x, w') \<Rightarrow> (Inl x, w')
      | (Inr gone, w') \<Rightarrow> (Inr (reply_ok (PDict [(''forgotten'', PBool gone)]) 200), w'))"

subsection \<open>Vault\<close>

definition secret_view :: "'p api_env \<Rightarrow> secret_info \<Rightarrow> pyval" where
  "secret_view A s =
     PDict [(''name'', PStr (si_name s)), (''kind'', PStr (si_kind s)), (''note'', PStr (si_note s)),
            (''created_at'', float_val A (si_created_at s)), (''updated_at'', float_val A (si_updated_at s)),
            (''used_at'', case si_used_at s of None \<Rightarrow> PNone | Some t \<Rightarrow> float_val A t),
            (''use_count'', PInt (int (si_use_count s))), (''ref'', PStr (REF_PREFIX @ si_name s))]"

definition vault_of :: "'p desk \<Rightarrow> vault option" where
  "vault_of w = mm_vault (ds_memory w)"

definition api_vault :: "'p api_env \<Rightarrow> http_request \<Rightarrow> 'p desk \<Rightarrow> (exn + http_reply) \<times> 'p desk" where
  "api_vault A r w =
     (Inr (reply_ok (PDict [(''secrets'',
        PList (case vault_of w of None \<Rightarrow> [] | Some v \<Rightarrow> map (secret_view A) (vault_list v)))]) 200), w)"

definition reload_providers :: "'p api_env \<Rightarrow> string \<Rightarrow> 'p desk \<Rightarrow> (exn + unit) \<times> 'p desk" where
  "reload_providers A reason w =
     (case ae_reload A reason (ss_config (ds_settings w)) (ds_models w, vault_of w, ds_bus w) of
        (res, p, v, b) \<Rightarrow> (res, w\<lparr>ds_models := p, ds_memory := ds_memory w\<lparr>mm_vault := v\<rparr>, ds_bus := b\<rparr>))"

definition api_store_secret :: "'p api_env \<Rightarrow> http_request \<Rightarrow> 'p desk \<Rightarrow> (exn + http_reply) \<times> 'p desk" where
  "api_store_secret A r w =
     (let d = body_of A r; name = strip (field_str d ''name'' []); val = field_str d ''value'' [] in
      if name = [] \<or> val = [] then (Inr (reply_error 422 (''Podaj nazw'' @ pl_e @ '' i warto'' @ pl_s @ pl_c) []), w)
      else case on_memory (remember_secret (ae_memory A) (ae_fresh A) (ae_nonce A) (ae_nonce2 A) (ae_now A) name val
          (field_str d ''note'' []) ''token'') w of
        (Inl x, w1) \<Rightarrow> (Inl x, w1)
      | (Inr ref, w1) \<Rightarrow>
          (case reload_providers A ''vault'' w1 of
             (Inl x, w2) \<Rightarrow> (Inl x, w2)
           | (Inr u, w2) \<Rightarrow>
               (Inr (reply_ok (PDict [(''ref'', PStr ref), (''name'', PStr name), (''providers'', ae_providers A (ds_models w2))]) 201), w2)))"

definition delete_from_vault :: "instant \<Rightarrow> string \<Rightarrow> memory \<Rightarrow> (exn + bool) \<times> memory" where
  "delete_from_vault now name m =
     (case mm_vault m of None \<Rightarrow> (Inr False, m) | Some v \<Rightarrow> with_vault (vault_delete now name) v m)"

definition api_delete_secret :: "'p api_env \<Rightarrow> http_request \<Rightarrow> 'p desk \<Rightarrow> (exn + http_reply) \<times> 'p desk" where
  "api_delete_secret A r w =
     (case on_memory (delete_from_vault (ae_now A) (param r ''name'')) w of
        (Inl x, w1) \<Rightarrow> (Inl x, w1)
      | (Inr deleted, w1) \<Rightarrow>
          (case (if deleted then reload_providers A ''vault'' w1 else (Inr (), w1)) of
             (Inl x, w2) \<Rightarrow> (Inl x, w2)
           | (Inr u, w2) \<Rightarrow> (Inr (reply_ok (PDict [(''deleted'', PBool deleted)]) 200), w2)))"

subsection \<open>Settings\<close>

definition api_config :: "'p api_env \<Rightarrow> http_request \<Rightarrow> 'p desk \<Rightarrow> (exn + http_reply) \<times> 'p desk" where
  "api_config A r w = (Inr (reply_ok (asdict (ss_config (ds_settings w))) 200), w)"

definition shown_setting :: "'p api_env \<Rightarrow> conf \<Rightarrow> pyval" where
  "shown_setting A c = (case c of CData g cl fs \<Rightarrow> PObj cl (ae_repr A c) | CVal v \<Rightarrow> v | CMap es \<Rightarrow> asdict c)"

definition api_patch_config :: "'p api_env \<Rightarrow> http_request \<Rightarrow> 'p desk \<Rightarrow> (exn + http_reply) \<times> 'p desk" where
  "api_patch_config A r w =
     (let d = body_of A r in
      case apply_settings (ae_to_float A) (ae_now A) (ae_disk_ok A) d ''user'' (ds_settings w, ds_bus w) of
        (Inl x, S, b) \<Rightarrow> (Inl x, w\<lparr>ds_settings := S, ds_bus := b\<rparr>)
      | (Inr paths, S, b) \<Rightarrow>
          let w1 = w\<lparr>ds_settings := S, ds_bus := b\<rparr> in
          (case (if list_ex (prefix ''models'') paths then reload_providers A ''config'' w1 else (Inr (), w1)) of
             (Inl x, w2) \<Rightarrow> (Inl x, w2)
           | (Inr u, w2) \<Rightarrow>
               (case try_map (\<lambda>k. map_sum id (\<lambda>c. (k, shown_setting A c)) (conf_get k (ss_config S))) (map fst d) of
                  Inl x \<Rightarrow> (Inl x, w2)
                | Inr changed \<Rightarrow>
                    (Inr (reply_ok (PDict [(''changed'', PDict changed), (''paths'', PList (map PStr paths))]) 200),
                     w2\<lparr>ds_bus := emit (ae_now A) (topic_name NOTICE)
                       [(''message'', EvVal (PStr ''Ustawienia zapisane'')), (''importance'', EvVal (PInt 1)),
                        (''silent'', EvVal (PBool True))] (ds_bus w2)\<rparr>))))"

subsection \<open>The token\<close>

definition TOKEN_SECRET_NAME :: string where "TOKEN_SECRET_NAME = ''api_token''"

definition token_name :: "string \<Rightarrow> string" where
  "token_name token_ref =
     (let ref = (if token_ref \<noteq> [] then token_ref else REF_PREFIX @ TOKEN_SECRET_NAME)
      in if prefix REF_PREFIX ref then ref_name ref else ref)"

text \<open>\<open>ensure_token\<close>; \<open>minted\<close> is what \<open>secrets.token_urlsafe\<close> gives.\<close>

definition ensure_token ::
  "seal \<Rightarrow> unseal \<Rightarrow> string \<Rightarrow> string \<Rightarrow> instant \<Rightarrow> string \<Rightarrow> vault \<Rightarrow> (exn + string) \<times> vault" where
  "ensure_token seal unseal minted nonce now token_ref v =
     (let name = token_name token_ref in
      case vault_get_optional unseal now name v of
        (Inl x, v1) \<Rightarrow> (Inl x, v1)
      | (Inr found, v1) \<Rightarrow>
          if found \<noteq> None \<and> found \<noteq> Some [] then (Inr (the found), v1)
          else (case vault_set seal nonce now name minted ''token'' ''Token lokalnego API GARIS-a'' v1 of
              (Inl x, v2) \<Rightarrow> (Inl x, v2)
            | (Inr info, v2) \<Rightarrow> (Inr minted, v2)))"

subsection \<open>The table\<close>

definition api_handler :: "'p api_env \<Rightarrow> 'p desk http_handler" where
  "api_handler A e r w =
     (case e of
        EpTasks \<Rightarrow> api_tasks A r w | EpCreateTask \<Rightarrow> api_create_task A r w | EpTask \<Rightarrow> api_task A r w
      | EpStopTask \<Rightarrow> api_stop_task A r w | EpResumeTask \<Rightarrow> api_resume_task A r w
      | EpApprovals \<Rightarrow> api_approvals A r w | EpResolveApproval \<Rightarrow> api_resolve_approval A r w
      | EpMemory \<Rightarrow> api_memory A r w | EpRemember \<Rightarrow> api_remember A r w | EpCorrectMemory \<Rightarrow> api_correct_memory A r w
      | EpForget \<Rightarrow> api_forget A r w | EpVault \<Rightarrow> api_vault A r w | EpStoreSecret \<Rightarrow> api_store_secret A r w
      | EpDeleteSecret \<Rightarrow> api_delete_secret A r w | EpConfig \<Rightarrow> api_config A r w | EpPatchConfig \<Rightarrow> api_patch_config A r w
      | _ \<Rightarrow> ae_rest A e r w)"

subsection \<open>Reloading the pool\<close>

text \<open>\<open>config.models.providers\<close> as the pool reads it. An entry that is not a \<open>ProviderConfig\<close> has no
  \<open>key_ref\<close>; one whose fields have other types than declared is an error in the model.\<close>

definition provider_config_of :: "conf \<Rightarrow> exn + provider_config" where
  "provider_config_of c =
     (case c of
        CData g cl fs \<Rightarrow>
          (case map (map_of fs) [''enabled'', ''key_ref'', ''base_url'', ''monthly_budget''] of
             [Some (CVal (PBool e)), Some (CVal (PStr ref)), Some (CVal (PStr url)), Some (CVal (PFloat m t))] \<Rightarrow>
               Inr \<lparr>pc_enabled = e, pc_key_ref = ref, pc_base_url = url, pc_monthly_budget = m\<rparr>
           | _ \<Rightarrow> Inl (PyExn ''TypeError'' cl))
      | _ \<Rightarrow> Inl (PyExn ''AttributeError'' ''key_ref''))"

definition providers_in :: "conf \<Rightarrow> exn + (string \<times> provider_config) list" where
  "providers_in c =
     (case conf_get ''models.providers'' c of
        Inl x \<Rightarrow> Inl x
      | Inr (CMap es) \<Rightarrow> try_map (\<lambda>(n, x). map_sum id (Pair n) (provider_config_of x)) es
      | Inr x \<Rightarrow> Inl (PyExn ''AttributeError'' ''items''))"

text \<open>\<open>Garis.reload_providers\<close>: \<open>ProviderPool.rebuild\<close> with its check; \<open>later\<close> are the answers of the health
  probes, \<open>probe\<close> what a local daemon says of its models.\<close>

definition pool_reload ::
  "(string \<Rightarrow> string) \<Rightarrow> (string \<Rightarrow> string \<Rightarrow> string \<Rightarrow> provider) \<Rightarrow> unseal \<Rightarrow> (provider \<Rightarrow> provider) \<Rightarrow> (provider \<Rightarrow> probed) \<Rightarrow>
   (nat \<times> instant \<times> (exn + http_response)) list \<Rightarrow> instant \<Rightarrow> string \<Rightarrow> conf \<Rightarrow>
   pool \<times> vault option \<times> bus \<Rightarrow> (exn + unit) \<times> pool \<times> vault option \<times> bus" where
  "pool_reload digest adapter unseal probe view later now reason c w =
     (case w of (P, v, b) \<Rightarrow>
        (case providers_in c of
           Inl x \<Rightarrow> (Inl x, P, v, b)
         | Inr ps \<Rightarrow>
             (case rebuild digest adapter unseal now reason (P\<lparr>po_providers := ps\<rparr>, v, b) of
                (Inl x, P1, v1, b1) \<Rightarrow> (Inl x, P1, v1, b1)
              | (Inr u, P1, v1, b1) \<Rightarrow>
                  (case refresh view False now later (probe_all probe P1, b1) of (hs, P2, b2) \<Rightarrow> (Inr (), P2, v1, b2)))))"

subsection \<open>Answering an approval\<close>

lemma resume_task:
  assumes "resume now i s = (res, s')"
  shows "case task_get i (sv_db s) of
      None \<Rightarrow> res = Inl (PyExn ''KeyError'' i) \<and> s' = s
    | Some t \<Rightarrow>
        (\<exists>t'. res = Inr t') \<and> (\<forall>j. j \<noteq> i \<longrightarrow> task_get j (sv_db s') = task_get j (sv_db s)) \<and>
        (if tk_state t = T_BLOCKED \<or> tk_state t = T_PENDING then state_in s' i = Some T_PENDING \<and> alive s' i else s' = s)"
proof (cases "task_get i (sv_db s)")
  case None
  then show ?thesis using assms by (simp add: resume_def task_require_def)
next
  case (Some t)
  then show ?thesis using assms
    by (auto simp: resume_def task_require_def Let_def get_set_state state_in_def alive_def phase_launch split: if_splits)
qed

lemma sup_without_bus [simp]:
  "sv_db (s\<lparr>sv_bus := b\<rparr>) = sv_db s" "state_in (s\<lparr>sv_bus := b\<rparr>) i = state_in s i"
  "sv_running (s\<lparr>sv_bus := b\<rparr>) = sv_running s"
  by (simp_all add: state_in_def)

definition given_answer :: "'p api_env \<Rightarrow> http_request \<Rightarrow> approval \<Rightarrow> approval" where
  "given_answer A r a =
     a\<lparr>ap_state := (if truthy (payload_get (body_of A r) ''approved'' (PBool False)) then AP_APPROVED else AP_DENIED),
       ap_resolved_at := Some (ae_now A), ap_resolved_by := Some (field_str (body_of A r) ''by'' ''ui'')\<rparr>"

lemma given_answer_task [simp]: "ap_task (given_answer A r a) = ap_task a"
  by (simp add: given_answer_def)

lemma resolve_existing:
  assumes "row_by ap_id i (br_rows b) = Some row"
    and "ap_resolve now i yes who b = Inr (a, b')"
  shows "a = row\<lparr>ap_state := (if yes then AP_APPROVED else AP_DENIED), ap_resolved_at := Some now, ap_resolved_by := Some who\<rparr> \<and>
    row_by ap_id i (br_rows b') = Some a \<and> (\<forall>j. j \<noteq> i \<longrightarrow> row_by ap_id j (br_rows b') = row_by ap_id j (br_rows b))"
  using assms by (auto simp: ap_resolve_def Let_def row_by_update_key)


subsection \<open>A stored key reaches its provider\<close>

lemma optional_frame:
  "vault_get_optional unseal now name v = (res, v') \<Longrightarrow> secret_of unseal v' = secret_of unseal v"
  using vault_get_frame [of unseal unseal now name v]
  by (auto simp: vault_get_optional_def split: prod.splits sum.splits if_splits)

lemma optional_held:
  assumes "clean_name name = Inr n" and "secret_of unseal v n = Some (Inr k)"
  shows "\<exists>v'. vault_get_optional unseal now name v = (Inr (Some k), v') \<and> secret_of unseal v' = secret_of unseal v"
proof -
  obtain res v' where g: "vault_get unseal now name v = (res, v')" by fastforce
  with get_secret(1) [OF assms(1), of unseal now v] assms(2) have "res = Inr k" by simp
  with g vault_get_frame [of unseal unseal now name v] show ?thesis by (simp add: vault_get_optional_def)
qed

lemma resolve_frame:
  "resolve_key unseal now s (Some v) = (res, v') \<Longrightarrow> \<exists>u. v' = Some u \<and> secret_of unseal u = secret_of unseal v"
  by (auto simp: resolve_key_def Let_def dest: optional_frame split: if_splits prod.splits)

lemma signature_frame:
  "signature_key unseal now s (Some v) = (res, v') \<Longrightarrow> \<exists>u. v' = Some u \<and> secret_of unseal u = secret_of unseal v"
  by (auto simp: signature_key_def Let_def dest: optional_frame split: if_splits prod.splits)

lemma signatures_frame:
  "signatures_now digest unseal now ss acc (Some v) = (res, v') \<Longrightarrow> \<exists>u. v' = Some u \<and> secret_of unseal u = secret_of unseal v"
proof (induction ss arbitrary: acc v)
  case (Cons x ss)
  obtain raw s where x: "x = (raw, s)" by fastforce
  obtain r v1 where k: "signature_key unseal now s (Some v) = (r, v1)" by fastforce
  from signature_frame [OF k] obtain u where u: "v1 = Some u" "secret_of unseal u = secret_of unseal v" by blast
  show ?case
  proof (cases r)
    case (Inl e)
    with Cons.prems k u x show ?thesis by auto
  next
    case (Inr key)
    from Cons.prems have "signatures_now digest unseal now ss (dict_set (resolve_provider_name raw) (digest (signature_material s key)) acc) (Some u) = (res, v')"
      by (simp add: x k Inr u(1))
    from Cons.IH [OF this] show ?thesis by (simp add: u(2))
  qed
qed auto

definition keyed_cloud :: "string \<Rightarrow> provider_config \<Rightarrow> string \<Rightarrow> bool" where
  "keyed_cloud raw s n =
     (pc_enabled s \<and> resolve_provider_name raw \<in> set CLOUD_BUILDERS \<and> prefix REF_PREFIX (pc_key_ref s) \<and>
      clean_name (ref_name (pc_key_ref s)) = Inr n)"

lemma not_ollama: "resolve_provider_name raw \<in> set CLOUD_BUILDERS \<Longrightarrow> resolve_provider_name raw \<noteq> ''ollama''"
  by (auto simp: CLOUD_BUILDERS_def)

lemma built_from_the_vault:
  assumes "build_providers adapter unseal now ss fake (Some v) = (Inr ps, v')" and "(raw, s) \<in> set ss"
    and "keyed_cloud raw s n" and "secret_of unseal v n = Some (Inr k)" "k \<noteq> []"
  shows "adapter (resolve_provider_name raw) k (pc_base_url s) \<in> set ps"
  using assms(1,2,4)
proof (induction ss arbitrary: v ps v')
  case (Cons x ss)
  obtain raw' s' where x: "x = (raw', s')" by fastforce
  let ?n = "resolve_provider_name raw'"
  show ?case
  proof (cases "x = (raw, s)")
    case True
    with assms(3) have c: "pc_enabled s'" "?n \<in> set CLOUD_BUILDERS" "prefix REF_PREFIX (pc_key_ref s')" "pc_key_ref s' \<noteq> []"
      "clean_name (ref_name (pc_key_ref s')) = Inr n" by (auto simp: x keyed_cloud_def REF_PREFIX_def)
    from optional_held [OF c(5) Cons.prems(3), of now] obtain u where
      "vault_get_optional unseal now (ref_name (pc_key_ref s')) v = (Inr (Some k), u)" by blast
    then have "resolve_key unseal now s' (Some v) = (Inr (Some k), Some u)" using c by (simp add: resolve_key_def Let_def)
    with Cons.prems(1) c not_ollama [OF c(2)] assms(5) True show ?thesis
      by (auto simp: x Let_def map_sum_Inr_iff split: prod.splits)
  next
    case False
    with Cons.prems(2) have later: "(raw, s) \<in> set ss" by auto
    show ?thesis
    proof (cases "pc_enabled s' \<and> ?n \<noteq> ''ollama'' \<and> ?n \<in> set CLOUD_BUILDERS")
      case True
      obtain r v1 where k: "resolve_key unseal now s' (Some v) = (r, v1)" by fastforce
      from resolve_frame [OF k] obtain u where u: "v1 = Some u" "secret_of unseal u = secret_of unseal v" by blast
      have "\<exists>qs v2. build_providers adapter unseal now ss fake (Some u) = (Inr qs, v2) \<and> set qs \<subseteq> set ps"
        using Cons.prems(1) True k u(1)
        by (auto simp: x Let_def map_sum_Inr_iff split: prod.splits sum.splits option.splits if_splits)
      then show ?thesis using Cons.IH [OF _ later] Cons.prems(3) u(2) by auto
    next
      case False
      then have "\<exists>qs v2. build_providers adapter unseal now ss fake (Some v) = (Inr qs, v2) \<and> set qs \<subseteq> set ps"
        using Cons.prems(1) by (auto simp: x Let_def map_sum_Inr_iff split: prod.splits sum.splits if_splits)
      then show ?thesis using Cons.IH [OF _ later Cons.prems(3)] by auto
    qed
  qed
qed simp

lemma rebuilt_from_the_vault:
  assumes "rebuild digest adapter unseal now reason (P, Some v, b) = (Inr u, P', v', b')"
    and "(raw, s) \<in> set (configured (po_providers P))" "keyed_cloud raw s n" "secret_of unseal v n = Some (Inr k)" "k \<noteq> []"
  shows "adapter (resolve_provider_name raw) k (pc_base_url s) \<in> set (mr_providers (po_router P'))"
proof -
  let ?ss = "configured (po_providers P)"
  obtain sigs v1 where sigs: "signatures_now digest unseal now ?ss [] (Some v) = (Inr sigs, v1)"
    using assms(1) by (auto simp: rebuild_def Let_def split: prod.splits sum.splits)
  from signatures_frame [OF sigs] obtain w where w: "v1 = Some w" "secret_of unseal w = secret_of unseal v" by blast
  obtain ps v2 where ps: "build_providers adapter unseal now ?ss (po_fake P) (Some w) = (Inr ps, v2)"
    and P': "mr_providers (po_router P') = ps"
    using assms(1) sigs w(1) by (auto simp: rebuild_def Let_def replace_providers_def split: prod.splits sum.splits)
  from built_from_the_vault [OF ps assms(2,3) _ assms(5)] assms(4) w(2) P' show ?thesis by simp
qed

lemma refresh_providers [simp]:
  "refresh view force now later (P, b) = (hs, P', b') \<Longrightarrow> mr_providers (po_router P') = mr_providers (po_router P)"
  by (auto simp: refresh_def Let_def split: option.splits prod.splits)

lemma reloaded_from_the_vault:
  assumes "pool_reload digest adapter unseal probe view later now reason c (P, Some v, b) = (Inr u, P', v', b')"
    and "providers_in c = Inr ps" "(raw, s) \<in> set (configured ps)" "keyed_cloud raw s n" "secret_of unseal v n = Some (Inr k)" "k \<noteq> []"
  shows "probe (adapter (resolve_provider_name raw) k (pc_base_url s)) \<in> set (mr_providers (po_router P'))"
proof -
  obtain P1 v1 b1 where r: "rebuild digest adapter unseal now reason (P\<lparr>po_providers := ps\<rparr>, Some v, b) = (Inr (), P1, v1, b1)"
    and f: "mr_providers (po_router P') = map probe (mr_providers (po_router P1))"
    using assms(1,2) by (auto simp: pool_reload_def probe_all_def split: prod.splits sum.splits)
  from rebuilt_from_the_vault [OF r _ assms(4-6)] assms(3) f show ?thesis by simp
qed

lemma remember_secret_stores:
  assumes "opens (me_seal E) (me_unseal E)" "clean_name name = Inr n" "clean_name n = Inr n"
    and "remember_secret E fresh nonce nonce' now name val note kind m = (Inr ref, m')"
  shows "\<exists>v. mm_vault m' = Some v \<and> secret_of (me_unseal E) v n = Some (Inr val)"
proof -
  from assms(4) obtain v where v: "mm_vault m = Some v" by (auto simp: remember_secret_def split: option.splits)
  obtain res v1 where s: "vault_set (me_seal E) nonce now name val kind note (v\<lparr>vt_bus := mm_bus m\<rparr>) = (res, v1)" by fastforce
  with set_secret [OF assms(1-3), of nonce now val kind "note" "v\<lparr>vt_bus := mm_bus m\<rparr>"]
  have h: "secret_of (me_unseal E) v1 n = Some (Inr val)" by simp
  have "mm_vault m' = Some v1"
    using assms(4) v s
    by (auto simp: remember_secret_def with_vault_def remember_def Let_def memory_notify_def insert_record_def
        split: prod.splits sum.splits option.splits if_splits)
  with h show ?thesis by blast
qed

text \<open>C36: A key stored over the API works at once. When a configured, enabled cloud provider takes its key
  from the vault entry the request names and the reply is 201, the router's providers contain that
  provider built with exactly the value that was sent.\<close>

theorem stored_key_reaches_its_provider:
  assumes "ae_reload A = pool_reload digest adapter (me_unseal (ae_memory A)) probe view later (ae_now A)"
    and "opens (me_seal (ae_memory A)) (me_unseal (ae_memory A))"
    and "providers_in (ss_config (ds_settings w)) = Inr ps" "(raw, s) \<in> set (configured ps)" "keyed_cloud raw s n"
    and "clean_name (strip (field_str (body_of A r) ''name'' [])) = Inr n" "clean_name n = Inr n"
    and "api_store_secret A r w = (Inr reply, w')" "http_reply.hr_status reply = 201"
  shows "probe (adapter (resolve_provider_name raw) (field_str (body_of A r) ''value'' []) (pc_base_url s))
    \<in> set (mr_providers (po_router (ds_models w')))"
proof -
  let ?name = "strip (field_str (body_of A r) ''name'' [])" and ?val = "field_str (body_of A r) ''value'' []"
  let ?note = "field_str (body_of A r) ''note'' []"
  have asked: "?name \<noteq> [] \<and> ?val \<noteq> []"
    using assms(8,9) by (auto simp: api_store_secret_def Let_def reply_error_def split: if_splits)
  obtain res m where m: "remember_secret (ae_memory A) (ae_fresh A) (ae_nonce A) (ae_nonce2 A) (ae_now A) ?name ?val ?note ''token''
      (ds_memory w\<lparr>mm_bus := Some (ds_bus w)\<rparr>) = (res, m)" by fastforce
  have "\<exists>ref. res = Inr ref"
    using assms(8) asked m by (auto simp: api_store_secret_def Let_def on_memory_def split: sum.splits)
  then obtain ref where ref: "res = Inr ref" ..
  from remember_secret_stores [OF assms(2,6,7)] m ref obtain v where
    v: "mm_vault m = Some v" "secret_of (me_unseal (ae_memory A)) v n = Some (Inr ?val)" by blast
  define b where "b = (case mm_bus m of None \<Rightarrow> ds_bus w | Some b \<Rightarrow> b)"
  obtain out P' v' b' where reload: "pool_reload digest adapter (me_unseal (ae_memory A)) probe view later (ae_now A) ''vault''
      (ss_config (ds_settings w)) (ds_models w, Some v, b) = (out, P', v', b')" by (metis surj_pair)
  from assms(8) asked m ref v(1) reload have "out = Inr ()" "ds_models w' = P'"
    by (auto simp: api_store_secret_def Let_def on_memory_def reload_providers_def assms(1) vault_of_def b_def
        split: sum.splits)
  with reloaded_from_the_vault [OF _ assms(3,4,5) v(2)] reload asked show ?thesis by auto
qed

subsection \<open>The token is minted once\<close>

text \<open>The token of one start is the token of the next, whatever would have been minted then.\<close>

lemma token_is_minted_once:
  assumes "opens seal unseal" "clean_name (token_name token_ref) = Inr n" "clean_name n = Inr n" "minted \<noteq> []"
    and "ensure_token seal unseal minted nonce now token_ref v = (Inr t, v1)"
  shows "fst (ensure_token seal unseal minted' nonce' now' token_ref v1) = Inr t \<and> t \<noteq> []"
proof -
  let ?name = "token_name token_ref"
  have held: "secret_of unseal v1 n = Some (Inr t) \<and> t \<noteq> []"
  proof -
    obtain found u where g: "vault_get_optional unseal now ?name v = (Inr found, u)"
      using assms(5) by (auto simp: ensure_token_def Let_def split: prod.splits sum.splits)
    have got: "vault_get_optional unseal now ?name v = (Inr found, u) \<Longrightarrow> found \<noteq> None \<Longrightarrow> secret_of unseal u n = Some (Inr (the found))"
      using get_secret(1) [OF assms(2), of unseal now v] vault_get_frame [of unseal unseal now ?name v]
      by (auto simp: vault_get_optional_def split: prod.splits sum.splits if_splits option.splits)
    note put = set_secret [OF assms(1-3), of nonce now minted "''token''" "''Token lokalnego API GARIS-a''" u]
    show ?thesis using put assms(4,5) g got
      by (auto simp: ensure_token_def Let_def split: prod.splits sum.splits if_splits)
  qed
  from optional_held [OF assms(2) conjunct1 [OF held], of now'] held show ?thesis
    by (auto simp: ensure_token_def Let_def)
qed

subsection \<open>Looking changes nothing\<close>

text \<open>A desk without the counters that searching keeps, and with its bus lent to the memory.\<close>

definition unread :: "'p desk \<Rightarrow> 'p desk" where
  "unread w =
     w\<lparr>ds_memory := ds_memory w
        \<lparr>mm_bus := Some (ds_bus w), mm_rows := map (\<lambda>r. r\<lparr>my_used_at := None, my_use_count := 0\<rparr>) (mm_rows (ds_memory w))\<rparr>\<rparr>"

definition LOOKING :: "endpoint list" where
  "LOOKING = [EpState, EpProviders, EpDevices, EpTools, EpActivity, EpAudit]"

lemma get_endpoints:
  "t \<in> set ROUTES \<Longrightarrow> rt_method t = ''GET'' \<Longrightarrow>
   rt_endpoint t \<in> {EpHealth, EpTasks, EpTask, EpApprovals, EpMemory, EpVault, EpConfig} \<union> set LOOKING"
  by (auto simp: ROUTES_def route_to_def LOOKING_def)

lemma touch_counts:
  "mm_key (touch_found now rs m) = mm_key m \<and> mm_vault (touch_found now rs m) = mm_vault m \<and>
   mm_bus (touch_found now rs m) = mm_bus m \<and>
   map (\<lambda>r. r\<lparr>my_used_at := None, my_use_count := 0\<rparr>) (mm_rows (touch_found now rs m)) =
   map (\<lambda>r. r\<lparr>my_used_at := None, my_use_count := 0\<rparr>) (mm_rows m)"
  by (induction rs arbitrary: m) (simp_all add: touch_found_def map_update_where)

lemma search_counts:
  assumes "memory_search E now query limit m = (res, m')"
  shows "m' = m \<or> (\<exists>rs. m' = touch_found now rs m)"
  using assms by (auto simp: memory_search_def Let_def split: if_splits sum.splits)

lemma unread_memory:
  assumes "on_memory (memory_search E now query limit) w = (res, w')"
  shows "unread w' = unread w"
proof -
  obtain m where s: "memory_search E now query limit (ds_memory w\<lparr>mm_bus := Some (ds_bus w)\<rparr>) = (res, m)"
    and w': "w' = w\<lparr>ds_memory := m, ds_bus := (case mm_bus m of None \<Rightarrow> ds_bus w | Some b \<Rightarrow> b)\<rparr>"
    using assms by (auto simp: on_memory_def split: prod.splits)
  from search_counts [OF s] have "mm_key m = mm_key (ds_memory w) \<and> mm_vault m = mm_vault (ds_memory w) \<and> mm_bus m = Some (ds_bus w) \<and>
     map (\<lambda>r. r\<lparr>my_used_at := None, my_use_count := 0\<rparr>) (mm_rows m) =
     map (\<lambda>r. r\<lparr>my_used_at := None, my_use_count := 0\<rparr>) (mm_rows (ds_memory w))"
    by (auto simp: touch_counts)
  then show ?thesis by (simp add: unread_def w')
qed

lemma api_memory_unread: "unread (snd (api_memory A r w)) = unread w"
  by (auto simp: api_memory_def Let_def split: sum.splits if_splits prod.splits dest: unread_memory)

text \<open>Looking changes nothing. Whatever a client asks with GET, and whatever the request says, tasks, approvals,
  settings, providers, the vault and the memories are afterwards as they were; only the counters of
  how often a memory was found can move.\<close>

theorem get_changes_nothing:
  assumes "rq_method r = ''GET''" and "\<And>e q v. e \<in> set LOOKING \<Longrightarrow> snd (ae_rest A e q v) = v"
  shows "unread (snd (dispatch (ae_http A) (api_handler A) r w)) = unread w"
proof (cases "find_route ROUTES r")
  case None
  then show ?thesis by (simp add: dispatch_def)
next
  case (Some td)
  obtain t d where td: "td = (t, d)" by fastforce
  have m: "t \<in> set ROUTES" "rt_method t = ''GET''"
    using find_route_in [OF Some [unfolded td]] assms(1) by (auto simp: match_route_def split: if_splits)
  have stays: "unread (snd (call_endpoint (api_handler A) (rt_endpoint t) q w)) = unread w" for q
    using get_endpoints [OF m] assms(2)
    by (auto simp: call_endpoint_def api_handler_def api_tasks_def api_task_def api_approvals_def api_memory_unread api_vault_def
        api_config_def LOOKING_def Let_def split: sum.splits option.splits)
  then show ?thesis by (auto simp: dispatch_def Some td Let_def split: prod.splits sum.splits) (metis snd_conv)+
qed

subsection \<open>Concrete desks\<close>

definition plain_env :: "(string \<Rightarrow> conf \<Rightarrow> 'p \<times> vault option \<times> bus \<Rightarrow> (exn + unit) \<times> 'p \<times> vault option \<times> bus) \<Rightarrow> 'p api_env" where
  "plain_env reload =
     \<lparr>ae_http = sample_http, ae_memory = sample_memory, ae_now = 0, ae_fresh = ''m1'', ae_nonce = [], ae_nonce2 = [],
      ae_disk_ok = True, ae_show = (\<lambda>r. []), ae_to_float = (\<lambda>v. Inr (0, [])), ae_repr = (\<lambda>c. []), ae_reload = reload,
      ae_providers = (\<lambda>p. PNone), ae_rest = (\<lambda>e r w. (Inr health_reply, w))\<rparr>"

definition plain_desk :: "'p \<Rightarrow> 'p desk" where
  "plain_desk p =
     \<lparr>ds_sup = first_supervisor quiet_bus, ds_broker = empty_broker, ds_memory = empty_memory [] None (Some empty_vault),
      ds_settings = fresh_settings, ds_bus = quiet_bus, ds_models = p\<rparr>"

definition sending :: "(string \<times> string) list \<Rightarrow> pydict \<Rightarrow> http_request" where
  "sending params d =
     \<lparr>rq_method = ''POST'', rq_path = [], rq_query = [], rq_headers = [], rq_body = dumps (PDict d), rq_params = params\<rparr>"

definition keyless_pool :: pool where
  "keyless_pool =
     \<lparr>po_router = new_router [] \<lparr>mc_privacy = ''balanced'', mc_allow_cloud = True, mc_monthly_budget = 0\<rparr> False None,
      po_providers = [], po_fake = None, po_bus = False, po_signatures = []\<rparr>"

definition wit_reload :: "string \<Rightarrow> conf \<Rightarrow> pool \<times> vault option \<times> bus \<Rightarrow> (exn + unit) \<times> pool \<times> vault option \<times> bus" where
  "wit_reload =
     pool_reload id (\<lambda>n k u. wit_provider (n @ k) False 1 (Inr wit_done)) clear_unseal id
       (\<lambda>p. \<lparr>pb_name = pv_name p, pb_request = None, pb_available = True\<rparr>) [] 0"

definition asking_approval :: approval where
  "asking_approval =
     \<lparr>ap_id = ''a1'', ap_task = Some ''t1'', ap_tool = ''pay'', ap_prompt = [], ap_effects = [], ap_params = [],
      ap_fingerprint = [], ap_state = AP_PENDING, ap_consumed = False, ap_requested_at = 0, ap_resolved_at = None,
      ap_resolved_by = None\<rparr>"

definition asking_desk :: "unit desk" where
  "asking_desk = plain_desk ()\<lparr>ds_broker := empty_broker\<lparr>br_rows := [asking_approval]\<rparr>, ds_sup := one_queued\<rparr>"

definition storing :: http_request where
  "storing = sending [] [(''name'', PStr ''openai_api_key''), (''value'', PStr ''k1'')]"

lemma stored_reply: "map_sum id http_reply.hr_status (fst (api_store_secret (plain_env wit_reload) storing (plain_desk keyless_pool))) = Inr 201"
  by code_simp

lemma storing_body: "body_of (plain_env wit_reload) storing = [(''name'', PStr ''openai_api_key''), (''value'', PStr ''k1'')]"
  by code_simp


theorem stored_key_reaches_its_provider_witness:
  "\<exists>reply w'. api_store_secret (plain_env wit_reload) storing (plain_desk keyless_pool) = (Inr reply, w') \<and>
     wit_provider ''openaik1'' False 1 (Inr wit_done) \<in> set (mr_providers (po_router (ds_models w')))"
proof -
  let ?A = "plain_env wit_reload" and ?w = "plain_desk keyless_pool" and ?s = "keyed_config ''vault://openai_api_key''"
  obtain reply w' where out: "api_store_secret ?A storing ?w = (Inr reply, w')" "http_reply.hr_status reply = 201"
    using stored_reply by (cases "api_store_secret ?A storing ?w") (auto simp: map_sum_Inr_iff)
  have env: "ae_now ?A = 0" "ae_memory ?A = sample_memory" "me_unseal sample_memory = clear_unseal"
    by (simp_all add: plain_env_def sample_memory_def)
  have ps: "providers_in (ss_config (ds_settings ?w)) = Inr []" by code_simp
  have s: "(''openai'', ?s) \<in> set (configured [])" by (simp add: configured_def default_provider_config_def)
  have key: "keyed_cloud ''openai'' ?s ''openai_api_key''" by code_simp
  have name: "clean_name (strip (field_str (body_of ?A storing) ''name'' [])) = Inr ''openai_api_key''"
    "clean_name ''openai_api_key'' = Inr ''openai_api_key''" by code_simp+
  have reload: "ae_reload ?A = pool_reload id (\<lambda>n k u. wit_provider (n @ k) False 1 (Inr wit_done)) (me_unseal (ae_memory ?A)) id
       (\<lambda>p. \<lparr>pb_name = pv_name p, pb_request = None, pb_available = True\<rparr>) [] (ae_now ?A)"
    by (simp add: env) (simp add: plain_env_def wit_reload_def)
  have opens: "opens (me_seal (ae_memory ?A)) (me_unseal (ae_memory ?A))" by (simp add: env(2) opens_sample)
  have n: "resolve_provider_name ''openai'' = ''openai''" "py_str (PStr ''k1'') = ''k1''" by code_simp+
  from stored_key_reaches_its_provider [OF reload opens ps s key name out]
  show ?thesis using out(1) by (simp add: storing_body n field_str_def payload_get_def)
qed


theorem get_changes_nothing_witness:
  "unread (snd (dispatch sample_http (api_handler (plain_env (\<lambda>g c w. (Inr (), w))))
     \<lparr>rq_method = ''GET'', rq_path = ''/api/vault'', rq_query = [], rq_headers = [], rq_body = [], rq_params = []\<rparr> asking_desk)) =
   unread asking_desk"
proof -
  let ?A = "plain_env (\<lambda>g c w. (Inr (), w)) :: unit api_env"
  have h: "ae_http ?A = sample_http" by (simp add: plain_env_def)
  have rest: "snd (ae_rest ?A e q v) = v" for e q v by (simp add: plain_env_def)
  show ?thesis by (rule get_changes_nothing [of _ ?A, unfolded h]) (simp_all add: rest)
qed

end
