(* ===== verification/Intent.thy ===== *)
theory Intent
  imports SecretScan TextFold Actions
begin

section \<open>Work or conversation (agent/intent.py)\<close>

text \<open>
  The deterministic first pass over what a person says. Regular expressions are the patterns of \<open>SecretScan\<close>, run
  on characters; a word list is in the source's notation, with a blank for \<open>\s+\<close>. What beyond ASCII is a letter or
  a space is a table of the standard library; \<open>ast.parse\<close> with \<open>eval\<close> on a sum is the parameter \<open>ie_eval\<close>.
  A digit beyond ASCII cannot be parsed, so the patterns of sums know the ASCII ones only.
\<close>

subsection \<open>Verdicts\<close>

datatype intent =
    I_GREETING | I_SMALL_TALK | I_THANKS | I_FAREWELL | I_ACKNOWLEDGEMENT | I_ABOUT_SELF | I_CAPABILITIES
  | I_STATUS | I_ARITHMETIC | I_TASK | I_UNSURE

fun intent_value :: "intent \<Rightarrow> string" where
  "intent_value I_GREETING = ''greeting''"
| "intent_value I_SMALL_TALK = ''small_talk''"
| "intent_value I_THANKS = ''thanks''"
| "intent_value I_FAREWELL = ''farewell''"
| "intent_value I_ACKNOWLEDGEMENT = ''acknowledgement''"
| "intent_value I_ABOUT_SELF = ''about_self''"
| "intent_value I_CAPABILITIES = ''capabilities''"
| "intent_value I_STATUS = ''status''"
| "intent_value I_ARITHMETIC = ''arithmetic''"
| "intent_value I_TASK = ''task''"
| "intent_value I_UNSURE = ''unsure''"

definition is_conversation :: "intent \<Rightarrow> bool" where
  "is_conversation i = (i \<notin> {I_TASK, I_UNSURE})"

record intent_verdict =
  iv_intent :: intent
  iv_reason :: string
  iv_answer :: string
  iv_remainder :: string

definition verdict_as :: "intent \<Rightarrow> string \<Rightarrow> intent_verdict" where
  "verdict_as i reason = \<lparr>iv_intent = i, iv_reason = reason, iv_answer = [], iv_remainder = []\<rparr>"

text \<open>What evaluating a sum can give: the errors by class, an \<open>int\<close>, a \<open>float\<close> that is not finite, is whole, or
  as it is shown with ten digits and a decimal comma.\<close>

datatype sum_value = NoSyntax | NotPlain | ByZero | NoValue | WholeNumber int | NotFinite | WholeFloat int | FloatShown string

record intent_env =
  ie_unicode :: unicode_table
  ie_eval :: "string \<Rightarrow> sum_value"

subsection \<open>Words\<close>

definition GREETING_WORDS :: "string list" where
  "GREETING_WORDS =
     [''czesc'', ''hej'', ''hejka'', ''hej garis'', ''siema'', ''siemano'', ''elo'', ''witaj'', ''witam'', ''dzien dobry'',
      ''dobry wieczor'', ''dobry'', ''halo'', ''hello'', ''hi'', ''hey'', ''yo'', ''no hej'', ''no czesc'', ''garis'']"

definition FAREWELL_WORDS :: "string list" where
  "FAREWELL_WORDS =
     [''pa'', ''papa'', ''na razie'', ''narazie'', ''nara'', ''do zobaczenia'', ''do jutra'', ''dobranoc'', ''bye'', ''goodbye'',
      ''koniec na dzis'', ''trzymaj sie'']"

definition THANKS_WORDS :: "string list" where
  "THANKS_WORDS =
     [''dzieki'', ''dziekuje'', ''dziekuje ci'', ''wielkie dzieki'', ''dzieki wielkie'', ''dziex'', ''thx'', ''thanks'',
      ''thank you'', ''dzieki za pomoc'', ''super dzieki'']"

definition ACK_WORDS :: "string list" where
  "ACK_WORDS =
     [''ok'', ''okej'', ''okey'', ''oki'', ''spoko'', ''jasne'', ''rozumiem'', ''dobra'', ''dobrze'', ''git'', ''aha'', ''no'',
      ''yhm'', ''mhm'', ''tak'', ''nie'', ''zgoda'', ''swietnie'', ''super'', ''no dobra'', ''w porzadku'']"

definition SMALL_TALK_WORDS :: "string list" where
  "SMALL_TALK_WORDS =
     [''jak sie masz'', ''jak leci'', ''co slychac'', ''co u ciebie'', ''jak tam'', ''wszystko ok'', ''wszystko w porzadku'',
      ''jak sie czujesz'', ''how are you'', ''co robisz'', ''spisz'', ''jestes tam'', ''jestes'', ''zyjesz'']"

definition ABOUT_SELF_WORDS :: "string list" where
  "ABOUT_SELF_WORDS =
     [''kim jestes'', ''kto ty jestes'', ''co ty jestes'', ''jak masz na imie'', ''jak sie nazywasz'', ''kto cie stworzyl'',
      ''kto cie zrobil'', ''przedstaw sie'', ''powiedz cos o sobie'', ''who are you'']"

definition CAPABILITIES_WORDS :: "string list" where
  "CAPABILITIES_WORDS =
     [''co potrafisz'', ''co umiesz'', ''co mozesz zrobic'', ''co mozesz'', ''pomoc'', ''help'', ''w czym mozesz pomoc'',
      ''jakie masz funkcje'', ''co ty w ogole robisz'', ''do czego sluzysz'', ''jakie masz narzedzia'']"

definition STATUS_WORDS :: "string list" where
  "STATUS_WORDS =
     [''co robisz teraz'', ''nad czym pracujesz'', ''co masz do zrobienia'', ''jak idzie'', ''status'', ''co sie dzieje'',
      ''czym sie zajmujesz'']"

definition TABLES :: "(string list \<times> intent) list" where
  "TABLES =
     [(GREETING_WORDS, I_GREETING), (FAREWELL_WORDS, I_FAREWELL), (THANKS_WORDS, I_THANKS), (ACK_WORDS, I_ACKNOWLEDGEMENT),
      (SMALL_TALK_WORDS, I_SMALL_TALK), (ABOUT_SELF_WORDS, I_ABOUT_SELF), (CAPABILITIES_WORDS, I_CAPABILITIES),
      (STATUS_WORDS, I_STATUS)]"

subsection \<open>Patterns\<close>

text \<open>A character under \<open>IGNORECASE\<close>; the Polish letters have their capitals one below, and the one that lies after 32 below.\<close>

definition folds_cp :: "string \<Rightarrow> string \<Rightarrow> bool" where
  "folds_cp p x =
     (case p of
        [c] \<Rightarrow> folds_to c x
      | [a, b] \<Rightarrow> x = p \<or> x = [a, char_of (byte_of b - (if a = CHR 0xC3 then 32 else 1))]
      | _ \<Rightarrow> x = p)"

fun word_pat :: "unicode_table \<Rightarrow> string list \<Rightarrow> pat list" where
  "word_pat U [] = []"
| "word_pat U (c # cs) =
     (if c = ''['' then
        (case cs of a # b # close # rest \<Rightarrow> One (\<lambda>x. folds_cp a x \<or> folds_cp b x) # word_pat U rest | _ \<Rightarrow> [])
      else (if c = '' '' then AtLeast 1 (cp_space U) else One (folds_cp c)) # word_pat U cs)"

definition phrase :: "unicode_table \<Rightarrow> string \<Rightarrow> pat" where
  "phrase U s = seq (word_pat U (cp_chars s))"

definition LEADING_GREETING :: "string list" where
  "LEADING_GREETING =
     [''hej'', ''hejka'', ''cze['' @ pl_s @ ''s]['' @ pl_c @ ''c]'', ''siema'', ''siemano'', ''elo'', ''witaj'', ''witam'', ''halo'', ''hello'', ''hi'', ''yo'',
      ''dzie['' @ pl_n @ ''n] dobry'', ''dobry wiecz['' @ pl_o @ ''o]r'', ''garis'']"

definition ARITHMETIC_LEAD :: "string list" where
  "ARITHMETIC_LEAD =
     [''ile to'', ''ile jest'', ''ile wynosi'', ''policz'', ''oblicz'', ''licz'', ''how much is'', ''what is'', ''wylicz'']"

definition WORK_VERBS :: "string list" where
  "WORK_VERBS =
     [''sprawd['' @ pl_x @ ''z]'', ''zr['' @ pl_o @ ''o]b'', ''zrobisz'', ''wykonaj'', ''uruchom'', ''otw['' @ pl_o @ ''o]rz'', ''zamknij'', ''znajd['' @ pl_x @ ''z]'', ''poszukaj'',
      ''wyszukaj'', ''pobierz'', ''['' @ pl_s @ ''s]ci['' @ pl_a @ ''a]gnij'', ''zapisz'', ''usu['' @ pl_n @ ''n]'', ''skasuj'', ''przenie['' @ pl_s @ ''s]'', ''skopiuj'', ''wy['' @ pl_s @ ''s]lij'',
      ''napisz'', ''utw['' @ pl_o @ ''o]rz'', ''stw['' @ pl_o @ ''o]rz'', ''zainstaluj'', ''odinstaluj'', ''posprz['' @ pl_a @ ''a]taj'', ''uporz['' @ pl_a @ ''a]dkuj'', ''przypomnij'',
      ''zaplanuj'', ''ustaw'', ''w['' @ pl_l @ ''l]['' @ pl_a @ ''a]cz'', ''wy['' @ pl_l @ ''l]['' @ pl_a @ ''a]cz'', ''zaktualizuj'', ''napraw'', ''przeanalizuj'', ''streszcz'',
      ''przet['' @ pl_l @ ''l]umacz'', ''zmie['' @ pl_n @ ''n]'', ''dodaj'', ''przygotuj'', ''dopisz'', ''podsumuj'', ''wypisz'', ''poka['' @ pl_z @ ''z]'', ''zbierz'',
      ''sprawd['' @ pl_x @ ''z]my'', ''zarezerwuj'', ''um['' @ pl_o @ ''o]w'', ''odpowiedz'', ''przypilnuj'', ''obserwuj'', ''monitoruj'']"

definition small_letter :: "string \<Rightarrow> bool" where
  "small_letter x =
     (list_ex (\<lambda>c. folds_to c x) ''abcdefghijklmnopqrstuvwxyz'' \<or>
      list_ex (\<lambda>p. folds_cp p x) [pl_a, pl_c, pl_e, pl_l, pl_n, pl_o, pl_s, pl_x, pl_z])"

definition WORK :: "unicode_table \<Rightarrow> pat" where
  "WORK U =
     seq [Edge,
          alt (map (phrase U) WORK_VERBS @
            [seq [phrase U ''policz'', AtLeast 1 (cp_space U), AtLeast 0 (cp_word U), Exactly 3 small_letter]]),
          Edge]"

text \<open>\<open>re.sub("^\s*(?:...)\b[...]*", "", s)\<close>. A word with an edge after it ends in one place only, so the first way to
  match is the one taken.\<close>

definition without_lead :: "unicode_table \<Rightarrow> string list \<Rightarrow> (string \<Rightarrow> bool) \<Rightarrow> string list \<Rightarrow> string list" where
  "without_lead U phrases sep cs =
     (case ends U (seq [AtLeast 0 (cp_space U), alt (map (phrase U) phrases), Edge]) (None, cs) of
        [] \<Rightarrow> cs
      | (b, rest) # others \<Rightarrow> dropWhile sep rest)"

definition strip_cps :: "(string \<Rightarrow> bool) \<Rightarrow> string list \<Rightarrow> string list" where
  "strip_cps p cs = rev (dropWhile p (rev (dropWhile p cs)))"

definition remainder_of :: "unicode_table \<Rightarrow> string \<Rightarrow> string" where
  "remainder_of U stripped =
     concat (strip_cps (\<lambda>c. c \<in> {'' '', '','', ''.'', ''!'', ''?'', em_dash, ''-''})
       (without_lead U LEADING_GREETING (\<lambda>c. cp_space U c \<or> c \<in> {'','', ''.'', ''!'', em_dash, ''-''}) (cp_chars stripped)))"

subsection \<open>Sums\<close>

definition sum_body :: "unicode_table \<Rightarrow> string \<Rightarrow> string" where
  "sum_body U s =
     rev (dropWhile (\<lambda>c. c \<in> set ''=?.! '')
       (rev (strip (concat (without_lead U ARITHMETIC_LEAD (\<lambda>c. cp_space U c \<or> c = '':'') (cp_chars s))))))"

definition sum_char :: "char \<Rightarrow> bool" where
  "sum_char c = (is_digit c \<or> is_space c \<or> c \<in> set ''+-*/().,^'')"

definition date_like :: "string \<Rightarrow> bool" where
  "date_like s =
     (case split_on (CHR ''-'') s of
        [a, b, c] \<Rightarrow> list_all is_digit (a @ b @ c) \<and> length a \<in> {2..4} \<and> length b \<in> {1..2} \<and> length c \<in> {1..4}
      | _ \<Rightarrow> False)"

fun decimal_points :: "bool \<Rightarrow> string \<Rightarrow> string" where
  "decimal_points after [] = []"
| "decimal_points after (c # cs) =
     (if c = CHR '','' \<and> after \<and> (case cs of [] \<Rightarrow> False | d # ds \<Rightarrow> is_digit d) then CHR ''.'' else c) #
     decimal_points (is_digit c) cs"

definition python_sum :: "string \<Rightarrow> string" where
  "python_sum body = concat (map (\<lambda>c. if c = CHR ''^'' then ''**'' else [c]) (decimal_points False body))"

text \<open>\<open>str(n)\<close> refuses an \<open>int\<close> of more than 4300 digits.\<close>

definition MAX_STR_DIGITS :: nat where "MAX_STR_DIGITS = 4300"

definition shown_int :: "int \<Rightarrow> exn + string" where
  "shown_int n =
     (if MAX_STR_DIGITS < length (int_str \<bar>n\<bar>) then
        Inl (PyExn ''ValueError'' ''Exceeds the limit (4300 digits) for integer string conversion'')
      else Inr (int_str n))"

definition arithmetic :: "intent_env \<Rightarrow> string \<Rightarrow> exn + string option" where
  "arithmetic E s =
     (let body = sum_body (ie_unicode E) s in
      if body = [] \<or> \<not> list_all sum_char body then Inr None
      else if \<not> list_ex (\<lambda>c. c \<in> set ''+-*/^'') body then Inr None
      else if date_like body then Inr None
      else (case ie_eval E (python_sum body) of
          NoSyntax \<Rightarrow> Inr None
        | NotPlain \<Rightarrow> Inr None
        | ByZero \<Rightarrow> Inr (Some ''Przez zero nie dzielimy.'')
        | NoValue \<Rightarrow> Inr None
        | WholeNumber n \<Rightarrow> map_sum id Some (shown_int n)
        | NotFinite \<Rightarrow> Inr None
        | WholeFloat n \<Rightarrow> map_sum id Some (shown_int n)
        | FloatShown t \<Rightarrow> Inr (Some t)))"

subsection \<open>Deciding\<close>

definition MAX_CHAT_WORDS :: nat where "MAX_CHAT_WORDS = 7"

definition table_of :: "string \<Rightarrow> intent option" where
  "table_of folded = map_option snd (find (\<lambda>(words, i). folded \<in> set words) TABLES)"

text \<open>The rules, on a text that keeps nothing after a greeting is taken off.\<close>

definition decide_said :: "intent_env \<Rightarrow> string \<Rightarrow> exn + intent_verdict" where
  "decide_said E s =
     (case arithmetic E s of
        Inl x \<Rightarrow> Inl x
      | Inr (Some answer) \<Rightarrow> Inr (verdict_as I_ARITHMETIC (''wyra'' @ pl_z @ ''enie arytmetyczne'')\<lparr>iv_answer := answer\<rparr>)
      | Inr None \<Rightarrow>
          if search (ie_unicode E) (WORK (ie_unicode E)) None (cp_chars s) then Inr (verdict_as I_TASK ''czasownik wykonawczy'')
          else let folded = fold_text s in
            if folded = [] then Inr (verdict_as I_UNSURE ''sama interpunkcja'')
            else (case (if length (split_ws folded) \<le> MAX_CHAT_WORDS then table_of folded else None) of
                Some i \<Rightarrow> Inr (verdict_as i (''dopasowanie dok'' @ pl_l @ ''adne''))
              | None \<Rightarrow> Inr (verdict_as I_UNSURE (''brak regu'' @ pl_l @ ''y''))))"

lemma dropWhile_part: "\<exists>a. cs = a @ dropWhile p cs"
  by (metis takeWhile_dropWhile_id)

lemma strip_cps_part: "\<exists>a b. cs = a @ strip_cps p cs @ b"
proof -
  obtain a where a: "cs = a @ dropWhile p cs" using dropWhile_part by blast
  obtain b where "rev (dropWhile p cs) = b @ dropWhile p (rev (dropWhile p cs))" using dropWhile_part by blast
  then have "dropWhile p cs = strip_cps p cs @ rev b" unfolding strip_cps_def by (metis rev_append rev_rev_ident)
  with a show ?thesis by metis
qed

lemma without_lead_part: "\<exists>a. cs = a @ without_lead U phrases sep cs"
proof (cases "ends U (seq [AtLeast 0 (cp_space U), alt (map (phrase U) phrases), Edge]) (None, cs)")
  case Nil
  then show ?thesis unfolding without_lead_def Nil by simp
next
  case (Cons y ys)
  obtain b rest where y: "y = (b, rest)" by fastforce
  have "(b, rest) \<in> set (ends U (seq [AtLeast 0 (cp_space U), alt (map (phrase U) phrases), Edge]) (None, cs))"
    unfolding Cons y by simp
  then obtain m where "cs = m @ rest" unfolding ends_iff by blast
  moreover have "\<exists>a. rest = a @ dropWhile sep rest" by (rule dropWhile_part)
  ultimately have "\<exists>a. cs = a @ dropWhile sep rest" by (metis append.assoc)
  then show ?thesis unfolding without_lead_def Cons y by simp
qed

lemma remainder_part: "\<exists>a b. s = a @ remainder_of U s @ b"
proof -
  let ?led = "without_lead U LEADING_GREETING (\<lambda>c. cp_space U c \<or> c \<in> {'','', ''.'', ''!'', em_dash, ''-''}) (cp_chars s)"
  let ?p = "\<lambda>c. c \<in> {'' '', '','', ''.'', ''!'', ''?'', em_dash, ''-''}"
  obtain a where a: "cp_chars s = a @ ?led" using without_lead_part by blast
  obtain b d where "?led = b @ strip_cps ?p ?led @ d" using strip_cps_part by blast
  with a have "concat (cp_chars s) = concat a @ concat b @ remainder_of U s @ concat d"
    unfolding remainder_of_def by (metis concat_append)
  then show ?thesis by (metis concat_cp_chars append.assoc)
qed

lemma remainder_shorter: "remainder_of U s \<noteq> s \<Longrightarrow> length (remainder_of U s) < length s"
proof -
  assume n: "remainder_of U s \<noteq> s"
  obtain a b where p: "s = a @ remainder_of U s @ b" using remainder_part by blast
  with n have "a \<noteq> [] \<or> b \<noteq> []" by auto
  then have "length (remainder_of U s) < length (a @ remainder_of U s @ b)" by auto
  with p show ?thesis by simp
qed

lemma length_strip: "length (strip s) \<le> length s"
  unfolding strip_def strip_by_def by (metis length_dropWhile_le length_rev le_trans)

function classify :: "intent_env \<Rightarrow> string \<Rightarrow> exn + intent_verdict" where
  "classify E s =
     (let stripped = strip s; remainder = remainder_of (ie_unicode E) stripped in
      if stripped = [] then Inr (verdict_as I_UNSURE (''pusta wiadomo'' @ pl_s @ pl_c))
      else if remainder \<noteq> [] \<and> remainder \<noteq> stripped then
        (case classify E remainder of
           Inl x \<Rightarrow> Inl x
         | Inr inner \<Rightarrow>
             if iv_intent inner \<noteq> I_UNSURE then
               Inr \<lparr>iv_intent = iv_intent inner, iv_reason = ''po powitaniu: '' @ iv_reason inner, iv_answer = iv_answer inner,
                 iv_remainder = remainder\<rparr>
             else Inr (verdict_as I_UNSURE (''powitanie plus tre'' @ pl_s @ pl_c)\<lparr>iv_remainder := remainder\<rparr>))
      else decide_said E stripped)"
  by pat_completeness auto
termination
proof (relation "measure (\<lambda>(E, s). length s)")
  fix E :: intent_env and s x y
  assume x: "x = strip s" and y: "y = remainder_of (ie_unicode E) x" and "y \<noteq> [] \<and> y \<noteq> x"
  then have "length y < length x" using remainder_shorter by blast
  with x length_strip [of s] show "((E, y), (E, s)) \<in> measure (\<lambda>(E, s). length s)" by simp
qed simp

declare classify.simps [simp del]

subsection \<open>What a verdict says\<close>

text \<open>The part of a text that the rules decide on: without greetings in front and punctuation around.\<close>

function core_of :: "unicode_table \<Rightarrow> string \<Rightarrow> string" where
  "core_of U s =
     (let stripped = strip s; remainder = remainder_of U stripped in
      if stripped \<noteq> [] \<and> remainder \<noteq> [] \<and> remainder \<noteq> stripped then core_of U remainder else stripped)"
  by pat_completeness auto
termination
proof (relation "measure (\<lambda>(U, s). length s)")
  fix U :: unicode_table and s x y
  assume x: "x = strip s" and y: "y = remainder_of U x" and "x \<noteq> [] \<and> y \<noteq> [] \<and> y \<noteq> x"
  then have "length y < length x" using remainder_shorter by blast
  with x length_strip [of s] show "((U, y), (U, s)) \<in> measure (\<lambda>(U, s). length s)" by simp
qed simp

declare core_of.simps [simp del]

text \<open>A verdict is the rules' verdict on the core, up to the reason and the remainder.\<close>

lemma classify_core:
  "classify E s = Inr v \<Longrightarrow> iv_intent v \<noteq> I_UNSURE \<Longrightarrow>
   \<exists>d. decide_said E (core_of (ie_unicode E) s) = Inr d \<and> iv_intent d = iv_intent v \<and> iv_answer d = iv_answer v"
proof (induction E s arbitrary: v rule: classify.induct)
  case (1 E s)
  let ?x = "strip s" and ?r = "remainder_of (ie_unicode E) (strip s)"
  show ?case
  proof (cases "?x \<noteq> [] \<and> ?r \<noteq> [] \<and> ?r \<noteq> ?x")
    case True
    with "1.prems" obtain inner where inner: "classify E ?r = Inr inner" "iv_intent inner \<noteq> I_UNSURE"
      "iv_intent v = iv_intent inner" "iv_answer v = iv_answer inner"
      by (auto simp: classify.simps [of E s] Let_def verdict_as_def split: sum.splits if_splits)
    have "core_of (ie_unicode E) s = core_of (ie_unicode E) ?r" using True by (subst core_of.simps) (simp add: Let_def)
    with "1.IH" [OF refl refl _ _ inner(1,2)] True inner(3,4) show ?thesis by simp
  next
    case False
    then have "core_of (ie_unicode E) s = ?x" by (subst core_of.simps) (auto simp: Let_def)
    moreover from "1.prems" False have "decide_said E ?x = Inr v"
      by (auto simp: classify.simps [of E s] Let_def verdict_as_def split: if_splits)
    ultimately show ?thesis by auto
  qed
qed

lemma table_of_iff: "table_of t = Some i \<Longrightarrow> \<exists>words. (words, i) \<in> set TABLES \<and> t \<in> set words"
  by (auto simp: table_of_def find_Some_iff) (metis nth_mem)

lemma tables_are_talk: "(words, i) \<in> set TABLES \<Longrightarrow> is_conversation i \<and> i \<noteq> I_ARITHMETIC"
  by (auto simp: TABLES_def is_conversation_def)

text \<open>C39: Talk is a known phrase. When the rules call something conversation and it is not a sum, then without greetings and
  punctuation it names no work at all, has at most seven words and folds to one of the phrases listed
  for that intent; and what they call work names it.\<close>

theorem talk_is_a_known_phrase:
  assumes "classify E s = Inr v" and "iv_intent v \<noteq> I_UNSURE" "iv_intent v \<noteq> I_ARITHMETIC"
  shows "(if iv_intent v = I_TASK then search (ie_unicode E) (WORK (ie_unicode E)) None (cp_chars (core_of (ie_unicode E) s))
    else \<not> search (ie_unicode E) (WORK (ie_unicode E)) None (cp_chars (core_of (ie_unicode E) s)) \<and>
      length (split_ws (fold_text (core_of (ie_unicode E) s))) \<le> 7 \<and>
      (\<exists>words. (words, iv_intent v) \<in> set TABLES \<and> fold_text (core_of (ie_unicode E) s) \<in> set words))"
proof -
  obtain d where d: "decide_said E (core_of (ie_unicode E) s) = Inr d" "iv_intent d = iv_intent v"
    using classify_core [OF assms(1,2)] by blast
  with assms(2,3) show ?thesis
    by (auto simp: decide_said_def verdict_as_def MAX_CHAT_WORDS_def Let_def dest!: table_of_iff dest: tables_are_talk
        split: sum.splits option.splits if_splits) (auto simp: TABLES_def)
qed

definition sample_intents :: intent_env where
  "sample_intents =
     \<lparr>ie_unicode = \<lparr>un_word = (\<lambda>c. True), un_space = (\<lambda>c. False)\<rparr>,
      ie_eval = (\<lambda>t. if t = ''5+3'' then WholeNumber 8 else if t = ''10**5000'' then WholeNumber (10 ^ 5000) else NoSyntax)\<rparr>"

theorem talk_is_a_known_phrase_witness:
  "length (split_ws (fold_text (core_of (ie_unicode sample_intents) ''Hej, jak leci?''))) \<le> 7"
proof -
  have "map_sum (\<lambda>x. ()) iv_intent (classify sample_intents ''Hej, jak leci?'') = Inr I_SMALL_TALK" by code_simp
  then obtain v where v: "classify sample_intents ''Hej, jak leci?'' = Inr v" "iv_intent v = I_SMALL_TALK"
    by (cases "classify sample_intents ''Hej, jak leci?''") auto
  then have "iv_intent v \<noteq> I_UNSURE" "iv_intent v \<noteq> I_ARITHMETIC" by simp_all
  from talk_is_a_known_phrase [OF v(1) this] v(2) show ?thesis by simp
qed

subsection \<open>Two sums that go wrong\<close>

text \<open>The punctuation that is taken off a text includes the sign in front of it: minus five plus three is eight.\<close>

lemma minus_is_punctuation:
  "remainder_of U ''-5+3'' = ''5+3''" "remainder_of U ''5+3'' = ''5+3''" "strip ''-5+3'' = ''-5+3''" "strip ''5+3'' = ''5+3''"
  by code_simp+

theorem leading_minus_is_lost:
  assumes "ie_eval E ''5+3'' = WholeNumber 8"
  shows "\<exists>v. classify E ''-5+3'' = Inr v \<and> iv_intent v = I_ARITHMETIC \<and> iv_answer v = ''8''"
proof -
  have body: "sum_body (ie_unicode E) ''5+3'' = ''5+3''" "\<not> date_like ''5+3''" "python_sum ''5+3'' = ''5+3''"
    "shown_int 8 = Inr ''8''" by code_simp+
  then have "arithmetic E ''5+3'' = Inr (Some ''8'')"
    by (simp add: arithmetic_def assms Let_def sum_char_def is_digit_def byte_of_def)
  then have "decide_said E ''5+3'' = Inr (verdict_as I_ARITHMETIC (''wyra'' @ pl_z @ ''enie arytmetyczne'')\<lparr>iv_answer := ''8''\<rparr>)"
    by (simp add: decide_said_def)
  then have "classify E ''5+3'' = Inr (verdict_as I_ARITHMETIC (''wyra'' @ pl_z @ ''enie arytmetyczne'')\<lparr>iv_answer := ''8''\<rparr>)"
    by (simp add: classify.simps [of E "''5+3''"] minus_is_punctuation Let_def)
  then show ?thesis by (simp add: classify.simps [of E "''-5+3''"] minus_is_punctuation Let_def verdict_as_def)
qed

lemma nat_str_long: "10 ^ k \<le> n \<Longrightarrow> k < length (nat_str n)"
proof (induction k arbitrary: n)
  case 0
  then show ?case by (simp add: nat_str.simps [of n])
next
  case (Suc k)
  then have p: "10 * 10 ^ k \<le> n" by simp
  have "(1::nat) \<le> 10 ^ k" by simp
  with p have t: "10 \<le> n" by linarith
  have "10 ^ k \<le> n div 10" using p by (simp add: less_eq_div_iff_mult_less_eq mult.commute)
  with t Suc.IH [of "n div 10"] show ?case by (subst nat_str.simps) simp
qed

lemma long_int: "10 ^ k \<le> n \<Longrightarrow> k < length (int_str \<bar>n\<bar>)"
proof -
  assume n: "10 ^ k \<le> (n :: int)"
  moreover have "(0::int) < 10 ^ k" by simp
  ultimately have pos: "0 < n" by (rule less_le_trans [rotated])
  have "int (10 ^ k) \<le> n" using n by simp
  with pos have "10 ^ k \<le> nat n" by (simp add: le_nat_iff)
  from nat_str_long [OF this] pos show ?thesis by (simp add: int_str_def)
qed

text \<open>A power with more than 4300 digits is evaluated and then cannot be written down.\<close>

theorem long_power_raises:
  assumes "ie_eval E ''10**5000'' = WholeNumber n" and "10 ^ MAX_STR_DIGITS \<le> n"
  shows "\<exists>m. classify E ''10^5000'' = Inl (PyExn ''ValueError'' m)"
proof -
  have body: "sum_body (ie_unicode E) ''10^5000'' = ''10^5000''" "\<not> date_like ''10^5000''" "python_sum ''10^5000'' = ''10**5000''"
    "remainder_of (ie_unicode E) ''10^5000'' = ''10^5000''" "strip ''10^5000'' = ''10^5000''" by code_simp+
  have "\<exists>m. arithmetic E ''10^5000'' = Inl (PyExn ''ValueError'' m)"
    using assms(1) body long_int [OF assms(2)] by (simp add: arithmetic_def Let_def sum_char_def is_digit_def byte_of_def shown_int_def)
  then show ?thesis using body by (auto simp: classify.simps [of E "''10^5000''"] Let_def decide_said_def)
qed

end
