(* ===== verification/Lenient.thy ===== *)
theory Lenient
  imports SecretScan Database
begin

section \<open>Reading JSON out of a model's reply (models/base.py)\<close>

text \<open>
  \<open>parse_json_lenient\<close>: the whole reply, each fenced block and the widest span of braces or brackets are tried in turn,
  each as it is and without trailing commas. Patterns run on characters. \<open>lazy_body\<close> is \<open>(.+?)\s*```\<close>, \<open>after_spaces\<close>
  the greedy \<open>\s*\<close> before it, which gives spaces back when the rest does not match.
\<close>

subsection \<open>Fences\<close>

definition TICKS :: "string list" where "TICKS = [[CHR 0x60], [CHR 0x60], [CHR 0x60]]"

definition closes_fence :: "unicode_table \<Rightarrow> string list \<Rightarrow> string list option" where
  "closes_fence U cs = (let r = dropWhile (cp_space U) cs in if prefix TICKS r then Some (drop 3 r) else None)"

fun lazy_body :: "unicode_table \<Rightarrow> string list \<Rightarrow> string list \<Rightarrow> (string list \<times> string list) option" where
  "lazy_body U acc [] =
     (case (if acc \<noteq> [] then closes_fence U [] else None) of Some rest \<Rightarrow> Some (acc, rest) | None \<Rightarrow> None)"
| "lazy_body U acc (c # cs) =
     (case (if acc \<noteq> [] then closes_fence U (c # cs) else None) of Some rest \<Rightarrow> Some (acc, rest) | None \<Rightarrow> lazy_body U (acc @ [c]) cs)"

definition first_some :: "'a option list \<Rightarrow> 'a option" where
  "first_some xs = (case filter (\<lambda>x. x \<noteq> None) xs of [] \<Rightarrow> None | x # rest \<Rightarrow> x)"

definition after_spaces :: "unicode_table \<Rightarrow> string list \<Rightarrow> (string list \<times> string list) option" where
  "after_spaces U cs =
     first_some (map (\<lambda>k. lazy_body U [] (drop k cs)) (rev [0..<Suc (length (takeWhile (cp_space U) cs))]))"

definition fence_here :: "unicode_table \<Rightarrow> string list \<Rightarrow> (string list \<times> string list) option" where
  "fence_here U cs =
     first_some [if prefix (cp_chars ''json'') cs then after_spaces U (drop 4 cs) else None, after_spaces U cs]"

lemma closes_shorter: "closes_fence U cs = Some rest \<Longrightarrow> length rest \<le> length cs"
  by (auto simp: closes_fence_def Let_def split: if_splits) (meson diff_le_self le_trans length_dropWhile_le)

lemma lazy_body_shorter: "lazy_body U acc cs = Some (b, rest) \<Longrightarrow> length rest \<le> length cs"
  by (induction U acc cs rule: lazy_body.induct) (fastforce dest: closes_shorter split: if_splits option.splits)+

lemma first_some_in: "first_some xs = Some y \<Longrightarrow> Some y \<in> set xs"
  by (auto simp: first_some_def filter_eq_Cons_iff split: list.splits)

lemma after_spaces_shorter: "after_spaces U cs = Some (b, rest) \<Longrightarrow> length rest \<le> length cs"
  unfolding after_spaces_def by (drule first_some_in) (auto dest!: lazy_body_shorter [OF sym])

lemma fence_here_shorter: "fence_here U cs = Some (b, rest) \<Longrightarrow> length rest \<le> length cs"
  unfolding fence_here_def
  by (drule first_some_in) (auto dest!: after_spaces_shorter [OF sym] split: if_splits)

function fences :: "unicode_table \<Rightarrow> string list \<Rightarrow> string list list" where
  "fences U [] = []"
| "fences U (c # cs) =
     (case (if prefix TICKS (c # cs) then fence_here U (drop 3 (c # cs)) else None) of
        Some (body, rest) \<Rightarrow> body # fences U rest
      | None \<Rightarrow> fences U cs)"
  by pat_completeness auto
termination
  by (relation "measure (\<lambda>(U, cs). length cs)") (auto dest!: fence_here_shorter split: if_splits)

subsection \<open>Spans and commas\<close>

definition widest :: "string \<Rightarrow> string \<Rightarrow> string list \<Rightarrow> string list list" where
  "widest opener closer cs =
     (if opener \<in> set cs \<and> closer \<in> set cs then
        (let start = length (takeWhile (\<lambda>c. c \<noteq> opener) cs);
             stop = length cs - 1 - length (takeWhile (\<lambda>c. c \<noteq> closer) (rev cs))
         in if start < stop then [take (stop + 1 - start) (drop start cs)] else [])
      else [])"

fun strip_commas :: "unicode_table \<Rightarrow> string list \<Rightarrow> string list" where
  "strip_commas U [] = []"
| "strip_commas U (c # cs) =
     (if c = '','' \<and> (case dropWhile (cp_space U) cs of [] \<Rightarrow> False | d # ds \<Rightarrow> d \<in> {''}'', '']''}) then strip_commas U cs
      else c # strip_commas U cs)"

subsection \<open>Candidates\<close>

definition candidates_in :: "unicode_table \<Rightarrow> string \<Rightarrow> string list list" where
  "candidates_in U text =
     (if strip text \<noteq> [] then [cp_chars (strip text)] else []) @ fences U (cp_chars text) @
     widest ''{'' ''}'' (cp_chars text) @ widest ''['' '']'' (cp_chars text)"

definition attempts_in :: "unicode_table \<Rightarrow> string \<Rightarrow> string list list" where
  "attempts_in U text = concat (map (\<lambda>c. [c, strip_commas U c]) (candidates_in U text))"

definition parse_json_lenient :: "unicode_table \<Rightarrow> (string \<Rightarrow> pyval) \<Rightarrow> string \<Rightarrow> exn + pyval" where
  "parse_json_lenient U fl text =
     (case first_some (map (\<lambda>c. json_loads fl (concat c)) (attempts_in U text)) of
        Some v \<Rightarrow> Inr v
      | None \<Rightarrow> Inl (Garis (execution_error ProviderError
          (''Odpowied'' @ pl_x @ '' modelu nie jest poprawnym JSON-em: '' @ cp_take 300 text) None True None 0)))"

subsection \<open>A fenced object is read\<close>

lemma first_some_simps [simp]: "first_some [] = None" "first_some (None # xs) = first_some xs" "first_some (Some v # xs) = Some v"
  by (simp_all add: first_some_def)

lemma closes_fence_Cons: "closes_fence U (c # cs) = (if cp_space U c then closes_fence U cs else if prefix TICKS (c # cs) then Some (drop 3 (c # cs)) else None)"
  by (simp add: closes_fence_def Let_def)

lemma tick_space: "\<not> cp_space U [CHR 0x60]" "cp_space U [CHR 0x0A]"
  by (simp_all add: cp_space_def is_ascii_cp_def ascii_in_def byte_of_def)

definition outro :: "string list" where "outro = [CHR 0x0A] # TICKS"

lemma closes_outro: "closes_fence U outro = Some []"
  by (simp add: outro_def closes_fence_Cons tick_space TICKS_def)

lemma closes_inside:
  assumes "cs \<noteq> []" "\<not> cp_space U (last cs)" "[CHR 0x60] \<notin> set cs"
  shows "closes_fence U (cs @ x) = None"
  using assms by (induction cs) (auto simp: closes_fence_Cons TICKS_def split: if_splits)

lemma lazy_body_to_outro:
  assumes "acc @ cs \<noteq> []" "cs = [] \<or> \<not> cp_space U (last cs)" "[CHR 0x60] \<notin> set cs"
  shows "lazy_body U acc (cs @ outro) = Some (acc @ cs, [])"
  using assms
proof (induction cs arbitrary: acc)
  case Nil
  then show ?case using closes_outro by (simp add: outro_def)
next
  case (Cons c cs)
  have "closes_fence U ((c # cs) @ outro) = None" by (rule closes_inside) (use Cons.prems in auto)
  with Cons.IH [of "acc @ [c]"] Cons.prems show ?case by (auto split: if_splits)
qed

lemma fence_read:
  assumes "body \<noteq> []" "\<not> cp_space U (hd body)" "\<not> cp_space U (last body)" "[CHR 0x60] \<notin> set body"
  shows "fences U (TICKS @ cp_chars ''json'' @ [[CHR 0x0A]] @ body @ outro) = [body]"
proof -
  have "takeWhile (cp_space U) ([CHR 0x0A] # body @ outro) = [[CHR 0x0A]]"
    using assms(1,2) by (cases body) (simp_all add: tick_space)
  moreover have "lazy_body U [] (body @ outro) = Some (body, [])"
    using lazy_body_to_outro [of "[]" body U] assms by simp
  ultimately have "after_spaces U ([CHR 0x0A] # body @ outro) = Some (body, [])"
    by (simp add: after_spaces_def)
  then have "fence_here U (cp_chars ''json'' @ [CHR 0x0A] # body @ outro) = Some (body, [])"
    by (simp add: fence_here_def cp_start_def byte_of_def)
  then show ?thesis by (simp add: TICKS_def)
qed

definition fenced :: "string \<Rightarrow> string" where
  "fenced s = [CHR 0x60, CHR 0x60, CHR 0x60] @ ''json'' @ [CHR 0x0A] @ s @ [CHR 0x0A, CHR 0x60, CHR 0x60, CHR 0x60]"

lemma fenced_chars:
  assumes "s \<noteq> []" "cp_start (hd s)"
  shows "cp_chars (fenced s) = TICKS @ cp_chars ''json'' @ [[CHR 0x0A]] @ cp_chars s @ outro"
proof -
  have "cp_chars ([CHR 0x60, CHR 0x60, CHR 0x60] @ ''json'' @ [CHR 0x0A]) = TICKS @ cp_chars ''json'' @ [[CHR 0x0A]]"
    "cp_chars [CHR 0x0A, CHR 0x60, CHR 0x60, CHR 0x60] = outro"
    by (simp_all add: TICKS_def outro_def cp_start_def byte_of_def)
  moreover have "cp_chars (s @ [CHR 0x0A, CHR 0x60, CHR 0x60, CHR 0x60]) = cp_chars s @ cp_chars [CHR 0x0A, CHR 0x60, CHR 0x60, CHR 0x60]"
    by (rule cp_chars_append) (simp add: cp_start_def byte_of_def)
  moreover have "cp_chars (([CHR 0x60, CHR 0x60, CHR 0x60] @ ''json'' @ [CHR 0x0A]) @ s @ [CHR 0x0A, CHR 0x60, CHR 0x60, CHR 0x60]) =
      cp_chars ([CHR 0x60, CHR 0x60, CHR 0x60] @ ''json'' @ [CHR 0x0A]) @ cp_chars (s @ [CHR 0x0A, CHR 0x60, CHR 0x60, CHR 0x60])"
    by (rule cp_chars_append) (use assms in simp)
  ultimately show ?thesis by (simp add: fenced_def)
qed

lemma strip_fenced: "strip (fenced s) = fenced s"
  by (simp add: strip_def strip_by_def fenced_def is_space_def byte_of_def)

lemma json_loads_tick: "json_loads fl (CHR 0x60 # s) = None"
  by (simp add: json_loads_def skip_def parse_atom_def json_space_def byte_of_def word_then_def lex_number_def is_digit_def Let_def lex_sign_def lex_int_part_def)

text \<open>A fenced object is read. A reply that wraps a JSON object in a json fence gives exactly that object, whatever it
  holds, as long as no backtick occurs in it.\<close>

theorem fenced_object_is_read:
  assumes "json_ok fl (stored (PDict d))" and "CHR 0x60 \<notin> set (dumps (PDict d))"
  shows "parse_json_lenient U fl (fenced (dumps (PDict d))) = Inr (stored (PDict d))"
proof -
  let ?B = "dumps (PDict d)"
  obtain m where B: "?B = ''{'' @ m @ ''}''" and m: "m = [] \<or> cp_start (hd m)"
  proof (cases d)
    case Nil
    then show ?thesis using that [of "[]"] by (simp add: dumps_def join_def)
  next
    case (Cons p e)
    have "dumps (PDict d) = ''{'' @ join '', '' (map (\<lambda>(k, v). json_quote k @ '': '' @ json_text v) d) @ ''}''"
      by (simp add: dumps_def)
    then show ?thesis using that Cons by (cases e) (auto simp: join_def json_quote_def cp_start_def byte_of_def split: prod.splits)
  qed
  have "cp_chars (''{'' @ m) = [''{''] @ cp_chars m"
    using m by (subst cp_chars_append) auto
  moreover have "cp_chars ((''{'' @ m) @ ''}'') = cp_chars (''{'' @ m) @ cp_chars ''}''"
    by (rule cp_chars_append) (simp add: cp_start_def byte_of_def)
  ultimately have body: "cp_chars ?B = ''{'' # cp_chars m @ [''}'']" by (simp add: B)
  have "[CHR 0x60] \<notin> set (cp_chars ?B)"
  proof
    assume "[CHR 0x60] \<in> set (cp_chars ?B)"
    then have "CHR 0x60 \<in> set (concat (cp_chars ?B))" unfolding set_concat by (rule UN_I) simp
    with assms(2) show False by simp
  qed
  moreover have ends: "cp_chars ?B \<noteq> []" "\<not> cp_space U (hd (cp_chars ?B))" "\<not> cp_space U (last (cp_chars ?B))"
    unfolding body by (simp_all add: cp_space_def is_ascii_cp_def ascii_in_def byte_of_def)
  moreover have full: "?B \<noteq> []" "cp_start (hd ?B)" by (simp_all add: B cp_start_def byte_of_def)
  ultimately have "fences U (cp_chars (fenced ?B)) = [cp_chars ?B]"
    by (simp only: fenced_chars [OF full]) (rule fence_read)
  moreover have "json_loads fl ?B = Some (stored (PDict d))"
    using json_loads_of_text [OF assms(1)] by (simp only: dumps_def json_text_stored)
  moreover have "json_loads fl (concat (strip_commas U (cp_chars (fenced ?B)))) = None"
    by (simp add: fenced_chars [OF full] TICKS_def json_loads_tick del: cp_chars.simps)
  moreover have "json_loads fl (fenced ?B) = None" by (simp add: fenced_def json_loads_tick)
  moreover have "fenced ?B \<noteq> []" by (simp add: fenced_def)
  ultimately show ?thesis
    by (simp add: parse_json_lenient_def attempts_in_def candidates_in_def strip_fenced)
qed

theorem fenced_object_is_read_witness:
  "parse_json_lenient \<lparr>un_word = (\<lambda>c. True), un_space = (\<lambda>c. True)\<rparr> PStr
     (fenced (dumps (PDict [(''kind'', PStr ''chat''), (''reply'', PStr ''ok'')]))) =
   Inr (PDict [(''kind'', PStr ''chat''), (''reply'', PStr ''ok'')])"
proof -
  let ?d = "[(''kind'', PStr ''chat''), (''reply'', PStr ''ok'')]"
  have "json_ok PStr (stored (PDict ?d))" by (simp add: dict_ok_def)
  moreover have "CHR 0x60 \<notin> set (dumps (PDict ?d))" by code_simp
  ultimately show ?thesis using fenced_object_is_read [of PStr ?d] by simp
qed

text \<open>Taking the trailing commas out reaches into the strings: one comma too many outside costs one inside.\<close>

theorem repair_reaches_into_strings:
  "parse_json_lenient \<lparr>un_word = (\<lambda>c. True), un_space = (\<lambda>c. True)\<rparr> PStr
     (''{'' @ [CHR 0x22] @ ''a'' @ [CHR 0x22] @ '':'' @ [CHR 0x22] @ ''x,]'' @ [CHR 0x22] @ '',}'') =
   Inr (PDict [(''a'', PStr ''x]'')])"
  by code_simp

end
