(* ===== verification/Conversation.thy ===== *)
theory Conversation
  imports Intent Lenient Supervisor Router
begin

section \<open>What happens when a person says something (conversation.py)\<close>

text \<open>
  \<open>say\<close>, the one door for everything said: rules first, then a question that waits for an answer, then a model for what
  the rules could not decide, then a task. The state is the task supervisor (whose bus is the shared one), the model
  router and the last verdict. Everything else one call reads is \<open>talk_env\<close>.
\<close>

subsection \<open>Answers\<close>

datatype answer_kind = CHAT | TASK | POINTER

fun answer_kind_value :: "answer_kind \<Rightarrow> string" where
  "answer_kind_value CHAT = ''chat''"
| "answer_kind_value TASK = ''task''"
| "answer_kind_value POINTER = ''pointer''"

record answer =
  an_kind :: answer_kind
  an_text :: string
  an_task :: "task_record option"
  an_intent :: intent
  an_reason :: string

definition answer_to_dict :: "answer \<Rightarrow> pydict" where
  "answer_to_dict a =
     [(''kind'', PStr (answer_kind_value (an_kind a))), (''text'', PStr (an_text a)), (''intent'', PStr (intent_value (an_intent a)))] @
     (case an_task a of None \<Rightarrow> [] | Some t \<Rightarrow> [(''task_id'', PStr (tk_id t))])"

definition chat_answer :: "string \<Rightarrow> intent \<Rightarrow> string \<Rightarrow> answer" where
  "chat_answer txt i reason = \<lparr>an_kind = CHAT, an_text = txt, an_task = None, an_intent = i, an_reason = reason\<rparr>"

record chat =
  cv_sup :: supervisor
  cv_router :: router
  cv_last :: "intent_verdict option"

record 'h talk_env =
  te_intents :: intent_env
  te_registry :: "'h registry"
  te_platform :: string
  te_address_as :: string
  te_name :: string
  te_float :: "string \<Rightarrow> pyval"
  te_clock :: "nat \<Rightarrow> instant"
  te_now :: instant
  te_fresh :: uid

definition speak_out :: "'h talk_env \<Rightarrow> string \<Rightarrow> chat \<Rightarrow> chat" where
  "speak_out E txt w =
     w\<lparr>cv_sup := tell_bus (te_now E) SPEAK [(''text'', EvVal (PStr txt)), (''source'', EvVal (PStr ''conversation''))] (cv_sup w)\<rparr>"

subsection \<open>Facts, said\<close>

definition working_on :: "task_store \<Rightarrow> nat" where
  "working_on db = length (filter (\<lambda>t. tk_state t \<noteq> T_BLOCKED) (task_list None True 200 db))"

definition running_sentence :: "nat \<Rightarrow> string" where
  "running_sentence n =
     (if n = 1 then ''Mam teraz jedno zadanie w toku.''
      else ''Mam teraz '' @ nat_str n @ '' '' @
        (if 2 \<le> n mod 10 \<and> n mod 10 \<le> 4 \<and> \<not> (12 \<le> n mod 100 \<and> n mod 100 < 15) then ''zadania'' else ''zada'' @ pl_n) @ '' w toku.'')"

definition greeting :: "'h talk_env \<Rightarrow> task_store \<Rightarrow> string" where
  "greeting E db =
     (let opening = (if te_address_as E \<noteq> [] then te_address_as E else te_name E);
          hello = (if opening \<noteq> [] then ''Cze'' @ pl_s @ pl_c @ '', '' @ opening @ ''.'' else ''Cze'' @ pl_s @ pl_c @ ''.'');
          n = working_on db
      in if n \<noteq> 0 then hello @ '' '' @ running_sentence n else hello @ '' W czym mog'' @ pl_e @ '' pom'' @ pl_o @ ''c?'')"

definition how_i_am :: "task_store \<Rightarrow> string" where
  "how_i_am db =
     (let n = working_on db in
      if n = 0 then ''Dzia'' @ pl_l @ ''am. Nic teraz nie robi'' @ pl_e @ '' '' @ em_dash @ '' powiedz, co mam zrobi'' @ pl_c @ ''.'' else ''Dzia'' @ pl_l @ ''am. '' @ running_sentence n)"

definition who_i_am :: string where
  "who_i_am =
     ''Jestem GARIS '' @ em_dash @ '' wykonuj'' @ pl_e @ '' za Ciebie prac'' @ pl_e @ '' na tym komputerze. M'' @ pl_o @ ''wisz, co ma by'' @ pl_c @ '' zrobione, a ja decyduj'' @ pl_e @ '' jak.''"

definition what_i_can_do :: "'h talk_env \<Rightarrow> string" where
  "what_i_can_do E =
     (let cats = filter (\<lambda>(n, tools). list_ex (supported_here (te_platform E)) tools) (by_category (te_platform E) (te_registry E));
          count = sum_list (map (length \<circ> snd) cats)
      in if count = 0 then ''Na tym komputerze nie mam jeszcze '' @ pl_z @ ''adnego narz'' @ pl_e @ ''dzia.''
         else ''Mam tu '' @ nat_str count @ '' narz'' @ pl_e @ ''dzi '' @ em_dash @ '' mi'' @ pl_e @ ''dzy innymi: '' @ join '', '' (take 6 (sort (map fst cats))) @
           ''. Powiedz, co zrobi'' @ pl_c @ ''.'')"

definition reply_text :: "'h talk_env \<Rightarrow> intent_verdict \<Rightarrow> task_store \<Rightarrow> string" where
  "reply_text E v db =
     (case iv_intent v of
        I_GREETING \<Rightarrow> greeting E db
      | I_SMALL_TALK \<Rightarrow> how_i_am db
      | I_STATUS \<Rightarrow> how_i_am db
      | I_THANKS \<Rightarrow> ''Prosz'' @ pl_e @ ''.''
      | I_FAREWELL \<Rightarrow> ''Na razie. Zostaj'' @ pl_e @ '' w tle.''
      | I_ACKNOWLEDGEMENT \<Rightarrow> ''Jasne.''
      | I_ABOUT_SELF \<Rightarrow> who_i_am
      | I_CAPABILITIES \<Rightarrow> what_i_can_do E
      | I_ARITHMETIC \<Rightarrow> iv_answer v
      | _ \<Rightarrow> [])"

definition reply_to :: "'h talk_env \<Rightarrow> intent_verdict \<Rightarrow> chat \<Rightarrow> answer \<times> chat" where
  "reply_to E v w =
     (let txt = reply_text E v (sv_db (cv_sup w)) in (chat_answer txt (iv_intent v) (iv_reason v), speak_out E txt w))"

subsection \<open>An open question\<close>

definition pending_question :: "'h talk_env \<Rightarrow> intent_verdict \<Rightarrow> chat \<Rightarrow> answer option \<times> chat" where
  "pending_question E v w =
     (if iv_intent v \<noteq> I_ACKNOWLEDGEMENT then (None, w)
      else case filter (\<lambda>t. tk_error t \<noteq> []) (task_list (Some T_BLOCKED) False 5 (sv_db (cv_sup w))) of
          [] \<Rightarrow> (None, w)
        | t # others \<Rightarrow>
            let txt = ''Czeka pytanie do zadania '' @ [CHR 0xE2, CHR 0x80, CHR 0x9E] @ tk_goal t @ [CHR 0xE2, CHR 0x80, CHR 0x9D] @ '': '' @ tk_error t
            in (Some \<lparr>an_kind = POINTER, an_text = txt, an_task = Some t, an_intent = iv_intent v,
                 an_reason = ''zadanie czeka na odpowied'' @ pl_x\<rparr>, speak_out E txt w))"

subsection \<open>The model\<close>

definition ROUTING_PROMPT :: string where
  "ROUTING_PROMPT =
     ''Rozstrzygasz jedn'' @ pl_a @ '' rzecz: czy wiadomo'' @ pl_s @ pl_c @ '' od u'' @ pl_z @ ''ytkownika to POLECENIE do wykonania na jego komputerze, czy zwyk'' @ pl_l @ ''a rozmowa.'' @ nl @ nl @ ''Zadanie powstaje tylko wtedy, gdy jest co '' @ pl_s @ ''ledzi'' @ pl_c @ '' '' @ em_dash @ '' co'' @ pl_s @ '' do zrobienia, sprawdzenia, znalezienia, zmienienia. Pytanie, na kt'' @ pl_o @ ''re umiesz odpowiedzie'' @ pl_c @ '' zdaniem, zadaniem nie jest.'' @ nl @ nl @ ''Odpowiedz wy'' @ pl_l @ pl_a @ ''cznie obiektem JSON:'' @ nl @ ''{'' @ [CHR 0x22] @ ''kind'' @ [CHR 0x22] @ '': '' @ [CHR 0x22] @ ''task'' @ [CHR 0x22] @ ''} '' @ em_dash @ '' gdy trzeba co'' @ pl_s @ '' wykona'' @ pl_c @ nl @ ''{'' @ [CHR 0x22] @ ''kind'' @ [CHR 0x22] @ '': '' @ [CHR 0x22] @ ''chat'' @ [CHR 0x22] @ '', '' @ [CHR 0x22] @ ''reply'' @ [CHR 0x22] @ '': '' @ [CHR 0x22] @ ''<jedno zdanie po polsku>'' @ [CHR 0x22] @ ''} '' @ em_dash @ '' gdy wystarczy odpowied'' @ pl_x @ nl"

definition routing_call :: "string \<Rightarrow> model_call" where
  "routing_call what =
     \<lparr>mk_messages = [(System_role, ROUTING_PROMPT), (User_role, what)], mk_tools = [], mk_temperature = 0, mk_max_tokens = 200,
      mk_json_mode = True, mk_timeout = 120\<rparr>"

definition chat_decision :: "pyval \<Rightarrow> string option" where
  "chat_decision decision =
     (case decision of
        PDict d \<Rightarrow>
          if map_of d ''kind'' = Some (PStr ''chat'') then
            (let reply = strip (py_str (case map_of d ''reply'' of None \<Rightarrow> PStr [] | Some v \<Rightarrow> v))
             in if reply = [] then None else Some reply)
          else None
      | _ \<Rightarrow> None)"

text \<open>\<open>except Exception\<close> catches everything but the cancellation of the coroutine.\<close>

definition ask_the_model :: "'h talk_env \<Rightarrow> string \<Rightarrow> chat \<Rightarrow> (exn + answer option) \<times> chat" where
  "ask_the_model E what w =
     (if \<not> has_any (te_now E) (cv_router w) then (Inr None, w)
      else case complete_need (te_clock E) (te_now E) (need_for JOB_CLASSIFY) (routing_call what) 3 (cv_router w, sv_bus (cv_sup w)) of
        (res, R, b) \<Rightarrow>
          let w1 = w\<lparr>cv_router := R, cv_sup := cv_sup w\<lparr>sv_bus := b\<rparr>\<rparr> in
          (case res of
             Inl x \<Rightarrow> if x = Cancellation then (Inl x, w1) else (Inr None, w1)
           | Inr c \<Rightarrow>
               (case parse_json_lenient (ie_unicode (te_intents E)) (te_float E) (cm_text c) of
                  Inl x \<Rightarrow> (Inr None, w1)
                | Inr decision \<Rightarrow>
                    (case chat_decision decision of
                       None \<Rightarrow> (Inr None, w1)
                     | Some reply \<Rightarrow> (Inr (Some (chat_answer reply I_SMALL_TALK (''rozstrzygni'' @ pl_e @ ''te modelem''))), speak_out E reply w1)))))"

subsection \<open>Saying\<close>

definition start_task :: "'h talk_env \<Rightarrow> string \<Rightarrow> string \<Rightarrow> string \<Rightarrow> chat \<Rightarrow> (exn + answer) \<times> chat" where
  "start_task E what origin target w =
     (case submit (te_fresh E) (te_now E) what [] origin target None [] (cv_sup w) of
        Inl e \<Rightarrow> (Inl (Garis e), w)
      | Inr (t, s) \<Rightarrow>
          (Inr \<lparr>an_kind = TASK, an_text = [], an_task = Some t, an_intent = I_TASK,
             an_reason = (case cv_last w of None \<Rightarrow> [] | Some v \<Rightarrow> iv_reason v)\<rparr>, w\<lparr>cv_sup := s\<rparr>))"

definition say :: "'h talk_env \<Rightarrow> string \<Rightarrow> string \<Rightarrow> string \<Rightarrow> chat \<Rightarrow> (exn + answer) \<times> chat" where
  "say E txt origin target w =
     (let what = strip txt in
      if what = [] then (Inr (chat_answer (''Nic nie powiedzia'' @ pl_l @ ''e'' @ pl_s @ ''.'') I_UNSURE (''pusta wiadomo'' @ pl_s @ pl_c)), w)
      else case classify (te_intents E) what of
        Inl x \<Rightarrow> (Inl x, w)
      | Inr v \<Rightarrow>
          (case pending_question E v (w\<lparr>cv_last := Some v\<rparr>) of
             (Some a, w1) \<Rightarrow> (Inr a, w1)
           | (None, w1) \<Rightarrow>
               if is_conversation (iv_intent v) then (case reply_to E v w1 of (a, w2) \<Rightarrow> (Inr a, w2))
               else (case (if iv_intent v = I_UNSURE then ask_the_model E what w1 else (Inr None, w1)) of
                   (Inl x, w2) \<Rightarrow> (Inl x, w2)
                 | (Inr (Some a), w2) \<Rightarrow> (Inr a, w2)
                 | (Inr None, w2) \<Rightarrow>
                     start_task E (if iv_remainder v \<noteq> [] then iv_remainder v else what) origin target w2)))"

subsection \<open>What saying changes\<close>

definition same_work :: "chat \<Rightarrow> chat \<Rightarrow> bool" where
  "same_work w w' \<longleftrightarrow> sv_db (cv_sup w') = sv_db (cv_sup w) \<and> sv_running (cv_sup w') = sv_running (cv_sup w)"

lemma same_work_simps [simp]:
  "same_work w (speak_out E txt w') = same_work w w'" "same_work w w" "same_work (w\<lparr>cv_last := l\<rparr>) w' = same_work w w'"
  "same_work w (w'\<lparr>cv_router := R, cv_sup := cv_sup w'\<lparr>sv_bus := b\<rparr>\<rparr>) = same_work w w'"
  "same_work w (w'\<lparr>cv_last := l\<rparr>) = same_work w w'"
  by (simp_all add: same_work_def speak_out_def tell_bus_def)

lemma same_work_trans: "same_work u v \<Longrightarrow> same_work v w \<Longrightarrow> same_work u w"
  by (simp add: same_work_def)

lemma pending_work: "pending_question E v w = (a, w') \<Longrightarrow> same_work w w' \<and> cv_router w' = cv_router w \<and>
    (case a of None \<Rightarrow> w' = w
     | Some x \<Rightarrow> an_kind x = POINTER \<and> iv_intent v = I_ACKNOWLEDGEMENT \<and> w' = speak_out E (an_text x) w)"
  by (auto simp: pending_question_def Let_def speak_out_def same_work_def tell_bus_def split: if_splits list.splits)

lemma ask_work: "ask_the_model E what w = (res, w') \<Longrightarrow> same_work w w' \<and> (\<forall>a. res = Inr (Some a) \<longrightarrow> an_kind a = CHAT)"
  by (auto simp: ask_the_model_def Let_def chat_answer_def split: if_splits prod.splits sum.splits option.splits)

lemma start_work:
  assumes "start_task E what origin target w = (res, w')"
  shows "(\<exists>e. res = Inl (Garis e) \<and> w' = w) \<or>
    (\<exists>a t. res = Inr a \<and> an_kind a = TASK \<and> db_tasks (sv_db (cv_sup w')) = db_tasks (sv_db (cv_sup w)) @ [t] \<and>
       tk_id t = te_fresh E \<and> tk_goal t = strip what \<and> tk_state t = T_PENDING \<and> alive (cv_sup w') (te_fresh E))"
  using assms
  by (auto simp: start_task_def submit_def task_create_def new_task_def Let_def alive_def phase_launch tell_bus_def
      split: sum.splits if_splits)

text \<open>C37: A task exists only when there is work. Saying something adds no row to the task list and starts no coroutine,
  except when the answer is of the kind task: then the rules did not call it conversation, and exactly one pending
  task with a live coroutine is added, whose goal is what was said without greeting.\<close>

theorem a_task_exists_only_when_there_is_work:
  assumes "say E txt origin target w = (res, w')"
  shows "case res of
      Inl x \<Rightarrow> same_work w w'
    | Inr a \<Rightarrow>
        if an_kind a = TASK then
          (\<exists>v t. classify (te_intents E) (strip txt) = Inr v \<and> \<not> is_conversation (iv_intent v) \<and>
             db_tasks (sv_db (cv_sup w')) = db_tasks (sv_db (cv_sup w)) @ [t] \<and> tk_id t = te_fresh E \<and>
             tk_goal t = strip (if iv_remainder v \<noteq> [] then iv_remainder v else strip txt) \<and>
             tk_state t = T_PENDING \<and> alive (cv_sup w') (te_fresh E))
        else same_work w w'"
proof (cases "strip txt = []")
  case True
  with assms show ?thesis by (auto simp: say_def Let_def chat_answer_def)
next
  case False
  show ?thesis
  proof (cases "classify (te_intents E) (strip txt)")
    case (Inl x)
    with assms False show ?thesis by (auto simp: say_def Let_def)
  next
    case (Inr v)
    obtain p w1 where p: "pending_question E v (w\<lparr>cv_last := Some v\<rparr>) = (p, w1)" by fastforce
    from pending_work [OF p] have w1: "same_work w w1" "p = Some a \<Longrightarrow> an_kind a = POINTER" for a by (auto split: option.splits)
    define what where "what = (if iv_remainder v \<noteq> [] then iv_remainder v else strip txt)"
    show ?thesis
    proof (cases "p \<noteq> None \<or> is_conversation (iv_intent v)")
      case True
      with assms False Inr p w1 show ?thesis
        by (auto simp: say_def Let_def reply_to_def chat_answer_def split: option.splits)
    next
      case rules: False
      obtain q w2 where q: "(if iv_intent v = I_UNSURE then ask_the_model E (strip txt) w1 else (Inr None, w1)) = (q, w2)" by fastforce
      have w2: "same_work w1 w2" "q = Inr (Some a) \<Longrightarrow> an_kind a = CHAT" for a
        using q ask_work [of E "strip txt" w1] by (auto split: if_splits)
      have said: "say E txt origin target w = (case q of Inl x \<Rightarrow> (Inl x, w2)
          | Inr None \<Rightarrow> start_task E what origin target w2 | Inr (Some a) \<Rightarrow> (Inr a, w2))"
        using False Inr p rules q by (auto simp: say_def Let_def what_def split: sum.splits option.splits)
      have same: "same_work w w2" using w1(1) w2(1) by (rule same_work_trans)
      show ?thesis
      proof (cases "q = Inr None")
        case True
        with said assms have "start_task E what origin target w2 = (res, w')" by simp
        from start_work [OF this] same Inr rules show ?thesis by (auto simp: same_work_def what_def)
      next
        case False
        with said assms same w2(2) show ?thesis by (auto split: sum.splits option.splits)
      qed
    qed
  qed
qed

text \<open>C38: Conversation needs no model. What the rules call conversation is answered at once, whatever providers there are:
  no model is asked, nothing but the answer is published, and the answer is the rules' own text, unless an
  acknowledgement meets a task that waits for an answer, to which it then points.\<close>

theorem conversation_needs_no_model:
  assumes "strip txt \<noteq> []" "classify (te_intents E) (strip txt) = Inr v" "is_conversation (iv_intent v)"
  shows "\<exists>a. say E txt origin target w = (Inr a, speak_out E (an_text a) (w\<lparr>cv_last := Some v\<rparr>)) \<and>
    an_intent a = iv_intent v \<and>
    (an_kind a = CHAT \<and> an_task a = None \<and> an_text a = reply_text E v (sv_db (cv_sup w)) \<or>
     an_kind a = POINTER \<and> iv_intent v = I_ACKNOWLEDGEMENT \<and>
       (\<exists>t \<in> set (db_tasks (sv_db (cv_sup w))). an_task a = Some t \<and> tk_state t = T_BLOCKED \<and> tk_error t \<noteq> []))"
proof -
  let ?w = "w\<lparr>cv_last := Some v\<rparr>"
  let ?waiting = "filter (\<lambda>t. tk_error t \<noteq> []) (task_list (Some T_BLOCKED) False 5 (sv_db (cv_sup w)))"
  show ?thesis
  proof (cases "iv_intent v = I_ACKNOWLEDGEMENT \<and> ?waiting \<noteq> []")
    case True
    then obtain t others where t: "?waiting = t # others" by (cases ?waiting) auto
    then have "t \<in> set ?waiting" by simp
    then have "t \<in> set (db_tasks (sv_db (cv_sup w)))" "tk_state t = T_BLOCKED" "tk_error t \<noteq> []"
      by (auto simp: task_list_def dest: in_set_takeD)
    with True t assms show ?thesis by (auto simp: say_def Let_def pending_question_def)
  next
    case False
    then have "pending_question E v ?w = (None, ?w)" by (auto simp: pending_question_def split: list.splits)
    with assms show ?thesis by (auto simp: say_def Let_def reply_to_def chat_answer_def)
  qed
qed

definition sample_talk :: "unit talk_env" where
  "sample_talk =
     \<lparr>te_intents = sample_intents, te_registry = [], te_platform = ''linux'', te_address_as = ''Janie'', te_name = [],
      te_float = PStr, te_clock = (\<lambda>n. 0), te_now = 0, te_fresh = ''t1''\<rparr>"

definition silent_chat :: chat where
  "silent_chat =
     \<lparr>cv_sup = first_supervisor quiet_bus,
      cv_router = new_router [] \<lparr>mc_privacy = ''balanced'', mc_allow_cloud = True, mc_monthly_budget = 0\<rparr> False None,
      cv_last = None\<rparr>"

theorem a_task_exists_only_when_there_is_work_witness:
  "\<exists>t. db_tasks (sv_db (cv_sup (snd (say sample_talk ''sprawdz dysk'' ''user'' ''local'' silent_chat)))) = [t] \<and>
     tk_id t = ''t1'' \<and> tk_state t = T_PENDING"
proof -
  obtain res w' where s: "say sample_talk ''sprawdz dysk'' ''user'' ''local'' silent_chat = (res, w')" by fastforce
  have "map_sum (\<lambda>x. ()) an_kind (fst (say sample_talk ''sprawdz dysk'' ''user'' ''local'' silent_chat)) = Inr TASK" by code_simp
  then obtain a where "res = Inr a" "an_kind a = TASK" using s by (cases res) auto
  moreover have "db_tasks (sv_db (cv_sup silent_chat)) = []" "te_fresh sample_talk = ''t1''" by code_simp+
  ultimately show ?thesis using a_task_exists_only_when_there_is_work [OF s] s by auto
qed

theorem conversation_needs_no_model_witness:
  "\<exists>a. say sample_talk ''Dzieki!'' ''user'' ''local'' silent_chat =
     (Inr a, speak_out sample_talk (an_text a) (silent_chat\<lparr>cv_last := Some (verdict_as I_THANKS (''dopasowanie dok'' @ pl_l @ ''adne'')\<lparr>iv_reason := ''po powitaniu: '' @ ''dopasowanie dok'' @ pl_l @ ''adne'', iv_remainder := ''Dzieki''\<rparr>)\<rparr>)) \<and>
   an_intent a = I_THANKS"
proof -
  let ?v = "verdict_as I_THANKS (''dopasowanie dok'' @ pl_l @ ''adne'')\<lparr>iv_reason := ''po powitaniu: '' @ ''dopasowanie dok'' @ pl_l @ ''adne'', iv_remainder := ''Dzieki''\<rparr>"
  have "strip ''Dzieki!'' \<noteq> []" by code_simp
  moreover have "classify (te_intents sample_talk) (strip ''Dzieki!'') = Inr ?v" by code_simp
  moreover have "is_conversation (iv_intent ?v)" by code_simp
  ultimately have "\<exists>a. say sample_talk ''Dzieki!'' ''user'' ''local'' silent_chat = (Inr a, speak_out sample_talk (an_text a) (silent_chat\<lparr>cv_last := Some ?v\<rparr>)) \<and>
      an_intent a = iv_intent ?v"
    using conversation_needs_no_model [of "''Dzieki!''" sample_talk ?v "''user''" "''local''" silent_chat] by blast
  then show ?thesis by (simp add: verdict_as_def)
qed

end
