(* ===== verification/Net.thy ===== *)
theory Net
  imports Json Errors
begin

section \<open>HTTP for providers and tools (net.py)\<close>

text \<open>
  The client over \<open>urllib\<close>. What \<open>urlopen\<close> gives for the n-th request is \<open>fetched\<close>, from outside; so are decompression
  (which may raise), decoding of bytes that are not UTF-8 and the reading of a float. What the code does with an outcome is
  here, for whole answers and for streams. A generator is what it yields and the exception that ends it, if any; the queue
  between the thread and the event loop keeps the order of the lines.
\<close>

subsection \<open>Requests and responses\<close>

record net_request =
  nq_method :: string
  nq_url :: string
  nq_headers :: "(string \<times> string) list"
  nq_body :: "string option"
  nq_timeout :: rat

record net_response =
  ns_status :: int
  ns_headers :: "(string \<times> string) list"
  ns_body :: string
  ns_url :: string

datatype fetched =
    Opened int "(string \<times> string) list" string
  | HttpError int "(string \<times> string) list" string
  | UrlError bool string
  | TimedOut
  | Crashed exn

text \<open>Opening a stream: the status, the lines and what breaks off reading them; an HTTP error with its body; no connection;
  or an exception that is none of urllib's.\<close>

datatype streamed =
    Streaming int "string list" "exn option"
  | StreamRefused int string
  | NoStream bool string
  | StreamCrashed exn

record net_env =
  nv_fetch :: "nat \<Rightarrow> net_request \<Rightarrow> fetched"
  nv_gunzip :: "string \<Rightarrow> exn + string"
  nv_decode :: "string \<Rightarrow> string"
  nv_float :: "string \<Rightarrow> pyval"
  nv_open :: "nat \<Rightarrow> net_request \<Rightarrow> streamed"

definition USER_AGENT :: string where "USER_AGENT = ''GARIS/0.1 (+https://github.com/beteray/garis)''"

definition response_text :: "net_env \<Rightarrow> net_response \<Rightarrow> string" where
  "response_text V r = nv_decode V (ns_body r)"

definition response_json :: "net_env \<Rightarrow> net_response \<Rightarrow> exn + pyval" where
  "response_json V r =
     (case json_loads (nv_float V) (response_text V r) of
        Some v \<Rightarrow> Inr v
      | None \<Rightarrow> Inl (Garis (execution_error ExecutionError
          (''Odpowied'' @ pl_x @ '' nie jest JSON-em: '' @ cp_take 200 (response_text V r)) None True None 0)))"

definition response_ok :: "net_response \<Rightarrow> bool" where
  "response_ok r = (200 \<le> ns_status r \<and> ns_status r < 300)"

definition worth_retrying :: "int \<Rightarrow> bool" where
  "worth_retrying status = (status \<in> {408, 425, 429} \<or> 500 \<le> status)"

definition raise_for_status :: "net_env \<Rightarrow> net_response \<Rightarrow> exn + net_response" where
  "raise_for_status V r =
     (if response_ok r then Inr r
      else Inl (Garis (execution_error ExecutionError
        (''HTTP '' @ int_str (ns_status r) @ '' z '' @ ns_url r @ '': '' @ cp_take 300 (response_text V r))
        None (worth_retrying (ns_status r)) None (ns_status r))))"

subsection \<open>Sending\<close>

definition lower_headers :: "(string \<times> string) list \<Rightarrow> (string \<times> string) list" where
  "lower_headers hs = fold (\<lambda>(k, v) d. dict_set (lower k) v d) hs []"

definition timed_out :: "net_request \<Rightarrow> exn" where
  "timed_out q = Garis (execution_error NetworkTimeout (''Przekroczono czas oczekiwania: '' @ nq_url q) None True None 0)"

definition unreachable :: "net_request \<Rightarrow> string \<Rightarrow> exn" where
  "unreachable q reason =
     Garis (execution_error NetworkUnreachable (''Brak po'' @ pl_l @ pl_a @ ''czenia z '' @ nq_url q @ '': '' @ reason) None True None 0)"

definition send_request :: "net_env \<Rightarrow> nat \<Rightarrow> net_request \<Rightarrow> exn + net_response" where
  "send_request V n q =
     (case nv_fetch V n q of
        Opened status headers raw \<Rightarrow>
          (let hs = lower_headers headers in
           case (if map_of hs ''content-encoding'' = Some ''gzip'' then nv_gunzip V raw else Inr raw) of
             Inl x \<Rightarrow> Inl x
           | Inr body \<Rightarrow> Inr \<lparr>ns_status = status, ns_headers = hs, ns_body = body, ns_url = nq_url q\<rparr>)
      | HttpError status headers raw \<Rightarrow>
          Inr \<lparr>ns_status = status, ns_headers = lower_headers headers, ns_body = raw, ns_url = nq_url q\<rparr>
      | UrlError late reason \<Rightarrow> if late then Inl (timed_out q) else Inl (unreachable q reason)
      | TimedOut \<Rightarrow> Inl (timed_out q)
      | Crashed x \<Rightarrow> Inl x)"

definition prepare_request ::
  "string \<Rightarrow> string \<Rightarrow> (string \<times> string) list \<Rightarrow> pyval option \<Rightarrow> string option \<Rightarrow> rat \<Rightarrow> net_request" where
  "prepare_request method url headers json_body data timeout =
     (let merged = fold (\<lambda>(k, v) d. dict_set k v d) headers [(''User-Agent'', USER_AGENT), (''Accept-Encoding'', ''gzip'')]
      in case json_body of
          None \<Rightarrow> \<lparr>nq_method = method, nq_url = url, nq_headers = merged, nq_body = data, nq_timeout = timeout\<rparr>
        | Some v \<Rightarrow>
            \<lparr>nq_method = method, nq_url = url,
             nq_headers = (if map_of merged ''Content-Type'' = None then dict_set ''Content-Type'' ''application/json'' merged else merged),
             nq_body = Some (json_text v), nq_timeout = timeout\<rparr>)"

definition post_json ::
  "net_env \<Rightarrow> nat \<Rightarrow> string \<Rightarrow> (string \<times> string) list \<Rightarrow> pyval \<Rightarrow> rat \<Rightarrow> exn + net_response" where
  "post_json V n url headers body timeout = send_request V n (prepare_request ''POST'' url headers (Some body) None timeout)"

definition get_url :: "net_env \<Rightarrow> nat \<Rightarrow> string \<Rightarrow> (string \<times> string) list \<Rightarrow> rat \<Rightarrow> exn + net_response" where
  "get_url V n url headers timeout = send_request V n (prepare_request ''GET'' url headers None None timeout)"

subsection \<open>Streams\<close>

definition repr_byte :: "char \<Rightarrow> char \<Rightarrow> string" where
  "repr_byte q c =
     (if byte_of c \<ge> 128 then [char_of (92 :: nat), CHR ''x'', hex_char (byte_of c div 16), hex_char (byte_of c mod 16)]
      else repr_char q c)"

text \<open>\<open>repr\<close> of bytes.\<close>

definition repr_bytes :: "string \<Rightarrow> string" where
  "repr_bytes s =
     (let q = (if CHR 0x27 \<in> set s \<and> CHR 0x22 \<notin> set s then CHR 0x22 else CHR 0x27)
      in CHR ''b'' # q # concat (map (repr_byte q) s) @ [q])"

definition stream_lines :: "net_env \<Rightarrow> nat \<Rightarrow> net_request \<Rightarrow> string list \<times> exn option" where
  "stream_lines V n q =
     (case nv_open V n q of
        Streaming status ls broken \<Rightarrow>
          if 400 \<le> status
          then ([], Some (Garis (execution_error ExecutionError (''HTTP '' @ int_str status @ '' z '' @ nq_url q) None True None 0)))
          else (ls, broken)
      | StreamRefused status body \<Rightarrow>
          ([], Some (Garis (execution_error ExecutionError
             (''HTTP '' @ int_str status @ '' z '' @ nq_url q @ '': '' @ repr_bytes (take 300 body))
             None (worth_retrying status) None status)))
      | NoStream late reason \<Rightarrow> ([], Some (if late then timed_out q else unreachable q reason))
      | StreamCrashed x \<Rightarrow> ([], Some x))"

text \<open>A transport that fails ends the events with its exception; \<open>[DONE]\<close> ends them before.\<close>

fun sse_events :: "net_env \<Rightarrow> string list \<Rightarrow> exn option \<Rightarrow> pyval list \<times> exn option" where
  "sse_events V [] e = ([], e)"
| "sse_events V (raw # rest) e =
     (let line = strip (nv_decode V raw) in
      if \<not> prefix ''data:'' line then sse_events V rest e
      else let payload = strip (drop 5 line) in
        if payload = ''[DONE]'' then ([], None)
        else case json_loads (nv_float V) payload of
            None \<Rightarrow> sse_events V rest e
          | Some v \<Rightarrow> (case sse_events V rest e of (vs, e') \<Rightarrow> (v # vs, e')))"

definition stream_sse :: "net_env \<Rightarrow> nat \<Rightarrow> string \<Rightarrow> (string \<times> string) list \<Rightarrow> pyval \<Rightarrow> rat \<Rightarrow> pyval list \<times> exn option" where
  "stream_sse V n url headers body timeout =
     (case stream_lines V n (prepare_request ''POST'' url headers (Some body) None timeout) of (ls, e) \<Rightarrow> sse_events V ls e)"

definition says_done :: "net_env \<Rightarrow> string \<Rightarrow> bool" where
  "says_done V l = (prefix ''data:'' (strip (nv_decode V l)) \<and> strip (drop 5 (strip (nv_decode V l))) = ''[DONE]'')"

text \<open>A stream read up to a point is a prefix of the stream read on, and nothing after \<open>[DONE]\<close> is looked at.\<close>

lemma sse_append:
  "sse_events V (xs @ ys) e =
     (case sse_events V xs None of (vs, e0) \<Rightarrow>
        if list_ex (says_done V) xs then (vs, None) else (case sse_events V ys e of (ws, e') \<Rightarrow> (vs @ ws, e')))"
  by (induction xs) (auto simp: Let_def says_done_def split: option.splits prod.splits)

text \<open>A JSON value written on a data line is the event read from it.\<close>

lemma strip_ends:
  assumes "s \<noteq> []" "\<not> is_space (hd s)" "\<not> is_space (last s)" "list_all is_space a" "list_all is_space b"
  shows "strip (a @ s @ b) = s"
proof -
  have front: "dropWhile is_space (a @ s @ b) = s @ b"
    using assms by (subst dropWhile_append2) (auto simp: list_all_iff dropWhile_eq_self_iff)
  have "dropWhile is_space (rev (s @ b)) = rev s"
    using assms by (subst rev_append, subst dropWhile_append2) (auto simp: list_all_iff dropWhile_eq_self_iff hd_rev)
  then show ?thesis by (simp add: strip_def strip_by_def front)
qed

lemma sse_reads_what_was_sent:
  assumes "nv_decode V l = ''data: '' @ json_text v @ nl" "json_ok (nv_float V) v"
    and "json_text v \<noteq> []" "\<not> is_space (hd (json_text v))" "\<not> is_space (last (json_text v))" "json_text v \<noteq> ''[DONE]''"
  shows "sse_events V (l # rest) e = (case sse_events V rest e of (vs, e') \<Rightarrow> (v # vs, e'))"
proof -
  have "strip (nv_decode V l) = ''data: '' @ json_text v"
    using strip_ends [of "''data: '' @ json_text v" "[]" nl] assms by (simp add: is_space_def byte_of_def)
  moreover have "strip ('' '' @ json_text v) = json_text v"
    using strip_ends [of "json_text v" "'' ''" "[]"] assms by (simp add: is_space_def byte_of_def)
  ultimately show ?thesis using assms json_loads_of_text [of "nv_float V" v] by (simp add: Let_def)
qed

text \<open>A reply below 200 or above 299 never reaches a reader of JSON, and only what the server or the way to it may recover from
  is worth another attempt.\<close>

lemma only_success_passes:
  "raise_for_status V r = Inr r' \<Longrightarrow> r' = r \<and> 200 \<le> ns_status r \<and> ns_status r < 300"
  by (simp add: raise_for_status_def response_ok_def split: if_splits)

lemma client_errors_are_final:
  "raise_for_status V r = Inl (Garis g) \<Longrightarrow> ns_status r \<in> {400, 401, 403, 404, 422} \<Longrightarrow> \<not> ge_retryable g \<and> ge_status g = ns_status r"
  by (auto simp: raise_for_status_def response_ok_def worth_retrying_def execution_error_def split: if_splits)

end
