(* ===== verification/Adapters.thy ===== *)
theory Adapters
  imports Net Crypto Router
begin

section \<open>Talking to the vendors (models/providers)\<close>

text \<open>
  The adapters of OpenAI, Anthropic, Gemini and Ollama: the request each builds from a conversation and how it reads the
  reply, over the HTTP client of \<open>Net\<close>. \<open>pv_complete\<close> of the router's provider is one of the four. A reply is JSON of
  any shape, and what Python raises on an unexpected shape is modelled where the code indexes, iterates or calls
  \<open>get\<close>; a text, name, reason, count or
  arguments of another type than the vendors document are an error in the model, and so is a float among the counts. \<open>ad_show\<close> writes a float, \<open>ad_uuid\<close> gives fresh identifiers.
\<close>

subsection \<open>Messages\<close>

datatype role = ROLE_SYSTEM | ROLE_USER | ROLE_ASSISTANT | ROLE_TOOL

fun role_value :: "role \<Rightarrow> string" where
  "role_value ROLE_SYSTEM = ''system''"
| "role_value ROLE_USER = ''user''"
| "role_value ROLE_ASSISTANT = ''assistant''"
| "role_value ROLE_TOOL = ''tool''"

record message =
  ms_role :: role
  ms_content :: string
  ms_name :: string
  ms_call_id :: string
  ms_calls :: "tool_call list"
  ms_images :: "string list"

definition plain_message :: "role \<Rightarrow> string \<Rightarrow> message" where
  "plain_message r content =
     \<lparr>ms_role = r, ms_content = content, ms_name = [], ms_call_id = [], ms_calls = [], ms_images = []\<rparr>"

record adapter =
  ad_key :: string
  ad_base :: string
  ad_models :: "model_spec list"

record adapter_env =
  ad_net :: net_env
  ad_show :: "rat \<Rightarrow> string"
  ad_uuid :: "nat \<Rightarrow> string"

record model_ask =
  ask_messages :: "message list"
  ask_tools :: "pydict list"
  ask_temperature :: rat
  ask_max_tokens :: nat
  ask_json_mode :: bool
  ask_timeout :: rat

definition base_url :: "string \<Rightarrow> string \<Rightarrow> string" where
  "base_url given other = rstrip_char (CHR ''/'') (if given \<noteq> [] then given else other)"

subsection \<open>Reading JSON of any shape\<close>

definition and_then :: "exn + 'a \<Rightarrow> ('a \<Rightarrow> exn + 'b) \<Rightarrow> exn + 'b" where
  "and_then x f = (case x of Inl e \<Rightarrow> Inl e | Inr v \<Rightarrow> f v)"

definition type_fault :: "string \<Rightarrow> pyval \<Rightarrow> exn" where
  "type_fault what v = PyExn ''TypeError'' (what @ '': '' @ type_name v)"

text \<open>\<open>v.get(k, other)\<close>.\<close>

definition get_of :: "pyval \<Rightarrow> string \<Rightarrow> pyval \<Rightarrow> exn + pyval" where
  "get_of v k other =
     (case v of
        PDict d \<Rightarrow> Inr (case map_of d k of None \<Rightarrow> other | Some x \<Rightarrow> x)
      | _ \<Rightarrow> Inl (PyExn ''AttributeError'' (repr_str (type_name v) @ '' object has no attribute '' @ repr_str ''get'')))"

text \<open>\<open>v[k]\<close>.\<close>

definition item_of :: "pyval \<Rightarrow> string \<Rightarrow> exn + pyval" where
  "item_of v k =
     (case v of
        PDict d \<Rightarrow> (case map_of d k of None \<Rightarrow> Inl (PyExn ''KeyError'' k) | Some x \<Rightarrow> Inr x)
      | _ \<Rightarrow> Inl (type_fault ''item'' v))"

text \<open>\<open>v[0]\<close>. The key 0 is in no dict read from JSON.\<close>

definition first_of :: "pyval \<Rightarrow> exn + pyval" where
  "first_of v =
     (case v of
        PList (x # xs) \<Rightarrow> Inr x
      | PList [] \<Rightarrow> Inl (PyExn ''IndexError'' ''list index out of range'')
      | PDict d \<Rightarrow> Inl (PyExn ''KeyError'' ''0'')
      | PStr [] \<Rightarrow> Inl (PyExn ''IndexError'' ''string index out of range'')
      | PStr s \<Rightarrow> Inr (PStr (hd (cp_chars s)))
      | _ \<Rightarrow> Inl (type_fault ''subscript'' v))"

text \<open>\<open>k in v\<close>.\<close>

definition has_key :: "string \<Rightarrow> pyval \<Rightarrow> exn + bool" where
  "has_key k v =
     (case v of
        PDict d \<Rightarrow> Inr (map_of d k \<noteq> None)
      | PList xs \<Rightarrow> Inr (PStr k \<in> set xs)
      | PStr s \<Rightarrow> Inr (contains s k)
      | _ \<Rightarrow> Inl (type_fault ''in'' v))"

definition items_of :: "pyval \<Rightarrow> exn + pyval list" where
  "items_of v = (case py_iter v of None \<Rightarrow> Inl (type_fault ''iteration'' v) | Some xs \<Rightarrow> Inr xs)"

definition text_value :: "pyval \<Rightarrow> exn + string" where
  "text_value v = (case v of PStr s \<Rightarrow> Inr s | _ \<Rightarrow> Inl (type_fault ''text'' v))"

definition count_value :: "pyval \<Rightarrow> exn + int" where
  "count_value v = (case v of PInt i \<Rightarrow> Inr i | PBool b \<Rightarrow> Inr (if b then 1 else 0) | _ \<Rightarrow> Inl (type_fault ''count'' v))"

definition dict_value :: "pyval \<Rightarrow> exn + pydict" where
  "dict_value v = (case v of PDict d \<Rightarrow> Inr d | _ \<Rightarrow> Inl (type_fault ''dict'' v))"

definition priced :: "model_spec \<Rightarrow> pyval \<Rightarrow> string \<Rightarrow> string \<Rightarrow> exn + usage" where
  "priced m raw k_in k_out =
     and_then (get_of raw k_in (PInt 0)) (\<lambda>i. and_then (get_of raw k_out (PInt 0)) (\<lambda>j.
     and_then (count_value i) (\<lambda>a. and_then (count_value j) (\<lambda>b.
       Inr \<lparr>us_input = a, us_output = b, us_cost = price_for m a b\<rparr>))))"

definition completed :: "model_spec \<Rightarrow> string \<Rightarrow> string \<Rightarrow> tool_call list \<Rightarrow> usage \<Rightarrow> string \<Rightarrow> completion" where
  "completed m who txt calls u why =
     \<lparr>cm_text = txt, cm_model = md_name m, cm_provider = who, cm_tool_calls = calls, cm_usage = u, cm_finish = why,
      cm_stub = False\<rparr>"

definition provider_fault :: "string \<Rightarrow> bool \<Rightarrow> exn" where
  "provider_fault m retryable = Garis (execution_error ProviderError m None retryable None 0)"

definition float_of :: "adapter_env \<Rightarrow> rat \<Rightarrow> pyval" where
  "float_of A r = PFloat r (ad_show A r)"

text \<open>\<open>resp.raise_for_status().json()\<close>.\<close>

definition answer_data :: "net_env \<Rightarrow> exn + net_response \<Rightarrow> exn + pyval" where
  "answer_data V res = and_then res (\<lambda>r. and_then (raise_for_status V r) (response_json V))"

text \<open>A generator of text: what it yields and the exception that ends it. \<open>each\<close> is a loop over the body, and what a body
  yielded before it raised has been yielded. A piece that is no text is an error in the model.\<close>

type_synonym pieces = "string list \<times> exn option"

definition yielding :: "exn + 'a \<Rightarrow> ('a \<Rightarrow> pieces) \<Rightarrow> pieces" where
  "yielding x f = (case x of Inl e \<Rightarrow> ([], Some e) | Inr v \<Rightarrow> f v)"

fun each :: "('a \<Rightarrow> pieces) \<Rightarrow> 'a list \<Rightarrow> pieces" where
  "each f [] = ([], None)"
| "each f (x # xs) =
     (case f x of
        (ps, Some e) \<Rightarrow> (ps, Some e)
      | (ps, None) \<Rightarrow> (case each f xs of (qs, e) \<Rightarrow> (ps @ qs, e)))"

definition piece :: "pyval \<Rightarrow> pieces" where
  "piece v = (if truthy v then yielding (text_value v) (\<lambda>t. ([t], None)) else ([], None))"

definition sse_pieces :: "(pyval \<Rightarrow> pieces) \<Rightarrow> pyval list \<times> exn option \<Rightarrow> pieces" where
  "sse_pieces f events = (case each f (fst events) of (ps, Some e) \<Rightarrow> (ps, Some e) | (ps, None) \<Rightarrow> (ps, snd events))"

definition system_text :: "message list \<Rightarrow> string" where
  "system_text ms =
     join (nl @ nl) (filter (\<lambda>p. p \<noteq> []) (map ms_content (filter (\<lambda>m. ms_role m = ROLE_SYSTEM) ms)))"

subsection \<open>OpenAI\<close>

definition openai_headers :: "adapter \<Rightarrow> exn + (string \<times> string) list" where
  "openai_headers P =
     (if ad_key P = [] then Inl (provider_fault ''Brak klucza OpenAI'' False)
      else Inr [(''Authorization'', ''Bearer '' @ ad_key P), (''Content-Type'', ''application/json'')])"

definition image_url :: "string \<Rightarrow> pyval" where
  "image_url raw =
     PDict [(''type'', PStr ''image_url''),
            (''image_url'', PDict [(''url'', PStr (''data:image/png;base64,'' @ b64encode False raw))])]"

definition openai_call_value :: "tool_call \<Rightarrow> pyval" where
  "openai_call_value c =
     PDict [(''id'', PStr (tc_id c)), (''type'', PStr ''function''),
       (''function'', PDict [(''name'', PStr (tc_name c)), (''arguments'', PStr (json_text (PDict (tc_arguments c))))])]"

definition openai_encode :: "message \<Rightarrow> pyval" where
  "openai_encode m =
     (if ms_role m = ROLE_TOOL then
        PDict [(''role'', PStr ''tool''), (''tool_call_id'', PStr (ms_call_id m)), (''content'', PStr (ms_content m))]
      else if ms_role m = ROLE_ASSISTANT \<and> ms_calls m \<noteq> [] then
        PDict [(''role'', PStr ''assistant''), (''content'', if ms_content m = [] then PNone else PStr (ms_content m)),
          (''tool_calls'', PList (map openai_call_value (ms_calls m)))]
      else if ms_images m \<noteq> [] then
        PDict [(''role'', PStr (role_value (ms_role m))),
          (''content'', PList (PDict [(''type'', PStr ''text''), (''text'', PStr (ms_content m))] # map image_url (ms_images m)))]
      else PDict [(''role'', PStr (role_value (ms_role m))), (''content'', PStr (ms_content m))])"

definition openai_body :: "adapter_env \<Rightarrow> model_spec \<Rightarrow> model_ask \<Rightarrow> pyval" where
  "openai_body A m q =
     PDict ([(''model'', PStr (md_name m)), (''messages'', PList (map openai_encode (ask_messages q))),
        (''temperature'', float_of A (ask_temperature q)), (''max_completion_tokens'', PInt (int (ask_max_tokens q)))] @
       (if ask_tools q = [] then []
        else [(''tools'', PList (map (\<lambda>t. PDict [(''type'', PStr ''function''), (''function'', PDict t)]) (ask_tools q)))]) @
       (if ask_json_mode q then [(''response_format'', PDict [(''type'', PStr ''json_object'')])] else []))"

definition load_args :: "(string \<Rightarrow> pyval) \<Rightarrow> pyval \<Rightarrow> exn + pydict" where
  "load_args fl raw =
     and_then (text_value (or_else raw (PStr ''{}''))) (\<lambda>t.
       Inr (case json_loads fl t of Some (PDict d) \<Rightarrow> d | _ \<Rightarrow> []))"

definition openai_call :: "adapter_env \<Rightarrow> nat \<Rightarrow> pyval \<Rightarrow> exn + tool_call" where
  "openai_call A i call =
     and_then (get_of call ''id'' (PStr (ad_uuid A i))) (\<lambda>ident. and_then (text_value ident) (\<lambda>ident.
     and_then (item_of call ''function'') (\<lambda>fn. and_then (item_of fn ''name'') (\<lambda>nm. and_then (text_value nm) (\<lambda>nm.
     and_then (get_of fn ''arguments'' (PStr ''{}'')) (\<lambda>raw. and_then (load_args (nv_float (ad_net A)) raw) (\<lambda>args.
       Inr \<lparr>tc_id = ident, tc_name = nm, tc_arguments = args\<rparr>)))))))"

definition openai_choice :: "pyval \<Rightarrow> exn + pyval \<times> pyval" where
  "openai_choice data =
     (case and_then (item_of data ''choices'') (\<lambda>cs. and_then (first_of cs) (\<lambda>c. and_then (item_of c ''message'') (\<lambda>m. Inr (c, m)))) of
        Inr cm \<Rightarrow> Inr cm
      | Inl x \<Rightarrow>
          if exn_name x \<in> {''KeyError'', ''IndexError''} then Inl (provider_fault (''Nieoczekiwana odpowied'' @ pl_x @ '' OpenAI: '' @ py_str data) True)
          else Inl x)"

definition try_numbered :: "(nat \<Rightarrow> 'a \<Rightarrow> exn + 'b) \<Rightarrow> 'a list \<Rightarrow> exn + 'b list" where
  "try_numbered f xs = try_map (\<lambda>(i, x). f i x) (zip [0..<length xs] xs)"

definition openai_read :: "adapter_env \<Rightarrow> model_spec \<Rightarrow> pyval \<Rightarrow> exn + completion" where
  "openai_read A m data =
     and_then (openai_choice data) (\<lambda>(choice, message).
     and_then (get_of message ''tool_calls'' PNone) (\<lambda>raw_calls.
     and_then (items_of (or_else raw_calls (PList []))) (\<lambda>raw.
     and_then (try_numbered (openai_call A) raw) (\<lambda>calls.
     and_then (get_of data ''usage'' PNone) (\<lambda>u.
     and_then (priced m (or_else u (PDict [])) ''prompt_tokens'' ''completion_tokens'') (\<lambda>usage.
     and_then (get_of message ''content'' PNone) (\<lambda>c. and_then (text_value (or_else c (PStr []))) (\<lambda>txt.
     and_then (get_of choice ''finish_reason'' (PStr ''stop'')) (\<lambda>f. and_then (text_value f) (\<lambda>why.
       Inr (completed m ''openai'' txt calls usage why)))))))))))"

definition openai_complete :: "adapter_env \<Rightarrow> adapter \<Rightarrow> nat \<Rightarrow> model_spec \<Rightarrow> model_ask \<Rightarrow> exn + completion" where
  "openai_complete A P n m q =
     and_then (openai_headers P) (\<lambda>hs.
     and_then (answer_data (ad_net A) (post_json (ad_net A) n (ad_base P @ ''/chat/completions'') hs (openai_body A m q) (ask_timeout q)))
       (openai_read A m))"

definition openai_pieces :: "pyval \<Rightarrow> pieces" where
  "openai_pieces chunk =
     yielding (and_then (get_of chunk ''choices'' (PList [])) items_of) (each (\<lambda>c.
       yielding (and_then (get_of c ''delta'' PNone) (\<lambda>d. get_of (or_else d (PDict [])) ''content'' PNone)) piece))"

definition openai_stream :: "adapter_env \<Rightarrow> adapter \<Rightarrow> nat \<Rightarrow> model_spec \<Rightarrow> model_ask \<Rightarrow> pieces" where
  "openai_stream A P n m q =
     yielding (openai_headers P) (\<lambda>hs.
       sse_pieces openai_pieces (stream_sse (ad_net A) n (ad_base P @ ''/chat/completions'') hs
         (PDict [(''model'', PStr (md_name m)), (''messages'', PList (map openai_encode (ask_messages q))),
            (''temperature'', float_of A (ask_temperature q)), (''max_completion_tokens'', PInt (int (ask_max_tokens q))),
            (''stream'', PBool True)]) (ask_timeout q)))"

definition openai_health_request :: "adapter \<Rightarrow> (string \<times> (string \<times> string) list) option" where
  "openai_health_request P = (case openai_headers P of Inl e \<Rightarrow> None | Inr hs \<Rightarrow> Some (ad_base P @ ''/models'', hs))"

subsection \<open>Anthropic\<close>

definition API_VERSION :: string where "API_VERSION = ''2023-06-01''"

definition anthropic_headers :: "adapter \<Rightarrow> exn + (string \<times> string) list" where
  "anthropic_headers P =
     (if ad_key P = [] then Inl (provider_fault ''Brak klucza Anthropic'' False)
      else Inr [(''x-api-key'', ad_key P), (''anthropic-version'', API_VERSION), (''Content-Type'', ''application/json'')])"

definition text_block :: "string \<Rightarrow> pyval" where
  "text_block t = PDict [(''type'', PStr ''text''), (''text'', PStr t)]"

definition tool_use_block :: "tool_call \<Rightarrow> pyval" where
  "tool_use_block c =
     PDict [(''type'', PStr ''tool_use''), (''id'', PStr (tc_id c)), (''name'', PStr (tc_name c)), (''input'', PDict (tc_arguments c))]"

definition anthropic_message :: "message \<Rightarrow> pyval" where
  "anthropic_message m =
     (if ms_role m = ROLE_TOOL then
        PDict [(''role'', PStr ''user''), (''content'', PList [PDict [(''type'', PStr ''tool_result''),
          (''tool_use_id'', PStr (ms_call_id m)), (''content'', PStr (ms_content m))]])]
      else if ms_role m = ROLE_ASSISTANT \<and> ms_calls m \<noteq> [] then
        PDict [(''role'', PStr ''assistant''), (''content'', PList ((if ms_content m = [] then [] else [text_block (ms_content m)]) @
          map tool_use_block (ms_calls m)))]
      else if ms_images m \<noteq> [] then
        PDict [(''role'', PStr ''user''), (''content'', PList (text_block (ms_content m) #
          map (\<lambda>raw. PDict [(''type'', PStr ''image''), (''source'', PDict [(''type'', PStr ''base64''),
            (''media_type'', PStr ''image/png''), (''data'', PStr (b64encode False raw))])]) (ms_images m)))]
      else PDict [(''role'', PStr (role_value (ms_role m))), (''content'', PStr (ms_content m))])"

definition split_system :: "message list \<Rightarrow> string \<times> pyval list" where
  "split_system ms = (system_text ms, map anthropic_message (filter (\<lambda>m. ms_role m \<noteq> ROLE_SYSTEM) ms))"

definition tool_field :: "pydict \<Rightarrow> string \<Rightarrow> pyval \<Rightarrow> pyval" where
  "tool_field t k other = (case map_of t k of None \<Rightarrow> other | Some v \<Rightarrow> v)"

definition empty_schema :: pyval where
  "empty_schema = PDict [(''type'', PStr ''object''), (''properties'', PDict [])]"

text \<open>\<open>t["name"]\<close> is a \<open>KeyError\<close> when a tool has no name.\<close>

definition anthropic_tool :: "pydict \<Rightarrow> exn + pyval" where
  "anthropic_tool t =
     and_then (item_of (PDict t) ''name'') (\<lambda>nm.
       Inr (PDict [(''name'', nm), (''description'', tool_field t ''description'' (PStr [])),
         (''input_schema'', tool_field t ''parameters'' empty_schema)]))"

definition anthropic_body :: "adapter_env \<Rightarrow> model_spec \<Rightarrow> model_ask \<Rightarrow> exn + pyval" where
  "anthropic_body A m q =
     (case split_system (ask_messages q) of (system, converted) \<Rightarrow>
        and_then (try_map anthropic_tool (ask_tools q)) (\<lambda>tools.
          Inr (PDict ([(''model'', PStr (md_name m)),
            (''messages'', PList (converted @
               (if ask_json_mode q then [PDict [(''role'', PStr ''assistant''), (''content'', PStr ''{'')]] else []))),
            (''max_tokens'', PInt (int (ask_max_tokens q))), (''temperature'', float_of A (ask_temperature q))] @
            (if system = [] then [] else [(''system'', PStr system)]) @
            (if ask_tools q = [] then [] else [(''tools'', PList tools)])))))"

text \<open>One content block: its text, its tool call, or neither.\<close>

definition anthropic_block :: "adapter_env \<Rightarrow> nat \<Rightarrow> pyval \<Rightarrow> exn + string option \<times> tool_call option" where
  "anthropic_block A i b =
     and_then (get_of b ''type'' PNone) (\<lambda>t.
       if t = PStr ''text'' then
         and_then (get_of b ''text'' (PStr [])) (\<lambda>x. and_then (text_value x) (\<lambda>x. Inr (Some x, None)))
       else if t = PStr ''tool_use'' then
         and_then (get_of b ''id'' (PStr (ad_uuid A i))) (\<lambda>ident. and_then (text_value ident) (\<lambda>ident.
         and_then (get_of b ''name'' (PStr [])) (\<lambda>nm. and_then (text_value nm) (\<lambda>nm.
         and_then (get_of b ''input'' PNone) (\<lambda>arg. and_then (dict_value (or_else arg (PDict []))) (\<lambda>args.
           Inr (None, Some \<lparr>tc_id = ident, tc_name = nm, tc_arguments = args\<rparr>)))))))
       else Inr (None, None))"

definition with_brace :: "bool \<Rightarrow> string \<Rightarrow> string" where
  "with_brace json_mode txt =
     (if json_mode \<and> txt \<noteq> [] \<and> \<not> prefix ''{'' (dropWhile is_space txt) then ''{'' @ txt else txt)"

definition anthropic_read :: "adapter_env \<Rightarrow> model_spec \<Rightarrow> bool \<Rightarrow> pyval \<Rightarrow> exn + completion" where
  "anthropic_read A m json_mode data =
     and_then (get_of data ''type'' PNone) (\<lambda>t.
       if t = PStr ''error'' then
         and_then (get_of data ''error'' (PDict [])) (\<lambda>e. and_then (get_of e ''message'' data) (\<lambda>msg.
           Inl (provider_fault (''Anthropic: '' @ py_str msg) True)))
       else
         and_then (get_of data ''content'' (PList [])) (\<lambda>c. and_then (items_of c) (\<lambda>blocks.
         and_then (try_numbered (anthropic_block A) blocks) (\<lambda>read.
         and_then (get_of data ''usage'' PNone) (\<lambda>u.
         and_then (priced m (or_else u (PDict [])) ''input_tokens'' ''output_tokens'') (\<lambda>usage.
         and_then (get_of data ''stop_reason'' (PStr ''stop'')) (\<lambda>f. and_then (text_value f) (\<lambda>why.
           Inr (completed m ''anthropic'' (with_brace json_mode (concat (List.map_filter fst read))) (List.map_filter snd read)
             usage why)))))))))"

definition anthropic_complete :: "adapter_env \<Rightarrow> adapter \<Rightarrow> nat \<Rightarrow> model_spec \<Rightarrow> model_ask \<Rightarrow> exn + completion" where
  "anthropic_complete A P n m q =
     and_then (anthropic_body A m q) (\<lambda>body. and_then (anthropic_headers P) (\<lambda>hs.
     and_then (answer_data (ad_net A) (post_json (ad_net A) n (ad_base P @ ''/messages'') hs body (ask_timeout q)))
       (anthropic_read A m (ask_json_mode q))))"

definition anthropic_pieces :: "pyval \<Rightarrow> pieces" where
  "anthropic_pieces chunk =
     yielding (get_of chunk ''type'' PNone) (\<lambda>t.
       if t = PStr ''content_block_delta'' then
         yielding (and_then (get_of chunk ''delta'' PNone) (\<lambda>d. get_of (or_else d (PDict [])) ''text'' PNone)) piece
       else ([], None))"

definition anthropic_stream :: "adapter_env \<Rightarrow> adapter \<Rightarrow> nat \<Rightarrow> model_spec \<Rightarrow> model_ask \<Rightarrow> pieces" where
  "anthropic_stream A P n m q =
     (case split_system (ask_messages q) of (system, converted) \<Rightarrow>
        yielding (anthropic_headers P) (\<lambda>hs.
          sse_pieces anthropic_pieces (stream_sse (ad_net A) n (ad_base P @ ''/messages'') hs
            (PDict ([(''model'', PStr (md_name m)), (''messages'', PList converted), (''max_tokens'', PInt (int (ask_max_tokens q))),
               (''temperature'', float_of A (ask_temperature q)), (''stream'', PBool True)] @
               (if system = [] then [] else [(''system'', PStr system)]))) (ask_timeout q))))"

definition anthropic_health_request :: "adapter \<Rightarrow> (string \<times> (string \<times> string) list) option" where
  "anthropic_health_request P = (case anthropic_headers P of Inl e \<Rightarrow> None | Inr hs \<Rightarrow> Some (ad_base P @ ''/models'', hs))"

subsection \<open>Gemini\<close>

definition gemini_url :: "adapter \<Rightarrow> model_spec \<Rightarrow> string \<Rightarrow> exn + string" where
  "gemini_url P m how =
     (if ad_key P = [] then Inl (provider_fault ''Brak klucza Gemini'' False)
      else Inr (ad_base P @ ''/models/'' @ md_name m @ '':'' @ how @ ''?key='' @ ad_key P))"

definition gemini_message :: "message \<Rightarrow> pyval" where
  "gemini_message m =
     (if ms_role m = ROLE_TOOL then
        PDict [(''role'', PStr ''user''), (''parts'', PList [PDict [(''functionResponse'', PDict [(''name'', PStr (ms_name m)),
          (''response'', PDict [(''result'', PStr (ms_content m))])])]])]
      else
        (let parts = (if ms_content m = [] then [] else [PDict [(''text'', PStr (ms_content m))]]) @
               map (\<lambda>c. PDict [(''functionCall'', PDict [(''name'', PStr (tc_name c)), (''args'', PDict (tc_arguments c))])]) (ms_calls m) @
               map (\<lambda>raw. PDict [(''inlineData'', PDict [(''mimeType'', PStr ''image/png''), (''data'', PStr (b64encode False raw))])])
                 (ms_images m)
         in PDict [(''role'', PStr (if ms_role m = ROLE_ASSISTANT then ''model'' else ''user'')),
              (''parts'', PList (if parts = [] then [PDict [(''text'', PStr [])]] else parts))]))"

definition gemini_convert :: "message list \<Rightarrow> string \<times> pyval list" where
  "gemini_convert ms = (system_text ms, map gemini_message (filter (\<lambda>m. ms_role m \<noteq> ROLE_SYSTEM) ms))"

definition DROPPED_KEYWORDS :: "string list" where
  "DROPPED_KEYWORDS = [''additionalProperties'', ''default'', ''$schema'', ''examples'', ''choices'', ''required_by'']"

fun clean_schema :: "pyval \<Rightarrow> pyval" where
  "clean_schema (PDict d) =
     PDict (map (\<lambda>(k, v).
       (k, case v of
             PDict e \<Rightarrow> if k = ''properties'' then PDict (map (\<lambda>(p, x). (p, clean_schema x)) e) else clean_schema v
           | _ \<Rightarrow> v)) (filter (\<lambda>(k, v). k \<notin> set DROPPED_KEYWORDS) d))"
| "clean_schema v = v"

definition gemini_tool :: "pydict \<Rightarrow> exn + pyval" where
  "gemini_tool t =
     and_then (item_of (PDict t) ''name'') (\<lambda>nm.
     and_then (dict_value (tool_field t ''parameters'' empty_schema)) (\<lambda>d.
       Inr (PDict [(''name'', nm), (''description'', tool_field t ''description'' (PStr [])),
         (''parameters'', clean_schema (PDict d))])))"

definition gemini_body :: "adapter_env \<Rightarrow> model_ask \<Rightarrow> exn + pyval" where
  "gemini_body A q =
     (case gemini_convert (ask_messages q) of (system, contents) \<Rightarrow>
        and_then (try_map gemini_tool (ask_tools q)) (\<lambda>tools.
          Inr (PDict ([(''contents'', PList contents),
            (''generationConfig'', PDict ([(''temperature'', float_of A (ask_temperature q)),
               (''maxOutputTokens'', PInt (int (ask_max_tokens q)))] @
               (if ask_json_mode q then [(''responseMimeType'', PStr ''application/json'')] else [])))] @
            (if system = [] then [] else [(''systemInstruction'', PDict [(''parts'', PList [PDict [(''text'', PStr system)]])])]) @
            (if ask_tools q = [] then [] else [(''tools'', PList [PDict [(''functionDeclarations'', PList tools)]])])))))"

definition gemini_part :: "adapter_env \<Rightarrow> nat \<Rightarrow> pyval \<Rightarrow> exn + string option \<times> tool_call option" where
  "gemini_part A i part =
     and_then (has_key ''text'' part) (\<lambda>has_text.
       if has_text then and_then (item_of part ''text'') (\<lambda>x. and_then (text_value x) (\<lambda>x. Inr (Some x, None)))
       else and_then (has_key ''functionCall'' part) (\<lambda>has_call.
         if has_call then
           and_then (item_of part ''functionCall'') (\<lambda>fn.
           and_then (get_of fn ''name'' (PStr [])) (\<lambda>nm. and_then (text_value nm) (\<lambda>nm.
           and_then (get_of fn ''args'' PNone) (\<lambda>arg. and_then (dict_value (or_else arg (PDict []))) (\<lambda>args.
             Inr (None, Some \<lparr>tc_id = ad_uuid A i, tc_name = nm, tc_arguments = args\<rparr>))))))
         else Inr (None, None)))"

definition gemini_fault :: "pyval \<Rightarrow> exn + exn" where
  "gemini_fault data =
     and_then (item_of data ''error'') (\<lambda>e. and_then (get_of e ''message'' e) (\<lambda>msg.
       Inr (provider_fault (''Gemini: '' @ py_str msg) True)))"

definition gemini_refusal :: "pyval \<Rightarrow> exn + exn" where
  "gemini_refusal data =
     and_then (get_of data ''promptFeedback'' PNone) (\<lambda>fb.
     and_then (get_of (or_else fb (PDict [])) ''blockReason'' (PStr (''brak odpowiedzi''))) (\<lambda>why.
       Inr (provider_fault (''Gemini nie zwr'' @ pl_o @ ''ci'' @ pl_l @ ''o tre'' @ pl_s @ ''ci ('' @ py_str why @ '')'') True)))"

definition raised :: "exn + exn \<Rightarrow> exn + 'a" where
  "raised x = (case x of Inl e \<Rightarrow> Inl e | Inr e \<Rightarrow> Inl e)"

definition gemini_read :: "adapter_env \<Rightarrow> model_spec \<Rightarrow> pyval \<Rightarrow> exn + completion" where
  "gemini_read A m data =
     and_then (has_key ''error'' data) (\<lambda>failed.
       if failed then raised (gemini_fault data)
       else and_then (get_of data ''candidates'' PNone) (\<lambda>cs.
         if \<not> truthy cs then raised (gemini_refusal data)
         else and_then (first_of cs) (\<lambda>c.
           and_then (get_of c ''content'' PNone) (\<lambda>content.
           and_then (get_of (or_else content (PDict [])) ''parts'' PNone) (\<lambda>ps.
           and_then (items_of (or_else ps (PList []))) (\<lambda>parts.
           and_then (try_numbered (gemini_part A) parts) (\<lambda>read.
           and_then (get_of data ''usageMetadata'' PNone) (\<lambda>u.
           and_then (priced m (or_else u (PDict [])) ''promptTokenCount'' ''candidatesTokenCount'') (\<lambda>usage.
           and_then (get_of c ''finishReason'' (PStr ''stop'')) (\<lambda>f. and_then (text_value f) (\<lambda>why.
             Inr (completed m ''gemini'' (concat (List.map_filter fst read)) (List.map_filter snd read) usage why))))))))))))"

definition gemini_complete :: "adapter_env \<Rightarrow> adapter \<Rightarrow> nat \<Rightarrow> model_spec \<Rightarrow> model_ask \<Rightarrow> exn + completion" where
  "gemini_complete A P n m q =
     and_then (gemini_body A q) (\<lambda>body. and_then (gemini_url P m ''generateContent'') (\<lambda>url.
     and_then (answer_data (ad_net A) (post_json (ad_net A) n url [(''Content-Type'', ''application/json'')] body (ask_timeout q)))
       (gemini_read A m)))"

definition gemini_pieces :: "pyval \<Rightarrow> pieces" where
  "gemini_pieces chunk =
     yielding (and_then (get_of chunk ''candidates'' (PList [])) items_of) (each (\<lambda>c.
       yielding (and_then (get_of c ''content'' PNone) (\<lambda>x.
           and_then (get_of (or_else x (PDict [])) ''parts'' (PList [])) items_of)) (each (\<lambda>p.
         yielding (get_of p ''text'' PNone) piece))))"

definition gemini_stream :: "adapter_env \<Rightarrow> adapter \<Rightarrow> nat \<Rightarrow> model_spec \<Rightarrow> model_ask \<Rightarrow> pieces" where
  "gemini_stream A P n m q =
     (case gemini_convert (ask_messages q) of (system, contents) \<Rightarrow>
        yielding (gemini_url P m ''streamGenerateContent'') (\<lambda>url.
          sse_pieces gemini_pieces (stream_sse (ad_net A) n (url @ ''&alt=sse'') [(''Content-Type'', ''application/json'')]
            (PDict ([(''contents'', PList contents),
               (''generationConfig'', PDict [(''temperature'', float_of A (ask_temperature q)),
                  (''maxOutputTokens'', PInt (int (ask_max_tokens q)))])] @
               (if system = [] then [] else [(''systemInstruction'', PDict [(''parts'', PList [PDict [(''text'', PStr system)]])])])))
            (ask_timeout q))))"

definition gemini_health_request :: "adapter \<Rightarrow> (string \<times> (string \<times> string) list) option" where
  "gemini_health_request P = (if ad_key P = [] then None else Some (ad_base P @ ''/models?key='' @ ad_key P, []))"

subsection \<open>Ollama\<close>

record ollama =
  ol_base :: string
  ol_catalog :: "model_spec list"
  ol_installed :: "string list"
  ol_probed :: bool

definition ollama_models :: "ollama \<Rightarrow> model_spec list" where
  "ollama_models P = (if ol_probed P then filter (\<lambda>m. md_name m \<in> set (ol_installed P)) (ol_catalog P) else [])"

definition ollama_available :: "ollama \<Rightarrow> bool" where
  "ollama_available P = (ol_probed P \<and> ol_installed P \<noteq> [])"

text \<open>\<open>probe\<close>: a reply that is no reply leaves things as they were, an exception forgets the models, and one while the
  list is read escapes.\<close>

definition ollama_probe :: "adapter_env \<Rightarrow> nat \<Rightarrow> ollama \<Rightarrow> (exn + bool) \<times> ollama" where
  "ollama_probe A n P =
     (case and_then (get_url (ad_net A) n (ol_base P @ ''/api/tags'') [] 2) (\<lambda>r.
         if response_ok r then map_sum id Some (response_json (ad_net A) r) else Inr None) of
        Inl x \<Rightarrow> if x = Cancellation then (Inl x, P) else (Inr False, P\<lparr>ol_probed := True, ol_installed := []\<rparr>)
      | Inr None \<Rightarrow> (Inr False, P)
      | Inr (Some payload) \<Rightarrow>
          (case and_then (get_of payload ''models'' (PList [])) (\<lambda>ms. and_then (items_of ms) (\<lambda>ms.
              and_then (try_map (\<lambda>e. get_of e ''name'' (PStr [])) ms) (\<lambda>ns. try_map text_value (filter truthy ns)))) of
             Inl x \<Rightarrow> (Inl x, P)
           | Inr names \<Rightarrow> (Inr (names \<noteq> []), P\<lparr>ol_installed := names, ol_probed := True\<rparr>)))"

definition ollama_encode :: "message \<Rightarrow> pyval" where
  "ollama_encode m = PDict [(''role'', PStr (role_value (ms_role m))), (''content'', PStr (ms_content m))]"

definition ollama_body :: "adapter_env \<Rightarrow> model_spec \<Rightarrow> model_ask \<Rightarrow> pyval" where
  "ollama_body A m q =
     PDict ([(''model'', PStr (md_name m)), (''messages'', PList (map ollama_encode (ask_messages q))), (''stream'', PBool False),
        (''options'', PDict [(''temperature'', float_of A (ask_temperature q)), (''num_predict'', PInt (int (ask_max_tokens q)))])] @
       (if ask_json_mode q then [(''format'', PStr ''json'')] else []) @
       (if ask_tools q = [] then []
        else [(''tools'', PList (map (\<lambda>t. PDict [(''type'', PStr ''function''), (''function'', PDict t)]) (ask_tools q)))]))"

definition as_dict :: "(string \<Rightarrow> pyval) \<Rightarrow> pyval \<Rightarrow> pydict" where
  "as_dict fl v =
     (case v of
        PDict d \<Rightarrow> d
      | PStr s \<Rightarrow> (case json_loads fl s of Some (PDict d) \<Rightarrow> d | _ \<Rightarrow> [])
      | _ \<Rightarrow> [])"

definition ollama_call :: "adapter_env \<Rightarrow> nat \<Rightarrow> pyval \<Rightarrow> exn + tool_call" where
  "ollama_call A i call =
     and_then (get_of call ''function'' PNone) (\<lambda>fn.
     and_then (get_of (or_else fn (PDict [])) ''name'' (PStr [])) (\<lambda>nm. and_then (text_value nm) (\<lambda>nm.
     and_then (get_of (or_else fn (PDict [])) ''arguments'' PNone) (\<lambda>raw.
       Inr \<lparr>tc_id = ''local-'' @ nat_str i, tc_name = nm, tc_arguments = as_dict (nv_float (ad_net A)) raw\<rparr>))))"

definition ollama_read :: "adapter_env \<Rightarrow> model_spec \<Rightarrow> pyval \<Rightarrow> exn + completion" where
  "ollama_read A m data =
     and_then (get_of data ''message'' PNone) (\<lambda>msg. let message = or_else msg (PDict []) in
     and_then (get_of message ''tool_calls'' PNone) (\<lambda>raw_calls.
     and_then (items_of (or_else raw_calls (PList []))) (\<lambda>raw.
     and_then (try_numbered (ollama_call A) raw) (\<lambda>calls.
     and_then (get_of data ''prompt_eval_count'' (PInt 0)) (\<lambda>i. and_then (count_value i) (\<lambda>i.
     and_then (get_of data ''eval_count'' (PInt 0)) (\<lambda>j. and_then (count_value j) (\<lambda>j.
     and_then (get_of message ''content'' (PStr [])) (\<lambda>c. and_then (text_value c) (\<lambda>txt.
     and_then (get_of data ''done_reason'' (PStr ''stop'')) (\<lambda>f. and_then (text_value f) (\<lambda>why.
       Inr (completed m ''ollama'' txt calls \<lparr>us_input = i, us_output = j, us_cost = 0\<rparr> why)))))))))))))"

definition ollama_complete :: "adapter_env \<Rightarrow> ollama \<Rightarrow> nat \<Rightarrow> model_spec \<Rightarrow> model_ask \<Rightarrow> exn + completion" where
  "ollama_complete A P n m q =
     and_then (answer_data (ad_net A) (post_json (ad_net A) n (ol_base P @ ''/api/chat'') [] (ollama_body A m q) (ask_timeout q)))
       (ollama_read A m)"

text \<open>Its stream is the lines of one whole reply. \<open>line_break\<close> is the length of the line break a text begins with, on its bytes;
  \<open>split_lines\<close> is \<open>str.splitlines\<close>.\<close>

definition line_break :: "string \<Rightarrow> nat" where
  "line_break s =
     (if prefix [CHR 0x0D, CHR 0x0A] s \<or> prefix [CHR 0xC2, CHR 0x85] s then 2
      else if prefix [CHR 0xE2, CHR 0x80, CHR 0xA8] s \<or> prefix [CHR 0xE2, CHR 0x80, CHR 0xA9] s then 3
      else if s \<noteq> [] \<and> byte_of (hd s) \<in> {10, 11, 12, 13, 28, 29, 30} then 1
      else 0)"

fun lines_from :: "string \<Rightarrow> string \<Rightarrow> string list" where
  "lines_from acc [] = (if acc = [] then [] else [acc])"
| "lines_from acc (c # r) =
     (let k = line_break (c # r) in
      if k = 0 then lines_from (acc @ [c]) r else acc # lines_from [] (drop (k - 1) r))"

definition split_lines :: "string \<Rightarrow> string list" where
  "split_lines s = lines_from [] s"

definition ollama_line :: "adapter_env \<Rightarrow> string \<Rightarrow> pieces" where
  "ollama_line A line =
     (if strip line = [] then ([], None)
      else case json_loads (nv_float (ad_net A)) line of
          None \<Rightarrow> ([], None)
        | Some chunk \<Rightarrow>
            yielding (and_then (get_of chunk ''message'' PNone) (\<lambda>m. get_of (or_else m (PDict [])) ''content'' PNone)) piece)"

definition ollama_stream :: "adapter_env \<Rightarrow> ollama \<Rightarrow> nat \<Rightarrow> model_spec \<Rightarrow> model_ask \<Rightarrow> pieces" where
  "ollama_stream A P n m q =
     yielding (post_json (ad_net A) n (ol_base P @ ''/api/chat'') []
         (PDict [(''model'', PStr (md_name m)), (''messages'', PList (map ollama_encode (ask_messages q))), (''stream'', PBool True),
            (''options'', PDict [(''temperature'', float_of A (ask_temperature q)), (''num_predict'', PInt (int (ask_max_tokens q)))])])
         (ask_timeout q)) (\<lambda>r.
       if \<not> response_ok r then ([], Some (provider_fault (''Ollama: HTTP '' @ int_str (ns_status r)) True))
       else each (ollama_line A) (split_lines (response_text (ad_net A) r)))"

definition ollama_health_request :: "ollama \<Rightarrow> (string \<times> (string \<times> string) list) option" where
  "ollama_health_request P = Some (ol_base P @ ''/api/tags'', [])"

subsection \<open>The models offered, and the providers of the router\<close>

definition offered_model ::
  "string \<Rightarrow> string \<Rightarrow> job set \<Rightarrow> capability set \<Rightarrow> rat \<Rightarrow> rat \<Rightarrow> rat \<Rightarrow> rat \<Rightarrow> int \<Rightarrow> bool \<Rightarrow> model_spec" where
  "offered_model nm who jobs caps quality speed inp out ctx loc =
     \<lparr>md_name = nm, md_provider = who, md_jobs = jobs, md_capabilities = caps, md_quality = quality, md_speed = speed,
      md_input_cost = inp, md_output_cost = out, md_context = ctx, md_local = loc, md_stub = False\<rparr>"

definition OPENAI_MODELS :: "model_spec list" where
  "OPENAI_MODELS =
     [offered_model ''gpt-4.1'' ''openai'' {JOB_PLAN, JOB_REASON, JOB_CODE, JOB_CHAT, JOB_SUMMARIZE, JOB_EXTRACT, JOB_VISION}
        {CAN_TOOLS, CAN_VISION, CAN_JSON_MODE, CAN_STREAMING} (86 / 100) (6 / 10) 2 8 1000000 False,
      offered_model ''gpt-4.1-mini'' ''openai'' {JOB_CHAT, JOB_CLASSIFY, JOB_SUMMARIZE, JOB_EXTRACT, JOB_VISION}
        {CAN_TOOLS, CAN_VISION, CAN_JSON_MODE, CAN_STREAMING} (68 / 100) (9 / 10) (4 / 10) (16 / 10) 1000000 False,
      offered_model ''o3'' ''openai'' {JOB_REASON, JOB_PLAN, JOB_CODE} {CAN_TOOLS, CAN_JSON_MODE} (94 / 100) (25 / 100) 2 8 200000 False,
      offered_model ''gpt-4o-realtime-preview'' ''openai'' {JOB_VOICE} {CAN_REALTIME_VOICE, CAN_STREAMING, CAN_TOOLS}
        (7 / 10) (95 / 100) 5 20 128000 False]"

definition ANTHROPIC_MODELS :: "model_spec list" where
  "ANTHROPIC_MODELS =
     [offered_model ''claude-opus-5'' ''anthropic'' {JOB_PLAN, JOB_REASON, JOB_CODE, JOB_CHAT, JOB_SUMMARIZE, JOB_EXTRACT, JOB_VISION}
        {CAN_TOOLS, CAN_VISION, CAN_STREAMING, CAN_LONG_CONTEXT} (96 / 100) (5 / 10) 5 25 200000 False,
      offered_model ''claude-sonnet-5'' ''anthropic'' {JOB_PLAN, JOB_REASON, JOB_CODE, JOB_CHAT, JOB_SUMMARIZE, JOB_EXTRACT, JOB_VISION}
        {CAN_TOOLS, CAN_VISION, CAN_STREAMING, CAN_LONG_CONTEXT} (9 / 10) (72 / 100) 3 15 200000 False,
      offered_model ''claude-haiku-4-5-20251001'' ''anthropic'' {JOB_CHAT, JOB_CLASSIFY, JOB_SUMMARIZE, JOB_EXTRACT}
        {CAN_TOOLS, CAN_STREAMING} (7 / 10) (95 / 100) 1 5 200000 False]"

definition GEMINI_MODELS :: "model_spec list" where
  "GEMINI_MODELS =
     [offered_model ''gemini-2.5-pro'' ''gemini'' {JOB_PLAN, JOB_REASON, JOB_CODE, JOB_CHAT, JOB_SUMMARIZE, JOB_EXTRACT, JOB_VISION}
        {CAN_TOOLS, CAN_VISION, CAN_JSON_MODE, CAN_STREAMING, CAN_LONG_CONTEXT} (9 / 10) (55 / 100) (125 / 100) 10 1000000 False,
      offered_model ''gemini-2.5-flash'' ''gemini'' {JOB_CHAT, JOB_CLASSIFY, JOB_SUMMARIZE, JOB_EXTRACT, JOB_VISION, JOB_PLAN}
        {CAN_TOOLS, CAN_VISION, CAN_JSON_MODE, CAN_STREAMING, CAN_LONG_CONTEXT} (74 / 100) (93 / 100) (3 / 10) (25 / 10) 1000000 False,
      offered_model ''gemini-2.5-flash-native-audio-preview'' ''gemini'' {JOB_VOICE} {CAN_REALTIME_VOICE, CAN_STREAMING, CAN_TOOLS}
        (72 / 100) (96 / 100) (5 / 10) 2 128000 False]"

definition KNOWN_MODELS :: "model_spec list" where
  "KNOWN_MODELS =
     [offered_model ''qwen2.5:14b'' ''ollama'' {JOB_CHAT, JOB_CLASSIFY, JOB_SUMMARIZE, JOB_EXTRACT, JOB_PLAN}
        {CAN_LOCAL, CAN_TOOLS, CAN_STREAMING, CAN_JSON_MODE} (62 / 100) (5 / 10) 0 0 32000 True,
      offered_model ''llama3.2:3b'' ''ollama'' {JOB_CHAT, JOB_CLASSIFY, JOB_SUMMARIZE} {CAN_LOCAL, CAN_STREAMING}
        (42 / 100) (85 / 100) 0 0 16000 True]"

definition new_adapter :: "string \<Rightarrow> string \<Rightarrow> string \<Rightarrow> model_spec list \<Rightarrow> adapter" where
  "new_adapter key given home models = \<lparr>ad_key = key, ad_base = base_url given home, ad_models = models\<rparr>"

definition new_openai :: "string \<Rightarrow> string \<Rightarrow> adapter" where
  "new_openai key given = new_adapter key given ''https://api.openai.com/v1'' OPENAI_MODELS"

definition new_anthropic :: "string \<Rightarrow> string \<Rightarrow> adapter" where
  "new_anthropic key given = new_adapter key given ''https://api.anthropic.com/v1'' ANTHROPIC_MODELS"

definition new_gemini :: "string \<Rightarrow> string \<Rightarrow> adapter" where
  "new_gemini key given = new_adapter key given ''https://generativelanguage.googleapis.com/v1beta'' GEMINI_MODELS"

definition new_ollama :: "string \<Rightarrow> ollama" where
  "new_ollama given =
     \<lparr>ol_base = base_url given ''http://127.0.0.1:11434'', ol_catalog = KNOWN_MODELS, ol_installed = [], ol_probed = False\<rparr>"

text \<open>The router sends system and user messages without images or calls.\<close>

definition as_messages :: "(chat_role \<times> string) list \<Rightarrow> message list" where
  "as_messages xs =
     map (\<lambda>(r, t). plain_message (case r of System_role \<Rightarrow> ROLE_SYSTEM | User_role \<Rightarrow> ROLE_USER) t) xs"

definition ask_of_call :: "model_call \<Rightarrow> model_ask" where
  "ask_of_call c =
     \<lparr>ask_messages = as_messages (mk_messages c),
      ask_tools = mk_tools c, ask_temperature = mk_temperature c, ask_max_tokens = mk_max_tokens c,
      ask_json_mode = mk_json_mode c, ask_timeout = mk_timeout c\<rparr>"

definition cloud_provider ::
  "string \<Rightarrow> (adapter \<Rightarrow> nat \<Rightarrow> model_spec \<Rightarrow> model_ask \<Rightarrow> exn + completion) \<Rightarrow> adapter \<Rightarrow> provider" where
  "cloud_provider nm reply P =
     \<lparr>pv_name = nm, pv_models = ad_models P, pv_available = (ad_key P \<noteq> []),
      pv_complete = (\<lambda>n m c. reply P n m (ask_of_call c))\<rparr>"

definition ollama_provider :: "adapter_env \<Rightarrow> ollama \<Rightarrow> provider" where
  "ollama_provider A P =
     \<lparr>pv_name = ''ollama'', pv_models = ollama_models P, pv_available = ollama_available P,
      pv_complete = (\<lambda>n m c. ollama_complete A P n m (ask_of_call c))\<rparr>"

text \<open>What the pool builds from a name, a key and an address.\<close>

definition vendor_adapter :: "adapter_env \<Rightarrow> string \<Rightarrow> string \<Rightarrow> string \<Rightarrow> provider" where
  "vendor_adapter A nm key given =
     (if nm = ''openai'' then cloud_provider nm (openai_complete A) (new_openai key given)
      else if nm = ''anthropic'' then cloud_provider nm (anthropic_complete A) (new_anthropic key given)
      else if nm = ''gemini'' then cloud_provider nm (gemini_complete A) (new_gemini key given)
      else ollama_provider A (new_ollama given))"

subsection \<open>What is written is read\<close>

lemma and_then_simps [simp]: "and_then (Inl e) f = Inl e" "and_then (Inr v) f = f v"
  by (simp_all add: and_then_def)

lemma try_map_append:
  "try_map f (xs @ ys) =
     (case try_map f xs of Inl e \<Rightarrow> Inl e | Inr a \<Rightarrow> (case try_map f ys of Inl e \<Rightarrow> Inl e | Inr b \<Rightarrow> Inr (a @ b)))"
  by (induction xs) (auto split: sum.splits)

lemma try_numbered_map:
  assumes "\<And>i x. x \<in> set xs \<Longrightarrow> f i (g x) = Inr (h x)"
  shows "try_numbered f (map g xs) = Inr (map h xs)"
proof -
  have "list_all2 (\<lambda>x y. (case x of (i, x) \<Rightarrow> f i x) = Inr y) (zip [0..<length xs] (map g xs)) (map h xs)"
    using assms by (auto simp: list_all2_conv_all_nth)
  then show ?thesis by (simp add: try_numbered_def try_map_Inr)
qed

lemma try_numbered_Cons_map:
  assumes "\<And>i. f i a = Inr b" "\<And>i x. x \<in> set xs \<Longrightarrow> f i (g x) = Inr (h x)"
  shows "try_numbered f (a # map g xs) = Inr (b # map h xs)"
proof -
  let ?g = "\<lambda>y. case y of None \<Rightarrow> a | Some x \<Rightarrow> g x" and ?h = "\<lambda>y. case y of None \<Rightarrow> b | Some x \<Rightarrow> h x"
  have "try_numbered f (map ?g (None # map Some xs)) = Inr (map ?h (None # map Some xs))"
    by (rule try_numbered_map) (use assms in auto)
  then show ?thesis by (simp add: comp_def)
qed

lemma openai_call_reads_back:
  assumes "json_ok (nv_float (ad_net A)) (PDict (tc_arguments c))"
  shows "openai_call A i (openai_call_value c) = Inr c"
proof -
  have "truthy (PStr (json_text (PDict (tc_arguments c))))" by simp
  then show ?thesis
    using json_loads_of_text [OF assms]
    by (simp add: openai_call_def openai_call_value_def get_of_def item_of_def text_value_def load_args_def or_else_def)
qed

text \<open>An assistant turn with tool calls, sent back to OpenAI as the reply it came from, reads as the same text and calls.\<close>

lemma openai_turn_reads_back:
  assumes "ms_role m = ROLE_ASSISTANT" "ms_calls m \<noteq> []"
    and "\<forall>c \<in> set (ms_calls m). json_ok (nv_float (ad_net A)) (PDict (tc_arguments c))"
  shows "openai_read A md (PDict [(''choices'', PList [PDict [(''message'', openai_encode m)]])]) =
    Inr (completed md ''openai'' (ms_content m) (ms_calls m) \<lparr>us_input = 0, us_output = 0, us_cost = 0\<rparr> ''stop'')"
proof -
  have "try_numbered (openai_call A) (map openai_call_value (ms_calls m)) = Inr (map id (ms_calls m))"
    by (rule try_numbered_map) (use assms(3) openai_call_reads_back in auto)
  then show ?thesis
    using assms(1,2)
    by (simp add: openai_read_def openai_choice_def openai_encode_def item_of_def first_of_def get_of_def or_else_def items_of_def
        py_iter_def text_value_def priced_def count_value_def price_for_def)
qed

lemma tool_use_reads_back: "anthropic_block A i (tool_use_block c) = Inr (None, Some c)"
  by (simp add: anthropic_block_def tool_use_block_def get_of_def text_value_def dict_value_def or_else_def)

lemma text_block_reads_back: "anthropic_block A i (text_block s) = Inr (Some s, None)"
  by (simp add: anthropic_block_def text_block_def get_of_def text_value_def)

lemma anthropic_turn_reads_back:
  assumes "ms_role m = ROLE_ASSISTANT" "ms_calls m \<noteq> []" "anthropic_message m = PDict [(''role'', r), (''content'', content)]"
  shows "anthropic_read A md False (PDict [(''content'', content)]) =
    Inr (completed md ''anthropic'' (ms_content m) (ms_calls m) \<lparr>us_input = 0, us_output = 0, us_cost = 0\<rparr> ''stop'')"
proof -
  let ?bs = "(if ms_content m = [] then [] else [text_block (ms_content m)]) @ map tool_use_block (ms_calls m)"
  let ?rs = "(if ms_content m = [] then [] else [(Some (ms_content m), None)]) @ map (\<lambda>c. (None, Some c)) (ms_calls m)"
  have "try_numbered (anthropic_block A) ?bs = Inr ?rs"
    using try_numbered_map [of "ms_calls m" "anthropic_block A" tool_use_block "\<lambda>c. (None, Some c)"]
      try_numbered_Cons_map [of "anthropic_block A" "text_block (ms_content m)" "(Some (ms_content m), None)" "ms_calls m" tool_use_block "\<lambda>c. (None, Some c)"]
    by (simp add: tool_use_reads_back text_block_reads_back)
  moreover have "concat (List.map_filter fst ?rs) = ms_content m" "List.map_filter snd ?rs = ms_calls m"
    by (simp_all add: List.map_filter_def comp_def)
  moreover have "content = PList ?bs" using assms by (simp add: anthropic_message_def)
  ultimately show ?thesis
    by (simp add: anthropic_read_def get_of_def or_else_def items_of_def py_iter_def text_value_def priced_def count_value_def
        price_for_def with_brace_def del: append.simps)
qed

subsection \<open>Where a key can go\<close>

text \<open>Given a network whose answers do not depend on headers, what OpenAI's and Anthropic's adapters return or raise does not
  depend on the key: it is in no text, name or message they make.\<close>

definition header_blind :: "net_env \<Rightarrow> bool" where
  "header_blind V = (\<forall>n q hs. nv_fetch V n (q\<lparr>nq_headers := hs\<rparr>) = nv_fetch V n q)"

lemma send_blind: "header_blind V \<Longrightarrow> send_request V n (q\<lparr>nq_headers := hs\<rparr>) = send_request V n q"
  by (simp add: send_request_def header_blind_def timed_out_def unreachable_def Let_def split: fetched.split sum.split)

lemma post_blind:
  assumes "header_blind V"
  shows "post_json V n url hs body timeout = post_json V n url hs' body timeout"
proof -
  let ?q = "\<lambda>hs. prepare_request ''POST'' url hs (Some body) None timeout"
  have "?q hs = (?q hs')\<lparr>nq_headers := nq_headers (?q hs)\<rparr>" by (simp add: prepare_request_def Let_def)
  then show ?thesis unfolding post_json_def using send_blind [OF assms] by metis
qed

lemma post_blind_fun:
  assumes "header_blind V"
  obtains f where "\<forall>url hs body timeout. post_json V n url hs body timeout = f url body timeout"
  using post_blind [OF assms, of n _ _ _ _ "[]"] that [of "\<lambda>url body timeout. post_json V n url [] body timeout"] by blast

lemma openai_key_stays_in_its_header:
  assumes "header_blind (ad_net A)" "ad_key P \<noteq> []" "key \<noteq> []"
  shows "openai_complete A (P\<lparr>ad_key := key\<rparr>) n m q = openai_complete A P n m q"
proof -
  obtain f where "\<forall>url hs body timeout. post_json (ad_net A) n url hs body timeout = f url body timeout"
    by (rule post_blind_fun [where n = n, OF assms(1)])
  then show ?thesis using assms(2,3) by (simp add: openai_complete_def openai_headers_def)
qed

lemma anthropic_key_stays_in_its_header:
  assumes "header_blind (ad_net A)" "ad_key P \<noteq> []" "key \<noteq> []"
  shows "anthropic_complete A (P\<lparr>ad_key := key\<rparr>) n m q = anthropic_complete A P n m q"
proof -
  obtain f where "\<forall>url hs body timeout. post_json (ad_net A) n url hs body timeout = f url body timeout"
    by (rule post_blind_fun [where n = n, OF assms(1)])
  then show ?thesis using assms(2,3) by (simp add: anthropic_complete_def anthropic_headers_def)
qed

text \<open>Gemini's key is part of the address, and the address is part of every error of the HTTP client: whatever goes wrong on the
  way, or with any status but success, the key is in the message.\<close>

definition shows_text :: "exn \<Rightarrow> string \<Rightarrow> bool" where
  "shows_text x s = (case x of Garis g \<Rightarrow> contains (ge_message g) s | _ \<Rightarrow> False)"

lemma contains_here: "contains (s @ b) s"
  by (auto simp: contains_iff_sublist sublist_def)

lemma contains_after: "contains t s \<Longrightarrow> contains (a @ t) s"
  by (auto simp: contains_iff_sublist sublist_def) (metis append_assoc)

lemma contains_self: "contains s s"
  using contains_here [of s "[]"] by simp

lemma contains_trans: "contains a b \<Longrightarrow> contains b c \<Longrightarrow> contains a c"
  using sublist_order.order.trans by (auto simp: contains_iff_sublist)

definition call_failed :: "fetched \<Rightarrow> bool" where
  "call_failed x =
     (case x of
        Opened status hs raw \<Rightarrow> False
      | HttpError status hs raw \<Rightarrow> status < 200 \<or> 300 \<le> status
      | UrlError late reason \<Rightarrow> True
      | TimedOut \<Rightarrow> True
      | Crashed e \<Rightarrow> False)"

lemma failed_request_names_its_address:
  assumes "call_failed (nv_fetch V n q)"
  shows "\<exists>x. and_then (send_request V n q) (raise_for_status V) = Inl x \<and> shows_text x (nq_url q)"
proof -
  have refused: "shows_text (Garis (execution_error ExecutionError (a @ b @ c @ nq_url q @ d) None r None st)) (nq_url q)"
    for a b c d :: string and r st
    by (simp add: shows_text_def execution_error_def mk_error_def del: append.simps) (intro contains_after contains_here)
  have lost: "shows_text (unreachable q why) (nq_url q)" for why
    by (simp add: shows_text_def unreachable_def execution_error_def mk_error_def del: append.simps)
      (intro contains_after contains_here)
  have late: "shows_text (timed_out q) (nq_url q)"
    by (simp add: shows_text_def timed_out_def execution_error_def mk_error_def del: append.simps)
      (intro contains_after contains_self)
  show ?thesis
    using assms refused lost late
    by (auto simp: call_failed_def send_request_def raise_for_status_def response_ok_def simp del: append.simps split: fetched.splits)
qed

lemma gemini_failure_shows_the_key:
  assumes "ad_key P \<noteq> []" "gemini_body A q = Inr body" "\<And>r. call_failed (nv_fetch (ad_net A) n r)"
  shows "\<exists>x. gemini_complete A P n m q = Inl x \<and> shows_text x (ad_key P)"
proof -
  let ?url = "ad_base P @ ''/models/'' @ md_name m @ '':'' @ ''generateContent'' @ ''?key='' @ ad_key P"
  let ?r = "prepare_request ''POST'' ?url [(''Content-Type'', ''application/json'')] (Some body) None (ask_timeout q)"
  have url: "nq_url ?r = ?url" by (simp add: prepare_request_def Let_def)
  have "contains ?url (ad_key P)"
    by (intro contains_after contains_self)
  moreover obtain x where "and_then (send_request (ad_net A) n ?r) (raise_for_status (ad_net A)) = Inl x" "shows_text x ?url"
    using failed_request_names_its_address [OF assms(3), of ?r] url by metis
  ultimately show ?thesis
    using assms(1,2)
    by (auto simp: gemini_complete_def gemini_url_def answer_data_def post_json_def and_then_def shows_text_def
        split: sum.splits exn.splits intro: contains_trans)
qed

text \<open>So when the last provider tried is such a Gemini, the exception the router raises for a task names the key.\<close>

lemma failing_gemini_tells_the_router:
  assumes "ch_provider c = vendor_adapter A ''gemini'' key given" "key \<noteq> []" "mk_tools call = []"
    and "\<And>n r. call_failed (nv_fetch (ad_net A) n r)"
  shows "\<exists>errs. fst (try_choices clock call [c] tried [] Rb) = Exhausted (tried @ [vendor c]) errs \<and>
    contains (ge_message (all_failed (tried @ [vendor c]) errs)) key"
proof -
  let ?P = "new_gemini key given" and ?q = "ask_of_call (call_for call c)"
  have key: "ad_key ?P = key" by (simp add: new_gemini_def new_adapter_def)
  have "\<exists>body. gemini_body A ?q = Inr body"
    using assms(3) by (simp add: gemini_body_def ask_of_call_def call_for_def split: prod.splits)
  then obtain x where x: "gemini_complete A ?P (mr_calls (fst Rb)) (ch_model c) ?q = Inl x" "shows_text x key"
    using gemini_failure_shows_the_key [of ?P A ?q _ "mr_calls (fst Rb)" "ch_model c"] assms(2,4) key by metis
  then obtain g where g: "x = Garis g" "contains (ge_message g) key"
    by (auto simp: shows_text_def split: exn.splits)
  have "ask_choice (mr_calls (fst Rb)) call c = Inl (Garis g)"
    using x(1) g(1) assms(1) by (simp add: ask_choice_def vendor_adapter_def cloud_provider_def)
  moreover have "contains (ge_message (all_failed t [call_error c (Garis g)])) key" for t
    using g(2) by (auto simp: all_failed_def mk_error_def call_error_def Let_def join_def simp del: append.simps(2) contains_Cons
        intro!: contains_after)
  ultimately show ?thesis by (simp add: Let_def split_beta)
qed

text \<open>The opening brace is put before Claude's answer only in JSON mode, which the router never asks of a model without that
  capability; none of Claude's models declares it.\<close>

lemma claude_is_never_asked_for_json:
  assumes "ch_model c \<in> set ANTHROPIC_MODELS"
  shows "\<not> mk_json_mode (call_for call c)"
  using assms by (auto simp: call_for_def ANTHROPIC_MODELS_def offered_model_def)

text \<open>What Gemini is sent has none of the keywords it rejects wherever the code looks: in a schema, the schemas of its properties,
  and the objects a keyword holds.\<close>

fun schema_ok :: "pyval \<Rightarrow> bool" where
  "schema_ok (PDict d) =
     list_all (\<lambda>(k, v). k \<notin> set DROPPED_KEYWORDS \<and>
       (case v of
          PDict e \<Rightarrow> if k = ''properties'' then list_all (\<lambda>(p, x). schema_ok x) e else schema_ok v
        | _ \<Rightarrow> True)) d"
| "schema_ok v = True"

lemmas schema_steps = schema_ok.simps(1) clean_schema.simps(1)

lemma clean_schema_is_ok: "schema_ok (clean_schema v)"
proof (induction v rule: clean_schema.induct)
  case (1 d)
  have "case v of PDict e \<Rightarrow> if k = ''properties'' then list_all (\<lambda>(p, x). schema_ok x) e else schema_ok v | _ \<Rightarrow> True"
    if kv: "(k, u) \<in> set (filter (\<lambda>(k, v). k \<notin> set DROPPED_KEYWORDS) d)"
      and v: "v = (case u of PDict e \<Rightarrow> if k = ''properties'' then PDict (map (\<lambda>(p, x). (p, clean_schema x)) e) else clean_schema u | _ \<Rightarrow> u)"
    for k u v
  proof (cases u)
    case (PDict e)
    show ?thesis
    proof (cases "k = ''properties''")
      case True
      have "schema_ok (clean_schema x)" if "(p, x) \<in> set e" for p x
        using "1.IH"(1) [OF kv _ PDict True that] by simp
      then show ?thesis using v PDict True by (auto simp: list_all_iff simp del: schema_steps)
    next
      case False
      then have "v = clean_schema u" "schema_ok (clean_schema u)" using v PDict "1.IH"(2) [OF kv _ PDict False] by (auto simp del: schema_steps)
      then show ?thesis using False by (auto simp del: schema_steps split: pyval.split)
    qed
  qed (use v in simp_all)
  then show ?case unfolding schema_steps by (fastforce simp: list_all_iff simp del: schema_steps)
qed simp_all

end
