(* ===== verification/Canned.thy ===== *)
theory Canned
  imports Adapters Verify
begin

section \<open>The canned provider (models/providers/fake.py)\<close>

text \<open>
  Answers without a model: scripted replies, scripted failures, and a small set of rules for a machine without any key. A
  scripted function is one of the messages (\<open>Computed\<close>); \<open>role_aware\<close>, which counts its plans, is a function of that count.
  Sets of words are lists without duplicates. A tool's effects or parameters of a shape no catalogue has raise what Python
  raises; \<open>fl\<close> reads a float.
\<close>

datatype said = SaidText string | SaidCompletion completion

datatype reply_script = Fixed said | Computed "message list \<Rightarrow> exn + said"

record canned =
  cn_replies :: "reply_script list"
  cn_index :: nat
  cn_fail_times :: nat
  cn_fail_with :: string
  cn_spec :: model_spec
  cn_loop_last :: bool
  cn_stub :: bool
  cn_calls :: "message list list"
  cn_tool_payloads :: "pydict list list"

definition FAKE_SPEC :: model_spec where
  "FAKE_SPEC =
     \<lparr>md_name = ''fake-1'', md_provider = ''fake'', md_jobs = UNIV,
      md_capabilities = {CAN_TOOLS, CAN_JSON_MODE, CAN_STREAMING, CAN_LOCAL}, md_quality = 3 / 10, md_speed = 1,
      md_input_cost = 0, md_output_cost = 0, md_context = 128000, md_local = True, md_stub = True\<rparr>"

definition new_canned :: "reply_script list \<Rightarrow> nat \<Rightarrow> bool \<Rightarrow> canned" where
  "new_canned replies fail_times stub =
     \<lparr>cn_replies = replies, cn_index = 0, cn_fail_times = fail_times, cn_fail_with = ''symulowana awaria dostawcy'',
      cn_spec = FAKE_SPEC, cn_loop_last = True, cn_stub = stub, cn_calls = [], cn_tool_payloads = []\<rparr>"

subsection \<open>Words\<close>

text \<open>Letters that NFKD leaves alone, though the hand-made table of \<open>text.py\<close> knows them: they split a word here.\<close>

definition stands_alone :: "char \<Rightarrow> char \<Rightarrow> bool" where
  "stands_alone a b =
     (a = CHR 0xC3 \<and> byte_of b \<in> {0x86, 0x90, 0x98, 0x9E, 0x9F, 0xA6, 0xB0, 0xB8, 0xBE} \<or>
      a = CHR 0xC4 \<and> byte_of b \<in> {0x90, 0x91, 0xA6, 0xA7, 0xB1} \<or>
      a = CHR 0xC5 \<and> byte_of b \<in> {0x81, 0x82, 0x92, 0x93})"

fun nfkd_chars :: "string \<Rightarrow> string" where
  "nfkd_chars [] = []"
| "nfkd_chars (a # r) =
     (if byte_of a < 192 \<or> 224 \<le> byte_of a then fold_ascii a @ nfkd_chars r
      else (case r of [] \<Rightarrow> '' '' | b # s \<Rightarrow> (if stands_alone a b then '' '' else fold_pair a b) @ nfkd_chars s))"

definition STOPWORDS :: "string list" where
  "STOPWORDS =
     [''jak'', ''ile'', ''czy'', ''dla'', ''the'', ''and'', ''mnie'', ''mam'', ''moje'', ''moja'', ''moj'',
      ''sprawdz'', ''pokaz'', ''zrob'', ''prosze'', ''chce'', ''teraz'', ''tego'', ''tym'', ''sie'']"

definition CHANGE_INTENT :: "string list" where
  "CHANGE_INTENT =
     [''zains'', ''insta'', ''skonf'', ''konfi'', ''napra'', ''wdroz'', ''usun'', ''wysla'', ''wysli'',
      ''zmien'', ''utwor'', ''stwor'', ''zakti'', ''zaktu'', ''przen'', ''skasu'', ''wylac'', ''wlacz'',
      ''resta'', ''uruch'', ''zatrz'', ''kupic'', ''zamow'', ''oplac'', ''zapla'', ''publi'', ''deplo'',
      ''confi'', ''creat'', ''delet'', ''remov'', ''updat'', ''upgra'', ''fix'', ''send'', ''buy'']"

definition token_words :: "string \<Rightarrow> string list" where
  "token_words t = filter (\<lambda>w. 2 < length w \<and> w \<notin> set STOPWORDS) (split_ws (nfkd_chars t))"

definition tokens :: "string \<Rightarrow> string list" where
  "tokens t = remdups (token_words t @ map (take 5) (token_words t))"

definition wants_change :: "string \<Rightarrow> bool" where
  "wants_change goal = list_ex (\<lambda>w. w \<in> set CHANGE_INTENT) (tokens goal)"

subsection \<open>Reading the prompt\<close>

definition contents_of :: "role \<Rightarrow> message list \<Rightarrow> string list" where
  "contents_of r ms = map ms_content (filter (\<lambda>m. ms_role m = r) ms)"

definition PLANNER_MARKER :: string where "PLANNER_MARKER = ''planowania GARIS''"

definition VERIFIER_MARKER :: string where "VERIFIER_MARKER = ''Oce'' @ pl_n @ '', czy cel''"

text \<open>From the first opening bracket to the last closing one after it.\<close>

definition bracketed :: "string \<Rightarrow> string" where
  "bracketed s = rev (dropWhile (\<lambda>c. c \<noteq> CHR '']'') (rev (dropWhile (\<lambda>c. c \<noteq> CHR ''['') s)))"

definition named_tools :: "pyval \<Rightarrow> pydict list" where
  "named_tools v =
     (case v of
        PList xs \<Rightarrow> List.map_filter (\<lambda>t. case t of PDict d \<Rightarrow> if map_of d ''name'' \<noteq> None then Some d else None | _ \<Rightarrow> None) xs
      | _ \<Rightarrow> [])"

definition tools_in :: "(string \<Rightarrow> pyval) \<Rightarrow> string \<Rightarrow> pydict list" where
  "tools_in fl s = (if bracketed s = [] then [] else case json_loads fl (bracketed s) of None \<Rightarrow> [] | Some v \<Rightarrow> named_tools v)"

definition extract_catalogue :: "(string \<Rightarrow> pyval) \<Rightarrow> message list \<Rightarrow> pydict list" where
  "extract_catalogue fl ms =
     (case filter (\<lambda>ts. ts \<noteq> []) (map (tools_in fl) (contents_of ROLE_SYSTEM ms)) of [] \<Rightarrow> [] | ts # _ \<Rightarrow> ts)"

definition last_said :: "message list \<Rightarrow> string" where
  "last_said ms = (let us = contents_of ROLE_USER ms in if us = [] then [] else last us)"

definition extract_goal :: "message list \<Rightarrow> string" where
  "extract_goal ms =
     (case filter (prefix ''CEL:'') (contents_of ROLE_USER ms) of [] \<Rightarrow> last_said ms | t # _ \<Rightarrow> strip (drop 4 t))"

subsection \<open>A plan without a model\<close>

definition needs_a_model :: pyval where
  "needs_a_model =
     PDict [(''summary'', PStr []), (''steps'', PList []),
       (''question'', PStr (''Bez skonfigurowanego modelu AI poradz'' @ pl_e @ '' sobie tylko z prostym rozpoznaniem, a to zadanie wymaga realnych zmian. Dodaj klucz (garis vault set openai_api_key) i zlec je ponownie '' @ em_dash @ '' wykonam je w ca'' @ pl_l @ ''o'' @ pl_s @ ''ci.''))]"

definition is_required :: "string \<times> pyval \<Rightarrow> bool" where
  "is_required p = (case snd p of PDict d \<Rightarrow> (case map_of d ''required'' of None \<Rightarrow> False | Some r \<Rightarrow> truthy r) | _ \<Rightarrow> False)"

text \<open>\<open>(tool.get("params") or {}).items()\<close> and \<open>set(tool.get("effects") or [])\<close>.\<close>

definition params_of :: "pydict \<Rightarrow> exn + pydict" where
  "params_of t =
     (case or_else (tool_field t ''params'' PNone) (PDict []) of
        PDict d \<Rightarrow> Inr d
      | v \<Rightarrow> Inl (PyExn ''AttributeError'' (repr_str (type_name v) @ '' object has no attribute '' @ repr_str ''items'')))"

definition hashable :: "pyval \<Rightarrow> bool" where
  "hashable v = (case v of PList _ \<Rightarrow> False | PDict _ \<Rightarrow> False | _ \<Rightarrow> True)"

definition effects_in :: "pydict \<Rightarrow> exn + pyval list" where
  "effects_in t =
     and_then (items_of (or_else (tool_field t ''effects'' PNone) (PList []))) (\<lambda>es.
       case filter (\<lambda>e. \<not> hashable e) es of
         [] \<Rightarrow> Inr es
       | e # _ \<Rightarrow> Inl (PyExn ''TypeError'' (''unhashable type: '' @ repr_str (type_name e))))"

definition only_looks :: "pyval list \<Rightarrow> bool" where
  "only_looks es = (set es \<subseteq> {PStr ''read'', PStr ''network''})"

definition match_score :: "string list \<Rightarrow> pydict \<Rightarrow> nat" where
  "match_score words t =
     (let hay = tokens (py_str (tool_field t ''name'' (PStr [])) @ '' '' @ py_str (tool_field t ''summary'' (PStr [])))
      in length (filter (\<lambda>w. w \<in> set hay) words))"

fun best_tool :: "string list \<Rightarrow> pydict list \<Rightarrow> nat \<times> pydict option \<Rightarrow> exn + nat \<times> pydict option" where
  "best_tool words [] best = Inr best"
| "best_tool words (t # ts) best =
     and_then (params_of t) (\<lambda>ps.
       if list_ex is_required ps then best_tool words ts best
       else and_then (effects_in t) (\<lambda>es.
         if \<not> only_looks es then best_tool words ts best
         else let score = match_score words t
              in best_tool words ts (if fst best < score then (score, Some t) else best)))"

definition canned_step :: "pydict \<Rightarrow> pyval" where
  "canned_step t =
     PDict [(''key'', PStr ''rozpoznanie''), (''tool'', tool_field t ''name'' PNone), (''params'', PDict []),
       (''purpose'', tool_field t ''summary'' (PStr [])), (''expects'', PStr ''dane odczytane'')]"

definition plan_with :: "pydict \<Rightarrow> pyval" where
  "plan_with t =
     PDict [(''summary'', PStr (''Sprawdz'' @ pl_e @ '' to narz'' @ pl_e @ ''dziem '' @ py_str (tool_field t ''name'' PNone) @ ''.'')),
       (''assumptions'', PList [PStr (''Dzia'' @ pl_l @ ''am bez modelu AI, wi'' @ pl_e @ ''c wykonuj'' @ pl_e @ '' samo rozpoznanie.'')]),
       (''steps'', PList [canned_step t]), (''question'', PStr [])]"

definition canned_plan :: "(string \<Rightarrow> pyval) \<Rightarrow> message list \<Rightarrow> exn + pyval" where
  "canned_plan fl ms =
     (let goal = extract_goal ms in
      if wants_change goal then Inr needs_a_model
      else and_then (best_tool (tokens goal) (extract_catalogue fl ms) (0, None)) (\<lambda>(score, best).
        case best of
          None \<Rightarrow> Inr needs_a_model
        | Some t \<Rightarrow>
            if score < 1 then Inr needs_a_model
            else Inr (plan_with t)))"

subsection \<open>Replies\<close>

definition VERIFIED :: pyval where
  "VERIFIED = PDict [(''ok'', PBool True), (''note'', PStr ''Sprawdzone.''), (''unmet'', PList [])]"

definition canned_reply :: "(string \<Rightarrow> pyval) \<Rightarrow> message list \<Rightarrow> exn + said" where
  "canned_reply fl ms =
     (let system = join nl (contents_of ROLE_SYSTEM ms) in
      if contains system PLANNER_MARKER then map_sum id (\<lambda>v. SaidText (json_text v)) (canned_plan fl ms)
      else if contains system VERIFIER_MARKER then Inr (SaidText (json_text VERIFIED))
      else let t = strip (last_said ms)
           in Inr (SaidText (if t = [] then ''S'' @ pl_l @ ''ucham.'' else ''Przyj'' @ pl_a @ pl_l @ ''em: '' @ cp_take 200 t)))"

text \<open>\<open>role_aware\<close>: the reply and how many plans it has handed out. An empty script is an \<open>IndexError\<close>.\<close>

definition role_aware :: "string list \<Rightarrow> string \<Rightarrow> string \<Rightarrow> nat \<Rightarrow> message list \<Rightarrow> (exn + string) \<times> nat" where
  "role_aware plans verification chat used ms =
     (let system = join nl (contents_of ROLE_SYSTEM ms) in
      if contains system PLANNER_MARKER then
        (if plans = [] then Inl (PyExn ''IndexError'' ''list index out of range'')
         else Inr (plans ! min used (length plans - 1)), used + 1)
      else (Inr (if contains system VERIFIER_MARKER then verification else chat), used))"

definition rough_tokens :: "message list \<Rightarrow> nat" where
  "rough_tokens ms = sum_list (map (\<lambda>m. cp_len (ms_content m)) ms) div 4"

definition canned_next :: "(string \<Rightarrow> pyval) \<Rightarrow> canned \<Rightarrow> (exn + reply_script) \<times> canned" where
  "canned_next fl P =
     (if cn_replies P = [] then (Inr (Computed (canned_reply fl)), P)
      else if cn_index P < length (cn_replies P) then (Inr (cn_replies P ! cn_index P), P\<lparr>cn_index := cn_index P + 1\<rparr>)
      else if cn_loop_last P then (Inr (last (cn_replies P)), P)
      else (Inl (provider_fault (''Sko'' @ pl_n @ ''czy'' @ pl_l @ ''y si'' @ pl_e @ '' zaplanowane odpowiedzi atrapy'') False), P))"

definition as_completion :: "canned \<Rightarrow> message list \<Rightarrow> said \<Rightarrow> completion" where
  "as_completion P ms r =
     (case r of
        SaidCompletion c \<Rightarrow> c\<lparr>cm_stub := cn_stub P\<rparr>
      | SaidText t \<Rightarrow>
          \<lparr>cm_text = t, cm_model = md_name (cn_spec P), cm_provider = ''fake'', cm_tool_calls = [],
           cm_usage = \<lparr>us_input = int (rough_tokens ms), us_output = int (cp_len t div 4), us_cost = 0\<rparr>,
           cm_finish = ''stop'', cm_stub = cn_stub P\<rparr>)"

definition canned_complete :: "(string \<Rightarrow> pyval) \<Rightarrow> message list \<Rightarrow> pydict list \<Rightarrow> canned \<Rightarrow> (exn + completion) \<times> canned" where
  "canned_complete fl ms tools P =
     (let P1 = P\<lparr>cn_calls := cn_calls P @ [ms], cn_tool_payloads := cn_tool_payloads P @ [tools]\<rparr> in
      if 0 < cn_fail_times P1 then
        (Inl (provider_fault (cn_fail_with P1) True), P1\<lparr>cn_fail_times := cn_fail_times P1 - 1\<rparr>)
      else case canned_next fl P1 of
          (Inl e, P2) \<Rightarrow> (Inl e, P2)
        | (Inr (Fixed r), P2) \<Rightarrow> (Inr (as_completion P2 ms r), P2)
        | (Inr (Computed f), P2) \<Rightarrow> (map_sum id (as_completion P2 ms) (f ms), P2))"

definition canned_stream :: "(string \<Rightarrow> pyval) \<Rightarrow> message list \<Rightarrow> canned \<Rightarrow> pieces \<times> canned" where
  "canned_stream fl ms P =
     (case canned_complete fl ms [] P of
        (Inl e, P1) \<Rightarrow> (([], Some e), P1)
      | (Inr c, P1) \<Rightarrow> ((map (\<lambda>w. w @ '' '') (split_on (CHR '' '') (cm_text c)), None), P1))"

definition last_prompt :: "canned \<Rightarrow> string" where
  "last_prompt P = (if cn_calls P = [] then [] else join nl (map ms_content (last (cn_calls P))))"

definition last_system_prompt :: "canned \<Rightarrow> string" where
  "last_system_prompt P = (if cn_calls P = [] then [] else join nl (contents_of ROLE_SYSTEM (last (cn_calls P))))"

definition tool_call_reply :: "string \<Rightarrow> pydict \<Rightarrow> string \<Rightarrow> completion" where
  "tool_call_reply nm args t =
     \<lparr>cm_text = t, cm_model = md_name FAKE_SPEC, cm_provider = ''fake'',
      cm_tool_calls = [\<lparr>tc_id = ''call-1'', tc_name = nm, tc_arguments = args\<rparr>], cm_usage = no_usage, cm_finish = ''stop'',
      cm_stub = False\<rparr>"

definition plan_reply :: "pydict list \<Rightarrow> string \<Rightarrow> string" where
  "plan_reply steps summary =
     json_text (PDict [(''summary'', PStr (if summary = [] then ''plan testowy'' else summary)), (''steps'', PList (map PDict steps))])"

subsection \<open>The prompts it knows\<close>

lemma planner_prompt_is_known: "contains (system_prompt language) PLANNER_MARKER"
  by (simp add: system_prompt_def PLANNER_MARKER_def)

lemma verifier_prompt_is_known: "contains (verify_prompt language) VERIFIER_MARKER"
  by (simp add: verify_prompt_def VERIFIER_MARKER_def)

subsection \<open>The catalogue it reads is the planner's\<close>

lemma bracketed_list:
  assumes "CHR ''['' \<notin> set a"
  shows "bracketed (a @ ''['' @ m @ '']'') = ''['' @ m @ '']''"
proof -
  have "dropWhile (\<lambda>c. c \<noteq> CHR ''['') (a @ ''['' @ m @ '']'') = ''['' @ m @ '']''"
    using assms by (subst dropWhile_append2) auto
  then show ?thesis by (simp add: bracketed_def)
qed

lemma named_tools_of_catalogue: "named_tools (PList (map PDict (map describe_for_model ss))) = map describe_for_model ss"
  by (induction ss) (simp_all add: named_tools_def List.map_filter_def describe_for_model_def)

text \<open>The instructions themselves have brackets too, and what stands between them is no JSON.\<close>

definition EXAMPLE_BODY :: string where
  "EXAMPLE_BODY = ''['' @ [CHR 0x22] @ ''przyj'' @ pl_e @ ''te za'' @ pl_l @ ''o'' @ pl_z @ ''enia'' @ [CHR 0x22] @ ''],'' @ nl @ ''  '' @ [CHR 0x22] @ ''steps'' @ [CHR 0x22] @ '': ['' @ nl @ ''    {'' @ [CHR 0x22] @ ''key'' @ [CHR 0x22] @ '': '' @ [CHR 0x22] @ ''krotki-identyfikator'' @ [CHR 0x22] @ '', '' @ [CHR 0x22] @ ''tool'' @ [CHR 0x22] @ '': '' @ [CHR 0x22] @ ''nazwa_narzedzia'' @ [CHR 0x22] @ '','' @ nl @ ''      '' @ [CHR 0x22] @ ''params'' @ [CHR 0x22] @ '': {}, '' @ [CHR 0x22] @ ''purpose'' @ [CHR 0x22] @ '': '' @ [CHR 0x22] @ ''po co ten krok'' @ [CHR 0x22] @ '', '' @ [CHR 0x22] @ ''expects'' @ [CHR 0x22] @ '': '' @ [CHR 0x22] @ ''dobry wynik'' @ [CHR 0x22] @ '','' @ nl @ ''      '' @ [CHR 0x22] @ ''optional'' @ [CHR 0x22] @ '': false}'' @ nl @ ''  ''"

lemma example_is_no_json: "json_loads fl (EXAMPLE_BODY @ '']'') = None"
  by code_simp

definition PROMPT_REST :: string where
  "PROMPT_REST = '','' @ nl @ ''  '' @ [CHR 0x22] @ ''question'' @ [CHR 0x22] @ '': '' @ [CHR 0x22] @ [CHR 0x22] @ nl @ ''}'' @ nl @ ''Je'' @ pl_s @ ''li naprawd'' @ pl_e @ '' brakuje informacji: zwr'' @ pl_o @ pl_c @ '' puste '' @ [CHR 0x22] @ ''steps'' @ [CHR 0x22] @ '' i jedno pytanie w'' @ nl @ [CHR 0x22] @ ''question'' @ [CHR 0x22] @ ''. Odpowiadaj w j'' @ pl_e @ ''zyku: ''"

lemma bracketed_span:
  assumes "dropWhile (\<lambda>c. c \<noteq> CHR ''['') s = e @ '']'' @ b" "CHR '']'' \<notin> set b"
  shows "bracketed s = e @ '']''"
proof -
  have "dropWhile (\<lambda>c. c \<noteq> CHR '']'') (rev b @ '']'' @ rev e) = '']'' @ rev e"
    using assms(2) by (subst dropWhile_append2) auto
  then show ?thesis by (simp add: bracketed_def assms(1))
qed

lemma drop_chunk: "dropWhile p (x @ y) = (if list_all p x then dropWhile p y else dropWhile p x @ y)"
  by (induction x) auto

lemma forty: "nat_str 40 = ''40''"
  by code_simp

lemma no_json_in_the_instructions:
  assumes "CHR '']'' \<notin> set language"
  shows "tools_in fl (system_prompt language) = []"
proof -
  have "dropWhile (\<lambda>c. c \<noteq> CHR ''['') (system_prompt language) = EXAMPLE_BODY @ '']'' @ (PROMPT_REST @ language @ ''.'' @ nl)"
    by (simp add: system_prompt_def drop_chunk MAX_STEPS_def forty del: append.simps)
      (simp add: EXAMPLE_BODY_def PROMPT_REST_def)
  moreover have "CHR '']'' \<notin> set PROMPT_REST" by (simp add: PROMPT_REST_def)
  ultimately have "bracketed (system_prompt language) = EXAMPLE_BODY @ '']''"
    using assms bracketed_span [of "system_prompt language" EXAMPLE_BODY "PROMPT_REST @ language @ ''.'' @ nl"] by simp
  then show ?thesis by (simp add: tools_in_def example_is_no_json del: append.simps)
qed

lemma catalogue_is_found:
  assumes "CHR '']'' \<notin> set (pl_language P)"
    and "list_all (\<lambda>d. json_ok fl (PDict d)) (catalog_for_model (pl_platform P) (pl_registry P) None)"
  shows "extract_catalogue fl (as_messages (plan_messages P g)) = catalog_for_model (pl_platform P) (pl_registry P) None"
proof -
  let ?c = "catalog_for_model (pl_platform P) (pl_registry P) None"
  have "json_ok fl (PList (map PDict ?c))" using assms(2) by (simp add: list_all_iff)
  moreover have "catalog P = ''['' @ join '', '' (map json_text (map PDict ?c)) @ '']''" by (simp add: catalog_def)
  then have "bracketed (''Dost'' @ pl_e @ ''pne narz'' @ pl_e @ ''dzia (JSON):'' @ nl @ catalog P) = catalog P"
    using bracketed_list [of "''Dost'' @ pl_e @ ''pne narz'' @ pl_e @ ''dzia (JSON):'' @ nl"] by simp
  moreover have "catalog P \<noteq> []" by (simp add: catalog_def)
  ultimately have "tools_in fl (''Dost'' @ pl_e @ ''pne narz'' @ pl_e @ ''dzia (JSON):'' @ nl @ catalog P) = named_tools (PList (map PDict ?c))"
    using json_loads_of_text [of fl "PList (map PDict ?c)"] by (simp add: tools_in_def catalog_def del: json_text.simps append.simps)
  moreover have "named_tools (PList (map PDict ?c)) = ?c" unfolding catalog_for_model_def by (rule named_tools_of_catalogue)
  ultimately show ?thesis
    using no_json_in_the_instructions [OF assms(1), of fl]
    by (simp add: extract_catalogue_def as_messages_def plan_messages_def contents_of_def plain_message_def del: append.simps)
qed

subsection \<open>What it plans\<close>

lemma best_tool_sound:
  assumes "best_tool words ts best = Inr (k, Some t)" "snd best \<noteq> Some t"
  shows "t \<in> set ts \<and> (\<exists>ps. params_of t = Inr ps \<and> \<not> list_ex is_required ps) \<and> (\<exists>es. effects_in t = Inr es \<and> only_looks es)"
  using assms
proof (induction words ts best rule: best_tool.induct)
  case (2 words u ts best)
  then show ?case
    by (cases "snd best = Some t") (auto simp: and_then_def Let_def split: sum.splits if_splits)
qed simp

lemma described_params: "params_of (describe_for_model s) = Inr (map (\<lambda>(k, v). (k, PDict (to_schema v))) (ts_params s))"
  by (simp add: params_of_def tool_field_def describe_for_model_def or_else_def)

lemma described_required: "list_ex is_required (map (\<lambda>(k, v). (k, PDict (to_schema v))) xs) = list_ex (\<lambda>(k, v). ps_required v) xs"
proof (induction xs)
  case (Cons x xs)
  have "map_of (to_schema s) ''required'' = (if ps_required s then Some (PBool True) else None)" for s
    by (simp add: to_schema_def)
  then show ?case using Cons by (cases x) (simp add: is_required_def)
qed simp

lemma described_effects:
  assumes "effects_in (describe_for_model s) = Inr es" "only_looks es"
  shows "ts_effects s \<subseteq> {READ, NETWORK}"
proof
  fix e assume e: "e \<in> ts_effects s"
  then have "PStr (effect_value e) \<in> set es"
    using assms(1) by (auto simp: effects_in_def tool_field_def describe_for_model_def or_else_def items_of_def py_iter_def split: list.splits if_splits)
  then show "e \<in> {READ, NETWORK}" using assms(2) by (cases e) (auto simp: only_looks_def)
qed

lemma described_always_answers:
  "\<exists>r. best_tool words (map describe_for_model ss) best = Inr r"
proof (induction ss arbitrary: best)
  case (Cons s ss)
  have "\<exists>es. effects_in (describe_for_model s) = Inr es"
    by (auto simp: effects_in_def tool_field_def describe_for_model_def or_else_def items_of_def py_iter_def hashable_def comp_def)
  then obtain es where "effects_in (describe_for_model s) = Inr es" by blast
  then show ?case
    by (cases "only_looks es"; cases "list_ex is_required (map (\<lambda>(k, v). (k, PDict (to_schema v))) (ts_params s))")
      (simp_all only: best_tool.simps list.map described_params and_then_simps Let_def if_True if_False simp_thms Cons.IH)
qed simp

lemma canned_plan_of_described:
  assumes "extract_catalogue fl ms = map describe_for_model ss"
  shows "\<exists>v. canned_plan fl ms = Inr v \<and> (v = needs_a_model \<or> \<not> wants_change (extract_goal ms) \<and>
    (\<exists>s \<in> set ss. v = plan_with (describe_for_model s) \<and> ts_effects s \<subseteq> {READ, NETWORK} \<and> \<not> list_ex (\<lambda>(k, p). ps_required p) (ts_params s)))"
proof -
  obtain k b where kb: "best_tool (tokens (extract_goal ms)) (map describe_for_model ss) (0, None) = Inr (k, b)"
    using described_always_answers by (metis surj_pair)
  have "\<exists>s \<in> set ss. t = describe_for_model s \<and> ts_effects s \<subseteq> {READ, NETWORK} \<and> \<not> list_ex (\<lambda>(k, p). ps_required p) (ts_params s)"
    if b: "b = Some t" for t
  proof -
    note found = best_tool_sound [OF kb [unfolded b]]
    then obtain s where s: "s \<in> set ss" "t = describe_for_model s" by auto
    from found s(2) show ?thesis
      using s described_effects [of s] by (auto simp: described_params described_required)
  qed
  then show ?thesis
    using assms kb by (auto simp: canned_plan_def Let_def split: option.splits)
qed

lemma canned_says_it_is_canned: "canned_complete fl ms tools C = (Inr c, C') \<Longrightarrow> cm_stub c = cn_stub C"
proof -
  assume run: "canned_complete fl ms tools C = (Inr c, C')"
  have next_stub: "canned_next fl D = (r, D') \<Longrightarrow> cn_stub D' = cn_stub D" for D r D'
    by (auto simp: canned_next_def split: if_splits)
  have said_stub: "cm_stub (as_completion D ms r) = cn_stub D" for D r by (cases r) (simp_all add: as_completion_def)
  from run show ?thesis
    by (auto simp: canned_complete_def Let_def said_stub map_sum_def dest!: next_stub split: if_splits prod.splits sum.splits reply_script.splits)
qed

lemma scripted_failures_come_first:
  assumes "cn_fail_times C = Suc k"
  shows "\<exists>C'. canned_complete fl ms tools C = (Inl (provider_fault (cn_fail_with C) True), C') \<and> cn_fail_times C' = k \<and>
    cn_index C' = cn_index C"
  using assms by (simp add: canned_complete_def Let_def)


definition looking_tool :: "unit tool_spec" where
  "looking_tool =
     \<lparr>ts_name = ''disk_usage'', ts_summary = ''Miejsce na dysku'', ts_handler = (), ts_params = [], ts_effects = {READ},
      ts_platforms = [''*''], ts_category = ''system'', ts_timeout = 30, ts_reversible = True, ts_trusted_source = False,
      ts_resources = None, ts_estimate = None, ts_danger_note = [], ts_examples = []\<rparr>"


subsection \<open>Words it does not see\<close>

text \<open>A letter without a decomposition splits the word it stands in, so the stems of switching off, sending and paying match no
  inflected Polish word; and a stem of four letters matches only the whole word.\<close>

lemma polish_changes_are_overlooked:
  "\<not> wants_change (''wy'' @ pl_l @ pl_a @ ''cz internet'')" "\<not> wants_change (''w'' @ pl_l @ pl_a @ ''cz tryb samolotowy'')" "\<not> wants_change (''zap'' @ pl_l @ ''a'' @ pl_c @ '' rachunek'')"
  "\<not> wants_change (''wys'' @ pl_l @ ''a'' @ pl_c @ '' raport'')" "\<not> wants_change (''chc'' @ pl_e @ '' usun'' @ pl_a @ pl_c @ '' plik'')" "\<not> wants_change ''odinstaluj program''"
  by code_simp+

end
