(* ===== verification/Engines.thy ===== *)
theory Engines
  imports Router
begin

section \<open>Which road a conversation takes (voice/engines.py)\<close>

text \<open>
  The choice between a vendor's realtime session, the local engines and nothing, over the model router, and the scripted
  engines that stand in for a microphone and a speaker. The engines themselves are protocols without code. A synthesis is a
  generator: \<open>speak_word\<close> is one word of it, and the words still to come are what the caller holds.
\<close>

datatype road = PROVIDER_REALTIME | LOCAL_ROAD | NO_ROAD

fun road_value :: "road \<Rightarrow> string" where
  "road_value PROVIDER_REALTIME = ''provider_realtime''"
| "road_value LOCAL_ROAD = ''local''"
| "road_value NO_ROAD = ''unavailable''"

record voice_plan =
  vp_road :: road
  vp_provider :: string
  vp_model :: string
  vp_reason :: string

definition no_road :: "string \<Rightarrow> voice_plan" where
  "no_road why = \<lparr>vp_road = NO_ROAD, vp_provider = [], vp_model = [], vp_reason = why\<rparr>"

definition local_road :: "string \<Rightarrow> voice_plan" where
  "local_road why = \<lparr>vp_road = LOCAL_ROAD, vp_provider = ''local'', vp_model = [], vp_reason = why\<rparr>"

definition plan_usable :: "voice_plan \<Rightarrow> bool" where
  "plan_usable p = (vp_road p \<noteq> NO_ROAD)"

definition voice_plan_dict :: "voice_plan \<Rightarrow> pydict" where
  "voice_plan_dict p =
     [(''road'', PStr (road_value (vp_road p))), (''provider'', PStr (vp_provider p)), (''model'', PStr (vp_model p)),
      (''reason'', PStr (vp_reason p))]"

definition voice_need :: "privacy \<Rightarrow> need" where
  "voice_need p =
     \<lparr>nd_job = JOB_VOICE, nd_privacy = p, nd_requires = {CAN_REALTIME_VOICE}, nd_max_cost = None, nd_prefer_speed = False,
      nd_min_context = 0\<rparr>"

definition choose_road :: "instant \<Rightarrow> router \<Rightarrow> privacy \<Rightarrow> string \<Rightarrow> bool \<Rightarrow> bool \<Rightarrow> voice_plan" where
  "choose_road now R privacy prefer online local_ready =
     (let fallback =
        (if local_ready then local_road (if \<not> online then ''brak sieci'' else ''brak dostawcy realtime'')
         else no_road (''brak silnika mowy '' @ em_dash @ '' dodaj klucz dostawcy albo pobierz silniki lokalne''))
      in if prefer = ''local'' \<or> privacy = LOCAL_ONLY then
          (if local_ready then local_road (''prywatno'' @ pl_s @ pl_c @ '': nic nie opuszcza komputera'')
           else no_road (''tryb lokalny wymaga pobrania silnik'' @ pl_o @ ''w mowy''))
        else if online \<and> prefer \<in> {''auto'', ''provider_realtime''} then
          (case candidates now (voice_need privacy) R of
             c # _ \<Rightarrow> \<lparr>vp_road = PROVIDER_REALTIME, vp_provider = md_provider (ch_model c), vp_model = md_name (ch_model c),
                        vp_reason = (''rozmowa w czasie rzeczywistym u dostawcy'')\<rparr>
           | [] \<Rightarrow> if prefer = ''provider_realtime'' then no_road (pl_z @ ''aden skonfigurowany dostawca nie ma trybu realtime'')
                   else fallback)
        else fallback)"

text \<open>\<open>VoiceService.plan_road\<close> of voice/__init__.py, with the configured engine.\<close>

definition plan_road :: "instant \<Rightarrow> router option \<Rightarrow> string \<Rightarrow> bool \<Rightarrow> bool \<Rightarrow> voice_plan" where
  "plan_road now R engine online local_ready =
     (case R of None \<Rightarrow> no_road (''brak routera modeli'') | Some R \<Rightarrow> choose_road now R PRIV_ANY engine online local_ready)"

subsection \<open>Scripted engines\<close>

record scripted_ear =
  se_queue :: "string list"
  se_heard :: "string list"
  se_started :: bool

definition ear_start :: "scripted_ear \<Rightarrow> scripted_ear" where
  "ear_start e = e\<lparr>se_started := True\<rparr>"

definition ear_feed :: "scripted_ear \<Rightarrow> string option \<times> scripted_ear" where
  "ear_feed e =
     (case se_queue e of
        [] \<Rightarrow> (None, e)
      | p # ps \<Rightarrow> (Some p, e\<lparr>se_queue := ps, se_heard := se_heard e @ [p]\<rparr>))"

definition ear_finish :: "scripted_ear \<Rightarrow> string \<times> scripted_ear" where
  "ear_finish e = (strip (join '' '' (se_heard e)), e\<lparr>se_heard := [], se_started := False\<rparr>)"

record recording_mouth =
  rm_said :: "string list"
  rm_stopped :: nat
  rm_interrupted :: "string option"
  rm_speaking :: "string option"

text \<open>A synthesis of \<open>t\<close> asked for its next word: the first step begins it, and the step after the last word ends it.\<close>

definition speak_begin :: "string \<Rightarrow> recording_mouth \<Rightarrow> string list \<times> recording_mouth" where
  "speak_begin t m = (split_ws t, m\<lparr>rm_speaking := Some t\<rparr>)"

definition speak_word :: "string \<Rightarrow> string list \<Rightarrow> recording_mouth \<Rightarrow> string option \<times> string list \<times> recording_mouth" where
  "speak_word t ws m =
     (case ws of
        w # rest \<Rightarrow> (Some w, rest, m)
      | [] \<Rightarrow> (None, [], m\<lparr>rm_speaking := None, rm_said := rm_said m @ [t]\<rparr>))"

definition mouth_stop :: "recording_mouth \<Rightarrow> recording_mouth" where
  "mouth_stop m =
     (let m1 = m\<lparr>rm_stopped := rm_stopped m + 1\<rparr>
      in case rm_speaking m of None \<Rightarrow> m1 | Some t \<Rightarrow> m1\<lparr>rm_interrupted := Some t, rm_speaking := None\<rparr>)"

subsection \<open>Where speech goes\<close>

text \<open>Speech leaves the machine only online, when neither the engine nor the privacy says local, and then to a usable provider
  of the router, by a model that can do it.\<close>

lemma speech_leaves_only_when_allowed:
  assumes "vp_road (choose_road now R privacy prefer online local_ready) = PROVIDER_REALTIME"
  shows "online \<and> prefer \<noteq> ''local'' \<and> privacy \<noteq> LOCAL_ONLY \<and>
    (\<exists>c. candidates now (voice_need privacy) R = c # tl (candidates now (voice_need privacy) R) \<and>
       vp_provider (choose_road now R privacy prefer online local_ready) = md_provider (ch_model c) \<and>
       vp_model (choose_road now R privacy prefer online local_ready) = md_name (ch_model c))"
  using assms by (auto simp: choose_road_def no_road_def local_road_def Let_def split: if_splits list.splits)

text \<open>With the local engines at hand there is a road unless the user insists on a vendor that cannot be had.\<close>

lemma local_engines_are_a_road:
  assumes "prefer \<noteq> ''provider_realtime'' \<or> \<not> online"
  shows "plan_usable (choose_road now R privacy prefer online True)"
  using assms by (simp add: choose_road_def plan_usable_def no_road_def local_road_def Let_def split: list.split)

text \<open>What was fed is what the utterance says.\<close>

fun ear_feeds :: "nat \<Rightarrow> scripted_ear \<Rightarrow> scripted_ear" where
  "ear_feeds 0 e = e"
| "ear_feeds (Suc n) e = ear_feeds n (snd (ear_feed e))"

lemma feeding_moves_the_script:
  "se_heard (ear_feeds n e) = se_heard e @ take n (se_queue e) \<and> se_queue (ear_feeds n e) = drop n (se_queue e)"
  by (induction n arbitrary: e) (auto simp: ear_feed_def split: list.splits)

lemma utterance_is_what_was_fed:
  assumes "se_heard e = []"
  shows "fst (ear_finish (ear_feeds n e)) = strip (join '' '' (take n (se_queue e)))"
  using assms by (simp add: ear_finish_def feeding_moves_the_script)

lemma cut_off_text_is_not_said:
  assumes "rm_speaking m = Some t"
  shows "rm_said (mouth_stop m) = rm_said m \<and> rm_interrupted (mouth_stop m) = Some t \<and> rm_speaking (mouth_stop m) = None"
  using assms by (simp add: mouth_stop_def Let_def)

end
