(* ===== verification/Spec2Isabelle.thy ===== *)
theory Spec2Isabelle
  imports Effects Outbox Supervisor Pool Database Settings Capabilities Http Notifications VoiceService Api Conversation Canned Engines
begin

text \<open>
  A verification development for GARIS (\<open>src/core/src/garis\<close>), a personal agent that does digital work for its user
  on the user's own machine. The paths below are relative to that directory.

  \<^bold>\<open>The program.\<close> Something is said (\<open>conversation.py\<close>) or posted to the local API (\<open>api\<close>). Rules
  (\<open>agent/intent.py\<close>) or a model decide whether it is talk or work; work becomes a task (\<open>tasks\<close>), which the
  supervisor runs as a coroutine around the agent loop (\<open>agent/loop.py\<close>). The loop asks a planner for a plan (a reflex
  for questions the machine answers itself, or a model's JSON) and performs each step as an action of the runtime
  (\<open>runtime\<close>): the executor takes it through its gates (registry, policy, approval, lease, run, audit) and the
  handler may perform further actions. A verifier judges what was measured, a report says what happened, and the task's
  row and step journal keep what a restart needs. Models are reached through a router over the providers of a pool, whose
  keys lie in an encrypted vault. Everything publishes on one event bus, which feeds the API's sockets, the outbox and the
  notification gate. A wake-word matcher and a voice session decide who may talk.

  \<^bold>\<open>How code becomes definitions.\<close> A class with state is a record, its methods are functions from the state (and
  what they read from outside) to a result and the state they leave; a raised exception is the left side of a sum (\<open>exn\<close>
  of \<open>Errors\<close>), a method that changes state before it raises returns both. An enum or a closed class hierarchy is a
  datatype, a table of SQLite a list of rows in insertion order, a dict an association list in insertion order. Python text
  is its UTF-8 bytes; slices and lengths by code point are \<open>cp_take\<close> and \<open>cp_len\<close>. A value the source inspects
  without a type is a \<open>pyval\<close>. Clock readings, fresh identifiers and random bytes are arguments, in the order they are
  drawn. An operation that awaits is split there where something else can run in between, and interleavings are
  inductive step relations. Where one function calls another, the model's does too; nothing is stubbed but what is named
  as a parameter.

  \<^bold>\<open>Theories.\<close>

  \<^item> \<open>Prelude\<close>: text, code points, \<open>pyval\<close>, the compact JSON writer, dicts, generic lemmas.
  \<^item> \<open>Contracts\<close> (\<open>kernel/contracts.py\<close>), \<open>Effects\<close> (\<open>kernel/effects.py\<close>), \<open>Outbox\<close>
    (\<open>kernel/outbox.py\<close>), \<open>Events\<close> (\<open>events.py\<close>), \<open>Errors\<close> (\<open>errors.py\<close>): the kernel. An effect is
    told to proceed at most once; what the outbox marks published was delivered; a bounded queue keeps the newest events.
    The locale \<open>effect_ledger\<close> is interpreted on the operations of the effect store.
  \<^item> \<open>Actions\<close> (\<open>runtime/action.py\<close>, \<open>runtime/registry.py\<close>), \<open>Policy\<close>, \<open>AuditTrail\<close>
    (\<open>runtime/audit.py\<close>), \<open>Approvals\<close>, \<open>Leases\<close>, \<open>Executor\<close> (\<open>runtime/executor.py\<close>,
    \<open>runtime/context.py\<close>): acting under control. The lemmas follow \<open>perform\<close> through its gates: success needs an
    allowing policy or a yes spent on exactly that operation, a stopped action runs nothing, each result is backed by its
    own audit row, leases exclude each other over all interleavings, the policy is monotone and some gates cannot be
    configured away.
  \<^item> \<open>Crypto\<close> (\<open>crypto.py\<close>), \<open>Vault\<close> (\<open>vault.py\<close>): Base64 and token round trips, the master key file,
    and the vault as a refinement of a map from cleaned names to secrets.
  \<^item> \<open>Goals\<close>, \<open>TextFold\<close> (\<open>text.py\<close>), \<open>Reflexes\<close>, \<open>Planner\<close>, \<open>Verify\<close>, \<open>Reports\<close>,
    \<open>Loop\<close>, \<open>Runs\<close> (\<open>agent\<close>): a plan can run, a verdict is earned, the loop ends, and its outcome is
    backed by actions that were audited. The locale \<open>durable_journal\<close> is what the loop needs of a journal.
  \<^item> \<open>Tasks\<close> (\<open>tasks/models.py\<close>, \<open>tasks/store.py\<close>), \<open>Supervisor\<close> (\<open>tasks/supervisor.py\<close>): the
    store is that journal; rows move along the state machine over every interleaving, and a restart brings back what was
    running.
  \<^item> \<open>Health\<close>, \<open>Router\<close>, \<open>Pool\<close> (\<open>models\<close>): what state a provider is in, the ranking and the calls
    down it, privacy and budget, and the rebuilding of providers.
  \<^item> \<open>Net\<close> (\<open>net.py\<close>), \<open>Adapters\<close> (\<open>models/providers\<close>), \<open>Canned\<close>
    (\<open>models/providers/fake.py\<close>): what the HTTP client makes of an outcome, the requests, replies and streams of the four
    vendors, and the provider for a machine without any. An assistant turn reads back as it was sent, a key in a header
    reaches no result, a key in an address reaches the errors, and a plan without a model only looks.
  \<^item> \<open>Json\<close>, \<open>Lenient\<close> (\<open>parse_json_lenient\<close> of \<open>models/base.py\<close>): the JSON reader with its
    round trip against the writer, and the reading of JSON out of a model's prose.
  \<^item> \<open>Database\<close> (\<open>store.py\<close>), \<open>Settings\<close> (\<open>config.py\<close>, \<open>settings.py\<close>): transactions are atomic; a
    settings change is all or nothing and loads back.
  \<^item> \<open>Capabilities\<close> (\<open>capabilities\<close>): typed arguments, and verified only what was measured.
  \<^item> \<open>WebSocket\<close>, \<open>Http\<close>, \<open>Api\<close> (\<open>api\<close>, and the wiring of \<open>app.py\<close> they reach): from the
    bytes of a connection to the bytes of the answer; a client without the token changes and learns nothing; what the
    handlers do to tasks, approvals, memory, vault and settings.
  \<^item> \<open>Notifications\<close> (\<open>notifications.py\<close>): duplicates, quiet hours, the hourly limit.
  \<^item> \<open>Wake\<close>, \<open>VoiceSession\<close>, \<open>Audio\<close>, \<open>VoiceService\<close>, \<open>Engines\<close> (\<open>voice\<close>): the wake
    phrase and its edit distance, the machine of who may talk, loudness over the reals, and when speech leaves the machine.
  \<^item> \<open>SecretScan\<close>, \<open>Memory\<close> (\<open>memory.py\<close>): a matcher for the credential patterns, correct against their
    meaning, and encrypted memories that never hold what a pattern finds.
  \<^item> \<open>Intent\<close> (\<open>agent/intent.py\<close>), \<open>Conversation\<close> (\<open>conversation.py\<close>): the one door for everything
    said; a task exists only when there is work, and talk needs no model.

  \<^bold>\<open>Bounds and fuel.\<close> Structural recursion is used where the code has it. Nested actions recurse on fuel and
  \<open>None\<close> is running out: \<open>perform_terminates\<close> and \<open>run_terminates\<close> show that fuel above every rank is
  enough when handlers perform only tools of a lower rank (a tool that performs itself would not end in the code either).
  The JSON reader's fuel is the length of its text, and \<open>parse_value_enough\<close> shows that more changes nothing; Python's own
  recursion limit is not modelled. Loops over attempts, repairs and candidates carry the source's own limits. Repetition in a
  pattern consumes at least one character per round, so the matcher ends. Limits of the code (frame sizes, header sizes, the
  delivery window, edit caps) are its constants.

  \<^bold>\<open>Parameters.\<close> Code outside the repository is an argument: AES-GCM, scrypt and DPAPI (law: opening what was
  sealed gives it back), SHA-256 and SHA-1, the path normalisation of the host, URL splitting, the
  text of a float, \<open>ast\<close>, what Unicode calls a letter or a space beyond ASCII. Handlers of tools, providers and what a
  model says are arguments too, and the theorems hold for every value of them. Where a theorem rests on a law of such an
  argument the law is a hypothesis of it, and its witness gives a function that satisfies it.

  \<^bold>\<open>Deviations.\<close> Floats are rationals (loudness: reals), so rounding is not modelled. \<open>strip\<close> and
  \<open>lower\<close> act on ASCII unless a theory says otherwise. Fields that arrive with a type nobody sends are an error of the
  model where the theory's text says so. Log lines and metrics are left out.

  \<^bold>\<open>Not modelled.\<close> The tools themselves (\<open>tools\<close>: processes, files, shells, windows, packages, remote hosts) do
  their work in the operating system, and handlers are parameters of the executor. \<open>cli.py\<close> and \<open>console.py\<close>
  read arguments and print, \<open>paths.py\<close> and the rest of \<open>app.py\<close> wire things up. The pump of events to a socket,
  start and stop of the listener, and handlers that only describe what other components hold are not modelled either.
\<close>

end
